(* ===== verification/Prelude.thy ===== *)
theory Prelude
  imports Main
begin

text \<open>
  The prelude of the Blindport control-plane development: the time line and its units, the
  exceptions of the Python code as values, computations over a session that may raise, and the
  list-backed tables on which \<^verbatim>\<open>SELECT\<close>, conditional \<^verbatim>\<open>UPDATE\<close> and
  \<^verbatim>\<open>INSERT\<close> are modelled, together with the lemmas every component uses.
\<close>

named_theorems table_simps \<open>rewrite rules for selections and conditional updates of tables\<close>
named_theorems clock_simps \<open>unfolding rules for durations\<close>

section \<open>Time\<close>

text \<open>
  A \<^verbatim>\<open>datetime\<close> is an instant with microsecond resolution; it is modelled by the number of
  microseconds since the epoch. All rows are read through \<^verbatim>\<open>_aware\<close>, so every instant is UTC.
\<close>

type_synonym time = int

definition seconds :: "int \<Rightarrow> time" where
  [clock_simps]: "seconds n = n * 1000000"

definition days :: "int \<Rightarrow> time" where
  [clock_simps]: "days n = seconds (n * 86400)"

text \<open>\<^verbatim>\<open>math.floor(delta.total_seconds())\<close>\<close>

definition floor_seconds :: "time \<Rightarrow> int" where
  [clock_simps]: "floor_seconds d = d div 1000000"

text \<open>\<^verbatim>\<open>math.ceil(delta.total_seconds())\<close>\<close>

definition ceil_seconds :: "time \<Rightarrow> int" where
  [clock_simps]: "ceil_seconds d = - ((- d) div 1000000)"

lemma seconds_mono [simp]: "seconds a \<le> seconds b \<longleftrightarrow> a \<le> b"
  by (simp add: seconds_def)

lemma seconds_less [simp]: "seconds a < seconds b \<longleftrightarrow> a < b"
  by (simp add: seconds_def)

lemma days_pos [simp]: "0 < days n \<longleftrightarrow> 0 < n"
  by (simp add: days_def seconds_def)

lemma days_nonneg [simp]: "0 \<le> days n \<longleftrightarrow> 0 \<le> n"
  by (simp add: days_def seconds_def)

lemma days_le [simp]: "days a \<le> days b \<longleftrightarrow> a \<le> b"
  by (simp add: days_def seconds_def)

lemma floor_seconds_le: "seconds (floor_seconds d) \<le> d"
  unfolding clock_simps by linarith

lemma ceil_seconds_ge: "d \<le> seconds (ceil_seconds d)"
  unfolding clock_simps by linarith

section \<open>Strings\<close>

text \<open>
  A Python \<^verbatim>\<open>str\<close> is a list of characters. Case conversion is written for the ASCII letters;
  the code only applies it to ASCII text.
\<close>

definition lower_letters :: string where
  "lower_letters = ''abcdefghijklmnopqrstuvwxyz''"

definition upper_letters :: string where
  "upper_letters = ''ABCDEFGHIJKLMNOPQRSTUVWXYZ''"

definition lower_char :: "char \<Rightarrow> char" where
  "lower_char c = (case map_of (zip upper_letters lower_letters) c of None \<Rightarrow> c | Some d \<Rightarrow> d)"

definition upper_char :: "char \<Rightarrow> char" where
  "upper_char c = (case map_of (zip lower_letters upper_letters) c of None \<Rightarrow> c | Some d \<Rightarrow> d)"

definition str_lower :: "string \<Rightarrow> string" where
  "str_lower = map lower_char"

definition str_upper :: "string \<Rightarrow> string" where
  "str_upper = map upper_char"

text \<open>\<^verbatim>\<open>s.split(sep)\<close> for a one-character separator: always at least one part.\<close>

fun split_on :: "char \<Rightarrow> string \<Rightarrow> string list" where
  "split_on sep [] = [[]]"
| "split_on sep (c # cs) =
     (if c = sep then [] # split_on sep cs
      else (case split_on sep cs of [] \<Rightarrow> [[c]] | p # ps \<Rightarrow> (c # p) # ps))"

text \<open>\<^verbatim>\<open>sep.join(parts)\<close>\<close>

fun join_on :: "string \<Rightarrow> string list \<Rightarrow> string" where
  "join_on sep [] = []"
| "join_on sep [p] = p"
| "join_on sep (p # q # ps) = p @ sep @ join_on sep (q # ps)"

text \<open>\<^verbatim>\<open>str(i)\<close> of an integer.\<close>

fun nat_digits :: "nat \<Rightarrow> string" where
  "nat_digits n = (if n < 10 then [''0123456789'' ! n] else nat_digits (n div 10) @ [''0123456789'' ! (n mod 10)])"

definition str_int :: "int \<Rightarrow> string" where
  "str_int i = (if i < 0 then ''-'' @ nat_digits (nat (- i)) else nat_digits (nat i))"

declare nat_digits.simps [simp del]

text \<open>\<^verbatim>\<open>s.endswith(suffix)\<close>\<close>

definition ends_with :: "string \<Rightarrow> string \<Rightarrow> bool" where
  "ends_with s suf \<longleftrightarrow> length suf \<le> length s \<and> drop (length s - length suf) s = suf"

text \<open>White space below 256 (\<^verbatim>\<open>str.isspace\<close>), and \<^verbatim>\<open>s.strip() != s\<close> for a non-empty string.\<close>

definition is_space :: "char \<Rightarrow> bool" where
  "is_space c = (let n = of_char c :: nat in
     (9 \<le> n \<and> n \<le> 13) \<or> (28 \<le> n \<and> n \<le> 32) \<or> n = 133 \<or> n = 160)"

definition untrimmed :: "string \<Rightarrow> bool" where
  "untrimmed s = (s \<noteq> [] \<and> (is_space (hd s) \<or> is_space (last s)))"

text \<open>The truth value of a nullable string and of a nullable integer.\<close>

definition nonempty :: "string option \<Rightarrow> bool" where
  "nonempty v = (v \<noteq> None \<and> v \<noteq> Some [])"

definition nonzero :: "int option \<Rightarrow> bool" where
  "nonzero v = (v \<noteq> None \<and> v \<noteq> Some 0)"

lemma nonempty_simps [simp]: "nonempty None = False" "nonempty (Some s) \<longleftrightarrow> s \<noteq> []"
  by (simp_all add: nonempty_def)

lemma nonzero_simps [simp]: "nonzero None = False" "nonzero (Some n) \<longleftrightarrow> n \<noteq> 0"
  by (simp_all add: nonzero_def)

lemma nat_digits_value: "foldl (\<lambda>a c. 10 * a + (of_char c - 48)) 0 (nat_digits n) = (n :: nat)"
proof (induction n rule: nat_digits.induct)
  case (1 n)
  have digit: "of_char (''0123456789'' ! m) = m + (48 :: nat)" if "m < 10" for m
    using that by (cases m rule: nat.exhaust) (auto simp: less_Suc_eq numeral_eq_Suc nth_Cons' split: if_splits)
  show ?case using 1 digit [of n] digit [of "n mod 10"] by (subst nat_digits.simps) auto
qed

lemma nat_digits_char: "set (nat_digits n) \<subseteq> set ''0123456789''"
proof (induction n rule: nat_digits.induct)
  case (1 n)
  have digit: "''0123456789'' ! m \<in> set ''0123456789''" if "m < 10" for m using that by (intro nth_mem) simp
  have "set (nat_digits n) \<subseteq> (if n < 10 then {''0123456789'' ! n} else set (nat_digits (n div 10)) \<union> {''0123456789'' ! (n mod 10)})"
    by (subst nat_digits.simps) simp
  also have "\<dots> \<subseteq> set ''0123456789''" using digit [of n] digit [of "n mod 10"] 1 by (cases "n < 10") (simp_all del: list.set)
  finally show ?case .
qed

lemma str_int_inj: "str_int a = str_int b \<Longrightarrow> a = b"
proof -
  assume eq: "str_int a = str_int b"
  have inj: "m = n" if "nat_digits m = nat_digits n" for m n using nat_digits_value [of m] nat_digits_value [of n] that by metis
  have neg: "CHR ''-'' # xs \<noteq> nat_digits m" for m xs
  proof
    assume "CHR ''-'' # xs = nat_digits m"
    then have "CHR ''-'' \<in> set (nat_digits m)" by (metis list.set_intros(1))
    then show False using nat_digits_char [of m] by auto
  qed
  show ?thesis
  proof (cases "a < 0"; cases "b < 0")
    assume "a < 0" "b < 0"
    then show ?thesis using eq inj [of "nat (- a)" "nat (- b)"] by (simp add: str_int_def)
  next
    assume "\<not> a < 0" "\<not> b < 0"
    then show ?thesis using eq inj [of "nat a" "nat b"] by (simp add: str_int_def)
  qed (use eq neg neg [symmetric] in \<open>simp_all add: str_int_def\<close>)
qed

lemma str_int_char: "set (str_int i) \<subseteq> insert (CHR ''-'') (set ''0123456789'')"
proof -
  have "set (str_int i) \<subseteq> insert (CHR ''-'') (set (nat_digits (nat (- i))) \<union> set (nat_digits (nat i)))" by (auto simp: str_int_def)
  then show ?thesis using nat_digits_char [of "nat (- i)"] nat_digits_char [of "nat i"] by fast
qed

lemma split_on_not_Nil [simp]: "split_on sep s \<noteq> []"
  by (induction s) (auto split: list.splits)

lemma join_split_on [simp]: "join_on [sep] (split_on sep s) = s"
proof (induction s)
  case (Cons c cs)
  obtain p ps where "split_on sep cs = p # ps"
    by (cases "split_on sep cs") auto
  with Cons show ?case
    by (cases ps) auto
qed simp

lemma split_on_append_sep:
  "sep \<notin> set p \<Longrightarrow> split_on sep (p @ sep # s) = p # split_on sep s"
  by (induction p) auto

lemma split_on_no_sep: "sep \<notin> set p \<Longrightarrow> split_on sep p = [p]"
  by (induction p) auto

lemma set_split_on: "p \<in> set (split_on sep s) \<Longrightarrow> sep \<notin> set p"
  by (induction s arbitrary: p) (auto split: if_splits list.splits)

lemma ends_with_iff: "ends_with s suf \<longleftrightarrow> (\<exists>pre. s = pre @ suf)"
proof
  assume "ends_with s suf"
  then have "s = take (length s - length suf) s @ suf"
    unfolding ends_with_def by (metis append_take_drop_id)
  then show "\<exists>pre. s = pre @ suf" ..
qed (auto simp: ends_with_def)

lemma ends_with_trans: "ends_with a b \<Longrightarrow> ends_with b c \<Longrightarrow> ends_with a c"
  by (auto simp: ends_with_iff)

lemma lower_char_id: "c \<notin> set upper_letters \<Longrightarrow> lower_char c = c"
  by (auto simp: lower_char_def map_of_zip_is_None dest: map_of_SomeD set_zip_leftD split: option.splits)

lemma lower_char_idem [simp]: "lower_char (lower_char c) = lower_char c"
proof (cases "c \<in> set upper_letters")
  case True
  have "\<forall>c \<in> set upper_letters. lower_char (lower_char c) = lower_char c"
    by (simp add: lower_char_def lower_letters_def upper_letters_def)
  with True show ?thesis by blast
qed (simp add: lower_char_id)

lemma str_lower_idem [simp]: "str_lower (str_lower s) = str_lower s"
  by (simp add: str_lower_def)

lemma length_str_lower [simp]: "length (str_lower s) = length s"
  by (simp add: str_lower_def)

lemma set_split_on_cover: "c \<in> set s \<Longrightarrow> c = sep \<or> (\<exists>p \<in> set (split_on sep s). c \<in> set p)"
proof (induction s)
  case (Cons x s)
  obtain q qs where "split_on sep s = q # qs" by (cases "split_on sep s") auto
  with Cons show ?case by auto
qed simp

lemma split_on_snoc: "split_on sep (s @ [sep]) = split_on sep s @ [[]]"
  by (induction s) (auto split: list.splits)

lemma last_label: "s \<noteq> [] \<Longrightarrow> last s = sep \<Longrightarrow> last (split_on sep s) = []"
  using split_on_snoc [of sep "butlast s"] by (metis append_butlast_last_id last_snoc)

lemma split_pair:
  assumes "split_on sep s = [a, b]" shows "s = a @ [sep] @ b"
proof -
  have "s = join_on [sep] (split_on sep s)" by simp
  with assms show ?thesis by simp
qed

lemma split_pair_eq: "sep \<notin> set a \<Longrightarrow> sep \<notin> set b \<Longrightarrow> split_on sep (a @ [sep] @ b) = [a, b]"
  by (simp add: split_on_append_sep split_on_no_sep)

lemma ends_with_dot: "ends_with s ''.'' \<longleftrightarrow> s \<noteq> [] \<and> last s = CHR ''.''"
  by (auto simp: ends_with_iff) (metis append_butlast_last_id)

section \<open>Tables\<close>

text \<open>
  A table is the list of its rows. \<^verbatim>\<open>SELECT ... WHERE\<close> is \<open>filter\<close>, a primary-key lookup is
  \<open>get_row\<close>, and \<^verbatim>\<open>UPDATE ... WHERE\<close> is \<open>update_where\<close>, whose \<^verbatim>\<open>rowcount\<close> is
  \<open>row_count\<close>. A unique index over a nullable column is \<open>unique_on\<close>: rows whose key is
  \<open>None\<close> never conflict.
\<close>

definition get_row :: "('r \<Rightarrow> 'k) \<Rightarrow> 'k \<Rightarrow> 'r list \<Rightarrow> 'r option" where
  "get_row key k rs = List.find (\<lambda>r. key r = k) rs"

definition update_where :: "('r \<Rightarrow> bool) \<Rightarrow> ('r \<Rightarrow> 'r) \<Rightarrow> 'r list \<Rightarrow> 'r list" where
  "update_where p f rs = map (\<lambda>r. if p r then f r else r) rs"

definition row_count :: "('r \<Rightarrow> bool) \<Rightarrow> 'r list \<Rightarrow> nat" where
  "row_count p rs = length (filter p rs)"

definition unique_on :: "('r \<Rightarrow> 'k option) \<Rightarrow> 'r list \<Rightarrow> bool" where
  "unique_on key rs = distinct (List.map_filter key rs)"

lemma update_where_Nil [table_simps]: "update_where p f [] = []"
  by (simp add: update_where_def)

lemma update_where_Cons [table_simps]:
  "update_where p f (r # rs) = (if p r then f r else r) # update_where p f rs"
  by (simp add: update_where_def)

lemma set_update_where:
  "set (update_where p f rs) = f ` {r \<in> set rs. p r} \<union> {r \<in> set rs. \<not> p r}"
  by (auto simp: update_where_def image_iff)

lemma length_update_where [simp]: "length (update_where p f rs) = length rs"
  by (simp add: update_where_def)

lemma in_update_where:
  "r \<in> set (update_where p f rs) \<longleftrightarrow> (\<exists>r0 \<in> set rs. r = (if p r0 then f r0 else r0))"
  by (auto simp: update_where_def)

lemma map_update_where:
  "(\<And>r. p r \<Longrightarrow> g (f r) = g r) \<Longrightarrow> map g (update_where p f rs) = map g rs"
  by (auto simp: update_where_def)

lemma update_where_none: "\<forall>r \<in> set rs. \<not> p r \<Longrightarrow> update_where p f rs = rs"
  by (auto simp: update_where_def intro: map_idI)

lemma row_count_0: "row_count p rs = 0 \<longleftrightarrow> (\<forall>r \<in> set rs. \<not> p r)"
  by (auto simp: row_count_def filter_empty_conv)

lemma map_idD: "map f xs = xs \<Longrightarrow> x \<in> set xs \<Longrightarrow> f x = x"
  by (induction xs) auto

lemma in_map_filter: "set (List.map_filter f xs) = {y. \<exists>x \<in> set xs. f x = Some y}"
  by (induction xs) (auto simp: List.map_filter_simps split: option.splits)

lemma distinct_map_sort_key [simp]: "distinct (map g (sort_key f xs)) = distinct (map g xs)"
  by (metis distinct_map distinct_sort set_sort)

lemma get_row_Some: "get_row key k rs = Some r \<Longrightarrow> r \<in> set rs \<and> key r = k"
  by (auto simp: get_row_def find_Some_iff)

lemma get_row_None: "get_row key k rs = None \<longleftrightarrow> k \<notin> key ` set rs"
  by (auto simp: get_row_def find_None_iff)

lemma get_row_unique:
  "distinct (map key rs) \<Longrightarrow> r \<in> set rs \<Longrightarrow> get_row key (key r) rs = Some r"
  by (induction rs) (auto simp: get_row_def)

lemma get_row_iff:
  "distinct (map key rs) \<Longrightarrow> get_row key k rs = Some r \<longleftrightarrow> r \<in> set rs \<and> key r = k"
  using get_row_unique get_row_Some by metis

lemma get_row_update_where:
  assumes "\<And>r. p r \<Longrightarrow> key (f r) = key r"
  shows "get_row key k (update_where p f rs) =
    map_option (\<lambda>r. if p r then f r else r) (get_row key k rs)"
  using assms by (induction rs) (auto simp: get_row_def table_simps)

lemma get_row_filter:
  "distinct (map f rs) \<Longrightarrow> get_row f k (filter P rs) =
     (case get_row f k rs of Some r \<Rightarrow> if P r then Some r else None | None \<Rightarrow> None)"
proof (induction rs)
  case (Cons r rs)
  have "get_row f k rs = None" if "f r = k"
    using Cons.prems that by (auto simp: get_row_None)
  then show ?case using Cons by (auto simp: get_row_def split: option.splits)
qed (simp add: get_row_def)

lemma row_count_le_1:
  "distinct (map key rs) \<Longrightarrow> row_count (\<lambda>r. key r = k \<and> q r) rs \<le> 1"
proof (induction rs)
  case (Cons r rs)
  show ?case
  proof (cases "key r = k")
    case True
    then have "filter (\<lambda>r. key r = k \<and> q r) rs = []"
      using Cons.prems by (force simp: filter_empty_conv image_iff)
    then show ?thesis by (simp add: row_count_def)
  qed (use Cons in \<open>simp add: row_count_def\<close>)
qed (simp add: row_count_def)

text \<open>
  The \<^verbatim>\<open>rowcount == 1\<close> test of a compare-and-set update on a primary key succeeds exactly when
  the stored row satisfies the condition.
\<close>

lemma row_count_key:
  "distinct (map key rs) \<Longrightarrow>
     row_count (\<lambda>r. key r = k \<and> q r) rs = 1 \<longleftrightarrow> (\<exists>r. get_row key k rs = Some r \<and> q r)"
proof (induction rs)
  case (Cons r rs)
  have none: "row_count (\<lambda>r. key r = k \<and> q r) rs = 0" if "key r = k"
    using Cons.prems that by (force simp: row_count_0 image_iff)
  show ?case
    using Cons none by (cases "key r = k") (auto simp: row_count_def get_row_def)
qed (simp add: row_count_def get_row_def)

lemma unique_on_Nil [simp]: "unique_on key []"
  by (simp add: unique_on_def List.map_filter_simps)

lemma unique_on_Cons:
  "unique_on key (r # rs) \<longleftrightarrow>
     (\<forall>k. key r = Some k \<longrightarrow> (\<forall>s \<in> set rs. key s \<noteq> Some k)) \<and> unique_on key rs"
  by (auto simp: unique_on_def List.map_filter_def image_iff split: option.splits)

lemma unique_onD:
  "unique_on key rs \<Longrightarrow> distinct (map idf rs) \<Longrightarrow> r \<in> set rs \<Longrightarrow> s \<in> set rs \<Longrightarrow>
     key r = Some k \<Longrightarrow> key s = Some k \<Longrightarrow> r = s"
  by (induction rs) (auto simp: unique_on_Cons)

lemma unique_on_append:
  "unique_on key (rs @ [r]) \<longleftrightarrow>
     unique_on key rs \<and> (\<forall>k. key r = Some k \<longrightarrow> (\<forall>s \<in> set rs. key s \<noteq> Some k))"
  by (induction rs) (auto simp: unique_on_Cons)

text \<open>An update that keeps or clears the key of every row keeps a unique index.\<close>

lemma unique_on_update_where:
  assumes "\<And>r. p r \<Longrightarrow> key (f r) = key r \<or> key (f r) = None"
  shows "unique_on key rs \<Longrightarrow> unique_on key (update_where p f rs)"
proof (induction rs)
  case (Cons r rs)
  have keep: "key s' = Some k \<Longrightarrow> \<exists>s \<in> set rs. key s = Some k"
    if "s' \<in> set (update_where p f rs)" for s' k
    using that assms by (fastforce simp: in_update_where split: if_splits)
  show ?case using Cons assms keep by (fastforce simp: table_simps unique_on_Cons)
qed (simp add: table_simps)

text \<open>Giving the row of one primary key a new key value.\<close>

lemma unique_on_update_key:
  assumes "unique_on key rs" and "distinct (map idf rs)" and "r \<in> set rs" and "idf r = i"
  shows "unique_on key (update_where (\<lambda>s. idf s = i) f rs) \<longleftrightarrow>
    (\<forall>k. key (f r) = Some k \<longrightarrow> (\<forall>s \<in> set rs. idf s \<noteq> i \<longrightarrow> key s \<noteq> Some k))"
  using assms
proof (induction rs)
  case (Cons x rs)
  show ?case
  proof (cases "idf x = i")
    case True
    then have x: "x = r" using Cons.prems by (auto simp: image_iff)
    have rest: "\<forall>s \<in> set rs. idf s \<noteq> i" using Cons.prems True by (auto simp: image_iff)
    then have "update_where (\<lambda>s. idf s = i) f rs = rs" by (simp add: update_where_none)
    with True x rest Cons.prems show ?thesis by (auto simp: table_simps unique_on_Cons)
  next
    case False
    then have r: "r \<in> set rs" using Cons.prems by auto
    have inj: "inj_on idf (set rs)" using Cons.prems(2) by (simp add: distinct_map)
    have same: "idf s = i \<Longrightarrow> s \<in> set rs \<Longrightarrow> s = r" for s
      using inj r Cons.prems(4) by (auto dest: inj_onD)
    have "{s \<in> set rs. idf s = i} = {r}" using same r Cons.prems(4) by blast
    then have "set (update_where (\<lambda>s. idf s = i) f rs) = insert (f r) {s \<in> set rs. idf s \<noteq> i}"
      by (simp add: set_update_where)
    then have taken: "(\<forall>s \<in> set (update_where (\<lambda>s. idf s = i) f rs). key s \<noteq> Some k) \<longleftrightarrow>
      key (f r) \<noteq> Some k \<and> (\<forall>s \<in> set rs. idf s \<noteq> i \<longrightarrow> key s \<noteq> Some k)" for k
      by simp blast
    have IH: "unique_on key (update_where (\<lambda>s. idf s = i) f rs) \<longleftrightarrow>
      (\<forall>k. key (f r) = Some k \<longrightarrow> (\<forall>s \<in> set rs. idf s \<noteq> i \<longrightarrow> key s \<noteq> Some k))"
      using Cons.IH Cons.prems r by (simp add: unique_on_Cons)
    have fresh: "key x = Some k \<Longrightarrow> s \<in> set rs \<Longrightarrow> key s \<noteq> Some k" for k s
      using Cons.prems(1) by (simp add: unique_on_Cons)
    have "unique_on key (update_where (\<lambda>s. idf s = i) f (x # rs)) \<longleftrightarrow>
      (\<forall>k. key x = Some k \<longrightarrow> key (f r) \<noteq> Some k) \<and>
      (\<forall>k. key (f r) = Some k \<longrightarrow> (\<forall>s \<in> set rs. idf s \<noteq> i \<longrightarrow> key s \<noteq> Some k))"
      using False fresh by (simp add: table_simps unique_on_Cons taken IH)
    then show ?thesis using False by auto
  qed
qed simp

section \<open>Invariants of transition systems\<close>

text \<open>
  A component whose operations are the steps of a relation: an invariant that every step keeps holds
  in every state reachable from one where it holds. A step predicate that is also monotone for some
  order is monotone along runs.
\<close>

locale transition_system =
  fixes step :: "'s \<Rightarrow> 's \<Rightarrow> bool"
    and inv :: "'s \<Rightarrow> bool"
  assumes step_inv: "inv s \<Longrightarrow> step s t \<Longrightarrow> inv t"
begin

lemma run_inv: "step\<^sup>*\<^sup>* s t \<Longrightarrow> inv s \<Longrightarrow> inv t"
  by (induction rule: rtranclp_induct) (auto intro: step_inv)

end

locale monotone_system = transition_system step inv
  for step :: "'s \<Rightarrow> 's \<Rightarrow> bool" and inv :: "'s \<Rightarrow> bool" +
  fixes rel :: "'s \<Rightarrow> 's \<Rightarrow> bool"
  assumes rel_refl: "rel s s"
    and rel_trans: "rel r s \<Longrightarrow> rel s t \<Longrightarrow> rel r t"
    and step_rel: "inv s \<Longrightarrow> step s t \<Longrightarrow> rel s t"
begin

lemma run_rel: "step\<^sup>*\<^sup>* s t \<Longrightarrow> inv s \<Longrightarrow> rel s t"
proof (induction rule: rtranclp_induct)
  case (step t u)
  then have "inv t" by (simp add: run_inv)
  with step show ?case by (blast intro: rel_trans step_rel)
qed (rule rel_refl)

end

end
