(* ===== verification/Crockford.thy ===== *)
theory Crockford
  imports Prelude
begin

text \<open>
  Crockford base32 (\<^verbatim>\<open>core/crockford.py\<close>) and the bearer tokens built on it
  (\<^verbatim>\<open>core/tokens.py\<close>). Bytes are natural numbers below 256, Python's unbounded accumulator
  \<^verbatim>\<open>value\<close> is a natural number, and the two loops are recursions over the remaining input.
\<close>

unbundle bit_operations_syntax

section \<open>The code\<close>

definition ALPHABET :: string where
  "ALPHABET = ''0123456789ABCDEFGHJKMNPQRSTVWXYZ''"

fun index_of :: "char \<Rightarrow> string \<Rightarrow> nat option" where
  "index_of c [] = None"
| "index_of c (x # xs) = (if c = x then Some 0 else map_option Suc (index_of c xs))"

text \<open>
  \<^verbatim>\<open>DECODE_MAP\<close>: upper and lower case of the alphabet, then \<^verbatim>\<open>I\<close>, \<^verbatim>\<open>L\<close> read as
  \<^verbatim>\<open>1\<close> and \<^verbatim>\<open>O\<close> as \<^verbatim>\<open>0\<close>.
\<close>

definition DECODE_MAP :: "char \<Rightarrow> nat option" where
  "DECODE_MAP c =
     (if c = CHR ''I'' \<or> c = CHR ''i'' then index_of (CHR ''1'') ALPHABET
      else if c = CHR ''L'' \<or> c = CHR ''l'' then index_of (CHR ''1'') ALPHABET
      else if c = CHR ''O'' \<or> c = CHR ''o'' then index_of (CHR ''0'') ALPHABET
      else case index_of c ALPHABET of
             Some i \<Rightarrow> Some i
           | None \<Rightarrow> index_of c (map lower_char ALPHABET))"

text \<open>The inner \<^verbatim>\<open>while bits >= 5\<close> loop of \<^verbatim>\<open>encode\<close>: what it appends and the bits left.\<close>

fun drain :: "nat \<Rightarrow> nat \<Rightarrow> string \<times> nat" where
  "drain bits value =
     (if 5 \<le> bits
      then let bits' = bits - 5;
               c = ALPHABET ! (drop_bit bits' value AND 0x1F);
               (out, rest) = drain bits' value
           in (c # out, rest)
      else ([], bits))"

declare drain.simps [simp del]

fun encode_loop :: "nat \<Rightarrow> nat \<Rightarrow> nat list \<Rightarrow> string" where
  "encode_loop bits value [] =
     (if bits > 0 then [ALPHABET ! (push_bit (5 - bits) value AND 0x1F)] else [])"
| "encode_loop bits value (byte # data) =
     (let value' = push_bit 8 value OR byte;
          (out, bits') = drain (bits + 8) value'
      in out @ encode_loop bits' value' data)"

definition encode :: "nat list \<Rightarrow> string" where
  "encode data = (if data = [] then [] else encode_loop 0 0 data)"

text \<open>\<^verbatim>\<open>s.replace("-", "").replace(" ", "")\<close>\<close>

definition strip_separators :: "string \<Rightarrow> string" where
  "strip_separators s = filter (\<lambda>c. c \<noteq> CHR '' '') (filter (\<lambda>c. c \<noteq> CHR ''-'') s)"

datatype decode_error = InvalidCharacter char

fun decode_loop :: "nat \<Rightarrow> nat \<Rightarrow> string \<Rightarrow> decode_error + nat list" where
  "decode_loop bits value [] = Inr []"
| "decode_loop bits value (ch # s) =
     (case DECODE_MAP ch of
        None \<Rightarrow> Inl (InvalidCharacter ch)
      | Some d \<Rightarrow>
          (let value' = push_bit 5 value OR d; bits' = bits + 5 in
           if 8 \<le> bits'
           then (let bits'' = bits' - 8 in
                 case decode_loop bits'' value' s of
                   Inl e \<Rightarrow> Inl e
                 | Inr out \<Rightarrow> Inr ((drop_bit bits'' value' AND 0xFF) # out))
           else decode_loop bits' value' s))"

definition decode :: "string \<Rightarrow> decode_error + nat list" where
  "decode s = (let cleaned = strip_separators s in
     if cleaned = [] then Inr [] else decode_loop 0 0 cleaned)"

text \<open>The slices \<^verbatim>\<open>token[i : i + n] for i in range(0, len(token), n)\<close>, for a positive step.\<close>

function slices :: "nat \<Rightarrow> 'a list \<Rightarrow> 'a list list" where
  "slices n xs = (if xs = [] \<or> n = 0 then [] else take n xs # slices n (drop n xs))"
  by pat_completeness auto
termination
  by (relation "measure (\<lambda>(n, xs). length xs)") auto

declare slices.simps [simp del]

definition format_grouped :: "string \<Rightarrow> int \<Rightarrow> string \<Rightarrow> string" where
  "format_grouped token group_size sep =
     (if group_size \<le> 0 then token else join_on sep (slices (nat group_size) token))"

definition fold_typo :: "char \<Rightarrow> char" where
  "fold_typo c = (if c = CHR ''I'' then CHR ''1''
                  else if c = CHR ''L'' then CHR ''1''
                  else if c = CHR ''O'' then CHR ''0'' else c)"

definition normalize :: "string \<Rightarrow> string" where
  "normalize token = map fold_typo (str_upper (strip_separators token))"

text \<open>
  \<^verbatim>\<open>tokens.py\<close>: the random bytes of \<^verbatim>\<open>os.urandom\<close> are an argument, SHA-256 over the UTF-8
  bytes is the parameter \<open>sha\<close>.
\<close>

definition generate_token :: "nat list \<Rightarrow> int \<Rightarrow> string \<times> string" where
  "generate_token raw group_size =
     (let encoded = encode raw;
          display = format_grouped encoded group_size ''-'';
          normalized = normalize encoded
      in (display, normalized))"

definition hash_token :: "(string \<Rightarrow> string) \<Rightarrow> string \<Rightarrow> string \<Rightarrow> string" where
  "hash_token sha token_hash_key normalized_token = sha (token_hash_key @ ''|'' @ normalized_token)"

definition verify_token :: "(string \<Rightarrow> string) \<Rightarrow> string \<Rightarrow> string \<Rightarrow> string \<Rightarrow> bool" where
  "verify_token sha token_hash_key provided stored_hash =
     (hash_token sha token_hash_key (normalize provided) = stored_hash)"

section \<open>Bit strings\<close>

text \<open>
  Both loops are related to the bit string they read: \<open>encode\<close> cuts it into groups of five,
  padded at the end, \<open>decode\<close> into whole groups of eight.
\<close>

definition nbits :: "nat \<Rightarrow> nat \<Rightarrow> bool list" where
  "nbits n v = map (bit v) (rev [0..<n])"

lemma length_nbits [simp]: "length (nbits n v) = n"
  by (simp add: nbits_def)

lemma nbits_0 [simp]: "nbits 0 v = []"
  by (simp add: nbits_def)

lemma nbits_Nil_iff [simp]: "nbits n v = [] \<longleftrightarrow> n = 0"
  by (simp add: nbits_def)

lemma nbits_append:
  assumes "w < 2 ^ m"
  shows "nbits (n + m) (push_bit m v OR w) = nbits n v @ nbits m w"
proof (rule nth_equalityI)
  fix i assume "i < length (nbits (n + m) (push_bit m v OR w))"
  then have i: "i < n + m" by simp
  have hi: "\<not> bit w k" if "m \<le> k" for k
    using assms that by (metis bit_take_bit_iff linorder_not_le take_bit_nat_eq_self)
  show "nbits (n + m) (push_bit m v OR w) ! i = (nbits n v @ nbits m w) ! i"
    using i hi [of "n + m - Suc i"]
    by (auto simp: nbits_def nth_append rev_nth bit_or_iff bit_push_bit_iff add.commute)
qed simp

lemma nbits_split: "nbits (n + m) v = nbits n (drop_bit m v) @ nbits m v"
  by (rule nth_equalityI) (auto simp: nbits_def nth_append rev_nth bit_drop_bit_eq add.commute)

fun val :: "bool list \<Rightarrow> nat" where
  "val [] = 0"
| "val (b # bs) = of_bool b * 2 ^ length bs + val bs"

lemma nbits_Suc: "nbits (Suc n) v = bit v n # nbits n v"
  by (simp add: nbits_def)

lemma nbits_zero [simp]: "nbits n 0 = replicate n False"
  by (induction n) (simp_all add: nbits_Suc replicate_append_same)

lemma val_nbits: "val (nbits n v) = take_bit n v"
  by (induction n) (simp_all add: nbits_Suc take_bit_Suc_from_most)

lemma val_less: "val bs < 2 ^ length bs"
  by (induction bs) auto

lemma val_inj: "length bs = length cs \<Longrightarrow> val bs = val cs \<Longrightarrow> bs = cs"
proof (induction bs cs rule: list_induct2)
  case (Cons b bs c cs)
  then show ?case using val_less [of bs] val_less [of cs] by (cases b; cases c) auto
qed simp

lemma nbits_val: "length bs = n \<Longrightarrow> nbits n (val bs) = bs"
  using val_less [of bs] by (intro val_inj) (auto simp: val_nbits take_bit_nat_eq_self)

fun groups5 :: "bool list \<Rightarrow> nat list" where
  "groups5 bs =
     (if bs = [] then []
      else if length bs < 5 then [val (bs @ replicate (5 - length bs) False)]
      else val (take 5 bs) # groups5 (drop 5 bs))"

fun groups8 :: "bool list \<Rightarrow> nat list" where
  "groups8 bs = (if length bs < 8 then [] else val (take 8 bs) # groups8 (drop 8 bs))"

declare groups5.simps [simp del] groups8.simps [simp del]

lemma groups5_Cons: "length xs = 5 \<Longrightarrow> groups5 (xs @ ys) = val xs # groups5 ys"
  by (subst groups5.simps) auto

lemma groups8_Cons: "length xs = 8 \<Longrightarrow> groups8 (xs @ ys) = val xs # groups8 ys"
  by (subst groups8.simps) auto

lemma drain_groups:
  "\<exists>gs r. drain b v = (map (nth ALPHABET) gs, r) \<and> r < 5 \<and>
     (\<forall>bs. groups5 (nbits b v @ bs) = gs @ groups5 (nbits r v @ bs))"
proof (induction b v rule: drain.induct)
  case (1 b v)
  show ?case
  proof (cases "5 \<le> b")
    case True
    define c where "c = drop_bit (b - 5) v AND 0x1F"
    obtain gs r where ih: "drain (b - 5) v = (map (nth ALPHABET) gs, r)" "r < 5"
        "\<And>bs. groups5 (nbits (b - 5) v @ bs) = gs @ groups5 (nbits r v @ bs)"
      using 1 True by metis
    have "nbits b v = nbits 5 (drop_bit (b - 5) v) @ nbits (b - 5) v"
      using nbits_split [of 5 "b - 5" v] True by simp
    moreover have "val (nbits 5 (drop_bit (b - 5) v)) = c"
      by (simp add: val_nbits c_def take_bit_eq_mask mask_eq_exp_minus_1)
    ultimately have "groups5 (nbits b v @ bs) = (c # gs) @ groups5 (nbits r v @ bs)" for bs
      by (simp add: groups5_Cons ih(3))
    moreover have "drain b v = (map (nth ALPHABET) (c # gs), r)"
      using True by (subst drain.simps) (simp add: ih(1) c_def Let_def)
    ultimately show ?thesis using ih(2) by blast
  next
    case False
    then show ?thesis
      by (intro exI [of _ "[]"] exI [of _ b]) (simp add: drain.simps)
  qed
qed

lemma encode_loop_groups:
  assumes "b < 5" and "\<forall>x \<in> set data. x < 256"
  shows "encode_loop b v data =
    map (nth ALPHABET) (groups5 (nbits b v @ concat (map (nbits 8) data)))"
  using assms
proof (induction data arbitrary: b v)
  case Nil
  have pad: "nbits 5 (push_bit (5 - b) v) = nbits b v @ replicate (5 - b) False"
    using nbits_append [of 0 "5 - b" b v] Nil by simp
  have "push_bit (5 - b) v AND 0x1F = val (nbits b v @ replicate (5 - b) False)"
    using val_nbits [of 5 "push_bit (5 - b) v"]
    by (simp add: pad take_bit_eq_mask mask_eq_exp_minus_1)
  then show ?case using Nil by (cases b) (auto simp: groups5.simps)
next
  case (Cons x data)
  define w where "w = push_bit 8 v OR x"
  obtain gs r where d: "drain (b + 8) w = (map (nth ALPHABET) gs, r)" "r < 5"
      "\<And>bs. groups5 (nbits (b + 8) w @ bs) = gs @ groups5 (nbits r w @ bs)"
    using drain_groups by blast
  have "nbits (b + 8) w = nbits b v @ nbits 8 x"
    using Cons.prems nbits_append [of x 8 b v] by (simp add: w_def)
  then have "groups5 (nbits b v @ concat (map (nbits 8) (x # data))) =
      gs @ groups5 (nbits r w @ concat (map (nbits 8) data))"
    using d(3) [of "concat (map (nbits 8) data)"] by simp
  moreover have "encode_loop b v (x # data) = map (nth ALPHABET) gs @ encode_loop r w data"
    by (simp add: d(1) w_def Let_def flip: w_def)
  ultimately show ?case using Cons.IH [OF d(2)] Cons.prems by simp
qed

lemma index_of_nth: "distinct xs \<Longrightarrow> i < length xs \<Longrightarrow> index_of (xs ! i) xs = Some i"
  by (induction xs arbitrary: i) (auto simp: nth_Cons split: nat.splits)

lemma lower_ALPHABET: "map lower_char ALPHABET = ''0123456789abcdefghjkmnpqrstvwxyz''"
  by (simp add: ALPHABET_def lower_char_def lower_letters_def upper_letters_def)

lemmas DECODE_MAP_alt = DECODE_MAP_def [unfolded lower_ALPHABET, unfolded ALPHABET_def]

lemma DECODE_MAP_nth: "i < 32 \<Longrightarrow> DECODE_MAP (ALPHABET ! i) = Some i"
proof -
  assume i: "i < 32"
  have d: "distinct ALPHABET" and l: "length ALPHABET = 32"
    by (simp_all add: ALPHABET_def)
  have "set ALPHABET \<inter> set ''IiLlOo'' = {}"
    by (simp add: ALPHABET_def)
  with i l have "ALPHABET ! i \<notin> set ''IiLlOo''"
    by (metis disjoint_iff nth_mem)
  with i d l show ?thesis by (simp add: DECODE_MAP_def index_of_nth)
qed

lemma decode_loop_groups:
  assumes "b < 8" and "\<forall>d \<in> set ds. d < 32"
  shows "decode_loop b v (map (nth ALPHABET) ds) =
    Inr (groups8 (nbits b v @ concat (map (nbits 5) ds)))"
  using assms
proof (induction ds arbitrary: b v)
  case Nil
  then show ?case by (simp add: groups8.simps)
next
  case (Cons d ds)
  define w where "w = push_bit 5 v OR d"
  have d: "DECODE_MAP (ALPHABET ! d) = Some d" using Cons.prems by (simp add: DECODE_MAP_nth)
  have nb: "nbits (b + 5) w = nbits b v @ nbits 5 d"
    using Cons.prems nbits_append [of d 5 b v] by (simp add: w_def)
  show ?case
  proof (cases "8 \<le> b + 5")
    case True
    let ?r = "b + 5 - 8"
    have "nbits (b + 5) w = nbits 8 (drop_bit ?r w) @ nbits ?r w"
      using nbits_split [of 8 ?r w] True by (simp add: add.commute)
    then have "groups8 (nbits b v @ concat (map (nbits 5) (d # ds))) =
        (drop_bit ?r w AND 0xFF) # groups8 (nbits ?r w @ concat (map (nbits 5) ds))"
      using nb by (simp flip: append_assoc)
        (simp add: groups8_Cons val_nbits take_bit_eq_mask mask_eq_exp_minus_1)
    with True d Cons.IH [of ?r w] Cons.prems show ?thesis
      by (simp add: Let_def flip: w_def)
  next
    case False
    with d Cons.IH [of "b + 5" w] Cons.prems nb show ?thesis
      by (simp add: Let_def flip: w_def)
  qed
qed

lemma groups5_bits:
  "\<exists>k < 5. concat (map (nbits 5) (groups5 bs)) = bs @ replicate k False"
proof (induction bs rule: groups5.induct)
  case (1 bs)
  consider "bs = []" | "bs \<noteq> []" "length bs < 5" | "5 \<le> length bs" by linarith
  then show ?case
  proof cases
    case 3
    then have "bs \<noteq> []" "\<not> length bs < 5" by auto
    with 1 obtain k where "k < 5"
        "concat (map (nbits 5) (groups5 (drop 5 bs))) = drop 5 bs @ replicate k False"
      by blast
    with 3 \<open>bs \<noteq> []\<close> show ?thesis
      by (intro exI [of _ k]) (subst groups5.simps, simp add: nbits_val flip: append_assoc)
  next
    case 2
    then show ?thesis
      by (intro exI [of _ "5 - length bs"]) (subst groups5.simps, auto simp: nbits_val)
  qed (auto simp: groups5.simps)
qed

lemma groups5_less: "\<forall>d \<in> set (groups5 bs). d < 32"
proof (induction bs rule: groups5.induct)
  case (1 bs)
  then show ?case
    using val_less [of "take 5 bs"] val_less [of "bs @ replicate (5 - length bs) False"]
    by (subst groups5.simps) (auto simp: min_def split: if_splits)
qed

lemma groups8_bytes:
  "\<forall>x \<in> set data. x < 256 \<Longrightarrow> length zs < 8 \<Longrightarrow>
     groups8 (concat (map (nbits 8) data) @ zs) = data"
proof (induction data)
  case Nil
  then show ?case by (simp add: groups8.simps)
next
  case (Cons x data)
  then show ?case by (simp add: groups8_Cons val_nbits take_bit_nat_eq_self)
qed

lemma ALPHABET_no_separators: "\<forall>c \<in> set ALPHABET. c \<noteq> CHR '' '' \<and> c \<noteq> CHR ''-''"
  by (simp add: ALPHABET_def)

lemma length_ALPHABET [simp]: "length ALPHABET = 32"
  by (simp add: ALPHABET_def)

lemma encode_groups:
  "\<forall>x \<in> set data. x < 256 \<Longrightarrow>
     encode data = map (nth ALPHABET) (groups5 (concat (map (nbits 8) data)))"
  using encode_loop_groups [of 0 data 0] by (auto simp: encode_def groups5.simps)

lemma encode_alphabet:
  "\<forall>x \<in> set data. x < 256 \<Longrightarrow> set (encode data) \<subseteq> set ALPHABET"
  using groups5_less by (fastforce simp: encode_groups)

lemma strip_separators_alphabet: "set s \<subseteq> set ALPHABET \<Longrightarrow> strip_separators s = s"
  using ALPHABET_no_separators by (fastforce simp: strip_separators_def intro!: filter_True)

lemma strip_separators_idem [simp]: "strip_separators (strip_separators s) = strip_separators s"
  by (simp add: strip_separators_def conj_ac)

lemma decode_strip: "decode (strip_separators s) = decode s"
  by (simp add: decode_def strip_separators_idem)

lemma decode_encode:
  "\<forall>x \<in> set data. x < 256 \<Longrightarrow> decode (encode data) = Inr data"
proof -
  assume b: "\<forall>x \<in> set data. x < 256"
  obtain k where k: "k < 5"
      "concat (map (nbits 5) (groups5 (concat (map (nbits 8) data)))) =
        concat (map (nbits 8) data) @ replicate k False"
    using groups5_bits by blast
  have "decode_loop 0 0 (encode data) = Inr data"
    using b k decode_loop_groups [of 0 "groups5 (concat (map (nbits 8) data))" 0] groups5_less
    by (simp add: encode_groups groups8_bytes)
  with b show ?thesis
    by (auto simp: decode_def strip_separators_alphabet encode_alphabet Let_def)
qed
section \<open>Case, separators and typos\<close>

lemma upper_char_cases:
  obtains "c \<notin> set lower_letters" "upper_char c = c" | "c \<in> set lower_letters"
  by (cases "c \<in> set lower_letters")
    (auto simp: upper_char_def lower_letters_def upper_letters_def)

lemmas upper_eval = upper_char_def lower_letters_def upper_letters_def fold_typo_def

lemma fold_upper_letters:
  "\<forall>c \<in> set lower_letters. c \<notin> {CHR '' '', CHR ''-''} \<and>
     fold_typo (upper_char c) \<notin> {CHR '' '', CHR ''-''} \<and>
     upper_char (fold_typo (upper_char c)) = fold_typo (upper_char c)"
  by code_simp

lemma DECODE_upper_letters:
  "\<forall>c \<in> set lower_letters. DECODE_MAP (fold_typo (upper_char c)) = DECODE_MAP c"
  by code_simp
lemma fold_upper_separator:
  assumes "d \<in> {CHR '' '', CHR ''-''}"
  shows "fold_typo (upper_char c) = d \<longleftrightarrow> c = d"
proof (rule upper_char_cases [of c])
  assume "upper_char c = c"
  with assms show ?thesis by (auto simp: fold_typo_def)
next
  assume "c \<in> set lower_letters"
  with fold_upper_letters assms show ?thesis by blast
qed

lemma fold_upper_idem: "fold_typo (upper_char (fold_typo (upper_char c))) = fold_typo (upper_char c)"
proof -
  have idem: "fold_typo (fold_typo d) = fold_typo d" for d
    by (simp add: fold_typo_def)
  have digits: "upper_char (CHR ''1'') = CHR ''1''" "upper_char (CHR ''0'') = CHR ''0''"
    by code_simp+
  show ?thesis
    by (rule upper_char_cases [of c])
      (use fold_upper_letters digits idem in \<open>auto simp: fold_typo_def\<close>)
qed

lemma DECODE_MAP_typo: "DECODE_MAP (fold_typo c) = DECODE_MAP c"
proof -
  have "DECODE_MAP (CHR ''1'') = DECODE_MAP (CHR ''I'')"
      "DECODE_MAP (CHR ''1'') = DECODE_MAP (CHR ''L'')"
      "DECODE_MAP (CHR ''0'') = DECODE_MAP (CHR ''O'')"
    by code_simp+
  then show ?thesis by (simp add: fold_typo_def)
qed

lemma DECODE_MAP_fold_upper: "DECODE_MAP (fold_typo (upper_char c)) = DECODE_MAP c"
  by (rule upper_char_cases [of c]) (use DECODE_upper_letters DECODE_MAP_typo in auto)

lemma normalize_alt: "normalize s = map (\<lambda>c. fold_typo (upper_char c)) (strip_separators s)"
  by (simp add: normalize_def str_upper_def)

lemma strip_map_fold_upper:
  "strip_separators (map (\<lambda>c. fold_typo (upper_char c)) s) =
     map (\<lambda>c. fold_typo (upper_char c)) (strip_separators s)"
  by (simp add: strip_separators_def filter_map comp_def fold_upper_separator)

lemma strip_normalize [simp]: "strip_separators (normalize s) = normalize s"
  by (simp add: normalize_alt strip_map_fold_upper)

lemma normalize_idem: "normalize (normalize s) = normalize s"
  by (simp add: normalize_alt strip_map_fold_upper comp_def fold_upper_idem)

lemma decode_loop_fold_upper:
  "decode_loop b v (map (\<lambda>c. fold_typo (upper_char c)) s) = Inr d \<longleftrightarrow> decode_loop b v s = Inr d"
proof (induction s arbitrary: b v d)
  case (Cons c s)
  have inr: "(case x of Inl e \<Rightarrow> Inl e | Inr out \<Rightarrow> Inr (f out)) = Inr d \<longleftrightarrow>
      (\<exists>out. x = Inr out \<and> f out = d)" for x :: "decode_error + nat list" and f
    by (cases x) auto
  show ?case
    by (cases "DECODE_MAP c") (simp_all add: DECODE_MAP_fold_upper Let_def inr Cons.IH)
qed simp

lemma decode_normalize_iff: "decode (normalize s) = Inr d \<longleftrightarrow> decode s = Inr d"
  by (simp add: decode_def normalize_alt strip_map_fold_upper decode_loop_fold_upper Let_def)

lemma strip_append: "strip_separators (a @ b) = strip_separators a @ strip_separators b"
  by (simp add: strip_separators_def)

lemma strip_join: "strip_separators (join_on ''-'' ps) = concat (map strip_separators ps)"
  by (induction "''-''" ps rule: join_on.induct) (auto simp: strip_append, auto simp: strip_separators_def)

lemma concat_slices: "0 < n \<Longrightarrow> concat (slices n xs) = xs"
  by (induction n xs rule: slices.induct) (subst slices.simps, auto)

lemma strip_concat: "concat (map strip_separators ps) = strip_separators (concat ps)"
  by (induction ps) (auto simp: strip_append, simp add: strip_separators_def)

lemma strip_format_grouped: "strip_separators (format_grouped t g ''-'') = strip_separators t"
  by (simp add: format_grouped_def strip_join strip_concat concat_slices)

lemma normalize_format_grouped: "normalize (format_grouped t g ''-'') = normalize t"
  by (simp add: normalize_def strip_format_grouped)

section \<open>Properties\<close>

text \<open>
  C37: a bearer token shown to the customer decodes back to exactly the random bytes it was made
  from, for every grouping of the display form (a non-positive group size is the ungrouped form).
\<close>

theorem decode_display_token:
  assumes "\<forall>x \<in> set raw. x < 256"
  shows "decode (format_grouped (encode raw) g ''-'') = Inr raw"
  by (metis assms decode_strip strip_format_grouped decode_encode)

theorem decode_display_token_witness:
  "format_grouped (encode [255, 0, 17]) 3 ''-'' = ''ZW0-12'' \<and> decode ''ZW0-12'' = Inr [255, 0, 17]"
proof -
  have shown: "format_grouped (encode [255, 0, 17]) 3 ''-'' = ''ZW0-12''"
    by (simp add: encode_def drain.simps slices.simps format_grouped_def ALPHABET_def Let_def)
  have "decode (format_grouped (encode [255, 0, 17]) 3 ''-'') = Inr [255, 0, 17]"
    by (rule decode_display_token) simp
  with shown show ?thesis by simp
qed

text \<open>
  Normalisation (upper case, separators dropped, \<^verbatim>\<open>I\<close>/\<^verbatim>\<open>L\<close> read as 1 and \<^verbatim>\<open>O\<close> as 0)
  is a projection, never changes what a token decodes to, and accepts what its owner was shown:
  the display form of a generated token always verifies against the stored hash.
\<close>

theorem normalize_verifies_generated_token:
  "normalize (normalize s) = normalize s \<and>
   (decode (normalize s) = Inr d \<longleftrightarrow> decode s = Inr d) \<and>
   (case generate_token raw g of (display, normalized) \<Rightarrow>
      verify_token sha key display (hash_token sha key normalized))"
  by (simp add: normalize_idem decode_normalize_iff generate_token_def verify_token_def
      normalize_format_grouped Let_def)

end
