(* ===== verification/Hostnames.thy ===== *)
theory Hostnames
  imports Prelude
begin

text \<open>
  Canonical DNS hostnames (\<^verbatim>\<open>core/hostnames.py\<close>) and Lightning Address syntax
  (\<^verbatim>\<open>core/lightning_address.py\<close>). The two regular expressions for a label are written as
  one predicate; \<^verbatim>\<open>ipaddress.ip_address\<close> is the library's own parser for dotted quads and
  for IPv6 text. Of the IDNA codec the ASCII path is written out; the conversion of labels outside
  ASCII (nameprep and Punycode) is the parameter \<open>to_ascii\<close>, and the Punycode check of labels
  with the \<^verbatim>\<open>xn--\<close> prefix is the parameter \<open>ace_ok\<close>.
\<close>

section \<open>The code\<close>

datatype host_error =
    InvalidHostname | TooLong | IsIPAddress | InvalidLabel | InvalidIDNALabel

definition is_ascii :: "string \<Rightarrow> bool" where
  "is_ascii s = list_all (\<lambda>c. (of_char c :: nat) < 128) s"

definition digit_chars :: string where
  "digit_chars = ''0123456789''"

definition label_chars :: string where
  "label_chars = lower_letters @ digit_chars"

text \<open>\<^verbatim>\<open>[a-z0-9](?:[a-z0-9-]{0,61}[a-z0-9])?\<close>, matched in full\<close>

definition host_label :: "string \<Rightarrow> bool" where
  "host_label s =
     (s \<noteq> [] \<and> length s \<le> 63 \<and> hd s \<in> set label_chars \<and> last s \<in> set label_chars \<and>
      list_all (\<lambda>c. c \<in> set label_chars \<or> c = CHR ''-'') s)"

fun digit_value :: "string \<Rightarrow> char \<Rightarrow> nat" where
  "digit_value [] c = 0"
| "digit_value (d # ds) c = (if c = d then 0 else Suc (digit_value ds c))"

definition decimal :: "string \<Rightarrow> nat" where
  "decimal s = foldl (\<lambda>n c. 10 * n + digit_value digit_chars c) 0 s"

definition ipv4_octet :: "string \<Rightarrow> bool" where
  "ipv4_octet s =
     (s \<noteq> [] \<and> list_all (\<lambda>c. c \<in> set digit_chars) s \<and> length s \<le> 3 \<and>
      \<not> (s \<noteq> ''0'' \<and> hd s = CHR ''0'') \<and> decimal s \<le> 255)"

definition is_ipv4 :: "string \<Rightarrow> bool" where
  "is_ipv4 s = (let parts = split_on (CHR ''.'') s in length parts = 4 \<and> list_all ipv4_octet parts)"

definition hextet :: "string \<Rightarrow> bool" where
  "hextet s = (s \<noteq> [] \<and> length s \<le> 4 \<and>
     list_all (\<lambda>c. c \<in> set ''0123456789abcdefABCDEF'') s)"

text \<open>\<^verbatim>\<open>IPv6Address._ip_int_from_string\<close>: at most one empty inner part stands for zeros.\<close>

definition is_ipv6_parts :: "string list \<Rightarrow> bool" where
  "is_ipv6_parts parts =
     (let n = length parts;
          empties = filter (\<lambda>i. parts ! i = []) [1..<n - 1]
      in n \<le> 9 \<and>
         (case empties of
            [] \<Rightarrow> n = 8 \<and> list_all hextet parts
          | [k] \<Rightarrow>
              (let hi = (if parts ! 0 = [] then k - 1 else k);
                   lo = (if parts ! (n - 1) = [] then n - k - 2 else n - k - 1)
               in \<not> (parts ! 0 = [] \<and> hi > 0) \<and> \<not> (parts ! (n - 1) = [] \<and> lo > 0) \<and>
                  hi + lo < 8 \<and>
                  list_all hextet (take hi parts) \<and> list_all hextet (drop (n - lo) parts))
          | _ \<Rightarrow> False))"

definition is_ipv6 :: "string \<Rightarrow> bool" where
  "is_ipv6 s =
     (let scoped = split_on (CHR ''%'') s;
          parts = split_on (CHR '':'') (hd scoped)
      in CHR ''/'' \<notin> set s \<and>
         (case scoped of [_] \<Rightarrow> True | [_, scope] \<Rightarrow> scope \<noteq> [] | _ \<Rightarrow> False) \<and>
         3 \<le> length parts \<and>
         (if CHR ''.'' \<in> set (last parts)
          then is_ipv4 (last parts) \<and> is_ipv6_parts (butlast parts @ [''0'', ''0''])
          else is_ipv6_parts parts))"

definition is_ip_address :: "string \<Rightarrow> bool" where
  "is_ip_address s = (is_ipv4 s \<or> is_ipv6 s)"

text \<open>\<^verbatim>\<open>value.encode("idna").decode("ascii")\<close>; \<open>None\<close> is a \<^verbatim>\<open>UnicodeError\<close>.\<close>

definition idna_encode :: "(string \<Rightarrow> string option) \<Rightarrow> string \<Rightarrow> string option" where
  "idna_encode to_ascii s =
     (if s = [] then Some []
      else if is_ascii s then
        (let labels = split_on (CHR ''.'') s in
         if list_all (\<lambda>l. l \<noteq> []) (butlast labels) \<and> list_all (\<lambda>l. length l < 64) labels
         then Some s else None)
      else to_ascii s)"

text \<open>\<^verbatim>\<open>label.encode("ascii").decode("idna")\<close> succeeds.\<close>

definition idna_label_ok :: "(string \<Rightarrow> bool) \<Rightarrow> string \<Rightarrow> bool" where
  "idna_label_ok ace_ok l = (take 4 (str_lower l) = ''xn--'' \<longrightarrow> ace_ok l)"

definition canonicalize_hostname ::
  "(string \<Rightarrow> string option) \<Rightarrow> (string \<Rightarrow> bool) \<Rightarrow> string \<Rightarrow> host_error + string" where
  "canonicalize_hostname to_ascii ace_ok value =
     (case idna_encode to_ascii value of
        None \<Rightarrow> Inl InvalidHostname
      | Some encoded \<Rightarrow>
          (let lowered = str_lower encoded;
               hostname = (if ends_with lowered ''.'' then butlast lowered else lowered);
               labels = split_on (CHR ''.'') hostname
           in if hostname = [] then Inl InvalidHostname
              else if length hostname > 253 then Inl TooLong
              else if is_ip_address hostname then Inl IsIPAddress
              else if list_ex (\<lambda>l. length l > 63 \<or> \<not> host_label l) labels then Inl InvalidLabel
              else if \<not> list_all (idna_label_ok ace_ok) labels then Inl InvalidIDNALabel
              else Inr hostname))"

subsection \<open>Lightning addresses\<close>

datatype address_error =
    NotAsciiOrTooLong | NotOneAt | InvalidUsername | InvalidDomain | ReservedDomain | DomainIsIP

definition reserved_suffixes :: "string list" where
  "reserved_suffixes = [''example'', ''invalid'', ''local'', ''localhost'', ''test'', ''home.arpa'']"

definition local_part_ok :: "string \<Rightarrow> bool" where
  "local_part_ok s = (s \<noteq> [] \<and> list_all (\<lambda>c. c \<in> set (label_chars @ ''_.-'')) s)"

definition is_dns_domain :: "string \<Rightarrow> bool" where
  "is_dns_domain domain =
     (domain \<noteq> [] \<and> length domain \<le> 253 \<and> CHR ''.'' \<in> set domain \<and>
      list_all host_label (split_on (CHR ''.'') domain))"

definition validate_lightning_address :: "string \<Rightarrow> address_error + string" where
  "validate_lightning_address value =
     (if \<not> is_ascii value \<or> length value > 254 then Inl NotAsciiOrTooLong
      else case split_on (CHR ''@'') (str_lower value) of
        [local_part, domain] \<Rightarrow>
          if local_part = [] \<or> length local_part > 64 \<or> \<not> local_part_ok local_part
          then Inl InvalidUsername
          else if \<not> is_dns_domain domain then Inl InvalidDomain
          else if list_ex (\<lambda>suffix. domain = suffix \<or> ends_with domain (''.'' @ suffix)) reserved_suffixes
          then Inl ReservedDomain
          else if is_ip_address domain then Inl DomainIsIP
          else Inr (local_part @ ''@'' @ domain)
      | _ \<Rightarrow> Inl NotOneAt)"

section \<open>What a canonical name is\<close>

text \<open>Characters that can occur in an accepted name or address.\<close>

definition ldh :: "string \<Rightarrow> bool" where
  "ldh s = (\<forall>c \<in> set s. c \<in> set label_chars \<or> c \<in> set ''-._@'')"

definition canonical_hostname :: "(string \<Rightarrow> bool) \<Rightarrow> string \<Rightarrow> bool" where
  "canonical_hostname ace_ok h =
     (h \<noteq> [] \<and> length h \<le> 253 \<and> \<not> is_ip_address h \<and>
      list_all (\<lambda>l. host_label l \<and> idna_label_ok ace_ok l) (split_on (CHR ''.'') h))"

lemma label_chars_facts:
  "set label_chars \<inter> set upper_letters = {}" "CHR ''.'' \<notin> set label_chars"
  "CHR ''@'' \<notin> set label_chars"
  "\<forall>c \<in> set label_chars. (of_char c :: nat) < 128"
  by (simp_all add: label_chars_def digit_chars_def lower_letters_def upper_letters_def)

lemma punct_facts:
  "set ''-._@'' \<inter> set upper_letters = {}" "\<forall>c \<in> set ''-._@''. (of_char c :: nat) < 128"
  by (simp_all add: upper_letters_def)

lemma ldh_lower: "ldh s \<Longrightarrow> str_lower s = s"
  unfolding ldh_def str_lower_def
  by (rule map_idI, rule lower_char_id) (use label_chars_facts(1) punct_facts(1) in blast)

lemma ldh_ascii: "ldh s \<Longrightarrow> is_ascii s"
  unfolding ldh_def is_ascii_def list_all_iff
  using label_chars_facts(4) punct_facts(2) by blast

lemma host_label_ldh: "host_label l \<Longrightarrow> ldh l"
  by (auto simp: host_label_def ldh_def list_all_iff)

lemma labels_ldh: "list_all host_label (split_on (CHR ''.'') h) \<Longrightarrow> ldh h"
  using host_label_ldh set_split_on_cover [of _ h "CHR ''.''"]
  by (fastforce simp: ldh_def list_all_iff)

lemma canonicalize_hostname_canonical:
  "canonicalize_hostname to_ascii ace_ok s = Inr h \<Longrightarrow> canonical_hostname ace_ok h"
  by (auto simp: canonicalize_hostname_def canonical_hostname_def Let_def list_all_iff list_ex_iff
      split: option.splits if_splits)

lemma host_label_bounds: "host_label l \<Longrightarrow> l \<noteq> [] \<and> length l < 64"
  by (auto simp: host_label_def)

lemma canonical_hostname_fixed:
  assumes "canonical_hostname ace_ok h"
  shows "canonicalize_hostname to_ascii ace_ok h = Inr h"
proof -
  let ?ls = "split_on (CHR ''.'') h"
  have labels: "list_all host_label ?ls" "list_all (idna_label_ok ace_ok) ?ls"
    and len: "h \<noteq> []" "\<not> length h > 253" "\<not> is_ip_address h"
    using assms by (auto simp: canonical_hostname_def list_all_iff)
  have ldh: "ldh h" using labels by (simp add: labels_ldh)
  have wf: "host_label l" if "l \<in> set ?ls" for l
    using labels that by (simp add: list_all_iff)
  have "host_label (last ?ls)" using wf by simp
  then have "\<not> ends_with h ''.''"
    using last_label [of h "CHR ''.''"] by (auto simp: ends_with_dot host_label_def)
  moreover have "idna_encode to_ascii h = Some h"
    using len wf [THEN host_label_bounds] ldh
    by (auto simp: idna_encode_def ldh_ascii list_all_iff Let_def dest!: in_set_butlastD)
  moreover have "\<not> list_ex (\<lambda>l. length l > 63 \<or> \<not> host_label l) ?ls"
    using wf by (auto simp: list_ex_iff host_label_def)
  ultimately show ?thesis
    using labels(2) len ldh by (simp add: canonicalize_hostname_def ldh_lower Let_def)
qed

section \<open>Properties\<close>

text \<open>
  Whatever the IDNA codec produces, an accepted hostname is canonical: at most 253 characters,
  every label a lower-case letter-digit-hyphen label of at most 63 characters that is neither empty
  nor hyphen-delimited, not an IP address; and canonicalising it again returns it unchanged.
\<close>

theorem canonicalize_hostname_sound_idempotent:
  assumes "canonicalize_hostname to_ascii ace_ok s = Inr h"
  shows "canonical_hostname ace_ok h \<and> str_lower h = h \<and>
    canonicalize_hostname to_ascii ace_ok h = Inr h"
  using canonicalize_hostname_canonical [OF assms] canonical_hostname_fixed
  by (auto simp: canonical_hostname_def list_all_iff intro!: ldh_lower labels_ldh)

theorem canonicalize_hostname_sound_idempotent_witness:
  "canonicalize_hostname (\<lambda>_. None) (\<lambda>_. False) ''A-1.Io.'' = Inr ''a-1.io'' \<and>
   canonical_hostname (\<lambda>_. False) ''a-1.io'' \<and>
   canonicalize_hostname (\<lambda>_. None) (\<lambda>_. False) ''a-1.io'' = Inr ''a-1.io''"
proof -
  have run: "canonicalize_hostname (\<lambda>_. None) (\<lambda>_. False) ''A-1.Io.'' = Inr ''a-1.io''"
    by code_simp
  show ?thesis using run canonicalize_hostname_sound_idempotent [OF run] by blast
qed

text \<open>
  An accepted Lightning Address is the lower-cased input, a user name and a DNS domain that is
  neither an IP literal nor under a reserved local suffix; and validating it again returns it.
\<close>

theorem validate_lightning_address_sound:
  assumes "validate_lightning_address v = Inr a"
  shows "\<exists>u d. a = u @ ''@'' @ d \<and> local_part_ok u \<and> length u \<le> 64 \<and> is_dns_domain d \<and>
    \<not> is_ip_address d \<and> \<not> (\<exists>x \<in> set reserved_suffixes. d = x \<or> ends_with d (''.'' @ x)) \<and>
    a = str_lower v \<and> validate_lightning_address a = Inr a"
proof -
  obtain u d where ud: "split_on (CHR ''@'') (str_lower v) = [u, d]"
    and ok: "is_ascii v" "length v \<le> 254" "local_part_ok u" "length u \<le> 64" "is_dns_domain d"
      "\<not> list_ex (\<lambda>x. d = x \<or> ends_with d (''.'' @ x)) reserved_suffixes" "\<not> is_ip_address d"
    and a: "a = u @ ''@'' @ d"
    using assms by (auto simp: validate_lightning_address_def split: if_splits list.splits)
  have av: "a = str_lower v" using split_pair [OF ud] a by simp
  have "ldh a"
    using ok(3,5) labels_ldh [of d]
    by (auto simp: a local_part_ok_def is_dns_domain_def ldh_def list_all_iff)
  then have "str_lower a = a" "is_ascii a" by (auto simp: ldh_lower ldh_ascii)
  then have "validate_lightning_address a = Inr a"
    using ok ud av a by (auto simp: validate_lightning_address_def local_part_ok_def)
  with a av ok show ?thesis by (auto simp: list_ex_iff)
qed

theorem validate_lightning_address_sound_witness:
  "validate_lightning_address ''Bob@X.io'' = Inr ''bob@x.io'' \<and>
   validate_lightning_address ''bob@x.io'' = Inr ''bob@x.io''"
proof -
  have run: "validate_lightning_address ''Bob@X.io'' = Inr ''bob@x.io''" by code_simp
  show ?thesis using run validate_lightning_address_sound [OF run] by blast
qed

end
