(* ===== verification/Models.thy ===== *)
theory Models
  imports Prelude
begin

text \<open>
  The persistent data model (\<^verbatim>\<open>core/models.py\<close>): the enumerations, one record per table with
  the columns the modelled services read or write, the database as a record of tables, its unique
  indexes, and the settings the services consult (\<^verbatim>\<open>config.py\<close>). A stored row always has an
  identifier, so the \<^verbatim>\<open>id is None\<close> guards of transient objects have no counterpart.
\<close>

section \<open>Enumerations\<close>

datatype product_type = IP | PORT | RELAY
datatype hostname_scope = EXACT | WILDCARD
datatype billing_term = MONTHLY | YEARLY
datatype transport = TCP | UDP
datatype delivery_mode = FRAMED | WIREGUARD
datatype subscription_status = SubPENDING | SubACTIVE | SubEXPIRED | SubCANCELLED
datatype lease_state = RESERVED | LeaseACTIVE | QUARANTINED | RELEASED
datatype payment_method = LIGHTNING | CASHU | NWC | STABLECOIN_SWAP | CLINK
datatype payment_status = PENDING | PROCESSING | PAID | EXPIRED | FAILED
datatype notification_category = ACCOUNT | SERVICE
datatype notification_kind =
    EXPIRATION_7_DAY | EXPIRATION_1_DAY | SUBSCRIPTION_ACTIVATED | SUBSCRIPTION_RENEWED
  | AUTOMATIC_RENEWAL_FAILED | AUTOMATIC_RENEWAL_UNCONFIRMED | SUBSCRIPTION_EXPIRED
  | SERVICE_ANNOUNCEMENT
datatype delivery_state =
    QUEUED | SENDING | SENT | DELIVERY_AMBIGUOUS | CANCELLED | DeliveryFAILED | DeliveryEXPIRED

section \<open>Exceptions\<close>

text \<open>
  The exceptions the services raise, with the constant part of their message. The Python classes
  \<^verbatim>\<open>DisabledPaymentMethodError\<close>, \<^verbatim>\<open>OpenPaymentConflictError\<close>,
  \<^verbatim>\<open>ProductUnavailableError\<close> and the referral errors are subclasses of
  \<^verbatim>\<open>ValueError\<close>; \<^verbatim>\<open>NoCapacityError\<close>, \<^verbatim>\<open>AccountLimitError\<close>,
  \<^verbatim>\<open>SubscriptionCancellationConflict\<close> and \<^verbatim>\<open>PaymentProviderError\<close> are not.
\<close>

datatype error =
    ValueError string
  | RuntimeError string
  | NoCapacityError string
  | AccountLimitError string
  | SubscriptionCancellationConflict string
  | ProductUnavailableError string
  | DisabledPaymentMethodError payment_method
  | PaymentProviderError string
  | OpenPaymentConflictError int
  | ReferralPayoutNotFoundError
  | ReferralPayoutConflictError string
  | ReferralBalanceTooLowError
  | AgentOrderConflictError
  | IntegrityError

fun is_value_error :: "error \<Rightarrow> bool" where
  "is_value_error (ValueError _) = True"
| "is_value_error (ProductUnavailableError _) = True"
| "is_value_error (DisabledPaymentMethodError _) = True"
| "is_value_error (OpenPaymentConflictError _) = True"
| "is_value_error ReferralPayoutNotFoundError = True"
| "is_value_error (ReferralPayoutConflictError _) = True"
| "is_value_error ReferralBalanceTooLowError = True"
| "is_value_error _ = False"

section \<open>Tables\<close>

record user =
  user_id :: int
  user_public_id :: string
  is_admin :: bool
  is_suspended :: bool
  user_last_seen_at :: "time option"
  has_nwc :: bool
  nwc_credential :: "(string \<times> string) option"
  nwc_generation :: int
  has_clink :: bool
  clink_credential :: "(string \<times> string) option"
  clink_generation :: int
  has_notification_email :: bool
  notification_email :: "(string \<times> string) option"
  notification_email_generation :: int

record subscription =
  sub_id :: int
  sub_public_id :: string
  sub_user_id :: int
  product :: product_type
  delivery :: delivery_mode
  sub_status :: subscription_status
  assigned_ip :: "string option"
  assigned_port :: "int option"
  transport :: transport
  domain :: "string option"
  relay_hostname_scope :: hostname_scope
  relay_pool_domain :: "string option"
  domain_is_managed :: bool
  domain_verification_token :: "string option"
  domain_verified_at :: "time option"
  domain_claim_expires_at :: "time option"
  domain_renewal_grace_expires_at :: "time option"
  reservation_expires_at :: "time option"
  reservation_payment_id :: "int option"
  resource_quarantined_until :: "time option"
  billing_term :: billing_term
  monthly_price_sats :: int
  yearly_price_sats :: int
  current_period_start :: "time option"
  current_period_end :: "time option"
  auto_renew :: bool
  sub_referral_address :: "string option"
  upgrade_from_subscription_id :: "int option"
  upgrade_credit_sats :: int
  upgrade_source_period_end :: "time option"
  sub_created_at :: time
  sub_updated_at :: time

record ip_lease =
  lease_id :: int
  lease_subscription_id :: int
  lease_reservation_payment_id :: "int option"
  lease_address :: string
  lease_delivery :: delivery_mode
  lease_state :: lease_state
  reserved_at :: time
  activated_at :: "time option"
  expired_at :: "time option"
  quarantined_at :: "time option"
  quarantine_until :: "time option"
  released_at :: "time option"
  release_reason :: "string option"
  smtp_enabled :: bool
  smtp_intended_use :: "string option"
  smtp_fee_paid_sats :: int
  smtp_reviewed_at :: "time option"
  smtp_reviewed_by :: "string option"
  smtp_review_reference :: "string option"
  smtp_revoked_at :: "time option"
  smtp_revocation_reason :: "string option"
  lease_updated_at :: time

text \<open>The automatic-wallet columns of a payment, grouped by wallet.\<close>

record nwc_columns =
  nwc_state :: "string option"
  nwc_attempt_count :: nat
  nwc_first_attempt_at :: "time option"
  nwc_last_attempt_at :: "time option"
  nwc_next_attempt_at :: "time option"
  nwc_last_lookup_at :: "time option"
  nwc_lease_until :: "time option"
  nwc_lease_token :: "string option"
  nwc_error_code :: "string option"
  nwc_preimage_hash :: "string option"
  nwc_fees_paid_msats :: "int option"
  nwc_credential_generation :: "int option"

record clink_columns =
  clink_state :: "string option"
  clink_attempt_count :: nat
  clink_attempted_at :: "time option"
  clink_lease_until :: "time option"
  clink_lease_token :: "string option"
  clink_error_code :: "string option"
  clink_preimage_hash :: "string option"
  clink_credential_generation :: "int option"
  clink_nwc_fallback :: bool

record payment =
  pay_id :: int
  pay_subscription_id :: int
  agent_order_id :: "int option"
  pay_method :: payment_method
  pay_status :: payment_status
  pay_billing_term :: billing_term
  period_days :: int
  amount_sats :: int
  markup_sats :: int
  service_price_sats :: int
  discount_sats :: int
  stablecoin_surcharge_sats :: int
  stablecoin_provider :: "string option"
  stablecoin_checkout_origin :: "string option"
  stablecoin_asset :: "string option"
  invoice :: "string option"
  payment_hash :: "string option"
  invoice_idempotency_key :: "string option"
  invoice_provider :: "string option"
  lnurl_attempted_at :: "time option"
  lnurl_verify_url :: "string option"
  lnurl_metadata :: "string option"
  invoice_expires_at :: "time option"
  settlement_verified_at :: "time option"
  settlement_review_required :: bool
  lnurl_last_checked_at :: "time option"
  pay_referral_address :: "string option"
  referral_commission_bps :: int
  nwc :: nwc_columns
  clink :: clink_columns
  automatic_renewal :: bool
  automatic_renewal_period_end :: "time option"
  pay_created_at :: time
  paid_at :: "time option"
  expires_at :: "time option"

record referral_credit =
  credit_payment_id :: int
  credit_address :: string
  credit_amount_sats :: int
  credit_payout_id :: "string option"

record referral_payout =
  payout_id :: string
  payout_address :: string
  payout_amount_sats :: int
  payout_status :: string
  external_reference :: "string option"
  payout_paid_at :: "time option"

text \<open>
  The idempotency keys the lifecycle and the payments build are strings made of a tag, identifiers
  and an ISO date; each shape is a constructor. Any other key is \<open>OtherKey\<close>.
\<close>

datatype idempotency_key =
    PaymentEvent int notification_kind
  | SubscriptionExpired int time
  | AutomaticRenewalFailed int time
  | ExpirationEvent int time notification_kind
  | AnnouncementFor int int
  | OtherKey string

record notification_delivery =
  note_id :: int
  note_user_id :: int
  note_subscription_id :: "int option"
  note_payment_id :: "int option"
  note_announcement_id :: "int option"
  note_category :: notification_category
  note_kind :: notification_kind
  idempotency_key :: idempotency_key
  recipient_generation :: int
  event_at :: "time option"
  resource_identity :: "(string \<times> string) option"
  note_state :: delivery_state
  note_attempt_count :: nat
  note_error_code :: "string option"
  note_created_at :: time
  note_updated_at :: time
  note_last_attempt_at :: "time option"
  note_next_attempt_at :: "time option"
  note_sent_at :: "time option"
  note_terminal_at :: "time option"
  note_lease_token :: "string option"
  note_lease_until :: "time option"

record agent_order =
  order_id :: int
  order_user_id :: int
  order_key :: string
  order_subscription_id :: int
  order_product :: product_type
  order_billing_term :: billing_term
  order_delivery :: delivery_mode
  order_transport :: transport
  order_domain :: "string option"
  order_scope :: hostname_scope

section \<open>Column defaults and sample rows\<close>

text \<open>The wallet columns of a new payment.\<close>

definition blank_nwc :: nwc_columns where
  "blank_nwc = \<lparr> nwc_state = None,
     nwc_attempt_count = 0,
     nwc_first_attempt_at = None,
     nwc_last_attempt_at = None,
     nwc_next_attempt_at = None,
     nwc_last_lookup_at = None,
     nwc_lease_until = None,
     nwc_lease_token = None,
     nwc_error_code = None,
     nwc_preimage_hash = None,
     nwc_fees_paid_msats = None,
     nwc_credential_generation = None \<rparr>"

text \<open>The same for CLINK.\<close>

definition blank_clink :: clink_columns where
  "blank_clink = \<lparr> clink_state = None,
     clink_attempt_count = 0,
     clink_attempted_at = None,
     clink_lease_until = None,
     clink_lease_token = None,
     clink_error_code = None,
     clink_preimage_hash = None,
     clink_credential_generation = None,
     clink_nwc_fallback = False \<rparr>"

text \<open>A sample account.\<close>

definition sample_user :: user where
  "sample_user = \<lparr> user_id = 1,
     user_public_id = '''',
     is_admin = False,
     is_suspended = False,
     user_last_seen_at = None,
     has_nwc = False,
     nwc_credential = None,
     nwc_generation = 0,
     has_clink = False,
     clink_credential = None,
     clink_generation = 0,
     has_notification_email = False,
     notification_email = None,
     notification_email_generation = 0 \<rparr>"

text \<open>A sample pending Port subscription.\<close>

definition sample_subscription :: subscription where
  "sample_subscription = \<lparr> sub_id = 1,
     sub_public_id = '''',
     sub_user_id = 1,
     product = PORT,
     delivery = FRAMED,
     sub_status = SubPENDING,
     assigned_ip = None,
     assigned_port = None,
     transport = TCP,
     domain = None,
     relay_hostname_scope = EXACT,
     relay_pool_domain = None,
     domain_is_managed = False,
     domain_verification_token = None,
     domain_verified_at = None,
     domain_claim_expires_at = None,
     domain_renewal_grace_expires_at = None,
     reservation_expires_at = None,
     reservation_payment_id = None,
     resource_quarantined_until = None,
     billing_term = MONTHLY,
     monthly_price_sats = 1000,
     yearly_price_sats = 10000,
     current_period_start = None,
     current_period_end = None,
     auto_renew = False,
     sub_referral_address = None,
     upgrade_from_subscription_id = None,
     upgrade_credit_sats = 0,
     upgrade_source_period_end = None,
     sub_created_at = 0,
     sub_updated_at = 0 \<rparr>"

text \<open>A sample pending monthly payment.\<close>

definition sample_payment :: payment where
  "sample_payment = \<lparr> pay_id = 1,
     pay_subscription_id = 1,
     agent_order_id = None,
     pay_method = LIGHTNING,
     pay_status = PENDING,
     pay_billing_term = MONTHLY,
     period_days = 30,
     amount_sats = 1000,
     markup_sats = 0,
     service_price_sats = 1000,
     discount_sats = 0,
     stablecoin_surcharge_sats = 0,
     stablecoin_provider = None,
     stablecoin_checkout_origin = None,
     stablecoin_asset = None,
     invoice = None,
     payment_hash = None,
     invoice_idempotency_key = None,
     invoice_provider = None,
     lnurl_attempted_at = None,
     lnurl_verify_url = None,
     lnurl_metadata = None,
     invoice_expires_at = None,
     settlement_verified_at = None,
     settlement_review_required = False,
     lnurl_last_checked_at = None,
     pay_referral_address = None,
     referral_commission_bps = 0,
     nwc = blank_nwc,
     clink = blank_clink,
     automatic_renewal = False,
     automatic_renewal_period_end = None,
     pay_created_at = 0,
     paid_at = None,
     expires_at = None \<rparr>"

end
