(* ===== verification/Settings.thy ===== *)
theory Settings
  imports Models
begin

text \<open>
  The settings the modelled services read (\<^verbatim>\<open>config.py\<close>), under their own names. The parsed
  inventories (\<^verbatim>\<open>relay_shared_ips_list\<close> and so on) are fields: their validators and the
  environment parsing are not modelled. A port pool is the Python \<^verbatim>\<open>range(start, stop)\<close> as a pair.
\<close>

record settings =
  BILLING_YEARLY_ENABLED :: bool
  IP_ENABLED :: bool
  IP_SALES_PAUSED :: bool
  IP_YEARLY_SATS :: int
  PORT_ENABLED :: bool
  PORT_SALES_PAUSED :: bool
  PORT_MONTHLY_SATS :: int
  PORT_YEARLY_SATS :: int
  PORT_TCP_CAPACITY :: nat
  PORT_UDP_CAPACITY :: nat
  RELAY_ENABLED :: bool
  RELAY_SALES_PAUSED :: bool
  RELAY_MONTHLY_SATS :: int
  RELAY_YEARLY_SATS :: int
  RELAY_WILDCARD_MONTHLY_SATS :: int
  RELAY_WILDCARD_YEARLY_SATS :: int
  RELAY_MANAGED_DOMAIN_CAP :: nat
  RELAY_CUSTOMER_DOMAINS_ENABLED :: bool
  relay_public_ips_list :: "string list"
  relay_shared_ips_list :: "string list"
  wireguard_public_ips_list :: "string list"
  relay_shared_tcp_port_range :: "int \<times> int"
  relay_shared_udp_port_range :: "int \<times> int"
  relay_pool_domains_list :: "string list"
  relay_managed_suffixes_list :: "string list"
  RELAY_MANAGED_DOMAIN_CLAIM_TTL_SECONDS :: int
  RELAY_DOMAIN_CLAIM_TTL_SECONDS :: int
  RELAY_RENEWAL_GRACE_SECONDS :: int
  IP_REUSE_QUARANTINE_SECONDS :: int
  RESOURCE_REUSE_QUARANTINE_SECONDS :: int
  RESOURCE_RESERVATION_TTL_SECONDS :: int
  REMINDER_EMAIL_ENABLED :: bool
  ACCOUNT_MAX_NON_CANCELLED_SUBSCRIPTIONS :: nat
  ACCOUNT_MAX_PENDING_RELAY_CLAIMS :: nat
  ACCOUNT_MAX_OPEN_PAYMENTS :: nat
  PAYMENT_EXPIRY_SAFETY_SECONDS :: int
  PAYMENT_MIN_PAYABLE_SECONDS :: int
  STABLECOIN_PAYMENTS_ENABLED :: bool
  enabled_payment_methods :: "payment_method list"
  STABLECOIN_SWAP_MARKUP_BPS :: int
  STABLECOIN_CHECKOUT_PROVIDER :: string
  BOLTZ_WEB_URL :: string
  STABLECOIN_SWAP_DEFAULT_ASSET :: string
  LIGHTNING_SWAP_WEB_URL :: string
  LIGHTNING_SWAP_DEFAULT_ASSET :: string
  STABLECOIN_SWAP_MIN_INVOICE_SATS :: int
  STABLECOIN_SWAP_INVOICE_EXPIRY_SECONDS :: int
  PAYMENT_LIGHTNING_ADAPTER :: string
  LNURL_CHECKOUT_SECONDS :: int
  LND_INVOICE_EXPIRY_SECONDS :: int
  NWC_PAYMENT_LEASE_SECONDS :: int
  NWC_RETRY_BASE_SECONDS :: int
  NWC_LOOKUP_INTERVAL_SECONDS :: int
  NWC_MAX_PAYMENT_ATTEMPTS :: nat
  CLINK_PAYMENT_LEASE_SECONDS :: int
  REFERRAL_COMMISSION_BPS :: int
  WIREGUARD_SMTP_EGRESS_FEE_SATS :: int
  ANNOUNCEMENT_EMAIL_ENABLED :: bool
  NOTIFICATION_DELIVERY_LEASE_SECONDS :: int
  NWC_AUTO_RENEW_LEAD_SECONDS :: int
  PAYMENT_RECONCILIATION_BATCH_SIZE :: nat
  NOTIFICATION_RECONCILIATION_BATCH_SIZE :: nat

text \<open>The ports of \<^verbatim>\<open>range(start, stop)\<close>, and membership in it.\<close>

definition port_list :: "int \<times> int \<Rightarrow> int list" where
  "port_list r = [fst r..snd r - 1]"

definition in_range :: "int \<Rightarrow> int \<times> int \<Rightarrow> bool" where
  "in_range p r = (fst r \<le> p \<and> p < snd r)"

definition shared_port_range :: "settings \<Rightarrow> transport \<Rightarrow> int \<times> int" where
  "shared_port_range cfg t =
     (if t = UDP then relay_shared_udp_port_range cfg else relay_shared_tcp_port_range cfg)"

definition port_capacity :: "settings \<Rightarrow> transport \<Rightarrow> nat" where
  "port_capacity cfg t = (if t = UDP then PORT_UDP_CAPACITY cfg else PORT_TCP_CAPACITY cfg)"

definition wireguard_enabled :: "settings \<Rightarrow> bool" where
  "wireguard_enabled cfg = (wireguard_public_ips_list cfg \<noteq> [])"

definition is_payment_method_enabled :: "settings \<Rightarrow> payment_method \<Rightarrow> bool" where
  "is_payment_method_enabled cfg m =
     (if m = STABLECOIN_SWAP \<and> \<not> STABLECOIN_PAYMENTS_ENABLED cfg then False
      else m \<in> set (enabled_payment_methods cfg))"

text \<open>A sample configuration for the worked instances.\<close>

definition example_settings :: settings where
  "example_settings = \<lparr>
     BILLING_YEARLY_ENABLED = True,
     IP_ENABLED = True,
     IP_SALES_PAUSED = False,
     IP_YEARLY_SATS = 100000,
     PORT_ENABLED = True,
     PORT_SALES_PAUSED = False,
     PORT_MONTHLY_SATS = 1000,
     PORT_YEARLY_SATS = 10000,
     PORT_TCP_CAPACITY = 2,
     PORT_UDP_CAPACITY = 2,
     RELAY_ENABLED = True,
     RELAY_SALES_PAUSED = False,
     RELAY_MONTHLY_SATS = 2000,
     RELAY_YEARLY_SATS = 20000,
     RELAY_WILDCARD_MONTHLY_SATS = 5000,
     RELAY_WILDCARD_YEARLY_SATS = 50000,
     RELAY_MANAGED_DOMAIN_CAP = 100,
     RELAY_CUSTOMER_DOMAINS_ENABLED = True,
     relay_public_ips_list = [],
     relay_shared_ips_list = [''198.51.100.7''],
     wireguard_public_ips_list = [''203.0.113.5''],
     relay_shared_tcp_port_range = (10000, 10002),
     relay_shared_udp_port_range = (20000, 20002),
     relay_pool_domains_list = [''relay.example''],
     relay_managed_suffixes_list = [''apps.example''],
     RELAY_MANAGED_DOMAIN_CLAIM_TTL_SECONDS = 1800,
     RELAY_DOMAIN_CLAIM_TTL_SECONDS = 3600,
     RELAY_RENEWAL_GRACE_SECONDS = 604800,
     IP_REUSE_QUARANTINE_SECONDS = 604800,
     RESOURCE_REUSE_QUARANTINE_SECONDS = 86400,
     RESOURCE_RESERVATION_TTL_SECONDS = 1800,
     REMINDER_EMAIL_ENABLED = False,
     ACCOUNT_MAX_NON_CANCELLED_SUBSCRIPTIONS = 20,
     ACCOUNT_MAX_PENDING_RELAY_CLAIMS = 2,
     ACCOUNT_MAX_OPEN_PAYMENTS = 5,
     PAYMENT_EXPIRY_SAFETY_SECONDS = 30,
     PAYMENT_MIN_PAYABLE_SECONDS = 60,
     STABLECOIN_PAYMENTS_ENABLED = True,
     enabled_payment_methods = [LIGHTNING, NWC, CLINK, STABLECOIN_SWAP],
     STABLECOIN_SWAP_MARKUP_BPS = 250,
     STABLECOIN_CHECKOUT_PROVIDER = ''lightning_swap'',
     BOLTZ_WEB_URL = ''https://swap.example'',
     STABLECOIN_SWAP_DEFAULT_ASSET = ''USDT'',
     LIGHTNING_SWAP_WEB_URL = ''https://swap.example'',
     LIGHTNING_SWAP_DEFAULT_ASSET = ''USDT'',
     STABLECOIN_SWAP_MIN_INVOICE_SATS = 10000,
     STABLECOIN_SWAP_INVOICE_EXPIRY_SECONDS = 3600,
     PAYMENT_LIGHTNING_ADAPTER = ''lnurl'',
     LNURL_CHECKOUT_SECONDS = 600,
     LND_INVOICE_EXPIRY_SECONDS = 3600,
     NWC_PAYMENT_LEASE_SECONDS = 60,
     NWC_RETRY_BASE_SECONDS = 30,
     NWC_LOOKUP_INTERVAL_SECONDS = 15,
     NWC_MAX_PAYMENT_ATTEMPTS = 3,
     CLINK_PAYMENT_LEASE_SECONDS = 60,
     REFERRAL_COMMISSION_BPS = 1000,
     WIREGUARD_SMTP_EGRESS_FEE_SATS = 50000,
     ANNOUNCEMENT_EMAIL_ENABLED = True,
     NOTIFICATION_DELIVERY_LEASE_SECONDS = 120,
     NWC_AUTO_RENEW_LEAD_SECONDS = 259200,
     PAYMENT_RECONCILIATION_BATCH_SIZE = 100,
     NOTIFICATION_RECONCILIATION_BATCH_SIZE = 100 \<rparr>"

lemma set_port_list [simp]: "set (port_list r) = {p. in_range p r}"
  by (auto simp: port_list_def in_range_def)

lemma distinct_port_list [simp]: "distinct (port_list r)"
  by (simp add: port_list_def)

lemma length_port_list: "length (port_list r) = nat (snd r - fst r)"
  by (simp add: port_list_def)

end
