(* ===== verification/Database.thy ===== *)
theory Database
  imports Settings
begin

text \<open>
  The database: one list of rows per table, a sequence for new identifiers, and the unique indexes
  of \<^verbatim>\<open>core/models.py\<close>. A flush that would break one of them raises
  \<^verbatim>\<open>IntegrityError\<close>. Operations inside a transaction map a database to a database; what
  they write becomes visible to others only where the code commits.
\<close>

record database =
  users :: "user list"
  subscriptions :: "subscription list"
  payments :: "payment list"
  leases :: "ip_lease list"
  referral_credits :: "referral_credit list"
  referral_payouts :: "referral_payout list"
  notifications :: "notification_delivery list"
  agent_orders :: "agent_order list"
  next_id :: int

section \<open>Lookups and single-row writes\<close>

definition get_user :: "database \<Rightarrow> int \<Rightarrow> user option" where
  "get_user db i = get_row user_id i (users db)"

definition get_subscription :: "database \<Rightarrow> int \<Rightarrow> subscription option" where
  "get_subscription db i = get_row sub_id i (subscriptions db)"

definition get_payment :: "database \<Rightarrow> int \<Rightarrow> payment option" where
  "get_payment db i = get_row pay_id i (payments db)"

text \<open>Writing the changed attributes of a session object is an update of its row.\<close>

definition set_subscription :: "int \<Rightarrow> (subscription \<Rightarrow> subscription) \<Rightarrow> database \<Rightarrow> database" where
  "set_subscription i f db =
     db\<lparr>subscriptions := update_where (\<lambda>s. sub_id s = i) f (subscriptions db)\<rparr>"

definition set_payment :: "int \<Rightarrow> (payment \<Rightarrow> payment) \<Rightarrow> database \<Rightarrow> database" where
  "set_payment i f db = db\<lparr>payments := update_where (\<lambda>p. pay_id p = i) f (payments db)\<rparr>"

definition set_lease :: "int \<Rightarrow> (ip_lease \<Rightarrow> ip_lease) \<Rightarrow> database \<Rightarrow> database" where
  "set_lease i f db = db\<lparr>leases := update_where (\<lambda>l. lease_id l = i) f (leases db)\<rparr>"

section \<open>Unique indexes\<close>

definition port_tuple :: "subscription \<Rightarrow> (string \<times> int \<times> transport) option" where
  "port_tuple s =
     (case (assigned_ip s, assigned_port s) of
        (Some ip, Some port) \<Rightarrow> Some (ip, port, transport s)
      | _ \<Rightarrow> None)"

definition dedicated_ip :: "subscription \<Rightarrow> string option" where
  "dedicated_ip s = (if product s = IP then assigned_ip s else None)"

definition is_open :: "payment_status \<Rightarrow> bool" where
  "is_open st = (st = PENDING \<or> st = PROCESSING)"

definition open_subscription :: "payment \<Rightarrow> int option" where
  "open_subscription p = (if is_open (pay_status p) then Some (pay_subscription_id p) else None)"

definition unreleased_address :: "ip_lease \<Rightarrow> string option" where
  "unreleased_address l = (if released_at l = None then Some (lease_address l) else None)"

definition unreleased_subscription :: "ip_lease \<Rightarrow> int option" where
  "unreleased_subscription l =
     (if released_at l = None then Some (lease_subscription_id l) else None)"

definition subscription_indexes :: "subscription list \<Rightarrow> bool" where
  "subscription_indexes ss =
     (distinct (map sub_id ss) \<and> unique_on port_tuple ss \<and> unique_on dedicated_ip ss \<and>
      unique_on domain ss \<and> unique_on upgrade_from_subscription_id ss)"

definition lease_indexes :: "ip_lease list \<Rightarrow> bool" where
  "lease_indexes ls =
     (distinct (map lease_id ls) \<and> unique_on unreleased_address ls \<and>
      unique_on unreleased_subscription ls)"

definition payment_indexes :: "payment list \<Rightarrow> bool" where
  "payment_indexes ps =
     (distinct (map pay_id ps) \<and> unique_on open_subscription ps \<and> unique_on payment_hash ps \<and>
      unique_on invoice_idempotency_key ps \<and> unique_on agent_order_id ps)"

definition referral_indexes :: "referral_credit list \<Rightarrow> referral_payout list \<Rightarrow> bool" where
  "referral_indexes cs ps =
     (distinct (map credit_payment_id cs) \<and> distinct (map payout_id ps) \<and>
      unique_on external_reference ps)"

definition notification_indexes :: "notification_delivery list \<Rightarrow> bool" where
  "notification_indexes ns = (distinct (map note_id ns) \<and> distinct (map idempotency_key ns))"

definition integrity :: "database \<Rightarrow> bool" where
  "integrity db =
     (distinct (map user_id (users db)) \<and> subscription_indexes (subscriptions db) \<and>
      payment_indexes (payments db) \<and> lease_indexes (leases db) \<and>
      referral_indexes (referral_credits db) (referral_payouts db) \<and>
      notification_indexes (notifications db))"

text \<open>Open payments of one subscription, as the services select them.\<close>

definition open_payments :: "database \<Rightarrow> int \<Rightarrow> payment list" where
  "open_payments db i = filter (\<lambda>p. pay_subscription_id p = i \<and> is_open (pay_status p)) (payments db)"

text \<open>A sample database with no rows.\<close>

definition empty_database :: database where
  "empty_database = \<lparr> users = [], subscriptions = [], payments = [], leases = [],
     referral_credits = [], referral_payouts = [], notifications = [], agent_orders = [],
     next_id = 1 \<rparr>"

section \<open>Lemmas\<close>

lemma set_subscription_simps [simp]:
  "users (set_subscription i f db) = users db"
  "payments (set_subscription i f db) = payments db"
  "leases (set_subscription i f db) = leases db"
  "referral_credits (set_subscription i f db) = referral_credits db"
  "referral_payouts (set_subscription i f db) = referral_payouts db"
  "notifications (set_subscription i f db) = notifications db"
  "agent_orders (set_subscription i f db) = agent_orders db"
  "next_id (set_subscription i f db) = next_id db"
  by (simp_all add: set_subscription_def)

lemma set_payment_simps [simp]:
  "users (set_payment i g db) = users db"
  "subscriptions (set_payment i g db) = subscriptions db"
  "leases (set_payment i g db) = leases db"
  "referral_credits (set_payment i g db) = referral_credits db"
  "referral_payouts (set_payment i g db) = referral_payouts db"
  "notifications (set_payment i g db) = notifications db"
  "agent_orders (set_payment i g db) = agent_orders db"
  "next_id (set_payment i g db) = next_id db"
  by (simp_all add: set_payment_def)

lemma set_lease_simps [simp]:
  "users (set_lease i h db) = users db"
  "subscriptions (set_lease i h db) = subscriptions db"
  "payments (set_lease i h db) = payments db"
  "referral_credits (set_lease i h db) = referral_credits db"
  "referral_payouts (set_lease i h db) = referral_payouts db"
  "notifications (set_lease i h db) = notifications db"
  "agent_orders (set_lease i h db) = agent_orders db"
  "next_id (set_lease i h db) = next_id db"
  by (simp_all add: set_lease_def)

lemma get_set_subscription:
  assumes "\<And>s. sub_id (f s) = sub_id s"
  shows "get_subscription (set_subscription i f db) j =
    (if j = i then map_option f (get_subscription db j) else get_subscription db j)"
  using assms
  by (cases "get_row sub_id j (subscriptions db)")
    (auto simp: get_subscription_def set_subscription_def get_row_update_where dest: get_row_Some)

lemma get_set_payment:
  assumes "\<And>p. pay_id (f p) = pay_id p"
  shows "get_payment (set_payment i f db) j =
    (if j = i then map_option f (get_payment db j) else get_payment db j)"
  using assms
  by (cases "get_row pay_id j (payments db)")
    (auto simp: get_payment_def set_payment_def get_row_update_where dest: get_row_Some)

lemma get_subscription_set_payment [simp]:
  "get_subscription (set_payment i f db) j = get_subscription db j"
  by (simp add: get_subscription_def)

lemma get_subscription_set_lease [simp]:
  "get_subscription (set_lease i h db) j = get_subscription db j"
  by (simp add: get_subscription_def)

lemma get_payment_set_subscription [simp]:
  "get_payment (set_subscription i f db) j = get_payment db j"
  by (simp add: get_payment_def)

lemma get_payment_set_lease [simp]: "get_payment (set_lease i h db) j = get_payment db j"
  by (simp add: get_payment_def)

lemma get_user_frame [simp]:
  "get_user (set_subscription i f db) j = get_user db j"
  "get_user (set_payment i g db) j = get_user db j"
  "get_user (set_lease i h db) j = get_user db j"
  by (simp_all add: get_user_def)

text \<open>A row write that keeps or clears every indexed column keeps the indexes.\<close>

lemma subscription_indexes_update:
  assumes "\<And>s. p s \<Longrightarrow> sub_id (f s) = sub_id s"
    and "\<And>s. p s \<Longrightarrow> port_tuple (f s) = port_tuple s \<or> port_tuple (f s) = None"
    and "\<And>s. p s \<Longrightarrow> dedicated_ip (f s) = dedicated_ip s \<or> dedicated_ip (f s) = None"
    and "\<And>s. p s \<Longrightarrow> domain (f s) = domain s \<or> domain (f s) = None"
    and "\<And>s. p s \<Longrightarrow> upgrade_from_subscription_id (f s) = upgrade_from_subscription_id s \<or>
              upgrade_from_subscription_id (f s) = None"
    and "subscription_indexes ss"
  shows "subscription_indexes (update_where p f ss)"
  using assms unfolding subscription_indexes_def
  by (intro conjI unique_on_update_where) (simp_all add: map_update_where)

lemma payment_indexes_update:
  assumes "\<And>r. p r \<Longrightarrow> pay_id (f r) = pay_id r"
    and "\<And>r. p r \<Longrightarrow> open_subscription (f r) = open_subscription r \<or> open_subscription (f r) = None"
    and "\<And>r. p r \<Longrightarrow> payment_hash (f r) = payment_hash r \<or> payment_hash (f r) = None"
    and "\<And>r. p r \<Longrightarrow> invoice_idempotency_key (f r) = invoice_idempotency_key r \<or>
              invoice_idempotency_key (f r) = None"
    and "\<And>r. p r \<Longrightarrow> agent_order_id (f r) = agent_order_id r \<or> agent_order_id (f r) = None"
    and "payment_indexes ps"
  shows "payment_indexes (update_where p f ps)"
  using assms unfolding payment_indexes_def
  by (intro conjI unique_on_update_where) (simp_all add: map_update_where)

lemma lease_indexes_update:
  assumes "\<And>l. p l \<Longrightarrow> lease_id (f l) = lease_id l"
    and "\<And>l. p l \<Longrightarrow> unreleased_address (f l) = unreleased_address l \<or> unreleased_address (f l) = None"
    and "\<And>l. p l \<Longrightarrow> unreleased_subscription (f l) = unreleased_subscription l \<or>
              unreleased_subscription (f l) = None"
    and "lease_indexes ls"
  shows "lease_indexes (update_where p f ls)"
  using assms unfolding lease_indexes_def
  by (intro conjI unique_on_update_where) (simp_all add: map_update_where)

lemma one_open_payment:
  assumes "payment_indexes (payments db)"
    and "p \<in> set (payments db)" "q \<in> set (payments db)"
    and "is_open (pay_status p)" "is_open (pay_status q)"
    and "pay_subscription_id p = pay_subscription_id q"
  shows "p = q"
  using assms unique_onD [of open_subscription "payments db" pay_id p q "pay_subscription_id p"]
  by (auto simp: payment_indexes_def open_subscription_def)

end
