(* ===== verification/Ip_Leases.thy ===== *)
theory Ip_Leases
  imports Database
begin

text \<open>
  Dedicated-address assignment episodes and the audit state of the outbound-mail exception
  (\<^verbatim>\<open>services/ip_leases.py\<close>). Each operation works inside the caller's transaction on the
  database it is given; the subscription argument is the caller's session object. \<^verbatim>\<open>now\<close> is
  the clock reading of the operation.
\<close>

section \<open>The code\<close>

text \<open>Printable ASCII.\<close>

definition printable_ascii :: "char \<Rightarrow> bool" where
  "printable_ascii c = (let n = of_char c :: nat in 32 \<le> n \<and> n \<le> 126)"

fun split_words :: "string \<Rightarrow> string \<Rightarrow> string list" where
  "split_words w [] = (if w = [] then [] else [w])"
| "split_words w (c # cs) =
     (if is_space c then (if w = [] then split_words [] cs else w # split_words [] cs)
      else split_words (w @ [c]) cs)"

definition bounded_reason :: "string \<Rightarrow> string \<Rightarrow> string" where
  "bounded_reason value fallback =
     (let normalized = join_on '' '' (split_words [] value);
          sanitized = filter printable_ascii normalized
      in take 255 (if sanitized = [] then fallback else sanitized))"

definition audit_text :: "string \<Rightarrow> nat \<Rightarrow> error + string" where
  "audit_text value max_length =
     (if value = [] \<or> is_space (hd value) \<or> is_space (last value) \<or> length value > max_length \<or>
         \<not> list_all printable_ascii value
      then Inl (ValueError ''must be trimmed printable ASCII'')
      else Inr value)"

definition current_lease :: "database \<Rightarrow> int \<Rightarrow> ip_lease option" where
  "current_lease db subscription_id =
     List.find (\<lambda>l. lease_subscription_id l = subscription_id \<and> released_at l = None) (leases db)"

definition new_lease :: "int \<Rightarrow> subscription \<Rightarrow> int \<Rightarrow> string \<Rightarrow> time \<Rightarrow> ip_lease" where
  "new_lease i sub payment_id address now =
     \<lparr> lease_id = i, lease_subscription_id = sub_id sub,
       lease_reservation_payment_id = Some payment_id, lease_address = address,
       lease_delivery = delivery sub, lease_state = RESERVED, reserved_at = now,
       activated_at = None, expired_at = None, quarantined_at = None, quarantine_until = None,
       released_at = None, release_reason = None, smtp_enabled = False, smtp_intended_use = None,
       smtp_fee_paid_sats = 0, smtp_reviewed_at = None, smtp_reviewed_by = None,
       smtp_review_reference = None, smtp_revoked_at = None, smtp_revocation_reason = None,
       lease_updated_at = now \<rparr>"

definition reserve :: "time \<Rightarrow> subscription \<Rightarrow> int \<Rightarrow> string \<Rightarrow> database \<Rightarrow> error + database" where
  "reserve now sub payment_id address db =
     (if product sub \<noteq> IP then Inr db
      else let ls = leases db @ [new_lease (next_id db) sub payment_id address now] in
           if lease_indexes ls then Inr (db\<lparr>leases := ls, next_id := next_id db + 1\<rparr>)
           else Inl IntegrityError)"

text \<open>What each operation writes into the row of the current lease.\<close>

definition lease_activated :: "time \<Rightarrow> ip_lease \<Rightarrow> ip_lease" where
  "lease_activated now l = l\<lparr>
     lease_state := LeaseACTIVE,
     activated_at := (case activated_at l of None \<Rightarrow> Some now | Some t \<Rightarrow> Some t),
     expired_at := None, quarantined_at := None, quarantine_until := None,
     lease_reservation_payment_id := None, lease_updated_at := now\<rparr>"

definition lease_quarantined :: "time \<Rightarrow> time \<Rightarrow> ip_lease \<Rightarrow> ip_lease" where
  "lease_quarantined now until l = l\<lparr>
     lease_state := QUARANTINED,
     expired_at := (case expired_at l of None \<Rightarrow> Some now | Some t \<Rightarrow> Some t),
     quarantined_at := Some now, quarantine_until := Some until,
     lease_reservation_payment_id := None, smtp_enabled := False, lease_updated_at := now\<rparr>"

definition lease_released :: "time \<Rightarrow> string \<Rightarrow> ip_lease \<Rightarrow> ip_lease" where
  "lease_released now reason l = l\<lparr>
     lease_state := RELEASED, released_at := Some now,
     release_reason := Some (bounded_reason reason ''released''),
     lease_reservation_payment_id := None, smtp_enabled := False, lease_updated_at := now\<rparr>"

definition smtp_approved ::
  "time \<Rightarrow> string \<Rightarrow> int \<Rightarrow> string \<Rightarrow> string \<Rightarrow> ip_lease \<Rightarrow> ip_lease" where
  "smtp_approved now intended_use fee review_reference reviewed_by l = l\<lparr>
     smtp_enabled := True, smtp_intended_use := Some intended_use, smtp_fee_paid_sats := fee,
     smtp_reviewed_at := Some now, smtp_reviewed_by := Some (take 100 reviewed_by),
     smtp_review_reference := Some review_reference, smtp_revoked_at := None,
     smtp_revocation_reason := None, lease_updated_at := now\<rparr>"

definition smtp_revoked :: "time \<Rightarrow> string \<Rightarrow> ip_lease \<Rightarrow> ip_lease" where
  "smtp_revoked now reason l = l\<lparr>
     smtp_enabled := False, smtp_revoked_at := Some now,
     smtp_revocation_reason := Some (bounded_reason reason ''revoked''), lease_updated_at := now\<rparr>"

definition activate :: "time \<Rightarrow> subscription \<Rightarrow> database \<Rightarrow> error + database" where
  "activate now sub db =
     (if product sub \<noteq> IP then Inr db
      else case current_lease db (sub_id sub) of
        None \<Rightarrow> Inl (ValueError ''Blindport IP lease is no longer available'')
      | Some lease \<Rightarrow>
          if Some (lease_address lease) \<noteq> assigned_ip sub
          then Inl (ValueError ''Blindport IP lease is no longer available'')
          else Inr (set_lease (lease_id lease) (lease_activated now) db))"

definition quarantine :: "time \<Rightarrow> subscription \<Rightarrow> time \<Rightarrow> database \<Rightarrow> database" where
  "quarantine now sub until db =
     (if product sub \<noteq> IP then db
      else case current_lease db (sub_id sub) of
        None \<Rightarrow> db
      | Some lease \<Rightarrow>
          set_lease (lease_id lease) (lease_quarantined now until) db)"

definition release :: "time \<Rightarrow> subscription \<Rightarrow> string \<Rightarrow> database \<Rightarrow> bool \<times> database" where
  "release now sub reason db =
     (if product sub \<noteq> IP then (False, db)
      else case current_lease db (sub_id sub) of
        None \<Rightarrow> (False, db)
      | Some lease \<Rightarrow>
          (True, set_lease (lease_id lease) (lease_released now reason) db))"

definition active_routed_lease :: "database \<Rightarrow> int \<Rightarrow> error + ip_lease" where
  "active_routed_lease db subscription_id =
     (case current_lease db subscription_id of
        None \<Rightarrow> Inl (ValueError ''subscription has no current active routed IP lease'')
      | Some lease \<Rightarrow>
          if lease_delivery lease \<noteq> WIREGUARD \<or> lease_state lease \<noteq> LeaseACTIVE
          then Inl (ValueError ''subscription has no current active routed IP lease'')
          else Inr lease)"

definition approve_smtp ::
  "settings \<Rightarrow> time \<Rightarrow> subscription \<Rightarrow> string \<Rightarrow> int \<Rightarrow> string \<Rightarrow> string \<Rightarrow> database
     \<Rightarrow> error + database" where
  "approve_smtp cfg now sub intended_use fee_paid_sats review_reference reviewed_by db =
     (if fee_paid_sats < WIREGUARD_SMTP_EGRESS_FEE_SATS cfg
      then Inl (ValueError ''fee_paid_sats is below the fee'')
      else case audit_text intended_use 500 of Inl e \<Rightarrow> Inl e | Inr use \<Rightarrow>
        (case audit_text review_reference 200 of Inl e \<Rightarrow> Inl e | Inr reference \<Rightarrow>
          (case active_routed_lease db (sub_id sub) of Inl e \<Rightarrow> Inl e | Inr lease \<Rightarrow>
            Inr (set_lease (lease_id lease)
                   (smtp_approved now use fee_paid_sats reference reviewed_by) db))))"

definition revoke_smtp ::
  "time \<Rightarrow> subscription \<Rightarrow> string \<Rightarrow> database \<Rightarrow> error + database" where
  "revoke_smtp now sub reason db =
     (case active_routed_lease db (sub_id sub) of Inl e \<Rightarrow> Inl e | Inr lease \<Rightarrow>
        Inr (set_lease (lease_id lease) (smtp_revoked now reason) db))"

definition revoke_smtp_for_user :: "time \<Rightarrow> int \<Rightarrow> string \<Rightarrow> database \<Rightarrow> nat \<times> database" where
  "revoke_smtp_for_user now uid reason db =
     (let hit = (\<lambda>l. released_at l = None \<and> smtp_enabled l \<and>
                   (\<exists>s \<in> set (subscriptions db).
                      sub_id s = lease_subscription_id l \<and> sub_user_id s = uid))
      in (row_count hit (leases db),
          db\<lparr>leases := update_where hit (smtp_revoked now reason) (leases db)\<rparr>))"

section \<open>Episode invariant\<close>

text \<open>
  The consistency of one episode: its state agrees with the instants it records, a payment owns it
  only while it is reserved, and the mail exception is open only on an active routed lease for which
  at least the configured fee was paid and a review recorded.
\<close>

definition lease_wf :: "settings \<Rightarrow> ip_lease \<Rightarrow> bool" where
  "lease_wf cfg l =
     ((lease_state l = RELEASED \<longleftrightarrow> released_at l \<noteq> None) \<and>
      (lease_reservation_payment_id l \<noteq> None \<longrightarrow> lease_state l = RESERVED) \<and>
      (lease_state l = LeaseACTIVE \<longrightarrow>
         activated_at l \<noteq> None \<and> expired_at l = None \<and> quarantine_until l = None) \<and>
      (lease_state l = QUARANTINED \<longrightarrow> expired_at l \<noteq> None \<and> quarantine_until l \<noteq> None) \<and>
      (smtp_enabled l \<longrightarrow>
         lease_state l = LeaseACTIVE \<and> lease_delivery l = WIREGUARD \<and>
         WIREGUARD_SMTP_EGRESS_FEE_SATS cfg \<le> smtp_fee_paid_sats l \<and> smtp_reviewed_at l \<noteq> None))"

definition leases_wf :: "settings \<Rightarrow> database \<Rightarrow> bool" where
  "leases_wf cfg db =
     (list_all (lease_wf cfg) (leases db) \<and> lease_indexes (leases db) \<and>
      list_all (\<lambda>l. lease_id l < next_id db) (leases db))"

text \<open>Every operation of this component, as one step of the lease table.\<close>

inductive lease_step :: "settings \<Rightarrow> database \<Rightarrow> database \<Rightarrow> bool" for cfg where
  step_reserve: "reserve now sub pid address db = Inr db' \<Longrightarrow> lease_step cfg db db'"
| step_activate: "activate now sub db = Inr db' \<Longrightarrow> lease_step cfg db db'"
| step_quarantine: "lease_step cfg db (quarantine now sub until db)"
| step_release: "lease_step cfg db (snd (release now sub reason db))"
| step_approve: "approve_smtp cfg now sub use fee ref who db = Inr db' \<Longrightarrow> lease_step cfg db db'"
| step_revoke: "revoke_smtp now sub reason db = Inr db' \<Longrightarrow> lease_step cfg db db'"
| step_revoke_user: "lease_step cfg db (snd (revoke_smtp_for_user now uid reason db))"

text \<open>Episodes that were released in the first state are unchanged in the second.\<close>

definition released_kept :: "database \<Rightarrow> database \<Rightarrow> bool" where
  "released_kept db db' \<longleftrightarrow>
     (\<forall>l \<in> set (leases db). released_at l \<noteq> None \<longrightarrow> l \<in> set (leases db'))"

section \<open>Lemmas\<close>

lemmas lease_write_defs =
  lease_activated_def lease_quarantined_def lease_released_def smtp_approved_def smtp_revoked_def

text \<open>The columns no lease write changes, and that none un-releases an episode.\<close>

definition lease_write :: "(ip_lease \<Rightarrow> ip_lease) \<Rightarrow> bool" where
  "lease_write f \<longleftrightarrow>
     (\<forall>l. lease_id (f l) = lease_id l \<and> lease_address (f l) = lease_address l \<and>
          lease_subscription_id (f l) = lease_subscription_id l \<and>
          (released_at (f l) = None \<longrightarrow> released_at l = None))"

lemma lease_writes [simp]:
  "lease_write (lease_activated now)" "lease_write (lease_quarantined now until)"
  "lease_write (lease_released now reason)" "lease_write (smtp_revoked now reason)"
  "lease_write (smtp_approved now use fee ref who)"
  by (simp_all add: lease_write_def lease_write_defs)

lemma lease_write_indexes:
  assumes "lease_write f" and "lease_indexes ls"
  shows "lease_indexes (update_where p f ls)"
proof (rule lease_indexes_update [OF _ _ _ assms(2)])
  fix l
  show "lease_id (f l) = lease_id l"
    and "unreleased_address (f l) = unreleased_address l \<or> unreleased_address (f l) = None"
    and "unreleased_subscription (f l) = unreleased_subscription l \<or>
         unreleased_subscription (f l) = None"
    using assms(1) by (auto simp: lease_write_def unreleased_address_def unreleased_subscription_def)
qed

lemma lease_wf_writes:
  assumes "lease_wf cfg l" and "released_at l = None"
  shows "lease_wf cfg (lease_activated now l)" "lease_wf cfg (lease_quarantined now until l)"
    "lease_wf cfg (lease_released now reason l)" "lease_wf cfg (smtp_revoked now reason l)"
    "lease_state l = LeaseACTIVE \<Longrightarrow> lease_delivery l = WIREGUARD \<Longrightarrow>
       WIREGUARD_SMTP_EGRESS_FEE_SATS cfg \<le> fee \<Longrightarrow> lease_wf cfg (smtp_approved now use fee ref who l)"
  using assms by (auto simp: lease_wf_def lease_write_defs split: option.splits)

lemma new_lease_wf [simp]: "lease_wf cfg (new_lease i sub pid address now)"
  by (simp add: lease_wf_def new_lease_def)

lemma new_lease_id [simp]: "lease_id (new_lease i sub pid address now) = i"
  by (simp add: new_lease_def)

lemma current_leaseD:
  "current_lease db i = Some l \<Longrightarrow>
     l \<in> set (leases db) \<and> lease_subscription_id l = i \<and> released_at l = None"
  by (auto simp: current_lease_def find_Some_iff)

text \<open>A write to unreleased rows that keeps each of them consistent keeps the table consistent.\<close>

lemma update_leases:
  assumes wf: "leases_wf cfg db" and f: "lease_write f"
    and row: "\<And>l. l \<in> set (leases db) \<Longrightarrow> p l \<Longrightarrow> released_at l = None \<and> lease_wf cfg (f l)"
  shows "leases_wf cfg (db\<lparr>leases := update_where p f (leases db)\<rparr>) \<and>
    released_kept db (db\<lparr>leases := update_where p f (leases db)\<rparr>)"
proof
  have "lease_id (f l) = lease_id l" for l using f by (simp add: lease_write_def)
  then show "leases_wf cfg (db\<lparr>leases := update_where p f (leases db)\<rparr>)"
    using wf row f by (auto simp: leases_wf_def list_all_iff in_update_where lease_write_indexes)
  have "l \<in> set (update_where p f (leases db))"
    if "l \<in> set (leases db)" "released_at l \<noteq> None" for l
    using that row by (auto simp: in_update_where intro!: bexI [of _ l])
  then show "released_kept db (db\<lparr>leases := update_where p f (leases db)\<rparr>)"
    by (simp add: released_kept_def)
qed

lemma set_current_lease:
  assumes wf: "leases_wf cfg db" and cur: "current_lease db i = Some lease"
    and f: "lease_write f"
    and new: "lease_wf cfg lease \<Longrightarrow> released_at lease = None \<Longrightarrow> lease_wf cfg (f lease)"
  shows "leases_wf cfg (set_lease (lease_id lease) f db) \<and>
    released_kept db (set_lease (lease_id lease) f db)"
  unfolding set_lease_def
proof (rule update_leases [OF wf f])
  fix l assume l: "l \<in> set (leases db)" "lease_id l = lease_id lease"
  have "l = lease"
    using l wf current_leaseD [OF cur]
    by (metis get_row_unique option.inject leases_wf_def lease_indexes_def)
  then show "released_at l = None \<and> lease_wf cfg (f l)"
    using wf new current_leaseD [OF cur] by (auto simp: leases_wf_def list_all_iff)
qed

lemma released_kept_refl [simp]: "released_kept db db"
  by (simp add: released_kept_def)

lemma released_kept_trans: "released_kept a b \<Longrightarrow> released_kept b c \<Longrightarrow> released_kept a c"
  by (auto simp: released_kept_def)

lemmas lease_splits = if_splits option.splits sum.splits

lemma lease_step_wf:
  assumes wf: "leases_wf cfg db" and step: "lease_step cfg db db'"
  shows "leases_wf cfg db' \<and> released_kept db db'"
  using step
proof cases
  case (step_reserve now sub pid address)
  then show ?thesis using wf
    by (auto simp: reserve_def leases_wf_def list_all_iff released_kept_def Let_def
        split: if_splits) force
next
  case (step_approve now sub use fee ref who)
  then obtain lease u r where cur: "current_lease db (sub_id sub) = Some lease"
    and ok: "WIREGUARD_SMTP_EGRESS_FEE_SATS cfg \<le> fee" "lease_delivery lease = WIREGUARD"
      "lease_state lease = LeaseACTIVE"
    and db': "db' = set_lease (lease_id lease) (smtp_approved now u fee r who) db"
    by (auto simp: approve_smtp_def active_routed_lease_def split: lease_splits)
  then show ?thesis using set_current_lease [OF wf cur] by (simp add: lease_wf_writes)
next
  case (step_revoke_user now uid reason)
  then have db': "db' = db\<lparr>leases := update_where (\<lambda>l. released_at l = None \<and> smtp_enabled l \<and>
      (\<exists>s \<in> set (subscriptions db). sub_id s = lease_subscription_id l \<and> sub_user_id s = uid))
      (smtp_revoked now reason) (leases db)\<rparr>"
    by (simp add: revoke_smtp_for_user_def Let_def)
  show ?thesis unfolding db' using wf
    by (intro update_leases) (auto simp: leases_wf_def list_all_iff lease_wf_writes)
qed (use set_current_lease [OF wf] wf in
    \<open>auto simp: activate_def quarantine_def release_def revoke_smtp_def active_routed_lease_def
       lease_wf_writes split: lease_splits\<close>)

interpretation lease_table: monotone_system "lease_step cfg" "leases_wf cfg" released_kept
  for cfg
  by unfold_locales (auto dest: lease_step_wf intro: released_kept_trans)

section \<open>Properties\<close>

text \<open>
  C32: whatever sequence of operations runs on a consistent lease table, every episode stays
  consistent (in particular the outbound-mail exception is open only on an active routed lease for
  which the fee was paid), at most one unreleased episode exists per address and per subscription,
  and an episode that was released is never written again.
\<close>

theorem lease_episodes_consistent:
  assumes "leases_wf cfg db" and "(lease_step cfg)\<^sup>*\<^sup>* db db'"
  shows "leases_wf cfg db' \<and>
    (\<forall>l \<in> set (leases db). released_at l \<noteq> None \<longrightarrow> l \<in> set (leases db'))"
  using lease_table.run_inv [OF assms(2,1)] lease_table.run_rel [OF assms(2,1)]
  by (simp add: released_kept_def)

theorem lease_episodes_consistent_witness:
  "\<exists>db'. (lease_step example_settings)\<^sup>*\<^sup>* empty_database db' \<and> length (leases db') = 1 \<and>
     leases_wf example_settings db'"
proof -
  let ?sub = "sample_subscription\<lparr>product := IP, delivery := WIREGUARD\<rparr>"
  let ?db = "empty_database\<lparr>leases := [new_lease 1 ?sub 7 ''203.0.113.5'' 0], next_id := 2\<rparr>"
  have "reserve 0 ?sub 7 ''203.0.113.5'' empty_database = Inr ?db"
    by (simp add: reserve_def empty_database_def new_lease_def lease_indexes_def unique_on_Cons)
  then have "lease_step example_settings empty_database ?db" by (rule step_reserve)
  then have run: "(lease_step example_settings)\<^sup>*\<^sup>* empty_database ?db" by (rule r_into_rtranclp)
  have "leases_wf example_settings empty_database"
    by (simp add: leases_wf_def empty_database_def lease_indexes_def)
  from lease_episodes_consistent [OF this run] run show ?thesis
    by (intro exI [of _ ?db]) simp
qed

end
