(* ===== verification/Allocator.thy ===== *)
theory Allocator
  imports Database
begin

text \<open>
  Inventory: the allocator of addresses, shared sockets and relay pool names
  (\<^verbatim>\<open>services/allocator.py\<close>) and the public catalog with its sale gate
  (\<^verbatim>\<open>services/catalog.py\<close>). The draws of \<^verbatim>\<open>secrets.token_hex\<close> are an argument.
\<close>

section \<open>The allocator\<close>

definition allocate_ip :: "settings \<Rightarrow> database \<Rightarrow> error + string" where
  "allocate_ip cfg db =
     (let used = map assigned_ip (filter (\<lambda>s. product s = IP \<and> assigned_ip s \<noteq> None) (subscriptions db))
      in case List.find (\<lambda>ip. Some ip \<notin> set used) (relay_public_ips_list cfg) of
           Some ip \<Rightarrow> Inr ip
         | None \<Rightarrow> Inl (NoCapacityError ''no Blindport IP capacity''))"

definition allocate_port :: "settings \<Rightarrow> transport \<Rightarrow> database \<Rightarrow> error + (string \<times> int)" where
  "allocate_port cfg t db =
     (let used = map (\<lambda>s. (assigned_ip s, assigned_port s, transport s))
            (filter (\<lambda>s. product s = PORT \<and> assigned_ip s \<noteq> None \<and> assigned_port s \<noteq> None)
              (subscriptions db));
          sockets = List.product (relay_shared_ips_list cfg) (port_list (shared_port_range cfg t))
      in case List.find (\<lambda>(ip, port). (Some ip, Some port, t) \<notin> set used) sockets of
           Some socket \<Rightarrow> Inr socket
         | None \<Rightarrow> Inl (NoCapacityError ''no Blindport Port capacity''))"

text \<open>The pool domain a CNAME target lies under: the longest matching one.\<close>

definition pool_base :: "string list \<Rightarrow> string \<Rightarrow> string option" where
  "pool_base domains target =
     List.find (\<lambda>d. target = d \<or> ends_with target (''.'' @ d))
       (sort_key (\<lambda>d. - int (length d)) domains)"

definition pool_rows :: "database \<Rightarrow> subscription list" where
  "pool_rows db =
     filter (\<lambda>s. product s = RELAY \<and> sub_status s \<noteq> SubCANCELLED \<and> domain s \<noteq> None \<and>
       relay_pool_domain s \<noteq> None) (subscriptions db)"

definition pool_count :: "settings \<Rightarrow> database \<Rightarrow> string \<Rightarrow> nat" where
  "pool_count cfg db d =
     length (filter (\<lambda>s. pool_base (relay_pool_domains_list cfg) (the (relay_pool_domain s)) = Some d)
       (pool_rows db))"

text \<open>\<^verbatim>\<open>min(keys, key=f)\<close>: the first key with the least value.\<close>

fun min_by :: "('a \<Rightarrow> nat) \<Rightarrow> 'a \<Rightarrow> 'a list \<Rightarrow> 'a" where
  "min_by f x [] = x"
| "min_by f x (y # ys) = min_by f (if f y < f x then y else x) ys"

definition allocate_relay_pool_domain :: "settings \<Rightarrow> database \<Rightarrow> error + string" where
  "allocate_relay_pool_domain cfg db =
     (case relay_pool_domains_list cfg of
        [] \<Rightarrow> Inl (NoCapacityError ''no Blindport Relay pool configured'')
      | d # ds \<Rightarrow> Inr (min_by (pool_count cfg db) d ds))"

definition allocate_relay_cname_target ::
  "settings \<Rightarrow> string list \<Rightarrow> database \<Rightarrow> error + string" where
  "allocate_relay_cname_target cfg tokens db =
     (case allocate_relay_pool_domain cfg db of Inl e \<Rightarrow> Inl e | Inr base \<Rightarrow>
        (case List.find (\<lambda>t. \<not> list_ex (\<lambda>s. relay_pool_domain s = Some t) (subscriptions db))
                (map (\<lambda>token. token @ ''.'' @ base) (take 16 tokens)) of
           Some target \<Rightarrow> Inr target
         | None \<Rightarrow> Inl (NoCapacityError ''could not allocate a unique Blindport Relay CNAME target'')))"

section \<open>The catalog\<close>

record catalog_capacity =
  cap_total :: nat
  cap_available :: nat
  wireguard_available :: nat
  tcp_available :: nat
  udp_available :: nat
  managed_domains_available :: nat
  customer_domains_available :: bool

record catalog_product =
  cat_product :: product_type
  cat_enabled :: bool
  cat_sales_paused :: bool
  cat_monthly_price :: "int option"
  cat_yearly_price :: int
  cat_available :: bool
  cat_sold_out :: bool
  cat_capacity :: catalog_capacity
  cat_wildcard_available :: bool

definition no_capacity :: catalog_capacity where
  "no_capacity = \<lparr> cap_total = 0, cap_available = 0, wireguard_available = 0, tcp_available = 0,
     udp_available = 0, managed_domains_available = 0, customer_domains_available = False \<rparr>"

definition available_product ::
  "product_type \<Rightarrow> bool \<Rightarrow> bool \<Rightarrow> int option \<Rightarrow> int \<Rightarrow> catalog_capacity \<Rightarrow> bool \<Rightarrow> catalog_product" where
  "available_product p enabled sales_paused monthly yearly capacity has_capacity =
     \<lparr> cat_product = p, cat_enabled = enabled, cat_sales_paused = sales_paused,
       cat_monthly_price = monthly, cat_yearly_price = yearly,
       cat_available = (enabled \<and> \<not> sales_paused \<and> has_capacity),
       cat_sold_out = (enabled \<and> \<not> sales_paused \<and> \<not> has_capacity),
       cat_capacity = capacity, cat_wildcard_available = False \<rparr>"

text \<open>The sockets of one transport that rows of the current shared inventory hold.\<close>

definition used_sockets :: "settings \<Rightarrow> transport \<Rightarrow> database \<Rightarrow> (string \<times> int) list" where
  "used_sockets cfg t db =
     remdups (map (\<lambda>s. (the (assigned_ip s), the (assigned_port s)))
       (filter (\<lambda>s. product s = PORT \<and> transport s = t \<and>
          (\<exists>ip \<in> set (relay_shared_ips_list cfg). assigned_ip s = Some ip) \<and>
          (case assigned_port s of Some p \<Rightarrow> in_range p (shared_port_range cfg t) | None \<Rightarrow> False))
        (subscriptions db)))"

definition socket_total :: "settings \<Rightarrow> transport \<Rightarrow> nat" where
  "socket_total cfg t =
     min (length (remdups (relay_shared_ips_list cfg)) * length (port_list (shared_port_range cfg t)))
       (port_capacity cfg t)"

definition catalog_ip :: "settings \<Rightarrow> database \<Rightarrow> catalog_product" where
  "catalog_ip cfg db =
     (let inventory = remdups (wireguard_public_ips_list cfg);
          used = filter (\<lambda>ip. \<exists>s \<in> set (subscriptions db).
                    product s = IP \<and> delivery s = WIREGUARD \<and> assigned_ip s = Some ip) inventory;
          avail = (if BILLING_YEARLY_ENABLED cfg then length inventory - length used else 0)
      in available_product IP (IP_ENABLED cfg) (IP_SALES_PAUSED cfg) None (IP_YEARLY_SATS cfg)
           (no_capacity\<lparr>cap_total := length inventory, cap_available := avail,
              wireguard_available := avail\<rparr>) (avail > 0))"

definition catalog_port :: "settings \<Rightarrow> database \<Rightarrow> catalog_product" where
  "catalog_port cfg db =
     (let tcp = socket_total cfg TCP - length (used_sockets cfg TCP db);
          udp = socket_total cfg UDP - length (used_sockets cfg UDP db)
      in available_product PORT (PORT_ENABLED cfg) (PORT_SALES_PAUSED cfg)
           (Some (PORT_MONTHLY_SATS cfg)) (PORT_YEARLY_SATS cfg)
           (no_capacity\<lparr>cap_total := socket_total cfg TCP + socket_total cfg UDP,
              cap_available := tcp + udp, tcp_available := tcp, udp_available := udp\<rparr>)
           (tcp + udp > 0))"

definition catalog_relay :: "settings \<Rightarrow> database \<Rightarrow> catalog_product" where
  "catalog_relay cfg db =
     (let managed_held = length (filter (\<lambda>s. product s = RELAY \<and> domain_is_managed s \<and> domain s \<noteq> None)
                           (subscriptions db));
          managed = RELAY_MANAGED_DOMAIN_CAP cfg - managed_held;
          pool = (relay_pool_domains_list cfg \<noteq> []);
          managed_sale = (relay_managed_suffixes_list cfg \<noteq> [] \<and> managed > 0);
          customer = (RELAY_CUSTOMER_DOMAINS_ENABLED cfg \<and> pool);
          relay = available_product RELAY (RELAY_ENABLED cfg) (RELAY_SALES_PAUSED cfg)
            (Some (RELAY_MONTHLY_SATS cfg)) (RELAY_YEARLY_SATS cfg)
            (no_capacity\<lparr>cap_total := RELAY_MANAGED_DOMAIN_CAP cfg, cap_available := managed,
               managed_domains_available := managed, customer_domains_available := customer\<rparr>)
            (pool \<and> (managed_sale \<or> customer))
      in relay\<lparr>cat_wildcard_available :=
           (RELAY_ENABLED cfg \<and> \<not> RELAY_SALES_PAUSED cfg \<and> customer)\<rparr>)"

definition get_catalog :: "settings \<Rightarrow> database \<Rightarrow> catalog_product list" where
  "get_catalog cfg db = [catalog_ip cfg db, catalog_port cfg db, catalog_relay cfg db]"

definition require_product_available ::
  "settings \<Rightarrow> database \<Rightarrow> product_type \<Rightarrow> delivery_mode \<Rightarrow> transport \<Rightarrow> bool \<Rightarrow> hostname_scope
     \<Rightarrow> error option" where
  "require_product_available cfg db p dlv t is_managed scope =
     (let entry = (case p of IP \<Rightarrow> catalog_ip cfg db | PORT \<Rightarrow> catalog_port cfg db
                     | RELAY \<Rightarrow> catalog_relay cfg db);
          capacity = cat_capacity entry
      in if \<not> cat_enabled entry then Some (ProductUnavailableError ''product is disabled'')
         else if cat_sales_paused entry then Some (ProductUnavailableError ''sales are paused'')
         else case p of
           IP \<Rightarrow>
             (if dlv \<noteq> WIREGUARD
              then Some (ProductUnavailableError ''Blindport IP is available with WireGuard delivery only'')
              else if wireguard_available capacity = 0
              then Some (ProductUnavailableError ''no Blindport IP capacity'') else None)
         | PORT \<Rightarrow>
             (if (if t = UDP then udp_available capacity else tcp_available capacity) = 0
              then Some (ProductUnavailableError ''no Blindport Port capacity'') else None)
         | RELAY \<Rightarrow>
             (if is_managed then
                (if managed_domains_available capacity = 0
                 then Some (ProductUnavailableError ''no managed Blindport Relay domain capacity'')
                 else None)
              else if \<not> customer_domains_available capacity
              then Some (ProductUnavailableError ''customer-domain subscriptions are unavailable'')
              else if scope = WILDCARD \<and> \<not> cat_wildcard_available entry
              then Some (ProductUnavailableError ''wildcard subscriptions are unavailable'')
              else None))"

section \<open>Lemmas\<close>

lemma min_by_in: "min_by f x ys \<in> insert x (set ys)"
  by (induction ys arbitrary: x) (auto simp: Let_def)

lemma min_by_le: "y \<in> insert x (set ys) \<Longrightarrow> f (min_by f x ys) \<le> f y"
proof (induction ys arbitrary: x y)
  case (Cons z zs)
  have least: "f (min_by f (if f z < f x then z else x) zs) \<le> f (if f z < f x then z else x)"
    by (rule Cons.IH) simp
  show ?case
  proof (cases "y \<in> set zs")
    case True
    then show ?thesis using Cons.IH by simp
  qed (use Cons.prems least in \<open>auto split: if_splits\<close>)
qed simp

text \<open>
  Interface of a first-fit allocation: from a list of candidates, each free or taken, either the
  outcome of a free candidate or, only if all are taken, the error.
\<close>

locale first_fit =
  fixes candidates :: "'c list" and free :: "'c \<Rightarrow> bool" and outcome :: "'c \<Rightarrow> 'd"
    and result :: "error + 'd" and err :: error
  assumes fit: "result = (case List.find free candidates of Some c \<Rightarrow> Inr (outcome c) | None \<Rightarrow> Inl err)"
begin

lemma result_free: "result = Inr d \<Longrightarrow> \<exists>c \<in> set candidates. free c \<and> d = outcome c"
  by (auto simp: fit find_Some_iff split: option.splits)

lemma result_error: "result = Inl e \<longleftrightarrow> e = err \<and> (\<forall>c \<in> set candidates. \<not> free c)"
proof (cases "List.find free candidates")
  case None
  then have "\<forall>c \<in> set candidates. \<not> free c" by (simp add: find_None_iff)
  with None show ?thesis by (auto simp: fit)
next
  case (Some c)
  then have "c \<in> set candidates \<and> free c" by (auto simp: find_Some_iff)
  with Some show ?thesis by (auto simp: fit)
qed

lemma result_ok: "(\<exists>d. result = Inr d) \<longleftrightarrow> (\<exists>c \<in> set candidates. free c)"
  using result_error result_free by (metis sum.exhaust)

end

definition ip_free :: "database \<Rightarrow> string \<Rightarrow> bool" where
  "ip_free db ip \<longleftrightarrow> \<not> (\<exists>s \<in> set (subscriptions db). product s = IP \<and> assigned_ip s = Some ip)"

definition socket_free :: "database \<Rightarrow> transport \<Rightarrow> string \<times> int \<Rightarrow> bool" where
  "socket_free db t c \<longleftrightarrow>
     \<not> (\<exists>s \<in> set (subscriptions db). product s = PORT \<and> port_tuple s = Some (fst c, snd c, t))"

interpretation ip_fit: first_fit "relay_public_ips_list cfg" "ip_free db" id "allocate_ip cfg db"
    "NoCapacityError ''no Blindport IP capacity''"
  for cfg db
proof
  let ?used = "map assigned_ip (filter (\<lambda>s. product s = IP \<and> assigned_ip s \<noteq> None) (subscriptions db))"
  have "(\<lambda>ip. Some ip \<notin> set ?used) = ip_free db" by (force simp: fun_eq_iff ip_free_def)
  then show "allocate_ip cfg db = (case List.find (ip_free db) (relay_public_ips_list cfg) of
      Some c \<Rightarrow> Inr (id c) | None \<Rightarrow> Inl (NoCapacityError ''no Blindport IP capacity''))"
    by (simp only: allocate_ip_def Let_def id_apply)
qed

definition shared_sockets :: "settings \<Rightarrow> transport \<Rightarrow> (string \<times> int) list" where
  "shared_sockets cfg t =
     List.product (relay_shared_ips_list cfg) (port_list (shared_port_range cfg t))"

lemma port_tuple_Some:
  "port_tuple s = Some (ip, port, t) \<longleftrightarrow>
     assigned_ip s = Some ip \<and> assigned_port s = Some port \<and> transport s = t"
  by (auto simp: port_tuple_def split: option.splits)

interpretation socket_fit: first_fit "shared_sockets cfg t" "socket_free db t" id "allocate_port cfg t db"
    "NoCapacityError ''no Blindport Port capacity''"
  for cfg t db
proof
  let ?used = "map (\<lambda>s. (assigned_ip s, assigned_port s, transport s))
    (filter (\<lambda>s. product s = PORT \<and> assigned_ip s \<noteq> None \<and> assigned_port s \<noteq> None) (subscriptions db))"
  have "(\<lambda>(ip, port). (Some ip, Some port, t) \<notin> set ?used) = socket_free db t"
    by (force simp: fun_eq_iff socket_free_def port_tuple_Some)
  then show "allocate_port cfg t db = (case List.find (socket_free db t) (shared_sockets cfg t) of
      Some c \<Rightarrow> Inr (id c) | None \<Rightarrow> Inl (NoCapacityError ''no Blindport Port capacity''))"
    by (simp only: allocate_port_def Let_def shared_sockets_def id_apply)
qed

lemma allocate_relay_pool_domain_least:
  assumes "allocate_relay_pool_domain cfg db = Inr d"
  shows "d \<in> set (relay_pool_domains_list cfg) \<and>
    (\<forall>e \<in> set (relay_pool_domains_list cfg). pool_count cfg db d \<le> pool_count cfg db e)"
proof -
  obtain x xs where doms: "relay_pool_domains_list cfg = x # xs" and d: "d = min_by (pool_count cfg db) x xs"
    using assms by (auto simp: allocate_relay_pool_domain_def split: list.splits)
  show ?thesis using min_by_in [of "pool_count cfg db" x xs] min_by_le [of _ x xs "pool_count cfg db"]
    by (simp add: doms d)
qed

section \<open>The sale gate and the inventory\<close>

text \<open>The catalog counts a socket as used only if a row of the inventory holds it.\<close>

lemma used_sockets_row:
  "(ip, port) \<in> set (used_sockets cfg t db) \<longleftrightarrow>
     ip \<in> set (relay_shared_ips_list cfg) \<and> in_range port (shared_port_range cfg t) \<and>
     (\<exists>s \<in> set (subscriptions db). product s = PORT \<and> port_tuple s = Some (ip, port, t))"
proof -
  have row: "(case assigned_port s of Some p \<Rightarrow> in_range p r | None \<Rightarrow> False) \<longleftrightarrow>
      (\<exists>p. assigned_port s = Some p \<and> in_range p r)" for s r
    by (cases "assigned_port s") auto
  show ?thesis unfolding used_sockets_def set_remdups set_map set_filter row port_tuple_Some
    by (auto intro!: image_eqI)
qed

lemma used_sockets_inventory:
  "c \<in> set (used_sockets cfg t db) \<longleftrightarrow> c \<in> set (shared_sockets cfg t) \<and> \<not> socket_free db t c"
  using used_sockets_row [of "fst c" "snd c"] by (cases c) (simp add: shared_sockets_def socket_free_def)

lemma free_socket_exists:
  assumes "length (used_sockets cfg t db) < socket_total cfg t"
  shows "\<exists>c \<in> set (shared_sockets cfg t). socket_free db t c"
proof (rule ccontr)
  assume "\<not> (\<exists>c \<in> set (shared_sockets cfg t). socket_free db t c)"
  then have eq: "set (used_sockets cfg t db) = set (shared_sockets cfg t)"
    using used_sockets_inventory by blast
  have "card (set (used_sockets cfg t db)) = length (used_sockets cfg t db)"
    by (rule distinct_card) (simp add: used_sockets_def)
  moreover have "card (set (shared_sockets cfg t)) =
    length (remdups (relay_shared_ips_list cfg)) * length (port_list (shared_port_range cfg t))"
    by (simp add: shared_sockets_def card_cartesian_product length_remdups_card_conv
        distinct_card [OF distinct_port_list, symmetric])
  ultimately show False using assms eq by (simp add: socket_total_def)
qed

end
