(* ===== verification/Notifications.thy ===== *)
theory Notifications
  imports Database Hostnames
begin

text \<open>
  Queueing of account notifications: \<^verbatim>\<open>queue_notification\<close> of
  \<^verbatim>\<open>services/notifications.py\<close> with its validations and its idempotent reuse of an existing
  delivery, and the resource identity it snapshots (\<^verbatim>\<open>services/notification_identity.py\<close>).
  Authenticated encryption is the parameter \<open>seal\<close>, which maps an account and the snapshot
  payload to a ciphertext and key version, or to \<open>None\<close> where the cipher raises
  \<^verbatim>\<open>CredentialError\<close>. An announcement is represented by its identifier.
\<close>

section \<open>Resource identities\<close>

definition is_tld :: "string \<Rightarrow> bool" where
  "is_tld s = (2 \<le> length s \<and> length s \<le> 63 \<and> list_all (\<lambda>c. c \<in> set lower_letters) s)"

text \<open>The regular expression \<^verbatim>\<open>_DOMAIN\<close>, matched in full.\<close>

definition identity_domain :: "string option \<Rightarrow> bool" where
  "identity_domain v =
     (case v of None \<Rightarrow> False
      | Some s \<Rightarrow> (let labels = split_on (CHR ''.'') s in
          1 \<le> length s \<and> length s \<le> 253 \<and> 2 \<le> length labels \<and>
          list_all host_label (butlast labels) \<and> is_tld (last labels)))"

definition identity_address :: "string option \<Rightarrow> bool" where
  "identity_address v =
     (case v of None \<Rightarrow> False | Some s \<Rightarrow> length s \<le> 45 \<and> is_ip_address s)"

definition identity_port :: "int option \<Rightarrow> bool" where
  "identity_port v = (case v of None \<Rightarrow> False | Some p \<Rightarrow> 1 \<le> p \<and> p \<le> 65535)"

text \<open>The rendered line, one constructor per shape of the text.\<close>

datatype identity_line =
    RelayWildcard string
  | RelayExact string
  | PortLine string int transport
  | IPLine string delivery_mode

definition resource_identity_of :: "subscription \<Rightarrow> identity_line option" where
  "resource_identity_of sub =
     (case product sub of
        RELAY \<Rightarrow>
          (if \<not> identity_domain (domain sub) then None
           else if relay_hostname_scope sub = WILDCARD then Some (RelayWildcard (the (domain sub)))
           else Some (RelayExact (the (domain sub))))
      | PORT \<Rightarrow>
          (if \<not> identity_address (assigned_ip sub) \<or> \<not> identity_port (assigned_port sub) then None
           else Some (PortLine (the (assigned_ip sub)) (the (assigned_port sub)) (transport sub)))
      | IP \<Rightarrow>
          (if \<not> identity_address (assigned_ip sub) then None
           else Some (IPLine (the (assigned_ip sub)) (delivery sub))))"

record identity_payload =
  snap_delivery :: int
  snap_subscription :: int
  snap_public_id :: string
  snap_event_at :: "time option"
  snap_product :: product_type
  snap_identity :: identity_line

type_synonym sealer = "string \<Rightarrow> identity_payload \<Rightarrow> (string \<times> string) option"

definition store_resource_identity ::
  "sealer \<Rightarrow> user \<Rightarrow> subscription \<Rightarrow> notification_delivery \<Rightarrow> notification_delivery" where
  "store_resource_identity seal user sub d =
     (if note_subscription_id d \<noteq> Some (sub_id sub) then d
      else case resource_identity_of sub of
        None \<Rightarrow> d
      | Some identity \<Rightarrow>
          (case seal (user_public_id user)
                  \<lparr> snap_delivery = note_id d, snap_subscription = sub_id sub,
                    snap_public_id = sub_public_id sub, snap_event_at = event_at d,
                    snap_product = product sub, snap_identity = identity \<rparr> of
             None \<Rightarrow> d
           | Some encrypted \<Rightarrow> d\<lparr>resource_identity := Some encrypted\<rparr>))"

section \<open>The queue\<close>

definition valid_idempotency_key :: "idempotency_key \<Rightarrow> bool" where
  "valid_idempotency_key k =
     (case k of OtherKey s \<Rightarrow> s \<noteq> [] \<and> length s \<le> 255 \<and> is_ascii s | _ \<Rightarrow> True)"

definition is_expiration_kind :: "notification_kind \<Rightarrow> bool" where
  "is_expiration_kind kind = (kind = EXPIRATION_7_DAY \<or> kind = EXPIRATION_1_DAY)"

definition validate_notification_refs ::
  "notification_category \<Rightarrow> notification_kind \<Rightarrow> subscription option \<Rightarrow> payment option \<Rightarrow>
     int option \<Rightarrow> time option \<Rightarrow> error option" where
  "validate_notification_refs category kind sub pay announcement at =
     (case category of
        ACCOUNT \<Rightarrow>
          (if kind = SERVICE_ANNOUNCEMENT \<or> sub = None \<or> announcement \<noteq> None
           then Some (ValueError ''account notification references are invalid'')
           else if is_expiration_kind kind \<and> at = None
           then Some (ValueError ''expiration notification requires an event time'')
           else if (kind = AUTOMATIC_RENEWAL_FAILED \<or> kind = AUTOMATIC_RENEWAL_UNCONFIRMED) \<and>
             (at = None \<or> (kind = AUTOMATIC_RENEWAL_FAILED) \<noteq> (pay \<noteq> None))
           then Some (ValueError ''automatic renewal notification references are invalid'')
           else if kind = SUBSCRIPTION_EXPIRED \<and> pay \<noteq> None
           then Some (ValueError ''expired subscription notification cannot reference a payment'')
           else None)
      | SERVICE \<Rightarrow>
          (if kind \<noteq> SERVICE_ANNOUNCEMENT \<or> announcement = None \<or> sub \<noteq> None \<or> pay \<noteq> None \<or> at \<noteq> None
           then Some (ValueError ''service notification references are invalid'')
           else None))"

definition recipient_generation_of :: "user \<Rightarrow> error + int" where
  "recipient_generation_of user =
     (if \<not> has_notification_email user \<or> notification_email_generation user < 1
      then Inl (ValueError ''user has no notification recipient'')
      else Inr (notification_email_generation user))"

definition validate_recipient_generation_override ::
  "int \<Rightarrow> notification_category \<Rightarrow> notification_kind \<Rightarrow> int option \<Rightarrow> error + int" where
  "validate_recipient_generation_override generation category kind announcement =
     (if generation < 1 \<or> category \<noteq> SERVICE \<or> kind \<noteq> SERVICE_ANNOUNCEMENT \<or> announcement = None
      then Inl (ValueError ''notification recipient generation override is invalid'')
      else Inr generation)"

text \<open>Writing the row of one delivery.\<close>

definition set_notification ::
  "int \<Rightarrow> (notification_delivery \<Rightarrow> notification_delivery) \<Rightarrow> database \<Rightarrow> database" where
  "set_notification i f db =
     db\<lparr>notifications := update_where (\<lambda>n. note_id n = i) f (notifications db)\<rparr>"

definition reuse_queued_delivery ::
  "notification_delivery \<Rightarrow> int \<Rightarrow> int \<Rightarrow> notification_category \<Rightarrow> notification_kind \<Rightarrow>
     int option \<Rightarrow> int option \<Rightarrow> int option \<Rightarrow> time option \<Rightarrow> database \<Rightarrow> error + database" where
  "reuse_queued_delivery d uid generation category kind sub_ref pay_ref announcement at db =
     (if note_user_id d \<noteq> uid \<or> note_category d \<noteq> category \<or> note_kind d \<noteq> kind \<or>
         note_subscription_id d \<noteq> sub_ref \<or> note_payment_id d \<noteq> pay_ref \<or>
         note_announcement_id d \<noteq> announcement \<or> event_at d \<noteq> at
      then Inl (ValueError ''notification idempotency key conflicts with another event'')
      else if note_state d = QUEUED \<and> announcement = None
      then Inr (set_notification (note_id d) (\<lambda>n. n\<lparr>recipient_generation := generation\<rparr>) db)
      else Inr db)"

definition new_delivery ::
  "int \<Rightarrow> time \<Rightarrow> int \<Rightarrow> int \<Rightarrow> notification_category \<Rightarrow> notification_kind \<Rightarrow> idempotency_key \<Rightarrow>
     int option \<Rightarrow> int option \<Rightarrow> int option \<Rightarrow> time option \<Rightarrow> notification_delivery" where
  "new_delivery i now uid generation category kind key sub_ref pay_ref announcement at =
     \<lparr> note_id = i, note_user_id = uid, note_subscription_id = sub_ref, note_payment_id = pay_ref,
       note_announcement_id = announcement, note_category = category, note_kind = kind,
       idempotency_key = key, recipient_generation = generation, event_at = at,
       resource_identity = None, note_state = QUEUED, note_attempt_count = 0,
       note_error_code = None, note_created_at = now, note_updated_at = now,
       note_last_attempt_at = None, note_next_attempt_at = None, note_sent_at = None,
       note_terminal_at = None, note_lease_token = None, note_lease_until = None \<rparr>"

definition queue_notification ::
  "sealer \<Rightarrow> time \<Rightarrow> user \<Rightarrow> notification_category \<Rightarrow> notification_kind \<Rightarrow> idempotency_key \<Rightarrow>
     subscription option \<Rightarrow> payment option \<Rightarrow> int option \<Rightarrow> time option \<Rightarrow> int option \<Rightarrow>
     database \<Rightarrow> error + database" where
  "queue_notification seal now user category kind key sub pay announcement at override db =
     (if \<not> valid_idempotency_key key then Inl (ValueError ''notification idempotency key is invalid'')
      else case validate_notification_refs category kind sub pay announcement at of
        Some e \<Rightarrow> Inl e
      | None \<Rightarrow>
          if (case sub of Some s \<Rightarrow> sub_user_id s \<noteq> user_id user | None \<Rightarrow> False)
          then Inl (ValueError ''notification subscription does not belong to the user'')
          else if (case (pay, sub) of (Some p, Some s) \<Rightarrow> pay_subscription_id p \<noteq> sub_id s | _ \<Rightarrow> False)
          then Inl (ValueError ''notification payment does not belong to the subscription'')
          else case (case override of
                       Some g \<Rightarrow> validate_recipient_generation_override g category kind announcement
                     | None \<Rightarrow> recipient_generation_of user) of
            Inl e \<Rightarrow> Inl e
          | Inr generation \<Rightarrow>
              (case List.find (\<lambda>n. idempotency_key n = key) (notifications db) of
                 Some existing \<Rightarrow>
                   reuse_queued_delivery existing (user_id user) generation category kind
                     (map_option sub_id sub) (map_option pay_id pay) announcement at db
               | None \<Rightarrow>
                   let d = new_delivery (next_id db) now (user_id user) generation category kind key
                             (map_option sub_id sub) (map_option pay_id pay) announcement at;
                       d' = (case sub of Some s \<Rightarrow> store_resource_identity seal user s d | None \<Rightarrow> d)
                   in Inr (db\<lparr>notifications := notifications db @ [d'], next_id := next_id db + 1\<rparr>)))"

section \<open>Lemmas\<close>

lemma set_notification_simps [simp]:
  "users (set_notification i f db) = users db"
  "subscriptions (set_notification i f db) = subscriptions db"
  "payments (set_notification i f db) = payments db"
  "leases (set_notification i f db) = leases db"
  "referral_credits (set_notification i f db) = referral_credits db"
  "referral_payouts (set_notification i f db) = referral_payouts db"
  "agent_orders (set_notification i f db) = agent_orders db"
  "next_id (set_notification i f db) = next_id db"
  by (simp_all add: set_notification_def)

lemma store_resource_identity_simps [simp]:
  "note_id (store_resource_identity seal u s d) = note_id d"
  "idempotency_key (store_resource_identity seal u s d) = idempotency_key d"
  "note_user_id (store_resource_identity seal u s d) = note_user_id d"
  "note_category (store_resource_identity seal u s d) = note_category d"
  "note_kind (store_resource_identity seal u s d) = note_kind d"
  "note_subscription_id (store_resource_identity seal u s d) = note_subscription_id d"
  "note_payment_id (store_resource_identity seal u s d) = note_payment_id d"
  "note_announcement_id (store_resource_identity seal u s d) = note_announcement_id d"
  "event_at (store_resource_identity seal u s d) = event_at d"
  "note_state (store_resource_identity seal u s d) = note_state d"
  "recipient_generation (store_resource_identity seal u s d) = recipient_generation d"
  by (simp_all add: store_resource_identity_def split: option.splits)

text \<open>Queueing touches only the outbox and the identifier sequence.\<close>

lemma queue_notification_frame:
  assumes "queue_notification seal now user cat kind key sub pay ann at ov db = Inr db'"
  shows "users db' = users db" "subscriptions db' = subscriptions db" "payments db' = payments db"
    "leases db' = leases db" "referral_credits db' = referral_credits db"
    "referral_payouts db' = referral_payouts db" "agent_orders db' = agent_orders db"
    "next_id db \<le> next_id db'"
  using assms
  by (auto simp: queue_notification_def reuse_queued_delivery_def Let_def
      split: if_splits option.splits sum.splits)

lemma queue_notification_frame_row:
  assumes "queue_notification seal now user cat kind key sub pay ann at ov db = Inr db'"
  shows "get_subscription db' i = get_subscription db i" "get_payment db' i = get_payment db i"
    "get_user db' i = get_user db i"
  using queue_notification_frame [OF assms]
  by (simp_all add: get_subscription_def get_payment_def get_user_def)

end
