(* ===== verification/Subscription_Lifecycle.thy ===== *)
theory Subscription_Lifecycle
  imports Ip_Leases Allocator Notifications
begin

text \<open>
  The subscription lifecycle (\<^verbatim>\<open>services/subscriptions.py\<close>) as far as it works inside one
  transaction: billing terms, domain eligibility, expiry of elapsed periods with their resource
  holds, reservation and release of scarce resources, activation and renewal. \<open>now\<close> is the clock
  reading of the operation; a session object is passed as a record, and a compare-and-set update tests
  the stored row. The operations that call the payment services are in \<open>Subscription_Orders\<close>.
\<close>

section \<open>Terms and domains\<close>

definition MONTHLY_PERIOD_DAYS :: int where "MONTHLY_PERIOD_DAYS = 30"
definition YEARLY_PERIOD_DAYS :: int where "YEARLY_PERIOD_DAYS = 365"

definition billing_period_days :: "billing_term \<Rightarrow> int" where
  "billing_period_days term = (if term = MONTHLY then MONTHLY_PERIOD_DAYS else YEARLY_PERIOD_DAYS)"

definition require_billing_term_enabled :: "settings \<Rightarrow> billing_term \<Rightarrow> error option" where
  "require_billing_term_enabled cfg term =
     (if term = YEARLY \<and> \<not> BILLING_YEARLY_ENABLED cfg
      then Some (ValueError ''yearly billing is not enabled'') else None)"

definition require_product_billing_term ::
  "product_type \<Rightarrow> delivery_mode \<Rightarrow> billing_term \<Rightarrow> error option" where
  "require_product_billing_term p dlv term =
     (if p = IP then
        (if dlv \<noteq> WIREGUARD
         then Some (ValueError ''Blindport IP is available with WireGuard delivery only'')
         else if term \<noteq> YEARLY
         then Some (ValueError ''WireGuard Blindport IP is available with yearly billing only'')
         else None)
      else None)"

definition domain_challenge_name :: "string \<Rightarrow> error + string" where
  "domain_challenge_name d =
     (if length d > 253 then Inl (ValueError ''domain is too long for DNS ownership verification'')
      else Inr d)"

definition domain_challenge_value :: "string \<Rightarrow> string" where
  "domain_challenge_value token = ''blindport-verification='' @ token"

definition wildcard_route_name :: "string \<Rightarrow> error + string" where
  "wildcard_route_name d =
     (let name = ''*.'' @ d in
      if length name > 253 then Inl (ValueError ''domain is too long for DNS wildcard routing'')
      else Inr name)"

definition validate_wildcard_base_domain :: "settings \<Rightarrow> string \<Rightarrow> error option" where
  "validate_wildcard_base_domain cfg d =
     (if length (split_on (CHR ''.'') d) < 2
      then Some (ValueError ''wildcard Relay base domain must contain at least two labels'')
      else if list_ex (\<lambda>suffix. d = suffix \<or> ends_with suffix (''.'' @ d)) (relay_managed_suffixes_list cfg)
      then Some (ValueError ''wildcard Relay base domain cannot equal or contain a managed suffix'')
      else None)"

definition is_managed_domain :: "settings \<Rightarrow> string \<Rightarrow> error + bool" where
  "is_managed_domain cfg d =
     (if d \<in> set (relay_managed_suffixes_list cfg)
      then Inl (ValueError ''managed suffix apex cannot be claimed as a customer domain'')
      else Inr (list_ex (\<lambda>suffix. ends_with d (''.'' @ suffix)) (relay_managed_suffixes_list cfg)))"

definition domain_claim_ttl :: "settings \<Rightarrow> bool \<Rightarrow> time" where
  "domain_claim_ttl cfg managed =
     seconds (if managed then RELAY_MANAGED_DOMAIN_CLAIM_TTL_SECONDS cfg
              else RELAY_DOMAIN_CLAIM_TTL_SECONDS cfg)"

definition domain_payment_eligibility_deadline :: "settings \<Rightarrow> subscription \<Rightarrow> time option" where
  "domain_payment_eligibility_deadline cfg sub =
     (if product sub \<noteq> RELAY then None
      else case sub_status sub of
        SubPENDING \<Rightarrow> domain_claim_expires_at sub
      | SubEXPIRED \<Rightarrow> domain_renewal_grace_expires_at sub
      | SubACTIVE \<Rightarrow>
          map_option (\<lambda>period_end. period_end + seconds (RELAY_RENEWAL_GRACE_SECONDS cfg))
            (current_period_end sub)
      | SubCANCELLED \<Rightarrow> None)"

definition elapsed_or_missing :: "time \<Rightarrow> time option \<Rightarrow> bool" where
  "elapsed_or_missing now deadline = (case deadline of None \<Rightarrow> True | Some d \<Rightarrow> d \<le> now)"

definition require_domain_payment_ready :: "settings \<Rightarrow> time \<Rightarrow> subscription \<Rightarrow> error option" where
  "require_domain_payment_ready cfg now sub =
     (if product sub \<noteq> RELAY then None
      else if sub_status sub = SubCANCELLED \<or> \<not> nonempty (domain sub)
      then Some (ValueError ''Blindport Relay domain expired and was released; create a new subscription'')
      else let deadline = domain_payment_eligibility_deadline cfg sub in
        if sub_status sub = SubPENDING \<and> elapsed_or_missing now deadline
        then Some (ValueError ''Blindport Relay domain claim expired; create a new subscription'')
        else if sub_status sub = SubEXPIRED \<and> elapsed_or_missing now deadline
        then Some (ValueError ''Blindport Relay renewal grace expired; create a new subscription'')
        else if domain_is_managed sub then None
        else if domain_verified_at sub = None
        then Some (ValueError ''domain ownership must be verified before payment'')
        else None)"

definition require_domain_payment_settlement_ready ::
  "settings \<Rightarrow> subscription \<Rightarrow> payment \<Rightarrow> error option" where
  "require_domain_payment_settlement_ready cfg sub pay =
     (if product sub \<noteq> RELAY then None
      else if sub_status sub = SubCANCELLED \<or> \<not> nonempty (domain sub)
      then Some (ValueError ''Blindport Relay domain expired and was released; create a new subscription'')
      else if \<not> domain_is_managed sub \<and> domain_verified_at sub = None
      then Some (ValueError ''domain ownership must be verified before payment'')
      else case domain_payment_eligibility_deadline cfg sub of
        None \<Rightarrow> Some (ValueError ''payment was not created during Blindport Relay domain eligibility'')
      | Some deadline \<Rightarrow>
          if pay_created_at pay > deadline
          then Some (ValueError ''payment was not created during Blindport Relay domain eligibility'')
          else None)"

definition hex_chars :: string where "hex_chars = ''0123456789abcdef''"

definition uses_unique_cname_target :: "subscription \<Rightarrow> bool" where
  "uses_unique_cname_target sub =
     (case relay_pool_domain sub of
        None \<Rightarrow> False
      | Some target \<Rightarrow>
          CHR ''.'' \<in> set target \<and>
          (let label = hd (split_on (CHR ''.'') target) in
             length label = 32 \<and> list_all (\<lambda>c. c \<in> set hex_chars) label))"

definition requires_domain_renewal_verification :: "subscription \<Rightarrow> bool" where
  "requires_domain_renewal_verification sub =
     (relay_hostname_scope sub = WILDCARD \<or> uses_unique_cname_target sub)"

text \<open>
  Live Relay claims that overlap a hostname. \<^verbatim>\<open>Subscription.id != None\<close> is
  \<^verbatim>\<open>IS NOT NULL\<close>, so without an exclusion every row takes part.
\<close>

definition relay_domain_conflict ::
  "database \<Rightarrow> string \<Rightarrow> hostname_scope \<Rightarrow> int option \<Rightarrow> bool" where
  "relay_domain_conflict db d scope exclude =
     (let claims = filter (\<lambda>s. product s = RELAY \<and> nonempty (domain s) \<and> Some (sub_id s) \<noteq> exclude)
                     (subscriptions db);
          wildcards = map (\<lambda>s. the (domain s)) (filter (\<lambda>s. relay_hostname_scope s = WILDCARD) claims);
          exacts = map (\<lambda>s. the (domain s)) (filter (\<lambda>s. relay_hostname_scope s = EXACT) claims)
      in if scope = WILDCARD
         then list_ex (\<lambda>w. w = d \<or> ends_with w (''.'' @ d) \<or> ends_with d (''.'' @ w)) wildcards \<or>
              list_ex (\<lambda>e. ends_with e (''.'' @ d)) exacts
         else list_ex (\<lambda>w. ends_with d (''.'' @ w)) wildcards)"

section \<open>Expiry\<close>

definition is_scarce :: "product_type \<Rightarrow> bool" where
  "is_scarce p = (p = IP \<or> p = PORT)"

definition has_elapsed :: "time \<Rightarrow> subscription \<Rightarrow> bool" where
  "has_elapsed now sub = (sub_status sub = SubACTIVE \<and> elapsed_or_missing now (current_period_end sub))"

text \<open>The local \<^verbatim>\<open>quarantine_until\<close>, when the iteration assigns it.\<close>

definition hold_until :: "settings \<Rightarrow> time \<Rightarrow> subscription \<Rightarrow> time option" where
  "hold_until cfg now sub =
     (if is_scarce (product sub) \<and> nonempty (assigned_ip sub) then
        Some (max (now + seconds (if product sub = IP then IP_REUSE_QUARANTINE_SECONDS cfg
                                  else RESOURCE_REUSE_QUARANTINE_SECONDS cfg))
               (case_option now id (current_period_end sub) + days 7))
      else None)"

text \<open>The \<^verbatim>\<open>values\<close> dictionary built from the session object, as an update of the row.\<close>

definition expiry_values :: "settings \<Rightarrow> time \<Rightarrow> subscription \<Rightarrow> subscription \<Rightarrow> subscription" where
  "expiry_values cfg now sub r =
     (let r1 = r\<lparr>sub_status := SubEXPIRED, reservation_expires_at := None,
                 reservation_payment_id := None, sub_updated_at := now\<rparr>
      in case hold_until cfg now sub of
           Some until \<Rightarrow> r1\<lparr>resource_quarantined_until := Some until\<rparr>
         | None \<Rightarrow>
             if product sub = RELAY
             then r1\<lparr>domain_renewal_grace_expires_at :=
                    Some (case_option now id (current_period_end sub) +
                          seconds (RELAY_RENEWAL_GRACE_SECONDS cfg))\<rparr>
             else r1)"

definition same_active_period :: "subscription \<Rightarrow> subscription \<Rightarrow> bool" where
  "same_active_period sub r =
     (sub_status r = SubACTIVE \<and> current_period_end r = current_period_end sub)"

definition notify_expired ::
  "settings \<Rightarrow> sealer \<Rightarrow> time \<Rightarrow> subscription \<Rightarrow> database \<Rightarrow> error + database" where
  "notify_expired cfg seal now sub db =
     (case (get_user db (sub_user_id sub), current_period_end sub) of
        (Some user, Some period_end) \<Rightarrow>
          if REMINDER_EMAIL_ENABLED cfg \<and> \<not> is_suspended user \<and> has_notification_email user
          then queue_notification seal now user ACCOUNT SUBSCRIPTION_EXPIRED
                 (SubscriptionExpired (sub_id sub) period_end) (Some sub) None None (Some period_end)
                 None db
          else Inr db
      | _ \<Rightarrow> Inr db)"

text \<open>
  One iteration. \<open>held\<close> is the local \<^verbatim>\<open>quarantine_until\<close>, which keeps its value from an
  earlier iteration and is unbound before the first assignment.
\<close>

definition expire_one ::
  "settings \<Rightarrow> sealer \<Rightarrow> time \<Rightarrow> subscription \<Rightarrow> time option \<times> bool \<times> database
     \<Rightarrow> error + time option \<times> bool \<times> database" where
  "expire_one cfg seal now sub state =
     (case state of (held, changed, db) \<Rightarrow>
        if \<not> has_elapsed now sub then Inr (held, changed, db)
        else
          let held' = (case hold_until cfg now sub of Some u \<Rightarrow> Some u | None \<Rightarrow> held);
              matches = (\<lambda>r. sub_id r = sub_id sub \<and> same_active_period sub r);
              db1 = db\<lparr>subscriptions :=
                      update_where matches (expiry_values cfg now sub) (subscriptions db)\<rparr>
          in if row_count matches (subscriptions db) \<noteq> 1 then Inr (held', changed, db1)
             else if product sub = IP \<and> held' = None
             then Inl (RuntimeError ''UnboundLocalError: quarantine_until'')
             else
               let db2 = (if product sub = IP then quarantine now sub (the held') db1 else db1)
               in case notify_expired cfg seal now sub db2 of
                    Inl e \<Rightarrow> Inl e
                  | Inr db3 \<Rightarrow> Inr (held', True, db3))"

fun expire_loop ::
  "settings \<Rightarrow> sealer \<Rightarrow> time \<Rightarrow> subscription list \<Rightarrow> time option \<times> bool \<times> database
     \<Rightarrow> error + time option \<times> bool \<times> database" where
  "expire_loop cfg seal now [] state = Inr state"
| "expire_loop cfg seal now (sub # rows) state =
     (case expire_one cfg seal now sub state of
        Inl e \<Rightarrow> Inl e
      | Inr state' \<Rightarrow> expire_loop cfg seal now rows state')"

definition refresh :: "database \<Rightarrow> subscription \<Rightarrow> subscription" where
  "refresh db sub = (case get_subscription db (sub_id sub) of Some r \<Rightarrow> r | None \<Rightarrow> sub)"

definition expire_elapsed_subscriptions ::
  "settings \<Rightarrow> sealer \<Rightarrow> time \<Rightarrow> subscription list \<Rightarrow> database
     \<Rightarrow> error + subscription list \<times> database" where
  "expire_elapsed_subscriptions cfg seal now rows db =
     (case expire_loop cfg seal now rows (None, False, db) of
        Inl e \<Rightarrow> Inl e
      | Inr (_, changed, db') \<Rightarrow> Inr (if changed then map (refresh db') rows else rows, db'))"

section \<open>Reservations\<close>

text \<open>The attribute writes of a session object: the same change on the object and on its row.\<close>

definition reservation_cleared :: "time \<Rightarrow> subscription \<Rightarrow> subscription" where
  "reservation_cleared now s = s\<lparr>assigned_ip := None, assigned_port := None,
     reservation_expires_at := None, reservation_payment_id := None, sub_updated_at := now\<rparr>"

definition release_reservation ::
  "time \<Rightarrow> subscription \<Rightarrow> int \<Rightarrow> database \<Rightarrow> bool \<times> database" where
  "release_reservation now sub payment_id db =
     (if sub_status sub = SubACTIVE \<or> reservation_payment_id sub \<noteq> Some payment_id \<or>
         reservation_expires_at sub = None
      then (False, db)
      else (True, set_subscription (sub_id sub) (reservation_cleared now)
                    (snd (release now sub ''payment reservation released'' db))))"

definition held_port_assignment_count ::
  "transport \<Rightarrow> string list \<Rightarrow> int \<times> int \<Rightarrow> database \<Rightarrow> nat" where
  "held_port_assignment_count t shared_ips ports db =
     (if shared_ips = [] \<or> port_list ports = [] then 0
      else row_count (\<lambda>s. product s = PORT \<and> transport s = t \<and>
             (case assigned_ip s of Some ip \<Rightarrow> ip \<in> set shared_ips | None \<Rightarrow> False) \<and>
             (case assigned_port s of Some p \<Rightarrow> fst ports \<le> p \<and> p < snd ports | None \<Rightarrow> False))
             (subscriptions db))"

definition resource_reserved ::
  "settings \<Rightarrow> time \<Rightarrow> int \<Rightarrow> string \<Rightarrow> int option \<Rightarrow> subscription \<Rightarrow> subscription" where
  "resource_reserved cfg now payment_id ip port s = s\<lparr>assigned_ip := Some ip, assigned_port := port,
     reservation_expires_at := Some (now + seconds (RESOURCE_RESERVATION_TTL_SECONDS cfg)),
     reservation_payment_id := Some payment_id, resource_quarantined_until := None,
     sub_updated_at := now\<rparr>"

text \<open>One savepoint: the row write, the lease, and the flush that checks the unique indexes.\<close>

definition reserve_candidate ::
  "settings \<Rightarrow> time \<Rightarrow> subscription \<Rightarrow> int \<Rightarrow> string \<times> int option \<Rightarrow> database \<Rightarrow> error + database" where
  "reserve_candidate cfg now sub payment_id c db =
     (let change = resource_reserved cfg now payment_id (fst c) (snd c);
          db1 = set_subscription (sub_id sub) change db
      in if \<not> subscription_indexes (subscriptions db1) then Inl IntegrityError
         else if product sub = IP then reserve now (change sub) payment_id (fst c) db1
         else Inr db1)"

fun try_candidates ::
  "settings \<Rightarrow> time \<Rightarrow> subscription \<Rightarrow> int \<Rightarrow> string \<Rightarrow> (string \<times> int option) list \<Rightarrow> database
     \<Rightarrow> error + database" where
  "try_candidates cfg now sub payment_id msg [] db = Inl (NoCapacityError msg)"
| "try_candidates cfg now sub payment_id msg (c # cs) db =
     (case reserve_candidate cfg now sub payment_id c db of
        Inr db' \<Rightarrow> Inr db'
      | Inl e \<Rightarrow> if e = IntegrityError then try_candidates cfg now sub payment_id msg cs db
                else Inl e)"

text \<open>
  The sockets of the shared inventory from index \<open>start\<close> on, wrapping around.
\<close>

definition socket_candidates :: "string list \<Rightarrow> int \<times> int \<Rightarrow> nat \<Rightarrow> (string \<times> int option) list" where
  "socket_candidates ips ports start =
     (let n = length (port_list ports); raw_count = length ips * n
      in map (\<lambda>offset. let index = (start + offset) mod raw_count
                       in (ips ! (index div n), Some (port_list ports ! (index mod n))))
           [0..<raw_count])"

text \<open>The conditional update that claims the owner's existing hold before a renewal invoice.\<close>

definition claim_hold :: "time \<Rightarrow> subscription \<Rightarrow> database \<Rightarrow> error + database" where
  "claim_hold now sub db =
     (let matches = (\<lambda>r. sub_id r = sub_id sub \<and> sub_status r = SubEXPIRED \<and>
            assigned_ip r = assigned_ip sub \<and> assigned_port r = assigned_port sub \<and>
            resource_quarantined_until r = resource_quarantined_until sub \<and>
            \<not> elapsed_or_missing now (resource_quarantined_until r) \<and>
            sub_updated_at r = sub_updated_at sub \<and> reservation_payment_id r = None \<and>
            reservation_expires_at r = None)
      in if row_count matches (subscriptions db) \<noteq> 1
         then Inl (NoCapacityError ''held assignment changed before renewal payment'')
         else Inr (db\<lparr>subscriptions :=
                update_where matches (\<lambda>r. r\<lparr>sub_updated_at := now\<rparr>) (subscriptions db)\<rparr>))"

definition reserve_subscription_resource ::
  "settings \<Rightarrow> (nat \<Rightarrow> nat) \<Rightarrow> time \<Rightarrow> subscription \<Rightarrow> int \<Rightarrow> database \<Rightarrow> error + bool \<times> database" where
  "reserve_subscription_resource cfg randbelow now sub payment_id db =
     (if sub_status sub = SubACTIVE \<or> product sub = RELAY then Inr (False, db)
      else if sub_status sub = SubEXPIRED \<and> nonempty (assigned_ip sub) \<and>
              resource_quarantined_until sub \<noteq> None then
        (if \<not> elapsed_or_missing now (resource_quarantined_until sub) \<and>
            (product sub = IP \<or> (product sub = PORT \<and> nonzero (assigned_port sub))) \<and>
            reservation_payment_id sub = None \<and> reservation_expires_at sub = None
         then if product sub = IP \<and>
                 map_option lease_address (current_lease db (sub_id sub)) \<noteq> assigned_ip sub
              then Inl (NoCapacityError ''Blindport IP lease is no longer available'')
              else map_sum id (Pair True) (claim_hold now sub db)
         else Inl (NoCapacityError ''assignment is quarantined''))
      else if nonempty (assigned_ip sub) \<or> reservation_expires_at sub \<noteq> None \<or>
              nonzero (reservation_payment_id sub)
      then Inl (NoCapacityError ''assignment is not yet reusable'')
      else if product sub = IP then
        map_sum id (Pair True)
          (try_candidates cfg now sub payment_id ''no Blindport IP capacity''
             (map (\<lambda>ip. (ip, None)) (if delivery sub = WIREGUARD then wireguard_public_ips_list cfg
                                     else relay_public_ips_list cfg)) db)
      else
        let ips = relay_shared_ips_list cfg;
            ports = shared_port_range cfg (transport sub);
            raw_count = length ips * length (port_list ports);
            capacity = min raw_count (port_capacity cfg (transport sub))
        in if held_port_assignment_count (transport sub) ips ports db \<ge> capacity
           then Inl (NoCapacityError ''no Blindport Port capacity'')
           else map_sum id (Pair True)
             (try_candidates cfg now sub payment_id ''no Blindport Port capacity''
                (socket_candidates ips ports (if raw_count > capacity then randbelow raw_count else 0))
                db))"

section \<open>Activation and renewal\<close>

definition activated :: "time \<Rightarrow> int \<Rightarrow> string option \<Rightarrow> subscription \<Rightarrow> subscription" where
  "activated now n_days pool s = s\<lparr>relay_pool_domain := pool, sub_status := SubACTIVE,
     current_period_start := Some now, current_period_end := Some (now + days n_days),
     domain_claim_expires_at := None, domain_renewal_grace_expires_at := None,
     reservation_expires_at := None, reservation_payment_id := None,
     resource_quarantined_until := None, sub_updated_at := now\<rparr>"

text \<open>The checks before activation, and the pool name it assigns to a managed claim.\<close>

definition activation_pool ::
  "settings \<Rightarrow> subscription \<Rightarrow> int option \<Rightarrow> database \<Rightarrow> error + string option" where
  "activation_pool cfg sub reservation db =
     (if is_scarce (product sub) \<and> reservation_payment_id sub \<noteq> reservation
      then Inl (NoCapacityError ''reservation is no longer available'')
      else if product sub = IP \<and> \<not> nonempty (assigned_ip sub)
      then Inl (NoCapacityError ''Blindport IP reservation is no longer available'')
      else if product sub = PORT \<and> \<not> (nonempty (assigned_ip sub) \<and> nonzero (assigned_port sub))
      then Inl (NoCapacityError ''Blindport Port reservation is no longer available'')
      else if product sub = RELAY then
        (if \<not> nonempty (domain sub) \<or> (\<not> domain_is_managed sub \<and> domain_verified_at sub = None)
         then Inl (ValueError ''Blindport Relay domain ownership is not eligible for activation'')
         else if \<not> nonempty (relay_pool_domain sub)
         then map_sum id Some (allocate_relay_pool_domain cfg db)
         else Inr (relay_pool_domain sub))
      else Inr (relay_pool_domain sub))"

definition activate_subscription ::
  "settings \<Rightarrow> time \<Rightarrow> subscription \<Rightarrow> int option \<Rightarrow> int \<Rightarrow> database
     \<Rightarrow> error + subscription \<times> database" where
  "activate_subscription cfg now sub reservation n_days db =
     (case activation_pool cfg sub reservation db of
        Inl e \<Rightarrow> Inl e
      | Inr pool \<Rightarrow>
          let change = activated now n_days pool; sub' = change sub
          in map_sum id (Pair sub') (activate now sub' (set_subscription (sub_id sub) change db)))"

definition renewed :: "time \<Rightarrow> time \<Rightarrow> subscription \<Rightarrow> subscription" where
  "renewed now period_end s = s\<lparr>current_period_start := Some now, current_period_end := Some period_end,
     sub_status := SubACTIVE, domain_renewal_grace_expires_at := None,
     resource_quarantined_until := None, sub_updated_at := now\<rparr>"

definition renewal_base :: "time \<Rightarrow> subscription \<Rightarrow> time" where
  "renewal_base now sub =
     (case current_period_end sub of
        Some period_end \<Rightarrow> if period_end > now then period_end else now
      | None \<Rightarrow> now)"

definition renew_subscription ::
  "time \<Rightarrow> subscription \<Rightarrow> int \<Rightarrow> database \<Rightarrow> error + subscription \<times> database" where
  "renew_subscription now sub n_days db =
     (let change = renewed now (renewal_base now sub + days n_days); sub' = change sub
      in map_sum id (Pair sub') (activate now sub' (set_subscription (sub_id sub) change db)))"

section \<open>Lemmas: expiry\<close>

lemma expiry_values_simps [simp]:
  "sub_id (expiry_values cfg now sub r) = sub_id r"
  "product (expiry_values cfg now sub r) = product r"
  "assigned_ip (expiry_values cfg now sub r) = assigned_ip r"
  "assigned_port (expiry_values cfg now sub r) = assigned_port r"
  "transport (expiry_values cfg now sub r) = transport r"
  "domain (expiry_values cfg now sub r) = domain r"
  "sub_status (expiry_values cfg now sub r) = SubEXPIRED"
  "current_period_end (expiry_values cfg now sub r) = current_period_end r"
  "upgrade_from_subscription_id (expiry_values cfg now sub r) = upgrade_from_subscription_id r"
  by (simp_all add: expiry_values_def Let_def split: option.splits)

lemma quarantine_frame [simp]:
  "users (quarantine now sub u db) = users db"
  "subscriptions (quarantine now sub u db) = subscriptions db"
  "payments (quarantine now sub u db) = payments db" "agent_orders (quarantine now sub u db) = agent_orders db"
  "notifications (quarantine now sub u db) = notifications db"
  "next_id (quarantine now sub u db) = next_id db"
  by (auto simp: quarantine_def split: option.splits)

lemma notify_expired_frame:
  assumes "notify_expired cfg seal now sub db = Inr db'"
  shows "subscriptions db' = subscriptions db" "payments db' = payments db" "users db' = users db"
    "leases db' = leases db" "agent_orders db' = agent_orders db"
  using assms
  by (auto simp: notify_expired_def split: option.splits if_splits dest: queue_notification_frame)

text \<open>One iteration on a stored row is a write of exactly that row.\<close>

lemma expire_one_subscriptions:
  assumes "expire_one cfg seal now sub (held, ch, db) = Inr (held', ch', db')"
    and "sub \<in> set (subscriptions db)" and "distinct (map sub_id (subscriptions db))"
  shows "subscriptions db' = update_where (\<lambda>r. r = sub \<and> has_elapsed now r)
    (\<lambda>r. expiry_values cfg now r r) (subscriptions db)"
proof -
  have same: "sub_id r = sub_id sub \<and> same_active_period sub r \<longleftrightarrow> r = sub"
    if "has_elapsed now sub" "r \<in> set (subscriptions db)" for r
    using that assms(2,3) by (auto simp: has_elapsed_def same_active_period_def distinct_map dest: inj_onD)
  have "update_where (\<lambda>r. r = sub \<and> has_elapsed now r) (\<lambda>r. expiry_values cfg now r r) (subscriptions db) =
    (if has_elapsed now sub
     then update_where (\<lambda>r. sub_id r = sub_id sub \<and> same_active_period sub r)
            (expiry_values cfg now sub) (subscriptions db)
     else subscriptions db)"
    by (auto simp: update_where_def same intro!: map_idI)
  with assms(1) show ?thesis
    by (auto simp: expire_one_def Let_def split: if_splits sum.splits option.splits
        dest!: notify_expired_frame(1))
qed

lemma expire_loop_subscriptions:
  assumes "expire_loop cfg seal now rows (held, ch, db) = Inr (held', ch', db')"
    and "set rows \<subseteq> set (subscriptions db)" and "distinct (map sub_id (subscriptions db))"
    and "distinct rows"
  shows "subscriptions db' = update_where (\<lambda>r. r \<in> set rows \<and> has_elapsed now r)
    (\<lambda>r. expiry_values cfg now r r) (subscriptions db)"
  using assms
proof (induction rows arbitrary: held ch db)
  case (Cons sub rows)
  from Cons.prems(1) obtain h1 c1 db1
    where one: "expire_one cfg seal now sub (held, ch, db) = Inr (h1, c1, db1)"
      and rest: "expire_loop cfg seal now rows (h1, c1, db1) = Inr (held', ch', db')"
    by (auto split: sum.splits)
  note subs1 = expire_one_subscriptions [OF one]
  have subs1: "subscriptions db1 = update_where (\<lambda>r. r = sub \<and> has_elapsed now r)
      (\<lambda>r. expiry_values cfg now r r) (subscriptions db)"
    using subs1 Cons.prems by simp
  have inj: "inj_on sub_id (set (subscriptions db))" using Cons.prems(3) by (simp add: distinct_map)
  have other: "r \<in> set rows \<Longrightarrow> r \<noteq> sub" for r using Cons.prems(4) by auto
  have "set rows \<subseteq> set (subscriptions db1)"
    using Cons.prems(2) other by (fastforce simp: subs1 in_update_where)
  moreover have "distinct (map sub_id (subscriptions db1))"
    using Cons.prems(3) by (simp add: subs1 map_update_where)
  ultimately have "subscriptions db' = update_where (\<lambda>r. r \<in> set rows \<and> has_elapsed now r)
      (\<lambda>r. expiry_values cfg now r r) (subscriptions db1)"
    using Cons.IH [OF rest] Cons.prems(4) by simp
  moreover have "expiry_values cfg now sub sub \<notin> set rows"
  proof
    assume "expiry_values cfg now sub sub \<in> set rows"
    moreover from this have "expiry_values cfg now sub sub = sub"
      using Cons.prems(2) inj_onD [OF inj, of "expiry_values cfg now sub sub" sub] by auto
    ultimately show False using other by metis
  qed
  ultimately show ?case by (auto simp: subs1 update_where_def)
qed (auto simp: update_where_def)

text \<open>Without reminder mail the loop cannot fail on rows that hold their address.\<close>

lemma expire_loop_total:
  assumes "\<not> REMINDER_EMAIL_ENABLED cfg"
    and "\<forall>r \<in> set rows. product r = IP \<longrightarrow> nonempty (assigned_ip r)"
  shows "\<exists>st'. expire_loop cfg seal now rows st = Inr st'"
  using assms
proof (induction rows arbitrary: st)
  case (Cons sub rows)
  obtain held ch db where st: "st = (held, ch, db)" by (cases st)
  have quiet: "notify_expired cfg seal now sub d = Inr d" for d
    using Cons.prems(1) by (auto simp: notify_expired_def split: option.splits)
  have "\<exists>st1. expire_one cfg seal now sub st = Inr st1"
    using Cons.prems(2) by (auto simp: st expire_one_def Let_def quiet hold_until_def is_scarce_def)
  then show ?case using Cons by fastforce
qed (metis expire_loop.simps(1))

section \<open>Lemmas: reservations\<close>

lemma resource_reserved_simps [simp]:
  "sub_id (resource_reserved cfg now pid ip port s) = sub_id s"
  "product (resource_reserved cfg now pid ip port s) = product s"
  "transport (resource_reserved cfg now pid ip port s) = transport s"
  "domain (resource_reserved cfg now pid ip port s) = domain s"
  "assigned_ip (resource_reserved cfg now pid ip port s) = Some ip"
  "assigned_port (resource_reserved cfg now pid ip port s) = port"
  "upgrade_from_subscription_id (resource_reserved cfg now pid ip port s) =
     upgrade_from_subscription_id s"
  "sub_status (resource_reserved cfg now pid ip port s) = sub_status s"
  by (simp_all add: resource_reserved_def)

lemma reserve_candidate_error:
  "reserve_candidate cfg now sub pid c db = Inl e \<Longrightarrow> e = IntegrityError"
  by (auto simp: reserve_candidate_def reserve_def Let_def split: if_splits)

definition candidate_free ::
  "settings \<Rightarrow> time \<Rightarrow> subscription \<Rightarrow> int \<Rightarrow> database \<Rightarrow> string \<times> int option \<Rightarrow> bool" where
  "candidate_free cfg now sub pid db c \<longleftrightarrow> (\<exists>db'. reserve_candidate cfg now sub pid c db = Inr db')"

interpretation savepoints: first_fit cs "candidate_free cfg now sub pid db"
    "\<lambda>c. projr (reserve_candidate cfg now sub pid c db)" "try_candidates cfg now sub pid msg cs db"
    "NoCapacityError msg"
  for cs cfg now sub pid db msg
proof
  show "try_candidates cfg now sub pid msg cs db =
    (case List.find (candidate_free cfg now sub pid db) cs of
       Some c \<Rightarrow> Inr (projr (reserve_candidate cfg now sub pid c db))
     | None \<Rightarrow> Inl (NoCapacityError msg))"
  proof (induction cs)
    case (Cons c cs)
    then show ?case
      by (cases "reserve_candidate cfg now sub pid c db")
        (auto simp: candidate_free_def dest: reserve_candidate_error)
  qed simp
qed

text \<open>A wrapped enumeration of the inventory reaches every socket.\<close>

lemma wrapped_indices:
  assumes "0 < (n::nat)" shows "(\<lambda>offset. (start + offset) mod n) ` {..<n} = {..<n}"
proof -
  have "k \<in> (\<lambda>offset. (start + offset) mod n) ` {..<n}" if "k < n" for k
  proof (rule image_eqI [of _ _ "(k + n - start mod n) mod n"])
    have "start mod n < n" using assms by simp
    then have "(start + (k + n - start mod n) mod n) mod n = (start mod n + (k + n - start mod n)) mod n"
      by (metis mod_add_left_eq mod_add_right_eq)
    also have "start mod n + (k + n - start mod n) = k + n" using \<open>start mod n < n\<close> by linarith
    also have "(k + n) mod n = k" using that by simp
    finally show "k = (start + (k + n - start mod n) mod n) mod n" by simp
  qed (use assms in simp)
  then show ?thesis using assms by auto
qed

lemma set_grid:
  assumes n: "0 < n" "length ps = n"
  shows "(\<lambda>i. (xs ! (i div n), ps ! (i mod n))) ` {..<length xs * n} = set xs \<times> set ps"
proof (rule set_eqI, rule iffI)
  fix c assume "c \<in> (\<lambda>i. (xs ! (i div n), ps ! (i mod n))) ` {..<length xs * n}"
  then obtain i where "i < length xs * n" and c: "c = (xs ! (i div n), ps ! (i mod n))" by auto
  then have "i div n < length xs" by (simp add: less_mult_imp_div_less)
  with n c show "c \<in> set xs \<times> set ps" by simp
next
  fix c assume "c \<in> set xs \<times> set ps"
  then obtain a b where a: "a < length xs" and b: "b < n" and c: "c = (xs ! a, ps ! b)"
    using n by (auto simp: in_set_conv_nth)
  have "a * n + b < (a + 1) * n" using b by simp
  also have "\<dots> \<le> length xs * n" using a by (intro mult_le_mono1) simp
  finally show "c \<in> (\<lambda>i. (xs ! (i div n), ps ! (i mod n))) ` {..<length xs * n}"
    using b c by (intro image_eqI [of _ _ "a * n + b"]) auto
qed

lemma set_socket_candidates:
  "set (socket_candidates ips ports start) =
     (\<lambda>(ip, port). (ip, Some port)) ` (set ips \<times> set (port_list ports))"
proof (cases "length ips * length (port_list ports) = 0")
  case False
  let ?n = "length (port_list ports)" and ?raw = "length ips * length (port_list ports)"
  let ?cell = "\<lambda>i. (ips ! (i div ?n), port_list ports ! (i mod ?n))"
  have "set (socket_candidates ips ports start) =
      (\<lambda>(ip, port). (ip, Some port)) ` ?cell ` (\<lambda>offset. (start + offset) mod ?raw) ` {..<?raw}"
    by (auto simp: socket_candidates_def Let_def image_image atLeast0LessThan)
  also have "\<dots> = (\<lambda>(ip, port). (ip, Some port)) ` ?cell ` {..<?raw}"
    using False by (subst wrapped_indices) auto
  also have "?cell ` {..<?raw} = set ips \<times> set (port_list ports)"
    using False by (intro set_grid) auto
  finally show ?thesis .
qed (auto simp: socket_candidates_def simp del: set_port_list)

text \<open>On a table with its indexes, a Port candidate is free exactly when no other row has the socket.\<close>

lemma port_candidate:
  assumes idx: "subscription_indexes (subscriptions db)" and sub: "sub \<in> set (subscriptions db)"
    and port: "product sub = PORT"
  shows "reserve_candidate cfg now sub pid (ip, Some p) db =
    (if \<exists>s \<in> set (subscriptions db). sub_id s \<noteq> sub_id sub \<and> port_tuple s = Some (ip, p, transport sub)
     then Inl IntegrityError
     else Inr (set_subscription (sub_id sub) (resource_reserved cfg now pid ip (Some p)) db))"
proof -
  let ?f = "resource_reserved cfg now pid ip (Some p)" and ?ss = "subscriptions db"
  have d: "distinct (map sub_id ?ss)" using idx by (simp add: subscription_indexes_def)
  have tup: "port_tuple (?f sub) = Some (ip, p, transport sub)" by (simp add: port_tuple_def)
  have "unique_on dedicated_ip (update_where (\<lambda>s. sub_id s = sub_id sub) ?f ?ss)"
    using idx d sub port by (subst unique_on_update_key [OF _ d sub])
      (auto simp: subscription_indexes_def dedicated_ip_def)
  moreover have "unique_on domain (update_where (\<lambda>s. sub_id s = sub_id sub) ?f ?ss)"
    "unique_on upgrade_from_subscription_id (update_where (\<lambda>s. sub_id s = sub_id sub) ?f ?ss)"
    using idx by (auto simp: subscription_indexes_def intro: unique_on_update_where)
  moreover have "unique_on port_tuple (update_where (\<lambda>s. sub_id s = sub_id sub) ?f ?ss) \<longleftrightarrow>
      (\<forall>s \<in> set ?ss. sub_id s \<noteq> sub_id sub \<longrightarrow> port_tuple s \<noteq> Some (ip, p, transport sub))"
    using idx d sub tup by (subst unique_on_update_key [OF _ d sub]) (auto simp: subscription_indexes_def)
  ultimately have "subscription_indexes (update_where (\<lambda>s. sub_id s = sub_id sub) ?f ?ss) \<longleftrightarrow>
      (\<forall>s \<in> set ?ss. sub_id s \<noteq> sub_id sub \<longrightarrow> port_tuple s \<noteq> Some (ip, p, transport sub))"
    using d by (simp add: subscription_indexes_def map_update_where)
  then show ?thesis using port by (auto simp: reserve_candidate_def set_subscription_def Let_def)
qed

text \<open>The rows the catalog and the reservation count are the same, each with its own socket.\<close>

definition holds_socket :: "settings \<Rightarrow> transport \<Rightarrow> subscription \<Rightarrow> bool" where
  "holds_socket cfg t s \<longleftrightarrow> product s = PORT \<and>
     (\<exists>ip port. port_tuple s = Some (ip, port, t) \<and> (ip, port) \<in> set (shared_sockets cfg t))"

lemma held_count:
  "held_port_assignment_count t (relay_shared_ips_list cfg) (shared_port_range cfg t) db =
     row_count (holds_socket cfg t) (subscriptions db)"
proof -
  let ?P = "\<lambda>s. product s = PORT \<and> transport s = t \<and>
    (case assigned_ip s of Some ip \<Rightarrow> ip \<in> set (relay_shared_ips_list cfg) | None \<Rightarrow> False) \<and>
    (case assigned_port s of
       Some p \<Rightarrow> fst (shared_port_range cfg t) \<le> p \<and> p < snd (shared_port_range cfg t) | None \<Rightarrow> False)"
  have "?P s \<longleftrightarrow> holds_socket cfg t s" for s
    by (auto simp: holds_socket_def port_tuple_Some shared_sockets_def in_range_def split: option.splits)
  then have P: "?P = holds_socket cfg t" by blast
  have "row_count (holds_socket cfg t) (subscriptions db) = 0"
    if "relay_shared_ips_list cfg = [] \<or> port_list (shared_port_range cfg t) = []"
    using that by (auto simp: row_count_0 holds_socket_def shared_sockets_def simp del: set_port_list)
  then show ?thesis by (simp only: held_port_assignment_count_def P split: if_split) auto
qed

lemma used_sockets_held:
  "set (used_sockets cfg t db) =
     (\<lambda>s. (the (assigned_ip s), the (assigned_port s))) ` {s \<in> set (subscriptions db). holds_socket cfg t s}"
    (is "_ = ?sock ` ?H")
proof (rule set_eqI, rule iffI)
  fix c assume "c \<in> ?sock ` ?H"
  then obtain s where s: "s \<in> set (subscriptions db)" "holds_socket cfg t s" and c: "c = ?sock s" by blast
  from s(2) obtain ip p where "product s = PORT" "port_tuple s = Some (ip, p, t)"
    "(ip, p) \<in> set (shared_sockets cfg t)" unfolding holds_socket_def by blast
  with s(1) c show "c \<in> set (used_sockets cfg t db)"
    by (simp add: used_sockets_row port_tuple_Some shared_sockets_def) blast
next
  fix c assume used: "c \<in> set (used_sockets cfg t db)"
  obtain ip p where c: "c = (ip, p)" by (rule prod.exhaust)
  obtain s where s: "s \<in> set (subscriptions db)" "product s = PORT" "port_tuple s = Some (ip, p, t)"
    and inv: "ip \<in> set (relay_shared_ips_list cfg)" "in_range p (shared_port_range cfg t)"
    using used unfolding c used_sockets_row by blast
  have "holds_socket cfg t s"
    unfolding holds_socket_def shared_sockets_def using s inv by (intro conjI exI) simp_all
  moreover have "?sock s = c" using s(3) by (simp add: port_tuple_Some c)
  ultimately show "c \<in> ?sock ` ?H" using s(1) by blast
qed

lemma held_count_used:
  assumes "subscription_indexes (subscriptions db)"
  shows "row_count (holds_socket cfg t) (subscriptions db) = length (used_sockets cfg t db)"
proof -
  let ?H = "{s \<in> set (subscriptions db). holds_socket cfg t s}"
  let ?sock = "\<lambda>s. (the (assigned_ip s), the (assigned_port s))"
  have d: "distinct (subscriptions db)" using assms by (auto simp: subscription_indexes_def distinct_map)
  have inj: "inj_on ?sock ?H"
  proof (rule inj_onI)
    fix x y assume xy: "x \<in> ?H" "y \<in> ?H" "?sock x = ?sock y"
    have "port_tuple z = Some (fst (?sock z), snd (?sock z), t)" if "z \<in> ?H" for z
      using that by (auto simp: holds_socket_def port_tuple_Some)
    then have "port_tuple x = Some (fst (?sock x), snd (?sock x), t)"
      "port_tuple y = Some (fst (?sock x), snd (?sock x), t)" using xy by metis+
    then show "x = y"
      using xy assms unique_onD [of port_tuple "subscriptions db" sub_id x y]
      by (simp add: subscription_indexes_def)
  qed
  have "row_count (holds_socket cfg t) (subscriptions db) = card ?H"
    using distinct_card [of "filter (holds_socket cfg t) (subscriptions db)"] d
    by (simp add: row_count_def)
  also have "\<dots> = card (set (used_sockets cfg t db))"
    unfolding used_sockets_held using card_image [OF inj] by simp
  also have "\<dots> = length (used_sockets cfg t db)"
    by (rule distinct_card) (simp add: used_sockets_def)
  finally show ?thesis .
qed

text \<open>A Port row that holds nothing, and the rows of other products hold no socket.\<close>

definition unassigned :: "subscription \<Rightarrow> bool" where
  "unassigned s \<longleftrightarrow> assigned_ip s = None \<and> assigned_port s = None \<and>
     reservation_expires_at s = None \<and> reservation_payment_id s = None"

definition ports_typed :: "database \<Rightarrow> bool" where
  "ports_typed db = list_all (\<lambda>s. assigned_port s \<noteq> None \<longrightarrow> product s = PORT) (subscriptions db)"

definition port_capacity_limit :: "settings \<Rightarrow> transport \<Rightarrow> nat" where
  "port_capacity_limit cfg t =
     min (length (relay_shared_ips_list cfg) * length (port_list (shared_port_range cfg t)))
       (port_capacity cfg t)"

lemma reserve_port_cases:
  assumes idx: "subscription_indexes (subscriptions db)" and sub: "sub \<in> set (subscriptions db)"
    and port: "product sub = PORT" and st: "sub_status sub \<noteq> SubACTIVE"
    and free: "unassigned sub" and typed: "ports_typed db"
  shows "if row_count (holds_socket cfg (transport sub)) (subscriptions db) < port_capacity_limit cfg (transport sub) \<and>
            (\<exists>c \<in> set (shared_sockets cfg (transport sub)). socket_free db (transport sub) c)
         then \<exists>ip p. (ip, p) \<in> set (shared_sockets cfg (transport sub)) \<and>
                socket_free db (transport sub) (ip, p) \<and>
                reserve_subscription_resource cfg randbelow now sub pid db =
                  Inr (True, set_subscription (sub_id sub) (resource_reserved cfg now pid ip (Some p)) db)
         else reserve_subscription_resource cfg randbelow now sub pid db =
                Inl (NoCapacityError ''no Blindport Port capacity'')"
proof -
  let ?t = "transport sub" and ?ss = "subscriptions db"
  let ?ips = "relay_shared_ips_list cfg" and ?ports = "shared_port_range cfg (transport sub)"
  define start where "start = (if port_capacity_limit cfg ?t < length ?ips * length (port_list ?ports)
    then randbelow (length ?ips * length (port_list ?ports)) else 0)"
  let ?cs = "socket_candidates ?ips ?ports start"
  let ?attempt = "try_candidates cfg now sub pid ''no Blindport Port capacity'' ?cs db"
  have run: "reserve_subscription_resource cfg randbelow now sub pid db =
    (if row_count (holds_socket cfg ?t) ?ss \<ge> port_capacity_limit cfg ?t
     then Inl (NoCapacityError ''no Blindport Port capacity'') else map_sum id (Pair True) ?attempt)"
    using st port free
    by (simp add: reserve_subscription_resource_def unassigned_def held_count port_capacity_limit_def
        start_def Let_def)
  have taken: "(\<exists>s \<in> set ?ss. sub_id s \<noteq> sub_id sub \<and> port_tuple s = Some (ip, p, ?t)) \<longleftrightarrow>
      \<not> socket_free db ?t (ip, p)" for ip p
  proof -
    have inj: "inj_on sub_id (set ?ss)" using idx by (simp add: subscription_indexes_def distinct_map)
    have "sub_id s \<noteq> sub_id sub \<and> product s = PORT" if s: "port_tuple s = Some (ip, p, ?t)" "s \<in> set ?ss" for s
    proof
      have "s \<noteq> sub" using s(1) free by (auto simp: port_tuple_Some unassigned_def)
      then show "sub_id s \<noteq> sub_id sub" using inj_onD [OF inj _ s(2) sub] by blast
      show "product s = PORT" using s typed by (simp add: port_tuple_Some ports_typed_def list_all_iff)
    qed
    then show ?thesis unfolding socket_free_def fst_conv snd_conv by blast
  qed
  have cand: "reserve_candidate cfg now sub pid (ip, Some p) db =
      (if socket_free db ?t (ip, p)
       then Inr (set_subscription (sub_id sub) (resource_reserved cfg now pid ip (Some p)) db)
       else Inl IntegrityError)" for ip p
    using port_candidate [OF idx sub port, of cfg now pid ip p] by (simp add: taken)
  have free_iff: "candidate_free cfg now sub pid db (ip, Some p) \<longleftrightarrow> socket_free db ?t (ip, p)" for ip p
    by (simp add: candidate_free_def cand)
  have cs: "set ?cs = (\<lambda>(ip, p). (ip, Some p)) ` set (shared_sockets cfg ?t)"
    by (simp add: set_socket_candidates shared_sockets_def)
  show ?thesis
  proof (cases ?attempt)
    case (Inl e)
    note none = savepoints.result_error [THEN iffD1, OF Inl]
    have "\<not> socket_free db ?t c" if c: "c \<in> set (shared_sockets cfg ?t)" for c
    proof -
      obtain ip p where ip: "c = (ip, p)" by (rule prod.exhaust)
      have "(ip, Some p) \<in> set ?cs" unfolding cs using c ip by force
      then show ?thesis using none free_iff ip by metis
    qed
    then show ?thesis using Inl none by (simp add: run)
  next
    case (Inr d)
    obtain c where c: "c \<in> set ?cs" "candidate_free cfg now sub pid db c"
      and d: "d = projr (reserve_candidate cfg now sub pid c db)"
      using savepoints.result_free [OF Inr] by auto
    obtain ip p where ip: "(ip, p) \<in> set (shared_sockets cfg ?t)" "c = (ip, Some p)"
      using c(1) unfolding cs by auto
    have f: "socket_free db ?t (ip, p)" using c(2) by (simp add: ip free_iff)
    have "d = set_subscription (sub_id sub) (resource_reserved cfg now pid ip (Some p)) db"
      using d f by (simp add: ip cand)
    then show ?thesis using Inr ip(1) f by (simp add: run) blast
  qed
qed

text \<open>The indexes after a successful reservation, and how many sockets are held then.\<close>

lemma reserved_indexes:
  assumes idx: "subscription_indexes (subscriptions db)" and sub: "sub \<in> set (subscriptions db)"
    and port: "product sub = PORT" and free: "unassigned sub" and typed: "ports_typed db"
    and c: "socket_free db (transport sub) (ip, p)"
  shows "subscription_indexes (subscriptions
    (set_subscription (sub_id sub) (resource_reserved cfg now pid ip (Some p)) db))"
proof -
  have "reserve_candidate cfg now sub pid (ip, Some p) db \<noteq> Inl IntegrityError"
    using port_candidate [OF idx sub port, of cfg now pid ip p] c typed
    by (auto simp: socket_free_def port_tuple_Some ports_typed_def list_all_iff)
  then show ?thesis using port by (auto simp: reserve_candidate_def Let_def split: if_splits)
qed


lemma row_count_update_one:
  assumes "distinct (map idf rs)" and "r \<in> set rs" and "\<not> p r" and "p (f r)"
  shows "row_count p (update_where (\<lambda>s. idf s = idf r) f rs) = Suc (row_count p rs)"
  using assms
proof (induction rs)
  case (Cons x rs)
  show ?case
  proof (cases "x = r")
    case True
    then have "update_where (\<lambda>s. idf s = idf r) f rs = rs"
      using Cons.prems(1) by (intro update_where_none) (auto simp: image_iff)
    with True Cons.prems show ?thesis by (simp add: table_simps row_count_def)
  next
    case False
    then have r: "r \<in> set rs" using Cons.prems(2) by simp
    then have "idf x \<noteq> idf r" using Cons.prems(1) by (auto simp: image_iff)
    with Cons r show ?thesis by (simp add: table_simps row_count_def)
  qed
qed simp

lemma expiry_row:
  "expiry_values cfg now r r =
     (let period_end = (case current_period_end r of Some e \<Rightarrow> e | None \<Rightarrow> now) in
      r\<lparr>sub_status := SubEXPIRED, reservation_expires_at := None, reservation_payment_id := None, sub_updated_at := now,
        resource_quarantined_until :=
          (if product r \<in> {IP, PORT} \<and> assigned_ip r \<notin> {None, Some []}
           then Some (max (period_end + days 7) (now + seconds (if product r = IP then IP_REUSE_QUARANTINE_SECONDS cfg
                                                                else RESOURCE_REUSE_QUARANTINE_SECONDS cfg)))
           else resource_quarantined_until r),
        domain_renewal_grace_expires_at :=
          (if product r = RELAY then Some (period_end + seconds (RELAY_RENEWAL_GRACE_SECONDS cfg))
           else domain_renewal_grace_expires_at r)\<rparr>)"
proof -
  have scarce: "is_scarce (product r) \<longleftrightarrow> product r \<in> {IP, PORT}" "nonempty (assigned_ip r) \<longleftrightarrow> assigned_ip r \<notin> {None, Some []}"
    by (auto simp: is_scarce_def nonempty_def)
  show ?thesis
  proof (cases "product r = RELAY")
    case True
    then show ?thesis
      by (cases "current_period_end r") (simp_all add: expiry_values_def hold_until_def is_scarce_def Let_def)
  next
    case False
    then show ?thesis
      by (cases "current_period_end r") (simp_all add: expiry_values_def hold_until_def scarce Let_def max.commute)
  qed
qed

section \<open>Properties\<close>

text \<open>
  C25: revoking elapsed periods. On stored rows, the loop of compare-and-set updates rewrites exactly
  the given active rows whose paid period is over (or has no end), and every other row stays as it is.
  A rewritten row is expired and without reservation; a held address or socket is quarantined until
  both the reuse quarantine of its product, counted from now, and seven days after the period are over;
  a Relay name is kept until the renewal grace after the period ends; its address, port, domain and
  every other field stay. Without reminder mail, and with an address on every routed IP, the loop always
  succeeds.
\<close>

theorem expire_elapsed_exact:
  assumes "set rows \<subseteq> set (subscriptions db)" and "distinct (map sub_id (subscriptions db))"
    and "distinct rows"
  shows "(expire_elapsed_subscriptions cfg seal now rows db = Inr (rows', db') \<longrightarrow>
      subscriptions db' = map (\<lambda>r.
        if r \<in> set rows \<and> sub_status r = SubACTIVE \<and> (\<forall>e. current_period_end r = Some e \<longrightarrow> e \<le> now)
        then let period_end = (case current_period_end r of Some e \<Rightarrow> e | None \<Rightarrow> now) in
          r\<lparr>sub_status := SubEXPIRED, reservation_expires_at := None, reservation_payment_id := None, sub_updated_at := now,
            resource_quarantined_until :=
              (if product r \<in> {IP, PORT} \<and> assigned_ip r \<notin> {None, Some []}
               then Some (max (period_end + days 7) (now + seconds (if product r = IP then IP_REUSE_QUARANTINE_SECONDS cfg
                                                                    else RESOURCE_REUSE_QUARANTINE_SECONDS cfg)))
               else resource_quarantined_until r),
            domain_renewal_grace_expires_at :=
              (if product r = RELAY then Some (period_end + seconds (RELAY_RENEWAL_GRACE_SECONDS cfg))
               else domain_renewal_grace_expires_at r)\<rparr>
        else r) (subscriptions db)) \<and>
    (\<not> REMINDER_EMAIL_ENABLED cfg \<and> (\<forall>r \<in> set rows. product r = IP \<longrightarrow> nonempty (assigned_ip r)) \<longrightarrow>
      (\<exists>result. expire_elapsed_subscriptions cfg seal now rows db = Inr result))"
proof (intro conjI impI)
  have elapsed_iff: "elapsed_or_missing now v \<longleftrightarrow> (\<forall>e. v = Some e \<longrightarrow> e \<le> now)" for v
    by (simp add: elapsed_or_missing_def split: option.split)
  assume "expire_elapsed_subscriptions cfg seal now rows db = Inr (rows', db')"
  then obtain h c where "expire_loop cfg seal now rows (None, False, db) = Inr (h, c, db')"
    by (auto simp: expire_elapsed_subscriptions_def split: sum.splits)
  then have "subscriptions db' = update_where (\<lambda>r. r \<in> set rows \<and> has_elapsed now r)
      (\<lambda>r. expiry_values cfg now r r) (subscriptions db)"
    using assms by (rule expire_loop_subscriptions)
  then show "subscriptions db' = map (\<lambda>r.
        if r \<in> set rows \<and> sub_status r = SubACTIVE \<and> (\<forall>e. current_period_end r = Some e \<longrightarrow> e \<le> now)
        then let period_end = (case current_period_end r of Some e \<Rightarrow> e | None \<Rightarrow> now) in
          r\<lparr>sub_status := SubEXPIRED, reservation_expires_at := None, reservation_payment_id := None, sub_updated_at := now,
            resource_quarantined_until :=
              (if product r \<in> {IP, PORT} \<and> assigned_ip r \<notin> {None, Some []}
               then Some (max (period_end + days 7) (now + seconds (if product r = IP then IP_REUSE_QUARANTINE_SECONDS cfg
                                                                    else RESOURCE_REUSE_QUARANTINE_SECONDS cfg)))
               else resource_quarantined_until r),
            domain_renewal_grace_expires_at :=
              (if product r = RELAY then Some (period_end + seconds (RELAY_RENEWAL_GRACE_SECONDS cfg))
               else domain_renewal_grace_expires_at r)\<rparr>
        else r) (subscriptions db)"
    unfolding update_where_def by (simp add: has_elapsed_def elapsed_iff expiry_row cong: if_cong)
next
  assume "\<not> REMINDER_EMAIL_ENABLED cfg \<and> (\<forall>r \<in> set rows. product r = IP \<longrightarrow> nonempty (assigned_ip r))"
  then obtain st where "expire_loop cfg seal now rows (None, False, db) = Inr st"
    using expire_loop_total [of cfg rows seal now "(None, False, db)"] by blast
  then show "\<exists>result. expire_elapsed_subscriptions cfg seal now rows db = Inr result"
    by (auto simp: expire_elapsed_subscriptions_def split: prod.splits)
qed

theorem expire_elapsed_exact_witness:
  "\<exists>rows' db'. expire_elapsed_subscriptions example_settings (\<lambda>_ _. None) (days 40)
      [sample_subscription\<lparr>sub_status := SubACTIVE, assigned_ip := Some ''198.51.100.7'',
         assigned_port := Some 10000, current_period_end := Some (days 30)\<rparr>,
       sample_subscription\<lparr>sub_id := 2, product := RELAY, sub_status := SubACTIVE,
         domain := Some ''a.com'', current_period_end := Some (days 39)\<rparr>]
      (empty_database\<lparr>subscriptions := [sample_subscription\<lparr>sub_status := SubACTIVE,
         assigned_ip := Some ''198.51.100.7'', assigned_port := Some 10000, current_period_end := Some (days 30)\<rparr>,
         sample_subscription\<lparr>sub_id := 2, product := RELAY, sub_status := SubACTIVE,
           domain := Some ''a.com'', current_period_end := Some (days 39)\<rparr>]\<rparr>) = Inr (rows', db') \<and>
    map sub_status (subscriptions db') = [SubEXPIRED, SubEXPIRED] \<and>
    map resource_quarantined_until (subscriptions db') = [Some (days 41), None] \<and>
    map domain_renewal_grace_expires_at (subscriptions db') =
      [None, Some (days 39 + seconds (RELAY_RENEWAL_GRACE_SECONDS example_settings))] \<and>
    map domain (subscriptions db') = [None, Some ''a.com'']"
proof -
  let ?s = "sample_subscription\<lparr>sub_status := SubACTIVE, assigned_ip := Some ''198.51.100.7'',
    assigned_port := Some 10000, current_period_end := Some (days 30)\<rparr>"
  let ?r = "sample_subscription\<lparr>sub_id := 2, product := RELAY, sub_status := SubACTIVE,
    domain := Some ''a.com'', current_period_end := Some (days 39)\<rparr>"
  let ?db = "empty_database\<lparr>subscriptions := [?s, ?r]\<rparr>"
  have rows: "set [?s, ?r] \<subseteq> set (subscriptions ?db)" "distinct (map sub_id (subscriptions ?db))" "distinct [?s, ?r]"
    by (simp_all add: sample_subscription_def)
  note exact = expire_elapsed_exact [OF rows, where cfg = example_settings and seal = "\<lambda>_ _. None" and now = "days 40"]
  have "\<exists>result. expire_elapsed_subscriptions example_settings (\<lambda>_ _. None) (days 40) [?s, ?r] ?db = Inr result"
    by (rule exact [THEN conjunct2, THEN mp]) (simp add: example_settings_def sample_subscription_def)
  then obtain rows' db' where run:
    "expire_elapsed_subscriptions example_settings (\<lambda>_ _. None) (days 40) [?s, ?r] ?db = Inr (rows', db')"
    by auto
  note new = exact [THEN conjunct1, THEN mp, OF run]
  show ?thesis
    by (intro exI [of _ rows'] exI [of _ db'] conjI run; subst new)
      (simp_all add: sample_subscription_def example_settings_def clock_simps Let_def)
qed

text \<open>
  C24: a Port the catalog sells can be reserved. When the sale gate admits a Port of a transport, a
  pending Port row of that transport without an assignment gets a socket of the shared inventory that
  no row holds; the row alone changes, the unique indexes hold, and the number of sockets held grows
  by one and stays within the configured capacity.
\<close>

theorem catalog_port_sale_reservable:
  assumes idx: "subscription_indexes (subscriptions db)" and sub: "sub \<in> set (subscriptions db)"
    and port: "product sub = PORT" and st: "sub_status sub \<noteq> SubACTIVE"
    and free: "unassigned sub" and typed: "ports_typed db"
    and gate: "require_product_available cfg db PORT dlv (transport sub) managed scope = None"
  shows "\<exists>ip p db'.
    reserve_subscription_resource cfg randbelow now sub pid db = Inr (True, db') \<and>
    db' = set_subscription (sub_id sub) (resource_reserved cfg now pid ip (Some p)) db \<and>
    ip \<in> set (relay_shared_ips_list cfg) \<and> in_range p (shared_port_range cfg (transport sub)) \<and>
    (\<forall>s \<in> set (subscriptions db). port_tuple s \<noteq> Some (ip, p, transport sub)) \<and>
    subscription_indexes (subscriptions db') \<and>
    row_count (holds_socket cfg (transport sub)) (subscriptions db') =
      Suc (row_count (holds_socket cfg (transport sub)) (subscriptions db)) \<and>
    row_count (holds_socket cfg (transport sub)) (subscriptions db') \<le> port_capacity cfg (transport sub)"
proof -
  let ?t = "transport sub"
  have "length (used_sockets cfg ?t db) < socket_total cfg ?t"
    using gate by (cases ?t)
      (auto simp: require_product_available_def catalog_port_def available_product_def no_capacity_def Let_def
        split: if_splits)
  moreover have "socket_total cfg ?t \<le> port_capacity_limit cfg ?t"
    unfolding socket_total_def port_capacity_limit_def
    by (intro min.mono mult_le_mono1 length_remdups_leq order_refl)
  ultimately have room: "row_count (holds_socket cfg ?t) (subscriptions db) < port_capacity_limit cfg ?t"
    and "\<exists>c \<in> set (shared_sockets cfg ?t). socket_free db ?t c"
    using held_count_used [OF idx, of cfg ?t] free_socket_exists [of cfg ?t db] by auto
  then obtain ip p where inv: "(ip, p) \<in> set (shared_sockets cfg ?t)" and f: "socket_free db ?t (ip, p)"
    and run: "reserve_subscription_resource cfg randbelow now sub pid db =
      Inr (True, set_subscription (sub_id sub) (resource_reserved cfg now pid ip (Some p)) db)"
    using reserve_port_cases [OF idx sub port st free typed, of cfg randbelow now pid] by auto
  have "row_count (holds_socket cfg ?t) (subscriptions
      (set_subscription (sub_id sub) (resource_reserved cfg now pid ip (Some p)) db)) =
      Suc (row_count (holds_socket cfg ?t) (subscriptions db))"
    unfolding set_subscription_def using idx sub free port inv
    by (simp add: row_count_update_one subscription_indexes_def holds_socket_def unassigned_def
        port_tuple_Some)
  then show ?thesis
    using run inv f room typed reserved_indexes [OF idx sub port free typed f, of cfg now pid]
    by (intro exI [of _ ip] exI [of _ p])
      (auto simp: shared_sockets_def socket_free_def port_capacity_limit_def port_tuple_Some
        ports_typed_def list_all_iff)
qed

theorem catalog_port_sale_reservable_witness:
  "\<exists>ip p db'. reserve_subscription_resource example_settings (\<lambda>n. 0) 0 sample_subscription 7
      (empty_database\<lparr>subscriptions := [sample_subscription]\<rparr>) = Inr (True, db') \<and>
    ip \<in> set (relay_shared_ips_list example_settings) \<and>
    port_tuple (hd (subscriptions db')) = Some (ip, p, TCP)"
proof -
  let ?db = "empty_database\<lparr>subscriptions := [sample_subscription]\<rparr>"
  have tcp: "transport sample_subscription = TCP" by (simp add: sample_subscription_def)
  have "require_product_available example_settings ?db PORT FRAMED TCP False EXACT = None"
    by (simp add: require_product_available_def catalog_port_def available_product_def no_capacity_def
        used_sockets_def socket_total_def shared_port_range_def port_capacity_def length_port_list
        example_settings_def sample_subscription_def)
  then have "\<exists>ip p db'. reserve_subscription_resource example_settings (\<lambda>n. 0) 0 sample_subscription 7 ?db =
      Inr (True, db') \<and>
    db' = set_subscription (sub_id sample_subscription)
            (resource_reserved example_settings 0 7 ip (Some p)) ?db \<and>
    ip \<in> set (relay_shared_ips_list example_settings)"
    using catalog_port_sale_reservable [of ?db sample_subscription example_settings FRAMED False EXACT "\<lambda>n. 0" 0 7]
    by (auto simp: sample_subscription_def subscription_indexes_def unique_on_Cons ports_typed_def
        unassigned_def)
  then show ?thesis
    by (auto simp: set_subscription_def table_simps port_tuple_Some tcp)
qed

section \<open>Overlapping hostnames\<close>

text \<open>The hostnames a claim routes: its own name and, for a wildcard, every name below it.\<close>

definition covers :: "hostname_scope \<Rightarrow> string \<Rightarrow> string \<Rightarrow> bool" where
  "covers scope d h \<longleftrightarrow> h = d \<or> (scope = WILDCARD \<and> ends_with h (''.'' @ d))"

lemma ends_with_common:
  "ends_with l a \<Longrightarrow> ends_with l b \<Longrightarrow> ends_with a b \<or> ends_with b a"
  by (auto simp: ends_with_iff append_eq_append_conv2)

lemma ends_with_Cons: "ends_with (c # a) (c # b) \<longleftrightarrow> a = b \<or> ends_with a (c # b)"
  by (auto simp: ends_with_iff Cons_eq_append_conv)

lemma covers_wildcard: "covers WILDCARD d h \<longleftrightarrow> ends_with (CHR ''.'' # h) (CHR ''.'' # d)"
  by (auto simp: covers_def ends_with_Cons)

lemma overlap_iff:
  "(\<exists>h. covers sc1 d1 h \<and> covers sc2 d2 h) \<longleftrightarrow>
     d1 = d2 \<or> (sc1 = WILDCARD \<and> ends_with d2 (''.'' @ d1)) \<or> (sc2 = WILDCARD \<and> ends_with d1 (''.'' @ d2))"
proof
  assume "\<exists>h. covers sc1 d1 h \<and> covers sc2 d2 h"
  then obtain h where h: "covers sc1 d1 h" "covers sc2 d2 h" by blast
  show "d1 = d2 \<or> (sc1 = WILDCARD \<and> ends_with d2 (''.'' @ d1)) \<or> (sc2 = WILDCARD \<and> ends_with d1 (''.'' @ d2))"
  proof (cases "sc1 = WILDCARD \<and> sc2 = WILDCARD")
    case True
    then show ?thesis using h ends_with_common [of "CHR ''.'' # h" "CHR ''.'' # d1" "CHR ''.'' # d2"]
      by (auto simp: covers_wildcard ends_with_Cons)
  qed (use h in \<open>auto simp: covers_def\<close>)
next
  assume "d1 = d2 \<or> (sc1 = WILDCARD \<and> ends_with d2 (''.'' @ d1)) \<or> (sc2 = WILDCARD \<and> ends_with d1 (''.'' @ d2))"
  then show "\<exists>h. covers sc1 d1 h \<and> covers sc2 d2 h" by (auto simp: covers_def)
qed

definition live_claim :: "subscription \<Rightarrow> bool" where
  "live_claim s \<longleftrightarrow> product s = RELAY \<and> nonempty (domain s)"

definition claim_covers :: "subscription \<Rightarrow> string \<Rightarrow> bool" where
  "claim_covers s h \<longleftrightarrow> live_claim s \<and> covers (relay_hostname_scope s) (the (domain s)) h"

lemma relay_domain_conflict_claims:
  "relay_domain_conflict db d scope ex \<longleftrightarrow>
     (\<exists>s \<in> set (subscriptions db). live_claim s \<and> Some (sub_id s) \<noteq> ex \<and>
        (if scope = WILDCARD
         then (relay_hostname_scope s = WILDCARD \<and>
                 (the (domain s) = d \<or> ends_with d (''.'' @ the (domain s)))) \<or>
              ends_with (the (domain s)) (''.'' @ d)
         else relay_hostname_scope s = WILDCARD \<and> ends_with d (''.'' @ the (domain s))))"
  by (cases scope) (auto simp: relay_domain_conflict_def live_claim_def list_ex_iff Let_def
      intro: hostname_scope.exhaust)

text \<open>
  The claim check is exact. A new hostname is refused, by the conflict query or by the unique
  domain, exactly when some hostname would be routed both by the new claim and by a live one: the
  conflict query neither lets two claims route the same name nor refuses claims that are disjoint.
\<close>

theorem relay_conflict_exact:
  "relay_domain_conflict db d scope None \<or>
     (\<exists>s \<in> set (subscriptions db). live_claim s \<and> domain s = Some d) \<longleftrightarrow>
   (\<exists>s \<in> set (subscriptions db). \<exists>h. covers scope d h \<and> claim_covers s h)"
proof -
  have pair: "(\<exists>h. covers scope d h \<and> claim_covers s h) \<longleftrightarrow> live_claim s \<and>
      (d = the (domain s) \<or> (scope = WILDCARD \<and> ends_with (the (domain s)) (''.'' @ d)) \<or>
       (relay_hostname_scope s = WILDCARD \<and> ends_with d (''.'' @ the (domain s))))" for s
    using overlap_iff [of scope d "relay_hostname_scope s" "the (domain s)"]
    by (auto simp: claim_covers_def)
  have dom: "live_claim s \<Longrightarrow> domain s = Some d \<longleftrightarrow> d = the (domain s)" for s
    by (cases "domain s") (auto simp: live_claim_def)
  show ?thesis
    unfolding pair relay_domain_conflict_claims using dom by (cases scope) auto
qed

section \<open>Rows still active after expiry\<close>

lemma changed_one: "expire_one cfg seal now sub (held, True, db) = Inr (held', ch', db') \<Longrightarrow> ch'"
  by (auto simp: expire_one_def Let_def split: if_splits sum.splits)

lemma changed_loop: "expire_loop cfg seal now rows (held, True, db) = Inr (held', ch', db') \<Longrightarrow> ch'"
proof (induction rows arbitrary: held db)
  case (Cons sub rows)
  then show ?case
    using changed_one [of cfg seal now sub held db] by (cases "expire_one cfg seal now sub (held, True, db)") (auto, metis)
qed simp

lemma unchanged_loop:
  assumes "expire_loop cfg seal now rows (held, ch, db) = Inr (held', False, db')" and "distinct (map sub_id (subscriptions db))"
  shows "subscriptions db' = subscriptions db"
  using assms
proof (induction rows arbitrary: held ch db)
  case (Cons sub rows)
  from Cons.prems(1) obtain h1 c1 db1
    where one: "expire_one cfg seal now sub (held, ch, db) = Inr (h1, c1, db1)"
      and rest: "expire_loop cfg seal now rows (h1, c1, db1) = Inr (held', False, db')"
    by (auto split: sum.splits)
  let ?m = "\<lambda>r. sub_id r = sub_id sub \<and> same_active_period sub r"
  have c1: "\<not> c1" using changed_loop [of cfg seal now rows h1 db1 held' False db'] rest by (cases c1) auto
  have "subscriptions db1 = subscriptions db"
  proof (cases "has_elapsed now sub \<and> row_count ?m (subscriptions db) \<noteq> 1")
    case True
    have "distinct (map sub_id (filter ?m (subscriptions db)))" using Cons.prems(2) by (rule distinct_map_filter)
    then have "length (filter ?m (subscriptions db)) \<le> card {sub_id sub}"
      using distinct_card [of "map sub_id (filter ?m (subscriptions db))"] card_mono [of "{sub_id sub}" "set (map sub_id (filter ?m (subscriptions db)))"]
      by fastforce
    then have "row_count ?m (subscriptions db) = 0" using True unfolding row_count_def by (simp del: length_0_conv)
    then have "update_where ?m f (subscriptions db) = subscriptions db" for f
      by (auto simp: row_count_0 update_where_def intro!: map_idI)
    then show ?thesis using one True by (simp add: expire_one_def Let_def split: if_splits)
  next
    case False
    then show ?thesis using one c1 by (auto simp: expire_one_def Let_def split: if_splits sum.splits)
  qed
  then show ?case using Cons.IH [OF rest] Cons.prems(2) by simp
qed simp

text \<open>Selected rows after expiry: those whose period has not elapsed, unchanged.\<close>

lemma expire_elapsed_active:
  assumes run: "expire_elapsed_subscriptions cfg seal now rows db = Inr (rows', db')"
    and sub: "set rows \<subseteq> set (subscriptions db)" and d: "distinct (map sub_id (subscriptions db))" and dr: "distinct rows"
  shows "filter (\<lambda>s. sub_status s = SubACTIVE \<and> P s) rows' = filter (\<lambda>s. sub_status s = SubACTIVE \<and> \<not> has_elapsed now s \<and> P s) rows"
proof -
  let ?e = "\<lambda>r. if r \<in> set rows \<and> has_elapsed now r then expiry_values cfg now r r else r"
  from run obtain h ch where loop: "expire_loop cfg seal now rows (None, False, db) = Inr (h, ch, db')"
    and rows': "rows' = (if ch then map (refresh db') rows else rows)"
    by (auto simp: expire_elapsed_subscriptions_def split: sum.splits)
  have subs: "subscriptions db' = map ?e (subscriptions db)"
    using expire_loop_subscriptions [OF loop sub d dr] by (simp add: update_where_def)
  have ids: "sub_id (?e r) = sub_id r" for r by simp
  have d': "distinct (map sub_id (subscriptions db'))" using d by (simp add: subs comp_def ids del: if_split)
  have active: "sub_status (?e r) = SubACTIVE \<and> P (?e r) \<longleftrightarrow> sub_status r = SubACTIVE \<and> \<not> has_elapsed now r \<and> P r" if "r \<in> set rows" for r
    using that by (auto simp: expiry_values_def Let_def split: option.splits if_splits)
  show ?thesis
  proof (cases ch)
    case True
    have "refresh db' r = ?e r" if "r \<in> set rows" for r
    proof -
      have "?e r \<in> set (subscriptions db')" using that sub by (auto simp: subs)
      then have "get_subscription db' (sub_id r) = Some (?e r)"
        using get_row_unique [OF d'] ids [of r] unfolding get_subscription_def by metis
      then show ?thesis by (simp add: refresh_def)
    qed
    then have "rows' = map ?e rows" using True rows' by simp
    then have "filter (\<lambda>s. sub_status s = SubACTIVE \<and> P s) rows' = map ?e (filter (\<lambda>r. sub_status (?e r) = SubACTIVE \<and> P (?e r)) rows)"
      by (simp only: filter_map comp_def)
    also have "\<dots> = map ?e (filter (\<lambda>r. sub_status r = SubACTIVE \<and> \<not> has_elapsed now r \<and> P r) rows)"
      using active by (simp cong: filter_cong)
    also have "\<dots> = filter (\<lambda>r. sub_status r = SubACTIVE \<and> \<not> has_elapsed now r \<and> P r) rows" by (rule map_idI) auto
    finally show ?thesis .
  next
    case False
    then have "expire_loop cfg seal now rows (None, False, db) = Inr (h, False, db')" using loop by simp
    then have same: "map ?e (subscriptions db) = subscriptions db" using unchanged_loop d subs by metis
    have "\<not> has_elapsed now r" if "r \<in> set rows" for r
    proof
      assume e: "has_elapsed now r"
      have "r \<in> set (subscriptions db)" using that sub by blast
      then have "?e r = r" using same map_idD by fast
      then have "expiry_values cfg now r r = r" using e that by simp
      moreover have "sub_status (expiry_values cfg now r r) = SubEXPIRED" by (simp add: expiry_values_def Let_def split: option.splits)
      ultimately show False using e by (simp add: has_elapsed_def)
    qed
    then show ?thesis using False rows' by (auto cong: filter_cong)
  qed
qed

end
