(* ===== verification/Referrals.thy ===== *)
theory Referrals
  imports Database Hostnames "HOL-Library.Char_ord" "HOL-Library.List_Lexorder"
begin

text \<open>
  Referral credits and payout reservations (\<^verbatim>\<open>services/referrals.py\<close>): the one credit of a
  settled payment, the reservation of every available credit of an address, the record of a completed
  payout, and the balances the operator sees. All work inside the caller's transaction. The order of
  addresses in the listing is the order of their characters.
\<close>

section \<open>The code\<close>

definition MINIMUM_PAYOUT_SATS :: int where "MINIMUM_PAYOUT_SATS = 10000"
definition MAX_REFERRAL_COMMISSION_BPS :: int where "MAX_REFERRAL_COMMISSION_BPS = 10000"

definition validated_address :: "string \<Rightarrow> error + string" where
  "validated_address a =
     (case validate_lightning_address a of
        Inl _ \<Rightarrow> Inl (ValueError ''Lightning Address is invalid'') | Inr c \<Rightarrow> Inr c)"

definition credit_settled_payment :: "payment \<Rightarrow> database \<Rightarrow> error + database" where
  "credit_settled_payment pay db =
     (if pay_status pay \<noteq> PAID \<or> invoice_provider pay \<noteq> Some ''lnurl'' \<or>
         settlement_verified_at pay = None \<or> settlement_review_required pay \<or>
         \<not> nonempty (pay_referral_address pay)
      then Inr db
      else
        let bps = referral_commission_bps pay; amount = amount_sats pay; markup = markup_sats pay in
        if bps \<le> 0 then Inr db
        else if bps > MAX_REFERRAL_COMMISSION_BPS
        then Inl (ValueError ''referral commission exceeds 10000 basis points'')
        else if amount < 0 \<or> markup < 0 \<or> markup > amount
        then Inl (ValueError ''payment and markup amounts are outside the referral credit range'')
        else case validated_address (the (pay_referral_address pay)) of
          Inl e \<Rightarrow> Inl e
        | Inr address \<Rightarrow>
            let commission = ((amount - markup) * bps) div 10000 in
            if commission = 0 then Inr db
            else if pay_id pay \<in> credit_payment_id ` set (referral_credits db) then Inr db
            else Inr (db\<lparr>referral_credits := referral_credits db @
                   [\<lparr> credit_payment_id = pay_id pay, credit_address = address,
                      credit_amount_sats = commission, credit_payout_id = None \<rparr>]\<rparr>))"

definition get_payout :: "database \<Rightarrow> string \<Rightarrow> referral_payout option" where
  "get_payout db i = get_row payout_id i (referral_payouts db)"

definition idempotent_payout :: "referral_payout \<Rightarrow> string \<Rightarrow> error + referral_payout" where
  "idempotent_payout p address =
     (if payout_address p \<noteq> address
      then Inl (ReferralPayoutConflictError ''payout ID belongs to another address'') else Inr p)"

definition resolve_reservation_after_conflict ::
  "string \<Rightarrow> string \<Rightarrow> database \<Rightarrow> error + referral_payout \<times> database" where
  "resolve_reservation_after_conflict i address db =
     (case get_payout db i of
        Some p \<Rightarrow> map_sum id (\<lambda>p. (p, db)) (idempotent_payout p address)
      | None \<Rightarrow> Inl (ReferralPayoutConflictError ''payout reservation conflicted; retry the request''))"

definition reserve_payout ::
  "string \<Rightarrow> string \<Rightarrow> database \<Rightarrow> error + referral_payout \<times> database" where
  "reserve_payout i address db =
     (case validated_address address of
        Inl e \<Rightarrow> Inl e
      | Inr canonical \<Rightarrow>
          (case get_payout db i of
             Some p \<Rightarrow> map_sum id (\<lambda>p. (p, db)) (idempotent_payout p canonical)
           | None \<Rightarrow>
               let available = (\<lambda>c. credit_address c = canonical \<and> credit_payout_id c = None);
                   credits = filter available (referral_credits db);
                   amount = sum_list (map credit_amount_sats credits);
                   payout = \<lparr> payout_id = i, payout_address = canonical, payout_amount_sats = amount,
                              payout_status = ''reserved'', external_reference = None,
                              payout_paid_at = None \<rparr>;
                   ids = map credit_payment_id credits;
                   claim = (\<lambda>c. credit_payment_id c \<in> set ids \<and> credit_payout_id c = None)
               in if amount < MINIMUM_PAYOUT_SATS then Inl ReferralBalanceTooLowError
                  else if row_count claim (referral_credits db) \<noteq> length ids
                  then resolve_reservation_after_conflict i canonical db
                  else Inr (payout, db\<lparr>
                    referral_payouts := referral_payouts db @ [payout],
                    referral_credits := update_where claim (\<lambda>c. c\<lparr>credit_payout_id := Some i\<rparr>)
                      (referral_credits db)\<rparr>)))"

definition reference_chars :: string where
  "reference_chars = lower_letters @ upper_letters @ digit_chars @ ''_.:-''"

definition valid_external_reference :: "string \<Rightarrow> bool" where
  "valid_external_reference v =
     (1 \<le> length v \<and> length v \<le> 128 \<and> list_all (\<lambda>c. c \<in> set reference_chars) v)"

definition resolve_paid_after_conflict ::
  "string \<Rightarrow> string \<Rightarrow> database \<Rightarrow> error + referral_payout \<times> database" where
  "resolve_paid_after_conflict i reference db =
     (case get_payout db i of
        Some p \<Rightarrow>
          if payout_status p = ''paid'' \<and> external_reference p = Some reference then Inr (p, db)
          else Inl (ReferralPayoutConflictError ''external reference belongs to another payout'')
      | None \<Rightarrow> Inl (ReferralPayoutConflictError ''external reference belongs to another payout''))"

definition paid_out :: "time \<Rightarrow> string \<Rightarrow> referral_payout \<Rightarrow> referral_payout" where
  "paid_out now reference p =
     p\<lparr>payout_status := ''paid'', external_reference := Some reference, payout_paid_at := Some now\<rparr>"

definition mark_payout_paid ::
  "time \<Rightarrow> string \<Rightarrow> string \<Rightarrow> database \<Rightarrow> error + referral_payout \<times> database" where
  "mark_payout_paid now i reference db =
     (if \<not> valid_external_reference reference
      then Inl (ValueError ''external reference must be a 1-128 character ASCII identifier'')
      else case get_payout db i of
        None \<Rightarrow> Inl ReferralPayoutNotFoundError
      | Some p \<Rightarrow>
          if payout_status p = ''paid'' then
            (if external_reference p = Some reference then Inr (p, db)
             else Inl (ReferralPayoutConflictError ''payout was already recorded with another reference''))
          else if (case List.find (\<lambda>q. external_reference q = Some reference) (referral_payouts db) of
                     Some owner \<Rightarrow> payout_id owner \<noteq> i | None \<Rightarrow> False)
          then Inl (ReferralPayoutConflictError ''external reference belongs to another payout'')
          else
            let matches = (\<lambda>q. payout_id q = i \<and> payout_status q = ''reserved'' \<and>
                             external_reference q = None);
                ps = update_where matches (paid_out now reference) (referral_payouts db)
            in if row_count matches (referral_payouts db) \<noteq> 1 \<or> \<not> unique_on external_reference ps
               then resolve_paid_after_conflict i reference db
               else Inr (paid_out now reference p, db\<lparr>referral_payouts := ps\<rparr>))"

record referral_balance =
  bal_address :: string
  available_sats :: int
  reserved_sats :: int
  paid_sats :: int

text \<open>The outer join: the status of the payout a credit belongs to.\<close>

definition credit_payout_status :: "database \<Rightarrow> referral_credit \<Rightarrow> string option" where
  "credit_payout_status db c =
     (case credit_payout_id c of None \<Rightarrow> None | Some i \<Rightarrow> map_option payout_status (get_payout db i))"

definition balance_of :: "database \<Rightarrow> string \<Rightarrow> referral_balance" where
  "balance_of db address =
     (let mine = filter (\<lambda>c. credit_address c = address) (referral_credits db);
          total = (\<lambda>p. sum_list (map (\<lambda>c. if p c then credit_amount_sats c else 0) mine))
      in \<lparr> bal_address = address,
           available_sats = total (\<lambda>c. credit_payout_id c = None),
           reserved_sats = total (\<lambda>c. credit_payout_status db c = Some ''reserved''),
           paid_sats = total (\<lambda>c. credit_payout_status db c = Some ''paid'') \<rparr>)"

definition list_referral_balances ::
  "nat \<Rightarrow> nat \<Rightarrow> database \<Rightarrow> referral_balance list \<times> nat" where
  "list_referral_balances offset limit db =
     (let addresses = sort (remdups (map credit_address (referral_credits db)))
      in (map (balance_of db) (take limit (drop offset addresses)), length addresses))"

section \<open>The ledger invariant\<close>

text \<open>The credits a payout was made from.\<close>

definition payout_credits :: "database \<Rightarrow> string \<Rightarrow> referral_credit list" where
  "payout_credits db i = filter (\<lambda>c. credit_payout_id c = Some i) (referral_credits db)"

definition payout_ok :: "database \<Rightarrow> referral_payout \<Rightarrow> bool" where
  "payout_ok db p =
     (payout_amount_sats p = sum_list (map credit_amount_sats (payout_credits db (payout_id p))) \<and>
      MINIMUM_PAYOUT_SATS \<le> payout_amount_sats p \<and>
      list_all (\<lambda>c. credit_address c = payout_address p) (payout_credits db (payout_id p)) \<and>
      (payout_status p = ''reserved'' \<and> external_reference p = None \<or>
       payout_status p = ''paid'' \<and> external_reference p \<noteq> None))"

definition credit_ok :: "database \<Rightarrow> referral_credit \<Rightarrow> bool" where
  "credit_ok db c =
     (0 < credit_amount_sats c \<and>
      (case credit_payout_id c of None \<Rightarrow> True | Some i \<Rightarrow> i \<in> payout_id ` set (referral_payouts db)))"

definition ledger_ok :: "database \<Rightarrow> bool" where
  "ledger_ok db =
     (referral_indexes (referral_credits db) (referral_payouts db) \<and>
      list_all (payout_ok db) (referral_payouts db) \<and>
      list_all (credit_ok db) (referral_credits db))"

inductive ledger_step :: "database \<Rightarrow> database \<Rightarrow> bool" where
  step_credit: "credit_settled_payment pay db = Inr db' \<Longrightarrow> ledger_step db db'"
| step_reserve_payout: "reserve_payout i address db = Inr (p, db') \<Longrightarrow> ledger_step db db'"
| step_mark_paid: "mark_payout_paid now i reference db = Inr (p, db') \<Longrightarrow> ledger_step db db'"

text \<open>
  The ledger only grows: a credit keeps its address and amount, a credit that went into a payout stays
  in it, and a paid payout is final.
\<close>

definition ledger_grows :: "database \<Rightarrow> database \<Rightarrow> bool" where
  "ledger_grows db db' \<longleftrightarrow>
     (\<forall>c \<in> set (referral_credits db). \<exists>c' \<in> set (referral_credits db').
        credit_payment_id c' = credit_payment_id c \<and> credit_address c' = credit_address c \<and>
        credit_amount_sats c' = credit_amount_sats c \<and>
        (credit_payout_id c \<noteq> None \<longrightarrow> credit_payout_id c' = credit_payout_id c)) \<and>
     (\<forall>p \<in> set (referral_payouts db). \<exists>p' \<in> set (referral_payouts db').
        payout_id p' = payout_id p \<and> payout_address p' = payout_address p \<and>
        payout_amount_sats p' = payout_amount_sats p \<and> (payout_status p = ''paid'' \<longrightarrow> p' = p))"

section \<open>Lemmas\<close>

lemmas ledger_splits = if_splits option.splits sum.splits

lemma idempotent_payout_cases:
  "map_sum id (\<lambda>p. (p, db)) (idempotent_payout q a) = Inr (p, db') \<Longrightarrow> db' = db"
  by (auto simp: idempotent_payout_def split: if_splits)

lemma resolve_reservation_same:
  "resolve_reservation_after_conflict i a db = Inr (p, db') \<Longrightarrow> db' = db"
  by (auto simp: resolve_reservation_after_conflict_def split: option.splits dest: idempotent_payout_cases)

lemma resolve_paid_same: "resolve_paid_after_conflict i r db = Inr (p, db') \<Longrightarrow> db' = db"
  by (auto simp: resolve_paid_after_conflict_def split: ledger_splits)

lemma ledger_grows_refl [simp]: "ledger_grows db db"
  unfolding ledger_grows_def by blast

lemma ledger_grows_trans: "ledger_grows a b \<Longrightarrow> ledger_grows b c \<Longrightarrow> ledger_grows a c"
  unfolding ledger_grows_def by (intro conjI ballI) (metis (no_types, lifting))+

text \<open>What a credit operation does when it does something.\<close>

lemma credit_settled_payment_cases:
  assumes "credit_settled_payment pay db = Inr db'"
  obtains "db' = db"
  | c where "db' = db\<lparr>referral_credits := referral_credits db @ [c]\<rparr>"
      "credit_payment_id c = pay_id pay" "credit_payout_id c = None"
      "pay_id pay \<notin> credit_payment_id ` set (referral_credits db)"
      "pay_status pay = PAID" "\<not> settlement_review_required pay"
      "0 < credit_amount_sats c" "credit_amount_sats c \<le> amount_sats pay - markup_sats pay"
proof -
  have pos: "0 < x * b div 10000 \<and> x * b div 10000 \<le> x"
    if "x * b div 10000 \<noteq> 0" "0 \<le> x" "0 < b" "b \<le> 10000" for x b :: int
  proof
    have "0 \<le> x * b div 10000" using that by (simp add: pos_imp_zdiv_nonneg_iff)
    then show "0 < x * b div 10000" using that(1) by simp
    have "x * b \<le> x * 10000" using that by (intro mult_left_mono) auto
    then have "x * b div 10000 \<le> x * 10000 div 10000" by (rule zdiv_mono1) simp
    then show "x * b div 10000 \<le> x" by simp
  qed
  show thesis using assms that pos
    by (auto simp: credit_settled_payment_def MAX_REFERRAL_COMMISSION_BPS_def Let_def split: ledger_splits)
qed

lemma reserve_payout_cases:
  assumes "reserve_payout i address db = Inr (p, db')" and ok: "ledger_ok db"
  obtains "db' = db"
  | a where "payout_id p = i" "payout_address p = a" "payout_status p = ''reserved''"
      "external_reference p = None" "get_payout db i = None" "MINIMUM_PAYOUT_SATS \<le> payout_amount_sats p"
      "payout_amount_sats p = sum_list (map credit_amount_sats
         (filter (\<lambda>c. credit_address c = a \<and> credit_payout_id c = None) (referral_credits db)))"
      "db' = db\<lparr>referral_payouts := referral_payouts db @ [p],
         referral_credits := update_where (\<lambda>c. credit_address c = a \<and> credit_payout_id c = None)
           (\<lambda>c. c\<lparr>credit_payout_id := Some i\<rparr>) (referral_credits db)\<rparr>"
proof -
  have inj: "inj_on credit_payment_id (set (referral_credits db))"
    using ok by (simp add: ledger_ok_def referral_indexes_def distinct_map)
  have claim: "credit_payment_id c \<in> set (map credit_payment_id
        (filter (\<lambda>c. credit_address c = a \<and> credit_payout_id c = None) (referral_credits db))) \<and>
      credit_payout_id c = None \<longleftrightarrow> credit_address c = a \<and> credit_payout_id c = None"
    if "c \<in> set (referral_credits db)" for c a
    using that by (auto dest: inj_onD [OF inj])
  have upd: "update_where (\<lambda>c. credit_payment_id c \<in> set (map credit_payment_id
        (filter (\<lambda>c. credit_address c = a \<and> credit_payout_id c = None) (referral_credits db))) \<and>
      credit_payout_id c = None) f (referral_credits db) =
    update_where (\<lambda>c. credit_address c = a \<and> credit_payout_id c = None) f (referral_credits db)" for a f
    unfolding update_where_def using claim by (intro map_cong) auto
  from assms(1) show thesis
    unfolding reserve_payout_def
    by (auto simp: Let_def upd [simplified] split: ledger_splits
        dest!: idempotent_payout_cases resolve_reservation_same intro: that)
qed

lemma mark_payout_paid_cases:
  assumes "mark_payout_paid now i reference db = Inr (p, db')"
  obtains "db' = db"
  | "db' = db\<lparr>referral_payouts := update_where (\<lambda>q. payout_id q = i \<and> payout_status q = ''reserved'' \<and>
         external_reference q = None) (paid_out now reference) (referral_payouts db)\<rparr>"
      "unique_on external_reference (referral_payouts db')"
  using assms unfolding mark_payout_paid_def
  by (auto simp: Let_def split: ledger_splits dest!: resolve_paid_same intro: that)


lemma filter_update_other:
  "(\<And>r. r \<in> set rs \<Longrightarrow> p r \<Longrightarrow> \<not> q r \<and> \<not> q (f r)) \<Longrightarrow> filter q (update_where p f rs) = filter q rs"
  by (induction rs) (auto simp: table_simps)

lemma filter_update_into:
  "(\<And>r. r \<in> set rs \<Longrightarrow> if p r then q (f r) else \<not> q r) \<Longrightarrow>
     filter q (update_where p f rs) = map f (filter p rs)"
proof (induction rs)
  case (Cons r rs)
  have "if p r then q (f r) else \<not> q r" using Cons.prems by simp
  then show ?case using Cons by (auto simp: table_simps split: if_splits)
qed (simp add: table_simps)

lemma update_where_row: "r \<in> set rs \<Longrightarrow> (if p r then f r else r) \<in> set (update_where p f rs)"
  by (auto simp: update_where_def)

lemma credit_ok_frame:
  "payout_id ` set (referral_payouts db') = payout_id ` set (referral_payouts db) \<Longrightarrow>
     credit_ok db' c = credit_ok db c"
  by (cases "credit_payout_id c") (simp_all add: credit_ok_def)

lemma reserve_payout_ledger:
  assumes ok: "ledger_ok db" and run: "reserve_payout i address db = Inr (p, db')"
  shows "ledger_ok db' \<and> ledger_grows db db'"
  using reserve_payout_cases [OF run ok]
proof cases
  case (2 a)
  let ?claim = "\<lambda>c. credit_address c = a \<and> credit_payout_id c = None"
  let ?f = "\<lambda>c :: referral_credit. c\<lparr>credit_payout_id := Some i\<rparr>"
  have fresh: "i \<notin> payout_id ` set (referral_payouts db)"
    using 2 by (simp add: get_payout_def get_row_None)
  have old: "credit_payout_id c \<noteq> Some i" if "c \<in> set (referral_credits db)" for c
    using ok fresh that by (auto simp: ledger_ok_def list_all_iff credit_ok_def split: option.splits)
  have mine: "payout_credits db' i = map ?f (filter ?claim (referral_credits db))"
    unfolding payout_credits_def using 2 old by (simp add: filter_update_into)
  have others: "payout_credits db' j = payout_credits db j" if "j \<noteq> i" for j
    unfolding payout_credits_def 2(8) using that by simp (rule filter_update_other, auto)
  have "payout_ok db' q" if "q \<in> set (referral_payouts db)" for q
  proof -
    have "payout_id q \<noteq> i" using that fresh by auto
    then have "payout_credits db' (payout_id q) = payout_credits db (payout_id q)" by (rule others)
    moreover have "payout_ok db q" using ok that by (simp add: ledger_ok_def list_all_iff)
    ultimately show ?thesis by (simp add: payout_ok_def)
  qed
  moreover have "payout_ok db' p"
    using 2(1-7) mine by (simp add: payout_ok_def comp_def list_all_iff)
  moreover have "referral_indexes (referral_credits db') (referral_payouts db')"
    using ok 2 fresh
    by (auto simp: ledger_ok_def referral_indexes_def map_update_where unique_on_append)
  moreover have "ledger_grows db db'"
    unfolding ledger_grows_def
  proof (intro conjI ballI)
    fix c assume "c \<in> set (referral_credits db)"
    from update_where_row [OF this, of ?claim ?f]
    show "\<exists>c' \<in> set (referral_credits db'). credit_payment_id c' = credit_payment_id c \<and>
        credit_address c' = credit_address c \<and> credit_amount_sats c' = credit_amount_sats c \<and>
        (credit_payout_id c \<noteq> None \<longrightarrow> credit_payout_id c' = credit_payout_id c)"
      unfolding 2(8) by (intro bexI [of _ "if ?claim c then ?f c else c"]) simp_all
  qed (auto simp: 2(8))
  moreover have "credit_ok db' c" if c: "c \<in> set (referral_credits db')" for c
  proof -
    obtain c0 where c0: "c0 \<in> set (referral_credits db)" "c = (if ?claim c0 then ?f c0 else c0)"
      using c unfolding 2(8) by (auto simp: in_update_where)
    have "credit_ok db c0" using ok c0 by (simp add: ledger_ok_def list_all_iff)
    then show ?thesis unfolding 2(8) c0(2) using 2(1) by (auto simp: credit_ok_def split: option.splits)
  qed
  ultimately show ?thesis
    using 2(8) by (simp add: ledger_ok_def list_all_iff)
qed (use ok in simp)

lemma credit_ledger:
  assumes ok: "ledger_ok db" and run: "credit_settled_payment pay db = Inr db'"
  shows "ledger_ok db' \<and> ledger_grows db db'"
  using credit_settled_payment_cases [OF run]
proof cases
  case (2 c)
  have tabs: "referral_payouts db' = referral_payouts db" "referral_credits db' = referral_credits db @ [c]"
    using 2(1) by simp_all
  have "payout_credits db' j = payout_credits db j" for j
    using 2(3) by (simp add: payout_credits_def tabs)
  then have payout: "payout_ok db' q = payout_ok db q" for q by (simp add: payout_ok_def)
  have credit: "credit_ok db' c' = credit_ok db c'" for c' by (rule credit_ok_frame) (simp add: tabs)
  have "credit_ok db c" using 2(3,7) by (simp add: credit_ok_def)
  then have "ledger_ok db'"
    using ok 2(2,4) by (simp add: ledger_ok_def referral_indexes_def list_all_iff payout credit tabs)
  moreover have "ledger_grows db db'" unfolding ledger_grows_def tabs by auto
  ultimately show ?thesis ..
qed (use ok in simp)

lemma paid_ledger:
  assumes ok: "ledger_ok db" and run: "mark_payout_paid now i reference db = Inr (p, db')"
  shows "ledger_ok db' \<and> ledger_grows db db'"
  using mark_payout_paid_cases [OF run]
proof cases
  case 2
  let ?m = "\<lambda>q. payout_id q = i \<and> payout_status q = ''reserved'' \<and> external_reference q = None"
  have ids: "payout_id (paid_out now reference q) = payout_id q" for q by (simp add: paid_out_def)
  have "map payout_id (referral_payouts db') = map payout_id (referral_payouts db)"
    using 2 by (simp add: map_update_where ids)
  moreover from this have "payout_id ` set (referral_payouts db') = payout_id ` set (referral_payouts db)"
    by (metis list.set_map)
  moreover have "payout_ok db' q" if q: "q \<in> set (referral_payouts db')" for q
  proof -
    obtain q0 where q0: "q0 \<in> set (referral_payouts db)" "q = (if ?m q0 then paid_out now reference q0 else q0)"
      using q unfolding 2(1) by (auto simp: in_update_where)
    have "payout_ok db q0" using ok q0 by (simp add: ledger_ok_def list_all_iff)
    moreover have "payout_credits db' j = payout_credits db j" for j
      using 2 by (simp add: payout_credits_def)
    ultimately show ?thesis using q0(2) by (auto simp: payout_ok_def paid_out_def)
  qed
  moreover have "\<exists>p' \<in> set (referral_payouts db'). payout_id p' = payout_id q \<and>
      payout_address p' = payout_address q \<and> payout_amount_sats p' = payout_amount_sats q \<and>
      (payout_status q = ''paid'' \<longrightarrow> p' = q)" if q: "q \<in> set (referral_payouts db)" for q
  proof (rule bexI)
    let ?q = "if ?m q then paid_out now reference q else q"
    show "?q \<in> set (referral_payouts db')"
      unfolding 2(1) using update_where_row [OF q, of ?m] by simp
    show "payout_id ?q = payout_id q \<and> payout_address ?q = payout_address q \<and>
      payout_amount_sats ?q = payout_amount_sats q \<and> (payout_status q = ''paid'' \<longrightarrow> ?q = q)"
      by (simp add: paid_out_def)
  qed
  moreover from calculation(2) have "credit_ok db' c = credit_ok db c" for c by (rule credit_ok_frame)
  moreover have "referral_credits db' = referral_credits db" using 2(1) by simp
  ultimately show ?thesis
    using ok 2(2)
    by (simp add: ledger_ok_def referral_indexes_def ledger_grows_def list_all_iff) blast
qed (use ok in simp)

interpretation ledger: monotone_system ledger_step ledger_ok ledger_grows
proof
  fix s t assume "ledger_ok s" and "ledger_step s t"
  from this(2,1) show "ledger_ok t" and "ledger_grows s t"
    by (cases; blast dest: credit_ledger reserve_payout_ledger paid_ledger)+
qed (auto intro: ledger_grows_trans)

text \<open>In a consistent ledger every credit is exactly one of available, reserved and paid.\<close>

lemma credit_status_cases:
  assumes ok: "ledger_ok db" and c: "c \<in> set (referral_credits db)"
  shows "(if credit_payout_id c = None then credit_amount_sats c else 0) +
    (if credit_payout_status db c = Some ''reserved'' then credit_amount_sats c else 0) +
    (if credit_payout_status db c = Some ''paid'' then credit_amount_sats c else 0) = credit_amount_sats c"
proof (cases "credit_payout_id c")
  case (Some i)
  have "credit_ok db c" using assms by (simp add: ledger_ok_def list_all_iff)
  with Some obtain p where "get_payout db i = Some p"
    by (cases "get_payout db i") (auto simp: credit_ok_def get_payout_def get_row_None)
  moreover from this have "payout_ok db p"
    using ok by (auto simp: get_payout_def ledger_ok_def list_all_iff dest: get_row_Some)
  ultimately show ?thesis using Some by (auto simp: credit_payout_status_def payout_ok_def)
qed (simp add: credit_payout_status_def)

lemma balance_total:
  assumes "ledger_ok db"
  shows "available_sats (balance_of db a) + reserved_sats (balance_of db a) + paid_sats (balance_of db a) =
    sum_list (map credit_amount_sats (filter (\<lambda>c. credit_address c = a) (referral_credits db)))"
proof -
  let ?mine = "filter (\<lambda>c. credit_address c = a) (referral_credits db)"
  let ?f = "\<lambda>p c. if p c then credit_amount_sats c else (0::int)"
  let ?parts = "\<lambda>c. ?f (\<lambda>c. credit_payout_id c = None) c +
    ?f (\<lambda>c. credit_payout_status db c = Some ''reserved'') c + ?f (\<lambda>c. credit_payout_status db c = Some ''paid'') c"
  have "available_sats (balance_of db a) + reserved_sats (balance_of db a) + paid_sats (balance_of db a) =
      sum_list (map ?parts ?mine)"
    by (simp add: balance_of_def Let_def sum_list_addf)
  also have "map ?parts ?mine = map credit_amount_sats ?mine"
    by (rule map_cong [OF refl]) (use credit_status_cases [OF assms] in simp)
  finally show ?thesis .
qed

section \<open>Properties\<close>

text \<open>
  C7: the referral ledger is conserved. Whatever sequence of credits, payout reservations and paid
  marks runs, every payout is the sum of credits of its own address that belong to no other payout and
  reaches the minimum; a payout is paid exactly when it carries an operator reference, which no other
  payout carries; no credit is lost or changed, a credit in a payout stays there and a paid payout is
  final; and what an address is shown as available, reserved and paid adds up to its credits.
\<close>

theorem referral_ledger_conserved:
  assumes "ledger_ok db" and "ledger_step\<^sup>*\<^sup>* db db'"
  shows "ledger_ok db' \<and> ledger_grows db db' \<and>
    available_sats (balance_of db' a) + reserved_sats (balance_of db' a) + paid_sats (balance_of db' a) =
      sum_list (map credit_amount_sats (filter (\<lambda>c. credit_address c = a) (referral_credits db')))"
  using ledger.run_inv [OF assms(2,1)] ledger.run_rel [OF assms(2,1)] balance_total by simp

theorem referral_ledger_conserved_witness:
  "\<exists>db'. ledger_step\<^sup>*\<^sup>* (empty_database\<lparr>referral_credits :=
      [\<lparr> credit_payment_id = 3, credit_address = ''a@b.co'', credit_amount_sats = 12000,
         credit_payout_id = None \<rparr>]\<rparr>) db' \<and> ledger_ok db' \<and>
      map payout_amount_sats (referral_payouts db') = [12000]"
proof -
  let ?c = "\<lparr> credit_payment_id = 3, credit_address = ''a@b.co'', credit_amount_sats = 12000,
    credit_payout_id = None \<rparr>"
  let ?db = "empty_database\<lparr>referral_credits := [?c]\<rparr>"
  let ?p = "\<lparr> payout_id = ''u1'', payout_address = ''a@b.co'', payout_amount_sats = 12000,
    payout_status = ''reserved'', external_reference = None, payout_paid_at = None \<rparr>"
  let ?db' = "?db\<lparr>referral_payouts := [?p], referral_credits := [?c\<lparr>credit_payout_id := Some ''u1''\<rparr>]\<rparr>"
  have "validated_address ''a@b.co'' = Inr ''a@b.co''" by code_simp
  then have "reserve_payout ''u1'' ''a@b.co'' ?db = Inr (?p, ?db')"
    by (simp add: reserve_payout_def get_payout_def get_row_def empty_database_def
        MINIMUM_PAYOUT_SATS_def row_count_def table_simps Let_def)
  then have run: "ledger_step\<^sup>*\<^sup>* ?db ?db'" by (intro r_into_rtranclp step_reserve_payout)
  have "ledger_ok ?db" by (simp add: ledger_ok_def referral_indexes_def empty_database_def credit_ok_def)
  from referral_ledger_conserved [OF this run] run show ?thesis
    by (intro exI [of _ ?db']) simp
qed

text \<open>
  A settled payment earns at most one credit, and never more than the service amount. The first
  call adds nothing or one credit, owned by no payout, whose amount is positive and at most the amount
  net of the stablecoin markup, and only for a payment that is paid, verified and not under review; a
  repeated call changes nothing.
\<close>

theorem referral_credit_once_bounded:
  assumes "credit_settled_payment pay db = Inr db'"
  shows "credit_settled_payment pay db' = Inr db' \<and>
    (referral_credits db' = referral_credits db \<or>
     (\<exists>c. referral_credits db' = referral_credits db @ [c] \<and> credit_payment_id c = pay_id pay \<and>
        credit_payout_id c = None \<and> 0 < credit_amount_sats c \<and>
        credit_amount_sats c \<le> amount_sats pay - markup_sats pay \<and> pay_status pay = PAID \<and>
        \<not> settlement_review_required pay \<and>
        pay_id pay \<notin> credit_payment_id ` set (referral_credits db)))"
proof -
  have again: "credit_settled_payment pay d = Inr d"
    if "credit_settled_payment pay db = Inr db'" "pay_id pay \<in> credit_payment_id ` set (referral_credits d)" for d
    using that by (auto simp: credit_settled_payment_def Let_def split: ledger_splits)
  from assms show ?thesis
  proof (cases rule: credit_settled_payment_cases)
    case (2 c)
    then show ?thesis using again [OF assms, of db'] by auto
  qed (use assms in simp)
qed

theorem referral_credit_once_bounded_witness:
  "\<exists>db'. credit_settled_payment (sample_payment\<lparr>pay_status := PAID, invoice_provider := Some ''lnurl'',
       settlement_verified_at := Some 0, pay_referral_address := Some ''a@b.co'',
       referral_commission_bps := 1000\<rparr>) empty_database = Inr db' \<and>
     map credit_amount_sats (referral_credits db') = [100] \<and>
     credit_settled_payment (sample_payment\<lparr>pay_status := PAID, invoice_provider := Some ''lnurl'',
       settlement_verified_at := Some 0, pay_referral_address := Some ''a@b.co'',
       referral_commission_bps := 1000\<rparr>) db' = Inr db'"
proof -
  let ?p = "sample_payment\<lparr>pay_status := PAID, invoice_provider := Some ''lnurl'',
       settlement_verified_at := Some 0, pay_referral_address := Some ''a@b.co'',
       referral_commission_bps := 1000\<rparr>"
  have addr: "validated_address ''a@b.co'' = Inr ''a@b.co''" by code_simp
  have run: "credit_settled_payment ?p empty_database = Inr (empty_database\<lparr>referral_credits :=
      [\<lparr> credit_payment_id = 1, credit_address = ''a@b.co'', credit_amount_sats = 100,
         credit_payout_id = None \<rparr>]\<rparr>)"
    by (simp add: credit_settled_payment_def sample_payment_def addr MAX_REFERRAL_COMMISSION_BPS_def
        empty_database_def)
  from referral_credit_once_bounded [OF this] run show ?thesis by auto
qed

end
