(* ===== verification/Payment_Settlement.thy ===== *)
theory Payment_Settlement
  imports Subscription_Lifecycle Referrals
begin

text \<open>
  The payment transactions that need no provider (\<^verbatim>\<open>services/payments.py\<close>): stablecoin pricing,
  eligibility deadlines, conditional status updates, expiry, the failure paths of the automatic wallets
  as far as they touch the database, and the settlement transaction that grants exactly one period.
  Each returns the database its commit makes visible; an exception drops what it wrote.
\<close>

section \<open>Pricing\<close>

definition require_payment_method_enabled :: "settings \<Rightarrow> payment_method \<Rightarrow> error option" where
  "require_payment_method_enabled cfg m =
     (if is_payment_method_enabled cfg m then None else Some (DisabledPaymentMethodError m))"

definition stablecoin_markup_sats :: "settings \<Rightarrow> int \<Rightarrow> error + int" where
  "stablecoin_markup_sats cfg base =
     (if base \<le> 0 then Inl (ValueError ''base payment amount must be positive'')
      else Inr ((base * STABLECOIN_SWAP_MARKUP_BPS cfg + 9999) div 10000))"

definition stablecoin_credited_days ::
  "int \<Rightarrow> int \<Rightarrow> int \<Rightarrow> int \<Rightarrow> int option \<Rightarrow> error + int" where
  "stablecoin_credited_days amount base surcharge standard service_price =
     (let service = (case service_price of Some s \<Rightarrow> s | None \<Rightarrow> base);
          topup = amount - base - surcharge;
          denominator = service + surcharge
      in if amount \<le> 0 \<or> denominator \<le> 0 \<or> standard \<le> 0
         then Inl (ValueError ''stablecoin payment snapshot has an invalid credit amount'')
         else if topup \<le> 0 then Inr standard
         else if service_price = None \<or> service_price = Some base
         then Inr ((amount * standard + denominator - 1) div denominator)
         else Inr (standard + (topup * standard + denominator - 1) div denominator))"

definition stablecoin_checkout_snapshot :: "settings \<Rightarrow> string \<times> string \<times> string option" where
  "stablecoin_checkout_snapshot cfg =
     (if STABLECOIN_CHECKOUT_PROVIDER cfg = ''boltz''
      then (''boltz'', BOLTZ_WEB_URL cfg, Some (STABLECOIN_SWAP_DEFAULT_ASSET cfg))
      else (''lightning_swap'', LIGHTNING_SWAP_WEB_URL cfg, Some (LIGHTNING_SWAP_DEFAULT_ASSET cfg)))"

definition stablecoin_amounts :: "settings \<Rightarrow> int \<Rightarrow> string \<Rightarrow> error + int \<times> int \<times> int" where
  "stablecoin_amounts cfg base provider =
     (case stablecoin_markup_sats cfg base of
        Inl e \<Rightarrow> Inl e
      | Inr surcharge \<Rightarrow>
          let amount = (if provider \<noteq> ''lightning_swap'' then base + surcharge
                        else max (base + surcharge) (STABLECOIN_SWAP_MIN_INVOICE_SATS cfg))
          in Inr (amount, amount - base, surcharge))"

section \<open>Deadlines\<close>

definition payment_eligibility_deadline :: "settings \<Rightarrow> subscription \<Rightarrow> time option" where
  "payment_eligibility_deadline cfg sub =
     (let deadlines = List.map_filter id
            [reservation_expires_at sub,
             if sub_status sub = SubEXPIRED then resource_quarantined_until sub else None,
             domain_payment_eligibility_deadline cfg sub,
             if upgrade_from_subscription_id sub \<noteq> None then upgrade_source_period_end sub else None]
      in case deadlines of [] \<Rightarrow> None | d # ds \<Rightarrow> Some (fold min ds d))"

definition bounded_invoice_expiry :: "settings \<Rightarrow> time \<Rightarrow> time option \<Rightarrow> error + int option" where
  "bounded_invoice_expiry cfg now deadline =
     (case deadline of
        None \<Rightarrow> Inr None
      | Some d \<Rightarrow>
          let expiry = floor_seconds (d - now) - PAYMENT_EXPIRY_SAFETY_SECONDS cfg
          in if expiry < PAYMENT_MIN_PAYABLE_SECONDS cfg
             then Inl (ValueError ''payment eligibility window is too short to create a payable invoice'')
             else Inr (Some expiry))"

definition local_expiry :: "time \<Rightarrow> time option \<Rightarrow> int \<Rightarrow> time" where
  "local_expiry now deadline secs =
     (let expires = now + seconds secs in
      case deadline of Some d \<Rightarrow> min expires d | None \<Rightarrow> expires)"

section \<open>Status transitions\<close>

text \<open>The conditional update; \<open>None\<close> when its \<^verbatim>\<open>rowcount\<close> is not 1.\<close>

definition update_payment_if ::
  "int \<Rightarrow> (payment \<Rightarrow> bool) \<Rightarrow> (payment \<Rightarrow> payment) \<Rightarrow> database \<Rightarrow> database option" where
  "update_payment_if i cond change db =
     (let matches = (\<lambda>p. pay_id p = i \<and> cond p) in
      if row_count matches (payments db) = 1
      then Some (db\<lparr>payments := update_where matches change (payments db)\<rparr>) else None)"

definition conditional_status_update ::
  "int \<Rightarrow> payment_status \<Rightarrow> payment_status \<Rightarrow> (payment \<Rightarrow> payment) \<Rightarrow> database \<Rightarrow> database option" where
  "conditional_status_update i expected status values =
     update_payment_if i (\<lambda>p. pay_status p = expected) (\<lambda>p. (values p)\<lparr>pay_status := status\<rparr>)"

text \<open>Releasing the reservation of a payment that ended unpaid.\<close>

definition release_for_payment :: "time \<Rightarrow> payment \<Rightarrow> database \<Rightarrow> database" where
  "release_for_payment now pay db =
     (case get_subscription db (pay_subscription_id pay) of
        None \<Rightarrow> db
      | Some sub \<Rightarrow> snd (release_reservation now sub (pay_id pay) db))"

definition expire_payment :: "time \<Rightarrow> payment \<Rightarrow> database \<Rightarrow> database" where
  "expire_payment now pay db =
     (case conditional_status_update (pay_id pay) PENDING EXPIRED id db of
        None \<Rightarrow> db
      | Some db1 \<Rightarrow> release_for_payment now pay db1)"

definition expire_pending_payment :: "time \<Rightarrow> payment \<Rightarrow> database \<Rightarrow> database" where
  "expire_pending_payment now pay db =
     (case get_payment db (pay_id pay) of
        None \<Rightarrow> db
      | Some current \<Rightarrow>
          if pay_status current \<noteq> PENDING then db else expire_payment now current db)"

definition queue_automatic_renewal_failure_notification ::
  "settings \<Rightarrow> sealer \<Rightarrow> time \<Rightarrow> payment \<Rightarrow> subscription \<Rightarrow> database \<Rightarrow> error + database" where
  "queue_automatic_renewal_failure_notification cfg seal now pay sub db =
     (case automatic_renewal_period_end pay of
        None \<Rightarrow> Inr db
      | Some period_end \<Rightarrow>
          if \<not> automatic_renewal pay \<or> (sub_status sub \<noteq> SubACTIVE \<and> sub_status sub \<noteq> SubEXPIRED) \<or>
             current_period_end sub \<noteq> Some period_end
          then Inr db
          else case get_user db (sub_user_id sub) of
            None \<Rightarrow> Inr db
          | Some user \<Rightarrow>
              let key = AutomaticRenewalFailed (sub_id sub) period_end in
              if \<not> REMINDER_EMAIL_ENABLED cfg \<or> is_suspended user \<or> \<not> has_notification_email user \<or>
                 notification_email_generation user < 1
              then Inr db
              else if key \<in> idempotency_key ` set (notifications db) then Inr db
              else queue_notification seal now user ACCOUNT AUTOMATIC_RENEWAL_FAILED key
                     (Some sub) (Some pay) None (Some period_end) None db)"

text \<open>What both failure paths do once the payment row is marked failed.\<close>

definition drop_automatic_renewal ::
  "settings \<Rightarrow> sealer \<Rightarrow> time \<Rightarrow> payment \<Rightarrow> database \<Rightarrow> error + database" where
  "drop_automatic_renewal cfg seal now pay db =
     (case get_subscription db (pay_subscription_id pay) of
        None \<Rightarrow> Inr db
      | Some sub \<Rightarrow>
          let off = (\<lambda>s. s\<lparr>auto_renew := False\<rparr>);
              (released, db1) = release_reservation now (off sub) (pay_id pay)
                                  (set_subscription (sub_id sub) off db);
              sub1 = (if released then reservation_cleared now (off sub) else off sub)
          in queue_automatic_renewal_failure_notification cfg seal now pay sub1 db1)"

section \<open>Settlement\<close>

definition paid :: "time \<Rightarrow> time option \<Rightarrow> payment \<Rightarrow> payment" where
  "paid now verified p =
     p\<lparr>paid_at := Some now,
       settlement_verified_at := (case verified of None \<Rightarrow> settlement_verified_at p | Some t \<Rightarrow> Some t)\<rparr>"

text \<open>The full service price and the discount of the billing snapshot, with the legacy form.\<close>

definition snapshot_prices :: "payment \<Rightarrow> error + int \<times> int" where
  "snapshot_prices p =
     (if service_price_sats p = 0 then
        (if discount_sats p \<noteq> 0
         then Inl (ValueError ''payment billing snapshot has an invalid discount'')
         else Inr (amount_sats p - markup_sats p, 0))
      else Inr (service_price_sats p, discount_sats p))"

text \<open>The checks on the period of a stablecoin payment.\<close>

definition check_stablecoin_snapshot :: "payment \<Rightarrow> int \<Rightarrow> int \<Rightarrow> error option" where
  "check_stablecoin_snapshot p service due =
     (let standard = billing_period_days (pay_billing_term p);
          legacy = (stablecoin_surcharge_sats p = 0 \<and> period_days p = standard)
      in if stablecoin_surcharge_sats p < 0 \<or> stablecoin_surcharge_sats p > markup_sats p
         then Some (ValueError ''stablecoin payment snapshot has an invalid surcharge'')
         else if stablecoin_provider p = Some ''lightning_swap'' \<and> \<not> legacy then
           (case stablecoin_credited_days (amount_sats p) due (stablecoin_surcharge_sats p) standard
                   (Some service) of
              Inl e \<Rightarrow> Some e
            | Inr expected \<Rightarrow>
                if period_days p \<noteq> expected
                then Some (ValueError ''payment billing snapshot has an invalid period'') else None)
         else if stablecoin_provider p \<noteq> Some ''lightning_swap'' \<and> period_days p \<noteq> standard
         then Some (ValueError ''payment billing snapshot has an invalid period'')
         else None)"

text \<open>The billing snapshot of the payment; the result is the base amount that was due.\<close>

definition check_billing_snapshot :: "payment \<Rightarrow> error + int" where
  "check_billing_snapshot p =
     (if pay_method p \<noteq> STABLECOIN_SWAP \<and> period_days p \<noteq> billing_period_days (pay_billing_term p)
      then Inl (ValueError ''payment billing snapshot has an invalid period'')
      else case snapshot_prices p of
        Inl e \<Rightarrow> Inl e
      | Inr (service, discount) \<Rightarrow>
          if service \<le> 0 \<or> discount < 0 \<or> discount > service
          then Inl (ValueError ''payment billing snapshot has an invalid service price or discount'')
          else let due = service - discount in
            if amount_sats p \<le> 0 \<and> due > 0
            then Inl (ValueError ''payment billing snapshot has an invalid amount'')
            else if markup_sats p < 0 \<or> amount_sats p - markup_sats p \<noteq> due
            then Inl (ValueError ''payment billing snapshot has an invalid markup'')
            else if pay_method p = STABLECOIN_SWAP then
              (case check_stablecoin_snapshot p service due of Some e \<Rightarrow> Inl e | None \<Rightarrow> Inr due)
            else Inr due)"

definition term_price :: "subscription \<Rightarrow> billing_term \<Rightarrow> int" where
  "term_price sub term = (if term = MONTHLY then monthly_price_sats sub else yearly_price_sats sub)"

definition is_upgrade_initial :: "subscription \<Rightarrow> bool" where
  "is_upgrade_initial sub =
     (upgrade_from_subscription_id sub \<noteq> None \<and> sub_status sub = SubPENDING)"

definition check_upgrade_snapshot :: "payment \<Rightarrow> int \<Rightarrow> subscription \<Rightarrow> error option" where
  "check_upgrade_snapshot p due sub =
     (if amount_sats p = 0 \<and> \<not> (is_upgrade_initial sub \<and> due = 0)
      then Some (ValueError ''payment billing snapshot has an invalid amount'')
      else if is_upgrade_initial sub \<and>
        (pay_billing_term p \<noteq> billing_term sub \<or> discount_sats p \<noteq> upgrade_credit_sats sub \<or>
         service_price_sats p \<noteq> term_price sub (pay_billing_term p) \<or>
         upgrade_source_period_end sub = None)
      then Some (ValueError ''wildcard upgrade payment snapshot is invalid'')
      else None)"

definition payment_started_before_expiry :: "payment \<Rightarrow> subscription \<Rightarrow> bool" where
  "payment_started_before_expiry p sub =
     (case current_period_end sub of None \<Rightarrow> False | Some e \<Rightarrow> pay_created_at p \<le> e)"

definition is_renewal :: "payment \<Rightarrow> subscription \<Rightarrow> bool" where
  "is_renewal p sub =
     (sub_status sub = SubACTIVE \<or>
      (is_scarce (product sub) \<and> reservation_payment_id sub = None \<and>
       (case resource_quarantined_until sub of
          None \<Rightarrow> False
        | Some q \<Rightarrow> payment_started_before_expiry p sub \<or> pay_created_at p \<le> q)))"

text \<open>The source of a wildcard upgrade, which the settled upgrade replaces.\<close>

definition upgrade_source_ok :: "subscription \<Rightarrow> subscription \<Rightarrow> bool" where
  "upgrade_source_ok sub source =
     (sub_user_id source = sub_user_id sub \<and> product source = RELAY \<and>
      relay_hostname_scope source = EXACT \<and>
      (sub_status source = SubACTIVE \<or> sub_status source = SubEXPIRED) \<and>
      nonempty (domain source) \<and> \<not> domain_is_managed source \<and>
      Some (join_on ''.'' (tl (split_on (CHR ''.'') (the (domain source))))) = domain sub \<and>
      current_period_end source = upgrade_source_period_end sub)"

definition source_cancelled :: "time \<Rightarrow> subscription \<Rightarrow> subscription" where
  "source_cancelled now s = s\<lparr>sub_status := SubCANCELLED, domain := None, relay_pool_domain := None,
     domain_is_managed := False, domain_verification_token := None, domain_verified_at := None,
     domain_claim_expires_at := None, domain_renewal_grace_expires_at := None, auto_renew := False,
     sub_updated_at := now\<rparr>"

definition retire_upgrade_source :: "time \<Rightarrow> subscription \<Rightarrow> database \<Rightarrow> error + database" where
  "retire_upgrade_source now sub db =
     (case get_subscription db (the (upgrade_from_subscription_id sub)) of
        None \<Rightarrow> Inl (ValueError ''wildcard upgrade source changed before settlement'')
      | Some source \<Rightarrow>
          if \<not> upgrade_source_ok sub source
          then Inl (ValueError ''wildcard upgrade source changed before settlement'')
          else Inr (set_subscription (sub_id source) (source_cancelled now) db))"

definition notify_settled ::
  "settings \<Rightarrow> sealer \<Rightarrow> time \<Rightarrow> bool \<Rightarrow> payment \<Rightarrow> subscription \<Rightarrow> database \<Rightarrow> error + database" where
  "notify_settled cfg seal now renewal p sub db =
     (case get_user db (sub_user_id sub) of
        None \<Rightarrow> Inr db
      | Some user \<Rightarrow>
          if REMINDER_EMAIL_ENABLED cfg \<and> \<not> is_suspended user \<and> has_notification_email user \<and>
             current_period_end sub \<noteq> None
          then let kind = (if renewal then SUBSCRIPTION_RENEWED else SUBSCRIPTION_ACTIVATED)
               in queue_notification seal now user ACCOUNT kind (PaymentEvent (pay_id p) kind)
                    (Some sub) (Some p) None (current_period_end sub) None db
          else Inr db)"

text \<open>\<^verbatim>\<open>subscription.billing_term = payment.billing_term\<close>\<close>

definition billed :: "payment \<Rightarrow> subscription \<Rightarrow> subscription" where
  "billed p s = s\<lparr>billing_term := pay_billing_term p\<rparr>"

text \<open>Everything the settlement transaction does after the payment row is marked paid.\<close>

definition grant_period ::
  "settings \<Rightarrow> sealer \<Rightarrow> time \<Rightarrow> payment \<Rightarrow> database \<Rightarrow> error + database" where
  "grant_period cfg seal now p db =
     (case check_billing_snapshot p of Inl e \<Rightarrow> Inl e | Inr due \<Rightarrow>
      (case get_subscription db (pay_subscription_id p) of
         None \<Rightarrow> Inl (RuntimeError ''payment subscription disappeared'')
       | Some sub \<Rightarrow>
          (case check_upgrade_snapshot p due sub of Some e \<Rightarrow> Inl e | None \<Rightarrow>
          (case require_domain_payment_settlement_ready cfg sub p of Some e \<Rightarrow> Inl e | None \<Rightarrow>
           let sub1 = billed p sub; db1 = set_subscription (sub_id sub) (billed p) db;
               renewal = is_renewal p sub1
           in case (if renewal then renew_subscription now sub1 (period_days p) db1
                    else activate_subscription cfg now sub1 (Some (pay_id p)) (period_days p) db1) of
                Inl e \<Rightarrow> Inl e
              | Inr (sub2, db2) \<Rightarrow>
                  (case (if is_upgrade_initial sub then retire_upgrade_source now sub2 db2 else Inr db2) of
                     Inl e \<Rightarrow> Inl e
                   | Inr db3 \<Rightarrow>
                       (case notify_settled cfg seal now renewal p sub2 db3 of
                          Inl e \<Rightarrow> Inl e
                        | Inr db4 \<Rightarrow> credit_settled_payment p db4))))))"

definition finalize_tx ::
  "settings \<Rightarrow> sealer \<Rightarrow> time \<Rightarrow> int \<Rightarrow> payment_status \<Rightarrow> time option \<Rightarrow> database \<Rightarrow> error + database" where
  "finalize_tx cfg seal now i expected verified db =
     (case conditional_status_update i expected PAID (paid now verified) db of
        None \<Rightarrow> Inr db
      | Some db1 \<Rightarrow>
          (case get_payment db1 i of
             None \<Rightarrow> Inl (RuntimeError ''payment disappeared'')
           | Some p \<Rightarrow> grant_period cfg seal now p db1))"

section \<open>Lemmas\<close>

lemma activate_frame:
  assumes "activate now sub db = Inr db'"
  shows "users db' = users db \<and> subscriptions db' = subscriptions db \<and> payments db' = payments db \<and>
    notifications db' = notifications db \<and> referral_credits db' = referral_credits db \<and>
    referral_payouts db' = referral_payouts db \<and> agent_orders db' = agent_orders db \<and> next_id db' = next_id db"
  using assms by (auto simp: activate_def split: if_splits option.splits)

lemma release_frame [simp]:
  "users (snd (release now sub r db)) = users db"
  "subscriptions (snd (release now sub r db)) = subscriptions db"
  "payments (snd (release now sub r db)) = payments db"
  "notifications (snd (release now sub r db)) = notifications db"
  "referral_credits (snd (release now sub r db)) = referral_credits db"
  "next_id (snd (release now sub r db)) = next_id db"
  "agent_orders (snd (release now sub r db)) = agent_orders db"
  by (auto simp: release_def split: option.splits)

lemma release_reservation_frame [simp]:
  "users (snd (release_reservation now sub i db)) = users db"
  "payments (snd (release_reservation now sub i db)) = payments db"
  "notifications (snd (release_reservation now sub i db)) = notifications db"
  "next_id (snd (release_reservation now sub i db)) = next_id db"
  "agent_orders (snd (release_reservation now sub i db)) = agent_orders db"
  by (auto simp: release_reservation_def)

lemma update_payment_if_Some:
  assumes "distinct (map pay_id (payments db))"
  shows "update_payment_if i cond change db = Some db' \<longleftrightarrow>
    (\<exists>p. get_payment db i = Some p \<and> cond p) \<and>
    db' = db\<lparr>payments := update_where (\<lambda>p. pay_id p = i \<and> cond p) change (payments db)\<rparr>"
  using row_count_key [OF assms, of i cond]
  by (auto simp: update_payment_if_def get_payment_def)

lemma update_payment_if_None:
  assumes "distinct (map pay_id (payments db))"
  shows "update_payment_if i cond change db = None \<longleftrightarrow> \<not> (\<exists>p. get_payment db i = Some p \<and> cond p)"
  using row_count_key [OF assms, of i cond]
  by (auto simp: update_payment_if_def get_payment_def)

lemma get_payment_update_if:
  assumes "\<And>p. pay_id (change p) = pay_id p"
  shows "get_payment (db\<lparr>payments := update_where (\<lambda>p. pay_id p = i \<and> cond p) change (payments db)\<rparr>) j =
    (if j = i then map_option (\<lambda>p. if cond p then change p else p) (get_payment db i) else get_payment db j)"
  using assms
  by (cases "get_row pay_id j (payments db)")
    (auto simp: get_payment_def get_row_update_where dest: get_row_Some)

lemma get_subscription_id: "get_subscription db i = Some s \<Longrightarrow> sub_id s = i"
  by (auto simp: get_subscription_def dest: get_row_Some)

lemma get_payment_id: "get_payment db i = Some p \<Longrightarrow> pay_id p = i"
  by (auto simp: get_payment_def dest: get_row_Some)

lemma credit_frame:
  assumes "credit_settled_payment p db = Inr db'"
  shows "users db' = users db \<and> subscriptions db' = subscriptions db \<and> payments db' = payments db \<and>
    leases db' = leases db \<and> notifications db' = notifications db \<and> next_id db' = next_id db"
  using credit_settled_payment_cases [OF assms] by cases auto

lemma notify_settled_frame:
  assumes "notify_settled cfg seal now renewal p sub db = Inr db'"
  shows "users db' = users db \<and> subscriptions db' = subscriptions db \<and> payments db' = payments db \<and>
    leases db' = leases db \<and> referral_credits db' = referral_credits db"
  using assms queue_notification_frame
  by (auto simp: notify_settled_def Let_def split: option.splits if_splits)

text \<open>The row the settlement writes.\<close>

definition granted :: "time \<Rightarrow> payment \<Rightarrow> string option \<Rightarrow> subscription \<Rightarrow> subscription" where
  "granted now p pool s =
     (if is_renewal p s then renewed now (renewal_base now s + days (period_days p)) (billed p s)
      else activated now (period_days p) pool (billed p s))"

lemma billed_simps [simp]:
  "sub_id (billed p s) = sub_id s" "is_renewal p (billed p s) = is_renewal p s"
  "renewal_base now (billed p s) = renewal_base now s" "domain (billed p s) = domain s"
  "upgrade_from_subscription_id (billed p s) = upgrade_from_subscription_id s"
  by (simp_all add: billed_def is_renewal_def renewal_base_def payment_started_before_expiry_def
      cong: option.case_cong)

lemma granted_simps [simp]:
  "sub_id (granted now p pool s) = sub_id s" "sub_status (granted now p pool s) = SubACTIVE"
  "domain (granted now p pool s) = domain s"
  "upgrade_from_subscription_id (granted now p pool s) = upgrade_from_subscription_id s"
  "current_period_end (granted now p pool s) =
     Some ((if is_renewal p s then renewal_base now s else now) + days (period_days p))"
  by (simp_all add: granted_def renewed_def activated_def billed_def)

lemma map_sum_Inr: "map_sum f g x = Inr y \<longleftrightarrow> (\<exists>z. x = Inr z \<and> y = g z)"
  by (cases x) auto

lemma renew_subscription_result:
  assumes "renew_subscription now sub n db = Inr (sub', db')"
  shows "sub' = renewed now (renewal_base now sub + days n) sub \<and> payments db' = payments db \<and>
    users db' = users db \<and>
    subscriptions db' = subscriptions (set_subscription (sub_id sub) (renewed now (renewal_base now sub + days n)) db)"
  using assms by (auto simp: renew_subscription_def Let_def map_sum_Inr dest!: activate_frame)

lemma activate_subscription_result:
  assumes "activate_subscription cfg now sub res n db = Inr (sub', db')"
  shows "\<exists>pool. sub' = activated now n pool sub \<and> payments db' = payments db \<and> users db' = users db \<and>
    subscriptions db' = subscriptions (set_subscription (sub_id sub) (activated now n pool) db)"
  using assms
  by (auto simp: activate_subscription_def Let_def map_sum_Inr dest!: activate_frame split: sum.splits)

lemma retire_upgrade_source_result:
  assumes "retire_upgrade_source now sub db = Inr db'"
  shows "\<exists>source. get_subscription db (the (upgrade_from_subscription_id sub)) = Some source \<and>
    upgrade_source_ok sub source \<and> db' = set_subscription (sub_id source) (source_cancelled now) db"
  using assms by (auto simp: retire_upgrade_source_def split: option.splits if_splits)

lemma length_join_tl: "s \<noteq> [] \<Longrightarrow> join_on ''.'' (tl (split_on (CHR ''.'') s)) \<noteq> s"
proof
  assume "s \<noteq> []" and eq: "join_on ''.'' (tl (split_on (CHR ''.'') s)) = s"
  obtain p ps where ps: "split_on (CHR ''.'') s = p # ps" by (cases "split_on (CHR ''.'') s") auto
  have s: "s = join_on ''.'' (p # ps)" using join_split_on [of "CHR ''.''" s] by (simp add: ps)
  show False
  proof (cases ps)
    case Nil
    then show False using eq ps \<open>s \<noteq> []\<close> by simp
  next
    case (Cons q qs)
    then have "length s = length p + 1 + length (join_on ''.'' ps)" using s by simp
    then show False using eq ps by simp
  qed
qed

text \<open>What the granting part of the settlement changes in the subscription table.\<close>

lemma grant_period_result:
  assumes run: "grant_period cfg seal now p db = Inr db'"
    and sub: "get_subscription db (pay_subscription_id p) = Some s"
  shows "payments db' = payments db \<and>
    (\<exists>pool. get_subscription db' (sub_id s) = Some (granted now p pool s)) \<and>
    (\<forall>j. j \<noteq> sub_id s \<longrightarrow> get_subscription db' j =
      (if is_upgrade_initial s \<and> upgrade_from_subscription_id s = Some j
       then map_option (source_cancelled now) (get_subscription db j) else get_subscription db j)) \<and>
    check_billing_snapshot p \<noteq> Inl e \<and> require_domain_payment_settlement_ready cfg s p = None"
proof -
  let ?db1 = "set_subscription (sub_id s) (billed p) db"
  from run sub obtain due sub2 db2 db3 db4 where
    checks: "check_billing_snapshot p = Inr due" "require_domain_payment_settlement_ready cfg s p = None"
    and grant: "(if is_renewal p (billed p s) then renew_subscription now (billed p s) (period_days p) ?db1
        else activate_subscription cfg now (billed p s) (Some (pay_id p)) (period_days p) ?db1) = Inr (sub2, db2)"
    and retire: "(if is_upgrade_initial s then retire_upgrade_source now sub2 db2 else Inr db2) = Inr db3"
    and notify: "notify_settled cfg seal now (is_renewal p (billed p s)) p sub2 db3 = Inr db4"
    and credit: "credit_settled_payment p db4 = Inr db'"
    by (auto simp: grant_period_def Let_def
        split: sum.splits option.splits)
  have ids: "sub_id s = pay_subscription_id p" using sub by (rule get_subscription_id)
  obtain pool where sub2: "sub2 = granted now p pool s" and pay2: "payments db2 = payments db"
    and subs2: "get_subscription db2 j = (if j = sub_id s then Some sub2 else get_subscription db j)" for j
  proof (cases "is_renewal p s")
    case True
    with grant have r: "sub2 = renewed now (renewal_base now s + days (period_days p)) (billed p s)"
      "payments db2 = payments db" "subscriptions db2 = subscriptions (set_subscription (sub_id s)
         (renewed now (renewal_base now s + days (period_days p))) ?db1)"
      by (auto dest!: renew_subscription_result)
    have "get_subscription db2 j = (if j = sub_id s then Some sub2 else get_subscription db j)" for j
      unfolding get_subscription_def r(3) unfolding get_subscription_def [symmetric]
      using sub ids by (simp add: get_set_subscription renewed_def r(1))
    with that [of None] r True show thesis by (simp add: granted_def)
  next
    case False
    with grant obtain pool where r: "sub2 = activated now (period_days p) pool (billed p s)"
      "payments db2 = payments db" "subscriptions db2 = subscriptions (set_subscription (sub_id s)
         (activated now (period_days p) pool) ?db1)"
      by (auto dest!: activate_subscription_result)
    have "get_subscription db2 j = (if j = sub_id s then Some sub2 else get_subscription db j)" for j
      unfolding get_subscription_def r(3) unfolding get_subscription_def [symmetric]
      using sub ids by (simp add: get_set_subscription activated_def r(1))
    with that [of pool] r False show thesis by (simp add: granted_def)
  qed
  have tail: "subscriptions db' = subscriptions db3" "payments db' = payments db3"
    using notify_settled_frame [OF notify] credit_frame [OF credit] by auto
  then have get': "get_subscription db' j = get_subscription db3 j" for j by (simp add: get_subscription_def)
  have src: "payments db3 = payments db \<and> get_subscription db3 (sub_id s) = Some sub2 \<and>
    (\<forall>j. j \<noteq> sub_id s \<longrightarrow> get_subscription db3 j =
      (if is_upgrade_initial s \<and> upgrade_from_subscription_id s = Some j
       then map_option (source_cancelled now) (get_subscription db j) else get_subscription db j))"
  proof (cases "is_upgrade_initial s")
    case True
    then obtain i where up: "upgrade_from_subscription_id s = Some i" by (auto simp: is_upgrade_initial_def)
    from retire True obtain source where source: "get_subscription db2 i = Some source"
      and ok: "upgrade_source_ok sub2 source" and db3: "db3 = set_subscription (sub_id source) (source_cancelled now) db2"
      using retire_upgrade_source_result [of now sub2 db2 db3] by (auto simp: sub2 up)
    have i: "sub_id source = i" using source by (rule get_subscription_id)
    have "i \<noteq> sub_id s"
    proof
      assume "i = sub_id s"
      then have "source = sub2" using source subs2 by simp
      then obtain d where "domain sub2 = Some d" "d \<noteq> []" "join_on ''.'' (tl (split_on (CHR ''.'') d)) = d"
        using ok by (cases "domain sub2") (auto simp: upgrade_source_ok_def)
      then show False using length_join_tl by blast
    qed
    moreover have "sub_id (source_cancelled now x) = sub_id x" for x by (simp add: source_cancelled_def)
    ultimately show ?thesis using True up pay2 by (auto simp: db3 i get_set_subscription subs2)
  qed (use retire pay2 subs2 in simp)
  show ?thesis using src get' tail checks sub2 by auto
qed

lemma paid_simps [simp]:
  "pay_id (paid now v p) = pay_id p" "pay_subscription_id (paid now v p) = pay_subscription_id p"
  "period_days (paid now v p) = period_days p" "pay_created_at (paid now v p) = pay_created_at p"
  "pay_billing_term (paid now v p) = pay_billing_term p"
  by (simp_all add: paid_def)

lemma is_renewal_paid [simp]: "is_renewal ((paid now v p)\<lparr>pay_status := st\<rparr>) s = is_renewal p s"
  by (simp add: is_renewal_def payment_started_before_expiry_def cong: option.case_cong)

lemma finalize_tx_noop:
  assumes "distinct (map pay_id (payments db))"
    and "\<not> (\<exists>p. get_payment db i = Some p \<and> pay_status p = expected)"
  shows "finalize_tx cfg seal now i expected v db = Inr db"
proof -
  have "conditional_status_update i expected PAID (paid now v) db = None"
    unfolding conditional_status_update_def by (subst update_payment_if_None [OF assms(1)]) (rule assms(2))
  then show ?thesis by (simp add: finalize_tx_def)
qed

text \<open>The table in which the payment row is marked paid.\<close>

definition marked_paid :: "time \<Rightarrow> time option \<Rightarrow> int \<Rightarrow> database \<Rightarrow> database" where
  "marked_paid now v i db =
     db\<lparr>payments := update_where (\<lambda>q. pay_id q = i \<and> pay_status q = PENDING)
       (\<lambda>q. (paid now v q)\<lparr>pay_status := PAID\<rparr>) (payments db)\<rparr>"

lemma finalize_tx_pending:
  assumes d: "distinct (map pay_id (payments db))" and p: "get_payment db i = Some p" "pay_status p = PENDING"
  shows "finalize_tx cfg seal now i PENDING v db =
      grant_period cfg seal now ((paid now v p)\<lparr>pay_status := PAID\<rparr>) (marked_paid now v i db)"
    "get_payment (marked_paid now v i db) j =
      (if j = i then Some ((paid now v p)\<lparr>pay_status := PAID\<rparr>) else get_payment db j)"
proof -
  show get: "get_payment (marked_paid now v i db) j =
      (if j = i then Some ((paid now v p)\<lparr>pay_status := PAID\<rparr>) else get_payment db j)" for j
    unfolding marked_paid_def using p by (simp add: get_payment_update_if)
  have "conditional_status_update i PENDING PAID (paid now v) db = Some (marked_paid now v i db)"
    unfolding conditional_status_update_def marked_paid_def
    by (subst update_payment_if_Some [OF d]) (use p in simp)
  then show "finalize_tx cfg seal now i PENDING v db =
      grant_period cfg seal now ((paid now v p)\<lparr>pay_status := PAID\<rparr>) (marked_paid now v i db)"
    by (simp add: finalize_tx_def get)
qed

section \<open>Properties\<close>

text \<open>
  C1: a settled payment grants exactly one period. When settlement of a pending payment succeeds, the
  payment row becomes paid and no other payment row changes; its subscription becomes active and its
  paid period ends the payment's number of days after the later of now and the running period end on a
  renewal, and after now on an activation; no other subscription changes except the source of a wildcard
  upgrade, which is cancelled and gives up its name; and settling the same payment again, at whatever
  time, changes nothing.
\<close>

theorem settlement_grants_one_period:
  assumes d: "distinct (map pay_id (payments db))" and p: "get_payment db i = Some p" "pay_status p = PENDING"
    and s: "get_subscription db (pay_subscription_id p) = Some s"
    and run: "finalize_tx cfg seal now i PENDING verified db = Inr db'"
  shows "get_payment db' j = (if j = i then Some ((paid now verified p)\<lparr>pay_status := PAID\<rparr>) else get_payment db j)
    \<and> (\<exists>s'. get_subscription db' (sub_id s) = Some s' \<and> sub_status s' = SubACTIVE \<and>
         current_period_end s' = Some ((if is_renewal p s then renewal_base now s else now) + days (period_days p)))
    \<and> (k \<noteq> sub_id s \<longrightarrow> get_subscription db' k =
         (if is_upgrade_initial s \<and> upgrade_from_subscription_id s = Some k
          then map_option (source_cancelled now) (get_subscription db k) else get_subscription db k))
    \<and> finalize_tx cfg seal later i PENDING verified' db' = Inr db'"
proof -
  let ?p = "(paid now verified p)\<lparr>pay_status := PAID\<rparr>"
  let ?db1 = "marked_paid now verified i db"
  note pend = finalize_tx_pending [OF d p]
  have grant: "grant_period cfg seal now ?p ?db1 = Inr db'" using run by (simp add: pend(1))
  have subs: "get_subscription ?db1 k = get_subscription db k" for k by (simp add: get_subscription_def marked_paid_def)
  then have s1: "get_subscription ?db1 (pay_subscription_id ?p) = Some s" using s by simp
  note res = grant_period_result [OF grant s1]
  from res have pays: "payments db' = payments ?db1" by blast
  then have get': "get_payment db' j = (if j = i then Some ?p else get_payment db j)" for j
    using pend(2) by (simp add: get_payment_def)
  have d': "distinct (map pay_id (payments db'))"
    unfolding pays marked_paid_def using d by (simp add: map_update_where)
  have again: "finalize_tx cfg seal later i PENDING verified' db' = Inr db'"
    by (rule finalize_tx_noop [OF d']) (simp add: get')
  from res obtain pool where "get_subscription db' (sub_id s) = Some (granted now ?p pool s)" by blast
  then show ?thesis using get' again res by (auto simp: subs)
qed

theorem settlement_grants_one_period_witness:
  "\<exists>db'. finalize_tx example_settings (\<lambda>_ _. None) (days 10) 1 PENDING None
      (empty_database\<lparr>payments := [sample_payment],
         subscriptions := [sample_subscription\<lparr>sub_status := SubACTIVE,
           assigned_ip := Some ''198.51.100.7'', assigned_port := Some 10000,
           current_period_end := Some (days 30)\<rparr>]\<rparr>) = Inr db' \<and>
    map_option current_period_end (get_subscription db' 1) = Some (Some (days 60)) \<and>
    finalize_tx example_settings (\<lambda>_ _. None) (days 11) 1 PENDING None db' = Inr db'"
proof -
  let ?s = "sample_subscription\<lparr>sub_status := SubACTIVE, assigned_ip := Some ''198.51.100.7'',
    assigned_port := Some 10000, current_period_end := Some (days 30)\<rparr>"
  let ?db = "empty_database\<lparr>payments := [sample_payment], subscriptions := [?s]\<rparr>"
  have d: "distinct (map pay_id (payments ?db))" by simp
  have p: "get_payment ?db 1 = Some sample_payment" "pay_status sample_payment = PENDING"
    by (simp_all add: get_payment_def get_row_def sample_payment_def)
  have s: "get_subscription ?db (pay_subscription_id sample_payment) = Some ?s"
    by (simp add: get_subscription_def get_row_def sample_payment_def sample_subscription_def)
  have "\<exists>db'. finalize_tx example_settings (\<lambda>_ _. None) (days 10) 1 PENDING None ?db = Inr db'"
    unfolding finalize_tx_pending [OF d p]
    by (simp add: marked_paid_def grant_period_def check_billing_snapshot_def snapshot_prices_def
        sample_payment_def paid_def get_subscription_def get_row_def sample_subscription_def
        billing_period_days_def MONTHLY_PERIOD_DAYS_def check_upgrade_snapshot_def is_upgrade_initial_def
        require_domain_payment_settlement_ready_def is_renewal_def billed_def renew_subscription_def
        renewed_def activate_def notify_settled_def get_user_def empty_database_def set_subscription_def
        credit_settled_payment_def Let_def)
  then obtain db' where run: "finalize_tx example_settings (\<lambda>_ _. None) (days 10) 1 PENDING None ?db = Inr db'"
    by blast
  have "is_renewal sample_payment ?s" by (simp add: is_renewal_def)
  moreover have "renewal_base (days 10) ?s + days 30 = days 60" "sub_id ?s = 1" "period_days sample_payment = 30"
    by (simp_all add: renewal_base_def clock_simps sample_subscription_def sample_payment_def)
  ultimately show ?thesis
    using settlement_grants_one_period [OF d p s run, of 1 1 "days 11" None] run by auto
qed


lemma ceil_div_bounds:
  assumes "0 < (d::int)"
  shows "n \<le> d * ((n + d - 1) div d)" "d * ((n + d - 1) div d) < n + d"
proof -
  let ?q = "(n + d - 1) div d" and ?r = "(n + d - 1) mod d"
  have e: "d * ?q + ?r = n + d - 1" by simp
  have "0 \<le> ?r" "?r < d" using assms by simp_all
  with e show "n \<le> d * ?q" "d * ?q < n + d" by linarith+
qed

text \<open>
  C33: stablecoin pricing. The charged amount covers the base price plus the configured basis points
  rounded up to the next satoshi (never more than one satoshi above the exact markup), reaches the
  provider minimum for Lightning Swap, and its markup is exactly what exceeds the base. A top-up to that
  minimum is never lost, whether the base is the service price or a discounted one: beyond the standard
  period, which is always credited, the extra days are the days the top-up buys at the undiscounted
  service rate, rounded up to a whole day, and without a top-up there are none.
\<close>

theorem stablecoin_pricing_fair:
  assumes base: "0 < base" and disc: "base \<le> service" and bps: "0 \<le> STABLECOIN_SWAP_MARKUP_BPS cfg" and std: "0 < standard"
    and run: "stablecoin_amounts cfg base provider = Inr (amount, markup, surcharge)"
  shows "markup = amount - base \<and> 0 \<le> surcharge \<and> surcharge \<le> markup \<and>
    base * STABLECOIN_SWAP_MARKUP_BPS cfg \<le> 10000 * surcharge \<and>
    10000 * surcharge < base * STABLECOIN_SWAP_MARKUP_BPS cfg + 10000 \<and>
    (provider = ''lightning_swap'' \<longrightarrow> STABLECOIN_SWAP_MIN_INVOICE_SATS cfg \<le> amount) \<and>
    (\<exists>n. stablecoin_credited_days amount base surcharge standard (Some service) = Inr n \<and> standard \<le> n \<and>
       (amount = base + surcharge \<longrightarrow> n = standard) \<and>
       (amount - base - surcharge) * standard \<le> (service + surcharge) * (n - standard) \<and>
       (base + surcharge < amount \<longrightarrow>
          (service + surcharge) * (n - standard) < (amount - base - surcharge) * standard + (service + surcharge)))"
proof -
  have sur: "surcharge = (base * STABLECOIN_SWAP_MARKUP_BPS cfg + 10000 - 1) div 10000"
    and amt: "amount = (if provider \<noteq> ''lightning_swap'' then base + surcharge
      else max (base + surcharge) (STABLECOIN_SWAP_MIN_INVOICE_SATS cfg))" and mk: "markup = amount - base"
    using run base by (auto simp: stablecoin_amounts_def stablecoin_markup_sats_def Let_def)
  note c = ceil_div_bounds [of 10000 "base * STABLECOIN_SWAP_MARKUP_BPS cfg", folded sur]
  have "0 \<le> base * STABLECOIN_SWAP_MARKUP_BPS cfg" using base bps by simp
  then have s0: "0 \<le> surcharge" using c by simp
  define D where "D = service + surcharge"
  define topup where "topup = amount - base - surcharge"
  have den: "0 < D" and ge: "0 \<le> topup" and pos: "0 < amount" using base disc s0 amt by (auto simp: D_def topup_def)
  note b = ceil_div_bounds [OF den, of "topup * standard"]
  have whole: "(amount * standard + D - 1) div D = standard + (topup * standard + D - 1) div D" if "service = base"
  proof -
    have "amount * standard + D - 1 = topup * standard + D - 1 + D * standard"
      by (simp add: that D_def topup_def algebra_simps)
    moreover have "(topup * standard + D - 1 + D * standard) div D = standard + (topup * standard + D - 1) div D"
      by (rule div_mult_self2) (use den in simp)
    ultimately show ?thesis by (rule trans [OF arg_cong [of _ _ "\<lambda>x. x div D"]])
  qed
  have days: "stablecoin_credited_days amount base surcharge standard (Some service) =
      Inr (if topup = 0 then standard else standard + (topup * standard + D - 1) div D)"
  proof (cases "service = base")
    case True
    then have "base + surcharge = D" by (simp add: D_def)
    then show ?thesis using den ge std pos whole True
      unfolding stablecoin_credited_days_def by (auto simp: Let_def topup_def [symmetric])
  next
    case False
    then show ?thesis using den ge std pos
      unfolding stablecoin_credited_days_def by (auto simp: Let_def D_def [symmetric] topup_def [symmetric])
  qed
  have "0 \<le> topup * standard" using ge std by simp
  then have "0 \<le> (topup * standard + D - 1) div D" using den by (intro pos_imp_zdiv_nonneg_iff [THEN iffD2]) auto
  note b = b this
  have top: "base + surcharge < amount \<longleftrightarrow> topup \<noteq> 0" "amount = base + surcharge \<longleftrightarrow> topup = 0" using ge by (auto simp: topup_def)
  show ?thesis unfolding top days D_def [symmetric] topup_def [symmetric]
    using c s0 mk ge amt b by (auto simp: topup_def)
qed

theorem stablecoin_pricing_fair_witness:
  "stablecoin_amounts example_settings 1000 ''lightning_swap'' = Inr (10000, 9000, 25) \<and>
   stablecoin_credited_days 10000 1000 25 30 (Some 1000) = Inr 293 \<and> (8975::int) * 30 \<le> 1025 * (293 - 30) \<and>
   stablecoin_credited_days 10000 1000 25 30 (Some 2000) = Inr 163 \<and> (8975::int) * 30 \<le> 2025 * (163 - 30)"
proof -
  have run: "stablecoin_amounts example_settings 1000 ''lightning_swap'' = Inr (10000, 9000, 25)"
    by (simp add: stablecoin_amounts_def stablecoin_markup_sats_def example_settings_def)
  have n: "stablecoin_credited_days 10000 1000 25 30 (Some 1000) = Inr 293"
    "stablecoin_credited_days 10000 1000 25 30 (Some 2000) = Inr 163"
    by (simp_all add: stablecoin_credited_days_def)
  have "0 \<le> STABLECOIN_SWAP_MARKUP_BPS example_settings" by (simp add: example_settings_def)
  note fair = stablecoin_pricing_fair [OF _ _ this _ run, where standard = 30]
  have "(8975::int) * 30 \<le> 1025 * (293 - 30)" using fair [of 1000] unfolding n by simp
  moreover have "(8975::int) * 30 \<le> 2025 * (163 - 30)" using fair [of 2000] unfolding n by simp
  ultimately show ?thesis using run n by blast
qed

end
