(* ===== verification/Payment_Wallets.thy ===== *)
theory Payment_Wallets
  imports Payment_Settlement
begin

text \<open>
  The payment operations that talk to a provider (\<^verbatim>\<open>services/payments.py\<close>): invoice creation
  and recovery, LNURL verification, automatic NWC and CLINK payments with their leases, and
  \<^verbatim>\<open>check_and_settle_payment\<close>. The adapters are a parameter: a \<open>gateway\<close> whose functions
  answer from the log of all calls made so far, so any behaviour of the providers over time is covered;
  \<open>None\<close> is an exception of the adapter. A computation maps the committed database and the log to a
  result and the new committed database and log; what an exception leaves uncommitted is dropped.
  Every operation reads the clock once (\<open>now\<close>).
\<close>

section \<open>Providers\<close>

datatype lightning_invoice_state = InvOPEN | InvACCEPTED | InvSETTLED | InvCANCELED
datatype nwc_payment_state = NwcSETTLED | NwcPENDING | NwcFAILED | NwcUNKNOWN
datatype nwc_lookup_state =
  LookSETTLED | LookPENDING | LookFAILED | LookNOT_FOUND | LookUNKNOWN | LookUNSUPPORTED
datatype clink_payment_state = ClinkSETTLED | ClinkPENDING

fun nwc_payment_value :: "nwc_payment_state \<Rightarrow> string" where
  "nwc_payment_value NwcSETTLED = ''settled''"
| "nwc_payment_value NwcPENDING = ''pending''"
| "nwc_payment_value NwcFAILED = ''failed''"
| "nwc_payment_value NwcUNKNOWN = ''unknown''"

fun nwc_lookup_value :: "nwc_lookup_state \<Rightarrow> string" where
  "nwc_lookup_value LookSETTLED = ''settled''"
| "nwc_lookup_value LookPENDING = ''pending''"
| "nwc_lookup_value LookFAILED = ''failed''"
| "nwc_lookup_value LookNOT_FOUND = ''not_found''"
| "nwc_lookup_value LookUNKNOWN = ''unknown''"
| "nwc_lookup_value LookUNSUPPORTED = ''unsupported''"

fun clink_payment_value :: "clink_payment_state \<Rightarrow> string" where
  "clink_payment_value ClinkSETTLED = ''settled''"
| "clink_payment_value ClinkPENDING = ''pending''"

record lightning_invoice =
  inv_request :: string
  inv_hash :: string
  inv_expires_in :: int

record lnurl_invoice =
  lnurl_request :: string
  lnurl_hash :: string
  lnurl_verify :: string
  lnurl_meta :: string
  lnurl_expires :: time

record nwc_pay_result =
  nwc_pay_state :: nwc_payment_state
  nwc_pay_preimage :: "string option"
  nwc_pay_fees :: "int option"

record nwc_lookup_result =
  look_state :: nwc_lookup_state
  look_hash :: "string option"
  look_preimage :: "string option"
  look_fees :: "int option"

record clink_pay_result =
  clink_pay_state :: clink_payment_state
  clink_pay_preimage :: "string option"

record wallet_error =
  err_code :: string
  err_retryable :: bool
  err_wallet_rejection :: bool

text \<open>One constructor per adapter operation, with the payment it is made for and its arguments.\<close>

datatype call =
    LndLookup int string int string
  | LndCreate int int string string int
  | LndState int string
  | LndPaid int string
  | LnurlCreate int int
  | LnurlState int string string string
  | NwcLookup int string string
  | NwcPay int string string
  | ClinkPay int string string int billing_term

record gateway =
  lnd_lookup :: "call list \<Rightarrow> call \<Rightarrow> lightning_invoice option option"
  lnd_create :: "call list \<Rightarrow> call \<Rightarrow> lightning_invoice option"
  lnd_state :: "call list \<Rightarrow> call \<Rightarrow> lightning_invoice_state option"
  lnd_paid :: "call list \<Rightarrow> call \<Rightarrow> bool option"
  lnurl_create :: "call list \<Rightarrow> call \<Rightarrow> lnurl_invoice option"
  lnurl_state :: "call list \<Rightarrow> call \<Rightarrow> lightning_invoice_state option"
  nwc_lookup :: "call list \<Rightarrow> call \<Rightarrow> wallet_error + nwc_lookup_result"
  nwc_pay :: "call list \<Rightarrow> call \<Rightarrow> wallet_error + nwc_pay_result"
  clink_pay :: "call list \<Rightarrow> call \<Rightarrow> wallet_error + clink_pay_result"
  invoice_hmac :: "string \<Rightarrow> string option"
  sha256_hex :: "string \<Rightarrow> string"
  preimage_digest :: "string \<Rightarrow> string option"
  decrypt :: "string \<Rightarrow> string \<times> string \<Rightarrow> string option"
  seal_identity :: sealer
  invoice_uuid :: string
  nwc_token :: string
  clink_token :: string

record world =
  wdb :: database
  calls :: "call list"

type_synonym 'a comp = "world \<Rightarrow> (error + 'a) \<times> world"

definition ask :: "(call list \<Rightarrow> call \<Rightarrow> 'r) \<Rightarrow> call \<Rightarrow> world \<Rightarrow> 'r \<times> world" where
  "ask f c w = (f (calls w) c, w\<lparr>calls := calls w @ [c]\<rparr>)"

definition raise :: "error \<Rightarrow> 'a comp" where
  "raise e w = (Inl e, w)"

definition return :: "'a \<Rightarrow> 'a comp" where
  "return x w = (Inr x, w)"

definition andthen :: "'a comp \<Rightarrow> ('a \<Rightarrow> 'b comp) \<Rightarrow> 'b comp" where
  "andthen m k w = (case m w of (Inl e, w') \<Rightarrow> (Inl e, w') | (Inr x, w') \<Rightarrow> k x w')"

definition reload_payment :: "int \<Rightarrow> payment comp" where
  "reload_payment i w =
     (case get_payment (wdb w) i of
        Some p \<Rightarrow> (Inr p, w)
      | None \<Rightarrow> (Inl (RuntimeError ''payment disappeared''), w))"

text \<open>Commit a transaction that cannot fail, or one that may, and reload the payment.\<close>

definition commit :: "(database \<Rightarrow> database) \<Rightarrow> int \<Rightarrow> payment comp" where
  "commit f i w = reload_payment i (w\<lparr>wdb := f (wdb w)\<rparr>)"

definition commit_or_raise :: "(database \<Rightarrow> error + database) \<Rightarrow> int \<Rightarrow> payment comp" where
  "commit_or_raise f i w =
     (case f (wdb w) of Inl e \<Rightarrow> (Inl e, w) | Inr db \<Rightarrow> reload_payment i (w\<lparr>wdb := db\<rparr>))"

definition uses_lnurl_adapter :: "settings \<Rightarrow> bool" where
  "uses_lnurl_adapter cfg = (str_lower (PAYMENT_LIGHTNING_ADAPTER cfg) = ''lnurl'')"

definition is_lnurl :: "payment \<Rightarrow> bool" where
  "is_lnurl p = (invoice_provider p = Some ''lnurl'')"

section \<open>Invoices\<close>

fun product_value :: "product_type \<Rightarrow> string" where
  "product_value IP = ''ip''" | "product_value PORT = ''port''" | "product_value RELAY = ''relay''"

definition lightning_memo :: "payment \<Rightarrow> subscription \<Rightarrow> string" where
  "lightning_memo p sub =
     ''Blindport subscription '' @ sub_public_id sub @
     (if pay_method p = NWC then '' NWC auto-pay''
      else if pay_method p = STABLECOIN_SWAP then '' stablecoin swap''
      else '' '' @ product_value (product sub))"

definition invoice_preimage :: "gateway \<Rightarrow> payment \<Rightarrow> error + string" where
  "invoice_preimage gw p =
     (if \<not> nonempty (invoice_idempotency_key p)
      then Inl (RuntimeError ''Lightning payment has no durable invoice identity'')
      else case invoice_hmac gw (the (invoice_idempotency_key p)) of
        None \<Rightarrow> Inl (RuntimeError ''Lightning payment has an invalid invoice identity'')
      | Some preimage \<Rightarrow> Inr preimage)"

text \<open>\<^verbatim>\<open>min(configured, invoice_expiry or configured)\<close>\<close>

definition bounded_by :: "int \<Rightarrow> int option \<Rightarrow> int" where
  "bounded_by configured limit =
     (case limit of Some l \<Rightarrow> if l = 0 then configured else min configured l | None \<Rightarrow> configured)"

definition stage_lightning_invoice ::
  "settings \<Rightarrow> gateway \<Rightarrow> time \<Rightarrow> payment \<Rightarrow> time option \<Rightarrow> int option \<Rightarrow> error + payment" where
  "stage_lightning_invoice cfg gw now p deadline invoice_expiry =
     (let configured = (if pay_method p = STABLECOIN_SWAP then STABLECOIN_SWAP_INVOICE_EXPIRY_SECONDS cfg
                        else if uses_lnurl_adapter cfg then LNURL_CHECKOUT_SECONDS cfg
                        else LND_INVOICE_EXPIRY_SECONDS cfg);
          expires = local_expiry now deadline (bounded_by configured invoice_expiry);
          p1 = p\<lparr>invoice_idempotency_key := Some (invoice_uuid gw)\<rparr>
      in if uses_lnurl_adapter cfg
         then Inr (p1\<lparr>invoice_provider := Some ''lnurl'', expires_at := Some expires\<rparr>)
         else case invoice_preimage gw p1 of
           Inl e \<Rightarrow> Inl e
         | Inr preimage \<Rightarrow>
             Inr (p1\<lparr>payment_hash := Some (sha256_hex gw preimage), expires_at := Some expires\<rparr>))"

definition bind_invoice_tx :: "payment \<Rightarrow> lightning_invoice \<Rightarrow> time \<Rightarrow> database \<Rightarrow> database" where
  "bind_invoice_tx p iv expires db =
     (case update_payment_if (pay_id p)
             (\<lambda>r. pay_status r = PENDING \<and> invoice r = None \<and> payment_hash r = Some (inv_hash iv))
             (\<lambda>r. r\<lparr>invoice := Some (inv_request iv), expires_at := Some expires\<rparr>) db of
        Some db' \<Rightarrow> db' | None \<Rightarrow> db)"

definition bind_invoice :: "settings \<Rightarrow> time \<Rightarrow> payment \<Rightarrow> lightning_invoice \<Rightarrow> payment comp" where
  "bind_invoice cfg now p iv w =
     (if Some (inv_hash iv) \<noteq> payment_hash p
      then raise (RuntimeError ''provider invoice hash does not match payment outbox'') w
      else case get_subscription (wdb w) (pay_subscription_id p) of
        None \<Rightarrow> raise (RuntimeError ''payment subscription disappeared'') w
      | Some sub \<Rightarrow>
          let provider_deadline = now + seconds (inv_expires_in iv);
              expires = (case payment_eligibility_deadline cfg sub of
                           Some d \<Rightarrow> min provider_deadline d | None \<Rightarrow> provider_deadline)
          in commit (bind_invoice_tx p iv expires) (pay_id p) w)"

definition claim_lnurl_creation :: "time \<Rightarrow> int \<Rightarrow> database \<Rightarrow> database option" where
  "claim_lnurl_creation now i =
     update_payment_if i (\<lambda>r. pay_status r = PENDING \<and> invoice r = None \<and> lnurl_attempted_at r = None)
       (\<lambda>r. r\<lparr>lnurl_attempted_at := Some now\<rparr>)"

definition store_lnurl_invoice :: "time \<Rightarrow> int \<Rightarrow> lnurl_invoice \<Rightarrow> database \<Rightarrow> database" where
  "store_lnurl_invoice deadline i iv db =
     (case update_payment_if i (\<lambda>r. invoice r = None \<and> invoice_provider r = Some ''lnurl'')
             (\<lambda>r. r\<lparr>invoice := Some (lnurl_request iv), payment_hash := Some (lnurl_hash iv),
                    lnurl_verify_url := Some (lnurl_verify iv), lnurl_metadata := Some (lnurl_meta iv),
                    invoice_expires_at := Some (lnurl_expires iv),
                    expires_at := Some (min deadline (lnurl_expires iv))\<rparr>) db of
        Some db' \<Rightarrow> db' | None \<Rightarrow> db)"

definition ensure_lnurl_invoice :: "gateway \<Rightarrow> time \<Rightarrow> payment \<Rightarrow> payment comp" where
  "ensure_lnurl_invoice gw now p w =
     (case expires_at p of
        None \<Rightarrow> raise (PaymentProviderError ''LNURL payment has no checkout deadline'') w
      | Some deadline \<Rightarrow>
          if deadline \<le> now then commit (expire_payment now p) (pay_id p) w
          else case claim_lnurl_creation now (pay_id p) (wdb w) of
            None \<Rightarrow>
              commit (set_payment (pay_id p) (\<lambda>r. r\<lparr>lnurl_last_checked_at := Some now\<rparr>)) (pay_id p) w
          | Some db1 \<Rightarrow>
              (case ask (lnurl_create gw) (LnurlCreate (pay_id p) (amount_sats p)) (w\<lparr>wdb := db1\<rparr>) of
                 (None, w2) \<Rightarrow>
                   raise (PaymentProviderError ''LNURL invoice creation failed; this attempt will not be retried'') w2
               | (Some iv, w2) \<Rightarrow>
                   andthen (commit (store_lnurl_invoice deadline (pay_id p) iv) (pay_id p))
                     (\<lambda>q. if (case expires_at q of Some e \<Rightarrow> e \<le> now | None \<Rightarrow> False) \<and> pay_status q = PENDING
                          then commit (expire_payment now q) (pay_id p) else return q) w2))"

definition is_lnd_backed :: "payment_method \<Rightarrow> bool" where
  "is_lnd_backed m = (m = LIGHTNING \<or> m = NWC \<or> m = CLINK \<or> m = STABLECOIN_SWAP)"

definition ensure_lnd_invoice :: "settings \<Rightarrow> gateway \<Rightarrow> time \<Rightarrow> payment \<Rightarrow> payment comp" where
  "ensure_lnd_invoice cfg gw now p w =
     (case get_subscription (wdb w) (pay_subscription_id p) of
        None \<Rightarrow> raise (RuntimeError ''payment subscription disappeared'') w
      | Some sub \<Rightarrow>
          (case invoice_preimage gw p of
             Inl e \<Rightarrow> raise e w
           | Inr preimage \<Rightarrow>
               let expected_hash = sha256_hex gw preimage;
                   memo = lightning_memo p sub;
                   remaining = (case expires_at p of Some d \<Rightarrow> floor_seconds (d - now) | None \<Rightarrow> 0)
               in if payment_hash p \<noteq> Some expected_hash
                  then raise (RuntimeError ''Lightning payment hash does not match durable invoice identity'') w
                  else if remaining \<le> 0 then
                    (case ask (lnd_lookup gw) (LndLookup (pay_id p) expected_hash (amount_sats p) memo) w of
                       (None, w2) \<Rightarrow>
                         raise (PaymentProviderError ''Lightning invoice provider is unavailable'') w2
                     | (Some None, w2) \<Rightarrow> commit (expire_payment now p) (pay_id p) w2
                     | (Some (Some iv), w2) \<Rightarrow> bind_invoice cfg now p iv w2)
                  else
                    (case ask (lnd_create gw)
                            (LndCreate (pay_id p) (amount_sats p) memo preimage remaining) w of
                       (None, w2) \<Rightarrow>
                         raise (PaymentProviderError ''Lightning invoice provider is unavailable'') w2
                     | (Some iv, w2) \<Rightarrow> bind_invoice cfg now p iv w2)))"

definition ensure_lightning_invoice :: "settings \<Rightarrow> gateway \<Rightarrow> time \<Rightarrow> payment \<Rightarrow> payment comp" where
  "ensure_lightning_invoice cfg gw now p w =
     (if \<not> is_lnd_backed (pay_method p) then return p w
      else andthen (reload_payment (pay_id p))
        (\<lambda>q. if pay_status q \<noteq> PENDING \<or> nonempty (invoice q) then return q
             else if is_lnurl q then ensure_lnurl_invoice gw now q
             else if uses_lnurl_adapter cfg
             then raise (PaymentProviderError ''legacy invoices must be reconciled with their original LND provider'')
             else ensure_lnd_invoice cfg gw now q) w)"

definition lnd_invoice_state :: "settings \<Rightarrow> gateway \<Rightarrow> payment \<Rightarrow> lightning_invoice_state comp" where
  "lnd_invoice_state cfg gw p w =
     (let unavailable = PaymentProviderError ''Lightning invoice provider is unavailable'' in
      if \<not> nonempty (payment_hash p)
      then raise (RuntimeError ''LND-backed payment has no payment hash'') w
      else if is_lnurl p then
        (if \<not> nonempty (invoice p) \<or> \<not> nonempty (lnurl_verify_url p) then raise unavailable w
         else case ask (lnurl_state gw) (LnurlState (pay_id p) (the (invoice p)) (the (payment_hash p))
                      (the (lnurl_verify_url p))) w of
           (None, w2) \<Rightarrow> raise unavailable w2 | (Some st, w2) \<Rightarrow> return st w2)
      else if uses_lnurl_adapter cfg then raise unavailable w
      else case ask (lnd_state gw) (LndState (pay_id p) (the (payment_hash p))) w of
        (None, w2) \<Rightarrow> raise unavailable w2 | (Some st, w2) \<Rightarrow> return st w2)"

section \<open>Automatic NWC payments\<close>

definition DEFINITIVE_PAY_REJECTION_CODES :: "string list" where
  "DEFINITIVE_PAY_REJECTION_CODES =
     [''expired'', ''insufficient_balance'', ''payment_failed'', ''quota_exceeded'', ''restricted'',
      ''unauthorized'', ''unsupported_capability'', ''unsupported_encryption'']"

definition RETRY_BLOCKING_ERROR_CODES :: "string list" where
  "RETRY_BLOCKING_ERROR_CODES =
     [''invalid_preimage'', ''payment_hash_mismatch'', ''preimage_mismatch'', ''settlement_unconfirmed'']"

definition CLINK_DEFINITIVE_REJECTION_CODES :: "string list" where
  "CLINK_DEFINITIVE_REJECTION_CODES =
     [''denied'', ''expired'', ''invalid_amount'', ''invalid_request'', ''rate_limited'', ''temporary_failure'']"

definition decrypt_nwc_credential :: "gateway \<Rightarrow> user \<Rightarrow> int option \<Rightarrow> string option" where
  "decrypt_nwc_credential gw user expected =
     (if expected \<noteq> None \<and> expected \<noteq> Some (nwc_generation user) then None
      else if \<not> has_nwc user then None
      else case nwc_credential user of
        None \<Rightarrow> None | Some c \<Rightarrow> decrypt gw (user_public_id user) c)"

definition decrypt_clink_credential :: "gateway \<Rightarrow> user \<Rightarrow> int option \<Rightarrow> string option" where
  "decrypt_clink_credential gw user expected =
     (if expected \<noteq> None \<and> expected \<noteq> Some (clink_generation user) then None
      else if \<not> has_clink user then None
      else case clink_credential user of
        None \<Rightarrow> None | Some c \<Rightarrow> decrypt gw (user_public_id user) c)"

definition free_lease :: "time \<Rightarrow> time option \<Rightarrow> bool" where
  "free_lease now until = (case until of None \<Rightarrow> True | Some t \<Rightarrow> t \<le> now)"

text \<open>
  The columns a verified wallet answer assigns on the session object; the next statement of the session
  flushes them to the row.
\<close>

definition nwc_flushed :: "payment \<Rightarrow> payment \<Rightarrow> payment" where
  "nwc_flushed p r = r\<lparr>nwc := (nwc r)\<lparr>nwc_last_lookup_at := nwc_last_lookup_at (nwc p),
     nwc_preimage_hash := nwc_preimage_hash (nwc p), nwc_fees_paid_msats := nwc_fees_paid_msats (nwc p)\<rparr>\<rparr>"

definition same_nwc_lease :: "payment \<Rightarrow> payment \<Rightarrow> bool" where
  "same_nwc_lease p r = (nwc_lease_token (nwc r) = nwc_lease_token (nwc p))"

definition save_nwc_observation_tx ::
  "payment \<Rightarrow> string \<Rightarrow> string option \<Rightarrow> database \<Rightarrow> database" where
  "save_nwc_observation_tx p state code db =
     (case update_payment_if (pay_id p) (\<lambda>r. pay_status r = PENDING \<and> same_nwc_lease p r)
             (\<lambda>r. let r1 = nwc_flushed p r; c = (nwc r1)\<lparr>nwc_state := Some state, nwc_error_code := code\<rparr>
                  in r1\<lparr>nwc := (if nwc_lease_token (nwc p) = None then c
                               else c\<lparr>nwc_lease_until := None, nwc_lease_token := None\<rparr>)\<rparr>) db of
        Some db' \<Rightarrow> db' | None \<Rightarrow> db)"

definition save_nwc_observation :: "payment \<Rightarrow> string \<Rightarrow> string option \<Rightarrow> payment comp" where
  "save_nwc_observation p state code = commit (save_nwc_observation_tx p state code) (pay_id p)"

definition claim_nwc_lease :: "settings \<Rightarrow> gateway \<Rightarrow> time \<Rightarrow> int \<Rightarrow> database \<Rightarrow> database option" where
  "claim_nwc_lease cfg gw now i =
     update_payment_if i (\<lambda>r. pay_status r = PENDING \<and> free_lease now (nwc_lease_until (nwc r)))
       (\<lambda>r. r\<lparr>nwc := (nwc r)\<lparr>nwc_lease_until := Some (now + seconds (NWC_PAYMENT_LEASE_SECONDS cfg)),
              nwc_lease_token := Some (nwc_token gw)\<rparr>\<rparr>)"

definition record_nwc_send_attempt :: "settings \<Rightarrow> time \<Rightarrow> payment \<Rightarrow> database \<Rightarrow> database option" where
  "record_nwc_send_attempt cfg now p db =
     (if nwc_lease_token (nwc p) = None then None
      else update_payment_if (pay_id p)
        (\<lambda>r. pay_status r = PENDING \<and> same_nwc_lease p r \<and> \<not> free_lease now (nwc_lease_until (nwc r)) \<and>
             free_lease now (nwc_next_attempt_at (nwc r)))
        (\<lambda>r. let r1 = nwc_flushed p r in
             r1\<lparr>nwc := (nwc r1)\<lparr>nwc_attempt_count := nwc_attempt_count (nwc r) + 1,
               nwc_first_attempt_at :=
                 (case nwc_first_attempt_at (nwc r) of None \<Rightarrow> Some now | Some t \<Rightarrow> Some t),
               nwc_last_attempt_at := Some now,
               nwc_next_attempt_at := Some (now + seconds (NWC_RETRY_BASE_SECONDS cfg *
                 2 ^ nwc_attempt_count (nwc p))),
               nwc_state := Some ''sending'', nwc_error_code := None\<rparr>\<rparr>) db)"

text \<open>Settlement of a payment that needs no LNURL proof.\<close>

definition finalize_direct :: "settings \<Rightarrow> gateway \<Rightarrow> time \<Rightarrow> payment \<Rightarrow> payment comp" where
  "finalize_direct cfg gw now p =
     commit_or_raise (\<lambda>db.
       case get_payment db (pay_id p) of
         None \<Rightarrow> Inr db
       | Some r \<Rightarrow>
           if pay_status r \<noteq> PENDING then Inr db
           else finalize_tx cfg (seal_identity gw) now (pay_id p) PENDING None
                  (set_payment (pay_id p) (nwc_flushed p) db)) (pay_id p)"

definition fail_nwc_tx ::
  "settings \<Rightarrow> gateway \<Rightarrow> time \<Rightarrow> payment \<Rightarrow> string \<Rightarrow> bool \<Rightarrow> database \<Rightarrow> error + database" where
  "fail_nwc_tx cfg gw now p code require_lease db =
     (case update_payment_if (pay_id p)
             (\<lambda>r. pay_status r = PENDING \<and> (require_lease \<longrightarrow> same_nwc_lease p r))
             (\<lambda>r. let r1 = nwc_flushed p r in
                  r1\<lparr>pay_status := FAILED,
                     nwc := (nwc r1)\<lparr>nwc_state := Some ''failed'', nwc_error_code := Some code,
                       nwc_lease_until := None, nwc_lease_token := None\<rparr>\<rparr>) db of
        None \<Rightarrow> Inr db
      | Some db1 \<Rightarrow> drop_automatic_renewal cfg (seal_identity gw) now p db1)"

definition release_failed_nwc_payment ::
  "settings \<Rightarrow> gateway \<Rightarrow> time \<Rightarrow> (payment \<Rightarrow> payment comp) \<Rightarrow> payment \<Rightarrow> string \<Rightarrow> bool \<Rightarrow> payment comp" where
  "release_failed_nwc_payment cfg gw now fin p code require_lease =
     (let fail = (if require_lease \<and> nwc_lease_token (nwc p) = None then reload_payment (pay_id p)
                  else commit_or_raise (fail_nwc_tx cfg gw now p code require_lease) (pay_id p))
      in if nonempty (payment_hash p) then
           andthen (lnd_invoice_state cfg gw p)
             (\<lambda>st. if st = InvSETTLED then fin p
                   else if st = InvACCEPTED then save_nwc_observation p ''pending'' None
                   else fail)
         else fail)"

definition payment_user :: "payment \<Rightarrow> user comp" where
  "payment_user p w =
     (case get_subscription (wdb w) (pay_subscription_id p) of
        None \<Rightarrow> raise (RuntimeError ''payment account disappeared'') w
      | Some sub \<Rightarrow>
          (case get_user (wdb w) (sub_user_id sub) of
             None \<Rightarrow> raise (RuntimeError ''payment account disappeared'') w
           | Some user \<Rightarrow> return user w))"

text \<open>The wallet's answer checked against the payment hash: an error code, or the annotated payment.\<close>

definition verify_nwc_result ::
  "gateway \<Rightarrow> payment \<Rightarrow> string option \<Rightarrow> string option \<Rightarrow> int option \<Rightarrow> string + payment" where
  "verify_nwc_result gw p returned preimage fees =
     (if returned \<noteq> None \<and> returned \<noteq> payment_hash p then Inl ''payment_hash_mismatch''
      else
        let annotate = (\<lambda>q. case fees of None \<Rightarrow> q
                           | Some f \<Rightarrow> q\<lparr>nwc := (nwc q)\<lparr>nwc_fees_paid_msats := Some f\<rparr>\<rparr>)
        in case preimage of
          None \<Rightarrow> Inr (annotate p)
        | Some pre \<Rightarrow>
            (case preimage_digest gw pre of
               None \<Rightarrow> Inl ''invalid_preimage''
             | Some h \<Rightarrow>
                 if Some h \<noteq> payment_hash p then Inl ''preimage_mismatch''
                 else Inr (annotate (p\<lparr>nwc := (nwc p)\<lparr>nwc_preimage_hash := Some h\<rparr>\<rparr>))))"

definition settle_if_lnd_settled ::
  "settings \<Rightarrow> gateway \<Rightarrow> (payment \<Rightarrow> payment comp) \<Rightarrow> payment \<Rightarrow> payment comp" where
  "settle_if_lnd_settled cfg gw fin p =
     andthen (lnd_invoice_state cfg gw p) (\<lambda>st. if st = InvSETTLED then fin p else return p)"

definition nwc_send ::
  "settings \<Rightarrow> gateway \<Rightarrow> time \<Rightarrow> (payment \<Rightarrow> payment comp) \<Rightarrow> string \<Rightarrow> payment \<Rightarrow> payment comp" where
  "nwc_send cfg gw now fin uri p w =
     (case record_nwc_send_attempt cfg now p (wdb w) of
        None \<Rightarrow> reload_payment (pay_id p) w
      | Some db1 \<Rightarrow>
          andthen (reload_payment (pay_id p))
            (\<lambda>q w1.
               case ask (nwc_pay gw) (NwcPay (pay_id q) uri (the (invoice q))) w1 of
                 (Inl err, w2) \<Rightarrow>
                   if \<not> err_retryable err \<and> err_code err \<in> set DEFINITIVE_PAY_REJECTION_CODES
                   then release_failed_nwc_payment cfg gw now fin q (err_code err) True w2
                   else andthen (save_nwc_observation q ''unknown'' (Some (err_code err)))
                     (\<lambda>_. raise (PaymentProviderError ''NWC payment provider is unavailable'')) w2
               | (Inr res, w2) \<Rightarrow>
                   (case verify_nwc_result gw q None (nwc_pay_preimage res) (nwc_pay_fees res) of
                      Inl code \<Rightarrow> save_nwc_observation q ''unknown'' (Some code) w2
                    | Inr q1 \<Rightarrow>
                        andthen (save_nwc_observation q1 (nwc_payment_value (nwc_pay_state res)) None)
                          (settle_if_lnd_settled cfg gw fin) w2))
            (w\<lparr>wdb := db1\<rparr>))"

definition nwc_retry_blocked :: "payment \<Rightarrow> bool" where
  "nwc_retry_blocked p =
     (nwc_state (nwc p) = Some ''settled'' \<or>
      nwc_preimage_hash (nwc p) = payment_hash p \<or>
      nwc_error_code (nwc p) \<in> Some ` set RETRY_BLOCKING_ERROR_CODES)"

text \<open>A payment that was sent before is looked up in the wallet before any further attempt.\<close>

definition nwc_lookup_then_send ::
  "settings \<Rightarrow> gateway \<Rightarrow> time \<Rightarrow> (payment \<Rightarrow> payment comp) \<Rightarrow> string \<Rightarrow> payment \<Rightarrow> payment comp" where
  "nwc_lookup_then_send cfg gw now fin uri p w =
     (let seen = (\<lambda>q. q\<lparr>nwc := (nwc q)\<lparr>nwc_last_lookup_at := Some now\<rparr>\<rparr>) in
      case ask (nwc_lookup gw) (NwcLookup (pay_id p) uri (the (payment_hash p))) w of
        (Inl err, w1) \<Rightarrow>
          andthen (save_nwc_observation (seen p) ''unknown'' (Some (err_code err)))
            (\<lambda>_. raise (PaymentProviderError ''NWC payment lookup is unavailable'')) w1
      | (Inr look, w1) \<Rightarrow>
          (case verify_nwc_result gw (seen p) (look_hash look) (look_preimage look) (look_fees look) of
             Inl code \<Rightarrow> save_nwc_observation (seen p) ''unknown'' (Some code) w1
           | Inr q \<Rightarrow>
               if look_state look = LookSETTLED \<or> look_state look = LookPENDING then
                 andthen (save_nwc_observation q (nwc_lookup_value (look_state look)) None)
                   (settle_if_lnd_settled cfg gw fin) w1
               else if look_state look = LookUNKNOWN \<or> look_state look = LookUNSUPPORTED
               then save_nwc_observation q (nwc_lookup_value (look_state look)) None w1
               else if nwc_retry_blocked p
               then save_nwc_observation q ''unknown'' (Some ''settlement_unconfirmed'') w1
               else if (case nwc_next_attempt_at (nwc q) of Some t \<Rightarrow> t > now | None \<Rightarrow> False)
               then save_nwc_observation q (nwc_lookup_value (look_state look)) None w1
               else if nwc_attempt_count (nwc q) \<ge> NWC_MAX_PAYMENT_ATTEMPTS cfg
               then release_failed_nwc_payment cfg gw now fin q ''attempts_exhausted'' True w1
               else nwc_send cfg gw now fin uri q w1))"

definition uses_nwc :: "payment \<Rightarrow> bool" where
  "uses_nwc p = (pay_method p = NWC \<or> (pay_method p = CLINK \<and> clink_nwc_fallback (clink p)))"

definition nwc_with_lease ::
  "settings \<Rightarrow> gateway \<Rightarrow> time \<Rightarrow> (payment \<Rightarrow> payment comp) \<Rightarrow> payment \<Rightarrow> payment comp" where
  "nwc_with_lease cfg gw now fin p =
     andthen (payment_user p)
       (\<lambda>user.
          case decrypt_nwc_credential gw user (nwc_credential_generation (nwc p)) of
            None \<Rightarrow>
              if nwc_attempt_count (nwc p) = 0
              then release_failed_nwc_payment cfg gw now fin p ''credential_unavailable'' True
              else save_nwc_observation p ''unknown'' (Some ''credential_unavailable'')
          | Some uri \<Rightarrow>
              if nwc_attempt_count (nwc p) > 0 then nwc_lookup_then_send cfg gw now fin uri p
              else nwc_send cfg gw now fin uri p)"

definition looked_up_recently :: "settings \<Rightarrow> time \<Rightarrow> payment \<Rightarrow> bool" where
  "looked_up_recently cfg now p =
     (nwc_attempt_count (nwc p) > 0 \<and>
      (case nwc_last_lookup_at (nwc p) of
         None \<Rightarrow> False | Some t \<Rightarrow> t + seconds (NWC_LOOKUP_INTERVAL_SECONDS cfg) > now))"

definition reconcile_nwc_payment ::
  "settings \<Rightarrow> gateway \<Rightarrow> time \<Rightarrow> (payment \<Rightarrow> payment comp) \<Rightarrow> payment \<Rightarrow> payment comp" where
  "reconcile_nwc_payment cfg gw now fin p =
     (if \<not> uses_nwc p \<or> pay_status p \<noteq> PENDING then return p
      else if \<not> nonempty (invoice p) \<or> \<not> nonempty (payment_hash p) then return p
      else andthen (lnd_invoice_state cfg gw p)
        (\<lambda>st. if st = InvSETTLED then fin p
              else if st = InvCANCELED
              then release_failed_nwc_payment cfg gw now fin p ''lnd_invoice_canceled'' False
              else if st = InvACCEPTED then save_nwc_observation p ''pending'' None
              else if looked_up_recently cfg now p then reload_payment (pay_id p)
              else (\<lambda>w. case claim_nwc_lease cfg gw now (pay_id p) (wdb w) of
                          None \<Rightarrow> reload_payment (pay_id p) w
                        | Some db1 \<Rightarrow>
                            andthen (reload_payment (pay_id p)) (nwc_with_lease cfg gw now fin)
                              (w\<lparr>wdb := db1\<rparr>))))"

section \<open>Automatic CLINK payments\<close>

definition same_clink_lease :: "payment \<Rightarrow> payment \<Rightarrow> bool" where
  "same_clink_lease p r = (clink_lease_token (clink r) = clink_lease_token (clink p))"

definition save_clink_observation_tx ::
  "payment \<Rightarrow> string \<Rightarrow> string option \<Rightarrow> database \<Rightarrow> database" where
  "save_clink_observation_tx p state code db =
     (case update_payment_if (pay_id p) (\<lambda>r. pay_status r = PENDING \<and> same_clink_lease p r)
             (\<lambda>r. let c = (clink r)\<lparr>clink_state := Some state, clink_error_code := code,
                       clink_preimage_hash := clink_preimage_hash (clink p)\<rparr>
                  in r\<lparr>clink := (if clink_lease_token (clink p) = None then c
                               else c\<lparr>clink_lease_until := None, clink_lease_token := None\<rparr>)\<rparr>) db of
        Some db' \<Rightarrow> db' | None \<Rightarrow> db)"

definition save_clink_observation :: "payment \<Rightarrow> string \<Rightarrow> string option \<Rightarrow> payment comp" where
  "save_clink_observation p state code = commit (save_clink_observation_tx p state code) (pay_id p)"

definition claim_clink_lease :: "settings \<Rightarrow> gateway \<Rightarrow> time \<Rightarrow> int \<Rightarrow> database \<Rightarrow> database option" where
  "claim_clink_lease cfg gw now i =
     update_payment_if i (\<lambda>r. pay_status r = PENDING \<and> clink_attempt_count (clink r) = 0 \<and>
           free_lease now (clink_lease_until (clink r)))
       (\<lambda>r. r\<lparr>clink := (clink r)\<lparr>clink_lease_until := Some (now + seconds (CLINK_PAYMENT_LEASE_SECONDS cfg)),
              clink_lease_token := Some (clink_token gw)\<rparr>\<rparr>)"

definition record_clink_send_attempt :: "time \<Rightarrow> payment \<Rightarrow> database \<Rightarrow> database option" where
  "record_clink_send_attempt now p db =
     (if clink_lease_token (clink p) = None then None
      else update_payment_if (pay_id p)
        (\<lambda>r. pay_status r = PENDING \<and> clink_attempt_count (clink r) = 0 \<and> same_clink_lease p r \<and>
             \<not> free_lease now (clink_lease_until (clink r)))
        (\<lambda>r. r\<lparr>clink := (clink r)\<lparr>clink_attempt_count := 1, clink_attempted_at := Some now,
               clink_state := Some ''sending'', clink_error_code := None\<rparr>\<rparr>) db)"

definition fail_clink_tx ::
  "settings \<Rightarrow> gateway \<Rightarrow> time \<Rightarrow> payment \<Rightarrow> string \<Rightarrow> bool \<Rightarrow> database \<Rightarrow> error + database" where
  "fail_clink_tx cfg gw now p code require_lease db =
     (case update_payment_if (pay_id p)
             (\<lambda>r. pay_status r = PENDING \<and> (require_lease \<longrightarrow> same_clink_lease p r))
             (\<lambda>r. r\<lparr>pay_status := FAILED,
                  clink := (clink r)\<lparr>clink_state := Some ''failed'', clink_error_code := Some code,
                    clink_lease_until := None, clink_lease_token := None\<rparr>\<rparr>) db of
        None \<Rightarrow> Inr db
      | Some db1 \<Rightarrow> drop_automatic_renewal cfg (seal_identity gw) now p db1)"

definition release_failed_clink_payment ::
  "settings \<Rightarrow> gateway \<Rightarrow> time \<Rightarrow> (payment \<Rightarrow> payment comp) \<Rightarrow> payment \<Rightarrow> string \<Rightarrow> bool \<Rightarrow> payment comp" where
  "release_failed_clink_payment cfg gw now fin p code require_lease =
     (let fail = (if require_lease \<and> clink_lease_token (clink p) = None then reload_payment (pay_id p)
                  else commit_or_raise (fail_clink_tx cfg gw now p code require_lease) (pay_id p))
      in if nonempty (payment_hash p) then
           andthen (lnd_invoice_state cfg gw p)
             (\<lambda>st. if st = InvSETTLED then fin p
                   else if st = InvACCEPTED then save_clink_observation p ''pending'' None
                   else fail)
         else fail)"

definition verify_clink_result :: "gateway \<Rightarrow> payment \<Rightarrow> string option \<Rightarrow> string + payment" where
  "verify_clink_result gw p preimage =
     (case preimage of
        None \<Rightarrow> Inr p
      | Some pre \<Rightarrow>
          (case preimage_digest gw pre of
             None \<Rightarrow> Inl ''invalid_preimage''
           | Some h \<Rightarrow>
               if Some h \<noteq> payment_hash p then Inl ''preimage_mismatch''
               else Inr (p\<lparr>clink := (clink p)\<lparr>clink_preimage_hash := Some h\<rparr>\<rparr>)))"

definition clink_can_fallback_to_nwc :: "settings \<Rightarrow> user \<Rightarrow> payment \<Rightarrow> bool" where
  "clink_can_fallback_to_nwc cfg user p =
     (is_payment_method_enabled cfg NWC \<and> has_nwc user \<and>
      nwc_credential_generation (nwc p) = Some (nwc_generation user))"

definition start_fallback_tx :: "payment \<Rightarrow> string \<Rightarrow> database \<Rightarrow> database option" where
  "start_fallback_tx p code =
     update_payment_if (pay_id p)
       (\<lambda>r. pay_status r = PENDING \<and> \<not> clink_nwc_fallback (clink r) \<and> same_clink_lease p r)
       (\<lambda>r. r\<lparr>clink := (clink r)\<lparr>clink_state := Some ''failed'', clink_error_code := Some code,
              clink_nwc_fallback := True, clink_lease_until := None, clink_lease_token := None\<rparr>\<rparr>)"

definition start_nwc_fallback ::
  "settings \<Rightarrow> gateway \<Rightarrow> time \<Rightarrow> (payment \<Rightarrow> payment comp) \<Rightarrow> payment \<Rightarrow> user \<Rightarrow> string \<Rightarrow> payment comp" where
  "start_nwc_fallback cfg gw now fin p user code w =
     (if \<not> clink_can_fallback_to_nwc cfg user p
      then release_failed_clink_payment cfg gw now fin p code (clink_lease_token (clink p) \<noteq> None) w
      else case start_fallback_tx p code (wdb w) of
        None \<Rightarrow> reload_payment (pay_id p) w
      | Some db1 \<Rightarrow>
          andthen (reload_payment (pay_id p)) (reconcile_nwc_payment cfg gw now fin) (w\<lparr>wdb := db1\<rparr>))"

definition clink_send ::
  "settings \<Rightarrow> gateway \<Rightarrow> time \<Rightarrow> (payment \<Rightarrow> payment comp) \<Rightarrow> user \<Rightarrow> string \<Rightarrow> payment \<Rightarrow> payment comp" where
  "clink_send cfg gw now fin user ndebit p w =
     (case record_clink_send_attempt now p (wdb w) of
        None \<Rightarrow> reload_payment (pay_id p) w
      | Some db1 \<Rightarrow>
          andthen (reload_payment (pay_id p))
            (\<lambda>q w1.
               case ask (clink_pay gw)
                      (ClinkPay (pay_id q) ndebit (the (invoice q)) (amount_sats q) (pay_billing_term q)) w1 of
                 (Inl err, w2) \<Rightarrow>
                   if err_wallet_rejection err \<and> \<not> err_retryable err \<and>
                      err_code err \<in> set CLINK_DEFINITIVE_REJECTION_CODES
                   then start_nwc_fallback cfg gw now fin q user (err_code err) w2
                   else andthen (save_clink_observation q ''unknown'' (Some (err_code err)))
                     (\<lambda>_. raise (PaymentProviderError ''CLINK payment provider is unavailable'')) w2
               | (Inr res, w2) \<Rightarrow>
                   (case verify_clink_result gw q (clink_pay_preimage res) of
                      Inl code \<Rightarrow> save_clink_observation q ''unknown'' (Some code) w2
                    | Inr q1 \<Rightarrow>
                        andthen (save_clink_observation q1 (clink_payment_value (clink_pay_state res)) None)
                          (settle_if_lnd_settled cfg gw fin) w2))
            (w\<lparr>wdb := db1\<rparr>))"

definition clink_with_lease ::
  "settings \<Rightarrow> gateway \<Rightarrow> time \<Rightarrow> (payment \<Rightarrow> payment comp) \<Rightarrow> payment \<Rightarrow> payment comp" where
  "clink_with_lease cfg gw now fin p =
     andthen (payment_user p)
       (\<lambda>user.
          case decrypt_clink_credential gw user (clink_credential_generation (clink p)) of
            None \<Rightarrow> release_failed_clink_payment cfg gw now fin p ''credential_unavailable'' True
          | Some ndebit \<Rightarrow> clink_send cfg gw now fin user ndebit p)"

definition reconcile_clink_payment ::
  "settings \<Rightarrow> gateway \<Rightarrow> time \<Rightarrow> (payment \<Rightarrow> payment comp) \<Rightarrow> payment \<Rightarrow> payment comp" where
  "reconcile_clink_payment cfg gw now fin p =
     (if pay_method p \<noteq> CLINK \<or> pay_status p \<noteq> PENDING then return p
      else if \<not> nonempty (invoice p) \<or> \<not> nonempty (payment_hash p) then return p
      else andthen (lnd_invoice_state cfg gw p)
        (\<lambda>st. if st = InvSETTLED then fin p
              else if st = InvCANCELED
              then release_failed_clink_payment cfg gw now fin p ''lnd_invoice_canceled'' False
              else if st = InvACCEPTED then save_clink_observation p ''pending'' None
              else if clink_nwc_fallback (clink p) then reconcile_nwc_payment cfg gw now fin p
              else if clink_attempt_count (clink p) > 0 then reload_payment (pay_id p)
              else (\<lambda>w. case claim_clink_lease cfg gw now (pay_id p) (wdb w) of
                          None \<Rightarrow> reload_payment (pay_id p) w
                        | Some db1 \<Rightarrow>
                            andthen (reload_payment (pay_id p)) (clink_with_lease cfg gw now fin)
                              (w\<lparr>wdb := db1\<rparr>))))"

section \<open>LNURL verification and settlement\<close>

definition claim_lnurl_check :: "time \<Rightarrow> int \<Rightarrow> database \<Rightarrow> database option" where
  "claim_lnurl_check now i =
     update_payment_if i (\<lambda>r. settlement_verified_at r = None \<and>
         (case lnurl_last_checked_at r of None \<Rightarrow> True | Some t \<Rightarrow> t \<le> now - seconds 10))
       (\<lambda>r. r\<lparr>lnurl_last_checked_at := Some now\<rparr>)"

text \<open>A receipt that grants nothing is kept for the operator.\<close>

definition review_receipt :: "time \<Rightarrow> payment \<Rightarrow> database \<Rightarrow> database" where
  "review_receipt now p db =
     (let db1 = (if pay_status p = PENDING then expire_payment now p db else db)
      in db1\<lparr>payments := update_where (\<lambda>r. pay_id r = pay_id p \<and> pay_status r \<noteq> PAID)
             (\<lambda>r. r\<lparr>settlement_verified_at := Some now, settlement_review_required := True\<rparr>) (payments db1)\<rparr>)"

definition lnurl_settled :: "settings \<Rightarrow> gateway \<Rightarrow> time \<Rightarrow> payment \<Rightarrow> payment comp" where
  "lnurl_settled cfg gw now p w =
     (let review = commit (review_receipt now p) (pay_id p) in
      if pay_status p = PENDING \<and> (case expires_at p of Some d \<Rightarrow> d > now | None \<Rightarrow> False) then
        (case finalize_tx cfg (seal_identity gw) now (pay_id p) PENDING (Some now) (wdb w) of
           Inr db1 \<Rightarrow> reload_payment (pay_id p) (w\<lparr>wdb := db1\<rparr>)
         | Inl e \<Rightarrow> if is_value_error e then review w else raise e w)
      else review w)"

definition lnurl_unsettled ::
  "settings \<Rightarrow> gateway \<Rightarrow> time \<Rightarrow> (payment \<Rightarrow> payment comp) \<Rightarrow> payment \<Rightarrow> payment comp" where
  "lnurl_unsettled cfg gw now fin p =
     (if pay_status p = PENDING \<and> (case expires_at p of Some d \<Rightarrow> d \<le> now | None \<Rightarrow> False)
      then commit (expire_payment now p) (pay_id p)
      else if pay_status p = PENDING \<and> pay_method p = NWC \<and> is_payment_method_enabled cfg NWC
      then reconcile_nwc_payment cfg gw now fin p
      else if pay_status p = PENDING \<and> pay_method p = CLINK \<and> is_payment_method_enabled cfg CLINK
      then reconcile_clink_payment cfg gw now fin p
      else return p)"

definition verify_lnurl_payment ::
  "settings \<Rightarrow> gateway \<Rightarrow> time \<Rightarrow> (payment \<Rightarrow> payment comp) \<Rightarrow> payment \<Rightarrow> payment comp" where
  "verify_lnurl_payment cfg gw now fin p w =
     (if \<not> nonempty (payment_hash p) \<or> \<not> nonempty (lnurl_verify_url p)
      then raise (PaymentProviderError ''LNURL invoice verification data is incomplete'') w
      else case claim_lnurl_check now (pay_id p) (wdb w) of
        None \<Rightarrow> reload_payment (pay_id p) w
      | Some db1 \<Rightarrow>
          (case ask (lnurl_state gw) (LnurlState (pay_id p) (the (invoice p)) (the (payment_hash p))
                  (the (lnurl_verify_url p))) (w\<lparr>wdb := db1\<rparr>) of
             (None, w2) \<Rightarrow> raise (PaymentProviderError ''LNURL settlement verification is unavailable'') w2
           | (Some st, w2) \<Rightarrow>
               andthen (reload_payment (pay_id p))
                 (\<lambda>q. if pay_status q = PAID \<or> settlement_review_required q then return q
                      else if st = InvSETTLED then lnurl_settled cfg gw now q
                      else lnurl_unsettled cfg gw now fin q) w2))"

definition check_lnurl_payment ::
  "settings \<Rightarrow> gateway \<Rightarrow> time \<Rightarrow> (payment \<Rightarrow> payment comp) \<Rightarrow> payment \<Rightarrow> payment comp" where
  "check_lnurl_payment cfg gw now fin p =
     andthen (reload_payment (pay_id p))
       (\<lambda>q. if pay_status q = PAID \<or> settlement_review_required q then return q
            else if \<not> nonempty (invoice q) then
              andthen (ensure_lightning_invoice cfg gw now q)
                (\<lambda>q1. if \<not> nonempty (invoice q1) then return q1 else verify_lnurl_payment cfg gw now fin q1)
            else verify_lnurl_payment cfg gw now fin q)"

text \<open>
  \<^verbatim>\<open>_finalize_payment\<close> of a pending payment: an LNURL payment is verified first, which may come
  back to it. The recursion is bounded by \<open>depth\<close>; depth 1 is enough, because the throttle of
  the check stops a nested one.
\<close>

fun finalize_payment :: "nat \<Rightarrow> settings \<Rightarrow> gateway \<Rightarrow> time \<Rightarrow> payment \<Rightarrow> payment comp" where
  "finalize_payment 0 cfg gw now p =
     (if is_lnurl p then raise (RuntimeError ''RecursionError'') else finalize_direct cfg gw now p)"
| "finalize_payment (Suc depth) cfg gw now p =
     (if is_lnurl p then check_lnurl_payment cfg gw now (finalize_payment depth cfg gw now) p
      else finalize_direct cfg gw now p)"

definition check_and_settle_payment :: "settings \<Rightarrow> gateway \<Rightarrow> time \<Rightarrow> payment \<Rightarrow> payment comp" where
  "check_and_settle_payment cfg gw now p =
     (let fin = finalize_payment 1 cfg gw now in
      if \<not> is_lnd_backed (pay_method p) then return p
      else if is_lnurl p then check_lnurl_payment cfg gw now fin p
      else if pay_method p \<noteq> STABLECOIN_SWAP \<and> \<not> is_payment_method_enabled cfg (pay_method p)
      then raise (DisabledPaymentMethodError (pay_method p))
      else if pay_status p \<noteq> PENDING then return p
      else andthen (ensure_lightning_invoice cfg gw now p)
        (\<lambda>q. if pay_status q \<noteq> PENDING then return q
             else if pay_method q = NWC then reconcile_nwc_payment cfg gw now fin q
             else if pay_method q = CLINK then reconcile_clink_payment cfg gw now fin q
             else
               let unavailable = PaymentProviderError ''Lightning invoice provider is unavailable'';
                   unsettled = (if (case expires_at q of Some e \<Rightarrow> e \<le> now | None \<Rightarrow> False)
                                then commit (expire_payment now q) (pay_id q) else reload_payment (pay_id q))
               in if uses_lnurl_adapter cfg then raise unavailable
                  else if \<not> nonempty (payment_hash q) then unsettled
                  else (\<lambda>w. case ask (lnd_paid gw) (LndPaid (pay_id q) (the (payment_hash q))) w of
                              (None, w2) \<Rightarrow> raise unavailable w2
                            | (Some settled, w2) \<Rightarrow> (if settled then fin q else unsettled) w2)))"

section \<open>The transactions of a settlement run\<close>

text \<open>
  Every transaction a settlement run commits, apart from the three that precede a wallet debit or an
  invoice creation.
\<close>

inductive payment_tx :: "settings \<Rightarrow> gateway \<Rightarrow> time \<Rightarrow> database \<Rightarrow> database \<Rightarrow> bool" for cfg gw now where
  tx_bind: "payment_tx cfg gw now db (bind_invoice_tx p iv e db)"
| tx_expire: "payment_tx cfg gw now db (expire_payment now p db)"
| tx_checked: "payment_tx cfg gw now db (set_payment i (\<lambda>r. r\<lparr>lnurl_last_checked_at := Some now\<rparr>) db)"
| tx_check: "claim_lnurl_check now i db = Some db' \<Longrightarrow> payment_tx cfg gw now db db'"
| tx_store: "payment_tx cfg gw now db (store_lnurl_invoice d i inv' db)"
| tx_review: "payment_tx cfg gw now db (review_receipt now p db)"
| tx_observe_nwc: "payment_tx cfg gw now db (save_nwc_observation_tx p st code db)"
| tx_observe_clink: "payment_tx cfg gw now db (save_clink_observation_tx p st code db)"
| tx_claim_nwc: "claim_nwc_lease cfg gw now i db = Some db' \<Longrightarrow> payment_tx cfg gw now db db'"
| tx_claim_clink: "claim_clink_lease cfg gw now i db = Some db' \<Longrightarrow> payment_tx cfg gw now db db'"
| tx_fail_nwc: "fail_nwc_tx cfg gw now p code b db = Inr db' \<Longrightarrow> payment_tx cfg gw now db db'"
| tx_fail_clink: "fail_clink_tx cfg gw now p code b db = Inr db' \<Longrightarrow> payment_tx cfg gw now db db'"
| tx_fallback: "start_fallback_tx p code db = Some db' \<Longrightarrow> payment_tx cfg gw now db db'"
| tx_finalize: "finalize_tx cfg (seal_identity gw) now i PENDING v (set_payment i (nwc_flushed p) db) = Inr db' \<Longrightarrow>
    payment_tx cfg gw now db db'"
| tx_verified: "finalize_tx cfg (seal_identity gw) now i PENDING v db = Inr db' \<Longrightarrow> payment_tx cfg gw now db db'"

text \<open>The calls that create an invoice without idempotency or debit a wallet, and for which payment.\<close>

fun clink_debit :: "int \<Rightarrow> call \<Rightarrow> bool" where
  "clink_debit i (ClinkPay j _ _ _ _) = (i = j)" | "clink_debit i _ = False"

fun nwc_debit :: "int \<Rightarrow> call \<Rightarrow> bool" where
  "nwc_debit i (NwcPay j _ _) = (i = j)" | "nwc_debit i _ = False"

fun lnurl_creation :: "int \<Rightarrow> call \<Rightarrow> bool" where
  "lnurl_creation i (LnurlCreate j _) = (i = j)" | "lnurl_creation i _ = False"

definition harmless_call :: "call \<Rightarrow> bool" where
  "harmless_call c \<longleftrightarrow> (\<forall>i. \<not> clink_debit i c \<and> \<not> nwc_debit i c \<and> \<not> lnurl_creation i c)"

lemma harmless_calls [simp]:
  "harmless_call (LndLookup i h a m)" "harmless_call (LndCreate i a m pre e)" "harmless_call (LndState i h)"
  "harmless_call (LndPaid i h)" "harmless_call (LnurlState i r h u)" "harmless_call (NwcLookup i u h)"
  by (simp_all add: harmless_call_def)

text \<open>
  Interface between the settlement code and what is proved of its runs: a reflexive and transitive
  relation between worlds that every transaction, every harmless call and every recorded send
  respects. A further NWC attempt is recorded only below the attempt limit; the first one is not
  compared with it.
\<close>

definition below_limit :: "settings \<Rightarrow> payment \<Rightarrow> world \<Rightarrow> bool" where
  "below_limit cfg p w \<longleftrightarrow>
     (\<forall>r. get_payment (wdb w) (pay_id p) = Some r \<longrightarrow> nwc_attempt_count (nwc r) < max 1 (NWC_MAX_PAYMENT_ATTEMPTS cfg))"

locale settlement_run =
  fixes cfg :: settings and gw :: gateway and now :: time and R :: "world \<Rightarrow> world \<Rightarrow> bool"
  assumes R_refl: "R w w"
    and R_trans: "R u v \<Longrightarrow> R v w \<Longrightarrow> R u w"
    and R_tx: "payment_tx cfg gw now (wdb w) db' \<Longrightarrow> R w (w\<lparr>wdb := db'\<rparr>)"
    and R_call: "harmless_call c \<Longrightarrow> R w (w\<lparr>calls := calls w @ [c]\<rparr>)"
    and R_nwc: "record_nwc_send_attempt cfg now p (wdb w) = Some db' \<Longrightarrow> below_limit cfg p w \<Longrightarrow>
      R w (w\<lparr>wdb := db', calls := calls w @ [NwcPay (pay_id p) uri bolt]\<rparr>)"
    and R_nwc_silent: "record_nwc_send_attempt cfg now p (wdb w) = Some db' \<Longrightarrow> below_limit cfg p w \<Longrightarrow>
      R w (w\<lparr>wdb := db'\<rparr>)"
    and R_clink: "record_clink_send_attempt now p (wdb w) = Some db' \<Longrightarrow>
      R w (w\<lparr>wdb := db', calls := calls w @ [ClinkPay (pay_id p) nd bolt a t]\<rparr>)"
    and R_clink_silent: "record_clink_send_attempt now p (wdb w) = Some db' \<Longrightarrow> R w (w\<lparr>wdb := db'\<rparr>)"
    and R_lnurl: "claim_lnurl_creation now i (wdb w) = Some db' \<Longrightarrow>
      R w (w\<lparr>wdb := db', calls := calls w @ [LnurlCreate i a]\<rparr>)"
begin

definition keeps :: "(world \<Rightarrow> 'a \<times> world) \<Rightarrow> bool" where
  "keeps f \<longleftrightarrow> (\<forall>w. R w (snd (f w)))"

lemma keepsI: "(\<And>w. R w (snd (f w))) \<Longrightarrow> keeps f"
  by (simp add: keeps_def)

lemma keepsD: "keeps f \<Longrightarrow> R w (snd (f w))"
  by (simp add: keeps_def)

lemma keeps_return [intro!]: "keeps (return x)"
  by (simp add: keeps_def return_def R_refl)

lemma keeps_raise [intro!]: "keeps (raise e)"
  by (simp add: keeps_def raise_def R_refl)

lemma keeps_reload [intro!]: "keeps (reload_payment i)"
  by (simp add: keeps_def reload_payment_def R_refl split: option.splits)

lemma snd_reload [simp]: "snd (reload_payment i w) = w"
  by (simp add: reload_payment_def split: option.splits)

lemma keeps_andthen [intro!]:
  assumes "keeps m" and "\<And>x. keeps (k x)" shows "keeps (andthen m k)"
proof (rule keepsI)
  fix w
  have "R w (snd (m w))" using assms(1) by (rule keepsD)
  moreover have "R (snd (m w)) (snd (k x (snd (m w))))" for x using assms(2) by (rule keepsD)
  ultimately show "R w (snd (andthen m k w))"
    by (auto simp: andthen_def split: prod.splits sum.splits intro: R_trans)
qed

lemma keeps_commit [intro!]:
  assumes "\<And>db. payment_tx cfg gw now db (f db)" shows "keeps (commit f i)"
  using assms by (auto simp: keeps_def commit_def intro: R_tx)

lemma keeps_commit_or_raise [intro!]:
  assumes "\<And>db db'. f db = Inr db' \<Longrightarrow> payment_tx cfg gw now db db'" shows "keeps (commit_or_raise f i)"
  using assms by (auto simp: keeps_def commit_or_raise_def R_refl intro: R_tx split: sum.splits)

lemma keeps_if [intro!]: "(b \<Longrightarrow> keeps f) \<Longrightarrow> (\<not> b \<Longrightarrow> keeps g) \<Longrightarrow> keeps (if b then f else g)"
  by simp

text \<open>After a harmless call, and after a committed transaction.\<close>

lemma R_ask: "harmless_call c \<Longrightarrow> R w (snd (ask f c w))"
  by (simp add: ask_def R_call)

lemma R_asked: "ask f c w = (x, w2) \<Longrightarrow> harmless_call c \<Longrightarrow> R w w2"
  using R_ask [of c w f] by simp

lemma R_after_ask:
  assumes "ask f c w = (x, w2)" and "harmless_call c" and "keeps k" shows "R w (snd (k w2))"
  using R_ask [OF assms(2), of w f] keepsD [OF assms(3), of w2] assms(1) by (auto intro: R_trans)

lemma R_after_tx:
  assumes "payment_tx cfg gw now (wdb w) db'" and "keeps k" shows "R w (snd (k (w\<lparr>wdb := db'\<rparr>)))"
  using R_tx [OF assms(1)] keepsD [OF assms(2)] by (rule R_trans)

lemmas tx_rules = payment_tx.intros

lemma keeps_bind_invoice [intro!]: "keeps (bind_invoice cfg now p iv)"
proof (rule keepsI)
  fix w
  have "keeps (commit (bind_invoice_tx p iv e) (pay_id p))" for e by (intro keeps_commit tx_bind)
  then show "R w (snd (bind_invoice cfg now p iv w))"
    by (auto simp: bind_invoice_def raise_def R_refl Let_def keepsD split: option.splits)
qed

lemma keeps_expire [intro!]: "keeps (commit (expire_payment now p) i)"
  by (intro keeps_commit tx_expire)

lemma keeps_ensure_lnd [intro!]: "keeps (ensure_lnd_invoice cfg gw now p)"
proof (rule keepsI)
  fix w
  have raised: "keeps (raise e :: payment comp)" for e by (rule keeps_raise)
  show "R w (snd (ensure_lnd_invoice cfg gw now p w))"
    unfolding ensure_lnd_invoice_def
    by (auto simp: Let_def keepsD [OF raised] split: option.splits sum.splits prod.splits
        intro: R_after_ask)
qed

lemma keeps_ensure_lnurl [intro!]: "keeps (ensure_lnurl_invoice gw now p)"
proof (rule keepsI)
  fix w
  let ?stored = "\<lambda>d iv. andthen (commit (store_lnurl_invoice d (pay_id p) iv) (pay_id p))
    (\<lambda>q. if (case expires_at q of Some e \<Rightarrow> e \<le> now | None \<Rightarrow> False) \<and> pay_status q = PENDING
         then commit (expire_payment now q) (pay_id p) else return q)"
  have stored: "keeps (?stored d iv)" for d iv
    by (intro keeps_andthen keeps_commit tx_store keeps_if keeps_expire keeps_return)
  have checked: "keeps (commit (set_payment (pay_id p) (\<lambda>r. r\<lparr>lnurl_last_checked_at := Some now\<rparr>)) (pay_id p))"
    by (intro keeps_commit tx_checked)
  have created: "R w (snd (ask (lnurl_create gw) (LnurlCreate (pay_id p) a) (w\<lparr>wdb := db1\<rparr>)))"
    if "claim_lnurl_creation now (pay_id p) (wdb w) = Some db1" for db1 a
    using R_lnurl [OF that] by (simp add: ask_def)
  show "R w (snd (ensure_lnurl_invoice gw now p w))"
  proof (cases "expires_at p")
    case None
    then show ?thesis by (simp add: ensure_lnurl_invoice_def raise_def R_refl)
  next
    case (Some d)
    show ?thesis
    proof (cases "claim_lnurl_creation now (pay_id p) (wdb w)")
      case None
      then show ?thesis using Some by (auto simp: ensure_lnurl_invoice_def keepsD [OF checked] keepsD [OF keeps_expire])
    next
      case claimed: (Some db1)
      obtain x w2 where a: "ask (lnurl_create gw) (LnurlCreate (pay_id p) (amount_sats p)) (w\<lparr>wdb := db1\<rparr>) = (x, w2)"
        by (rule prod.exhaust)
      have "R w w2" using created [OF claimed, of "amount_sats p"] a by simp
      then show ?thesis using Some claimed a keepsD [OF stored]
        by (cases x) (auto simp: ensure_lnurl_invoice_def raise_def keepsD [OF keeps_expire] intro: R_trans)
    qed
  qed
qed

lemma keeps_ensure_lightning [intro!]: "keeps (ensure_lightning_invoice cfg gw now p)"
proof -
  have "ensure_lightning_invoice cfg gw now p = (if \<not> is_lnd_backed (pay_method p) then return p
      else andthen (reload_payment (pay_id p))
        (\<lambda>q. if pay_status q \<noteq> PENDING \<or> nonempty (invoice q) then return q
             else if is_lnurl q then ensure_lnurl_invoice gw now q
             else if uses_lnurl_adapter cfg
             then raise (PaymentProviderError ''legacy invoices must be reconciled with their original LND provider'')
             else ensure_lnd_invoice cfg gw now q))"
    by (rule ext) (simp add: ensure_lightning_invoice_def)
  then show ?thesis by (simp only:) blast
qed

lemma keeps_lnd_state [intro!]: "keeps (lnd_invoice_state cfg gw p)"
proof (rule keepsI)
  fix w
  show "R w (snd (lnd_invoice_state cfg gw p w))"
    by (auto simp: lnd_invoice_state_def Let_def raise_def return_def R_refl split: option.splits prod.splits
        intro: R_asked)
qed

lemma keeps_observe_nwc [intro!]: "keeps (save_nwc_observation p st code)"
  unfolding save_nwc_observation_def by (intro keeps_commit tx_observe_nwc)

lemma keeps_observe_clink [intro!]: "keeps (save_clink_observation p st code)"
  unfolding save_clink_observation_def by (intro keeps_commit tx_observe_clink)

lemma payment_tx_refl: "payment_tx cfg gw now db db"
proof -
  have "set_payment i f db = db" if "i \<notin> pay_id ` set (payments db)" for i f
    using that by (auto simp: set_payment_def intro!: database.equality update_where_none)
  moreover obtain i where "i \<notin> pay_id ` set (payments db)"
    using ex_new_if_finite [of "pay_id ` set (payments db)"] infinite_UNIV_int by auto
  ultimately show ?thesis using tx_checked [of cfg gw now db i] by metis
qed

lemma keeps_finalize_direct [intro!]: "keeps (finalize_direct cfg gw now p)"
  unfolding finalize_direct_def
  by (rule keeps_commit_or_raise) (auto split: option.splits if_splits intro: tx_finalize payment_tx_refl)

lemma keeps_fail_nwc [intro!]: "keeps (commit_or_raise (fail_nwc_tx cfg gw now p code b) i)"
  by (intro keeps_commit_or_raise tx_fail_nwc)

lemma keeps_fail_clink [intro!]: "keeps (commit_or_raise (fail_clink_tx cfg gw now p code b) i)"
  by (intro keeps_commit_or_raise tx_fail_clink)

text \<open>The wallet computations, for a continuation \<open>fin\<close> that keeps the relation.\<close>

lemma keeps_release_nwc:
  assumes "\<forall>p. keeps (fin p)" shows "keeps (release_failed_nwc_payment cfg gw now fin p code b)"
  using assms unfolding release_failed_nwc_payment_def Let_def by blast

lemma keeps_release_clink:
  assumes "\<forall>p. keeps (fin p)" shows "keeps (release_failed_clink_payment cfg gw now fin p code b)"
  using assms unfolding release_failed_clink_payment_def Let_def by blast

lemma keeps_payment_user [intro!]: "keeps (payment_user p)"
  by (auto simp: keeps_def payment_user_def raise_def return_def R_refl split: option.splits)

lemma keeps_settle:
  assumes "\<forall>p. keeps (fin p)" shows "keeps (settle_if_lnd_settled cfg gw fin p)"
  using assms unfolding settle_if_lnd_settled_def by blast

text \<open>What follows the answer of a wallet to a debit.\<close>

lemma keeps_nwc_answer:
  assumes fin: "\<forall>p. keeps (fin p)"
  shows "keeps (if b then release_failed_nwc_payment cfg gw now fin q code True
      else andthen (save_nwc_observation q ''unknown'' (Some code)) (\<lambda>_. raise e))"
    "keeps (save_nwc_observation q st c)"
    "keeps (andthen (save_nwc_observation q1 st c) (settle_if_lnd_settled cfg gw fin))"
  using keeps_release_nwc [OF fin] keeps_settle [OF fin] by blast+

lemma R_nwc_send:
  assumes fin: "\<forall>p. keeps (fin p)" and below: "below_limit cfg p w"
  shows "R w (snd (nwc_send cfg gw now fin uri p w))"
proof (cases "record_nwc_send_attempt cfg now p (wdb w)")
  case None
  then show ?thesis by (simp add: nwc_send_def R_refl)
next
  case (Some db1)
  show ?thesis
  proof (cases "get_payment db1 (pay_id p)")
    case None
    then show ?thesis using Some R_nwc_silent [OF Some below]
      by (simp add: nwc_send_def andthen_def reload_payment_def)
  next
    case row: (Some q)
    then have id: "pay_id q = pay_id p" by (rule get_payment_id)
    obtain x w2 where a: "ask (nwc_pay gw) (NwcPay (pay_id q) uri (the (invoice q))) (w\<lparr>wdb := db1\<rparr>) = (x, w2)"
      by (rule prod.exhaust)
    have sent: "R w w2" using R_nwc [OF Some below, of uri "the (invoice q)"] a id by (auto simp: ask_def)
    note ans = keeps_nwc_answer [OF fin]
    show ?thesis
    proof (cases x)
      case (Inl err)
      have "R w2 (snd ((if \<not> err_retryable err \<and> err_code err \<in> set DEFINITIVE_PAY_REJECTION_CODES
          then release_failed_nwc_payment cfg gw now fin q (err_code err) True
          else andthen (save_nwc_observation q ''unknown'' (Some (err_code err)))
            (\<lambda>_. raise (PaymentProviderError ''NWC payment provider is unavailable''))) w2))"
        by (rule keepsD [OF ans(1)])
      then show ?thesis using Some row a Inl R_trans [OF sent]
        by (auto simp: nwc_send_def andthen_def [of "reload_payment _"] reload_payment_def [of _ "_\<lparr>wdb := _\<rparr>"]
            split: if_splits)
    next
      case (Inr res)
      then show ?thesis using Some row a R_trans [OF sent] keepsD [OF ans(2)] keepsD [OF ans(3)]
        by (simp add: nwc_send_def andthen_def [of "reload_payment _"] reload_payment_def [of _ "_\<lparr>wdb := _\<rparr>"]
            split: sum.splits)
    qed
  qed
qed

lemma below_limit_call [simp]: "below_limit cfg p (w\<lparr>calls := cs\<rparr>) = below_limit cfg p w"
  by (simp add: below_limit_def)

lemma verify_nwc_result_row:
  "verify_nwc_result gw p h pre fees = Inr q \<Longrightarrow>
     pay_id q = pay_id p \<and> nwc_attempt_count (nwc q) = nwc_attempt_count (nwc p)"
  by (auto simp: verify_nwc_result_def Let_def split: if_splits option.splits)

definition current :: "payment \<Rightarrow> world \<Rightarrow> bool" where
  "current p w \<longleftrightarrow> (\<forall>r. get_payment (wdb w) (pay_id p) = Some r \<longrightarrow>
     nwc_attempt_count (nwc r) = nwc_attempt_count (nwc p))"

lemma R_nwc_lookup_then_send:
  assumes fin: "\<forall>p. keeps (fin p)" and cur: "current p w"
  shows "R w (snd (nwc_lookup_then_send cfg gw now fin uri p w))"
proof -
  let ?seen = "p\<lparr>nwc := (nwc p)\<lparr>nwc_last_lookup_at := Some now\<rparr>\<rparr>"
  obtain x w1 where a: "ask (nwc_lookup gw) (NwcLookup (pay_id p) uri (the (payment_hash p))) w = (x, w1)"
    by (rule prod.exhaust)
  have asked: "R w w1" using R_asked [OF a] by simp
  have w1: "w1 = w\<lparr>calls := calls w @ [NwcLookup (pay_id p) uri (the (payment_hash p))]\<rparr>"
    using a by (simp add: ask_def)
  note obs = keepsD [OF keeps_observe_nwc] and settle = keepsD [OF keeps_nwc_answer(3) [OF fin]]
    and rel = keepsD [OF keeps_release_nwc [OF fin]]
  show ?thesis
  proof (cases x)
    case (Inl err)
    have "R w1 (snd (andthen (save_nwc_observation ?seen ''unknown'' (Some (err_code err)))
        (\<lambda>_. raise (PaymentProviderError ''NWC payment lookup is unavailable'')) w1))"
      by (intro keepsD) blast
    then show ?thesis using a Inl R_trans [OF asked] by (simp add: nwc_lookup_then_send_def Let_def)
  next
    case (Inr look)
    show ?thesis
    proof (cases "verify_nwc_result gw ?seen (look_hash look) (look_preimage look) (look_fees look)")
      case invalid: (Inl code)
      then show ?thesis using a Inr R_trans [OF asked obs] by (simp add: nwc_lookup_then_send_def Let_def)
    next
      case q: (Inr q)
      have row: "pay_id q = pay_id p" "nwc_attempt_count (nwc q) = nwc_attempt_count (nwc p)"
        using verify_nwc_result_row [OF q] by simp_all
      have send: "R w1 (snd (nwc_send cfg gw now fin uri q w1))"
        if "\<not> NWC_MAX_PAYMENT_ATTEMPTS cfg \<le> nwc_attempt_count (nwc q)"
        by (rule R_nwc_send [OF fin]) (use that cur row in \<open>simp add: below_limit_def w1 current_def\<close>)
      show ?thesis using a Inr q
          R_trans [OF asked obs] R_trans [OF asked settle] R_trans [OF asked rel] R_trans [OF asked send]
        by (simp add: nwc_lookup_then_send_def Let_def)
    qed
  qed
qed

lemma R_nwc_with_lease:
  assumes fin: "\<forall>p. keeps (fin p)" and cur: "current p w"
  shows "R w (snd (nwc_with_lease cfg gw now fin p w))"
proof -
  note obs = keepsD [OF keeps_observe_nwc] and rel = keepsD [OF keeps_release_nwc [OF fin]]
  have user: "snd (payment_user p w) = w"
    by (auto simp: payment_user_def raise_def return_def split: option.splits)
  have send: "R w (snd (nwc_send cfg gw now fin uri p w))" if "nwc_attempt_count (nwc p) = 0" for uri
    by (rule R_nwc_send [OF fin]) (use that cur in \<open>simp add: below_limit_def current_def less_max_iff_disj\<close>)
  show ?thesis
  proof (cases "fst (payment_user p w)")
    case (Inl e)
    then show ?thesis using user by (cases "payment_user p w") (simp add: nwc_with_lease_def andthen_def R_refl)
  next
    case (Inr u)
    then have pu: "payment_user p w = (Inr u, w)" using user by (cases "payment_user p w") simp
    show ?thesis
      by (cases "decrypt_nwc_credential gw u (nwc_credential_generation (nwc p))")
        (auto simp: nwc_with_lease_def andthen_def [of "payment_user p"] pu obs rel send
          R_nwc_lookup_then_send [OF fin cur])
  qed
qed

lemma current_reload: "get_payment (wdb w) i = Some p \<Longrightarrow> current p w"
  using get_payment_id by (fastforce simp: current_def)

lemma keeps_nwc_leased:
  assumes fin: "\<forall>p. keeps (fin p)"
  shows "keeps (\<lambda>w. case claim_nwc_lease cfg gw now i (wdb w) of
      None \<Rightarrow> reload_payment i w
    | Some db1 \<Rightarrow> andthen (reload_payment i) (nwc_with_lease cfg gw now fin) (w\<lparr>wdb := db1\<rparr>))"
proof (rule keepsI)
  fix w
  show "R w (snd (case claim_nwc_lease cfg gw now i (wdb w) of
      None \<Rightarrow> reload_payment i w
    | Some db1 \<Rightarrow> andthen (reload_payment i) (nwc_with_lease cfg gw now fin) (w\<lparr>wdb := db1\<rparr>)))"
  proof (cases "claim_nwc_lease cfg gw now i (wdb w)")
    case (Some db1)
    then have claimed: "R w (w\<lparr>wdb := db1\<rparr>)" by (intro R_tx tx_claim_nwc)
    have "R (w\<lparr>wdb := db1\<rparr>) (snd (andthen (reload_payment i) (nwc_with_lease cfg gw now fin) (w\<lparr>wdb := db1\<rparr>)))"
      using R_nwc_with_lease [OF fin current_reload, of "w\<lparr>wdb := db1\<rparr>" i]
      by (auto simp: andthen_def reload_payment_def R_refl split: option.splits)
    then show ?thesis using Some R_trans [OF claimed] by simp
  qed (simp add: R_refl)
qed

lemma keeps_reconcile_nwc:
  assumes fin: "\<forall>p. keeps (fin p)" shows "keeps (reconcile_nwc_payment cfg gw now fin p)"
proof -
  have "keeps (fin p)" using fin by blast
  note * = this keeps_release_nwc [OF fin] keeps_nwc_leased [OF fin]
  show ?thesis unfolding reconcile_nwc_payment_def
    by (intro keeps_if keeps_return keeps_andthen keeps_lnd_state keeps_observe_nwc keeps_reload *)
qed

lemma keeps_start_fallback:
  assumes fin: "\<forall>p. keeps (fin p)" shows "keeps (start_nwc_fallback cfg gw now fin p user code)"
proof (rule keepsI)
  fix w
  have "R w (snd (andthen (reload_payment (pay_id p)) (reconcile_nwc_payment cfg gw now fin) (w\<lparr>wdb := db1\<rparr>)))"
    if "start_fallback_tx p code (wdb w) = Some db1" for db1
    by (rule R_after_tx [OF tx_fallback [OF that]]) (intro keeps_andthen keeps_reload keeps_reconcile_nwc fin)
  then show "R w (snd (start_nwc_fallback cfg gw now fin p user code w))"
    using keepsD [OF keeps_release_clink [OF fin]]
    by (simp add: start_nwc_fallback_def R_refl split: option.splits)
qed

lemma R_clink_send:
  assumes fin: "\<forall>p. keeps (fin p)"
  shows "R w (snd (clink_send cfg gw now fin user nd p w))"
proof (cases "record_clink_send_attempt now p (wdb w)")
  case None
  then show ?thesis by (simp add: clink_send_def R_refl)
next
  case (Some db1)
  show ?thesis
  proof (cases "get_payment db1 (pay_id p)")
    case None
    then show ?thesis using Some R_clink_silent [OF Some]
      by (simp add: clink_send_def andthen_def reload_payment_def)
  next
    case row: (Some q)
    then have id: "pay_id q = pay_id p" by (rule get_payment_id)
    obtain x w2 where a: "ask (clink_pay gw) (ClinkPay (pay_id q) nd (the (invoice q)) (amount_sats q)
        (pay_billing_term q)) (w\<lparr>wdb := db1\<rparr>) = (x, w2)"
      by (rule prod.exhaust)
    have sent: "R w w2" using R_clink [OF Some] a id by (auto simp: ask_def)
    note unfolded = clink_send_def andthen_def [of "reload_payment _"] reload_payment_def [of _ "_\<lparr>wdb := _\<rparr>"]
    have obs: "R w2 (snd (save_clink_observation q' st c w2))" for q' st c
      by (intro keepsD keeps_observe_clink)
    have settle: "R w2 (snd (andthen (save_clink_observation q1 st c) (settle_if_lnd_settled cfg gw fin) w2))"
      for q1 st c by (intro keepsD keeps_andthen keeps_observe_clink keeps_settle fin)
    have lost: "R w2 (snd (andthen (save_clink_observation q ''unknown'' c) (\<lambda>_. raise e :: payment comp) w2))"
      for c e by (intro keepsD) blast
    show ?thesis
    proof (cases x)
      case (Inl err)
      then show ?thesis
        using Some row a R_trans [OF sent lost] R_trans [OF sent keepsD [OF keeps_start_fallback [OF fin]]]
        by (auto simp: unfolded split: if_splits)
    next
      case (Inr res)
      then show ?thesis using Some row a R_trans [OF sent obs] R_trans [OF sent settle]
        by (simp add: unfolded split: sum.splits)
    qed
  qed
qed

lemma keeps_clink_with_lease:
  assumes fin: "\<forall>p. keeps (fin p)" shows "keeps (clink_with_lease cfg gw now fin p)"
proof -
  have send: "keeps (clink_send cfg gw now fin user nd p)" for user nd
    by (rule keepsI) (rule R_clink_send [OF fin])
  have "keeps (case decrypt_clink_credential gw user g of
      None \<Rightarrow> release_failed_clink_payment cfg gw now fin p ''credential_unavailable'' True
    | Some ndebit \<Rightarrow> clink_send cfg gw now fin user ndebit p)" for user g
    by (cases "decrypt_clink_credential gw user g") (simp_all add: keeps_release_clink [OF fin] send)
  then show ?thesis unfolding clink_with_lease_def by (intro keeps_andthen keeps_payment_user)
qed

lemma keeps_reconcile_clink:
  assumes fin: "\<forall>p. keeps (fin p)" shows "keeps (reconcile_clink_payment cfg gw now fin p)"
proof -
  have leased: "keeps (\<lambda>w. case claim_clink_lease cfg gw now i (wdb w) of
      None \<Rightarrow> reload_payment i w
    | Some db1 \<Rightarrow> andthen (reload_payment i) (clink_with_lease cfg gw now fin) (w\<lparr>wdb := db1\<rparr>))" for i
  proof (rule keepsI)
    fix w
    show "R w (snd (case claim_clink_lease cfg gw now i (wdb w) of
        None \<Rightarrow> reload_payment i w
      | Some db1 \<Rightarrow> andthen (reload_payment i) (clink_with_lease cfg gw now fin) (w\<lparr>wdb := db1\<rparr>)))"
    proof (cases "claim_clink_lease cfg gw now i (wdb w)")
      case (Some db1)
      have "R w (snd (andthen (reload_payment i) (clink_with_lease cfg gw now fin) (w\<lparr>wdb := db1\<rparr>)))"
        by (rule R_after_tx [OF tx_claim_clink [OF Some]])
          (intro keeps_andthen keeps_reload keeps_clink_with_lease fin)
      then show ?thesis using Some by simp
    qed (simp add: R_refl)
  qed
  have "keeps (fin p)" using fin by blast
  note * = this keeps_release_clink [OF fin] keeps_reconcile_nwc [OF fin] leased
  show ?thesis unfolding reconcile_clink_payment_def
    by (intro keeps_if keeps_return keeps_andthen keeps_lnd_state keeps_observe_clink keeps_reload *)
qed

lemma keeps_lnurl_settled [intro!]: "keeps (lnurl_settled cfg gw now p)"
proof (rule keepsI)
  fix w
  have review: "keeps (commit (review_receipt now p) (pay_id p))" by (intro keeps_commit tx_review)
  show "R w (snd (lnurl_settled cfg gw now p w))"
    by (auto simp: lnurl_settled_def Let_def raise_def R_refl keepsD [OF review] split: sum.splits
        intro: R_tx tx_verified)
qed

lemma keeps_lnurl_unsettled:
  assumes fin: "\<forall>p. keeps (fin p)" shows "keeps (lnurl_unsettled cfg gw now fin p)"
  unfolding lnurl_unsettled_def
  by (intro keeps_if keeps_expire keeps_return keeps_reconcile_nwc keeps_reconcile_clink fin)

lemma keeps_verify_lnurl:
  assumes fin: "\<forall>p. keeps (fin p)" shows "keeps (verify_lnurl_payment cfg gw now fin p)"
proof (rule keepsI)
  fix w
  let ?after = "\<lambda>st. andthen (reload_payment (pay_id p))
    (\<lambda>q. if pay_status q = PAID \<or> settlement_review_required q then return q
         else if st = InvSETTLED then lnurl_settled cfg gw now q else lnurl_unsettled cfg gw now fin q)"
  have after: "keeps (?after st)" for st
    by (intro keeps_andthen keeps_reload keeps_if keeps_return keeps_lnurl_settled keeps_lnurl_unsettled fin)
  show "R w (snd (verify_lnurl_payment cfg gw now fin p w))"
  proof (cases "claim_lnurl_check now (pay_id p) (wdb w)")
    case (Some db1)
    have claimed: "R w (w\<lparr>wdb := db1\<rparr>)" using Some by (intro R_tx tx_check)
    obtain x w2 where a: "ask (lnurl_state gw) (LnurlState (pay_id p) (the (invoice p)) (the (payment_hash p))
        (the (lnurl_verify_url p))) (w\<lparr>wdb := db1\<rparr>) = (x, w2)" by (rule prod.exhaust)
    have "R w w2" using R_trans [OF claimed R_asked [OF a]] by simp
    then show ?thesis using Some a R_trans [OF _ keepsD [OF after]]
      by (cases x) (auto simp: verify_lnurl_payment_def raise_def R_refl)
  qed (auto simp: verify_lnurl_payment_def raise_def R_refl)
qed

lemma keeps_check_lnurl:
  assumes fin: "\<forall>p. keeps (fin p)" shows "keeps (check_lnurl_payment cfg gw now fin p)"
  unfolding check_lnurl_payment_def
  by (intro keeps_andthen keeps_reload keeps_if keeps_return keeps_ensure_lightning keeps_verify_lnurl fin)

lemma keeps_finalize: "keeps (finalize_payment depth cfg gw now p)"
proof (induction depth arbitrary: p)
  case (Suc d)
  then have "\<forall>p. keeps (finalize_payment d cfg gw now p)" by blast
  then show ?case by (auto intro: keeps_check_lnurl)
qed auto

lemma keeps_check_and_settle: "keeps (check_and_settle_payment cfg gw now p)"
proof -
  have fin: "\<forall>p. keeps (finalize_payment 1 cfg gw now p)" using keeps_finalize by blast
  have paid: "keeps (\<lambda>w. case ask (lnd_paid gw) (LndPaid i h) w of
      (None, w2) \<Rightarrow> raise e w2 | (Some settled, w2) \<Rightarrow> (if settled then f else g) w2)"
    if "keeps f" "keeps g" for i h e and f g :: "payment comp"
  proof (rule keepsI)
    fix w
    obtain x w2 where a: "ask (lnd_paid gw) (LndPaid i h) w = (x, w2)" by (rule prod.exhaust)
    have "R w w2" using R_asked [OF a] by simp
    then show "R w (snd (case ask (lnd_paid gw) (LndPaid i h) w of
        (None, w2) \<Rightarrow> raise e w2 | (Some settled, w2) \<Rightarrow> (if settled then f else g) w2))"
      using a that R_trans [OF _ keepsD] by (cases x) (auto simp: raise_def)
  qed
  have "keeps (finalize_payment 1 cfg gw now p)" for p using fin by blast
  then show ?thesis unfolding check_and_settle_payment_def Let_def
    by (intro keeps_if keeps_return keeps_raise keeps_andthen keeps_reload keeps_ensure_lightning keeps_expire
        keeps_check_lnurl keeps_reconcile_nwc keeps_reconcile_clink paid fin)
qed

end

section \<open>What the transactions keep of a payment row\<close>

definition is_final :: "payment_status \<Rightarrow> bool" where
  "is_final st = (st = PAID \<or> st = EXPIRED \<or> st = FAILED)"

text \<open>
  Between the rows before and after: the identity, the send counters and the creation claim are
  unchanged, a final status stays with its settlement instant, and so does an LNURL check of this
  instant.
\<close>

definition row_kept :: "time \<Rightarrow> payment \<Rightarrow> payment \<Rightarrow> bool" where
  "row_kept now r r' \<longleftrightarrow> pay_id r' = pay_id r \<and>
     clink_attempt_count (clink r') = clink_attempt_count (clink r) \<and>
     nwc_attempt_count (nwc r') = nwc_attempt_count (nwc r) \<and>
     lnurl_attempted_at r' = lnurl_attempted_at r \<and>
     (lnurl_last_checked_at r = Some now \<longrightarrow> lnurl_last_checked_at r' = Some now) \<and>
     (is_final (pay_status r) \<longrightarrow> pay_status r' = pay_status r \<and> paid_at r' = paid_at r)"

definition rows_kept :: "time \<Rightarrow> database \<Rightarrow> database \<Rightarrow> bool" where
  "rows_kept now db db' \<longleftrightarrow> list_all2 (row_kept now) (payments db) (payments db')"

lemma rows_kept_refl [simp]: "rows_kept now db db"
  by (simp add: rows_kept_def row_kept_def list_all2_refl)

lemma row_kept_trans: "row_kept now a b \<Longrightarrow> row_kept now b c \<Longrightarrow> row_kept now a c"
  by (auto simp: row_kept_def)

lemma rows_kept_trans: "rows_kept now a b \<Longrightarrow> rows_kept now b c \<Longrightarrow> rows_kept now a c"
  unfolding rows_kept_def by (rule list_all2_trans [of "row_kept now" "row_kept now" "row_kept now"]) (auto intro: row_kept_trans)

lemma rows_kept_eq: "payments db' = payments db \<Longrightarrow> rows_kept now db db'"
  by (simp add: rows_kept_def row_kept_def list_all2_refl)

lemma update_where_kept:
  "(\<And>r. p r \<Longrightarrow> row_kept now r (f r)) \<Longrightarrow> list_all2 (row_kept now) rs (update_where p f rs)"
  by (induction rs) (auto simp: table_simps row_kept_def)

lemma rows_kept_update:
  "(\<And>r. p r \<Longrightarrow> row_kept now r (f r)) \<Longrightarrow> rows_kept now db (db\<lparr>payments := update_where p f (payments db)\<rparr>)"
  by (simp add: rows_kept_def update_where_kept)

lemma rows_kept_update_if:
  assumes "update_payment_if i cond change db = Some db'" and "\<And>r. cond r \<Longrightarrow> row_kept now r (change r)"
  shows "rows_kept now db db'"
  using assms by (auto simp: update_payment_if_def Let_def split: if_splits intro!: rows_kept_update)

lemma drop_automatic_renewal_payments:
  assumes "drop_automatic_renewal cfg seal now p db = Inr db'" shows "payments db' = payments db"
proof (cases "get_subscription db (pay_subscription_id p)")
  case (Some sub)
  let ?off = "\<lambda>s :: subscription. s\<lparr>auto_renew := False\<rparr>"
  obtain b db1 where rel: "release_reservation now (?off sub) (pay_id p) (set_subscription (sub_id sub) ?off db) = (b, db1)"
    by (rule prod.exhaust)
  have "payments db1 = payments db"
    using release_reservation_frame(2) [of now "?off sub" "pay_id p" "set_subscription (sub_id sub) ?off db"] rel
    by simp
  moreover have "payments db' = payments db1"
    using assms Some rel
    by (auto simp: drop_automatic_renewal_def queue_automatic_renewal_failure_notification_def Let_def
        split: option.splits if_splits dest!: queue_notification_frame(3))
  ultimately show ?thesis by simp
qed (use assms in \<open>simp add: drop_automatic_renewal_def\<close>)

lemma finalize_tx_kept:
  assumes run: "finalize_tx cfg seal now i PENDING v db = Inr db'" shows "rows_kept now db db'"
proof (cases "conditional_status_update i PENDING PAID (paid now v) db")
  case None
  then show ?thesis using run by (simp add: finalize_tx_def)
next
  case (Some db1)
  have kept: "rows_kept now db db1"
    using Some unfolding conditional_status_update_def
    by (rule rows_kept_update_if) (simp add: row_kept_def paid_def is_final_def)
  from run Some obtain p where grant: "grant_period cfg seal now p db1 = Inr db'"
    by (auto simp: finalize_tx_def split: option.splits)
  then obtain s where "get_subscription db1 (pay_subscription_id p) = Some s"
    by (auto simp: grant_period_def split: sum.splits option.splits)
  then have "payments db' = payments db1" using grant_period_result [OF grant] by blast
  then show ?thesis using rows_kept_trans [OF kept rows_kept_eq] by simp
qed

lemma release_for_payment_payments [simp]: "payments (release_for_payment now p db) = payments db"
  by (simp add: release_for_payment_def split: option.splits)

lemma expire_payment_kept: "rows_kept now db (expire_payment now p db)"
proof (cases "conditional_status_update (pay_id p) PENDING EXPIRED id db")
  case (Some db1)
  then have "rows_kept now db db1" unfolding conditional_status_update_def
    by (rule rows_kept_update_if) (simp add: row_kept_def is_final_def)
  then show ?thesis using Some by (simp add: expire_payment_def rows_kept_def)
qed (simp add: expire_payment_def)

lemma nwc_flushed_kept [simp]: "row_kept now r (nwc_flushed p r)"
  by (simp add: nwc_flushed_def row_kept_def)

text \<open>Every committed transaction of a settlement run keeps the rows.\<close>

lemma payment_tx_kept:
  assumes "payment_tx cfg gw now db db'" shows "rows_kept now db db'"
  using assms
proof cases
  case (tx_finalize i v p)
  have "rows_kept now db (set_payment i (nwc_flushed p) db)"
    unfolding set_payment_def by (rule rows_kept_update) simp
  then show ?thesis using finalize_tx_kept [OF tx_finalize] by (rule rows_kept_trans)
next
  case (tx_review p)
  let ?db1 = "if pay_status p = PENDING then expire_payment now p db else db"
  have "rows_kept now db ?db1" by (simp add: expire_payment_kept)
  moreover have "rows_kept now ?db1 db'"
    unfolding tx_review review_receipt_def Let_def by (rule rows_kept_update) (simp add: row_kept_def)
  ultimately show ?thesis by (rule rows_kept_trans)
next
  case (tx_fail_nwc p code b)
  then show ?thesis
  proof (cases "update_payment_if (pay_id p) (\<lambda>r. pay_status r = PENDING \<and> (b \<longrightarrow> same_nwc_lease p r))
      (\<lambda>r. let r1 = nwc_flushed p r in r1\<lparr>pay_status := FAILED,
        nwc := (nwc r1)\<lparr>nwc_state := Some ''failed'', nwc_error_code := Some code,
          nwc_lease_until := None, nwc_lease_token := None\<rparr>\<rparr>) db")
    case (Some db1)
    then have "rows_kept now db db1"
      by (rule rows_kept_update_if) (simp add: row_kept_def nwc_flushed_def is_final_def Let_def)
    moreover have "payments db' = payments db1"
      using tx_fail_nwc Some by (auto simp: fail_nwc_tx_def dest: drop_automatic_renewal_payments)
    ultimately show ?thesis by (simp add: rows_kept_def)
  qed (simp add: fail_nwc_tx_def)
next
  case (tx_fail_clink p code b)
  then show ?thesis
  proof (cases "update_payment_if (pay_id p) (\<lambda>r. pay_status r = PENDING \<and> (b \<longrightarrow> same_clink_lease p r))
      (\<lambda>r. r\<lparr>pay_status := FAILED, clink := (clink r)\<lparr>clink_state := Some ''failed'',
        clink_error_code := Some code, clink_lease_until := None, clink_lease_token := None\<rparr>\<rparr>) db")
    case (Some db1)
    then have "rows_kept now db db1"
      by (rule rows_kept_update_if) (simp add: row_kept_def is_final_def)
    moreover have "payments db' = payments db1"
      using tx_fail_clink Some by (auto simp: fail_clink_tx_def dest: drop_automatic_renewal_payments)
    ultimately show ?thesis by (simp add: rows_kept_def)
  qed (simp add: fail_clink_tx_def)
next
  case (tx_expire p)
  then show ?thesis by (simp add: expire_payment_kept)
next
  case (tx_verified i v)
  then show ?thesis by (rule finalize_tx_kept)
next
  case (tx_checked i)
  then show ?thesis unfolding set_payment_def tx_checked by (intro rows_kept_update) (simp add: row_kept_def)
qed (auto simp: bind_invoice_tx_def claim_lnurl_check_def store_lnurl_invoice_def save_nwc_observation_tx_def
    save_clink_observation_tx_def claim_nwc_lease_def claim_clink_lease_def start_fallback_tx_def
    split: option.splits
    elim!: rows_kept_update_if intro: rows_kept_update_if simp: row_kept_def nwc_flushed_def Let_def)

section \<open>Wallet debits\<close>

definition number_of :: "(call \<Rightarrow> bool) \<Rightarrow> call list \<Rightarrow> nat" where
  "number_of q cs = length (filter q cs)"

text \<open>
  The debits and invoice creations made for a payment never exceed what its row records, and the
  row records at most one CLINK debit, one LNURL creation and the configured number of NWC attempts.
\<close>

definition row_sends_ok :: "settings \<Rightarrow> call list \<Rightarrow> payment \<Rightarrow> bool" where
  "row_sends_ok cfg cs r \<longleftrightarrow>
     number_of (clink_debit (pay_id r)) cs \<le> clink_attempt_count (clink r) \<and>
     clink_attempt_count (clink r) \<le> 1 \<and>
     number_of (nwc_debit (pay_id r)) cs \<le> nwc_attempt_count (nwc r) \<and>
     nwc_attempt_count (nwc r) \<le> max 1 (NWC_MAX_PAYMENT_ATTEMPTS cfg) \<and>
     number_of (lnurl_creation (pay_id r)) cs \<le> (if lnurl_attempted_at r = None then 0 else 1)"

definition sends_ok :: "settings \<Rightarrow> world \<Rightarrow> bool" where
  "sends_ok cfg w \<longleftrightarrow> distinct (map pay_id (payments (wdb w))) \<and>
     list_all (row_sends_ok cfg (calls w)) (payments (wdb w))"

lemma rows_kept_sends:
  assumes kept: "rows_kept now db db'"
  shows "list_all (row_sends_ok cfg cs) (payments db') = list_all (row_sends_ok cfg cs) (payments db)"
    "map pay_id (payments db') = map pay_id (payments db)"
proof -
  have one: "row_kept now r r' \<Longrightarrow> row_sends_ok cfg cs r' = row_sends_ok cfg cs r" for r r'
    by (simp add: row_kept_def row_sends_ok_def)
  have "list_all2 (row_kept now) rs rs' \<Longrightarrow>
      list_all (row_sends_ok cfg cs) rs' = list_all (row_sends_ok cfg cs) rs \<and> map pay_id rs' = map pay_id rs" for rs rs'
  proof (induction rs rs' rule: list_all2_induct)
    case (Cons x xs y ys)
    then show ?case using one [OF Cons.hyps(1)] by (simp add: row_kept_def)
  qed simp
  with kept show "list_all (row_sends_ok cfg cs) (payments db') = list_all (row_sends_ok cfg cs) (payments db)"
    "map pay_id (payments db') = map pay_id (payments db)" by (simp_all add: rows_kept_def)
qed

lemma harmless_row_sends: "harmless_call c \<Longrightarrow> row_sends_ok cfg (cs @ [c]) r = row_sends_ok cfg cs r"
  by (simp add: row_sends_ok_def number_of_def harmless_call_def)

text \<open>A recorded send: one row is raised by one, every other row sees no new call.\<close>

lemma recorded_send:
  assumes ok: "sends_ok cfg w" and upd: "update_payment_if i cond change (wdb w) = Some db'"
    and id: "\<And>r. pay_id (change r) = pay_id r"
    and mine: "\<And>r. r \<in> set (payments (wdb w)) \<Longrightarrow> pay_id r = i \<Longrightarrow> cond r \<Longrightarrow>
      row_sends_ok cfg (calls w) r \<Longrightarrow> row_sends_ok cfg cs (change r)"
    and other: "\<And>r. pay_id r \<noteq> i \<Longrightarrow> row_sends_ok cfg (calls w) r \<Longrightarrow> row_sends_ok cfg cs r"
  shows "sends_ok cfg (w\<lparr>wdb := db', calls := cs\<rparr>)"
proof -
  have d: "distinct (map pay_id (payments (wdb w)))" using ok by (simp add: sends_ok_def)
  obtain r where r: "get_payment (wdb w) i = Some r" "cond r"
    and db': "db' = (wdb w)\<lparr>payments := update_where (\<lambda>p. pay_id p = i \<and> cond p) change (payments (wdb w))\<rparr>"
    using upd update_payment_if_Some [OF d] by auto
  have only: "q = r" if "q \<in> set (payments (wdb w))" "pay_id q = i" for q
    using get_row_unique [OF d that(1)] that(2) r(1) by (simp add: get_payment_def)
  have "row_sends_ok cfg cs q" if q: "q \<in> set (payments db')" for q
  proof -
    obtain q0 where q0: "q0 \<in> set (payments (wdb w))"
      and eq: "q = (if pay_id q0 = i \<and> cond q0 then change q0 else q0)"
      using q unfolding db' by (auto simp: in_update_where)
    have ok0: "row_sends_ok cfg (calls w) q0" using ok q0 by (simp add: sends_ok_def list_all_iff)
    show ?thesis
    proof (cases "pay_id q0 = i")
      case True
      then have "q0 = r" using only q0 by simp
      then show ?thesis using mine [OF q0 True] ok0 eq r(2) True by simp
    qed (use other ok0 eq in simp)
  qed
  moreover have "distinct (map pay_id (payments db'))"
    unfolding db' using d id by (simp add: map_update_where)
  ultimately show ?thesis by (simp add: sends_ok_def list_all_iff)
qed

lemma silent_send:
  assumes "sends_ok cfg w" and "update_payment_if i cond change (wdb w) = Some db'"
    and "\<And>r. pay_id (change r) = pay_id r"
    and "\<And>r. r \<in> set (payments (wdb w)) \<Longrightarrow> pay_id r = i \<Longrightarrow> cond r \<Longrightarrow>
      row_sends_ok cfg (calls w) r \<Longrightarrow> row_sends_ok cfg (calls w) (change r)"
  shows "sends_ok cfg (w\<lparr>wdb := db'\<rparr>)"
  using recorded_send [OF assms(1-3), of "calls w"] assms(4) by simp

lemma below_limit_row:
  assumes "sends_ok cfg w" and "below_limit cfg p w" and "r \<in> set (payments (wdb w))" and "pay_id r = pay_id p"
  shows "nwc_attempt_count (nwc r) < max 1 (NWC_MAX_PAYMENT_ATTEMPTS cfg)"
  using assms get_row_unique [of pay_id "payments (wdb w)" r]
  by (auto simp: below_limit_def sends_ok_def get_payment_def)

lemmas send_defs = row_sends_ok_def number_of_def nwc_flushed_def Let_def

lemma sends_nwc:
  assumes ok: "sends_ok cfg w" and rec: "record_nwc_send_attempt cfg now p (wdb w) = Some db'"
    and below: "below_limit cfg p w"
  shows "sends_ok cfg (w\<lparr>wdb := db', calls := calls w @ [NwcPay (pay_id p) uri bolt]\<rparr>)"
    "sends_ok cfg (w\<lparr>wdb := db'\<rparr>)"
proof -
  note limit = below_limit_row [OF ok below]
  from rec have upd: "update_payment_if (pay_id p)
      (\<lambda>r. pay_status r = PENDING \<and> same_nwc_lease p r \<and> \<not> free_lease now (nwc_lease_until (nwc r)) \<and>
           free_lease now (nwc_next_attempt_at (nwc r)))
      (\<lambda>r. let r1 = nwc_flushed p r in
           r1\<lparr>nwc := (nwc r1)\<lparr>nwc_attempt_count := nwc_attempt_count (nwc r) + 1,
             nwc_first_attempt_at :=
               (case nwc_first_attempt_at (nwc r) of None \<Rightarrow> Some now | Some t \<Rightarrow> Some t),
             nwc_last_attempt_at := Some now,
             nwc_next_attempt_at := Some (now + seconds (NWC_RETRY_BASE_SECONDS cfg *
               2 ^ nwc_attempt_count (nwc p))),
             nwc_state := Some ''sending'', nwc_error_code := None\<rparr>\<rparr>) (wdb w) = Some db'"
    by (simp add: record_nwc_send_attempt_def split: if_splits)
  show "sends_ok cfg (w\<lparr>wdb := db', calls := calls w @ [NwcPay (pay_id p) uri bolt]\<rparr>)"
    by (rule recorded_send [OF ok upd]) (auto simp: send_defs dest: limit)
  show "sends_ok cfg (w\<lparr>wdb := db'\<rparr>)"
    by (rule silent_send [OF ok upd]) (auto simp: send_defs dest: limit)
qed

lemma sends_clink:
  assumes ok: "sends_ok cfg w" and rec: "record_clink_send_attempt now p (wdb w) = Some db'"
  shows "sends_ok cfg (w\<lparr>wdb := db', calls := calls w @ [ClinkPay (pay_id p) nd bolt a t]\<rparr>)"
    "sends_ok cfg (w\<lparr>wdb := db'\<rparr>)"
proof -
  from rec have upd: "update_payment_if (pay_id p)
      (\<lambda>r. pay_status r = PENDING \<and> clink_attempt_count (clink r) = 0 \<and> same_clink_lease p r \<and>
           \<not> free_lease now (clink_lease_until (clink r)))
      (\<lambda>r. r\<lparr>clink := (clink r)\<lparr>clink_attempt_count := 1, clink_attempted_at := Some now,
             clink_state := Some ''sending'', clink_error_code := None\<rparr>\<rparr>) (wdb w) = Some db'"
    by (simp add: record_clink_send_attempt_def split: if_splits)
  show "sends_ok cfg (w\<lparr>wdb := db', calls := calls w @ [ClinkPay (pay_id p) nd bolt a t]\<rparr>)"
    by (rule recorded_send [OF ok upd]) (auto simp: send_defs)
  show "sends_ok cfg (w\<lparr>wdb := db'\<rparr>)"
    by (rule silent_send [OF ok upd]) (auto simp: send_defs)
qed

lemma sends_lnurl:
  assumes ok: "sends_ok cfg w" and rec: "claim_lnurl_creation now i (wdb w) = Some db'"
  shows "sends_ok cfg (w\<lparr>wdb := db', calls := calls w @ [LnurlCreate i a]\<rparr>)"
  by (rule recorded_send [OF ok rec [unfolded claim_lnurl_creation_def]]) (auto simp: send_defs)

definition sends_kept :: "settings \<Rightarrow> world \<Rightarrow> world \<Rightarrow> bool" where
  "sends_kept cfg w w' \<longleftrightarrow> (sends_ok cfg w \<longrightarrow> sends_ok cfg w')"

lemma sends_harmless:
  "harmless_call c \<Longrightarrow> sends_ok cfg (w\<lparr>calls := calls w @ [c]\<rparr>) = sends_ok cfg w"
  by (simp add: sends_ok_def list_all_iff harmless_row_sends)

interpretation sends: settlement_run cfg gw now "sends_kept cfg" for cfg gw now
proof
  fix w :: world and db'
  show "payment_tx cfg gw now (wdb w) db' \<Longrightarrow> sends_kept cfg w (w\<lparr>wdb := db'\<rparr>)"
    using rows_kept_sends [OF payment_tx_kept, of cfg gw now "wdb w" db'] by (simp add: sends_kept_def sends_ok_def)
qed (auto simp: sends_kept_def sends_nwc sends_clink sends_lnurl sends_harmless)

text \<open>A final status keeps its row, the status and the settlement instant.\<close>

definition final_row_kept :: "payment \<Rightarrow> payment \<Rightarrow> bool" where
  "final_row_kept r r' \<longleftrightarrow> pay_id r' = pay_id r \<and>
     (is_final (pay_status r) \<longrightarrow> pay_status r' = pay_status r \<and> paid_at r' = paid_at r)"

definition finals_kept :: "world \<Rightarrow> world \<Rightarrow> bool" where
  "finals_kept w w' \<longleftrightarrow> list_all2 final_row_kept (payments (wdb w)) (payments (wdb w'))"

lemma finals_kept_rows: "rows_kept now (wdb w) db' \<Longrightarrow> finals_kept w (w\<lparr>wdb := db'\<rparr>)"
  unfolding finals_kept_def rows_kept_def
  by (auto elim!: list_all2_mono simp: row_kept_def final_row_kept_def)

lemma finals_kept_update_if:
  assumes "update_payment_if i cond change (wdb w) = Some db'"
    and "\<And>r. cond r \<Longrightarrow> final_row_kept r (change r)"
  shows "finals_kept w (w\<lparr>wdb := db'\<rparr>)"
proof -
  have "list_all2 final_row_kept rs (update_where (\<lambda>p. pay_id p = i \<and> cond p) change rs)" for rs
    using assms(2) by (induction rs) (auto simp: table_simps final_row_kept_def)
  then show ?thesis using assms(1)
    by (auto simp: finals_kept_def update_payment_if_def Let_def split: if_splits)
qed

lemma finals_kept_calls [simp]: "finals_kept w (w'\<lparr>calls := cs\<rparr>) = finals_kept w w'"
  by (simp add: finals_kept_def)

lemma finals_sends:
  "record_nwc_send_attempt cfg now p (wdb w) = Some db' \<Longrightarrow> finals_kept w (w\<lparr>wdb := db'\<rparr>)"
  "record_clink_send_attempt now p (wdb w) = Some db' \<Longrightarrow> finals_kept w (w\<lparr>wdb := db'\<rparr>)"
  "claim_lnurl_creation now i (wdb w) = Some db' \<Longrightarrow> finals_kept w (w\<lparr>wdb := db'\<rparr>)"
  by (auto simp: record_nwc_send_attempt_def record_clink_send_attempt_def claim_lnurl_creation_def
      final_row_kept_def is_final_def nwc_flushed_def Let_def split: if_splits elim!: finals_kept_update_if)

lemma final_row_kept_trans: "final_row_kept a b \<Longrightarrow> final_row_kept b c \<Longrightarrow> final_row_kept a c"
  by (auto simp: final_row_kept_def)

interpretation finals: settlement_run cfg gw now finals_kept for cfg gw now
proof
  show "finals_kept w w" for w by (simp add: finals_kept_def final_row_kept_def list_all2_refl)
  show "finals_kept u v \<Longrightarrow> finals_kept v w \<Longrightarrow> finals_kept u w" for u v w
    unfolding finals_kept_def
    by (rule list_all2_trans [of final_row_kept final_row_kept final_row_kept]) (auto intro: final_row_kept_trans)
  show "payment_tx cfg gw now (wdb w) db' \<Longrightarrow> finals_kept w (w\<lparr>wdb := db'\<rparr>)" for w db'
    by (rule finals_kept_rows [OF payment_tx_kept])
  show "harmless_call c \<Longrightarrow> finals_kept w (w\<lparr>calls := calls w @ [c]\<rparr>)" for c w
    by (simp add: finals_kept_def final_row_kept_def list_all2_refl)
  show "record_nwc_send_attempt cfg now p (wdb w) = Some db' \<Longrightarrow> below_limit cfg p w \<Longrightarrow>
      finals_kept w (w\<lparr>wdb := db', calls := calls w @ [NwcPay (pay_id p) uri bolt]\<rparr>)" for p w db' uri bolt
    using finals_sends(1) [of cfg now p w db'] by simp
  show "record_nwc_send_attempt cfg now p (wdb w) = Some db' \<Longrightarrow> below_limit cfg p w \<Longrightarrow>
      finals_kept w (w\<lparr>wdb := db'\<rparr>)" for p w db'
    using finals_sends(1) [of cfg now p w db'] by simp
  show "record_clink_send_attempt now p (wdb w) = Some db' \<Longrightarrow>
      finals_kept w (w\<lparr>wdb := db', calls := calls w @ [ClinkPay (pay_id p) nd bolt a t]\<rparr>)" for p w db' nd bolt a t
    using finals_sends(2) [of now p w db'] by simp
  show "record_clink_send_attempt now p (wdb w) = Some db' \<Longrightarrow> finals_kept w (w\<lparr>wdb := db'\<rparr>)" for p w db'
    by (rule finals_sends(2))
  show "claim_lnurl_creation now i (wdb w) = Some db' \<Longrightarrow>
      finals_kept w (w\<lparr>wdb := db', calls := calls w @ [LnurlCreate i a]\<rparr>)" for i w db' a
    using finals_sends(3) [of now i w db'] by simp
qed

section \<open>Histories of settlement runs\<close>

text \<open>
  A history is any sequence of polls: each one at its own time, with its own provider answers and with
  any payment object its session loaded, stale or not.
\<close>

fun settle_history :: "settings \<Rightarrow> (gateway \<times> time \<times> payment) list \<Rightarrow> world \<Rightarrow> world" where
  "settle_history cfg [] w = w"
| "settle_history cfg ((gw, now, p) # polls) w =
     settle_history cfg polls (snd (check_and_settle_payment cfg gw now p w))"

lemma sends_history: "sends_ok cfg w \<Longrightarrow> sends_ok cfg (settle_history cfg polls w)"
proof (induction cfg polls w rule: settle_history.induct)
  case (2 cfg gw now p polls w)
  have "sends_kept cfg w (snd (check_and_settle_payment cfg gw now p w))"
    by (rule sends.keepsD [OF sends.keeps_check_and_settle])
  then show ?case using 2 by (simp add: sends_kept_def)
qed simp

lemma finals_history: "finals_kept w (settle_history cfg polls w)"
proof (induction cfg polls w rule: settle_history.induct)
  case (2 cfg gw now p polls w)
  have "finals_kept w (snd (check_and_settle_payment cfg gw now p w))"
    by (rule finals.keepsD [OF finals.keeps_check_and_settle])
  then show ?case using 2 finals.R_trans by simp
qed (simp add: finals.R_refl)

lemma final_row_found:
  "list_all2 final_row_kept rs rs' \<Longrightarrow> get_row pay_id i rs = Some r \<Longrightarrow>
    \<exists>r'. get_row pay_id i rs' = Some r' \<and> final_row_kept r r'"
  by (induction rs rs' rule: list_all2_induct) (auto simp: get_row_def final_row_kept_def)

text \<open>Polls of one payment at an idle gateway, for the worked instances.\<close>

definition idle_gateway :: gateway where
  "idle_gateway = \<lparr> lnd_lookup = (\<lambda>_ _. None), lnd_create = (\<lambda>_ _. None), lnd_state = (\<lambda>_ _. None),
     lnd_paid = (\<lambda>_ _. Some False), lnurl_create = (\<lambda>_ _. None), lnurl_state = (\<lambda>_ _. None),
     nwc_lookup = (\<lambda>_ _. Inl \<lparr>err_code = ''RELAY_TIMEOUT'', err_retryable = True, err_wallet_rejection = False\<rparr>),
     nwc_pay = (\<lambda>_ _. Inl \<lparr>err_code = ''RELAY_TIMEOUT'', err_retryable = True, err_wallet_rejection = False\<rparr>),
     clink_pay = (\<lambda>_ _. Inl \<lparr>err_code = ''RELAY_TIMEOUT'', err_retryable = True, err_wallet_rejection = False\<rparr>),
     invoice_hmac = (\<lambda>_. None), sha256_hex = id, preimage_digest = Some,
     decrypt = (\<lambda>_ _. None), seal_identity = (\<lambda>_ _. None),
     invoice_uuid = ''u'', nwc_token = ''n'', clink_token = ''c'' \<rparr>"

text \<open>The throttle of the LNURL check: a nested check of a row claimed at this instant asks nobody.\<close>

definition throttled :: "time \<Rightarrow> int \<Rightarrow> world \<Rightarrow> bool" where
  "throttled now i w \<longleftrightarrow> distinct (map pay_id (payments (wdb w))) \<and>
     (\<forall>r. get_payment (wdb w) i = Some r \<longrightarrow> lnurl_last_checked_at r = Some now)"

lemma claim_lnurl_check_throttled: "throttled now i w \<Longrightarrow> claim_lnurl_check now i (wdb w) = None"
  unfolding claim_lnurl_check_def throttled_def
  by (subst update_payment_if_None) (auto simp: clock_simps)

lemma claim_lnurl_check_throttles:
  assumes d: "distinct (map pay_id (payments (wdb w)))" and claim: "claim_lnurl_check now i (wdb w) = Some db'"
  shows "throttled now i (w\<lparr>wdb := db'\<rparr>)"
proof -
  let ?c = "\<lambda>r. settlement_verified_at r = None \<and>
    (case lnurl_last_checked_at r of None \<Rightarrow> True | Some t \<Rightarrow> t \<le> now - seconds 10)"
  let ?f = "\<lambda>r :: payment. r\<lparr>lnurl_last_checked_at := Some now\<rparr>"
  obtain r where r: "get_payment (wdb w) i = Some r" "?c r"
    and db': "db' = (wdb w)\<lparr>payments := update_where (\<lambda>p. pay_id p = i \<and> ?c p) ?f (payments (wdb w))\<rparr>"
    using claim update_payment_if_Some [OF d, of i ?c ?f db'] unfolding claim_lnurl_check_def by blast
  have "get_payment db' i = Some (?f r)"
    unfolding db' using r by (subst get_payment_update_if) simp_all
  moreover have "distinct (map pay_id (payments db'))"
    unfolding db' using d by (simp add: map_update_where)
  ultimately show ?thesis by (simp add: throttled_def)
qed

lemma checked_row_found:
  assumes "list_all2 (row_kept now) rs rs'" and "get_row pay_id i rs' = Some r'"
  shows "\<exists>r. get_row pay_id i rs = Some r \<and> row_kept now r r'"
  using assms by (induction rs rs' rule: list_all2_induct) (auto simp: get_row_def row_kept_def split: if_splits)

lemma throttled_kept:
  assumes kept: "rows_kept now (wdb w) (wdb w')" and t: "throttled now i w" shows "throttled now i w'"
proof -
  have "map pay_id (payments (wdb w')) = map pay_id (payments (wdb w))" by (rule rows_kept_sends(2) [OF kept])
  moreover have "lnurl_last_checked_at r' = Some now" if "get_payment (wdb w') i = Some r'" for r'
  proof -
    have "list_all2 (row_kept now) (payments (wdb w)) (payments (wdb w'))" using kept by (simp add: rows_kept_def)
    from checked_row_found [OF this that [unfolded get_payment_def]]
    obtain r where r: "get_payment (wdb w) i = Some r" "row_kept now r r'" unfolding get_payment_def by blast
    have "lnurl_last_checked_at r = Some now" using t r(1) by (simp add: throttled_def)
    then show ?thesis using r(2) by (simp add: row_kept_def)
  qed
  ultimately show ?thesis using t by (simp add: throttled_def)
qed

lemma throttled_update_if:
  assumes t: "throttled now i w" and upd: "update_payment_if j cond change (wdb w) = Some db'"
    and same: "\<And>r. pay_id (change r) = pay_id r" "\<And>r. lnurl_last_checked_at (change r) = lnurl_last_checked_at r"
  shows "throttled now i (w\<lparr>wdb := db'\<rparr>)"
proof -
  have d: "distinct (map pay_id (payments (wdb w)))" using t by (simp add: throttled_def)
  have db': "db' = (wdb w)\<lparr>payments := update_where (\<lambda>p. pay_id p = j \<and> cond p) change (payments (wdb w))\<rparr>"
    using upd update_payment_if_Some [OF d, of j cond change db'] by blast
  have get: "get_payment db' i = (if i = j then map_option (\<lambda>p. if cond p then change p else p) (get_payment (wdb w) j)
      else get_payment (wdb w) i)"
    unfolding db' by (rule get_payment_update_if) (rule same(1))
  have "lnurl_last_checked_at r' = Some now" if r': "get_payment db' i = Some r'" for r'
  proof -
    obtain r where r: "get_payment (wdb w) i = Some r" "r' = r \<or> r' = change r"
      using r' unfolding get by (cases "get_payment (wdb w) i") (simp_all split: if_splits)
    then have "lnurl_last_checked_at r = Some now" using t by (simp add: throttled_def)
    then show ?thesis using r(2) same(2) by (elim disjE) simp_all
  qed
  moreover have "distinct (map pay_id (payments db'))"
    unfolding db' using d same(1) by (simp add: map_update_where)
  ultimately show ?thesis by (simp add: throttled_def)
qed

definition throttle_kept :: "time \<Rightarrow> int \<Rightarrow> world \<Rightarrow> world \<Rightarrow> bool" where
  "throttle_kept now i w w' \<longleftrightarrow> (throttled now i w \<longrightarrow> throttled now i w')"

lemma throttled_sends:
  assumes "throttled now i w"
  shows "record_nwc_send_attempt cfg now p (wdb w) = Some db' \<Longrightarrow> throttled now i (w\<lparr>wdb := db'\<rparr>)"
    "record_clink_send_attempt now p (wdb w) = Some db' \<Longrightarrow> throttled now i (w\<lparr>wdb := db'\<rparr>)"
    "claim_lnurl_creation now j (wdb w) = Some db' \<Longrightarrow> throttled now i (w\<lparr>wdb := db'\<rparr>)"
  by (auto simp: record_nwc_send_attempt_def record_clink_send_attempt_def claim_lnurl_creation_def
      nwc_flushed_def Let_def split: if_splits elim!: throttled_update_if [OF assms])

lemma throttled_calls [simp]: "throttled now i (w\<lparr>calls := cs\<rparr>) = throttled now i w"
  by (simp add: throttled_def)

interpretation throttle: settlement_run cfg gw now "throttle_kept now i" for cfg gw now i
proof
  fix w :: world and db'
  show "payment_tx cfg gw now (wdb w) db' \<Longrightarrow> throttle_kept now i w (w\<lparr>wdb := db'\<rparr>)"
    using throttled_kept [of now w "w\<lparr>wdb := db'\<rparr>" i] payment_tx_kept [of cfg gw now "wdb w" db']
    by (simp add: throttle_kept_def)
qed (simp_all add: throttle_kept_def throttled_sends)

lemma throttled_verify:
  "throttled now (pay_id p) w \<Longrightarrow> verify_lnurl_payment cfg gw now fin p w = verify_lnurl_payment cfg gw now fin' p w"
  by (simp add: verify_lnurl_payment_def claim_lnurl_check_throttled)

lemma reload_id: "reload_payment i w = (Inr q, w') \<Longrightarrow> pay_id q = i \<and> w' = w"
  by (auto simp: reload_payment_def dest: get_payment_id split: option.splits)

lemma commit_id: "commit f i w = (Inr q, w') \<Longrightarrow> pay_id q = i"
  unfolding commit_def using reload_id by blast

lemma ensure_lightning_id:
  assumes "ensure_lightning_invoice cfg gw now p w = (Inr q, w')" shows "pay_id q = pay_id p"
proof -
  note cases = if_splits option.splits sum.splits prod.splits
  have lnurl: "ensure_lnurl_invoice gw now r v = (Inr q, w') \<Longrightarrow> pay_id q = pay_id r" for r v
    by (auto simp: ensure_lnurl_invoice_def andthen_def raise_def return_def dest!: commit_id split: cases)
  have bind: "bind_invoice cfg now r iv v = (Inr q, w') \<Longrightarrow> pay_id q = pay_id r" for r iv v
    by (auto simp: bind_invoice_def raise_def Let_def dest!: commit_id split: cases)
  have lnd: "ensure_lnd_invoice cfg gw now r v = (Inr q, w') \<Longrightarrow> pay_id q = pay_id r" for r v
    by (auto simp: ensure_lnd_invoice_def andthen_def raise_def return_def Let_def
        dest!: commit_id bind split: cases)
  show ?thesis using assms
    by (auto simp: ensure_lightning_invoice_def andthen_def raise_def return_def
        dest!: lnurl lnd dest: reload_id split: cases)
qed

lemma throttled_check:
  assumes t: "throttled now (pay_id p) w"
  shows "check_lnurl_payment cfg gw now fin p w = check_lnurl_payment cfg gw now fin' p w"
proof (cases "reload_payment (pay_id p) w")
  case (Pair res w1)
  show ?thesis
  proof (cases res)
    case (Inl e)
    then show ?thesis using Pair by (simp add: check_lnurl_payment_def andthen_def)
  next
    case (Inr q)
    then have q: "pay_id q = pay_id p" "w1 = w" using Pair reload_id by auto
    have later: "verify_lnurl_payment cfg gw now fin q1 v = verify_lnurl_payment cfg gw now fin' q1 v"
      if e: "ensure_lightning_invoice cfg gw now q w = (Inr q1, v)" for q1 v
    proof -
      have "throttle_kept now (pay_id p) w v"
        using throttle.keepsD [OF throttle.keeps_ensure_lightning, of now "pay_id p" w cfg gw q] e by simp
      then have "throttled now (pay_id q1) v"
        using t ensure_lightning_id [OF e] q(1) by (simp add: throttle_kept_def)
      then show ?thesis by (rule throttled_verify)
    qed
    have "andthen (ensure_lightning_invoice cfg gw now q)
        (\<lambda>q1. if \<not> nonempty (invoice q1) then return q1 else verify_lnurl_payment cfg gw now f q1) w =
      (case ensure_lightning_invoice cfg gw now q w of (Inl e, v) \<Rightarrow> (Inl e, v)
        | (Inr q1, v) \<Rightarrow> if \<not> nonempty (invoice q1) then return q1 v else verify_lnurl_payment cfg gw now f q1 v)" for f
      by (simp add: andthen_def split: prod.splits sum.splits)
    then show ?thesis using Pair Inr q throttled_verify [of now q w cfg gw fin fin'] t later
      by (simp add: check_lnurl_payment_def andthen_def [of "reload_payment _"] split: prod.splits sum.splits)
  qed
qed

section \<open>Properties\<close>

text \<open>
  C2: wallets are not debited twice. Over any history of polls of any payments, each poll with its own
  clock, its own provider answers (timeouts included) and a possibly stale payment object: a CLINK wallet
  is asked to pay a payment at most once, an NWC wallet at most as many times as the attempt limit
  allows (the first attempt is always allowed), and the LNURL server is asked for at most one invoice;
  and these calls never outnumber the attempts the payment row records.
\<close>

theorem wallet_debits_bounded:
  assumes "sends_ok cfg w"
  shows "sends_ok cfg (settle_history cfg polls w) \<and>
    list_all (\<lambda>r. number_of (clink_debit (pay_id r)) (calls (settle_history cfg polls w)) \<le> 1 \<and>
        number_of (nwc_debit (pay_id r)) (calls (settle_history cfg polls w)) \<le> max 1 (NWC_MAX_PAYMENT_ATTEMPTS cfg) \<and>
        number_of (lnurl_creation (pay_id r)) (calls (settle_history cfg polls w)) \<le> 1)
      (payments (wdb (settle_history cfg polls w)))"
proof -
  have ok: "sends_ok cfg (settle_history cfg polls w)" by (rule sends_history) (rule assms)
  then have "row_sends_ok cfg (calls (settle_history cfg polls w)) r"
    if "r \<in> set (payments (wdb (settle_history cfg polls w)))" for r
    using that by (simp add: sends_ok_def list_all_iff)
  then show ?thesis using ok by (fastforce simp: list_all_iff row_sends_ok_def split: if_splits)
qed

theorem wallet_debits_bounded_witness:
  "sends_ok example_settings (settle_history example_settings
     [(idle_gateway, 0, sample_payment\<lparr>pay_method := NWC\<rparr>), (idle_gateway, days 1, sample_payment\<lparr>pay_method := NWC\<rparr>)]
     \<lparr>wdb = empty_database\<lparr>payments := [sample_payment\<lparr>pay_method := NWC\<rparr>]\<rparr>, calls = []\<rparr>)"
  by (rule wallet_debits_bounded [THEN conjunct1])
    (simp add: sends_ok_def row_sends_ok_def number_of_def sample_payment_def blank_nwc_def blank_clink_def)

text \<open>
  C6: a paid, expired or failed payment stays so. Whatever polls follow, with whatever provider answers,
  a payment whose status is final keeps its row, its status and its settlement instant.
\<close>

theorem final_status_stable:
  assumes "get_payment (wdb w) i = Some r" and "is_final (pay_status r)"
  shows "\<exists>r'. get_payment (wdb (settle_history cfg polls w)) i = Some r' \<and>
    pay_status r' = pay_status r \<and> paid_at r' = paid_at r"
  using final_row_found [OF finals_history [of w cfg polls, unfolded finals_kept_def], of i r] assms
  by (auto simp: get_payment_def final_row_kept_def)

theorem final_status_stable_witness:
  "\<exists>r'. get_payment (wdb (settle_history example_settings [(idle_gateway, 0, sample_payment)]
      \<lparr>wdb = empty_database\<lparr>payments := [sample_payment\<lparr>pay_status := EXPIRED\<rparr>]\<rparr>, calls = []\<rparr>)) 1 = Some r' \<and>
    pay_status r' = EXPIRED \<and> paid_at r' = None"
  using final_status_stable [of "\<lparr>wdb = empty_database\<lparr>payments := [sample_payment\<lparr>pay_status := EXPIRED\<rparr>]\<rparr>, calls = []\<rparr>"
      1 "sample_payment\<lparr>pay_status := EXPIRED\<rparr>" example_settings "[(idle_gateway, 0, sample_payment)]"]
  by (simp add: get_payment_def get_row_def sample_payment_def is_final_def)

text \<open>
  Why the nested verifications counted by \<open>finalize_payment\<close> lose nothing at one clock reading: verifying an
  LNURL payment may settle it, and settling an LNURL payment verifies it first; a check claims the throttle of
  the row, the claim survives everything a settlement run does at that instant, and a nested settlement at any
  depth then behaves as at depth 1. The throttle lasts ten seconds: nothing is said of provider calls that
  outlast it.
\<close>

lemma lnurl_throttle_settles:
  assumes "throttled now (pay_id p) w"
  shows "finalize_payment (Suc depth) cfg gw now p w = finalize_payment 1 cfg gw now p w \<and>
    throttled now (pay_id p) (snd (check_and_settle_payment cfg gw now q w))"
proof
  show "finalize_payment (Suc depth) cfg gw now p w = finalize_payment 1 cfg gw now p w"
    using throttled_check [OF assms] by simp
  show "throttled now (pay_id p) (snd (check_and_settle_payment cfg gw now q w))"
    using throttle.keepsD [OF throttle.keeps_check_and_settle, of now "pay_id p" w cfg gw q] assms
    by (simp add: throttle_kept_def)
qed

lemma lnurl_throttle_settles_example:
  "finalize_payment 5 example_settings idle_gateway 0 (sample_payment\<lparr>invoice_provider := Some ''lnurl''\<rparr>)
      \<lparr>wdb = empty_database\<lparr>payments := [sample_payment\<lparr>lnurl_last_checked_at := Some 0\<rparr>]\<rparr>, calls = []\<rparr> =
   finalize_payment 1 example_settings idle_gateway 0 (sample_payment\<lparr>invoice_provider := Some ''lnurl''\<rparr>)
      \<lparr>wdb = empty_database\<lparr>payments := [sample_payment\<lparr>lnurl_last_checked_at := Some 0\<rparr>]\<rparr>, calls = []\<rparr>"
proof -
  let ?p = "sample_payment\<lparr>invoice_provider := Some ''lnurl''\<rparr>"
  let ?w = "\<lparr>wdb = empty_database\<lparr>payments := [sample_payment\<lparr>lnurl_last_checked_at := Some 0\<rparr>]\<rparr>, calls = []\<rparr>"
  have "throttled 0 (pay_id ?p) ?w"
    by (simp add: throttled_def get_payment_def get_row_def sample_payment_def)
  from lnurl_throttle_settles [OF this, of 4 example_settings idle_gateway ?p]
  show ?thesis by (simp add: numeral_eq_Suc)
qed

lemma set_payment_flushed:
  assumes d: "distinct (map pay_id (payments db))" and p: "get_payment db (pay_id p) = Some p"
  shows "set_payment (pay_id p) (nwc_flushed p) db = db"
proof -
  have "update_where (\<lambda>r. pay_id r = pay_id p) (nwc_flushed p) (payments db) = payments db"
    unfolding update_where_def
  proof (rule map_idI)
    fix r assume r: "r \<in> set (payments db)"
    have "r = p" if "pay_id r = pay_id p"
      using get_row_unique [OF d r] p that by (simp add: get_payment_def)
    then show "(if pay_id r = pay_id p then nwc_flushed p r else r) = r" by (auto simp: nwc_flushed_def)
  qed
  then show ?thesis by (simp add: set_payment_def)
qed

text \<open>
  C28: one poll of a pending Lightning payment with a bound invoice does what the node's answer says. It
  asks the node exactly once; if the node reports the invoice paid, the payment is settled by the
  settlement transaction, or its error is raised and nothing is committed; if not, the payment is expired
  exactly when its deadline has passed; and if the node does not answer, the provider error is raised and
  nothing changes.
\<close>

theorem lightning_poll_exact:
  assumes d: "distinct (map pay_id (payments (wdb w)))" and p: "get_payment (wdb w) (pay_id p) = Some p"
    and pend: "pay_status p = PENDING" "pay_method p = LIGHTNING" "\<not> is_lnurl p"
    and cfg: "is_payment_method_enabled cfg LIGHTNING" "\<not> uses_lnurl_adapter cfg"
    and bound: "nonempty (invoice p)" "payment_hash p = Some h" "h \<noteq> []"
  shows "check_and_settle_payment cfg gw now p w =
    (let w1 = w\<lparr>calls := calls w @ [LndPaid (pay_id p) h]\<rparr>
     in case lnd_paid gw (calls w) (LndPaid (pay_id p) h) of
       None \<Rightarrow> (Inl (PaymentProviderError ''Lightning invoice provider is unavailable''), w1)
     | Some True \<Rightarrow> (case finalize_tx cfg (seal_identity gw) now (pay_id p) PENDING None (wdb w) of
           Inl e \<Rightarrow> (Inl e, w1)
         | Inr db' \<Rightarrow> reload_payment (pay_id p) (w1\<lparr>wdb := db'\<rparr>))
     | Some False \<Rightarrow> if (case expires_at p of Some e \<Rightarrow> e \<le> now | None \<Rightarrow> False)
         then reload_payment (pay_id p) (w1\<lparr>wdb := expire_payment now p (wdb w)\<rparr>) else (Inr p, w1))"
proof -
  define w1 where "w1 = w\<lparr>calls := calls w @ [LndPaid (pay_id p) h]\<rparr>"
  note flushed = set_payment_flushed [OF d p]
  have ensure: "ensure_lightning_invoice cfg gw now p w = (Inr p, w)"
    using p pend bound by (simp add: ensure_lightning_invoice_def andthen_def reload_payment_def return_def is_lnd_backed_def)
  have fin: "finalize_payment 1 cfg gw now p w1 = (case finalize_tx cfg (seal_identity gw) now (pay_id p) PENDING None (wdb w) of
           Inl e \<Rightarrow> (Inl e, w1) | Inr db' \<Rightarrow> reload_payment (pay_id p) (w1\<lparr>wdb := db'\<rparr>))"
    using p pend by (simp add: finalize_direct_def commit_or_raise_def w1_def flushed split: sum.splits)
  have asked: "ask (lnd_paid gw) (LndPaid (pay_id p) h) w = (lnd_paid gw (calls w) (LndPaid (pay_id p) h), w1)"
    by (simp add: ask_def w1_def)
  have same: "reload_payment (pay_id p) w1 = (Inr p, w1)" "wdb w1 = wdb w"
    using p by (simp_all add: reload_payment_def w1_def)
  have "check_and_settle_payment cfg gw now p w =
    (case lnd_paid gw (calls w) (LndPaid (pay_id p) h) of
       None \<Rightarrow> (Inl (PaymentProviderError ''Lightning invoice provider is unavailable''), w1)
     | Some settled \<Rightarrow> if settled then finalize_payment 1 cfg gw now p w1
         else if (case expires_at p of Some e \<Rightarrow> e \<le> now | None \<Rightarrow> False)
         then reload_payment (pay_id p) (w1\<lparr>wdb := expire_payment now p (wdb w)\<rparr>) else (Inr p, w1))"
    using pend cfg bound
    by (simp add: check_and_settle_payment_def Let_def is_lnd_backed_def andthen_def ensure asked raise_def
        commit_def same split: option.splits)
  then show ?thesis unfolding fin w1_def [symmetric] Let_def by (simp split: option.splits bool.splits)
qed

theorem lightning_poll_exact_witness:
  "fst (check_and_settle_payment (example_settings\<lparr>PAYMENT_LIGHTNING_ADAPTER := ''lnd''\<rparr>) idle_gateway (days 2)
      (sample_payment\<lparr>invoice := Some ''ln'', payment_hash := Some ''h'', expires_at := Some (days 3)\<rparr>)
      \<lparr>wdb = empty_database\<lparr>payments := [sample_payment\<lparr>invoice := Some ''ln'', payment_hash := Some ''h'',
         expires_at := Some (days 3)\<rparr>]\<rparr>, calls = []\<rparr>) =
   Inr (sample_payment\<lparr>invoice := Some ''ln'', payment_hash := Some ''h'', expires_at := Some (days 3)\<rparr>)"
  by (subst lightning_poll_exact [where h = "''h''"])
    (simp_all add: str_lower_def lower_char_def get_payment_def get_row_def sample_payment_def is_lnurl_def is_payment_method_enabled_def
      uses_lnurl_adapter_def example_settings_def idle_gateway_def clock_simps Let_def)

end
