(* ===== verification/Settlement_Standing.thy ===== *)
theory Settlement_Standing
  imports Payment_Wallets
begin

text \<open>
  What a settlement run does to subscriptions: every transaction it commits either leaves the standing
  of every subscription alone (it only clears reservations and automatic renewal) or settles a pending
  payment. From this follows the relation between the subscriptions before and after a run that the
  order operations rely on.
\<close>

section \<open>Quiet transactions\<close>

text \<open>A row without the columns that quiet transactions write; an assignment is kept or given up.\<close>

definition standing :: "subscription \<Rightarrow> subscription" where
  "standing s = s\<lparr>assigned_ip := None, assigned_port := None, reservation_expires_at := None,
     reservation_payment_id := None, auto_renew := False, sub_updated_at := 0\<rparr>"

definition sub_quiet :: "subscription \<Rightarrow> subscription \<Rightarrow> bool" where
  "sub_quiet s s' \<longleftrightarrow> standing s' = standing s \<and>
     (assigned_ip s' = assigned_ip s \<and> assigned_port s' = assigned_port s \<or> assigned_ip s' = None \<and> assigned_port s' = None)"

definition quiet_subs :: "database \<Rightarrow> database \<Rightarrow> bool" where
  "quiet_subs db db' \<longleftrightarrow> map sub_id (subscriptions db') = map sub_id (subscriptions db) \<and>
     (\<forall>i. rel_option sub_quiet (get_subscription db i) (get_subscription db' i))"

text \<open>The billing snapshot of a payment, which no transaction changes.\<close>

definition billing :: "payment \<Rightarrow> int list \<times> billing_term \<times> string option \<times> bool \<times> int option" where
  "billing p = ([period_days p, amount_sats p, markup_sats p, service_price_sats p, discount_sats p,
     stablecoin_surcharge_sats p], pay_billing_term p, stablecoin_provider p, pay_method p = STABLECOIN_SWAP, agent_order_id p)"

definition unpaid_row :: "payment \<Rightarrow> payment \<Rightarrow> bool" where
  "unpaid_row r r' \<longleftrightarrow> pay_id r' = pay_id r \<and> pay_subscription_id r' = pay_subscription_id r \<and>
     billing r' = billing r \<and>
     (pay_status r' = PAID \<longrightarrow> pay_status r = PAID) \<and> (is_open (pay_status r') \<longrightarrow> is_open (pay_status r))"

definition quiet :: "database \<Rightarrow> database \<Rightarrow> bool" where
  "quiet db db' \<longleftrightarrow> quiet_subs db db' \<and> list_all2 unpaid_row (payments db) (payments db') \<and> users db' = users db \<and>
     agent_orders db' = agent_orders db"

lemma sub_quiet_refl [simp]: "sub_quiet s s"
  by (simp add: sub_quiet_def)

lemma sub_quiet_trans: "sub_quiet a b \<Longrightarrow> sub_quiet b c \<Longrightarrow> sub_quiet a c"
  by (auto simp: sub_quiet_def)

lemma sub_quiet_changes [simp]:
  "sub_quiet s (s\<lparr>auto_renew := b\<rparr>)" "sub_quiet s (reservation_cleared now s)"
  by (simp_all add: sub_quiet_def standing_def reservation_cleared_def)

lemma standing_simps [simp]:
  "sub_id (standing s) = sub_id s" "sub_user_id (standing s) = sub_user_id s" "product (standing s) = product s"
  "sub_status (standing s) = sub_status s" "domain (standing s) = domain s"
  "relay_hostname_scope (standing s) = relay_hostname_scope s"
  "upgrade_from_subscription_id (standing s) = upgrade_from_subscription_id s"
  "domain_claim_expires_at (standing s) = domain_claim_expires_at s"
  "domain_renewal_grace_expires_at (standing s) = domain_renewal_grace_expires_at s"
  "current_period_end (standing s) = current_period_end s"
  "monthly_price_sats (standing s) = monthly_price_sats s" "yearly_price_sats (standing s) = yearly_price_sats s"
  "transport (standing s) = transport s" "delivery (standing s) = delivery s"
  by (simp_all add: standing_def)

text \<open>Columns a quiet transaction leaves alone.\<close>

lemma sub_quiet_column: "sub_quiet s s' \<Longrightarrow> (\<And>x. f (standing x) = f x) \<Longrightarrow> f s' = f s"
  unfolding sub_quiet_def by metis

lemma sub_quietD:
  assumes "sub_quiet s s'"
  shows "sub_id s' = sub_id s" "sub_user_id s' = sub_user_id s" "product s' = product s"
    "sub_status s' = sub_status s" "domain s' = domain s" "relay_hostname_scope s' = relay_hostname_scope s"
    "upgrade_from_subscription_id s' = upgrade_from_subscription_id s"
    "domain_claim_expires_at s' = domain_claim_expires_at s"
    "domain_renewal_grace_expires_at s' = domain_renewal_grace_expires_at s"
    "current_period_end s' = current_period_end s"
    "monthly_price_sats s' = monthly_price_sats s" "yearly_price_sats s' = yearly_price_sats s"
    "transport s' = transport s" "delivery s' = delivery s"
  by (rule sub_quiet_column [OF assms], simp)+

lemma billing_snapshot:
  assumes "billing p = billing q" shows "check_billing_snapshot p = check_billing_snapshot q"
proof -
  have eqs: "period_days p = period_days q" "amount_sats p = amount_sats q" "markup_sats p = markup_sats q"
    "service_price_sats p = service_price_sats q" "discount_sats p = discount_sats q"
    "stablecoin_surcharge_sats p = stablecoin_surcharge_sats q" "pay_billing_term p = pay_billing_term q"
    "stablecoin_provider p = stablecoin_provider q" "pay_method p = STABLECOIN_SWAP \<longleftrightarrow> pay_method q = STABLECOIN_SWAP"
    using assms by (simp_all add: billing_def)
  show ?thesis
    unfolding check_billing_snapshot_def snapshot_prices_def check_stablecoin_snapshot_def eqs ..
qed

lemma unpaid_row_refl [simp]: "unpaid_row r r"
  by (simp add: unpaid_row_def)

lemma unpaid_rows_refl [simp]: "list_all2 unpaid_row rs rs"
  by (simp add: list_all2_refl)

lemma unpaid_rows_trans:
  "list_all2 unpaid_row a b \<Longrightarrow> list_all2 unpaid_row b c \<Longrightarrow> list_all2 unpaid_row a c"
  by (rule list_all2_trans [of unpaid_row unpaid_row unpaid_row]) (auto simp: unpaid_row_def)

lemma quiet_subs_eq: "subscriptions db' = subscriptions db \<Longrightarrow> quiet_subs db db'"
  by (simp add: quiet_subs_def get_subscription_def option.rel_refl)

lemma rel_option_trans:
  "(\<And>x y z. R x y \<Longrightarrow> S y z \<Longrightarrow> T x z) \<Longrightarrow> rel_option R a b \<Longrightarrow> rel_option S b c \<Longrightarrow> rel_option T a c"
  by (cases a; cases b; cases c) auto

lemma quiet_subs_trans: "quiet_subs a b \<Longrightarrow> quiet_subs b c \<Longrightarrow> quiet_subs a c"
  unfolding quiet_subs_def by (auto intro: rel_option_trans [of sub_quiet sub_quiet sub_quiet] sub_quiet_trans)

lemma quiet_subs_set:
  assumes "\<And>s. sub_quiet s (f s)"
  shows "quiet_subs db (set_subscription i f db)"
proof -
  have id: "sub_id (f s) = sub_id s" for s using sub_quietD(1) [OF assms] .
  have "map sub_id (subscriptions (set_subscription i f db)) = map sub_id (subscriptions db)"
    by (simp add: set_subscription_def map_update_where id)
  then show ?thesis
    by (auto simp: quiet_subs_def get_set_subscription [OF id] assms option.rel_refl option.rel_map option.rel_sel)
qed

lemma quiet_refl [simp]: "quiet db db"
  by (simp add: quiet_def quiet_subs_eq)

lemma quiet_trans: "quiet a b \<Longrightarrow> quiet b c \<Longrightarrow> quiet a c"
  unfolding quiet_def using quiet_subs_trans unpaid_rows_trans by metis

lemma quiet_subsI:
  "quiet_subs db db' \<Longrightarrow> payments db' = payments db \<Longrightarrow> users db' = users db \<Longrightarrow> agent_orders db' = agent_orders db \<Longrightarrow>
    quiet db db'"
  by (simp add: quiet_def)

lemma quiet_frame:
  "subscriptions db' = subscriptions db \<Longrightarrow> payments db' = payments db \<Longrightarrow> users db' = users db \<Longrightarrow>
    agent_orders db' = agent_orders db \<Longrightarrow> quiet db db'"
  by (simp add: quiet_def quiet_subs_eq)

lemma quiet_release_reservation: "quiet db (snd (release_reservation now sub i db))"
proof (rule quiet_subsI)
  show "quiet_subs db (snd (release_reservation now sub i db))"
    using quiet_subs_trans [OF quiet_subs_eq quiet_subs_set,
        of "snd (release now sub ''payment reservation released'' db)" db "reservation_cleared now" "sub_id sub"]
    by (simp add: release_reservation_def quiet_subs_eq)
qed simp_all

lemma unpaid_update_where:
  "(\<And>r. p r \<Longrightarrow> unpaid_row r (f r)) \<Longrightarrow> list_all2 unpaid_row rs (update_where p f rs)"
  by (induction rs) (auto simp: table_simps)

lemma quiet_update_if:
  assumes "update_payment_if i cond change db = Some db'" and "\<And>r. cond r \<Longrightarrow> unpaid_row r (change r)"
  shows "quiet db db'"
  using assms by (auto simp: update_payment_if_def Let_def quiet_def quiet_subs_eq split: if_splits
      intro!: unpaid_update_where)

lemma quiet_set_payment: "(\<And>r. unpaid_row r (f r)) \<Longrightarrow> quiet db (set_payment i f db)"
  by (simp add: set_payment_def quiet_def quiet_subs_eq unpaid_update_where)

lemma quiet_expire: "quiet db (expire_payment now p db)"
proof (cases "conditional_status_update (pay_id p) PENDING EXPIRED id db")
  case (Some db1)
  then have "quiet db db1" unfolding conditional_status_update_def
    by (rule quiet_update_if) (simp add: unpaid_row_def billing_def is_open_def)
  moreover have "quiet db1 (release_for_payment now p db1)"
    by (simp add: release_for_payment_def quiet_release_reservation split: option.splits)
  ultimately show ?thesis using Some quiet_trans by (simp add: expire_payment_def)
qed (simp add: expire_payment_def)

lemma quiet_drop_renewal:
  assumes "drop_automatic_renewal cfg seal now p db = Inr db'" shows "quiet db db'"
proof (cases "get_subscription db (pay_subscription_id p)")
  case (Some sub)
  let ?off = "\<lambda>s :: subscription. s\<lparr>auto_renew := False\<rparr>"
  let ?db1 = "set_subscription (sub_id sub) ?off db"
  obtain b db2 where rel: "release_reservation now (?off sub) (pay_id p) ?db1 = (b, db2)" by (rule prod.exhaust)
  have q1: "quiet db ?db1" by (rule quiet_subsI) (simp_all add: quiet_subs_set)
  have q2: "quiet ?db1 db2" using quiet_release_reservation [of ?db1 now "?off sub" "pay_id p"] rel by simp
  have "quiet db2 db'"
    using assms Some rel
    by (auto simp: drop_automatic_renewal_def queue_automatic_renewal_failure_notification_def Let_def
        split: option.splits if_splits dest: queue_notification_frame intro!: quiet_frame)
  then show ?thesis using q1 q2 quiet_trans by metis
qed (use assms in \<open>simp add: drop_automatic_renewal_def\<close>)


text \<open>Every transaction of a settlement run is quiet, possibly up to the settlement of one pending payment.\<close>

lemma payment_tx_quiet:
  assumes "payment_tx cfg gw now db db'"
  obtains "quiet db db'"
  | i v db0 where "quiet db db0" and "finalize_tx cfg (seal_identity gw) now i PENDING v db0 = Inr db'"
  using assms
proof cases
  case (tx_finalize i v p)
  have "quiet db (set_payment i (nwc_flushed p) db)"
    by (rule quiet_set_payment) (simp add: nwc_flushed_def unpaid_row_def billing_def)
  then show ?thesis using tx_finalize that(2) by blast
next
  case (tx_verified i v)
  then show ?thesis using that(2) quiet_refl by blast
next
  case (tx_expire p)
  then show ?thesis using that(1) quiet_expire by simp
next
  case (tx_review p)
  let ?db1 = "if pay_status p = PENDING then expire_payment now p db else db"
  have "quiet db ?db1" by (simp add: quiet_expire)
  moreover have "quiet ?db1 db'"
    unfolding tx_review review_receipt_def Let_def
    by (simp add: quiet_def quiet_subs_eq unpaid_update_where unpaid_row_def billing_def)
  ultimately show ?thesis using that(1) quiet_trans by blast
next
  case (tx_fail_nwc p code b)
  show ?thesis
  proof (cases "update_payment_if (pay_id p) (\<lambda>r. pay_status r = PENDING \<and> (b \<longrightarrow> same_nwc_lease p r))
      (\<lambda>r. let r1 = nwc_flushed p r in r1\<lparr>pay_status := FAILED,
        nwc := (nwc r1)\<lparr>nwc_state := Some ''failed'', nwc_error_code := Some code,
          nwc_lease_until := None, nwc_lease_token := None\<rparr>\<rparr>) db")
    case (Some db1)
    then have "quiet db db1"
      by (rule quiet_update_if) (simp add: unpaid_row_def billing_def nwc_flushed_def is_open_def Let_def)
    moreover have "quiet db1 db'"
      using tx_fail_nwc Some by (auto simp: fail_nwc_tx_def intro: quiet_drop_renewal)
    ultimately show ?thesis using that(1) quiet_trans by blast
  qed (use tx_fail_nwc that(1) in \<open>simp add: fail_nwc_tx_def\<close>)
next
  case (tx_fail_clink p code b)
  show ?thesis
  proof (cases "update_payment_if (pay_id p) (\<lambda>r. pay_status r = PENDING \<and> (b \<longrightarrow> same_clink_lease p r))
      (\<lambda>r. r\<lparr>pay_status := FAILED, clink := (clink r)\<lparr>clink_state := Some ''failed'',
        clink_error_code := Some code, clink_lease_until := None, clink_lease_token := None\<rparr>\<rparr>) db")
    case (Some db1)
    then have "quiet db db1"
      by (rule quiet_update_if) (simp add: unpaid_row_def billing_def is_open_def)
    moreover have "quiet db1 db'"
      using tx_fail_clink Some by (auto simp: fail_clink_tx_def intro: quiet_drop_renewal)
    ultimately show ?thesis using that(1) quiet_trans by blast
  qed (use tx_fail_clink that(1) in \<open>simp add: fail_clink_tx_def\<close>)
next
  case (tx_checked i)
  have "quiet db db'" unfolding tx_checked by (rule quiet_set_payment) (simp add: unpaid_row_def billing_def)
  then show ?thesis by (rule that(1))
qed (rule that(1), auto simp: bind_invoice_tx_def claim_lnurl_check_def store_lnurl_invoice_def save_nwc_observation_tx_def
    save_clink_observation_tx_def claim_nwc_lease_def claim_clink_lease_def start_fallback_tx_def
    split: option.splits
    elim!: quiet_update_if intro: quiet_update_if simp: unpaid_row_def billing_def nwc_flushed_def Let_def)+

lemma quiet_sends:
  "record_nwc_send_attempt cfg now p db = Some db' \<Longrightarrow> quiet db db'"
  "record_clink_send_attempt now p db = Some db' \<Longrightarrow> quiet db db'"
  "claim_lnurl_creation now i db = Some db' \<Longrightarrow> quiet db db'"
  by (auto simp: record_nwc_send_attempt_def record_clink_send_attempt_def claim_lnurl_creation_def
      unpaid_row_def billing_def nwc_flushed_def Let_def split: if_splits elim!: quiet_update_if)


section \<open>Settlements\<close>

lemma set_subscription_ids:
  "(\<And>s. sub_id (f s) = sub_id s) \<Longrightarrow> map sub_id (subscriptions (set_subscription i f db)) = map sub_id (subscriptions db)"
  by (simp add: set_subscription_def map_update_where)

lemma grant_period_orders:
  assumes run: "grant_period cfg seal now p db = Inr db'" shows "agent_orders db' = agent_orders db"
proof -
  have renew: "agent_orders d' = agent_orders d" if "renew_subscription now s n d = Inr (s', d')" for s n d s' d'
    using that by (auto simp: renew_subscription_def Let_def map_sum_Inr dest!: activate_frame)
  have act: "agent_orders d' = agent_orders d" if "activate_subscription cfg now s r n d = Inr (s', d')" for s r n d s' d'
    using that by (auto simp: activate_subscription_def Let_def map_sum_Inr dest!: activate_frame split: sum.splits)
  have retire: "agent_orders d' = agent_orders d" if "retire_upgrade_source now s d = Inr d'" for s d d'
    using that by (auto simp: retire_upgrade_source_def Let_def split: option.splits if_splits)
  have notify: "agent_orders d' = agent_orders d" if "notify_settled cfg seal now b p s d = Inr d'" for b s d d'
    using that queue_notification_frame(7) by (auto simp: notify_settled_def Let_def split: option.splits if_splits)
  have credit: "agent_orders d' = agent_orders d" if "credit_settled_payment p d = Inr d'" for d d'
    using credit_settled_payment_cases [OF that] by cases auto
  show ?thesis
    using run by (auto simp: grant_period_def Let_def split: sum.splits option.splits if_splits
        dest!: renew act retire notify credit)
qed

lemma grant_period_frame:
  assumes run: "grant_period cfg seal now p db = Inr db'"
  shows "map sub_id (subscriptions db') = map sub_id (subscriptions db) \<and> users db' = users db"
proof -
  from run obtain s due sub2 db2 db3 db4 where
    grant: "(if is_renewal p (billed p s) then renew_subscription now (billed p s) (period_days p)
          (set_subscription (sub_id s) (billed p) db)
        else activate_subscription cfg now (billed p s) (Some (pay_id p)) (period_days p)
          (set_subscription (sub_id s) (billed p) db)) = Inr (sub2, db2)"
    and retire: "(if is_upgrade_initial s then retire_upgrade_source now sub2 db2 else Inr db2) = Inr db3"
    and notify: "notify_settled cfg seal now (is_renewal p (billed p s)) p sub2 db3 = Inr db4"
    and credit: "credit_settled_payment p db4 = Inr db'"
    by (auto simp: grant_period_def Let_def split: sum.splits option.splits)
  have "map sub_id (subscriptions db2) = map sub_id (subscriptions db) \<and> users db2 = users db"
    using grant
    by (auto simp: set_subscription_ids renewed_def activated_def dest!: renew_subscription_result activate_subscription_result
        split: if_splits)
  moreover have "map sub_id (subscriptions db3) = map sub_id (subscriptions db2) \<and> users db3 = users db2"
    using retire by (auto simp: set_subscription_ids source_cancelled_def dest!: retire_upgrade_source_result split: if_splits)
  moreover have "subscriptions db' = subscriptions db3 \<and> users db' = users db3"
    using notify_settled_frame [OF notify] credit_frame [OF credit] by simp
  ultimately show ?thesis by simp
qed

text \<open>The subscriptions with an open payment, and the sources of linked upgrades.\<close>

definition opens :: "database \<Rightarrow> int set" where
  "opens db = pay_subscription_id ` {p \<in> set (payments db). is_open (pay_status p)}"

definition sources :: "database \<Rightarrow> int set" where
  "sources db = {i. \<exists>k t. get_subscription db k = Some t \<and> upgrade_from_subscription_id t = Some i}"

text \<open>
  The row of a subscription after a run: its standing is the same, or one of its open payments was
  settled, or a settled upgrade replaced it.
\<close>

definition prices :: "subscription \<Rightarrow> product_type \<times> int \<times> int" where
  "prices s = (product s, monthly_price_sats s, yearly_price_sats s)"

definition kept_by :: "int set \<Rightarrow> int set \<Rightarrow> subscription \<Rightarrow> subscription \<Rightarrow> bool" where
  "kept_by ops srcs s s' \<longleftrightarrow> sub_id s' = sub_id s \<and> sub_user_id s' = sub_user_id s \<and> product s' = product s \<and>
     prices s' = prices s \<and>
     relay_hostname_scope s' = relay_hostname_scope s \<and>
     upgrade_from_subscription_id s' = upgrade_from_subscription_id s \<and>
     ((sub_status s' = sub_status s \<and> domain s' = domain s \<and>
       domain_claim_expires_at s' = domain_claim_expires_at s \<and>
       domain_renewal_grace_expires_at s' = domain_renewal_grace_expires_at s) \<or>
      (sub_status s' = SubACTIVE \<and> domain s' = domain s \<and> sub_id s \<in> ops \<and>
       (product s = RELAY \<longrightarrow> nonempty (domain s))) \<or>
      (sub_status s' = SubCANCELLED \<and> domain s' = None \<and> product s = RELAY \<and> sub_id s \<in> srcs))"

definition paid_active :: "database \<Rightarrow> payment \<Rightarrow> payment \<Rightarrow> bool" where
  "paid_active db p p' \<longleftrightarrow> pay_id p' = pay_id p \<and> pay_subscription_id p' = pay_subscription_id p \<and>
     billing p' = billing p \<and>
     (is_open (pay_status p') \<longrightarrow> is_open (pay_status p)) \<and>
     (pay_status p' = PAID \<longrightarrow> pay_status p = PAID \<or>
        (\<exists>s. get_subscription db (pay_subscription_id p) = Some s \<and> sub_status s \<noteq> SubPENDING))"

definition db_kept :: "database \<Rightarrow> database \<Rightarrow> bool" where
  "db_kept db db' \<longleftrightarrow> users db' = users db \<and> agent_orders db' = agent_orders db \<and> map sub_id (subscriptions db') = map sub_id (subscriptions db) \<and>
     (\<forall>i. rel_option (kept_by (opens db) (sources db)) (get_subscription db i) (get_subscription db' i)) \<and>
     list_all2 (paid_active db') (payments db) (payments db')"

definition run_kept :: "world \<Rightarrow> world \<Rightarrow> bool" where
  "run_kept w w' \<longleftrightarrow> (distinct (map pay_id (payments (wdb w))) \<longrightarrow>
     distinct (map pay_id (payments (wdb w'))) \<and> db_kept (wdb w) (wdb w'))"

lemma kept_by_refl [simp]: "kept_by ops srcs s s"
  by (simp add: kept_by_def)

lemma kept_by_trans:
  assumes "kept_by ops srcs a b" and "kept_by ops' srcs b c" and "ops' \<subseteq> ops"
  shows "kept_by ops srcs a c"
  using assms unfolding kept_by_def by (elim conjE disjE) auto

lemma list_all2_map_eq: "list_all2 P xs ys \<Longrightarrow> (\<And>x y. P x y \<Longrightarrow> f y = f x) \<Longrightarrow> map f ys = map f xs"
  by (induction rule: list_all2_induct) auto

lemma paid_active_opens: "list_all2 (paid_active db) (payments a) (payments b) \<Longrightarrow> opens b \<subseteq> opens a"
  unfolding opens_def by (force simp: in_set_conv_nth list_all2_conv_all_nth paid_active_def)

lemma db_kept_sources:
  assumes "db_kept db db'" shows "sources db' = sources db"
proof -
  let ?up = "map_option upgrade_from_subscription_id"
  have "?up (get_subscription db' k) = ?up (get_subscription db k)" for k
  proof -
    have "rel_option (kept_by (opens db) (sources db)) (get_subscription db k) (get_subscription db' k)"
      using assms by (simp add: db_kept_def)
    then show ?thesis by (cases rule: option.rel_cases) (auto simp: kept_by_def)
  qed
  moreover have "sources d = {i. \<exists>k. ?up (get_subscription d k) = Some (Some i)}" for d
    by (auto simp: sources_def)
  ultimately show ?thesis by presburger
qed

lemma not_pending_kept:
  assumes "db_kept db db'" and "get_subscription db i = Some s" and "sub_status s \<noteq> SubPENDING"
  shows "\<exists>s'. get_subscription db' i = Some s' \<and> sub_status s' \<noteq> SubPENDING"
proof -
  have "rel_option (kept_by (opens db) (sources db)) (Some s) (get_subscription db' i)"
    using assms unfolding db_kept_def by metis
  then show ?thesis using assms(3) by (auto simp: option_rel_Some1 kept_by_def)
qed

lemma db_kept_refl [simp]: "db_kept db db"
  by (simp add: db_kept_def option.rel_refl list_all2_refl paid_active_def)

lemma db_kept_trans:
  assumes "db_kept a b" and "db_kept b c" shows "db_kept a c"
proof -
  have ops: "opens b \<subseteq> opens a" using assms(1) by (auto simp: db_kept_def dest: paid_active_opens)
  have rows: "rel_option (kept_by (opens a) (sources a)) (get_subscription a i) (get_subscription c i)" for i
  proof (rule rel_option_trans)
    show "rel_option (kept_by (opens a) (sources a)) (get_subscription a i) (get_subscription b i)"
      "rel_option (kept_by (opens b) (sources a)) (get_subscription b i) (get_subscription c i)"
      using assms db_kept_sources [OF assms(1)] by (simp_all add: db_kept_def)
  qed (rule kept_by_trans [OF _ _ ops])
  have "list_all2 (paid_active c) (payments a) (payments c)"
  proof (rule list_all2_trans [of "paid_active b" "paid_active c" "paid_active c"])
    show "paid_active b x y \<Longrightarrow> paid_active c y z \<Longrightarrow> paid_active c x z" for x y z
      using not_pending_kept [OF assms(2)] unfolding paid_active_def by metis
    show "list_all2 (paid_active b) (payments a) (payments b)" "list_all2 (paid_active c) (payments b) (payments c)"
      using assms by (simp_all add: db_kept_def)
  qed
  then show ?thesis using assms rows by (simp add: db_kept_def)
qed

lemma sub_quiet_kept: "sub_quiet s s' \<Longrightarrow> kept_by ops srcs s s'"
  using sub_quietD [of s s'] by (simp add: kept_by_def prices_def)

lemma quiet_kept:
  assumes "quiet db db'" shows "db_kept db db'"
proof -
  have "rel_option (kept_by (opens db) (sources db)) (get_subscription db i) (get_subscription db' i)" for i
    using assms unfolding quiet_def quiet_subs_def by (metis option.rel_mono_strong sub_quiet_kept)
  moreover have "list_all2 (paid_active db') (payments db) (payments db')"
    using assms unfolding quiet_def by (auto elim!: list_all2_mono simp: unpaid_row_def paid_active_def)
  ultimately show ?thesis using assms by (simp add: db_kept_def quiet_def quiet_subs_def)
qed

text \<open>The settlement of one pending payment.\<close>

lemma grant_period_upgrade:
  assumes "grant_period cfg seal now p db = Inr db'" and "get_subscription db (pay_subscription_id p) = Some s"
    and "is_upgrade_initial s" and "upgrade_from_subscription_id s = Some j" and "get_subscription db j = Some t"
    and "j \<noteq> sub_id s"
  shows "product t = RELAY"
proof -
  from assms(1-3) obtain sub2 db2 db3 where
    grant: "(if is_renewal p (billed p s) then renew_subscription now (billed p s) (period_days p)
          (set_subscription (sub_id s) (billed p) db)
        else activate_subscription cfg now (billed p s) (Some (pay_id p)) (period_days p)
          (set_subscription (sub_id s) (billed p) db)) = Inr (sub2, db2)"
    and retire: "retire_upgrade_source now sub2 db2 = Inr db3"
    by (auto simp: grant_period_def Let_def split: sum.splits option.splits)
  obtain f where up: "upgrade_from_subscription_id sub2 = Some j" and f: "\<And>x. sub_id (f x) = sub_id x"
    and subs: "subscriptions db2 = subscriptions (set_subscription (sub_id s) f (set_subscription (sub_id s) (billed p) db))"
  proof (cases "is_renewal p (billed p s)")
    case True
    then have r: "renew_subscription now (billed p s) (period_days p) (set_subscription (sub_id s) (billed p) db) =
      Inr (sub2, db2)" using grant by simp
    show thesis using renew_subscription_result [OF r] assms(4)
      by (intro that [of "renewed now (renewal_base now (billed p s) + days (period_days p))"])
        (simp_all add: renewed_def)
  next
    case False
    then have r: "activate_subscription cfg now (billed p s) (Some (pay_id p)) (period_days p)
      (set_subscription (sub_id s) (billed p) db) = Inr (sub2, db2)" using grant by simp
    from activate_subscription_result [OF r] obtain pool where "sub2 = activated now (period_days p) pool (billed p s)"
      "subscriptions db2 = subscriptions (set_subscription (sub_id s) (activated now (period_days p) pool)
         (set_subscription (sub_id s) (billed p) db))" by auto
    with assms(4) show thesis
      by (intro that [of "activated now (period_days p) pool"]) (simp_all add: activated_def)
  qed
  have "get_subscription db2 j = get_subscription db j"
    unfolding get_subscription_def subs unfolding get_subscription_def [symmetric]
    using assms(6) by (simp add: get_set_subscription f)
  then have "upgrade_from_subscription_id sub2 = Some j \<and> get_subscription db2 j = Some t"
    using up assms(5) by simp
  then show ?thesis using retire_upgrade_source_result [OF retire] by (auto simp: upgrade_source_ok_def)
qed


lemma finalize_kept:
  assumes d: "distinct (map pay_id (payments db))" and run: "finalize_tx cfg seal now i PENDING v db = Inr db'"
  shows "db_kept db db'"
proof (cases "\<exists>p. get_payment db i = Some p \<and> pay_status p = PENDING")
  case False
  then show ?thesis using run finalize_tx_noop [OF d] by auto
next
  case True
  then obtain p where p: "get_payment db i = Some p" "pay_status p = PENDING" by blast
  let ?p = "(paid now v p)\<lparr>pay_status := PAID\<rparr>" and ?db1 = "marked_paid now v i db"
  have grant: "grant_period cfg seal now ?p ?db1 = Inr db'" using run by (simp add: finalize_tx_pending [OF d p])
  then obtain s where s1: "get_subscription ?db1 (pay_subscription_id ?p) = Some s"
    by (auto simp: grant_period_def split: sum.splits option.splits)
  have get1: "get_subscription ?db1 k = get_subscription db k" for k by (simp add: get_subscription_def marked_paid_def)
  have id: "sub_id s = pay_subscription_id p" using get_subscription_id [OF s1] by simp
  note res = grant_period_result [OF grant s1] and frame = grant_period_frame [OF grant] grant_period_orders [OF grant]
  have mem: "p \<in> set (payments db)" "pay_id p = i" using p(1) by (auto simp: get_payment_def dest: get_row_Some)
  then have open_p: "sub_id s \<in> opens db" using p(2) id by (auto simp: opens_def is_open_def)
  have "require_domain_payment_settlement_ready cfg s ?p = None" using res by blast
  then have live: "nonempty (domain s)" if "product s = RELAY"
    using that by (auto simp: require_domain_payment_settlement_ready_def split: if_splits)
  have src: "j \<in> sources db" if "upgrade_from_subscription_id s = Some j" for j
    using s1 that by (auto simp: sources_def get1)
  obtain pool where granted: "get_subscription db' (sub_id s) = Some (granted now ?p pool s)" using res by blast
  have rows: "rel_option (kept_by (opens db) (sources db)) (get_subscription db k) (get_subscription db' k)" for k
  proof (cases "k = sub_id s")
    case True
    have "kept_by (opens db) (sources db) s (granted now ?p pool s)"
      using open_p live by (simp add: kept_by_def granted_def renewed_def activated_def billed_def prices_def)
    then show ?thesis using True granted s1 id by (simp add: get1)
  next
    case False
    then have k: "get_subscription db' k = (if is_upgrade_initial s \<and> upgrade_from_subscription_id s = Some k
       then map_option (source_cancelled now) (get_subscription db k) else get_subscription db k)"
      using res by (simp add: get1)
    show ?thesis
    proof (cases "is_upgrade_initial s \<and> upgrade_from_subscription_id s = Some k")
      case True
      then have "kept_by (opens db) (sources db) t (source_cancelled now t)" if "get_subscription db k = Some t" for t
        using that src [of k] False get_subscription_id [OF that]
          grant_period_upgrade [OF grant s1, of k t] by (auto simp: kept_by_def source_cancelled_def prices_def get1)
      then show ?thesis using k True by (cases "get_subscription db k") auto
    next
      case False
      then have "get_subscription db' k = get_subscription db k" using k by presburger
      then show ?thesis by (simp add: option.rel_refl)
    qed
  qed
  have "list_all2 (paid_active db') (payments db) (payments ?db1)"
  proof -
    have "paid_active db' r (if pay_id r = i \<and> pay_status r = PENDING then (paid now v r)\<lparr>pay_status := PAID\<rparr> else r)"
      if "r \<in> set (payments db)" for r
    proof (cases "r = p")
      case True
      then show ?thesis using p(2) mem granted id by (auto simp: paid_active_def is_open_def billing_def paid_def)
    next
      case False
      then have "pay_id r \<noteq> i" using that mem d by (auto simp: distinct_map dest: inj_onD)
      then show ?thesis by (simp add: paid_active_def)
    qed
    then show ?thesis by (simp add: marked_paid_def update_where_def list_all2_map2 list.rel_refl_strong)
  qed
  then show ?thesis using rows res frame by (simp add: db_kept_def marked_paid_def)
qed

lemma db_kept_pay_ids: "db_kept db db' \<Longrightarrow> map pay_id (payments db') = map pay_id (payments db)"
  unfolding db_kept_def by (auto elim!: list_all2_map_eq simp: paid_active_def)

lemma run_kept_quiet: "quiet (wdb w) (wdb w') \<Longrightarrow> run_kept w w'"
  using db_kept_pay_ids [OF quiet_kept, of "wdb w" "wdb w'"] by (simp add: run_kept_def quiet_kept)

interpretation standing: settlement_run cfg gw now run_kept for cfg gw now
proof
  show "run_kept w w" for w by (simp add: run_kept_def)
  show "run_kept u v \<Longrightarrow> run_kept v w \<Longrightarrow> run_kept u w" for u v w
    unfolding run_kept_def using db_kept_trans by blast
  show "payment_tx cfg gw now (wdb w) db' \<Longrightarrow> run_kept w (w\<lparr>wdb := db'\<rparr>)" for w db'
  proof (erule payment_tx_quiet)
    assume "quiet (wdb w) db'"
    then show "run_kept w (w\<lparr>wdb := db'\<rparr>)" by (simp add: run_kept_quiet)
  next
    fix i v db0
    assume q: "quiet (wdb w) db0" and run: "finalize_tx cfg (seal_identity gw) now i PENDING v db0 = Inr db'"
    have "db_kept db0 db'" if "distinct (map pay_id (payments (wdb w)))"
      using finalize_kept [OF _ run] db_kept_pay_ids [OF quiet_kept [OF q]] that by simp
    then have "db_kept (wdb w) db'" if "distinct (map pay_id (payments (wdb w)))"
      using db_kept_trans [OF quiet_kept [OF q]] that by blast
    then show "run_kept w (w\<lparr>wdb := db'\<rparr>)"
      using db_kept_pay_ids [of "wdb w" db'] by (simp add: run_kept_def)
  qed
qed (auto intro!: run_kept_quiet dest: quiet_sends)

text \<open>A settlement run, by the relation it keeps.\<close>

lemma settle_kept:
  "distinct (map pay_id (payments (wdb w))) \<Longrightarrow>
     db_kept (wdb w) (wdb (snd (check_and_settle_payment cfg gw now p w)))"
  using standing.keepsD [OF standing.keeps_check_and_settle, of w cfg gw now p] by (simp add: run_kept_def)

end
