(* ===== verification/Subscription_Orders.thy ===== *)
theory Subscription_Orders
  imports Hostnames Settlement_Standing
begin

text \<open>
  The subscription operations that reconcile payments on the way (\<^verbatim>\<open>services/subscriptions.py\<close>):
  reaping of elapsed hostname claims and resource holds, domain verification, new orders, wildcard
  upgrades and cancellation. They run as computations over the world of \<open>Payment_Wallets\<close>. A loop over
  selected rows reads each row again when its turn comes, because every commit and rollback of the
  session expires its objects.
\<close>

section \<open>Elapsed hostname claims\<close>

definition reconcile_domain_payment :: "settings \<Rightarrow> gateway \<Rightarrow> time \<Rightarrow> payment \<Rightarrow> payment comp" where
  "reconcile_domain_payment cfg gw now p =
     (if pay_status p = PROCESSING then return p
      else if pay_method p \<in> {LIGHTNING, NWC, CLINK, STABLECOIN_SWAP}
      then check_and_settle_payment cfg gw now p
      else commit (expire_pending_payment now p) (pay_id p))"

definition elapsed_active :: "time \<Rightarrow> database \<Rightarrow> subscription list" where
  "elapsed_active now db =
     filter (\<lambda>s. product s = RELAY \<and> sub_status s = SubACTIVE \<and> elapsed_or_missing now (current_period_end s))
       (subscriptions db)"

text \<open>A creation instant is never missing, so it always anchors the claim deadline.\<close>

definition claim_without_deadline :: "subscription \<Rightarrow> bool" where
  "claim_without_deadline s = (sub_status s = SubPENDING \<and> domain s \<noteq> None \<and> domain_claim_expires_at s = None)"

definition init_claim_deadline :: "settings \<Rightarrow> time \<Rightarrow> subscription \<Rightarrow> database \<Rightarrow> database" where
  "init_claim_deadline cfg now sub db =
     db\<lparr>subscriptions := update_where (\<lambda>r. sub_id r = sub_id sub \<and> claim_without_deadline r)
       (\<lambda>r. r\<lparr>domain_claim_expires_at := Some (sub_created_at sub + domain_claim_ttl cfg (domain_is_managed sub)),
              sub_updated_at := now\<rparr>) (subscriptions db)\<rparr>"

definition grace_without_deadline :: "subscription \<Rightarrow> bool" where
  "grace_without_deadline s =
     (sub_status s = SubEXPIRED \<and> domain s \<noteq> None \<and> domain_renewal_grace_expires_at s = None)"

definition grace_anchor :: "subscription \<Rightarrow> time" where
  "grace_anchor s = (case current_period_end s of Some e \<Rightarrow> e | None \<Rightarrow> sub_updated_at s)"

definition init_grace_deadline :: "settings \<Rightarrow> time \<Rightarrow> subscription \<Rightarrow> database \<Rightarrow> database" where
  "init_grace_deadline cfg now sub db =
     db\<lparr>subscriptions := update_where (\<lambda>r. sub_id r = sub_id sub \<and> grace_without_deadline r)
       (\<lambda>r. r\<lparr>domain_renewal_grace_expires_at := Some (grace_anchor sub + seconds (RELAY_RENEWAL_GRACE_SECONDS cfg)),
              sub_updated_at := now\<rparr>) (subscriptions db)\<rparr>"

text \<open>The three maintenance transactions before any name is released.\<close>

definition prepare_claims :: "settings \<Rightarrow> sealer \<Rightarrow> time \<Rightarrow> database \<Rightarrow> error + database" where
  "prepare_claims cfg seal now db =
     (case expire_elapsed_subscriptions cfg seal now (elapsed_active now db) db of
        Inl e \<Rightarrow> Inl e
      | Inr (_, db1) \<Rightarrow>
          let db2 = fold (init_claim_deadline cfg now)
                (filter (\<lambda>s. product s = RELAY \<and> claim_without_deadline s) (subscriptions db1)) db1
          in Inr (fold (init_grace_deadline cfg now)
                (filter (\<lambda>s. product s = RELAY \<and> grace_without_deadline s) (subscriptions db2)) db2))"

definition claim_elapsed :: "time \<Rightarrow> subscription \<Rightarrow> bool" where
  "claim_elapsed now s = (case domain_claim_expires_at s of Some d \<Rightarrow> d \<le> now | None \<Rightarrow> False)"

definition grace_elapsed :: "time \<Rightarrow> subscription \<Rightarrow> bool" where
  "grace_elapsed now s = (case domain_renewal_grace_expires_at s of Some d \<Rightarrow> d \<le> now | None \<Rightarrow> False)"

definition release_due :: "time \<Rightarrow> subscription \<Rightarrow> bool" where
  "release_due now s =
     ((sub_status s = SubPENDING \<and> claim_elapsed now s) \<or> (sub_status s = SubEXPIRED \<and> grace_elapsed now s))"

definition release_values :: "time \<Rightarrow> subscription \<Rightarrow> subscription" where
  "release_values now s = s\<lparr>sub_status := SubCANCELLED, domain := None, relay_pool_domain := None,
     domain_is_managed := False, domain_verification_token := None, domain_verified_at := None,
     domain_claim_expires_at := None, domain_renewal_grace_expires_at := None, auto_renew := False,
     upgrade_from_subscription_id := None, upgrade_credit_sats := 0, upgrade_source_period_end := None,
     sub_updated_at := now\<rparr>"

text \<open>The compare-and-set that releases a name; none when it does not apply.\<close>

definition release_claim :: "time \<Rightarrow> int \<Rightarrow> database \<Rightarrow> database option" where
  "release_claim now i db =
     (case get_subscription db i of
        None \<Rightarrow> None
      | Some current \<Rightarrow>
          if domain current = None \<or> (sub_status current \<noteq> SubPENDING \<and> sub_status current \<noteq> SubEXPIRED)
          then None
          else let matches = (\<lambda>r. sub_id r = i \<and> sub_status r = sub_status current \<and> domain r \<noteq> None \<and>
                     (if sub_status current = SubPENDING then claim_elapsed now r else grace_elapsed now r) \<and>
                     open_payments db i = [])
               in if row_count matches (subscriptions db) = 1
                  then Some (db\<lparr>subscriptions := update_where matches (release_values now) (subscriptions db)\<rparr>)
                  else None)"

definition release_candidate :: "settings \<Rightarrow> gateway \<Rightarrow> time \<Rightarrow> int \<Rightarrow> world \<Rightarrow> bool \<times> world" where
  "release_candidate cfg gw now i w =
     (let release = (\<lambda>w. case release_claim now i (wdb w) of
                            Some db \<Rightarrow> (True, w\<lparr>wdb := db\<rparr>) | None \<Rightarrow> (False, w))
      in case open_payments (wdb w) i of
           [] \<Rightarrow> release w
         | p # _ \<Rightarrow>
             if pay_status p = PROCESSING then (False, w)
             else case reconcile_domain_payment cfg gw now p w of
                    (Inl _, w') \<Rightarrow> (False, w')
                  | (Inr _, w') \<Rightarrow> release w')"

fun release_loop :: "settings \<Rightarrow> gateway \<Rightarrow> time \<Rightarrow> int list \<Rightarrow> nat \<Rightarrow> world \<Rightarrow> nat \<times> world" where
  "release_loop cfg gw now [] released w = (released, w)"
| "release_loop cfg gw now (i # is) released w =
     (case release_candidate cfg gw now i w of
        (done, w') \<Rightarrow> release_loop cfg gw now is (if done then Suc released else released) w')"

definition release_candidates :: "time \<Rightarrow> database \<Rightarrow> int list" where
  "release_candidates now db =
     map sub_id (filter (\<lambda>s. product s = RELAY \<and> domain s \<noteq> None \<and> release_due now s) (subscriptions db))"

definition reap_expired_domain_claims :: "settings \<Rightarrow> gateway \<Rightarrow> time \<Rightarrow> nat comp" where
  "reap_expired_domain_claims cfg gw now w =
     (case prepare_claims cfg (seal_identity gw) now (wdb w) of
        Inl e \<Rightarrow> (Inl e, w)
      | Inr db \<Rightarrow>
          (case release_loop cfg gw now (release_candidates now db) 0 (w\<lparr>wdb := db\<rparr>) of
             (released, w') \<Rightarrow> (Inr released, w')))"

section \<open>Domain verification\<close>

record domain_verification_result =
  verified :: bool
  reason :: string

text \<open>The DNS lookups of the verifier the caller passes; \<open>None\<close> is an exception.\<close>

record domain_verifier =
  verify_txt :: "string \<Rightarrow> string \<Rightarrow> domain_verification_result option"
  verify_cname :: "string \<Rightarrow> string \<Rightarrow> domain_verification_result option"

text \<open>Which record proves the claim of a row.\<close>

definition domain_proof :: "domain_verifier \<Rightarrow> subscription \<Rightarrow> error + domain_verification_result" where
  "domain_proof dns sub =
     (let dom = the (domain sub);
          txt = (case domain_challenge_name dom of
                   Inl e \<Rightarrow> Inl e
                 | Inr name \<Rightarrow>
                     (case verify_txt dns name (domain_challenge_value (the (domain_verification_token sub))) of
                        None \<Rightarrow> Inl (RuntimeError ''domain verifier'') | Some v \<Rightarrow> Inr v))
      in if relay_hostname_scope sub = WILDCARD then
           (if \<not> nonempty (domain_verification_token sub) \<or> \<not> nonempty (relay_pool_domain sub)
            then Inl (ValueError ''wildcard domain claim has no active verification challenge'')
            else txt)
         else if nonempty (domain_verification_token sub) then txt
         else if nonempty (relay_pool_domain sub) then
           (case verify_cname dns dom (the (relay_pool_domain sub)) of
              None \<Rightarrow> Inl (RuntimeError ''domain verifier'') | Some v \<Rightarrow> Inr v)
         else Inl (ValueError ''domain claim has no active verification challenge''))"

text \<open>\<open>racing\<close> is what other sessions commit while the lookup runs.\<close>

definition record_verification ::
  "time \<Rightarrow> bool \<Rightarrow> subscription \<Rightarrow> database \<Rightarrow> error + database" where
  "record_verification now force sub db =
     (if force \<and> domain_verified_at sub \<noteq> None
      then Inr (set_subscription (sub_id sub)
             (\<lambda>r. r\<lparr>domain_verified_at := Some now, sub_updated_at := now\<rparr>) db)
      else
        let matches = (\<lambda>r. sub_id r = sub_id sub \<and> sub_status r = SubPENDING \<and> \<not> domain_is_managed r \<and>
              domain_verified_at r = None \<and> domain_verification_token r = domain_verification_token sub \<and>
              relay_pool_domain r = relay_pool_domain sub \<and>
              (case domain_claim_expires_at r of Some d \<Rightarrow> d > now | None \<Rightarrow> False))
        in if row_count matches (subscriptions db) \<noteq> 1
           then Inl (ValueError ''domain claim expired before verification completed'')
           else Inr (db\<lparr>subscriptions := update_where matches
                  (\<lambda>r. r\<lparr>domain_verified_at := Some now,
                         domain_verification_token := (if relay_hostname_scope sub = WILDCARD
                            then domain_verification_token sub else None),
                         sub_updated_at := now\<rparr>) (subscriptions db)\<rparr>))"

definition verify_subscription_domain ::
  "settings \<Rightarrow> gateway \<Rightarrow> time \<Rightarrow> domain_verifier \<Rightarrow> (database \<Rightarrow> database) \<Rightarrow> subscription \<Rightarrow> bool \<Rightarrow>
    domain_verification_result comp" where
  "verify_subscription_domain cfg gw now dns racing sub0 force =
     andthen (reap_expired_domain_claims cfg gw now) (\<lambda>_ w.
       let sub = refresh (wdb w) sub0 in
       if product sub \<noteq> RELAY
       then raise (ValueError ''subscription is not a Blindport Relay subscription'') w
       else if sub_status sub = SubCANCELLED \<or> \<not> nonempty (domain sub)
       then raise (ValueError ''domain claim expired; create a new subscription'') w
       else if domain_is_managed sub
       then return \<lparr> verified = True, reason = ''provider-managed domain requires no DNS proof'' \<rparr> w
       else if domain_verified_at sub \<noteq> None \<and> \<not> force
       then return \<lparr> verified = True, reason = ''domain ownership is already verified'' \<rparr> w
       else if sub_status sub \<noteq> SubPENDING \<and> \<not> force
       then raise (ValueError ''domain claim is not pending verification'') w
       else if sub_status sub = SubPENDING \<and> domain_claim_expires_at sub = None
       then raise (ValueError ''domain claim has no active verification challenge'') w
       else case domain_proof dns sub of
         Inl e \<Rightarrow> raise e w
       | Inr v \<Rightarrow>
           if \<not> verified v then return v w
           else let w1 = w\<lparr>wdb := racing (wdb w)\<rparr> in
             (case record_verification now force sub (wdb w1) of
                Inl e \<Rightarrow> raise e w1
              | Inr db \<Rightarrow> return v (w1\<lparr>wdb := db\<rparr>)))"

section \<open>New orders\<close>

record order_request =
  req_product :: product_type
  req_domain :: "string option"
  req_transport :: transport
  req_delivery :: delivery_mode
  req_term :: billing_term
  req_scope :: hostname_scope
  req_referral :: "string option"
  req_exclude :: "int option"
  req_additional :: bool

text \<open>The random draws of one order and the \<^verbatim>\<open>idna\<close> codec of \<open>canonicalize_hostname\<close>.\<close>

record order_env =
  draw_public_id :: string
  draw_token :: string
  draw_targets :: "string list"
  idna_to_ascii :: "string \<Rightarrow> string option"
  idna_ace_ok :: "string \<Rightarrow> bool"

text \<open>The checks that read no row: canonical hostname, effective scope, whether it is managed.\<close>

record checked_order =
  ord_domain :: "string option"
  ord_scope :: hostname_scope
  ord_managed :: bool
  ord_referral :: "string option"

definition check_relay_name :: "settings \<Rightarrow> order_env \<Rightarrow> hostname_scope \<Rightarrow> string \<Rightarrow> error + string \<times> bool" where
  "check_relay_name cfg env scope name =
     (case canonicalize_hostname (idna_to_ascii env) (idna_ace_ok env) name of
        Inl _ \<Rightarrow> Inl (ValueError ''invalid hostname'')
      | Inr d \<Rightarrow>
          (case (if scope = WILDCARD then validate_wildcard_base_domain cfg d else None) of
             Some e \<Rightarrow> Inl e
           | None \<Rightarrow>
               (case is_managed_domain cfg d of
                  Inl e \<Rightarrow> Inl e
                | Inr managed \<Rightarrow>
                    if scope = WILDCARD \<and> managed
                    then Inl (ValueError ''wildcard Relay hostnames must use a customer-owned base domain'')
                    else if scope = WILDCARD
                    then (case domain_challenge_name d of Inl e \<Rightarrow> Inl e | Inr _ \<Rightarrow>
                           (case wildcard_route_name d of Inl e \<Rightarrow> Inl e | Inr _ \<Rightarrow> Inr (d, managed)))
                    else Inr (d, managed))))"

definition check_order :: "settings \<Rightarrow> order_env \<Rightarrow> order_request \<Rightarrow> error + checked_order" where
  "check_order cfg env req =
     (case (case req_referral req of
              None \<Rightarrow> Inr None
            | Some a \<Rightarrow> (case validate_lightning_address a of
                 Inl _ \<Rightarrow> Inl (ValueError ''invalid Lightning address'') | Inr b \<Rightarrow> Inr (Some b))) of
        Inl e \<Rightarrow> Inl e
      | Inr referral \<Rightarrow>
          (case require_product_billing_term (req_product req) (req_delivery req) (req_term req) of
             Some e \<Rightarrow> Inl e | None \<Rightarrow>
          (case require_billing_term_enabled cfg (req_term req) of
             Some e \<Rightarrow> Inl e | None \<Rightarrow>
           if req_transport req \<noteq> TCP \<and> req_product req \<noteq> PORT
           then Inl (ValueError ''UDP transport is supported only for Blindport Port subscriptions'')
           else if req_delivery req \<noteq> FRAMED \<and> req_product req \<noteq> IP
           then Inl (ValueError ''WireGuard delivery is supported only for Blindport IP subscriptions'')
           else if req_delivery req = WIREGUARD \<and> \<not> wireguard_enabled cfg
           then Inl (ValueError ''WireGuard Blindport IP delivery is not configured'')
           else if req_product req = RELAY \<and> \<not> nonempty (req_domain req)
           then Inl (ValueError ''domain is required for Blindport Relay subscriptions'')
           else if req_scope req \<noteq> EXACT \<and> req_product req \<noteq> RELAY
           then Inl (ValueError ''wildcard hostname scope is supported only for Blindport Relay subscriptions'')
           else if req_product req \<noteq> RELAY
           then Inr \<lparr> ord_domain = None, ord_scope = EXACT, ord_managed = False, ord_referral = referral \<rparr>
           else case check_relay_name cfg env (req_scope req) (the (req_domain req)) of
             Inl e \<Rightarrow> Inl e
           | Inr (d, managed) \<Rightarrow>
               Inr \<lparr> ord_domain = Some d, ord_scope = req_scope req, ord_managed = managed,
                     ord_referral = referral \<rparr>)))"

definition not_cancelled :: "int \<Rightarrow> subscription \<Rightarrow> bool" where
  "not_cancelled uid s = (sub_user_id s = uid \<and> sub_status s \<noteq> SubCANCELLED)"

definition pending_relay_claim :: "int \<Rightarrow> subscription \<Rightarrow> bool" where
  "pending_relay_claim uid s =
     (sub_user_id s = uid \<and> product s = RELAY \<and> sub_status s = SubPENDING \<and> domain s \<noteq> None)"

definition require_account_limits :: "settings \<Rightarrow> int \<Rightarrow> product_type \<Rightarrow> bool \<Rightarrow> database \<Rightarrow> error option" where
  "require_account_limits cfg uid p additional db =
     (if row_count (not_cancelled uid) (subscriptions db) \<ge>
           ACCOUNT_MAX_NON_CANCELLED_SUBSCRIPTIONS cfg + (if additional then 1 else 0)
      then Some (AccountLimitError ''account has reached the non-cancelled subscription limit'')
      else if p = RELAY \<and>
        row_count (pending_relay_claim uid) (subscriptions db) \<ge> ACCOUNT_MAX_PENDING_RELAY_CLAIMS cfg
      then Some (AccountLimitError ''account has reached the unpaid Relay claim limit'')
      else None)"

definition monthly_price :: "settings \<Rightarrow> product_type \<Rightarrow> hostname_scope \<Rightarrow> int" where
  "monthly_price cfg p scope =
     (case p of IP \<Rightarrow> 0 | PORT \<Rightarrow> PORT_MONTHLY_SATS cfg
      | RELAY \<Rightarrow> if scope = WILDCARD then RELAY_WILDCARD_MONTHLY_SATS cfg else RELAY_MONTHLY_SATS cfg)"

definition yearly_price :: "settings \<Rightarrow> product_type \<Rightarrow> hostname_scope \<Rightarrow> int" where
  "yearly_price cfg p scope =
     (case p of IP \<Rightarrow> IP_YEARLY_SATS cfg | PORT \<Rightarrow> PORT_YEARLY_SATS cfg
      | RELAY \<Rightarrow> if scope = WILDCARD then RELAY_WILDCARD_YEARLY_SATS cfg else RELAY_YEARLY_SATS cfg)"

text \<open>The challenge token and the routing target of a new Relay claim.\<close>

definition claim_challenge ::
  "settings \<Rightarrow> order_env \<Rightarrow> checked_order \<Rightarrow> database \<Rightarrow> error + string option \<times> string option" where
  "claim_challenge cfg env c db =
     (if ord_managed c then Inr (None, None)
      else if ord_scope c = WILDCARD
      then map_sum id (\<lambda>pool. (Some (draw_token env), Some pool)) (allocate_relay_pool_domain cfg db)
      else map_sum id (\<lambda>target. (None, Some target)) (allocate_relay_cname_target cfg (draw_targets env) db))"

definition require_name_free :: "checked_order \<Rightarrow> int option \<Rightarrow> database \<Rightarrow> error option" where
  "require_name_free c exclude db =
     (if list_ex (\<lambda>s. domain s = ord_domain c) (subscriptions db)
      then Some (ValueError ''domain already has a subscription'')
      else if relay_domain_conflict db (the (ord_domain c)) (ord_scope c) exclude
      then Some (ValueError ''domain conflicts with an existing Relay hostname scope'')
      else None)"

definition new_subscription ::
  "settings \<Rightarrow> order_env \<Rightarrow> time \<Rightarrow> int \<Rightarrow> order_request \<Rightarrow> checked_order \<Rightarrow> string option \<times> string option \<Rightarrow>
    int \<Rightarrow> subscription" where
  "new_subscription cfg env now uid req c challenge i = \<lparr> sub_id = i,
     sub_public_id = draw_public_id env,
     sub_user_id = uid,
     product = req_product req,
     delivery = req_delivery req,
     sub_status = SubPENDING,
     assigned_ip = None,
     assigned_port = None,
     transport = req_transport req,
     domain = ord_domain c,
     relay_hostname_scope = ord_scope c,
     relay_pool_domain = snd challenge,
     domain_is_managed = ord_managed c,
     domain_verification_token = fst challenge,
     domain_verified_at = (if ord_managed c then Some now else None),
     domain_claim_expires_at = (if req_product req = RELAY then Some (now + domain_claim_ttl cfg (ord_managed c))
                                else None),
     domain_renewal_grace_expires_at = None,
     reservation_expires_at = None,
     reservation_payment_id = None,
     resource_quarantined_until = None,
     billing_term = req_term req,
     monthly_price_sats = monthly_price cfg (req_product req) (ord_scope c),
     yearly_price_sats = yearly_price cfg (req_product req) (ord_scope c),
     current_period_start = None,
     current_period_end = None,
     auto_renew = False,
     sub_referral_address = ord_referral c,
     upgrade_from_subscription_id = None,
     upgrade_credit_sats = 0,
     upgrade_source_period_end = None,
     sub_created_at = now,
     sub_updated_at = now \<rparr>"

text \<open>The checks against the database, up to the new object; the identifier comes with the flush.\<close>

definition order_row ::
  "settings \<Rightarrow> order_env \<Rightarrow> time \<Rightarrow> int \<Rightarrow> order_request \<Rightarrow> checked_order \<Rightarrow> database \<Rightarrow> error + (int \<Rightarrow> subscription)" where
  "order_row cfg env now uid req c db =
     (if get_user db uid = None then Inl (RuntimeError ''NoResultFound'')
      else case require_account_limits cfg uid (req_product req) (req_additional req) db of
        Some e \<Rightarrow> Inl e
      | None \<Rightarrow>
          (case require_product_available cfg db (req_product req) (req_delivery req) (req_transport req)
                  (ord_managed c) (ord_scope c) of
             Some e \<Rightarrow> Inl e
           | None \<Rightarrow>
               if req_product req \<noteq> RELAY then Inr (new_subscription cfg env now uid req c (None, None))
               else case require_name_free c (req_exclude req) db of
                 Some e \<Rightarrow> Inl e
               | None \<Rightarrow> map_sum id (new_subscription cfg env now uid req c) (claim_challenge cfg env c db)))"

text \<open>The flush: \<open>racing\<close> is what other sessions commit between the checks and the insert.\<close>

definition insert_order ::
  "(database \<Rightarrow> database) \<Rightarrow> (int \<Rightarrow> subscription) \<Rightarrow> database \<Rightarrow> (error + subscription) \<times> database" where
  "insert_order racing row db =
     (let db1 = racing db; sub = row (next_id db1); ss = subscriptions db1 @ [sub]
      in if subscription_indexes ss
         then (Inr sub, db1\<lparr>subscriptions := ss, next_id := next_id db1 + 1\<rparr>)
         else if domain sub \<noteq> None \<and> list_ex (\<lambda>s. domain s = domain sub) (subscriptions db1)
         then (Inl (ValueError ''domain already has a subscription''), db1)
         else (Inl IntegrityError, db1))"

definition place_order ::
  "settings \<Rightarrow> order_env \<Rightarrow> time \<Rightarrow> (database \<Rightarrow> database) \<Rightarrow> int \<Rightarrow> order_request \<Rightarrow> checked_order \<Rightarrow> database \<Rightarrow>
    (error + subscription) \<times> database" where
  "place_order cfg env now racing uid req c db =
     (case order_row cfg env now uid req c db of
        Inl e \<Rightarrow> (Inl e, db)
      | Inr row \<Rightarrow> insert_order racing row db)"

definition create_subscription ::
  "settings \<Rightarrow> order_env \<Rightarrow> gateway \<Rightarrow> time \<Rightarrow> (database \<Rightarrow> database) \<Rightarrow> int \<Rightarrow> order_request \<Rightarrow> subscription comp" where
  "create_subscription cfg env gw now racing uid req =
     (case check_order cfg env req of
        Inl e \<Rightarrow> raise e
      | Inr c \<Rightarrow>
          andthen (if req_product req = RELAY then reap_expired_domain_claims cfg gw now else return 0)
            (\<lambda>_ w. case place_order cfg env now racing uid req c (wdb w) of
                     (result, db) \<Rightarrow> (result, w\<lparr>wdb := db\<rparr>)))"

section \<open>Wildcard upgrades\<close>

definition has_pending_upgrade :: "database \<Rightarrow> subscription \<Rightarrow> bool" where
  "has_pending_upgrade db source =
     list_ex (\<lambda>s. upgrade_from_subscription_id s = Some (sub_id source) \<and> sub_status s = SubPENDING)
       (subscriptions db)"

definition upgradable :: "time \<Rightarrow> subscription \<Rightarrow> bool" where
  "upgradable now source =
     (product source = RELAY \<and> relay_hostname_scope source = EXACT \<and> sub_status source = SubACTIVE \<and>
      nonempty (domain source) \<and> \<not> domain_is_managed source \<and>
      (case current_period_end source of Some e \<Rightarrow> e > now | None \<Rightarrow> False))"

text \<open>\<^verbatim>\<open>int(delta.total_seconds())\<close> is only applied to a positive remainder.\<close>

definition upgrade_credit :: "time \<Rightarrow> subscription \<Rightarrow> int" where
  "upgrade_credit now source =
     (let remaining = max 0 (floor_seconds (the (current_period_end source) - now))
      in (remaining * term_price source (billing_term source)) div
           (billing_period_days (billing_term source) * 86400))"

definition upgrade_linked :: "time \<Rightarrow> subscription \<Rightarrow> billing_term \<Rightarrow> subscription \<Rightarrow> subscription" where
  "upgrade_linked now source term target =
     target\<lparr>upgrade_from_subscription_id := Some (sub_id source),
            upgrade_credit_sats := min (upgrade_credit now source) (term_price target term),
            upgrade_source_period_end := current_period_end source\<rparr>"

definition upgrade_request :: "subscription \<Rightarrow> string \<Rightarrow> billing_term \<Rightarrow> order_request" where
  "upgrade_request source base term = \<lparr> req_product = RELAY, req_domain = Some base, req_transport = TCP,
     req_delivery = FRAMED, req_term = term, req_scope = WILDCARD, req_referral = sub_referral_address source,
     req_exclude = Some (sub_id source), req_additional = True \<rparr>"

definition link_upgrade ::
  "time \<Rightarrow> subscription \<Rightarrow> billing_term \<Rightarrow> subscription \<Rightarrow> database \<Rightarrow> error + subscription \<times> database" where
  "link_upgrade now source term target db =
     (let change = upgrade_linked now source term; db1 = set_subscription (sub_id target) change db
      in if subscription_indexes (subscriptions db1) then Inr (change target, db1)
         else Inl (ValueError ''subscription already has a pending wildcard upgrade''))"

definition upgrade_tx ::
  "settings \<Rightarrow> order_env \<Rightarrow> time \<Rightarrow> (database \<Rightarrow> database) \<Rightarrow> int \<Rightarrow> int \<Rightarrow> billing_term \<Rightarrow> database \<Rightarrow>
    (error + subscription) \<times> database" where
  "upgrade_tx cfg env now racing uid source_id term db =
     (if get_user db uid = None then (Inl (RuntimeError ''NoResultFound''), db)
      else case List.find (\<lambda>s. sub_id s = source_id \<and> sub_user_id s = uid) (subscriptions db) of
        None \<Rightarrow> (Inl (ValueError ''subscription not found''), db)
      | Some source \<Rightarrow>
          if \<not> upgradable now source
          then (Inl (ValueError ''only an active customer-owned exact Relay subscription with remaining service can upgrade''), db)
          else let labels = split_on (CHR ''.'') (the (domain source)); base = join_on ''.'' (tl labels) in
            if length labels < 2
            then (Inl (ValueError ''exact Relay hostname cannot upgrade to a wildcard base domain''), db)
            else (case validate_wildcard_base_domain cfg base of
                Some e \<Rightarrow> (Inl e, db)
              | None \<Rightarrow>
                  if has_pending_upgrade db source
                  then (Inl (ValueError ''subscription already has a pending wildcard upgrade''), db)
                  else if open_payments db (sub_id source) \<noteq> []
                  then (Inl (ValueError ''subscription has an open payment and cannot upgrade''), db)
                  else let req = upgrade_request source base term in
                    (case check_order cfg env req of
                       Inl e \<Rightarrow> (Inl e, db)
                     | Inr c \<Rightarrow>
                         (case place_order cfg env now racing uid req c db of
                            (Inl e, db1) \<Rightarrow> (Inl e, db1)
                          | (Inr target, db1) \<Rightarrow>
                              (case link_upgrade now source term target db1 of
                                 Inl e \<Rightarrow> (Inl e, racing db)
                               | Inr (target', db2) \<Rightarrow> (Inr target', db2))))))"

definition create_wildcard_upgrade ::
  "settings \<Rightarrow> order_env \<Rightarrow> gateway \<Rightarrow> time \<Rightarrow> (database \<Rightarrow> database) \<Rightarrow> int \<Rightarrow> int \<Rightarrow> billing_term \<Rightarrow> subscription comp" where
  "create_wildcard_upgrade cfg env gw now racing uid source_id term =
     andthen (reap_expired_domain_claims cfg gw now)
       (\<lambda>_ w. case upgrade_tx cfg env now racing uid source_id term (wdb w) of
                (result, db) \<Rightarrow> (result, w\<lparr>wdb := db\<rparr>))"

section \<open>Cancellation\<close>

definition cancelled_values :: "time \<Rightarrow> subscription \<Rightarrow> subscription" where
  "cancelled_values now s = (release_values now s)\<lparr>assigned_ip := None, assigned_port := None,
     reservation_expires_at := None, reservation_payment_id := None, resource_quarantined_until := None\<rparr>"

text \<open>Every open payment is reconciled; one that stays open refuses the cancellation.\<close>

fun reconcile_open_payments :: "settings \<Rightarrow> gateway \<Rightarrow> time \<Rightarrow> payment list \<Rightarrow> unit comp" where
  "reconcile_open_payments cfg gw now [] = return ()"
| "reconcile_open_payments cfg gw now (p # ps) =
     (if pay_status p = PROCESSING
      then raise (SubscriptionCancellationConflict ''payment processing is in progress; wait before cancelling'')
      else andthen (check_and_settle_payment cfg gw now p)
        (\<lambda>q. if is_open (pay_status q)
             then raise (SubscriptionCancellationConflict ''a payment is still pending; complete it or wait for it to expire'')
             else reconcile_open_payments cfg gw now ps))"

definition cancel_tx :: "time \<Rightarrow> int \<Rightarrow> database \<Rightarrow> error + subscription \<times> database" where
  "cancel_tx now i db =
     (case get_subscription db i of
        None \<Rightarrow> Inl (ValueError ''subscription not found'')
      | Some current \<Rightarrow>
          if sub_status current \<noteq> SubPENDING
          then Inl (SubscriptionCancellationConflict
                 ''payment settled while cancellation was requested; subscription was not cancelled'')
          else let matches = (\<lambda>r. sub_id r = i \<and> sub_status r = SubPENDING \<and> open_payments db i = []) in
            if row_count matches (subscriptions db) \<noteq> 1
            then Inl (SubscriptionCancellationConflict ''a payment is still pending; complete it or wait for it to expire'')
            else let db1 = db\<lparr>subscriptions := update_where matches (cancelled_values now) (subscriptions db)\<rparr>;
                     db2 = snd (release now current ''pending subscription cancelled'' db1)
                 in (case get_subscription db2 i of
                       None \<Rightarrow> Inl (RuntimeError ''subscription disappeared'')
                     | Some cancelled \<Rightarrow> Inr (cancelled, db2)))"

definition cancel_pending_subscription :: "settings \<Rightarrow> gateway \<Rightarrow> time \<Rightarrow> subscription \<Rightarrow> subscription comp" where
  "cancel_pending_subscription cfg gw now sub w =
     (if get_user (wdb w) (sub_user_id sub) = None then raise (RuntimeError ''NoResultFound'') w
      else case get_subscription (wdb w) (sub_id sub) of
        None \<Rightarrow> raise (ValueError ''subscription not found'') w
      | Some current \<Rightarrow>
          if sub_status current \<noteq> SubPENDING
          then raise (ValueError ''only pending subscriptions can be cancelled'') w
          else andthen (reconcile_open_payments cfg gw now (open_payments (wdb w) (sub_id current)))
            (\<lambda>_ w1. if get_user (wdb w1) (sub_user_id current) = None then raise (RuntimeError ''NoResultFound'') w1
                    else case cancel_tx now (sub_id current) (wdb w1) of
                      Inl e \<Rightarrow> raise e w1
                    | Inr (cancelled, db) \<Rightarrow> return cancelled (w1\<lparr>wdb := db\<rparr>)) w)"

section \<open>Elapsed resource holds\<close>

definition assignment_missing :: "subscription \<Rightarrow> bool" where
  "assignment_missing s =
     (\<not> nonempty (assigned_ip s) \<or> (product s = PORT \<and> \<not> nonzero (assigned_port s)))"

definition hold_not_due :: "time \<Rightarrow> subscription \<Rightarrow> time \<Rightarrow> bool" where
  "hold_not_due now sub deadline =
     (deadline > now \<and>
      (assignment_missing sub \<or>
       (case current_period_end sub of None \<Rightarrow> True | Some e \<Rightarrow> deadline \<ge> e + days 7)))"

text \<open>A hold recorded by an old installation is extended to the renewal window, its lease with it.\<close>

definition extend_hold :: "time \<Rightarrow> subscription \<Rightarrow> time \<Rightarrow> database \<Rightarrow> database" where
  "extend_hold now sub renewal_end db =
     (let matches = (\<lambda>r. sub_id r = sub_id sub \<and> sub_status r = SubEXPIRED \<and>
            resource_quarantined_until r = resource_quarantined_until sub);
          db1 = db\<lparr>subscriptions := update_where matches
            (\<lambda>r. r\<lparr>resource_quarantined_until := Some renewal_end, sub_updated_at := now\<rparr>) (subscriptions db)\<rparr>
      in if row_count matches (subscriptions db) \<noteq> 1 then db
         else case (if product sub = IP then current_lease db1 (sub_id sub) else None) of
           None \<Rightarrow> db1
         | Some lease \<Rightarrow>
             if Some (lease_address lease) = assigned_ip sub
             then set_lease (lease_id lease) (\<lambda>l. l\<lparr>quarantine_until := Some renewal_end\<rparr>) db1 else db1)"

definition hold_released :: "time \<Rightarrow> subscription \<Rightarrow> subscription" where
  "hold_released now r = r\<lparr>assigned_ip := None, assigned_port := None,
     resource_quarantined_until := None, sub_updated_at := now\<rparr>"

definition release_hold :: "time \<Rightarrow> subscription \<Rightarrow> database \<Rightarrow> database" where
  "release_hold now sub db =
     (let matches = (\<lambda>r. sub_id r = sub_id sub \<and> sub_status r = SubEXPIRED \<and>
            resource_quarantined_until r = resource_quarantined_until sub \<and>
            (case resource_quarantined_until r of Some q \<Rightarrow> q \<le> now | None \<Rightarrow> False) \<and>
            sub_updated_at r = sub_updated_at sub \<and> open_payments db (sub_id sub) = [])
      in if row_count matches (subscriptions db) \<noteq> 1 then db
         else snd (release now sub ''resource quarantine elapsed''
                (db\<lparr>subscriptions := update_where matches (hold_released now) (subscriptions db)\<rparr>)))"

text \<open>The part of an iteration after reconciliation; \<open>deadline\<close> is the one read before it.\<close>

definition settle_hold :: "time \<Rightarrow> int \<Rightarrow> time \<Rightarrow> database \<Rightarrow> database" where
  "settle_hold now i deadline db =
     (case get_subscription db i of
        None \<Rightarrow> db
      | Some sub \<Rightarrow>
          if sub_status sub \<noteq> SubEXPIRED \<or> assignment_missing sub then db
          else case current_period_end sub of
            None \<Rightarrow> db
          | Some period_end \<Rightarrow>
              let renewal_end = period_end + days 7 in
              if renewal_end > deadline then extend_hold now sub renewal_end db
              else if deadline > now then db
              else release_hold now sub db)"

definition reap_quarantine :: "settings \<Rightarrow> gateway \<Rightarrow> time \<Rightarrow> int \<Rightarrow> world \<Rightarrow> world" where
  "reap_quarantine cfg gw now i w =
     (case get_subscription (wdb w) i of
        None \<Rightarrow> w
      | Some sub \<Rightarrow>
          (case (sub_status sub, resource_quarantined_until sub) of
             (SubEXPIRED, Some deadline) \<Rightarrow>
               if hold_not_due now sub deadline then w
               else let settle = (\<lambda>w. w\<lparr>wdb := settle_hold now i deadline (wdb w)\<rparr>) in
                 (case (if deadline \<le> now then open_payments (wdb w) i else []) of
                    [] \<Rightarrow> settle w
                  | p # _ \<Rightarrow>
                      if pay_status p = PROCESSING then w
                      else case check_and_settle_payment cfg gw now p w of
                        (Inl _, w') \<Rightarrow> w' | (Inr _, w') \<Rightarrow> settle w')
           | _ \<Rightarrow> w))"

definition orphan_cleared :: "time \<Rightarrow> subscription \<Rightarrow> subscription" where
  "orphan_cleared now s = s\<lparr>assigned_ip := None, assigned_port := None,
     reservation_expires_at := None, sub_updated_at := now\<rparr>"

definition reap_reservation :: "settings \<Rightarrow> gateway \<Rightarrow> time \<Rightarrow> int \<Rightarrow> unit comp" where
  "reap_reservation cfg gw now i w =
     (case get_subscription (wdb w) i of
        None \<Rightarrow> return () w
      | Some sub \<Rightarrow>
          if (case reservation_expires_at sub of None \<Rightarrow> True | Some d \<Rightarrow> d > now) then return () w
          else case reservation_payment_id sub of
            None \<Rightarrow>
              return () (w\<lparr>wdb := set_subscription i (orphan_cleared now)
                           (snd (release now sub ''orphaned reservation elapsed'' (wdb w)))\<rparr>)
          | Some payment_id \<Rightarrow>
              (case get_payment (wdb w) payment_id of
                 None \<Rightarrow> return () (w\<lparr>wdb := snd (release_reservation now sub payment_id (wdb w))\<rparr>)
               | Some p \<Rightarrow>
                   if is_final (pay_status p)
                   then return () (w\<lparr>wdb := snd (release_reservation now sub payment_id (wdb w))\<rparr>)
                   else if pay_status p = PROCESSING then return () w
                   else case check_and_settle_payment cfg gw now p w of
                     (Inl (DisabledPaymentMethodError _), w') \<Rightarrow> return () w'
                   | (Inl e, w') \<Rightarrow> raise e w'
                   | (Inr _, w') \<Rightarrow> return () w'))"

fun reap_reservations :: "settings \<Rightarrow> gateway \<Rightarrow> time \<Rightarrow> int list \<Rightarrow> unit comp" where
  "reap_reservations cfg gw now [] = return ()"
| "reap_reservations cfg gw now (i # is) =
     andthen (reap_reservation cfg gw now i) (\<lambda>_. reap_reservations cfg gw now is)"

definition reap_elapsed_resource_holds :: "settings \<Rightarrow> gateway \<Rightarrow> time \<Rightarrow> unit comp" where
  "reap_elapsed_resource_holds cfg gw now w =
     (let quarantined = map sub_id (filter (\<lambda>s. resource_quarantined_until s \<noteq> None) (subscriptions (wdb w)));
          w1 = fold (reap_quarantine cfg gw now) quarantined w;
          reserved = map sub_id (filter (\<lambda>s. reservation_expires_at s \<noteq> None) (subscriptions (wdb w1)))
      in reap_reservations cfg gw now reserved w1)"

end
