(* ===== verification/Hostname_Claims.thy ===== *)
theory Hostname_Claims
  imports Subscription_Orders
begin

text \<open>
  Hostname claims over their life: when the reaper of elapsed claims releases a name and when it keeps
  one. The relation \<open>loop_kept\<close> extends the one of a settlement run by the release of due names.
\<close>


section \<open>Preparation of the claims\<close>

text \<open>A loop of compare-and-set updates over selected rows is one update of the table.\<close>

lemma fold_update_rows:
  assumes "set xs \<subseteq> set rs" and "distinct (map key rs)" and "distinct (map key xs)"
    and keep: "\<And>s r. key (f s r) = key r"
  shows "fold (\<lambda>s. update_where (\<lambda>r. key r = key s \<and> P r) (f s)) xs rs =
    update_where (\<lambda>r. r \<in> set xs \<and> P r) (\<lambda>r. f r r) rs"
  using assms(1-3)
proof (induction xs arbitrary: rs)
  case (Cons x xs)
  let ?g = "\<lambda>r. if key r = key x \<and> P r then f x r else r"
  let ?rs = "map ?g rs"
  have x: "key r = key x \<longleftrightarrow> r = x" if "r \<in> set rs" for r
    using that Cons.prems by (auto simp: distinct_map dest: inj_onD)
  have other: "key r \<noteq> key x" if "r \<in> set xs" for r using that Cons.prems(3) by (auto simp: image_iff)
  have sub: "set xs \<subseteq> set ?rs"
  proof
    fix r assume "r \<in> set xs"
    then have "?g r = r" "r \<in> set rs" using other Cons.prems(1) by auto
    then show "r \<in> set ?rs" by force
  qed
  have d: "distinct (map key ?rs)"
  proof -
    have "map key ?rs = map key rs" by (auto simp: keep)
    then show ?thesis using Cons.prems(2) by metis
  qed
  have step: "update_where (\<lambda>r. key r = key x \<and> P r) (f x) rs = ?rs" by (simp add: update_where_def)
  have "fold (\<lambda>s. update_where (\<lambda>r. key r = key s \<and> P r) (f s)) (x # xs) rs =
      update_where (\<lambda>r. r \<in> set xs \<and> P r) (\<lambda>r. f r r) ?rs"
    using Cons.IH [OF sub d] Cons.prems(3) by (simp add: step)
  also have "\<dots> = update_where (\<lambda>r. r \<in> set (x # xs) \<and> P r) (\<lambda>r. f r r) rs"
  proof -
    have "?g r \<in> set xs \<longleftrightarrow> r \<in> set xs" if "r \<in> set rs" for r
      using other [of "?g r"] other [of r] x [OF that] keep [of x r] by (auto split: if_splits)
    then show ?thesis using x other by (auto simp: update_where_def)
  qed
  finally show ?case .
qed (simp add: update_where_def)

lemma fold_update_selected:
  assumes "distinct (map key rs)" and "\<And>s r. key (f s r) = key r"
  shows "fold (\<lambda>s. update_where (\<lambda>r. key r = key s \<and> P r) (f s)) (filter (\<lambda>s. Q s \<and> P s) rs) rs =
    update_where (\<lambda>r. Q r \<and> P r) (\<lambda>r. f r r) rs"
proof -
  have "fold (\<lambda>s. update_where (\<lambda>r. key r = key s \<and> P r) (f s)) (filter (\<lambda>s. Q s \<and> P s) rs) rs =
      update_where (\<lambda>r. r \<in> set (filter (\<lambda>s. Q s \<and> P s) rs) \<and> P r) (\<lambda>r. f r r) rs"
    using assms by (intro fold_update_rows) (auto simp: distinct_map_filter)
  also have "\<dots> = update_where (\<lambda>r. Q r \<and> P r) (\<lambda>r. f r r) rs"
    by (auto simp: update_where_def)
  finally show ?thesis .
qed

lemma fold_subscriptions:
  assumes "\<And>s db. g s db = db\<lparr>subscriptions := h s (subscriptions db)\<rparr>"
  shows "fold g xs db = db\<lparr>subscriptions := fold h xs (subscriptions db)\<rparr>"
  by (induction xs arbitrary: db) (simp_all add: assms)

definition with_claim_deadline :: "settings \<Rightarrow> time \<Rightarrow> subscription \<Rightarrow> subscription" where
  "with_claim_deadline cfg now s =
     (if product s = RELAY \<and> claim_without_deadline s
      then s\<lparr>domain_claim_expires_at := Some (sub_created_at s + domain_claim_ttl cfg (domain_is_managed s)),
             sub_updated_at := now\<rparr> else s)"

definition with_grace_deadline :: "settings \<Rightarrow> time \<Rightarrow> subscription \<Rightarrow> subscription" where
  "with_grace_deadline cfg now s =
     (if product s = RELAY \<and> grace_without_deadline s
      then s\<lparr>domain_renewal_grace_expires_at := Some (grace_anchor s + seconds (RELAY_RENEWAL_GRACE_SECONDS cfg)),
             sub_updated_at := now\<rparr> else s)"

definition prepared :: "settings \<Rightarrow> time \<Rightarrow> subscription \<Rightarrow> subscription" where
  "prepared cfg now s = with_grace_deadline cfg now (with_claim_deadline cfg now
     (if product s = RELAY \<and> has_elapsed now s then expiry_values cfg now s s else s))"

lemma update_where_map: "(\<And>r. g r = (if p r then f r else r)) \<Longrightarrow> update_where p f rs = map g rs"
  by (simp add: update_where_def)

lemma init_claims:
  assumes "distinct (map sub_id (subscriptions db))"
  shows "fold (init_claim_deadline cfg now)
      (filter (\<lambda>s. product s = RELAY \<and> claim_without_deadline s) (subscriptions db)) db =
    db\<lparr>subscriptions := map (with_claim_deadline cfg now) (subscriptions db)\<rparr>"
proof -
  let ?f = "\<lambda>s r. r\<lparr>domain_claim_expires_at := Some (sub_created_at s + domain_claim_ttl cfg (domain_is_managed s)),
    sub_updated_at := now\<rparr>"
  have "fold (\<lambda>s. update_where (\<lambda>r. sub_id r = sub_id s \<and> claim_without_deadline r) (?f s))
      (filter (\<lambda>s. product s = RELAY \<and> claim_without_deadline s) (subscriptions db)) (subscriptions db) =
      update_where (\<lambda>r. product r = RELAY \<and> claim_without_deadline r) (\<lambda>r. ?f r r) (subscriptions db)"
    using assms by (rule fold_update_selected) simp
  also have "\<dots> = map (with_claim_deadline cfg now) (subscriptions db)"
    by (rule update_where_map) (simp add: with_claim_deadline_def)
  finally show ?thesis
    by (subst fold_subscriptions [of _ "\<lambda>s. update_where (\<lambda>r. sub_id r = sub_id s \<and> claim_without_deadline r) (?f s)"])
      (simp_all add: init_claim_deadline_def)
qed

lemma init_graces:
  assumes "distinct (map sub_id (subscriptions db))"
  shows "fold (init_grace_deadline cfg now)
      (filter (\<lambda>s. product s = RELAY \<and> grace_without_deadline s) (subscriptions db)) db =
    db\<lparr>subscriptions := map (with_grace_deadline cfg now) (subscriptions db)\<rparr>"
proof -
  let ?f = "\<lambda>s r. r\<lparr>domain_renewal_grace_expires_at := Some (grace_anchor s + seconds (RELAY_RENEWAL_GRACE_SECONDS cfg)),
    sub_updated_at := now\<rparr>"
  have "fold (\<lambda>s. update_where (\<lambda>r. sub_id r = sub_id s \<and> grace_without_deadline r) (?f s))
      (filter (\<lambda>s. product s = RELAY \<and> grace_without_deadline s) (subscriptions db)) (subscriptions db) =
      update_where (\<lambda>r. product r = RELAY \<and> grace_without_deadline r) (\<lambda>r. ?f r r) (subscriptions db)"
    using assms by (rule fold_update_selected) simp
  also have "\<dots> = map (with_grace_deadline cfg now) (subscriptions db)"
    by (rule update_where_map) (simp add: with_grace_deadline_def)
  finally show ?thesis
    by (subst fold_subscriptions [of _ "\<lambda>s. update_where (\<lambda>r. sub_id r = sub_id s \<and> grace_without_deadline r) (?f s)"])
      (simp_all add: init_grace_deadline_def)
qed


lemma expiry_relay:
  assumes "product s = RELAY" shows "expiry_values cfg now s s = s\<lparr>sub_status := SubEXPIRED, reservation_expires_at := None,
     reservation_payment_id := None, sub_updated_at := now,
     domain_renewal_grace_expires_at := Some (case_option now id (current_period_end s) +
       seconds (RELAY_RENEWAL_GRACE_SECONDS cfg))\<rparr>"
  using assms by (simp add: expiry_values_def hold_until_def is_scarce_def Let_def)

lemma expire_one_frame:
  "expire_one cfg seal now sub (held, ch, db) = Inr (held', ch', db') \<Longrightarrow> payments db' = payments db \<and> users db' = users db"
  by (auto simp: expire_one_def Let_def split: if_splits sum.splits
      dest: notify_expired_frame(2,3))

lemma expire_loop_frame:
  "expire_loop cfg seal now rows (held, ch, db) = Inr (held', ch', db') \<Longrightarrow> payments db' = payments db \<and> users db' = users db"
proof (induction rows arbitrary: held ch db)
  case (Cons sub rows)
  from Cons.prems obtain h1 c1 db1
    where one: "expire_one cfg seal now sub (held, ch, db) = Inr (h1, c1, db1)"
      and rest: "expire_loop cfg seal now rows (h1, c1, db1) = Inr (held', ch', db')"
    by (auto split: sum.splits)
  show ?case using Cons.IH [OF rest] expire_one_frame [OF one] by simp
qed simp

lemma prepare_claims_result:
  assumes run: "prepare_claims cfg seal now db = Inr db'" and d: "distinct (map sub_id (subscriptions db))"
  shows "subscriptions db' = map (prepared cfg now) (subscriptions db) \<and> payments db' = payments db \<and> users db' = users db"
proof -
  let ?el = "elapsed_active now db"
  let ?g = "\<lambda>s. if product s = RELAY \<and> has_elapsed now s then expiry_values cfg now s s else s"
  from run obtain rs db1 where e: "expire_elapsed_subscriptions cfg seal now ?el db = Inr (rs, db1)"
    by (auto simp: prepare_claims_def split: sum.splits)
  then obtain h ch where loop: "expire_loop cfg seal now ?el (None, False, db) = Inr (h, ch, db1)"
    by (auto simp: expire_elapsed_subscriptions_def split: sum.splits)
  have dist: "distinct ?el" unfolding elapsed_active_def by (rule distinct_filter) (use d in \<open>simp add: distinct_map\<close>)
  have "subscriptions db1 = update_where (\<lambda>r. r \<in> set ?el \<and> has_elapsed now r) (\<lambda>r. expiry_values cfg now r r) (subscriptions db)"
    by (rule expire_loop_subscriptions [OF loop _ d dist]) (auto simp: elapsed_active_def)
  also have "\<dots> = map ?g (subscriptions db)"
    by (auto simp: update_where_def elapsed_active_def has_elapsed_def)
  finally have subs1: "subscriptions db1 = map ?g (subscriptions db)" .
  have ids: "sub_id (?g s) = sub_id s" "sub_id (with_claim_deadline cfg now s) = sub_id s" for s
    by (simp_all add: with_claim_deadline_def)
  have d1: "distinct (map sub_id (subscriptions db1))" using d by (simp add: subs1 ids comp_def)
  have d2: "distinct (map sub_id (map (with_claim_deadline cfg now) (subscriptions db1)))"
    using d1 by (simp add: ids comp_def)
  have "db' = db1\<lparr>subscriptions := map (with_grace_deadline cfg now) (map (with_claim_deadline cfg now) (subscriptions db1))\<rparr>"
    using run e init_claims [OF d1, of cfg now] d2
      init_graces [of "db1\<lparr>subscriptions := map (with_claim_deadline cfg now) (subscriptions db1)\<rparr>" cfg now]
    by (simp add: prepare_claims_def Let_def)
  then show ?thesis using subs1 expire_loop_frame [OF loop] by (simp add: prepared_def comp_def)
qed

text \<open>When the name of a Relay row falls due: the deadline the reaper goes by, if there is one.\<close>

definition name_deadline :: "settings \<Rightarrow> time \<Rightarrow> subscription \<Rightarrow> time option" where
  "name_deadline cfg now s =
     (let grace = seconds (RELAY_RENEWAL_GRACE_SECONDS cfg) in
      case sub_status s of
        SubPENDING \<Rightarrow> Some (case domain_claim_expires_at s of Some d \<Rightarrow> d
          | None \<Rightarrow> sub_created_at s + domain_claim_ttl cfg (domain_is_managed s))
      | SubEXPIRED \<Rightarrow> Some (case domain_renewal_grace_expires_at s of Some d \<Rightarrow> d | None \<Rightarrow> grace_anchor s + grace)
      | SubACTIVE \<Rightarrow> (if elapsed_or_missing now (current_period_end s)
          then Some (case_option now id (current_period_end s) + grace) else None)
      | SubCANCELLED \<Rightarrow> None)"

definition name_due :: "settings \<Rightarrow> time \<Rightarrow> subscription \<Rightarrow> bool" where
  "name_due cfg now s \<longleftrightarrow> (case name_deadline cfg now s of Some d \<Rightarrow> d \<le> now | None \<Rightarrow> False)"

lemma prepared_simps [simp]:
  "sub_id (prepared cfg now s) = sub_id s" "product (prepared cfg now s) = product s"
  "domain (prepared cfg now s) = domain s" "relay_hostname_scope (prepared cfg now s) = relay_hostname_scope s"
  "sub_user_id (prepared cfg now s) = sub_user_id s"
  "upgrade_from_subscription_id (prepared cfg now s) = upgrade_from_subscription_id s" "prices (prepared cfg now s) = prices s"
  by (simp_all add: prices_def prepared_def with_grace_deadline_def with_claim_deadline_def expiry_relay)

lemma prepared_due:
  assumes "product s = RELAY" and "domain s \<noteq> None"
  shows "release_due now (prepared cfg now s) \<longleftrightarrow> name_due cfg now s"
  using assms
  by (cases "sub_status s"; cases "current_period_end s")
    (auto simp: prepared_def with_grace_deadline_def with_claim_deadline_def expiry_relay has_elapsed_def
      claim_without_deadline_def grace_without_deadline_def release_due_def claim_elapsed_def grace_elapsed_def
      name_due_def name_deadline_def grace_anchor_def elapsed_or_missing_def Let_def split: option.splits)


section \<open>The release loop\<close>

lemma update_key_where:
  assumes "distinct (map key rs)" and "get_row key k rs = Some r" and "q r"
  shows "update_where (\<lambda>x. key x = k \<and> q x) f rs = update_where (\<lambda>x. key x = k) f rs"
proof -
  have "key x = k \<and> q x \<longleftrightarrow> key x = k" if "x \<in> set rs" for x
    using assms that get_row_unique [OF assms(1) that] by auto
  then show ?thesis by (auto simp: update_where_def)
qed

lemma release_claim_exact:
  assumes d: "distinct (map sub_id (subscriptions db))"
  shows "release_claim now i db = (case get_subscription db i of None \<Rightarrow> None | Some s \<Rightarrow>
     if domain s \<noteq> None \<and> release_due now s \<and> open_payments db i = []
     then Some (set_subscription i (release_values now) db) else None)"
proof (cases "get_subscription db i")
  case (Some s)
  let ?q = "\<lambda>r. sub_status r = sub_status s \<and> domain r \<noteq> None \<and>
    (if sub_status s = SubPENDING then claim_elapsed now r else grace_elapsed now r) \<and> open_payments db i = []"
  note upd = update_key_where [OF d Some [unfolded get_subscription_def], of ?q "release_values now"]
  have count: "row_count (\<lambda>r. sub_id r = i \<and> ?q r) (subscriptions db) = 1 \<longleftrightarrow> ?q s"
    using row_count_key [OF d, of i ?q] Some by (auto simp: get_subscription_def)
  show ?thesis
  proof (cases "domain s = None \<or> (sub_status s \<noteq> SubPENDING \<and> sub_status s \<noteq> SubEXPIRED)")
    case True
    then show ?thesis using Some by (auto simp: release_claim_def release_due_def)
  next
    case False
    then have due: "?q s \<longleftrightarrow> release_due now s \<and> open_payments db i = []"
      by (auto simp: release_due_def)
    show ?thesis
      using False Some count upd due unfolding release_claim_def Let_def
      by (auto simp: set_subscription_def simp del: One_nat_def)
  qed
qed (simp add: release_claim_def)

text \<open>What the loop does to a row: a settlement run, or the release of a due name without open payment.\<close>

definition name_released :: "time \<Rightarrow> int set \<Rightarrow> subscription \<Rightarrow> subscription \<Rightarrow> bool" where
  "name_released now ops s s' \<longleftrightarrow> product s = RELAY \<and> release_due now s \<and> domain s \<noteq> None \<and> sub_id s \<notin> ops \<and>
     sub_id s' = sub_id s \<and> sub_user_id s' = sub_user_id s \<and> product s' = RELAY \<and> prices s' = prices s \<and>
     domain s' = None \<and> sub_status s' = SubCANCELLED \<and> relay_hostname_scope s' = relay_hostname_scope s"

definition claim_row :: "time \<Rightarrow> int set \<Rightarrow> int set \<Rightarrow> int set \<Rightarrow> subscription \<Rightarrow> subscription \<Rightarrow> bool" where
  "claim_row now ops' ops srcs s s' \<longleftrightarrow> kept_by ops srcs s s' \<or> name_released now ops' s s'"

definition loop_kept :: "time \<Rightarrow> database \<Rightarrow> database \<Rightarrow> bool" where
  "loop_kept now db db' \<longleftrightarrow> users db' = users db \<and> map sub_id (subscriptions db') = map sub_id (subscriptions db) \<and>
     map pay_id (payments db') = map pay_id (payments db) \<and> opens db' \<subseteq> opens db \<and> sources db' \<subseteq> sources db \<and>
     (\<forall>i. rel_option (claim_row now (opens db') (opens db) (sources db)) (get_subscription db i) (get_subscription db' i))"

lemma released_then_kept:
  assumes "name_released now o1 a b" and "kept_by ops srcs b c" and "o2 \<subseteq> o1"
  shows "name_released now o2 a c"
proof -
  have b: "product b = RELAY" "domain b = None" "sub_status b = SubCANCELLED"
    using assms(1) by (simp_all add: name_released_def)
  then have "domain c = None" "sub_status c = SubCANCELLED" "sub_id c = sub_id b" "sub_user_id c = sub_user_id b"
    "product c = RELAY" "prices c = prices b" "relay_hostname_scope c = relay_hostname_scope b"
    using assms(2) by (auto simp: kept_by_def)
  then show ?thesis using assms(1,3) by (auto simp: name_released_def)
qed

lemma kept_then_released:
  assumes "kept_by ops srcs a b" and "name_released now o2 b c"
  shows "name_released now o2 a c"
proof -
  have b: "product b = RELAY" "domain b \<noteq> None" "release_due now b" using assms(2) by (simp_all add: name_released_def)
  then have "sub_status b \<noteq> SubACTIVE" by (auto simp: release_due_def)
  then have st: "sub_status b = sub_status a" "domain b = domain a"
    "domain_claim_expires_at b = domain_claim_expires_at a"
    "domain_renewal_grace_expires_at b = domain_renewal_grace_expires_at a"
    using assms(1) b by (auto simp: kept_by_def)
  have "release_due now a"
    using b(3) unfolding release_due_def claim_elapsed_def grace_elapsed_def st .
  moreover have "sub_id b = sub_id a" "sub_user_id b = sub_user_id a" "product b = product a" "prices b = prices a"
    "relay_hostname_scope b = relay_hostname_scope a"
    using assms(1) by (simp_all add: kept_by_def)
  ultimately show ?thesis using assms(2) st by (simp add: name_released_def)
qed

lemma claim_row_trans:
  assumes ab: "claim_row now o1 o0 s0 a b" and bc: "claim_row now o2 o1 s1 b c"
    and sub: "o1 \<subseteq> o0" "o2 \<subseteq> o1" "s1 \<subseteq> s0"
  shows "claim_row now o2 o0 s0 a c"
  using bc unfolding claim_row_def
proof
  assume k: "kept_by o1 s1 b c"
  then have k': "kept_by o1 s0 b c" using sub(3) by (auto simp: kept_by_def)
  from ab show "kept_by o0 s0 a c \<or> name_released now o2 a c"
    unfolding claim_row_def using kept_by_trans [OF _ k' sub(1)] released_then_kept [OF _ k sub(2)] by blast
next
  assume r: "name_released now o2 b c"
  have "\<not> name_released now o1 a b" using r by (auto simp: name_released_def)
  then show "kept_by o0 s0 a c \<or> name_released now o2 a c"
    using ab kept_then_released [OF _ r] unfolding claim_row_def by blast
qed

lemma loop_kept_refl [simp]: "loop_kept now db db"
  by (simp add: loop_kept_def claim_row_def option.rel_refl)

lemma loop_kept_trans:
  assumes ab: "loop_kept now a b" and bc: "loop_kept now b c" shows "loop_kept now a c"
proof -
  have sub: "opens b \<subseteq> opens a" "opens c \<subseteq> opens b" "sources b \<subseteq> sources a" "sources c \<subseteq> sources b"
    using assms by (simp_all add: loop_kept_def)
  have "rel_option (claim_row now (opens c) (opens a) (sources a)) (get_subscription a i) (get_subscription c i)" for i
  proof (rule rel_option_trans)
    show "rel_option (claim_row now (opens b) (opens a) (sources a)) (get_subscription a i) (get_subscription b i)"
      "rel_option (claim_row now (opens c) (opens b) (sources b)) (get_subscription b i) (get_subscription c i)"
      using assms by (simp_all add: loop_kept_def)
  qed (rule claim_row_trans [OF _ _ sub(1,2,3)])
  moreover have "opens c \<subseteq> opens a" "sources c \<subseteq> sources a" using sub by blast+
  ultimately show ?thesis using assms by (simp add: loop_kept_def)
qed

lemma db_kept_loop:
  assumes "db_kept db db'" shows "loop_kept now db db'"
proof -
  have "rel_option (claim_row now (opens db') (opens db) (sources db)) (get_subscription db i) (get_subscription db' i)" for i
  proof (rule option.rel_mono_strong)
    show "rel_option (kept_by (opens db) (sources db)) (get_subscription db i) (get_subscription db' i)"
      using assms by (simp add: db_kept_def)
  qed (simp add: claim_row_def)
  moreover have "opens db' \<subseteq> opens db" using assms by (auto simp: db_kept_def dest: paid_active_opens)
  ultimately show ?thesis
    using assms db_kept_pay_ids [OF assms] db_kept_sources [OF assms] by (simp add: loop_kept_def db_kept_def)
qed

lemma open_payments_opens: "open_payments db i = [] \<longleftrightarrow> i \<notin> opens db"
  by (auto simp: open_payments_def opens_def filter_empty_conv)

lemma release_claim_kept:
  assumes d: "distinct (map sub_id (subscriptions db))" and run: "release_claim now i db = Some db'"
    and relay: "\<And>s. get_subscription db i = Some s \<Longrightarrow> product s = RELAY"
  shows "loop_kept now db db'"
proof -
  from run obtain s where s: "get_subscription db i = Some s" and due: "domain s \<noteq> None" "release_due now s"
    and no: "open_payments db i = []" and db': "db' = set_subscription i (release_values now) db"
    by (auto simp: release_claim_exact [OF d] split: option.splits if_splits)
  have id: "sub_id (release_values now x) = sub_id x" for x by (simp add: release_values_def)
  have ops: "opens db' = opens db" by (simp add: db' opens_def)
  have row: "name_released now (opens db) s (release_values now s)"
    using due no relay [OF s] get_subscription_id [OF s] by (simp add: name_released_def release_values_def open_payments_opens prices_def)
  have get': "get_subscription db' j = (if j = i then Some (release_values now s) else get_subscription db j)" for j
    using s by (simp add: db' get_set_subscription [OF id])
  have rows: "rel_option (claim_row now (opens db) (opens db) (sources db)) (get_subscription db j) (get_subscription db' j)" for j
    using row s by (simp add: get' claim_row_def option.rel_refl)
  have "sources db' \<subseteq> sources db"
    by (auto simp: sources_def get' release_values_def split: if_splits)
  then show ?thesis using rows by (simp add: loop_kept_def ops) (simp add: db' set_subscription_ids id)
qed


lemma reconcile_kept:
  assumes "distinct (map pay_id (payments (wdb w)))"
  shows "db_kept (wdb w) (wdb (snd (reconcile_domain_payment cfg gw now p w)))"
proof -
  have "quiet (wdb w) (expire_pending_payment now p (wdb w))"
    by (simp add: expire_pending_payment_def quiet_expire split: option.splits)
  then have "db_kept (wdb w) (wdb (snd (commit (expire_pending_payment now p) (pay_id p) w)))"
    by (simp add: commit_def standing.snd_reload quiet_kept)
  then show ?thesis using settle_kept [OF assms] by (simp add: reconcile_domain_payment_def return_def)
qed

lemma loop_kept_row:
  assumes "loop_kept now db db'" and "get_subscription db i = Some s"
  obtains s' where "get_subscription db' i = Some s'" and "claim_row now (opens db') (opens db) (sources db) s s'"
proof -
  have "rel_option (claim_row now (opens db') (opens db) (sources db)) (Some s) (get_subscription db' i)"
    using assms unfolding loop_kept_def by metis
  then show thesis using that by (auto simp: option_rel_Some1)
qed

lemma loop_kept_back:
  assumes "loop_kept now db db'" and "get_subscription db' i = Some s'"
  obtains s where "get_subscription db i = Some s" and "claim_row now (opens db') (opens db) (sources db) s s'"
proof -
  have "rel_option (claim_row now (opens db') (opens db) (sources db)) (get_subscription db i) (Some s')"
    using assms unfolding loop_kept_def by metis
  then show thesis using that by (auto simp: option_rel_Some2)
qed

lemma claim_row_product: "claim_row now ops' ops srcs s s' \<Longrightarrow> product s' = product s"
  by (auto simp: claim_row_def kept_by_def name_released_def)

definition all_relay :: "int list \<Rightarrow> database \<Rightarrow> bool" where
  "all_relay is db \<longleftrightarrow> (\<forall>i \<in> set is. \<forall>s. get_subscription db i = Some s \<longrightarrow> product s = RELAY)"

lemma all_relay_kept: "all_relay is db \<Longrightarrow> loop_kept now db db' \<Longrightarrow> all_relay is db'"
  unfolding all_relay_def by (metis loop_kept_back claim_row_product)

definition tables_distinct :: "database \<Rightarrow> bool" where
  "tables_distinct db \<longleftrightarrow> distinct (map sub_id (subscriptions db)) \<and> distinct (map pay_id (payments db))"

lemma tables_distinct_kept: "tables_distinct db \<Longrightarrow> loop_kept now db db' \<Longrightarrow> tables_distinct db'"
  by (simp add: tables_distinct_def loop_kept_def)

lemma release_candidate_kept:
  assumes d: "tables_distinct (wdb w)" and relay: "all_relay [i] (wdb w)"
  shows "loop_kept now (wdb w) (wdb (snd (release_candidate cfg gw now i w)))"
proof -
  let ?release = "\<lambda>w. case release_claim now i (wdb w) of Some db \<Rightarrow> (True, w\<lparr>wdb := db\<rparr>) | None \<Rightarrow> (False, w)"
  have rel: "loop_kept now (wdb v) (wdb (snd (?release v)))"
    if "tables_distinct (wdb v)" "all_relay [i] (wdb v)" for v
    using that release_claim_kept [of "wdb v" now i]
    by (auto simp: tables_distinct_def all_relay_def split: option.splits)
  show ?thesis
  proof (cases "open_payments (wdb w) i")
    case Nil
    then show ?thesis using rel [OF assms] by (simp add: release_candidate_def)
  next
    case (Cons p ps)
    obtain x v where v: "reconcile_domain_payment cfg gw now p w = (x, v)" by (rule prod.exhaust)
    have kept: "loop_kept now (wdb w) (wdb v)"
      using db_kept_loop [OF reconcile_kept [of w cfg gw now p]] d v by (simp add: tables_distinct_def)
    have after: "loop_kept now (wdb w) (wdb (snd (?release v)))"
      using loop_kept_trans [OF kept rel] tables_distinct_kept [OF d kept] all_relay_kept [OF relay kept] by blast
    show ?thesis
      using Cons v kept after by (cases x) (auto simp: release_candidate_def Let_def)
  qed
qed

lemma release_loop_kept:
  assumes "tables_distinct (wdb w)" and "all_relay is (wdb w)"
  shows "loop_kept now (wdb w) (wdb (snd (release_loop cfg gw now is n w)))"
  using assms
proof (induction "is" arbitrary: n w)
  case (Cons i "is")
  obtain dn v where v: "release_candidate cfg gw now i w = (dn, v)" by (rule prod.exhaust)
  have kept: "loop_kept now (wdb w) (wdb v)"
    using release_candidate_kept [OF Cons.prems(1), where i = i and now = now and cfg = cfg and gw = gw] Cons.prems(2) v by (simp add: all_relay_def)
  have "all_relay is (wdb w)" using Cons.prems(2) by (simp add: all_relay_def)
  from Cons.IH [OF tables_distinct_kept [OF Cons.prems(1) kept] all_relay_kept [OF this kept]]
  show ?case using loop_kept_trans [OF kept] v by simp
qed simp


definition name_gone :: "database \<Rightarrow> int \<Rightarrow> bool" where
  "name_gone db i \<longleftrightarrow> (\<exists>s. get_subscription db i = Some s \<and> product s = RELAY \<and> domain s = None)"

definition gone_or_due :: "time \<Rightarrow> database \<Rightarrow> int \<Rightarrow> bool" where
  "gone_or_due now db i \<longleftrightarrow> (\<exists>s. get_subscription db i = Some s \<and> product s = RELAY \<and>
     (domain s = None \<or> release_due now s))"

lemma name_gone_kept: "name_gone db i \<Longrightarrow> loop_kept now db db' \<Longrightarrow> name_gone db' i"
  unfolding name_gone_def
  by (elim exE conjE, erule (1) loop_kept_row) (auto simp: claim_row_def kept_by_def name_released_def)

lemma gone_or_due_kept:
  assumes "gone_or_due now db i" and k: "loop_kept now db db'" and "i \<notin> opens db"
  shows "gone_or_due now db' i"
proof -
  from assms(1) obtain s where s: "get_subscription db i = Some s" "product s = RELAY" "domain s = None \<or> release_due now s"
    by (auto simp: gone_or_due_def)
  obtain s' where s': "get_subscription db' i = Some s'" and row: "claim_row now (opens db') (opens db) (sources db) s s'"
    using loop_kept_row [OF k s(1)] .
  have "sub_id s \<notin> opens db" using assms(3) get_subscription_id [OF s(1)] by simp
  then have "domain s' = None \<or> (sub_status s' = sub_status s \<and> domain s' = domain s \<and>
      domain_claim_expires_at s' = domain_claim_expires_at s \<and>
      domain_renewal_grace_expires_at s' = domain_renewal_grace_expires_at s)"
    using row by (auto simp: claim_row_def kept_by_def name_released_def)
  then have "domain s' = None \<or> release_due now s'"
    using s(3) unfolding release_due_def claim_elapsed_def grace_elapsed_def by metis
  then show ?thesis using s' claim_row_product [OF row] s(2) by (auto simp: gone_or_due_def)
qed

lemma release_candidate_gone:
  assumes "tables_distinct (wdb w)" and "gone_or_due now (wdb w) i" and "i \<notin> opens (wdb w)"
  shows "name_gone (wdb (snd (release_candidate cfg gw now i w))) i"
proof -
  have d: "distinct (map sub_id (subscriptions (wdb w)))" using assms(1) by (simp add: tables_distinct_def)
  have no: "open_payments (wdb w) i = []" using assms(3) by (simp add: open_payments_opens)
  from assms(2) obtain s where s: "get_subscription (wdb w) i = Some s" "product s = RELAY" "domain s = None \<or> release_due now s"
    by (auto simp: gone_or_due_def)
  have id: "sub_id (release_values now x) = sub_id x" for x by (simp add: release_values_def)
  show ?thesis
    using s no by (auto simp: release_candidate_def release_claim_exact [OF d] name_gone_def
        get_set_subscription [OF id] release_values_def)
qed

lemma release_loop_gone:
  assumes "tables_distinct (wdb w)" and "all_relay is (wdb w)" and "gone_or_due now (wdb w) i" and "i \<notin> opens (wdb w)"
    and "i \<in> set is"
  shows "name_gone (wdb (snd (release_loop cfg gw now is n w))) i"
  using assms
proof (induction "is" arbitrary: n w)
  case (Cons j "is")
  obtain dn v where v: "release_candidate cfg gw now j w = (dn, v)" by (rule prod.exhaust)
  have kept: "loop_kept now (wdb w) (wdb v)"
    using release_candidate_kept [OF Cons.prems(1), where i = j and now = now and cfg = cfg and gw = gw] Cons.prems(2) v
    by (simp add: all_relay_def)
  have d: "tables_distinct (wdb v)" using tables_distinct_kept [OF Cons.prems(1) kept] .
  have rest: "all_relay is (wdb v)" using all_relay_kept [OF _ kept, of "is"] Cons.prems(2) by (simp add: all_relay_def)
  show ?case
  proof (cases "j = i")
    case True
    have "name_gone (wdb v) i"
      using release_candidate_gone [OF Cons.prems(1,3,4), of cfg gw] v True by simp
    then have "name_gone (wdb (snd (release_loop cfg gw now is m v))) i" for m
      using name_gone_kept release_loop_kept [OF d rest] by blast
    then show ?thesis using v by simp
  next
    case False
    have "i \<notin> opens (wdb v)" using kept Cons.prems(4) by (auto simp: loop_kept_def)
    then show ?thesis
      using Cons.IH [OF d rest gone_or_due_kept [OF Cons.prems(3) kept Cons.prems(4)]] Cons.prems(5) False v by simp
  qed
qed simp

text \<open>The reaper as a whole.\<close>

lemma reap_run:
  assumes d: "tables_distinct (wdb w)" and run: "reap_expired_domain_claims cfg gw now w = (res, w')"
  obtains e where "res = Inl e" and "w' = w"
  | n db where "res = Inr n" and "subscriptions db = map (prepared cfg now) (subscriptions (wdb w))"
      and "payments db = payments (wdb w)" and "users db = users (wdb w)" and "tables_distinct db"
      and "all_relay (release_candidates now db) db" and "loop_kept now db (wdb w')"
      and "w' = snd (release_loop cfg gw now (release_candidates now db) 0 (w\<lparr>wdb := db\<rparr>))"
proof (cases "prepare_claims cfg (seal_identity gw) now (wdb w)")
  case (Inl e)
  then have "res = Inl e" "w' = w" using run by (simp_all add: reap_expired_domain_claims_def)
  then show thesis by (rule that(1))
next
  case (Inr db)
  let ?loop = "release_loop cfg gw now (release_candidates now db) 0 (w\<lparr>wdb := db\<rparr>)"
  have p: "subscriptions db = map (prepared cfg now) (subscriptions (wdb w)) \<and> payments db = payments (wdb w) \<and>
      users db = users (wdb w)"
    using prepare_claims_result [OF Inr] d by (simp add: tables_distinct_def)
  then have d': "tables_distinct db" using d by (simp add: tables_distinct_def comp_def)
  have "product s = RELAY" if "i \<in> set (release_candidates now db)" "get_subscription db i = Some s" for i s
  proof -
    from that(1) obtain t where t: "t \<in> set (subscriptions db)" "sub_id t = i" "product t = RELAY"
      by (auto simp: release_candidates_def)
    then have "get_subscription db i = Some t"
      using d' get_row_unique [of sub_id "subscriptions db" t] by (simp add: get_subscription_def tables_distinct_def)
    then show ?thesis using that(2) t(3) by simp
  qed
  then have relay: "all_relay (release_candidates now db) db" by (simp add: all_relay_def)
  have w': "w' = snd ?loop" and res: "res = Inr (fst ?loop)"
    using run Inr by (auto simp: reap_expired_domain_claims_def split: prod.splits)
  have "loop_kept now db (wdb w')"
    using release_loop_kept [of "w\<lparr>wdb := db\<rparr>"] d' relay by (simp add: w')
  then show thesis using that(2) res p d' relay w' by blast
qed


lemma prepared_get:
  assumes "subscriptions db = map (prepared cfg now) (subscriptions db0)"
  shows "get_subscription db i = map_option (prepared cfg now) (get_subscription db0 i)"
proof -
  have "get_row sub_id i (map (prepared cfg now) ss) = map_option (prepared cfg now) (get_row sub_id i ss)" for ss
    by (induction ss) (simp_all add: get_row_def)
  then show ?thesis by (simp add: get_subscription_def assms)
qed

lemma prepared_sources:
  assumes "subscriptions db = map (prepared cfg now) (subscriptions db0)" shows "sources db = sources db0"
proof -
  have "(\<exists>t. get_subscription db k = Some t \<and> upgrade_from_subscription_id t = Some i) \<longleftrightarrow>
      (\<exists>t. get_subscription db0 k = Some t \<and> upgrade_from_subscription_id t = Some i)" for k i
    by (cases "get_subscription db0 k") (simp_all add: prepared_get [OF assms])
  then show ?thesis by (simp add: sources_def)
qed

section \<open>Names given up to a settled upgrade\<close>

lemma list_all2_get_row:
  assumes "list_all2 P xs ys" and "\<And>x y. P x y \<Longrightarrow> key y = key x"
  shows "rel_option P (get_row key k xs) (get_row key k ys)"
  using assms by (induction rule: list_all2_induct) (auto simp: get_row_def)

text \<open>
  What settlements and releases keep of the payments and of the upgrade links, and the sources of the
  upgrades one of whose open payments has become paid.
\<close>

definition pay_step :: "payment \<Rightarrow> payment \<Rightarrow> bool" where
  "pay_step p p' \<longleftrightarrow> pay_subscription_id p' = pay_subscription_id p \<and> (is_open (pay_status p') \<longrightarrow> is_open (pay_status p)) \<and>
     (pay_status p = PAID \<longrightarrow> pay_status p' = PAID)"

definition links_kept :: "database \<Rightarrow> database \<Rightarrow> bool" where
  "links_kept db db' \<longleftrightarrow> (\<forall>i. rel_option pay_step (get_payment db i) (get_payment db' i)) \<and>
     (\<forall>k t' i. get_subscription db' k = Some t' \<and> upgrade_from_subscription_id t' = Some i \<longrightarrow>
        (\<exists>t. get_subscription db k = Some t \<and> upgrade_from_subscription_id t = Some i))"

definition upgrade_paid :: "database \<Rightarrow> database \<Rightarrow> int \<Rightarrow> bool" where
  "upgrade_paid db db' i \<longleftrightarrow> (\<exists>n p t p'. get_payment db n = Some p \<and> is_open (pay_status p) \<and>
     get_subscription db (pay_subscription_id p) = Some t \<and> upgrade_from_subscription_id t = Some i \<and>
     get_payment db' n = Some p' \<and> pay_status p' = PAID)"

lemma links_kept_refl [simp]: "links_kept db db"
  by (simp add: links_kept_def option.rel_refl pay_step_def)

lemma links_kept_trans: "links_kept a b \<Longrightarrow> links_kept b c \<Longrightarrow> links_kept a c"
proof -
  assume ab: "links_kept a b" and bc: "links_kept b c"
  have step: "pay_step x y \<Longrightarrow> pay_step y z \<Longrightarrow> pay_step x z" for x y z by (auto simp: pay_step_def)
  have r: "rel_option pay_step (get_payment a i) (get_payment b i)" "rel_option pay_step (get_payment b i) (get_payment c i)" for i
    using ab bc unfolding links_kept_def by blast+
  have "rel_option pay_step (get_payment a i) (get_payment c i)" for i by (rule rel_option_trans [OF step r])
  then show "links_kept a c" using ab bc unfolding links_kept_def by meson
qed

lemma upgrade_paid_later:
  assumes "upgrade_paid a b i" and "links_kept b c" shows "upgrade_paid a c i"
proof -
  from assms(1) obtain n p t p' where *: "get_payment a n = Some p" "is_open (pay_status p)"
    "get_subscription a (pay_subscription_id p) = Some t" "upgrade_from_subscription_id t = Some i"
    "get_payment b n = Some p'" "pay_status p' = PAID" by (auto simp: upgrade_paid_def)
  have "rel_option pay_step (Some p') (get_payment c n)" using assms(2) *(5) unfolding links_kept_def by metis
  then obtain p'' where "get_payment c n = Some p''" "pay_status p'' = PAID" using *(6) by (auto simp: option_rel_Some1 pay_step_def)
  then show ?thesis using * unfolding upgrade_paid_def by blast
qed

lemma upgrade_paid_earlier:
  assumes "links_kept a b" and "upgrade_paid b c i" shows "upgrade_paid a c i"
proof -
  from assms(2) obtain n p t p' where *: "get_payment b n = Some p" "is_open (pay_status p)"
    "get_subscription b (pay_subscription_id p) = Some t" "upgrade_from_subscription_id t = Some i"
    "get_payment c n = Some p'" "pay_status p' = PAID" by (auto simp: upgrade_paid_def)
  have "rel_option pay_step (get_payment a n) (Some p)" using assms(1) *(1) unfolding links_kept_def by metis
  then obtain q where q: "get_payment a n = Some q" "is_open (pay_status q)" "pay_subscription_id q = pay_subscription_id p"
    using *(2) by (auto simp: option_rel_Some2 pay_step_def)
  obtain t0 where "get_subscription a (pay_subscription_id p) = Some t0" "upgrade_from_subscription_id t0 = Some i"
    using assms(1) *(3,4) unfolding links_kept_def by blast
  then show ?thesis using * q unfolding upgrade_paid_def by metis
qed

text \<open>A settlement run takes a name only for a paid upgrade.\<close>

definition name_lost :: "database \<Rightarrow> database \<Rightarrow> int \<Rightarrow> bool" where
  "name_lost db db' i \<longleftrightarrow> (\<exists>s s'. get_subscription db i = Some s \<and> get_subscription db' i = Some s' \<and> domain s \<noteq> None \<and> domain s' = None)"

definition upgrade_run :: "world \<Rightarrow> world \<Rightarrow> bool" where
  "upgrade_run w w' \<longleftrightarrow> run_kept w w' \<and> finals_kept w w' \<and>
     (distinct (map pay_id (payments (wdb w))) \<longrightarrow> (\<forall>i. name_lost (wdb w) (wdb w') i \<longrightarrow> upgrade_paid (wdb w) (wdb w') i))"

lemma run_links:
  assumes "run_kept w w'" and "finals_kept w w'" and "distinct (map pay_id (payments (wdb w)))"
  shows "links_kept (wdb w) (wdb w')"
proof -
  have kept: "db_kept (wdb w) (wdb w')" using assms(1,3) by (simp add: run_kept_def)
  have "list_all2 (\<lambda>p p'. pay_id p' = pay_id p \<and> pay_step p p') (payments (wdb w)) (payments (wdb w'))"
    using kept assms(2) unfolding db_kept_def finals_kept_def list_all2_conv_all_nth
    by (auto simp: paid_active_def final_row_kept_def pay_step_def is_final_def)
  from list_all2_get_row [OF this, of pay_id]
  have "rel_option pay_step (get_payment (wdb w) i) (get_payment (wdb w') i)" for i
    unfolding get_payment_def by (rule option.rel_mono_strong) simp_all
  moreover have "\<exists>t. get_subscription (wdb w) k = Some t \<and> upgrade_from_subscription_id t = Some i"
    if "get_subscription (wdb w') k = Some t'" "upgrade_from_subscription_id t' = Some i" for k t' i
  proof -
    have "rel_option (kept_by (opens (wdb w)) (sources (wdb w))) (get_subscription (wdb w) k) (Some t')"
      using kept that(1) unfolding db_kept_def by metis
    then show ?thesis using that(2) by (auto simp: option_rel_Some2 kept_by_def)
  qed
  ultimately show ?thesis unfolding links_kept_def by blast
qed

lemma upgrade_run_trans: "upgrade_run u v \<Longrightarrow> upgrade_run v w \<Longrightarrow> upgrade_run u w"
proof -
  assume uv: "upgrade_run u v" and vw: "upgrade_run v w"
  have "upgrade_paid (wdb u) (wdb w) i" if d: "distinct (map pay_id (payments (wdb u)))" and l: "name_lost (wdb u) (wdb w) i" for i
  proof -
    have dv: "distinct (map pay_id (payments (wdb v)))" using uv d by (simp add: upgrade_run_def run_kept_def)
    have links: "links_kept (wdb u) (wdb v)" "links_kept (wdb v) (wdb w)"
      using run_links uv vw d dv by (simp_all add: upgrade_run_def)
    from l obtain s where "get_subscription (wdb u) i = Some s" by (auto simp: name_lost_def)
    moreover have "rel_option (kept_by (opens (wdb u)) (sources (wdb u))) (get_subscription (wdb u) i) (get_subscription (wdb v) i)"
      using uv d by (simp add: upgrade_run_def run_kept_def db_kept_def)
    ultimately obtain t where "get_subscription (wdb v) i = Some t" by (auto simp: option_rel_Some1)
    then have "name_lost (wdb u) (wdb v) i \<or> name_lost (wdb v) (wdb w) i" using l by (cases "domain t") (auto simp: name_lost_def)
    then show ?thesis
      using uv vw d dv upgrade_paid_later [OF _ links(2)] upgrade_paid_earlier [OF links(1)] unfolding upgrade_run_def by blast
  qed
  then show "upgrade_run u w" using uv vw standing.R_trans finals.R_trans unfolding upgrade_run_def by blast
qed

lemma quiet_not_lost: "quiet db db' \<Longrightarrow> \<not> name_lost db db' i"
proof
  assume q: "quiet db db'" and "name_lost db db' i"
  then obtain s s' where s: "get_subscription db i = Some s" "get_subscription db' i = Some s'" "domain s \<noteq> None" "domain s' = None"
    by (auto simp: name_lost_def)
  have "rel_option sub_quiet (get_subscription db i) (get_subscription db' i)" using q by (simp add: quiet_def quiet_subs_def)
  then show False using s sub_quietD(5) [of s s'] by simp
qed

lemma finalize_lost:
  assumes d: "distinct (map pay_id (payments db))" and run: "finalize_tx cfg seal now n PENDING v db = Inr db'"
    and lost: "name_lost db db' i"
  shows "upgrade_paid db db' i"
proof (cases "\<exists>p. get_payment db n = Some p \<and> pay_status p = PENDING")
  case False
  then show ?thesis using run finalize_tx_noop [OF d] lost by (auto simp: name_lost_def)
next
  case True
  then obtain p where p: "get_payment db n = Some p" "pay_status p = PENDING" by blast
  let ?p = "(paid now v p)\<lparr>pay_status := PAID\<rparr>" and ?db1 = "marked_paid now v n db"
  have grant: "grant_period cfg seal now ?p ?db1 = Inr db'" using run by (simp add: finalize_tx_pending [OF d p])
  then obtain s where s1: "get_subscription ?db1 (pay_subscription_id ?p) = Some s"
    by (auto simp: grant_period_def split: sum.splits option.splits)
  have get1: "get_subscription ?db1 k = get_subscription db k" for k by (simp add: get_subscription_def marked_paid_def)
  note res = grant_period_result [OF grant s1]
  have s: "get_subscription db (pay_subscription_id p) = Some s" using s1 by (simp add: get1 paid_def)
  have id: "sub_id s = pay_subscription_id p" using get_subscription_id [OF s] by simp
  have "get_payment db' n = get_payment ?db1 n" using res by (simp add: get_payment_def)
  then have n: "get_payment db' n = Some ?p" by (simp add: finalize_tx_pending(2) [OF d p])
  obtain pool where granted: "get_subscription db' (sub_id s) = Some (granted now ?p pool s)" using res by blast
  moreover have "domain (granted now ?p pool s) = domain s" by (simp add: granted_def renewed_def activated_def billed_def)
  ultimately have "i \<noteq> sub_id s" using lost s id by (auto simp: name_lost_def)
  then have "get_subscription db' i = (if is_upgrade_initial s \<and> upgrade_from_subscription_id s = Some i
       then map_option (source_cancelled now) (get_subscription db i) else get_subscription db i)"
    using res by (simp add: get1)
  then have "upgrade_from_subscription_id s = Some i" using lost by (auto simp: name_lost_def split: if_splits)
  moreover have "is_open (pay_status p)" "pay_status ?p = PAID" using p(2) by (simp_all add: is_open_def)
  ultimately show ?thesis using p(1) s n unfolding upgrade_paid_def by blast
qed

lemma quiet_then_lost:
  assumes q: "quiet db db0" and d: "distinct (map pay_id (payments db))"
    and tail: "distinct (map pay_id (payments db0)) \<Longrightarrow> name_lost db0 db' i \<Longrightarrow> upgrade_paid db0 db' i" and lost: "name_lost db db' i"
  shows "upgrade_paid db db' i"
proof -
  have d0: "distinct (map pay_id (payments db0))" using d db_kept_pay_ids [OF quiet_kept [OF q]] by simp
  from lost obtain s s' where s: "get_subscription db i = Some s" "get_subscription db' i = Some s'" "domain s \<noteq> None" "domain s' = None"
    by (auto simp: name_lost_def)
  have "rel_option sub_quiet (Some s) (get_subscription db0 i)" using q s(1) unfolding quiet_def quiet_subs_def by metis
  then obtain s0 where "get_subscription db0 i = Some s0" "sub_quiet s s0" by (auto simp: option_rel_Some1)
  then have "name_lost db0 db' i" using s sub_quietD(5) [of s s0] by (auto simp: name_lost_def)
  from tail [OF d0 this] obtain n p t p' where *: "get_payment db0 n = Some p" "is_open (pay_status p)"
    "get_subscription db0 (pay_subscription_id p) = Some t" "upgrade_from_subscription_id t = Some i"
    "get_payment db' n = Some p'" "pay_status p' = PAID" by (auto simp: upgrade_paid_def)
  have "list_all2 unpaid_row (payments db) (payments db0)" using q by (simp add: quiet_def)
  then have "rel_option unpaid_row (get_payment db n) (get_payment db0 n)"
    unfolding get_payment_def by (rule list_all2_get_row) (simp add: unpaid_row_def)
  then obtain r where r: "get_payment db n = Some r" "unpaid_row r p" using *(1) by (auto simp: option_rel_Some2)
  have "rel_option sub_quiet (get_subscription db (pay_subscription_id p)) (Some t)" using q *(3) unfolding quiet_def quiet_subs_def by metis
  then obtain t0 where "get_subscription db (pay_subscription_id p) = Some t0" "sub_quiet t0 t" by (auto simp: option_rel_Some2)
  then show ?thesis using * r sub_quietD(7) [of t0 t] unfolding upgrade_paid_def unpaid_row_def by metis
qed

lemma upgrade_run_quiet: "run_kept w w' \<Longrightarrow> finals_kept w w' \<Longrightarrow> quiet (wdb w) (wdb w') \<Longrightarrow> upgrade_run w w'"
  using quiet_not_lost by (auto simp: upgrade_run_def)

interpretation upgrades: settlement_run cfg gw now upgrade_run for cfg gw now
proof
  show "upgrade_run w w" for w by (rule upgrade_run_quiet) (simp_all add: standing.R_refl finals.R_refl)
  show "upgrade_run u v \<Longrightarrow> upgrade_run v w \<Longrightarrow> upgrade_run u w" for u v w by (rule upgrade_run_trans)
  show "upgrade_run w (w\<lparr>wdb := db'\<rparr>)" if tx: "payment_tx cfg gw now (wdb w) db'" for w db'
  proof -
    have kept: "run_kept w (w\<lparr>wdb := db'\<rparr>)" "finals_kept w (w\<lparr>wdb := db'\<rparr>)" using tx by (rule standing.R_tx finals.R_tx)+
    from tx show ?thesis
    proof (rule payment_tx_quiet)
      assume "quiet (wdb w) db'"
      then show ?thesis using upgrade_run_quiet [OF kept] by simp
    next
      fix n v db0
      assume q: "quiet (wdb w) db0" and run: "finalize_tx cfg (seal_identity gw) now n PENDING v db0 = Inr db'"
      have "upgrade_paid (wdb w) db' i" if d: "distinct (map pay_id (payments (wdb w)))" and l: "name_lost (wdb w) db' i" for i
        by (rule quiet_then_lost [OF q d _ l]) (rule finalize_lost [OF _ run])
      then show ?thesis using kept by (simp add: upgrade_run_def)
    qed
  qed
qed (auto intro!: upgrade_run_quiet intro: standing.R_call finals.R_call standing.R_nwc finals.R_nwc standing.R_nwc_silent finals.R_nwc_silent
    standing.R_clink finals.R_clink standing.R_clink_silent finals.R_clink_silent standing.R_lnurl finals.R_lnurl dest: quiet_sends)

section \<open>The reaper\<close>

definition loop_lost :: "time \<Rightarrow> database \<Rightarrow> database \<Rightarrow> bool" where
  "loop_lost now db db' \<longleftrightarrow> loop_kept now db db' \<and> links_kept db db' \<and>
     (\<forall>i s s'. get_subscription db i = Some s \<and> get_subscription db' i = Some s' \<and> domain s \<noteq> None \<and> domain s' = None \<longrightarrow>
        upgrade_paid db db' i \<or> name_released now (opens db') s s')"

lemma loop_lost_refl [simp]: "loop_lost now db db"
  by (auto simp: loop_lost_def)

lemma loop_lost_trans:
  assumes ab: "loop_lost now a b" and bc: "loop_lost now b c" shows "loop_lost now a c"
proof -
  have kept: "loop_kept now a b" "loop_kept now b c" and links: "links_kept a b" "links_kept b c"
    using assms by (simp_all add: loop_lost_def)
  have "upgrade_paid a c i \<or> name_released now (opens c) s s''"
    if s: "get_subscription a i = Some s" "get_subscription c i = Some s''" "domain s \<noteq> None" "domain s'' = None" for i s s''
  proof -
    obtain s' where s': "get_subscription b i = Some s'" and row: "claim_row now (opens b) (opens a) (sources a) s s'"
      using loop_kept_row [OF kept(1) s(1)] .
    have row': "claim_row now (opens c) (opens b) (sources b) s' s''"
      by (rule loop_kept_row [OF kept(2) s']) (use s(2) in simp)
    have ops: "opens c \<subseteq> opens b" using kept(2) by (simp add: loop_kept_def)
    show ?thesis
    proof (cases "domain s' = None")
      case True
      then have "upgrade_paid a b i \<or> name_released now (opens b) s s'" using ab s s' unfolding loop_lost_def by blast
      moreover have "kept_by (opens b) (sources b) s' s''" using row' True by (auto simp: claim_row_def name_released_def)
      ultimately show ?thesis using upgrade_paid_later [OF _ links(2)] released_then_kept [OF _ _ ops] by blast
    next
      case False
      then have "upgrade_paid b c i \<or> name_released now (opens c) s' s''" using bc s s' unfolding loop_lost_def by blast
      moreover have "kept_by (opens a) (sources a) s s'" using row False by (auto simp: claim_row_def name_released_def)
      ultimately show ?thesis using upgrade_paid_earlier [OF links(1)] kept_then_released by blast
    qed
  qed
  then show ?thesis using loop_kept_trans [OF kept] links_kept_trans [OF links] unfolding loop_lost_def by blast
qed

lemma release_claim_lost:
  assumes d: "tables_distinct db" and run: "release_claim now i db = Some db'" and relay: "all_relay [i] db"
  shows "loop_lost now db db'"
proof -
  have d': "distinct (map sub_id (subscriptions db))" using d by (simp add: tables_distinct_def)
  have kept: "loop_kept now db db'" by (rule release_claim_kept [OF d' run]) (use relay in \<open>simp add: all_relay_def\<close>)
  from run obtain s where s: "get_subscription db i = Some s" and due: "domain s \<noteq> None" "release_due now s"
    and no: "open_payments db i = []" and db': "db' = set_subscription i (release_values now) db"
    by (auto simp: release_claim_exact [OF d'] split: option.splits if_splits)
  have id: "sub_id (release_values now x) = sub_id x" for x by (simp add: release_values_def)
  have get': "get_subscription db' j = (if j = i then Some (release_values now s) else get_subscription db j)" for j
    using s by (simp add: db' get_set_subscription [OF id])
  have pays: "get_payment db' j = get_payment db j" "opens db' = opens db" for j by (simp_all add: db' opens_def)
  have links: "links_kept db db'"
    unfolding links_kept_def pays get' by (simp add: option.rel_refl pay_step_def release_values_def)
  have "name_released now (opens db') s (release_values now s)"
    using due no relay s get_subscription_id [OF s]
    by (simp add: name_released_def release_values_def open_payments_opens prices_def pays all_relay_def)
  then have "name_released now (opens db') t t'"
    if t: "get_subscription db j = Some t" "get_subscription db' j = Some t'" "domain t \<noteq> None" "domain t' = None" for j t t'
    using t s unfolding get' by (auto split: if_splits)
  then show ?thesis using kept links unfolding loop_lost_def by blast
qed

lemma reconcile_lost:
  assumes "tables_distinct (wdb w)"
  shows "loop_lost now (wdb w) (wdb (snd (reconcile_domain_payment cfg gw now p w)))"
proof -
  have d: "distinct (map pay_id (payments (wdb w)))" using assms by (simp add: tables_distinct_def)
  have tx: "payment_tx cfg gw now db (expire_pending_payment now p db)" for db
    by (simp add: expire_pending_payment_def tx_expire upgrades.payment_tx_refl split: option.splits)
  have "upgrades.keeps (reconcile_domain_payment cfg gw now p)" unfolding reconcile_domain_payment_def
    by (intro upgrades.keeps_if upgrades.keeps_return upgrades.keeps_check_and_settle upgrades.keeps_commit [OF tx])
  then have run: "upgrade_run w (snd (reconcile_domain_payment cfg gw now p w))" by (rule upgrades.keepsD)
  then have "run_kept w (snd (reconcile_domain_payment cfg gw now p w))" "finals_kept w (snd (reconcile_domain_payment cfg gw now p w))"
    by (simp_all add: upgrade_run_def)
  then have "links_kept (wdb w) (wdb (snd (reconcile_domain_payment cfg gw now p w)))" by (rule run_links [OF _ _ d])
  then show ?thesis
    using run d db_kept_loop [OF reconcile_kept [OF d]] unfolding loop_lost_def upgrade_run_def name_lost_def by blast
qed

lemma release_candidate_lost:
  assumes d: "tables_distinct (wdb w)" and relay: "all_relay [i] (wdb w)"
  shows "loop_lost now (wdb w) (wdb (snd (release_candidate cfg gw now i w)))"
proof -
  let ?release = "\<lambda>w. case release_claim now i (wdb w) of Some db \<Rightarrow> (True, w\<lparr>wdb := db\<rparr>) | None \<Rightarrow> (False, w)"
  have rel: "loop_lost now (wdb v) (wdb (snd (?release v)))"
    if "tables_distinct (wdb v)" "all_relay [i] (wdb v)" for v
    using release_claim_lost [OF that(1) _ that(2)] by (simp split: option.splits)
  show ?thesis
  proof (cases "open_payments (wdb w) i")
    case Nil
    then show ?thesis using rel [OF assms] by (simp add: release_candidate_def)
  next
    case (Cons p ps)
    obtain x v where v: "reconcile_domain_payment cfg gw now p w = (x, v)" by (rule prod.exhaust)
    have lost: "loop_lost now (wdb w) (wdb v)" using reconcile_lost [OF d, of now cfg gw p] v by simp
    then have kept: "loop_kept now (wdb w) (wdb v)" by (simp add: loop_lost_def)
    have after: "loop_lost now (wdb w) (wdb (snd (?release v)))"
      using loop_lost_trans [OF lost rel] tables_distinct_kept [OF d kept] all_relay_kept [OF relay kept] by blast
    show ?thesis
      using Cons v lost after by (cases x) (auto simp: release_candidate_def Let_def)
  qed
qed

lemma release_loop_lost:
  assumes "tables_distinct (wdb w)" and "all_relay is (wdb w)"
  shows "loop_lost now (wdb w) (wdb (snd (release_loop cfg gw now is n w)))"
  using assms
proof (induction "is" arbitrary: n w)
  case (Cons i "is")
  obtain dn v where v: "release_candidate cfg gw now i w = (dn, v)" by (rule prod.exhaust)
  have lost: "loop_lost now (wdb w) (wdb v)"
    using release_candidate_lost [OF Cons.prems(1), where i = i and now = now and cfg = cfg and gw = gw] Cons.prems(2) v by (simp add: all_relay_def)
  then have kept: "loop_kept now (wdb w) (wdb v)" by (simp add: loop_lost_def)
  have "all_relay is (wdb w)" using Cons.prems(2) by (simp add: all_relay_def)
  from Cons.IH [OF tables_distinct_kept [OF Cons.prems(1) kept] all_relay_kept [OF this kept]]
  show ?case using loop_lost_trans [OF lost] v by simp
qed simp

lemma prepared_upgrade_paid:
  assumes "subscriptions db = map (prepared cfg now) (subscriptions db0)" and "payments db = payments db0" and "upgrade_paid db db' i"
  shows "upgrade_paid db0 db' i"
proof -
  from assms(3) obtain n p t p' where *: "get_payment db n = Some p" "is_open (pay_status p)"
    "get_subscription db (pay_subscription_id p) = Some t" "upgrade_from_subscription_id t = Some i"
    "get_payment db' n = Some p'" "pay_status p' = PAID" by (auto simp: upgrade_paid_def)
  then obtain t0 where "get_subscription db0 (pay_subscription_id p) = Some t0" "t = prepared cfg now t0"
    by (auto simp: prepared_get [OF assms(1)])
  moreover have "get_payment db0 n = Some p" using *(1) by (simp add: get_payment_def assms(2))
  ultimately show ?thesis using * unfolding upgrade_paid_def by auto
qed

section \<open>Properties\<close>

text \<open>A world with one pending claim whose deadline is at 100 seconds.\<close>

definition example_claim :: subscription where
  "example_claim = sample_subscription\<lparr>product := RELAY, domain := Some ''www.shop.example'',
     relay_pool_domain := Some ''relay.example'', domain_claim_expires_at := Some (seconds 100)\<rparr>"

definition claim_world :: world where
  "claim_world = \<lparr> wdb = empty_database\<lparr>users := [sample_user], subscriptions := [example_claim]\<rparr>, calls = [] \<rparr>"

lemma claim_world_simps:
  "tables_distinct (wdb claim_world)" "get_subscription (wdb claim_world) 1 = Some example_claim"
  "product example_claim = RELAY" "domain example_claim = Some ''www.shop.example''"
  "open_payments (wdb claim_world) 1 = []" "upgrade_from_subscription_id example_claim = None"
  "name_due cfg now example_claim \<longleftrightarrow> seconds 100 \<le> now"
  by (simp_all add: claim_world_def example_claim_def sample_subscription_def empty_database_def tables_distinct_def
      get_subscription_def get_row_def open_payments_def name_due_def name_deadline_def)

lemma reap_claim_world:
  "\<exists>n w'. reap_expired_domain_claims example_settings idle_gateway now claim_world = (Inr n, w')"
  by (simp add: reap_expired_domain_claims_def prepare_claims_def elapsed_active_def claim_world_def example_claim_def
      sample_subscription_def empty_database_def expire_elapsed_subscriptions_def Let_def split_beta)


text \<open>
  C10: a hostname is released only when it is due. After the reaper ran, with any provider answers and
  any failures on the way, the row of a Relay subscription still has its name, or it is cancelled without
  a name and then either the deadline of the claim (of its renewal grace, for a lapsed one) has passed
  and no payment of it is open, or an upgrade of it was paid for during the run: an open payment of the
  subscription linked to it as its upgrade became paid. An upgrade that is merely pending releases nothing.
\<close>

theorem names_released_when_due:
  assumes d: "tables_distinct (wdb w)" and run: "reap_expired_domain_claims cfg gw now w = (res, w')"
    and s: "get_subscription (wdb w) i = Some s" "product s = RELAY" "domain s = Some d"
  shows "\<exists>s'. get_subscription (wdb w') i = Some s' \<and>
    (domain s' = Some d \<or>
     domain s' = None \<and> sub_status s' = SubCANCELLED \<and>
     (name_due cfg now s \<and> open_payments (wdb w') i = [] \<or>
      (\<exists>n p t p'. get_payment (wdb w) n = Some p \<and> is_open (pay_status p) \<and>
         get_subscription (wdb w) (pay_subscription_id p) = Some t \<and> upgrade_from_subscription_id t = Some i \<and>
         get_payment (wdb w') n = Some p' \<and> pay_status p' = PAID)))"
  using d run
proof (cases rule: reap_run)
  case (1 e)
  then show ?thesis using s by simp
next
  case (2 n db)
  have p: "get_subscription db i = Some (prepared cfg now s)" using s by (simp add: prepared_get [OF 2(2)])
  obtain s' where s': "get_subscription (wdb w') i = Some s'"
    and row: "claim_row now (opens (wdb w')) (opens db) (sources db) (prepared cfg now s) s'"
    using loop_kept_row [OF 2(7) p] .
  have i: "sub_id s = i" using get_subscription_id [OF s(1)] .
  have due: "release_due now (prepared cfg now s) \<longleftrightarrow> name_due cfg now s" using prepared_due s by simp
  have "loop_lost now db (wdb w')" using release_loop_lost [of "w\<lparr>wdb := db\<rparr>"] 2 by simp
  then have "upgrade_paid db (wdb w') i \<or> name_released now (opens (wdb w')) (prepared cfg now s) s'" if "domain s' = None"
    using that p s' s(3) unfolding loop_lost_def by auto
  then have lost: "upgrade_paid (wdb w) (wdb w') i \<or> name_due cfg now s \<and> open_payments (wdb w') i = []" if "domain s' = None"
    using that prepared_upgrade_paid [OF 2(2,3)] by (auto simp: name_released_def due i open_payments_opens)
  have "domain s' = Some d \<or> domain s' = None \<and> sub_status s' = SubCANCELLED"
    using row s(3) by (auto simp: claim_row_def kept_by_def name_released_def)
  then show ?thesis using lost s' unfolding upgrade_paid_def by blast
qed

theorem names_released_when_due_witness:
  "(\<exists>res w' s'. reap_expired_domain_claims example_settings idle_gateway (seconds 50) claim_world = (res, w') \<and>
    get_subscription (wdb w') 1 = Some s' \<and> domain s' = Some ''www.shop.example'') \<and>
   (\<exists>res w' s'. reap_expired_domain_claims example_settings idle_gateway (seconds 150) claim_world = (res, w') \<and>
    get_subscription (wdb w') 1 = Some s' \<and> domain s' = None \<and> sub_status s' = SubCANCELLED)"
proof
  have none: "get_payment (wdb claim_world) n = None" for n
    by (simp add: claim_world_def get_payment_def get_row_def empty_database_def)
  note kept = names_released_when_due [OF claim_world_simps(1) _ claim_world_simps(2,3,4)]
  obtain res w' where run: "reap_expired_domain_claims example_settings idle_gateway (seconds 50) claim_world = (res, w')"
    by (rule prod.exhaust)
  show "\<exists>res w' s'. reap_expired_domain_claims example_settings idle_gateway (seconds 50) claim_world = (res, w') \<and>
    get_subscription (wdb w') 1 = Some s' \<and> domain s' = Some ''www.shop.example''"
    using kept [OF run] none run by (auto simp: claim_world_simps)
  obtain res w' where run: "reap_expired_domain_claims example_settings idle_gateway (seconds 150) claim_world = (res, w')"
    by (rule prod.exhaust)
  have "map_option domain (get_subscription (wdb (snd (reap_expired_domain_claims example_settings idle_gateway (seconds 150) claim_world))) 1) = Some None"
    by code_simp
  then show "\<exists>res w' s'. reap_expired_domain_claims example_settings idle_gateway (seconds 150) claim_world = (res, w') \<and>
    get_subscription (wdb w') 1 = Some s' \<and> domain s' = None \<and> sub_status s' = SubCANCELLED"
    using kept [OF run] run by auto
qed

text \<open>
  C22: a due hostname does not stay blocked. When the reaper returns, every Relay claim that was due and
  had no open payment has given up its name.
\<close>

theorem due_names_released:
  assumes d: "tables_distinct (wdb w)" and run: "reap_expired_domain_claims cfg gw now w = (Inr n, w')"
    and s: "get_subscription (wdb w) i = Some s" "product s = RELAY" "domain s \<noteq> None"
    and due: "name_due cfg now s" and no: "open_payments (wdb w) i = []"
  shows "\<exists>s'. get_subscription (wdb w') i = Some s' \<and> domain s' = None"
  using d run
proof (cases rule: reap_run)
  case (2 m db)
  have p: "get_subscription db i = Some (prepared cfg now s)" using s by (simp add: prepared_get [OF 2(2)])
  have dd: "release_due now (prepared cfg now s)" using prepared_due [OF s(2,3)] due by simp
  have "gone_or_due now db i" using p s dd by (auto simp: gone_or_due_def)
  moreover have "i \<notin> opens db" using no by (simp add: open_payments_opens opens_def 2(3))
  moreover have "i \<in> set (release_candidates now db)"
    using get_row_Some [OF p [unfolded get_subscription_def]] s dd unfolding release_candidates_def
    by (intro image_eqI [of _ _ "prepared cfg now s"] | simp)+
  ultimately have "name_gone (wdb w') i"
    using release_loop_gone [of "w\<lparr>wdb := db\<rparr>"] 2 by simp
  then show ?thesis by (auto simp: name_gone_def)
qed simp

theorem due_names_released_witness:
  "\<exists>n w' s'. reap_expired_domain_claims example_settings idle_gateway (seconds 200) claim_world = (Inr n, w') \<and>
    get_subscription (wdb w') 1 = Some s' \<and> domain s' = None"
proof -
  obtain n w' where run: "reap_expired_domain_claims example_settings idle_gateway (seconds 200) claim_world = (Inr n, w')"
    using reap_claim_world by blast
  show ?thesis
    using due_names_released [OF claim_world_simps(1) run claim_world_simps(2,3)] run by (auto simp: claim_world_simps)
qed

end
