(* ===== verification/Hostname_Exclusion.thy ===== *)
theory Hostname_Exclusion
  imports Hostname_Claims
begin

text \<open>
  No operation lets two accounts route the same hostname. \<open>names_shrink\<close> is what every operation other than
  a new order keeps; the locale \<open>order_run\<close> carries a relation kept by settlements and by transactions on
  subscription rows through the maintenance operations of \<^verbatim>\<open>services/subscriptions.py\<close>.
\<close>

section \<open>Exclusive names\<close>

definition overlap :: "subscription \<Rightarrow> subscription \<Rightarrow> bool" where
  "overlap s t \<longleftrightarrow> (\<exists>h. claim_covers s h \<and> claim_covers t h)"

text \<open>Two rows route a common hostname only as an upgrade and its source, within one account.\<close>

definition linked :: "subscription \<Rightarrow> subscription \<Rightarrow> bool" where
  "linked s t \<longleftrightarrow> sub_user_id s = sub_user_id t \<and>
     (upgrade_from_subscription_id s = Some (sub_id t) \<or> upgrade_from_subscription_id t = Some (sub_id s))"

definition names_exclusive :: "database \<Rightarrow> bool" where
  "names_exclusive db \<longleftrightarrow> (\<forall>i j s t. get_subscription db i = Some s \<longrightarrow> get_subscription db j = Some t \<longrightarrow>
     i \<noteq> j \<longrightarrow> overlap s t \<longrightarrow> linked s t)"

definition name_shrunk :: "subscription \<Rightarrow> subscription \<Rightarrow> bool" where
  "name_shrunk s s' \<longleftrightarrow> sub_id s' = sub_id s \<and> sub_user_id s' = sub_user_id s \<and> product s' = product s \<and>
     prices s' = prices s \<and>
     (domain s' = None \<or> domain s' = domain s \<and>
        relay_hostname_scope s' = relay_hostname_scope s \<and>
        upgrade_from_subscription_id s' = upgrade_from_subscription_id s)"

definition names_shrink :: "database \<Rightarrow> database \<Rightarrow> bool" where
  "names_shrink db db' \<longleftrightarrow> map sub_id (subscriptions db') = map sub_id (subscriptions db) \<and>
     map pay_id (payments db') = map pay_id (payments db) \<and>
     (\<forall>i. rel_option name_shrunk (get_subscription db i) (get_subscription db' i))"

lemma name_shrunk_refl [simp]: "name_shrunk s s"
  by (simp add: name_shrunk_def)

lemma name_shrunk_trans: "name_shrunk a b \<Longrightarrow> name_shrunk b c \<Longrightarrow> name_shrunk a c"
  by (auto simp: name_shrunk_def)

lemma names_shrink_refl [simp]: "names_shrink db db"
  by (simp add: names_shrink_def option.rel_refl)

lemma names_shrink_trans:
  assumes "names_shrink a b" and "names_shrink b c" shows "names_shrink a c"
proof -
  have "rel_option name_shrunk (get_subscription a i) (get_subscription c i)" for i
  proof (rule rel_option_trans)
    show "rel_option name_shrunk (get_subscription a i) (get_subscription b i)"
      "rel_option name_shrunk (get_subscription b i) (get_subscription c i)"
      using assms by (simp_all add: names_shrink_def)
  qed (rule name_shrunk_trans)
  then show ?thesis using assms by (simp add: names_shrink_def)
qed

lemma name_shrunk_overlap:
  assumes "name_shrunk s s'" and "name_shrunk t t'" and "overlap s' t'"
  shows "overlap s t" and "linked s t \<Longrightarrow> linked s' t'"
proof -
  have "live_claim s'" "live_claim t'" using assms(3) by (auto simp: overlap_def claim_covers_def)
  then have same: "domain s' = domain s" "product s' = product s" "relay_hostname_scope s' = relay_hostname_scope s"
    "upgrade_from_subscription_id s' = upgrade_from_subscription_id s"
    "domain t' = domain t" "product t' = product t" "relay_hostname_scope t' = relay_hostname_scope t"
    "upgrade_from_subscription_id t' = upgrade_from_subscription_id t"
    using assms(1,2) by (auto simp: name_shrunk_def live_claim_def)
  then have "claim_covers s' = claim_covers s" "claim_covers t' = claim_covers t"
    by (auto simp: claim_covers_def live_claim_def fun_eq_iff)
  then show "overlap s t" using assms(3) by (simp add: overlap_def)
  show "linked s t \<Longrightarrow> linked s' t'" using same assms(1,2) by (simp add: linked_def name_shrunk_def)
qed

lemma names_shrink_back:
  "names_shrink db db' \<Longrightarrow> get_subscription db' i = Some s' \<Longrightarrow> \<exists>s. get_subscription db i = Some s \<and> name_shrunk s s'"
  unfolding names_shrink_def by (metis option_rel_Some2)

lemma names_exclusive_shrink:
  assumes ex: "names_exclusive db" and sh: "names_shrink db db'" shows "names_exclusive db'"
  unfolding names_exclusive_def
proof (intro allI impI)
  fix i j s' t'
  assume g: "get_subscription db' i = Some s'" "get_subscription db' j = Some t'" and ij: "i \<noteq> j" and o: "overlap s' t'"
  from names_shrink_back [OF sh g(1)] names_shrink_back [OF sh g(2)] obtain s t
    where st: "get_subscription db i = Some s" "name_shrunk s s'" "get_subscription db j = Some t" "name_shrunk t t'" by blast
  then have "linked s t" using ex ij name_shrunk_overlap(1) [OF st(2,4) o] unfolding names_exclusive_def by blast
  then show "linked s' t'" by (rule name_shrunk_overlap(2) [OF st(2,4) o])
qed

lemma tables_distinct_shrink: "tables_distinct db \<Longrightarrow> names_shrink db db' \<Longrightarrow> tables_distinct db'"
  by (simp add: tables_distinct_def names_shrink_def)

text \<open>The operations that only remove names.\<close>

lemma kept_by_shrunk: "kept_by ops srcs s s' \<Longrightarrow> name_shrunk s s'"
  by (auto simp: kept_by_def name_shrunk_def)

lemma claim_row_shrunk: "claim_row now ops' ops srcs s s' \<Longrightarrow> name_shrunk s s'"
  unfolding claim_row_def
proof (elim disjE)
  assume "name_released now ops' s s'"
  then show "name_shrunk s s'" by (simp add: name_released_def name_shrunk_def)
qed (rule kept_by_shrunk)

lemma loop_kept_shrink:
  assumes "loop_kept now db db'" shows "names_shrink db db'"
proof -
  have "rel_option name_shrunk (get_subscription db i) (get_subscription db' i)" for i
  proof (rule option.rel_mono_strong)
    show "rel_option (claim_row now (opens db') (opens db) (sources db)) (get_subscription db i) (get_subscription db' i)"
      using assms by (simp add: loop_kept_def)
  qed (rule claim_row_shrunk)
  then show ?thesis using assms by (simp add: names_shrink_def loop_kept_def)
qed

lemmas db_kept_shrink = loop_kept_shrink [OF db_kept_loop]

lemma map_shrink:
  assumes "subscriptions db' = map f (subscriptions db)" and "payments db' = payments db" and "\<And>s. name_shrunk s (f s)"
  shows "names_shrink db db'"
proof -
  have id: "sub_id (f s) = sub_id s" for s using assms(3) by (simp add: name_shrunk_def)
  have "get_row sub_id i (map f ss) = map_option f (get_row sub_id i ss)" for i ss
    by (induction ss) (simp_all add: get_row_def id)
  then have "get_subscription db' i = map_option f (get_subscription db i)" for i
    by (simp add: get_subscription_def assms(1))
  then show ?thesis
    using assms(3) by (simp add: names_shrink_def assms(1,2) id comp_def option.rel_map option.rel_refl)
qed

lemma update_shrink:
  assumes "subscriptions db' = update_where p f (subscriptions db)" and "payments db' = payments db"
    and "\<And>s. name_shrunk s (f s)"
  shows "names_shrink db db'"
  by (rule map_shrink [where f = "\<lambda>s. if p s then f s else s"]) (simp_all add: assms update_where_def)

lemma set_shrink: "(\<And>s. name_shrunk s (f s)) \<Longrightarrow> names_shrink db (set_subscription i f db)"
  by (rule update_shrink [where p = "\<lambda>s. sub_id s = i" and f = f]) (simp_all add: set_subscription_def)

lemma frame_shrink:
  "subscriptions db' = subscriptions db \<Longrightarrow> payments db' = payments db \<Longrightarrow> names_shrink db db'"
  by (rule map_shrink [where f = id]) simp_all

text \<open>A transaction that changes subscription rows only, and at most removes names.\<close>

definition rows_only :: "database \<Rightarrow> database \<Rightarrow> bool" where
  "rows_only db db' \<longleftrightarrow> names_shrink db db' \<and> payments db' = payments db \<and> agent_orders db' = agent_orders db"

lemma rows_only_refl [simp]: "rows_only db db"
  by (simp add: rows_only_def)

lemma rows_only_trans: "rows_only a b \<Longrightarrow> rows_only b c \<Longrightarrow> rows_only a c"
  using names_shrink_trans by (auto simp: rows_only_def)

lemma rows_only_update:
  "subscriptions db' = update_where p f (subscriptions db) \<Longrightarrow> payments db' = payments db \<Longrightarrow>
    agent_orders db' = agent_orders db \<Longrightarrow> (\<And>s. name_shrunk s (f s)) \<Longrightarrow> rows_only db db'"
  by (simp add: rows_only_def update_shrink)

lemma rows_only_set: "(\<And>s. name_shrunk s (f s)) \<Longrightarrow> rows_only db (set_subscription i f db)"
  by (simp add: rows_only_def set_shrink)

lemma rows_only_frame:
  "subscriptions db' = subscriptions db \<Longrightarrow> payments db' = payments db \<Longrightarrow> agent_orders db' = agent_orders db \<Longrightarrow>
    rows_only db db'"
  by (simp add: rows_only_def frame_shrink)

lemma shrunk_values [simp]:
  "name_shrunk s (cancelled_values now s)" "name_shrunk s (hold_released now s)" "name_shrunk s (orphan_cleared now s)"
  "name_shrunk s (reservation_cleared now s)" "name_shrunk s (release_values now s)"
  "name_shrunk s (expiry_values cfg now sub s)" "name_shrunk s (resource_reserved cfg now pid ip port s)"
  by (simp_all add: name_shrunk_def prices_def cancelled_values_def release_values_def hold_released_def orphan_cleared_def
      reservation_cleared_def expiry_values_def resource_reserved_def Let_def split: option.splits)

text \<open>
  A row whose assignment is kept or given up as a whole, and the transactions that treat every row so: all but
  a new reservation.
\<close>

definition hold_kept :: "subscription \<Rightarrow> subscription \<Rightarrow> bool" where
  "hold_kept s s' \<longleftrightarrow> transport s' = transport s \<and> delivery s' = delivery s \<and>
     (assigned_ip s' = assigned_ip s \<and> assigned_port s' = assigned_port s \<or> assigned_ip s' = None \<and> assigned_port s' = None) \<and>
     (upgrade_from_subscription_id s' = upgrade_from_subscription_id s \<or> upgrade_from_subscription_id s' = None)"

definition row_shrunk :: "subscription \<Rightarrow> subscription \<Rightarrow> bool" where
  "row_shrunk s s' \<longleftrightarrow> name_shrunk s s' \<and> hold_kept s s'"

lemmas row_shrunk_defs = row_shrunk_def name_shrunk_def hold_kept_def prices_def

definition row_tx :: "database \<Rightarrow> database \<Rightarrow> bool" where
  "row_tx db db' \<longleftrightarrow> rows_only db db' \<and> (\<forall>i. rel_option hold_kept (get_subscription db i) (get_subscription db' i))"

lemma hold_kept_refl [simp]: "hold_kept s s"
  by (simp add: hold_kept_def)

lemma hold_kept_trans: "hold_kept a b \<Longrightarrow> hold_kept b c \<Longrightarrow> hold_kept a c"
  by (auto simp: hold_kept_def)

lemma row_shrunk_values [simp]:
  "row_shrunk s s" "row_shrunk s (cancelled_values now s)" "row_shrunk s (hold_released now s)" "row_shrunk s (orphan_cleared now s)"
  "row_shrunk s (reservation_cleared now s)" "row_shrunk s (release_values now s)" "row_shrunk s (expiry_values cfg now sub s)"
  by (simp_all add: row_shrunk_def) (simp_all add: hold_kept_def cancelled_values_def release_values_def hold_released_def
      orphan_cleared_def reservation_cleared_def expiry_values_def Let_def split: option.splits)

lemma row_tx_refl [simp]: "row_tx db db"
  by (simp add: row_tx_def option.rel_refl)

lemma row_tx_trans:
  assumes "row_tx a b" and "row_tx b c" shows "row_tx a c"
proof -
  have "rel_option hold_kept (get_subscription a i) (get_subscription c i)" for i
  proof (rule rel_option_trans)
    show "rel_option hold_kept (get_subscription a i) (get_subscription b i)"
      "rel_option hold_kept (get_subscription b i) (get_subscription c i)"
      using assms by (simp_all add: row_tx_def)
  qed (rule hold_kept_trans)
  then show ?thesis using assms rows_only_trans by (auto simp: row_tx_def)
qed

lemma row_tx_update:
  assumes "subscriptions db' = update_where p f (subscriptions db)" and "payments db' = payments db"
    and "agent_orders db' = agent_orders db" and "\<And>s. row_shrunk s (f s)"
  shows "row_tx db db'"
proof -
  have shrunk: "name_shrunk s (f s)" "hold_kept s (f s)" "sub_id (f s) = sub_id s" for s
    using assms(4) [of s] by (simp_all add: row_shrunk_def name_shrunk_def)
  have "get_subscription db' i = map_option (\<lambda>r. if p r then f r else r) (get_subscription db i)" for i
    unfolding get_subscription_def assms(1) by (rule get_row_update_where) (simp add: shrunk(3))
  then have "rel_option hold_kept (get_subscription db i) (get_subscription db' i)" for i
    by (cases "get_subscription db i") (simp_all add: shrunk)
  then show ?thesis using rows_only_update [OF assms(1-3) shrunk(1)] by (simp add: row_tx_def)
qed

lemma row_tx_set: "(\<And>s. row_shrunk s (f s)) \<Longrightarrow> row_tx db (set_subscription i f db)"
  by (rule row_tx_update [where p = "\<lambda>s. sub_id s = i" and f = f]) (simp_all add: set_subscription_def)

lemma row_tx_frame:
  "subscriptions db' = subscriptions db \<Longrightarrow> payments db' = payments db \<Longrightarrow> agent_orders db' = agent_orders db \<Longrightarrow>
    row_tx db db'"
  by (simp add: row_tx_def rows_only_frame get_subscription_def option.rel_refl)

lemma row_tx_rows: "row_tx db db' \<Longrightarrow> rows_only db db'"
  by (simp add: row_tx_def)

lemma expire_one_rows:
  assumes "expire_one cfg seal now sub (held, ch, db) = Inr (held', ch', db')" shows "row_tx db db'"
proof (cases "has_elapsed now sub")
  case True
  let ?p = "\<lambda>r. sub_id r = sub_id sub \<and> same_active_period sub r"
  have "subscriptions db' = update_where ?p (expiry_values cfg now sub) (subscriptions db) \<and> payments db' = payments db \<and>
      agent_orders db' = agent_orders db"
    using assms True by (auto simp: expire_one_def Let_def split: if_splits sum.splits dest: notify_expired_frame)
  then show ?thesis using row_tx_update [of db' ?p "expiry_values cfg now sub"] by simp
qed (use assms in \<open>simp add: expire_one_def\<close>)

lemma expire_loop_rows:
  "expire_loop cfg seal now rows (held, ch, db) = Inr (held', ch', db') \<Longrightarrow> row_tx db db'"
proof (induction rows arbitrary: held ch db)
  case (Cons sub rows)
  then obtain h1 c1 db1 where "expire_one cfg seal now sub (held, ch, db) = Inr (h1, c1, db1)"
    and "expire_loop cfg seal now rows (h1, c1, db1) = Inr (held', ch', db')"
    by (auto split: sum.splits)
  then show ?case using expire_one_rows Cons.IH row_tx_trans by blast
qed simp

lemma expire_elapsed_rows:
  "expire_elapsed_subscriptions cfg seal now rows db = Inr (rs, db') \<Longrightarrow> row_tx db db'"
  by (auto simp: expire_elapsed_subscriptions_def split: sum.splits intro: expire_loop_rows)

lemma fold_row_tx: "(\<And>x db. row_tx db (f x db)) \<Longrightarrow> row_tx db (fold f xs db)"
  by (induction xs arbitrary: db) (auto intro: row_tx_trans)

lemma prepare_claims_rows:
  assumes "prepare_claims cfg seal now db = Inr db'" shows "row_tx db db'"
proof -
  have claim: "row_tx d (init_claim_deadline cfg now s d)" for s d
    unfolding init_claim_deadline_def
    by (rule row_tx_update, simp, simp, simp) (simp add: row_shrunk_defs)
  have grace: "row_tx d (init_grace_deadline cfg now s d)" for s d
    unfolding init_grace_deadline_def
    by (rule row_tx_update, simp, simp, simp) (simp add: row_shrunk_defs)
  from assms obtain rs db1 where e: "expire_elapsed_subscriptions cfg seal now (elapsed_active now db) db = Inr (rs, db1)"
    and db': "db' = fold (init_grace_deadline cfg now)
        (filter (\<lambda>s. product s = RELAY \<and> grace_without_deadline s)
          (subscriptions (fold (init_claim_deadline cfg now)
             (filter (\<lambda>s. product s = RELAY \<and> claim_without_deadline s) (subscriptions db1)) db1)))
        (fold (init_claim_deadline cfg now)
             (filter (\<lambda>s. product s = RELAY \<and> claim_without_deadline s) (subscriptions db1)) db1)"
    by (auto simp: prepare_claims_def Let_def split: sum.splits)
  show ?thesis unfolding db'
    by (rule row_tx_trans [OF expire_elapsed_rows [OF e] row_tx_trans]) (rule fold_row_tx, rule claim grace)+
qed

lemma release_claim_rows: "release_claim now i db = Some db' \<Longrightarrow> row_tx db db'"
  by (auto simp: release_claim_def Let_def split: option.splits if_splits intro!: row_tx_update)

lemma record_verification_rows: "record_verification now force sub db = Inr db' \<Longrightarrow> row_tx db db'"
  by (auto simp: record_verification_def Let_def row_shrunk_defs split: if_splits
      intro!: row_tx_set row_tx_update)

lemma cancel_tx_rows:
  assumes "cancel_tx now i db = Inr (s, db')" shows "row_tx db db'"
proof -
  from assms obtain current p where "db' = snd (release now current ''pending subscription cancelled''
      (db\<lparr>subscriptions := update_where p (cancelled_values now) (subscriptions db)\<rparr>))"
    by (auto simp: cancel_tx_def Let_def split: option.splits if_splits)
  then show ?thesis by (intro row_tx_update [where p = p and f = "cancelled_values now"]) simp_all
qed

lemma extend_hold_rows: "row_tx db (extend_hold now sub renewal_end db)"
proof -
  have "row_shrunk s (s\<lparr>resource_quarantined_until := q, sub_updated_at := t\<rparr>)" for s q t
    by (simp add: row_shrunk_defs)
  then have upd: "row_tx db (db\<lparr>subscriptions := update_where p
      (\<lambda>r. r\<lparr>resource_quarantined_until := Some renewal_end, sub_updated_at := now\<rparr>) (subscriptions db)\<rparr>)" for p
    by (intro row_tx_update [where p = p]) simp_all
  show ?thesis
    using row_tx_trans [OF upd row_tx_frame] upd
    by (simp add: extend_hold_def Let_def split: option.splits)
qed

lemma release_hold_rows: "row_tx db (release_hold now sub db)"
  unfolding release_hold_def Let_def
  by (simp add: row_tx_update [where f = "hold_released now"])

lemma settle_hold_rows: "row_tx db (settle_hold now i deadline db)"
  by (simp add: settle_hold_def extend_hold_rows release_hold_rows Let_def split: option.splits)

lemma release_reservation_rows: "row_tx db (snd (release_reservation now sub i db))"
proof -
  have "row_tx db (set_subscription (sub_id sub) (reservation_cleared now)
      (snd (release now sub ''payment reservation released'' db)))"
    by (rule row_tx_trans [OF row_tx_frame row_tx_set]) simp_all
  then show ?thesis by (simp add: release_reservation_def)
qed

lemma orphan_rows:
  "row_tx db (set_subscription i (orphan_cleared now) (snd (release now sub why db)))"
  by (rule row_tx_trans [OF row_tx_frame row_tx_set]) simp_all

text \<open>
  A relation on worlds kept by every settlement and by every transaction on subscription rows is kept by
  every maintenance operation.
\<close>

locale order_run = settlement_run cfg gw now R for cfg gw now R +
  assumes R_rows: "row_tx (wdb w) db' \<Longrightarrow> R w (w\<lparr>wdb := db'\<rparr>)"
begin

lemma R_poll: "check_and_settle_payment cfg gw now p w = (x, w1) \<Longrightarrow> R w w1"
  using keepsD [OF keeps_check_and_settle, of w p] by simp

lemma keeps_reconcile_domain: "keeps (reconcile_domain_payment cfg gw now p)"
proof -
  have "payment_tx cfg gw now db (expire_pending_payment now p db)" for db
    by (simp add: expire_pending_payment_def tx_expire payment_tx_refl split: option.splits)
  then show ?thesis unfolding reconcile_domain_payment_def
    by (intro keeps_if keeps_return keeps_check_and_settle keeps_commit)
qed

lemma keeps_release_candidate: "keeps (release_candidate cfg gw now i)"
proof (rule keepsI)
  fix w
  let ?release = "\<lambda>w. case release_claim now i (wdb w) of Some db \<Rightarrow> (True, w\<lparr>wdb := db\<rparr>) | None \<Rightarrow> (False, w)"
  have rel: "R v (snd (?release v))" for v
    by (auto simp: R_refl split: option.splits intro: R_rows release_claim_rows)
  have poll: "R w v" if "reconcile_domain_payment cfg gw now p w = (x, v)" for p x v
    using keepsD [OF keeps_reconcile_domain, of w p] that by simp
  have "R w (snd (?release v))" if "reconcile_domain_payment cfg gw now p w = (x, v)" for p x v
    using R_trans [OF poll [OF that] rel] .
  then show "R w (snd (release_candidate cfg gw now i w))"
    using rel poll by (simp add: release_candidate_def Let_def R_refl split: list.splits prod.splits sum.splits)
qed

lemma R_release_loop: "R w (snd (release_loop cfg gw now is n w))"
proof (induction "is" arbitrary: n w)
  case (Cons i "is")
  obtain d v where "release_candidate cfg gw now i w = (d, v)" by (rule prod.exhaust)
  then show ?case using R_trans [OF keepsD [OF keeps_release_candidate, of w i] Cons.IH] by simp
qed (simp add: R_refl)

lemma keeps_reap: "keeps (reap_expired_domain_claims cfg gw now)"
proof (rule keepsI)
  fix w
  show "R w (snd (reap_expired_domain_claims cfg gw now w))"
  proof (cases "prepare_claims cfg (seal_identity gw) now (wdb w)")
    case (Inr db)
    have "R w (snd (release_loop cfg gw now (release_candidates now db) 0 (w\<lparr>wdb := db\<rparr>)))"
      by (rule R_trans [OF R_rows [OF prepare_claims_rows [OF Inr]] R_release_loop])
    then show ?thesis using Inr by (auto simp: reap_expired_domain_claims_def split: prod.splits)
  qed (simp add: reap_expired_domain_claims_def R_refl)
qed

lemma keeps_verify: "keeps (verify_subscription_domain cfg gw now dns id sub force)"
proof -
  have "record_verification now force t (wdb w) = Inr db \<Longrightarrow> R w (w\<lparr>wdb := db\<rparr>)" for t w db
    by (rule R_rows, rule record_verification_rows)
  then show ?thesis unfolding verify_subscription_domain_def
    by (intro keeps_andthen keeps_reap keepsI)
      (simp add: Let_def raise_def return_def R_refl split: sum.splits)
qed

lemma keeps_reconcile_open: "keeps (reconcile_open_payments cfg gw now ps)"
  by (induction ps) (auto intro!: keeps_andthen keeps_if keeps_raise keeps_return keeps_check_and_settle)

lemma keeps_cancel: "keeps (cancel_pending_subscription cfg gw now sub)"
proof -
  have tail: "keeps (\<lambda>w1. if get_user (wdb w1) u = None then raise (RuntimeError ''NoResultFound'') w1
      else case cancel_tx now i (wdb w1) of Inl e \<Rightarrow> raise e w1 | Inr (c, db) \<Rightarrow> return c (w1\<lparr>wdb := db\<rparr>))" for u i
    by (rule keepsI) (auto simp: raise_def return_def R_refl split: sum.splits intro: R_rows cancel_tx_rows)
  have "keeps (andthen (reconcile_open_payments cfg gw now ps)
      (\<lambda>_ w1. if get_user (wdb w1) u = None then raise (RuntimeError ''NoResultFound'') w1
        else case cancel_tx now i (wdb w1) of Inl e \<Rightarrow> raise e w1 | Inr (c, db) \<Rightarrow> return c (w1\<lparr>wdb := db\<rparr>)))" for ps u i
    by (intro keeps_andthen keeps_reconcile_open tail)
  then show ?thesis
    by (intro keepsI) (auto simp: cancel_pending_subscription_def raise_def R_refl
        split: option.splits dest: keepsD)
qed

lemma R_reap_quarantine: "R w (reap_quarantine cfg gw now i w)"
proof -
  have settle: "R v (v\<lparr>wdb := settle_hold now i deadline (wdb v)\<rparr>)" for v deadline
    by (rule R_rows) (rule settle_hold_rows)
  have "R w (w1\<lparr>wdb := settle_hold now i deadline (wdb w1)\<rparr>)"
    if "check_and_settle_payment cfg gw now p w = (x, w1)" for p x w1 deadline
    using R_trans [OF R_poll [OF that] settle] .
  then show ?thesis
    by (simp add: reap_quarantine_def Let_def R_refl settle R_poll
        split: option.splits subscription_status.splits list.splits prod.splits sum.splits)
qed

lemma keeps_reservation: "keeps (reap_reservation cfg gw now i)"
  by (rule keepsI) (simp add: reap_reservation_def return_def raise_def R_refl R_poll R_rows orphan_rows
      release_reservation_rows split: option.splits prod.splits sum.splits error.splits)

lemma keeps_holds: "keeps (reap_elapsed_resource_holds cfg gw now)"
proof (rule keepsI)
  fix w
  have loop: "keeps (reap_reservations cfg gw now is)" for "is"
    by (induction "is") (auto intro!: keeps_andthen keeps_return keeps_reservation)
  have "R v (fold (reap_quarantine cfg gw now) is v)" for "is" v
    by (induction "is" arbitrary: v) (auto intro: R_refl R_trans [OF R_reap_quarantine])
  from R_trans [OF this keepsD [OF loop]]
  show "R w (snd (reap_elapsed_resource_holds cfg gw now w))"
    unfolding reap_elapsed_resource_holds_def Let_def .
qed

end

definition names_run :: "world \<Rightarrow> world \<Rightarrow> bool" where
  "names_run w w' \<longleftrightarrow> (tables_distinct (wdb w) \<longrightarrow> names_shrink (wdb w) (wdb w'))"

lemma run_kept_names: "run_kept w w' \<Longrightarrow> names_run w w'"
  by (auto simp: run_kept_def names_run_def tables_distinct_def intro: db_kept_shrink)

interpretation names: order_run cfg gw now names_run for cfg gw now
proof
  show "names_run w w" for w by (simp add: names_run_def)
  show "names_run u v \<Longrightarrow> names_run v w \<Longrightarrow> names_run u w" for u v w
    unfolding names_run_def using tables_distinct_shrink names_shrink_trans by blast
  show "row_tx (wdb w) db' \<Longrightarrow> names_run w (w\<lparr>wdb := db'\<rparr>)" for w db'
    by (simp add: names_run_def rows_only_def row_tx_def)
qed (auto intro!: run_kept_names intro: standing.R_tx standing.R_call standing.R_nwc standing.R_nwc_silent
    standing.R_clink standing.R_clink_silent standing.R_lnurl)


text \<open>A new order takes a name that no other row routes, except the source of an upgrade.\<close>

lemma no_conflict_disjoint:
  assumes no: "\<not> relay_domain_conflict db d scope ex" and free: "\<forall>s \<in> set (subscriptions db). domain s \<noteq> Some d"
    and s: "s \<in> set (subscriptions db)" "Some (sub_id s) \<noteq> ex"
  shows "\<not> (\<exists>h. covers scope d h \<and> claim_covers s h)"
proof
  assume "\<exists>h. covers scope d h \<and> claim_covers s h"
  then have live: "live_claim s" and ov: "\<exists>h. covers scope d h \<and> covers (relay_hostname_scope s) (the (domain s)) h"
    by (auto simp: claim_covers_def)
  have "d \<noteq> the (domain s)" using free s(1) live by (cases "domain s") (auto simp: live_claim_def)
  then show False
    using no live s ov unfolding relay_domain_conflict_claims overlap_iff by (cases scope) auto
qed

lemma require_name_free_disjoint:
  assumes "require_name_free c ex db = None" and "ord_domain c = Some d"
    and "s \<in> set (subscriptions db)" "Some (sub_id s) \<noteq> ex"
  shows "\<not> (\<exists>h. covers (ord_scope c) d h \<and> claim_covers s h)"
  using assms by (intro no_conflict_disjoint [of db _ _ ex]) (auto simp: require_name_free_def list_ex_iff split: if_splits)

lemma place_order_result:
  assumes "place_order cfg env now id uid req c db = (Inr sub, db')"
  obtains challenge where "sub = new_subscription cfg env now uid req c challenge (next_id db)"
    and "db' = db\<lparr>subscriptions := subscriptions db @ [sub], next_id := next_id db + 1\<rparr>"
    and "subscription_indexes (subscriptions db @ [sub])"
    and "req_product req = RELAY \<longrightarrow> require_name_free c (req_exclude req) db = None"
    and "require_account_limits cfg uid (req_product req) (req_additional req) db = None"
    and "require_product_available cfg db (req_product req) (req_delivery req) (req_transport req)
           (ord_managed c) (ord_scope c) = None"
  using assms
  by (auto simp: place_order_def order_row_def insert_order_def Let_def map_sum_Inr
      split: sum.splits if_splits option.splits)

lemma check_order_domain:
  assumes "check_order cfg env req = Inr c"
  shows "ord_domain c = None \<longleftrightarrow> req_product req \<noteq> RELAY"
  using assms by (auto simp: check_order_def split: sum.splits option.splits if_splits prod.splits)

lemma overlap_sym: "overlap s t \<Longrightarrow> overlap t s"
  by (auto simp: overlap_def)

lemma names_exclusive_add:
  assumes ex: "names_exclusive db" and subs: "subscriptions db' = subscriptions db @ [sub]"
    and d: "distinct (map sub_id (subscriptions db'))"
    and new: "\<And>s. s \<in> set (subscriptions db) \<Longrightarrow> overlap sub s \<Longrightarrow> linked sub s"
  shows "names_exclusive db'"
proof -
  have fresh: "sub_id sub \<notin> sub_id ` set (subscriptions db)" using d subs by simp
  have get': "get_subscription db' i = (if i = sub_id sub then Some sub else get_subscription db i)" for i
  proof -
    have "get_row sub_id i (ss @ [sub]) = (if i = sub_id sub then Some sub else get_row sub_id i ss)"
      if "sub_id sub \<notin> sub_id ` set ss" for ss
      using that by (induction ss) (auto simp: get_row_def)
    then show ?thesis using fresh by (simp add: get_subscription_def subs)
  qed
  show ?thesis unfolding names_exclusive_def
  proof (intro allI impI)
    fix i j s t
    assume g: "get_subscription db' i = Some s" "get_subscription db' j = Some t" and ij: "i \<noteq> j" and o: "overlap s t"
    have mem: "u \<in> set (subscriptions db)" if "get_subscription db k = Some u" for k u
      using that by (auto simp: get_subscription_def dest: get_row_Some)
    consider "i = sub_id sub" | "j = sub_id sub" | "i \<noteq> sub_id sub" "j \<noteq> sub_id sub" by blast
    then show "linked s t"
    proof cases
      case 1
      then show ?thesis using g ij o new mem by (auto simp: get')
    next
      case 2
      then have "linked t s" using g ij overlap_sym [OF o] new mem by (auto simp: get')
      then show ?thesis by (auto simp: linked_def)
    next
      case 3
      then show ?thesis using g ij o ex by (auto simp: get' names_exclusive_def)
    qed
  qed
qed

lemma place_order_disjoint:
  assumes chk: "check_order cfg env req = Inr c"
    and run: "place_order cfg env now id uid req c db = (Inr sub, db')"
    and s: "s \<in> set (subscriptions db)" "Some (sub_id s) \<noteq> req_exclude req"
  shows "\<not> overlap sub s"
proof
  assume o: "overlap sub s"
  from run obtain challenge where sub: "sub = new_subscription cfg env now uid req c challenge (next_id db)"
    and free: "req_product req = RELAY \<longrightarrow> require_name_free c (req_exclude req) db = None"
    by (elim place_order_result) blast
  from o have "live_claim sub" by (auto simp: overlap_def claim_covers_def)
  then obtain d where relay: "req_product req = RELAY" and d: "ord_domain c = Some d"
    by (cases "ord_domain c") (auto simp: live_claim_def sub new_subscription_def)
  have "\<exists>h. covers (ord_scope c) d h \<and> claim_covers s h"
    using o d by (auto simp: overlap_def claim_covers_def sub new_subscription_def)
  moreover have "require_name_free c (req_exclude req) db = None" using free relay by simp
  ultimately show False using require_name_free_disjoint [OF _ d s] by simp
qed

lemma upgrade_tx_result:
  assumes d: "distinct (map sub_id (subscriptions db))"
    and run: "upgrade_tx cfg env now id uid source_id term db = (Inr target, db')"
  obtains source base req c t where "source \<in> set (subscriptions db)" and "sub_id source = source_id"
    and "sub_user_id source = uid" and "upgradable now source"
    and "base = join_on ''.'' (tl (split_on (CHR ''.'') (the (domain source))))" and "req = upgrade_request source base term"
    and "check_order cfg env req = Inr c"
    and "place_order cfg env now id uid req c db = (Inr t, db\<lparr>subscriptions := subscriptions db @ [t], next_id := next_id db + 1\<rparr>)"
    and "target = upgrade_linked now source term t"
    and "db' = db\<lparr>subscriptions := subscriptions db @ [target], next_id := next_id db + 1\<rparr>"
    and "subscription_indexes (subscriptions db')" and "open_payments db (sub_id source) = []"
proof -
  from run obtain source where f: "List.find (\<lambda>s. sub_id s = source_id \<and> sub_user_id s = uid) (subscriptions db) = Some source"
    by (auto simp: upgrade_tx_def split: option.splits if_splits)
  let ?base = "join_on ''.'' (tl (split_on (CHR ''.'') (the (domain source))))"
  let ?req = "upgrade_request source ?base term"
  from run f obtain c t db1 where up: "upgradable now source" and chk: "check_order cfg env ?req = Inr c"
    and place: "place_order cfg env now id uid ?req c db = (Inr t, db1)"
    and link: "link_upgrade now source term t db1 = Inr (target, db')"
    and no: "open_payments db (sub_id source) = []"
    by (auto simp: upgrade_tx_def Let_def split: option.splits if_splits sum.splits prod.splits)
  from place have db1: "db1 = db\<lparr>subscriptions := subscriptions db @ [t], next_id := next_id db + 1\<rparr>"
    and idx: "subscription_indexes (subscriptions db @ [t])"
    by (auto elim: place_order_result)
  have fresh: "\<forall>s \<in> set (subscriptions db). sub_id s \<noteq> sub_id t"
    using idx by (auto simp: subscription_indexes_def image_iff)
  have target: "target = upgrade_linked now source term t"
    and idx': "subscription_indexes (subscriptions db')"
    and set: "db' = set_subscription (sub_id t) (upgrade_linked now source term) db1"
    using link by (auto simp: link_upgrade_def Let_def split: if_splits)
  have "update_where (\<lambda>s. sub_id s = sub_id t) (upgrade_linked now source term) (subscriptions db @ [t]) =
      subscriptions db @ [target]"
    using fresh by (auto simp: update_where_def target intro: map_idI)
  then have db': "db' = db\<lparr>subscriptions := subscriptions db @ [target], next_id := next_id db + 1\<rparr>"
    by (simp add: set db1 set_subscription_def)
  show thesis
    using that [OF _ _ _ up refl refl chk _ target db' idx' no] place f by (auto simp: db1 find_Some_iff in_set_conv_nth)
qed


section \<open>Histories of orders\<close>

text \<open>
  One operation of the control plane on the committed state, at any time and with any provider answers.
  New claims are serialised by the advisory lock of the code, so an order is one step here.
\<close>

inductive order_step :: "settings \<Rightarrow> world \<Rightarrow> world \<Rightarrow> bool" for cfg where
  "order_step cfg w (snd (check_and_settle_payment cfg gw now p w))"
| "order_step cfg w (snd (reap_expired_domain_claims cfg gw now w))"
| "order_step cfg w (snd (verify_subscription_domain cfg gw now dns id sub force w))"
| "order_step cfg w (snd (create_subscription cfg env gw now id uid (req\<lparr>req_exclude := None\<rparr>) w))"
| "order_step cfg w (snd (create_wildcard_upgrade cfg env gw now id uid source_id term w))"
| "order_step cfg w (snd (cancel_pending_subscription cfg gw now sub w))"
| "order_step cfg w (snd (reap_elapsed_resource_holds cfg gw now w))"

definition names_ok :: "world \<Rightarrow> bool" where
  "names_ok w \<longleftrightarrow> tables_distinct (wdb w) \<and> names_exclusive (wdb w)"

lemma names_ok_run: "names_ok w \<Longrightarrow> names_run w w' \<Longrightarrow> names_ok w'"
  using tables_distinct_shrink names_exclusive_shrink by (auto simp: names_ok_def names_run_def)

lemma names_ok_keeps: "names.keeps f \<Longrightarrow> names_ok w \<Longrightarrow> names_ok (snd (f w))"
  using names_ok_run names.keepsD by blast

lemma place_order_names:
  assumes ok: "names_ok w" and chk: "check_order cfg env req = Inr c" and ex: "req_exclude req = None"
  shows "names_ok (w\<lparr>wdb := snd (place_order cfg env now id uid req c (wdb w))\<rparr>)"
proof (cases "place_order cfg env now id uid req c (wdb w)")
  case (Pair res db')
  show ?thesis
  proof (cases res)
    case (Inl e)
    then have "db' = wdb w" using Pair by (auto simp: place_order_def insert_order_def Let_def split: sum.splits if_splits)
    then show ?thesis using ok Pair by (simp add: names_ok_def)
  next
    case (Inr sub)
    then have run: "place_order cfg env now id uid req c (wdb w) = (Inr sub, db')" using Pair by simp
    then obtain db': "subscriptions db' = subscriptions (wdb w) @ [sub]" "payments db' = payments (wdb w)"
      and idx: "distinct (map sub_id (subscriptions db'))"
      by (elim place_order_result) (auto simp: subscription_indexes_def)
    have "names_exclusive db'"
      using ok idx db'(1) place_order_disjoint [OF chk run] ex
      by (intro names_exclusive_add [of "wdb w" db' sub]) (auto simp: names_ok_def)
    then show ?thesis using ok idx db'(2) Pair by (simp add: names_ok_def tables_distinct_def)
  qed
qed

lemma upgrade_tx_names:
  assumes ok: "names_ok w"
  shows "names_ok (w\<lparr>wdb := snd (upgrade_tx cfg env now id uid source_id term (wdb w))\<rparr>)"
proof (cases "upgrade_tx cfg env now id uid source_id term (wdb w)")
  case (Pair res db')
  have d: "distinct (map sub_id (subscriptions (wdb w)))" using ok by (simp add: names_ok_def tables_distinct_def)
  show ?thesis
  proof (cases res)
    case (Inl e)
    then have "db' = wdb w"
      using Pair by (auto simp: upgrade_tx_def place_order_def insert_order_def Let_def
          split: sum.splits if_splits option.splits prod.splits)
    then show ?thesis using ok Pair by (simp add: names_ok_def)
  next
    case (Inr target)
    then have "upgrade_tx cfg env now id uid source_id term (wdb w) = (Inr target, db')" using Pair by simp
    from upgrade_tx_result [OF d this] obtain source base req c t where
      source: "source \<in> set (subscriptions (wdb w))" "sub_user_id source = uid"
      and req: "req = upgrade_request source base term" and chk: "check_order cfg env req = Inr c"
      and place: "place_order cfg env now id uid req c (wdb w) =
        (Inr t, (wdb w)\<lparr>subscriptions := subscriptions (wdb w) @ [t], next_id := next_id (wdb w) + 1\<rparr>)"
      and target: "target = upgrade_linked now source term t"
      and db': "db' = (wdb w)\<lparr>subscriptions := subscriptions (wdb w) @ [target], next_id := next_id (wdb w) + 1\<rparr>"
      and idx: "subscription_indexes (subscriptions db')" by metis
    have user: "sub_user_id t = uid" using place by (elim place_order_result) (simp add: new_subscription_def)
    have same: "overlap target s \<Longrightarrow> overlap t s" for s
      by (auto simp: overlap_def claim_covers_def live_claim_def target upgrade_linked_def)
    have only: "s = source" if "s \<in> set (subscriptions (wdb w))" "overlap t s" for s
    proof -
      have "Some (sub_id s) = req_exclude req" using place_order_disjoint [OF chk place that(1)] that(2) by blast
      then have "sub_id s = sub_id source" by (simp add: req upgrade_request_def)
      then show ?thesis using that(1) source(1) d by (auto simp: distinct_map dest: inj_onD)
    qed
    have "linked target source" using user source by (simp add: linked_def target upgrade_linked_def)
    then have "names_exclusive db'"
      using ok idx same only by (intro names_exclusive_add [of "wdb w" db' target])
        (auto simp: names_ok_def db' subscription_indexes_def)
    then show ?thesis using ok idx Pair by (simp add: names_ok_def tables_distinct_def db' subscription_indexes_def)
  qed
qed

lemma andthen_tx:
  assumes "names_ok w" and "names.keeps m" and "\<And>v. names_ok v \<Longrightarrow> names_ok (v\<lparr>wdb := snd (f (wdb v))\<rparr>)"
  shows "names_ok (snd (andthen m (\<lambda>_ v. case f (wdb v) of (r, db) \<Rightarrow> (r, v\<lparr>wdb := db\<rparr>)) w))"
proof -
  obtain x v where m: "m w = (x, v)" by (rule prod.exhaust)
  have "names_ok v" using names_ok_keeps [OF assms(2,1)] m by simp
  then show ?thesis using assms(3) [of v] m by (cases x) (auto simp: andthen_def split: prod.splits)
qed

lemma create_names:
  assumes "names_ok w" and "req_exclude req = None"
  shows "names_ok (snd (create_subscription cfg env gw now id uid req w))"
proof (cases "check_order cfg env req")
  case (Inr c)
  have "names.keeps (if req_product req = RELAY then reap_expired_domain_claims cfg gw now else return 0)"
    by (simp add: names.keeps_reap names.keeps_return)
  from andthen_tx [OF assms(1) this, of "place_order cfg env now id uid req c"] place_order_names [OF _ Inr assms(2)]
  show ?thesis using Inr by (simp only: create_subscription_def sum.case)
qed (use assms in \<open>simp add: create_subscription_def raise_def\<close>)

lemma upgrade_names:
  "names_ok w \<Longrightarrow> names_ok (snd (create_wildcard_upgrade cfg env gw now id uid source_id term w))"
  unfolding create_wildcard_upgrade_def by (rule andthen_tx [OF _ names.keeps_reap upgrade_tx_names])

interpretation orders: transition_system "order_step cfg" names_ok for cfg
proof
  fix w w' assume ok: "names_ok w" and "order_step cfg w w'"
  from this(2) show "names_ok w'"
    by cases (use ok names_ok_keeps [OF names.keeps_check_and_settle] names_ok_keeps [OF names.keeps_reap]
        names_ok_keeps [OF names.keeps_verify] names_ok_keeps [OF names.keeps_cancel] names_ok_keeps [OF names.keeps_holds]
        create_names upgrade_names in auto)
qed

text \<open>
  C4: no two accounts ever route the same hostname. Start from a state where live claims are exclusive;
  over any history of orders, upgrades, verifications, cancellations, settlements and reaping, with any
  provider answers, a hostname routed by two subscriptions is routed by an upgrade and its source, which
  belong to one account.
\<close>

theorem hostnames_exclusive:
  assumes "tables_distinct (wdb w)" and "names_exclusive (wdb w)" and "(order_step cfg)\<^sup>*\<^sup>* w w'"
    and "get_subscription (wdb w') i = Some s" and "get_subscription (wdb w') j = Some t" and "i \<noteq> j"
    and "claim_covers s h" and "claim_covers t h"
  shows "sub_user_id s = sub_user_id t \<and>
    (upgrade_from_subscription_id s = Some j \<or> upgrade_from_subscription_id t = Some i)"
proof -
  have "names_ok w'" using orders.run_inv [OF assms(3)] assms(1,2) by (simp add: names_ok_def)
  moreover have "overlap s t" using assms(7,8) by (auto simp: overlap_def)
  ultimately have "linked s t" using assms(4-6) by (auto simp: names_ok_def names_exclusive_def)
  then show ?thesis using get_subscription_id [OF assms(4)] get_subscription_id [OF assms(5)] by (simp add: linked_def)
qed

text \<open>A world with an active exact claim and its pending wildcard upgrade.\<close>

definition upgrade_source :: subscription where
  "upgrade_source = example_claim\<lparr>sub_status := SubACTIVE, domain_claim_expires_at := None,
     domain_verified_at := Some 0, current_period_end := Some (days 30)\<rparr>"

definition upgrade_target :: subscription where
  "upgrade_target = example_claim\<lparr>sub_id := 2, domain := Some ''shop.example'', relay_hostname_scope := WILDCARD,
     upgrade_from_subscription_id := Some 1\<rparr>"

definition upgrade_world :: world where
  "upgrade_world = \<lparr> wdb = empty_database\<lparr>users := [sample_user], subscriptions := [upgrade_source, upgrade_target]\<rparr>,
     calls = [] \<rparr>"

lemmas upgrade_world_defs = upgrade_world_def upgrade_source_def upgrade_target_def example_claim_def
  sample_subscription_def empty_database_def

lemma upgrade_world_rows:
  "tables_distinct (wdb upgrade_world)" "get_subscription (wdb upgrade_world) 1 = Some upgrade_source"
  "get_subscription (wdb upgrade_world) 2 = Some upgrade_target"
  "claim_covers upgrade_source ''www.shop.example''" "claim_covers upgrade_target ''www.shop.example''"
  by (simp_all add: upgrade_world_defs tables_distinct_def get_subscription_def get_row_def claim_covers_def
      live_claim_def covers_def ends_with_def)

lemma upgrade_world_exclusive: "names_exclusive (wdb upgrade_world)"
  by (auto simp: names_exclusive_def linked_def upgrade_world_defs get_subscription_def get_row_def split: if_splits)

lemma reap_upgrade_world:
  "snd (reap_expired_domain_claims example_settings idle_gateway (seconds 50) upgrade_world) = upgrade_world"
  by (simp add: reap_expired_domain_claims_def prepare_claims_def elapsed_active_def upgrade_world_defs
      expire_elapsed_subscriptions_def Let_def elapsed_or_missing_def clock_simps claim_without_deadline_def
      grace_without_deadline_def release_candidates_def release_due_def claim_elapsed_def)

theorem hostnames_exclusive_witness:
  "(order_step example_settings)\<^sup>*\<^sup>* upgrade_world upgrade_world \<and>
    claim_covers upgrade_source ''www.shop.example'' \<and> claim_covers upgrade_target ''www.shop.example'' \<and>
    sub_user_id upgrade_source = sub_user_id upgrade_target"
proof -
  have "order_step example_settings upgrade_world upgrade_world"
    using order_step.intros(2) [of example_settings upgrade_world idle_gateway "seconds 50"]
    by (simp add: reap_upgrade_world)
  then have run: "(order_step example_settings)\<^sup>*\<^sup>* upgrade_world upgrade_world" by simp
  show ?thesis
    using hostnames_exclusive [OF upgrade_world_rows(1) upgrade_world_exclusive run upgrade_world_rows(2,3) _
        upgrade_world_rows(4,5)] run upgrade_world_rows(4,5) by simp
qed

end
