(* ===== verification/Order_Guarantees.thy ===== *)
theory Order_Guarantees
  imports Hostname_Exclusion
begin

text \<open>
  What single order operations guarantee: account limits and price snapshots of new orders, the credit of
  a wildcard upgrade, and that a cancellation never takes a subscription whose payment is open or was
  settled on the way.
\<close>

section \<open>New orders\<close>

lemma row_count_append: "row_count p (rs @ [r]) = row_count p rs + (if p r then 1 else 0)"
  by (simp add: row_count_def)

lemma create_subscription_result:
  assumes "create_subscription cfg env gw now racing uid req w = (Inr sub, w')"
  obtains c and v :: world where "check_order cfg env req = Inr c"
    and "v = (if req_product req = RELAY then snd (reap_expired_domain_claims cfg gw now w) else w)"
    and "place_order cfg env now racing uid req c (wdb v) = (Inr sub, wdb w')"
proof (cases "check_order cfg env req")
  case (Inr c)
  obtain r v where rv: "(if req_product req = RELAY then reap_expired_domain_claims cfg gw now else return 0) w = (r, v)"
    by (rule prod.exhaust)
  then have v: "v = (if req_product req = RELAY then snd (reap_expired_domain_claims cfg gw now w) else w)"
    by (auto simp: return_def split: if_splits)
  have "place_order cfg env now racing uid req c (wdb v) = (Inr sub, wdb w')"
    using assms Inr rv by (auto simp: create_subscription_def andthen_def split: sum.splits prod.splits)
  then show thesis using that Inr v by blast
qed (use assms in \<open>simp add: create_subscription_def raise_def\<close>)

text \<open>
  C27: an accepted order respects the limits. When an order succeeds, with the other sessions held off by
  the account lock, the account holds at most the configured number of subscriptions that are not
  cancelled (one more for an upgrade) and at most the configured number of unpaid Relay claims; the new
  row is stored, pending, owned by the account, without any assignment, and carries the configured price
  of its product and scope for both terms.
\<close>

theorem order_within_limits:
  assumes run: "create_subscription cfg env gw now id uid req w = (Inr sub, w')"
  shows "row_count (not_cancelled uid) (subscriptions (wdb w')) \<le>
      ACCOUNT_MAX_NON_CANCELLED_SUBSCRIPTIONS cfg + (if req_additional req then 1 else 0) \<and>
    (req_product req = RELAY \<longrightarrow>
      row_count (pending_relay_claim uid) (subscriptions (wdb w')) \<le> ACCOUNT_MAX_PENDING_RELAY_CLAIMS cfg) \<and>
    get_subscription (wdb w') (sub_id sub) = Some sub \<and> sub_status sub = SubPENDING \<and> sub_user_id sub = uid \<and>
    assigned_ip sub = None \<and> product sub = req_product req \<and>
    monthly_price_sats sub = monthly_price cfg (product sub) (relay_hostname_scope sub) \<and>
    yearly_price_sats sub = yearly_price cfg (product sub) (relay_hostname_scope sub)"
proof -
  from run obtain c and v :: world where "place_order cfg env now id uid req c (wdb v) = (Inr sub, wdb w')"
    by (elim create_subscription_result) blast
  then obtain challenge where sub: "sub = new_subscription cfg env now uid req c challenge (next_id (wdb v))"
    and subs: "subscriptions (wdb w') = subscriptions (wdb v) @ [sub]"
    and idx: "subscription_indexes (subscriptions (wdb v) @ [sub])"
    and lim: "require_account_limits cfg uid (req_product req) (req_additional req) (wdb v) = None"
    by (elim place_order_result) auto
  have "get_subscription (wdb w') (sub_id sub) = Some sub"
    using get_row_unique [of sub_id "subscriptions (wdb w')" sub] idx subs
    by (simp add: get_subscription_def subscription_indexes_def)
  then show ?thesis
    using lim by (auto simp: require_account_limits_def subs row_count_append sub new_subscription_def not_cancelled_def
        pending_relay_claim_def split: if_splits)
qed

section \<open>Upgrade credit\<close>

lemma div_mult_le_int: "0 < (b::int) \<Longrightarrow> a div b * b \<le> a"
  using pos_mod_sign [of b a] div_mult_mod_eq [of a b] by linarith

lemma billing_period_pos [simp]: "0 < billing_period_days t"
  by (simp add: billing_period_days_def MONTHLY_PERIOD_DAYS_def YEARLY_PERIOD_DAYS_def)

lemma upgrade_credit_bounds:
  assumes e: "current_period_end source = Some e" "now \<le> e" and price: "0 \<le> term_price source (billing_term source)"
  shows "0 \<le> upgrade_credit now source"
    and "upgrade_credit now source * days (billing_period_days (billing_term source)) \<le>
      (e - now) * term_price source (billing_term source)"
proof -
  let ?p = "term_price source (billing_term source)" and ?n = "billing_period_days (billing_term source) * 86400"
  let ?r = "floor_seconds (e - now)"
  have r: "0 \<le> ?r" "seconds ?r \<le> e - now"
    using e(2) floor_seconds_le [of "e - now"] by (simp_all add: floor_seconds_def)
  have n: "0 < ?n" by simp
  have c: "upgrade_credit now source = (?r * ?p) div ?n" using e r by (simp add: upgrade_credit_def Let_def)
  then show "0 \<le> upgrade_credit now source" using r n price by (simp add: pos_imp_zdiv_nonneg_iff)
  have "upgrade_credit now source * ?n \<le> ?r * ?p" unfolding c using n by (rule div_mult_le_int)
  then have "upgrade_credit now source * ?n * 1000000 \<le> ?r * ?p * 1000000" by (rule mult_right_mono) simp
  also have "\<dots> = seconds ?r * ?p" by (simp add: seconds_def)
  also have "\<dots> \<le> (e - now) * ?p" using r price by (intro mult_right_mono) auto
  finally show "upgrade_credit now source * days (billing_period_days (billing_term source)) \<le> (e - now) * ?p"
    by (simp add: days_def seconds_def mult.assoc)
qed

lemma upgrade_credit_lower:
  assumes e: "current_period_end source = Some e" "now \<le> e" and price: "0 \<le> term_price source (billing_term source)"
  shows "(e - now) * term_price source (billing_term source) <
    (upgrade_credit now source + 1) * days (billing_period_days (billing_term source)) +
      seconds 1 * term_price source (billing_term source)"
proof -
  let ?p = "term_price source (billing_term source)" and ?n = "billing_period_days (billing_term source) * 86400"
  let ?r = "floor_seconds (e - now)"
  have n: "0 < ?n" by simp
  have r: "0 \<le> ?r" "e - now \<le> seconds ?r + seconds 1"
    using e(2) by (simp_all add: floor_seconds_def seconds_def)
  have c: "upgrade_credit now source = (?r * ?p) div ?n" using e r by (simp add: upgrade_credit_def Let_def)
  have "?r * ?p < (upgrade_credit now source + 1) * ?n"
    unfolding c using n div_mult_mod_eq [of "?r * ?p" ?n] pos_mod_bound [OF n, of "?r * ?p"]
    by (simp only: distrib_right mult_1)
  then have "seconds ?r * ?p < (upgrade_credit now source + 1) * days (billing_period_days (billing_term source))"
    by (simp add: days_def seconds_def algebra_simps)
  moreover have "(e - now) * ?p \<le> (seconds ?r + seconds 1) * ?p" using r(2) price by (rule mult_right_mono)
  ultimately show ?thesis by (simp only: distrib_right)
qed
text \<open>
  C26: the credit of a wildcard upgrade is pro rata. A new upgrade is linked to an active exact Relay
  subscription of the same account with paid time left and no open payment, and claims its base domain;
  its credit is never negative, at most the target's price for the chosen term, and otherwise the
  remaining time at the rate of the source's current term, rounded down: never more than that share, and
  short of it by less than one satoshi and the price of one second. The rate is the one of the term the
  source row carries now, which a renewal for another term replaces; what was paid for the remaining
  time is not consulted.
\<close>

theorem upgrade_credit_pro_rata:
  assumes d: "tables_distinct (wdb w)"
    and run: "create_wildcard_upgrade cfg env gw now id uid source_id term w = (Inr target, w')"
  shows "\<exists>source e. get_subscription (wdb (snd (reap_expired_domain_claims cfg gw now w))) source_id = Some source \<and>
    sub_user_id source = uid \<and> sub_user_id target = uid \<and> sub_status source = SubACTIVE \<and>
    relay_hostname_scope source = EXACT \<and> relay_hostname_scope target = WILDCARD \<and>
    current_period_end source = Some e \<and> now < e \<and> open_payments (wdb w') source_id = [] \<and>
    upgrade_from_subscription_id target = Some source_id \<and>
    upgrade_credit_sats target \<le> term_price target term \<and>
    (0 \<le> term_price source (billing_term source) \<longrightarrow>
      (0 \<le> term_price target term \<longrightarrow> 0 \<le> upgrade_credit_sats target) \<and>
      upgrade_credit_sats target * days (billing_period_days (billing_term source)) \<le>
        (e - now) * term_price source (billing_term source) \<and>
      (upgrade_credit_sats target < term_price target term \<longrightarrow>
        (e - now) * term_price source (billing_term source) <
          (upgrade_credit_sats target + 1) * days (billing_period_days (billing_term source)) +
            seconds 1 * term_price source (billing_term source)))"
proof -
  obtain r v where reap: "reap_expired_domain_claims cfg gw now w = (r, v)" by (rule prod.exhaust)
  have "names_run w v" using names.keepsD [OF names.keeps_reap, of w cfg gw now] reap by simp
  then have "tables_distinct (wdb v)" using d tables_distinct_shrink unfolding names_run_def by blast
  then have dv: "distinct (map sub_id (subscriptions (wdb v)))" by (simp add: tables_distinct_def)
  have tx: "upgrade_tx cfg env now id uid source_id term (wdb v) = (Inr target, wdb w')"
    using run reap by (cases r) (auto simp: create_wildcard_upgrade_def andthen_def split: prod.splits)
  obtain source base req c t where
    source: "source \<in> set (subscriptions (wdb v))" "sub_id source = source_id" "sub_user_id source = uid" "upgradable now source"
    and req: "req = upgrade_request source base term" "check_order cfg env req = Inr c"
    and place: "place_order cfg env now id uid req c (wdb v) =
      (Inr t, (wdb v)\<lparr>subscriptions := subscriptions (wdb v) @ [t], next_id := next_id (wdb v) + 1\<rparr>)"
    and target: "target = upgrade_linked now source term t"
    and w': "wdb w' = (wdb v)\<lparr>subscriptions := subscriptions (wdb v) @ [target], next_id := next_id (wdb v) + 1\<rparr>"
    and no: "open_payments (wdb v) (sub_id source) = []"
    by (rule upgrade_tx_result [OF dv tx], rule that) assumption+
  have get: "get_subscription (wdb v) source_id = Some source"
    using get_row_unique [OF dv source(1)] source(2) by (simp add: get_subscription_def)
  from source(4) obtain e where e: "current_period_end source = Some e" "now < e"
    and up: "sub_status source = SubACTIVE" "relay_hostname_scope source = EXACT"
    by (auto simp: upgradable_def split: option.splits)
  have t: "sub_user_id t = uid" "relay_hostname_scope t = ord_scope c"
    using place by (elim place_order_result, simp add: new_subscription_def)+
  have wild: "ord_scope c = WILDCARD"
    using req by (auto simp: check_order_def upgrade_request_def split: sum.splits option.splits if_splits prod.splits)
  have tp: "term_price target term = term_price t term" by (simp add: target upgrade_linked_def term_price_def)
  have credit: "upgrade_credit_sats target = min (upgrade_credit now source) (term_price target term)"
    unfolding tp by (simp add: target upgrade_linked_def)
  have "upgrade_credit_sats target * days (billing_period_days (billing_term source)) \<le>
      (e - now) * term_price source (billing_term source)" if p: "0 \<le> term_price source (billing_term source)"
  proof -
    have "upgrade_credit_sats target * days (billing_period_days (billing_term source)) \<le>
        upgrade_credit now source * days (billing_period_days (billing_term source))"
      by (rule mult_right_mono) (simp_all add: credit less_imp_le)
    also have "\<dots> \<le> (e - now) * term_price source (billing_term source)"
      using upgrade_credit_bounds(2) [OF e(1) _ p] e(2) by simp
    finally show ?thesis .
  qed
  moreover have "0 \<le> upgrade_credit now source" if "0 \<le> term_price source (billing_term source)"
    using upgrade_credit_bounds(1) [OF e(1) _ that] e(2) by simp
  moreover have "(e - now) * term_price source (billing_term source) <
      (upgrade_credit_sats target + 1) * days (billing_period_days (billing_term source)) +
        seconds 1 * term_price source (billing_term source)"
    if "0 \<le> term_price source (billing_term source)" "upgrade_credit_sats target < term_price target term"
    using upgrade_credit_lower [OF e(1) _ that(1)] that(2) e(2) credit by (simp add: min_def split: if_splits)
  moreover have "open_payments (wdb w') source_id = []" using no source(2) by (simp add: open_payments_def w')
  ultimately show ?thesis
    using get e up source t wild credit by (auto simp: reap) (simp_all add: target upgrade_linked_def)
qed

section \<open>Cancellation\<close>

lemma reconcile_open_kept:
  assumes "tables_distinct (wdb w)"
  shows "db_kept (wdb w) (wdb (snd (reconcile_open_payments cfg gw now ps w)))"
proof -
  have "standing.keeps (reconcile_open_payments cfg gw now ps)"
    by (induction ps) (auto intro!: standing.keeps_andthen standing.keeps_if standing.keeps_raise standing.keeps_return
        standing.keeps_check_and_settle)
  from standing.keepsD [OF this, of w] show ?thesis using assms by (simp add: run_kept_def tables_distinct_def)
qed

lemma list_all2_back: "list_all2 P xs ys \<Longrightarrow> y \<in> set ys \<Longrightarrow> \<exists>x \<in> set xs. P x y"
  by (induction rule: list_all2_induct) auto

lemma cancel_tx_result:
  assumes d: "distinct (map sub_id (subscriptions db))" and run: "cancel_tx now i db = Inr (c, db')"
  shows "\<exists>s. get_subscription db i = Some s \<and> sub_status s = SubPENDING \<and> open_payments db i = [] \<and>
    c = cancelled_values now s \<and> get_subscription db' i = Some c \<and> payments db' = payments db"
proof -
  from run obtain s where s: "get_subscription db i = Some s" "sub_status s = SubPENDING"
    by (auto simp: cancel_tx_def split: option.splits if_splits)
  let ?q = "\<lambda>r. sub_status r = SubPENDING \<and> open_payments db i = []"
  let ?db1 = "db\<lparr>subscriptions := update_where (\<lambda>r. sub_id r = i \<and> ?q r) (cancelled_values now) (subscriptions db)\<rparr>"
  let ?db2 = "snd (release now s ''pending subscription cancelled'' ?db1)"
  from run s have cnt: "row_count (\<lambda>r. sub_id r = i \<and> ?q r) (subscriptions db) = 1"
    and c: "get_subscription ?db2 i = Some c" "db' = ?db2"
    by (auto simp: cancel_tx_def Let_def split: option.splits if_splits)
  then have q: "?q s" using row_count_key [OF d, of i ?q] s by (auto simp: get_subscription_def)
  have id: "sub_id (cancelled_values now x) = sub_id x" for x by (simp add: cancelled_values_def release_values_def)
  have "get_subscription ?db2 i = Some (cancelled_values now s)"
    using s(1) q get_subscription_id [OF s(1)] by (simp add: get_subscription_def get_row_update_where id)
  then show ?thesis using s q c by simp
qed

text \<open>
  C23: cancelling never takes a paid subscription. When a cancellation succeeds, after polling the open
  payments with whatever answers, the subscription was pending before, is stored as cancelled without
  name and assignment, none of its payments is open, and none of them was settled during the
  cancellation: every paid payment of it was paid before.
\<close>

theorem cancellation_spares_paid:
  assumes d: "tables_distinct (wdb w)" and run: "cancel_pending_subscription cfg gw now sub w = (Inr c, w')"
  shows "(\<exists>s. get_subscription (wdb w) (sub_id sub) = Some s \<and> sub_status s = SubPENDING) \<and>
    get_subscription (wdb w') (sub_id sub) = Some c \<and> sub_status c = SubCANCELLED \<and>
    domain c = None \<and> assigned_ip c = None \<and> open_payments (wdb w') (sub_id sub) = [] \<and>
    (\<forall>p' \<in> set (payments (wdb w')). pay_subscription_id p' = sub_id sub \<and> pay_status p' = PAID \<longrightarrow>
       (\<exists>p \<in> set (payments (wdb w)). pay_id p = pay_id p' \<and> pay_status p = PAID))"
proof -
  from run obtain s where s: "get_subscription (wdb w) (sub_id sub) = Some s" "sub_status s = SubPENDING"
    by (auto simp: cancel_pending_subscription_def raise_def split: option.splits if_splits)
  have id: "sub_id s = sub_id sub" using get_subscription_id [OF s(1)] .
  obtain r v where rec: "reconcile_open_payments cfg gw now (open_payments (wdb w) (sub_id s)) w = (r, v)"
    by (rule prod.exhaust)
  from run s rec id have tx: "cancel_tx now (sub_id sub) (wdb v) = Inr (c, wdb w')"
    by (cases r) (auto simp: cancel_pending_subscription_def andthen_def raise_def return_def
        split: option.splits if_splits sum.splits)
  have kept: "db_kept (wdb w) (wdb v)" using reconcile_open_kept [OF d] rec by (metis snd_conv)
  then have dv: "distinct (map sub_id (subscriptions (wdb v)))" using d by (simp add: db_kept_def tables_distinct_def)
  from cancel_tx_result [OF dv tx] obtain t where t: "get_subscription (wdb v) (sub_id sub) = Some t"
    "sub_status t = SubPENDING" "open_payments (wdb v) (sub_id sub) = []" "c = cancelled_values now t"
    "get_subscription (wdb w') (sub_id sub) = Some c" "payments (wdb w') = payments (wdb v)" by blast
  have "\<exists>p \<in> set (payments (wdb w)). pay_id p = pay_id p' \<and> pay_status p = PAID"
    if p': "p' \<in> set (payments (wdb v))" "pay_subscription_id p' = sub_id sub" "pay_status p' = PAID" for p'
  proof -
    have "list_all2 (paid_active (wdb v)) (payments (wdb w)) (payments (wdb v))" using kept by (simp add: db_kept_def)
    from list_all2_back [OF this p'(1)] obtain p where p: "p \<in> set (payments (wdb w))" "paid_active (wdb v) p p'"
      by blast
    then show ?thesis using p' t(1,2) by (auto simp: paid_active_def)
  qed
  moreover have "open_payments (wdb w') (sub_id sub) = []" using t(3,6) by (simp add: open_payments_def)
  ultimately show ?thesis using s t by (simp add: cancelled_values_def release_values_def)
qed

section \<open>Worked instances\<close>

definition example_env :: order_env where
  "example_env = \<lparr> draw_public_id = ''order'', draw_token = ''token'', draw_targets = [''0123456789abcdef0123456789abcdef''],
     idna_to_ascii = Some, idna_ace_ok = (\<lambda>_. True) \<rparr>"

definition port_request :: order_request where
  "port_request = \<lparr> req_product = PORT, req_domain = None, req_transport = TCP, req_delivery = FRAMED, req_term = MONTHLY,
     req_scope = EXACT, req_referral = None, req_exclude = None, req_additional = False \<rparr>"

definition source_world :: world where
  "source_world = \<lparr> wdb = empty_database\<lparr>users := [sample_user], subscriptions := [upgrade_source], next_id := 2\<rparr>, calls = [] \<rparr>"

lemma port_order_accepted:
  "\<exists>sub w'. create_subscription example_settings example_env idle_gateway 0 id 1 port_request source_world = (Inr sub, w')"
proof -
  have "(case create_subscription example_settings example_env idle_gateway 0 id 1 port_request source_world of
     (Inr sub, w') \<Rightarrow> True | _ \<Rightarrow> False)" by code_simp
  then show ?thesis by (auto split: prod.splits sum.splits)
qed

lemma upgrade_accepted:
  "\<exists>t w'. create_wildcard_upgrade example_settings example_env idle_gateway (days 15) id 1 1 MONTHLY source_world = (Inr t, w') \<and>
     upgrade_credit_sats t = 500"
proof -
  have "(case create_wildcard_upgrade example_settings example_env idle_gateway (days 15) id 1 1 MONTHLY source_world of
     (Inr t, w') \<Rightarrow> upgrade_credit_sats t = 500 | _ \<Rightarrow> False)" by code_simp
  then show ?thesis by (auto split: prod.splits sum.splits)
qed

theorem order_within_limits_witness:
  "\<exists>sub w'. create_subscription example_settings example_env idle_gateway 0 id 1 port_request source_world = (Inr sub, w') \<and>
    row_count (not_cancelled 1) (subscriptions (wdb w')) \<le> 20 \<and> monthly_price_sats sub = 1000"
proof -
  obtain sub w' where run:
    "create_subscription example_settings example_env idle_gateway 0 id 1 port_request source_world = (Inr sub, w')"
    using port_order_accepted by blast
  show ?thesis using order_within_limits [OF run] run
    by (auto simp: example_settings_def port_request_def monthly_price_def)
qed

theorem upgrade_credit_pro_rata_witness:
  "\<exists>t w'. create_wildcard_upgrade example_settings example_env idle_gateway (days 15) id 1 1 MONTHLY source_world = (Inr t, w') \<and>
    upgrade_credit_sats t = 500 \<and> upgrade_from_subscription_id t = Some 1 \<and> open_payments (wdb w') 1 = []"
proof -
  obtain t w' where run:
    "create_wildcard_upgrade example_settings example_env idle_gateway (days 15) id 1 1 MONTHLY source_world = (Inr t, w')"
    and credit: "upgrade_credit_sats t = 500" using upgrade_accepted by blast
  have "tables_distinct (wdb source_world)" by (simp add: source_world_def tables_distinct_def empty_database_def)
  from upgrade_credit_pro_rata [OF this run] show ?thesis using run credit by blast
qed

theorem cancellation_spares_paid_witness:
  "\<exists>c w'. cancel_pending_subscription example_settings idle_gateway 0 example_claim claim_world = (Inr c, w') \<and>
    sub_status c = SubCANCELLED \<and> domain c = None"
proof -
  have "\<exists>c w'. cancel_pending_subscription example_settings idle_gateway 0 example_claim claim_world = (Inr c, w')"
    by (simp add: cancel_pending_subscription_def claim_world_def example_claim_def sample_subscription_def sample_user_def
        empty_database_def get_user_def get_subscription_def get_row_def open_payments_def andthen_def return_def
        cancel_tx_def row_count_def table_simps cancelled_values_def release_values_def release_def)
  then obtain c w' where run: "cancel_pending_subscription example_settings idle_gateway 0 example_claim claim_world = (Inr c, w')"
    by blast
  show ?thesis using cancellation_spares_paid [OF claim_world_simps(1) run] run by auto
qed

end
