(* ===== verification/Payment_Creation.thy ===== *)
theory Payment_Creation
  imports Hostname_Exclusion
begin

text \<open>
  Creation of a payment (\<^verbatim>\<open>create_payment\<close> of \<^verbatim>\<open>services/payments.py\<close>): the checks, the
  reconciliation of an existing open payment, the price snapshot, the transaction that inserts the row,
  reserves the resource and stages the invoice, and the first contact with the provider. \<open>racing\<close> is what
  other sessions commit between the checks and the insert; \<open>randbelow\<close> is the draw of the socket search.
\<close>

section \<open>Model\<close>

record payment_request =
  pr_subscription_id :: int
  pr_method :: payment_method
  pr_term :: "billing_term option"
  pr_agent_order_id :: "int option"
  pr_automatic_renewal :: bool

text \<open>The price snapshot of a new payment.\<close>

record payment_terms =
  pt_term :: billing_term
  pt_days :: int
  pt_amount :: int
  pt_markup :: int
  pt_service :: int
  pt_discount :: int
  pt_surcharge :: int
  pt_provider :: "string option"
  pt_origin :: "string option"
  pt_asset :: "string option"

definition plain_terms :: "billing_term \<Rightarrow> int \<Rightarrow> int \<Rightarrow> payment_terms" where
  "plain_terms term service discount = \<lparr> pt_term = term, pt_days = billing_period_days term,
     pt_amount = service - discount, pt_markup = 0, pt_service = service, pt_discount = discount,
     pt_surcharge = 0, pt_provider = None, pt_origin = None, pt_asset = None \<rparr>"

definition stablecoin_terms :: "settings \<Rightarrow> billing_term \<Rightarrow> int \<Rightarrow> int \<Rightarrow> error + payment_terms" where
  "stablecoin_terms cfg term service discount =
     (case stablecoin_checkout_snapshot cfg of (provider, origin, asset) \<Rightarrow>
      (case stablecoin_amounts cfg (service - discount) provider of
         Inl e \<Rightarrow> Inl e
       | Inr (amount, markup, surcharge) \<Rightarrow>
           (case (if provider = ''lightning_swap'' \<and> markup > surcharge
                  then stablecoin_credited_days amount (service - discount) surcharge (billing_period_days term)
                         (Some service)
                  else Inr (billing_period_days term)) of
              Inl e \<Rightarrow> Inl e
            | Inr n_days \<Rightarrow>
                Inr ((plain_terms term service discount)\<lparr>pt_days := n_days, pt_amount := amount,
                  pt_markup := markup, pt_surcharge := surcharge, pt_provider := Some provider,
                  pt_origin := Some origin, pt_asset := asset\<rparr>))))"

text \<open>\<open>initial\<close> is the flag computed when the operation started.\<close>

definition price_payment ::
  "settings \<Rightarrow> bool \<Rightarrow> payment_method \<Rightarrow> billing_term \<Rightarrow> subscription \<Rightarrow> error + payment_terms" where
  "price_payment cfg initial method term sub =
     (let service = term_price sub term; discount = (if initial then upgrade_credit_sats sub else 0) in
      if discount < 0 \<or> discount > service
      then Inl (ValueError ''wildcard upgrade credit snapshot is invalid'')
      else if service - discount = 0 \<and> initial then Inr (plain_terms term service discount)
      else if method = STABLECOIN_SWAP then stablecoin_terms cfg term service discount
      else Inr (plain_terms term service discount))"

definition new_payment ::
  "settings \<Rightarrow> time \<Rightarrow> payment_request \<Rightarrow> payment_terms \<Rightarrow> subscription \<Rightarrow> int \<Rightarrow> payment" where
  "new_payment cfg now req t sub i = \<lparr> pay_id = i,
     pay_subscription_id = sub_id sub,
     agent_order_id = pr_agent_order_id req,
     pay_method = pr_method req,
     pay_status = PENDING,
     pay_billing_term = pt_term t,
     period_days = pt_days t,
     amount_sats = pt_amount t,
     markup_sats = pt_markup t,
     service_price_sats = pt_service t,
     discount_sats = pt_discount t,
     stablecoin_surcharge_sats = pt_surcharge t,
     stablecoin_provider = pt_provider t,
     stablecoin_checkout_origin = pt_origin t,
     stablecoin_asset = pt_asset t,
     invoice = None,
     payment_hash = None,
     invoice_idempotency_key = None,
     invoice_provider = None,
     lnurl_attempted_at = None,
     lnurl_verify_url = None,
     lnurl_metadata = None,
     invoice_expires_at = None,
     settlement_verified_at = None,
     settlement_review_required = False,
     lnurl_last_checked_at = None,
     pay_referral_address = sub_referral_address sub,
     referral_commission_bps = (if nonempty (sub_referral_address sub) then REFERRAL_COMMISSION_BPS cfg else 0),
     nwc = blank_nwc,
     clink = blank_clink,
     automatic_renewal = pr_automatic_renewal req,
     automatic_renewal_period_end = (if pr_automatic_renewal req then current_period_end sub else None),
     pay_created_at = now,
     paid_at = None,
     expires_at = None \<rparr>"

definition insert_payment :: "(int \<Rightarrow> payment) \<Rightarrow> database \<Rightarrow> error + payment \<times> database" where
  "insert_payment row db =
     (let p = row (next_id db); ps = payments db @ [p]
      in if payment_indexes ps then Inr (p, db\<lparr>payments := ps, next_id := next_id db + 1\<rparr>)
         else Inl IntegrityError)"

text \<open>The wallet credential an automatic method pays with, recorded before the invoice is staged.\<close>

definition bind_credential :: "settings \<Rightarrow> user option \<Rightarrow> payment \<Rightarrow> error + payment" where
  "bind_credential cfg user p =
     (case pay_method p of
        LIGHTNING \<Rightarrow> Inr p
      | STABLECOIN_SWAP \<Rightarrow> Inr p
      | CASHU \<Rightarrow> Inl (ValueError ''unsupported payment method'')
      | NWC \<Rightarrow>
          (case user of
             Some u \<Rightarrow> if has_nwc u
               then Inr (p\<lparr>nwc := (nwc p)\<lparr>nwc_credential_generation := Some (nwc_generation u)\<rparr>\<rparr>)
               else Inl (ValueError ''user has no NWC wallet configured'')
           | None \<Rightarrow> Inl (ValueError ''user has no NWC wallet configured''))
      | CLINK \<Rightarrow>
          (case user of
             Some u \<Rightarrow> if has_clink u
               then let p1 = p\<lparr>clink := (clink p)\<lparr>clink_credential_generation := Some (clink_generation u)\<rparr>\<rparr>
                    in Inr (if has_nwc u \<and> is_payment_method_enabled cfg NWC
                            then p1\<lparr>nwc := (nwc p1)\<lparr>nwc_credential_generation := Some (nwc_generation u)\<rparr>\<rparr>
                            else p1)
               else Inl (ValueError ''user has no CLINK wallet configured'')
           | None \<Rightarrow> Inl (ValueError ''user has no CLINK wallet configured'')))"

text \<open>The transaction up to the commit of the staged invoice.\<close>

definition stage_payment_tx ::
  "settings \<Rightarrow> gateway \<Rightarrow> (nat \<Rightarrow> nat) \<Rightarrow> time \<Rightarrow> payment_request \<Rightarrow> payment_terms \<Rightarrow> subscription \<Rightarrow> database \<Rightarrow>
    error + payment \<times> database" where
  "stage_payment_tx cfg gw randbelow now req t sub db =
     (case insert_payment (new_payment cfg now req t sub) db of Inl e \<Rightarrow> Inl e | Inr (p, db1) \<Rightarrow>
      (case reserve_subscription_resource cfg randbelow now sub (pay_id p) db1 of Inl e \<Rightarrow> Inl e | Inr (_, db2) \<Rightarrow>
       let sub' = refresh db2 sub; deadline = payment_eligibility_deadline cfg sub' in
       (case bounded_invoice_expiry cfg now deadline of Inl e \<Rightarrow> Inl e | Inr expiry \<Rightarrow>
       (case bind_credential cfg (get_user db2 (sub_user_id sub')) p of Inl e \<Rightarrow> Inl e | Inr p1 \<Rightarrow>
       (case stage_lightning_invoice cfg gw now p1 deadline expiry of Inl e \<Rightarrow> Inl e | Inr p2 \<Rightarrow>
        let db3 = set_payment (pay_id p) (\<lambda>_. p2) db2
        in if payment_indexes (payments db3) then Inr (p2, db3) else Inl IntegrityError)))))"

text \<open>A fully credited upgrade is settled in the same transaction, without invoice.\<close>

definition credited_upgrade_tx ::
  "settings \<Rightarrow> gateway \<Rightarrow> (nat \<Rightarrow> nat) \<Rightarrow> time \<Rightarrow> bool \<Rightarrow> payment_request \<Rightarrow> payment_terms \<Rightarrow> subscription \<Rightarrow> database \<Rightarrow>
    error + payment \<times> database" where
  "credited_upgrade_tx cfg gw randbelow now initial req t sub db =
     (case insert_payment (new_payment cfg now req t sub) db of Inl e \<Rightarrow> Inl e | Inr (p, db1) \<Rightarrow>
      (case reserve_subscription_resource cfg randbelow now sub (pay_id p) db1 of Inl e \<Rightarrow> Inl e | Inr (_, db2) \<Rightarrow>
       if \<not> initial then Inl (ValueError ''only a fully credited wildcard upgrade can have a zero payment'')
       else map_sum id (Pair p) (finalize_tx cfg (seal_identity gw) now (pay_id p) PENDING None db2)))"

definition commit_payment :: "error + payment \<times> database \<Rightarrow> payment comp" where
  "commit_payment result w =
     (case result of Inl e \<Rightarrow> (Inl e, w) | Inr (p, db) \<Rightarrow> reload_payment (pay_id p) (w\<lparr>wdb := db\<rparr>))"

text \<open>The body of the \<^verbatim>\<open>try\<close> statement.\<close>

definition open_payment ::
  "settings \<Rightarrow> gateway \<Rightarrow> (nat \<Rightarrow> nat) \<Rightarrow> time \<Rightarrow> bool \<Rightarrow> payment_request \<Rightarrow> payment_terms \<Rightarrow> subscription \<Rightarrow> payment comp" where
  "open_payment cfg gw randbelow now initial req t sub w =
     (if pt_service t - pt_discount t = 0
      then commit_payment (credited_upgrade_tx cfg gw randbelow now initial req t sub (wdb w)) w
      else andthen (commit_payment (stage_payment_tx cfg gw randbelow now req t sub (wdb w)))
        (\<lambda>p. andthen (ensure_lightning_invoice cfg gw now p)
          (\<lambda>q. if pr_method req = NWC then reconcile_nwc_payment cfg gw now (finalize_payment 1 cfg gw now) q
               else if pr_method req = CLINK then reconcile_clink_payment cfg gw now (finalize_payment 1 cfg gw now) q
               else return q)) w)"

text \<open>The payment already linked to the agent order, if it fits the request.\<close>

definition linked_payment ::
  "settings \<Rightarrow> gateway \<Rightarrow> time \<Rightarrow> payment_request \<Rightarrow> billing_term \<Rightarrow> payment \<Rightarrow> payment comp" where
  "linked_payment cfg gw now req term p =
     (if pay_subscription_id p \<noteq> pr_subscription_id req \<or> pay_method p \<noteq> pr_method req \<or>
         pay_billing_term p \<noteq> term
      then raise (ValueError ''agent order already has an incompatible payment'')
      else if pay_status p = PENDING then check_and_settle_payment cfg gw now p
      else return p)"

definition order_payment :: "payment_request \<Rightarrow> database \<Rightarrow> payment option" where
  "order_payment req db =
     (if pr_agent_order_id req = None then None
      else List.find (\<lambda>p. agent_order_id p = pr_agent_order_id req) (payments db))"

text \<open>The \<^verbatim>\<open>except IntegrityError\<close> handler.\<close>

definition after_conflict ::
  "settings \<Rightarrow> gateway \<Rightarrow> time \<Rightarrow> payment_request \<Rightarrow> billing_term \<Rightarrow> payment comp" where
  "after_conflict cfg gw now req term w =
     (case order_payment req (wdb w) of
        Some paid_for \<Rightarrow> linked_payment cfg gw now req term paid_for w
      | None \<Rightarrow>
          (case open_payments (wdb w) (pr_subscription_id req) of
             [] \<Rightarrow> raise IntegrityError w
           | competing # _ \<Rightarrow>
               if pr_agent_order_id req \<noteq> None
               then raise (ValueError ''subscription already has an unrelated open payment'') w
               else if pay_status competing = PENDING \<and> pay_method competing = pr_method req \<and>
                       pay_billing_term competing = term
               then check_and_settle_payment cfg gw now competing w
               else raise (OpenPaymentConflictError (pay_id competing)) w))"

definition open_or_resolve ::
  "settings \<Rightarrow> gateway \<Rightarrow> (nat \<Rightarrow> nat) \<Rightarrow> time \<Rightarrow> (database \<Rightarrow> database) \<Rightarrow> bool \<Rightarrow> payment_request \<Rightarrow> payment_terms \<Rightarrow>
    subscription \<Rightarrow> payment comp" where
  "open_or_resolve cfg gw randbelow now racing initial req t sub w =
     (case open_payment cfg gw randbelow now initial req t sub (w\<lparr>wdb := racing (wdb w)\<rparr>) of
        (Inl e, w') \<Rightarrow> (if e = IntegrityError then after_conflict cfg gw now req (pt_term t) w' else (Inl e, w'))
      | (Inr p, w') \<Rightarrow> (Inr p, w'))"

fun reconcile_existing ::
  "settings \<Rightarrow> gateway \<Rightarrow> time \<Rightarrow> payment_request \<Rightarrow> billing_term \<Rightarrow> payment list \<Rightarrow> payment option comp" where
  "reconcile_existing cfg gw now req term [] = return None"
| "reconcile_existing cfg gw now req term (p # ps) =
     (if pr_agent_order_id req \<noteq> None \<and> agent_order_id p \<noteq> pr_agent_order_id req
      then raise (ValueError ''subscription already has an unrelated open payment'')
      else if pay_status p = PROCESSING then raise (OpenPaymentConflictError (pay_id p))
      else andthen (check_and_settle_payment cfg gw now p)
        (\<lambda>q. if pay_status q = PENDING
             then if pay_method q = pr_method req \<and> pay_billing_term q = term then return (Some q)
                  else raise (OpenPaymentConflictError (pay_id q))
             else reconcile_existing cfg gw now req term ps))"

text \<open>The identifiers that count against the account's limit of open payments and reservations.\<close>

definition account_payment_ids :: "int \<Rightarrow> database \<Rightarrow> int list" where
  "account_payment_ids uid db =
     (let subs = filter (\<lambda>s. sub_user_id s = uid) (subscriptions db)
      in remdups (map pay_id (filter (\<lambda>p. is_open (pay_status p) \<and> pay_subscription_id p \<in> set (map sub_id subs))
                    (payments db)) @
                  List.map_filter reservation_payment_id subs))"

definition initial_checks :: "payment_request \<Rightarrow> billing_term \<Rightarrow> subscription \<Rightarrow> database \<Rightarrow> error option" where
  "initial_checks req term sub db =
     (if is_upgrade_initial sub \<and> term \<noteq> billing_term sub
      then Some (ValueError ''wildcard upgrade payment must use the selected upgrade billing term'')
      else if product sub = IP \<and> delivery sub \<noteq> WIREGUARD
      then Some (ValueError ''Blindport IP is available with WireGuard delivery only'')
      else if product sub = IP \<and> (billing_term sub \<noteq> YEARLY \<or> term \<noteq> YEARLY)
      then Some (ValueError ''WireGuard Blindport IP is available with yearly billing only'')
      else case pr_agent_order_id req of
        None \<Rightarrow> None
      | Some i \<Rightarrow>
          if list_ex (\<lambda>ord. order_id ord = i \<and> order_subscription_id ord = sub_id sub) (agent_orders db) then None
          else Some (ValueError ''agent order does not belong to the subscription''))"

text \<open>The checks under the account lock, with the refreshed row.\<close>

definition account_checks :: "settings \<Rightarrow> billing_term \<Rightarrow> subscription \<Rightarrow> database \<Rightarrow> error + subscription" where
  "account_checks cfg term sub0 db =
     (case require_product_billing_term (product sub0) (delivery sub0) term of Some e \<Rightarrow> Inl e | None \<Rightarrow>
      (case require_billing_term_enabled cfg term of Some e \<Rightarrow> Inl e | None \<Rightarrow>
       if get_user db (sub_user_id sub0) = None then Inl (RuntimeError ''NoResultFound'')
       else let sub = refresh db sub0 in
         if has_pending_upgrade db sub then Inl (ValueError ''subscription has a pending wildcard upgrade'')
         else if length (account_payment_ids (sub_user_id sub) db) \<ge> ACCOUNT_MAX_OPEN_PAYMENTS cfg
         then Inl (AccountLimitError ''account has reached the open payment/reservation limit'')
         else Inr sub))"

text \<open>The payment is priced and opened once the elapsed holds are settled.\<close>

definition price_and_open ::
  "settings \<Rightarrow> gateway \<Rightarrow> (nat \<Rightarrow> nat) \<Rightarrow> time \<Rightarrow> (database \<Rightarrow> database) \<Rightarrow> bool \<Rightarrow> payment_request \<Rightarrow> billing_term \<Rightarrow>
    subscription \<Rightarrow> payment comp" where
  "price_and_open cfg gw randbelow now racing initial req term sub0 w =
     (let sub = refresh (wdb w) sub0 in
      case require_domain_payment_ready cfg now sub of Some e \<Rightarrow> raise e w | None \<Rightarrow>
      if sub_status sub = SubCANCELLED
      then raise (ValueError ''cancelled subscription cannot be paid; create a new subscription'') w
      else case price_payment cfg initial (pr_method req) term sub of
        Inl e \<Rightarrow> raise e w
      | Inr t \<Rightarrow> open_or_resolve cfg gw randbelow now racing initial req t sub w)"

text \<open>What follows when no open payment is reused.\<close>

definition fresh_payment ::
  "settings \<Rightarrow> gateway \<Rightarrow> (nat \<Rightarrow> nat) \<Rightarrow> time \<Rightarrow> (database \<Rightarrow> database) \<Rightarrow> bool \<Rightarrow> payment_request \<Rightarrow> billing_term \<Rightarrow>
    subscription \<Rightarrow> payment comp" where
  "fresh_payment cfg gw randbelow now racing initial req term sub0 w =
     (case account_checks cfg term sub0 (wdb w) of Inl e \<Rightarrow> raise e w | Inr sub \<Rightarrow>
      (case expire_elapsed_subscriptions cfg (seal_identity gw) now [sub] (wdb w) of
         Inl e \<Rightarrow> raise e w
       | Inr (_, db) \<Rightarrow>
           andthen (reap_elapsed_resource_holds cfg gw now)
             (\<lambda>_. price_and_open cfg gw randbelow now racing initial req term sub) (w\<lparr>wdb := db\<rparr>)))"

definition create_payment ::
  "settings \<Rightarrow> gateway \<Rightarrow> (nat \<Rightarrow> nat) \<Rightarrow> time \<Rightarrow> (database \<Rightarrow> database) \<Rightarrow> payment_request \<Rightarrow> payment comp" where
  "create_payment cfg gw randbelow now racing req =
     (case require_payment_method_enabled cfg (pr_method req) of Some e \<Rightarrow> raise e | None \<Rightarrow>
      andthen (reap_expired_domain_claims cfg gw now) (\<lambda>_ w.
        case get_subscription (wdb w) (pr_subscription_id req) of
          None \<Rightarrow> raise (RuntimeError ''InvalidRequestError'') w
        | Some sub \<Rightarrow>
          let term = (case pr_term req of Some t \<Rightarrow> t | None \<Rightarrow> billing_term sub);
              initial = is_upgrade_initial sub
          in case initial_checks req term sub (wdb w) of Some e \<Rightarrow> raise e w | None \<Rightarrow>
            (case order_payment req (wdb w) of
               Some paid_for \<Rightarrow> linked_payment cfg gw now req term paid_for w
             | None \<Rightarrow>
               andthen (reconcile_existing cfg gw now req term (open_payments (wdb w) (sub_id sub)))
                 (\<lambda>existing. case existing of
                    Some p \<Rightarrow> return p
                  | None \<Rightarrow> fresh_payment cfg gw randbelow now racing initial req term sub) w)))"

section \<open>Price snapshots\<close>

lemma billing_period_days_pos [simp]: "0 < billing_period_days term"
  by (simp add: billing_period_days_def MONTHLY_PERIOD_DAYS_def YEARLY_PERIOD_DAYS_def)

lemma stablecoin_amounts_result:
  assumes "stablecoin_amounts cfg base provider = Inr (amount, markup, surcharge)" and "0 \<le> STABLECOIN_SWAP_MARKUP_BPS cfg"
  shows "0 < base \<and> markup = amount - base \<and> 0 \<le> surcharge \<and> surcharge \<le> markup \<and>
    (provider \<noteq> ''lightning_swap'' \<longrightarrow> markup = surcharge)"
proof -
  have base: "0 < base" using assms(1) by (auto simp: stablecoin_amounts_def stablecoin_markup_sats_def split: if_splits)
  then have "0 \<le> base * STABLECOIN_SWAP_MARKUP_BPS cfg" using assms(2) by simp
  then have "0 \<le> (base * STABLECOIN_SWAP_MARKUP_BPS cfg + 9999) div 10000" by (simp add: pos_imp_zdiv_nonneg_iff)
  then show ?thesis
    using assms(1) base by (auto simp: stablecoin_amounts_def stablecoin_markup_sats_def Let_def split: if_splits)
qed

lemma credited_days_no_topup:
  "0 < amount \<Longrightarrow> 0 < service + surcharge \<Longrightarrow> 0 < standard \<Longrightarrow> amount - base \<le> surcharge \<Longrightarrow>
    stablecoin_credited_days amount base surcharge standard (Some service) = Inr standard"
  by (simp add: stablecoin_credited_days_def Let_def)

lemma new_payment_snapshot:
  assumes price: "price_payment cfg initial (pr_method req) term sub = Inr t"
    and pos: "0 < term_price sub term" and bps: "0 \<le> STABLECOIN_SWAP_MARKUP_BPS cfg"
  shows "check_billing_snapshot (new_payment cfg now req t sub i) = Inr (pt_service t - pt_discount t)"
proof -
  let ?s = "term_price sub term" and ?d = "if initial then upgrade_credit_sats sub else 0"
  have d: "0 \<le> ?d" "?d \<le> ?s" using price by (auto simp: price_payment_def Let_def split: if_splits)
  consider (plain) "t = plain_terms term ?s ?d" "pr_method req \<noteq> STABLECOIN_SWAP \<or> ?s - ?d = 0"
    | (swap) "pr_method req = STABLECOIN_SWAP" "stablecoin_terms cfg term ?s ?d = Inr t"
    using price by (auto simp: price_payment_def Let_def split: if_splits)
  then show ?thesis
  proof cases
    case plain
    then show ?thesis using d pos
      by (auto simp: check_billing_snapshot_def snapshot_prices_def check_stablecoin_snapshot_def new_payment_def
          plain_terms_def Let_def)
  next
    case swap
    obtain provider origin asset where snap: "stablecoin_checkout_snapshot cfg = (provider, origin, asset)"
      by (rule prod_cases3)
    from swap(2) snap obtain amount markup surcharge n where
      am: "stablecoin_amounts cfg (?s - ?d) provider = Inr (amount, markup, surcharge)"
      and n: "(if provider = ''lightning_swap'' \<and> markup > surcharge
        then stablecoin_credited_days amount (?s - ?d) surcharge (billing_period_days term) (Some ?s)
        else Inr (billing_period_days term)) = Inr n"
      and t: "t = (plain_terms term ?s ?d)\<lparr>pt_days := n, pt_amount := amount, pt_markup := markup, pt_surcharge := surcharge,
        pt_provider := Some provider, pt_origin := Some origin, pt_asset := asset\<rparr>"
      by (auto simp: stablecoin_terms_def split: sum.splits prod.splits)
    note a = stablecoin_amounts_result [OF am bps]
    have days: "stablecoin_credited_days amount (?s - ?d) surcharge (billing_period_days term) (Some ?s) = Inr n"
      if "provider = ''lightning_swap''"
    proof (cases "markup > surcharge")
      case True
      then show ?thesis using n that by simp
    next
      case False
      then have "n = billing_period_days term" using n by simp
      moreover have "0 < amount" "0 < ?s + surcharge" "amount - (?s - ?d) \<le> surcharge"
        using a False pos by linarith+
      ultimately show ?thesis
        using credited_days_no_topup [of amount ?s surcharge "billing_period_days term" "?s - ?d"] by simp
    qed
    have std: "n = billing_period_days term" if "provider \<noteq> ''lightning_swap''" using n that by simp
    show ?thesis
      using d pos a swap(1) days std
      by (auto simp: t check_billing_snapshot_def snapshot_prices_def check_stablecoin_snapshot_def new_payment_def
          plain_terms_def Let_def)
  qed
qed


section \<open>What the operations keep of the payment table\<close>

definition pay_kept :: "payment \<Rightarrow> payment \<Rightarrow> bool" where
  "pay_kept p p' \<longleftrightarrow> pay_id p' = pay_id p \<and> pay_subscription_id p' = pay_subscription_id p \<and> billing p' = billing p \<and>
     (is_open (pay_status p') \<longrightarrow> is_open (pay_status p))"

definition pays_run :: "world \<Rightarrow> world \<Rightarrow> bool" where
  "pays_run w w' \<longleftrightarrow> (tables_distinct (wdb w) \<longrightarrow>
     names_shrink (wdb w) (wdb w') \<and> list_all2 pay_kept (payments (wdb w)) (payments (wdb w')) \<and>
     agent_orders (wdb w') = agent_orders (wdb w))"

lemma pays_kept_refl [simp]: "list_all2 pay_kept ps ps"
  by (simp add: list_all2_refl pay_kept_def)

lemma pays_kept_trans: "list_all2 pay_kept a b \<Longrightarrow> list_all2 pay_kept b c \<Longrightarrow> list_all2 pay_kept a c"
  by (rule list_all2_trans [of pay_kept pay_kept pay_kept]) (auto simp: pay_kept_def)

lemma run_kept_pays: "run_kept w w' \<Longrightarrow> pays_run w w'"
  unfolding pays_run_def
proof (intro impI conjI)
  assume k: "run_kept w w'" and d: "tables_distinct (wdb w)"
  then have db: "db_kept (wdb w) (wdb w')" by (simp add: run_kept_def tables_distinct_def)
  then show "names_shrink (wdb w) (wdb w')" by (rule db_kept_shrink)
  show "agent_orders (wdb w') = agent_orders (wdb w)" using db by (simp add: db_kept_def)
  show "list_all2 pay_kept (payments (wdb w)) (payments (wdb w'))"
    using db unfolding db_kept_def by (auto elim!: list_all2_mono simp: paid_active_def pay_kept_def)
qed

lemma pays_rows: "rows_only (wdb w) db' \<Longrightarrow> pays_run w (w\<lparr>wdb := db'\<rparr>)"
  by (simp add: pays_run_def rows_only_def)

interpretation pays: order_run cfg gw now pays_run for cfg gw now
proof
  show "pays_run w w" for w by (simp add: pays_run_def)
  show "pays_run u v \<Longrightarrow> pays_run v w \<Longrightarrow> pays_run u w" for u v w
    unfolding pays_run_def using tables_distinct_shrink names_shrink_trans pays_kept_trans by metis
  show "row_tx (wdb w) db' \<Longrightarrow> pays_run w (w\<lparr>wdb := db'\<rparr>)" for w db'
    by (simp add: pays_rows row_tx_rows)
qed (auto intro!: run_kept_pays intro: standing.R_tx standing.R_call standing.R_nwc standing.R_nwc_silent
    standing.R_clink standing.R_clink_silent standing.R_lnurl)

text \<open>Reserving a resource writes subscription rows and leases only.\<close>

lemma reserve_candidate_rows: "reserve_candidate cfg now sub pid c db = Inr db' \<Longrightarrow> rows_only db db'"
proof -
  have "rows_only db d" if "subscriptions d = subscriptions (set_subscription i (resource_reserved cfg now pid ip port) db)"
    "payments d = payments db" "agent_orders d = agent_orders db" for d i ip port
    by (rule rows_only_trans [OF rows_only_set rows_only_frame [OF that(1)]]) (simp_all add: that(2,3))
  then show "reserve_candidate cfg now sub pid c db = Inr db' \<Longrightarrow> rows_only db db'"
    by (auto simp: reserve_candidate_def reserve_def Let_def split: if_splits)
qed

lemma try_candidates_rows: "try_candidates cfg now sub pid msg cs db = Inr db' \<Longrightarrow> rows_only db db'"
  by (induction cs) (auto split: sum.splits if_splits dest: reserve_candidate_rows)

lemma claim_hold_rows: "claim_hold now sub db = Inr db' \<Longrightarrow> rows_only db db'"
  by (auto simp: claim_hold_def Let_def name_shrunk_def prices_def split: if_splits intro!: rows_only_update)

lemma reserve_rows:
  "reserve_subscription_resource cfg rnd now sub pid db = Inr (b, db') \<Longrightarrow> rows_only db db'"
  by (auto simp: reserve_subscription_resource_def Let_def map_sum_Inr split: if_splits
      dest: try_candidates_rows claim_hold_rows)


section \<open>Sound payments\<close>

text \<open>Every row carries prices that can be charged.\<close>

definition priced :: "subscription \<Rightarrow> bool" where
  "priced s \<longleftrightarrow> 0 < yearly_price_sats s \<and> (product s \<noteq> IP \<longrightarrow> 0 < monthly_price_sats s)"

definition snapshot_ok :: "payment \<Rightarrow> bool" where
  "snapshot_ok p \<longleftrightarrow> (\<exists>due \<ge> 0. check_billing_snapshot p = Inr due)"

definition payments_ok :: "database \<Rightarrow> bool" where
  "payments_ok db \<longleftrightarrow> tables_distinct db \<and> unique_on open_subscription (payments db) \<and>
     list_all snapshot_ok (payments db) \<and> list_all priced (subscriptions db)"

lemma unique_on_kept:
  assumes "list_all2 r xs ys" and "\<And>x y. r x y \<Longrightarrow> key y = None \<or> key y = key x" and "unique_on key xs"
  shows "unique_on key ys"
  using assms(1,3)
proof (induction rule: list_all2_induct)
  case (Cons x xs y ys)
  have "\<exists>x' \<in> set xs. key x' = Some k" if "y' \<in> set ys" "key y' = Some k" for y' k
    using Cons.hyps(2) that assms(2) by (induction rule: list_all2_induct) (auto, metis option.distinct(1))
  moreover have "\<forall>s \<in> set xs. key s \<noteq> Some k" "unique_on key xs" if "key x = Some k" for k
    using Cons.prems that by (auto simp: unique_on_Cons)
  moreover have "unique_on key ys" using Cons by (simp add: unique_on_Cons)
  ultimately show ?case using assms(2) [OF Cons.hyps(1)] unfolding unique_on_Cons by (metis option.distinct(1))
qed simp

lemma pays_run_ok:
  assumes "pays_run w w'" and ok: "payments_ok (wdb w)" shows "payments_ok (wdb w')"
proof -
  have d: "tables_distinct (wdb w)" using ok by (simp add: payments_ok_def)
  then have sh: "names_shrink (wdb w) (wdb w')" and ps: "list_all2 pay_kept (payments (wdb w)) (payments (wdb w'))"
    using assms(1) by (simp_all add: pays_run_def)
  have d': "tables_distinct (wdb w')" by (rule tables_distinct_shrink [OF d sh])
  have "unique_on open_subscription (payments (wdb w'))"
    by (rule unique_on_kept [OF ps]) (use ok in \<open>auto simp: pay_kept_def open_subscription_def payments_ok_def\<close>)
  moreover have "list_all snapshot_ok (payments (wdb w'))"
  proof -
    have "snapshot_ok p \<Longrightarrow> pay_kept p p' \<Longrightarrow> snapshot_ok p'" for p p'
      using billing_snapshot [of p' p] by (simp add: pay_kept_def snapshot_ok_def)
    then show ?thesis
      using ps ok unfolding payments_ok_def list_all_length list_all2_conv_all_nth by auto
  qed
  moreover have "priced s'" if s': "s' \<in> set (subscriptions (wdb w'))" for s'
  proof -
    have "get_subscription (wdb w') (sub_id s') = Some s'"
      using d' get_row_unique [of sub_id "subscriptions (wdb w')" s'] s' by (simp add: get_subscription_def tables_distinct_def)
    then obtain s where "get_subscription (wdb w) (sub_id s') = Some s" and sh: "name_shrunk s s'"
      using names_shrink_back [OF sh] by blast
    then have "priced s" using ok by (auto simp: payments_ok_def list_all_iff get_subscription_def dest: get_row_Some)
    then show ?thesis using sh by (simp add: priced_def name_shrunk_def prices_def)
  qed
  ultimately show ?thesis using d' by (simp add: payments_ok_def list_all_iff)
qed

lemma keeps_ok: "pays.keeps f \<Longrightarrow> payments_ok (wdb w) \<Longrightarrow> payments_ok (wdb (snd (f w)))"
  using pays_run_ok pays.keepsD by blast

lemma rows_only_ok: "rows_only db db' \<Longrightarrow> payments_ok db \<Longrightarrow> payments_ok db'"
  using pays_run_ok [of "w\<lparr>wdb := db\<rparr>" "w\<lparr>wdb := db'\<rparr>" for w :: world] by (simp add: pays_run_def rows_only_def)

text \<open>The configured prices, as the production checks of the settings and the defaults have them.\<close>

definition sellable :: "settings \<Rightarrow> bool" where
  "sellable cfg \<longleftrightarrow> 0 < IP_YEARLY_SATS cfg \<and> 0 < PORT_MONTHLY_SATS cfg \<and> 0 < PORT_YEARLY_SATS cfg \<and>
     0 < RELAY_MONTHLY_SATS cfg \<and> 0 < RELAY_YEARLY_SATS cfg \<and> 0 < RELAY_WILDCARD_MONTHLY_SATS cfg \<and>
     0 < RELAY_WILDCARD_YEARLY_SATS cfg \<and> 0 \<le> STABLECOIN_SWAP_MARKUP_BPS cfg"

lemma new_subscription_priced: "sellable cfg \<Longrightarrow> priced (new_subscription cfg env now uid req c ch i)"
  by (simp add: sellable_def priced_def new_subscription_def monthly_price_def yearly_price_def split: product_type.splits)

lemma add_subscription_ok:
  assumes "payments_ok db" and "subscription_indexes (subscriptions db @ [sub])" and "priced sub"
    and "subscriptions db' = subscriptions db @ [sub]" and "payments db' = payments db"
  shows "payments_ok db'"
  using assms by (simp add: payments_ok_def tables_distinct_def subscription_indexes_def)

lemma place_order_ok:
  assumes sell: "sellable cfg" and ok: "payments_ok db"
  shows "payments_ok (snd (place_order cfg env now id uid req c db))"
proof (cases "place_order cfg env now id uid req c db")
  case (Pair res db')
  show ?thesis
  proof (cases res)
    case (Inl e)
    then have "db' = db" using Pair by (auto simp: place_order_def insert_order_def Let_def split: sum.splits if_splits)
    then show ?thesis using ok Pair by simp
  next
    case (Inr sub)
    with Pair obtain ch where "sub = new_subscription cfg env now uid req c ch (next_id db)"
      and "db' = db\<lparr>subscriptions := subscriptions db @ [sub], next_id := next_id db + 1\<rparr>"
      and "subscription_indexes (subscriptions db @ [sub])"
      by (auto elim: place_order_result)
    then show ?thesis using add_subscription_ok [OF ok] new_subscription_priced [OF sell] Pair by simp
  qed
qed

lemma upgrade_tx_ok:
  assumes sell: "sellable cfg" and ok: "payments_ok db"
  shows "payments_ok (snd (upgrade_tx cfg env now id uid source_id term db))"
proof (cases "upgrade_tx cfg env now id uid source_id term db")
  case (Pair res db')
  show ?thesis
  proof (cases res)
    case (Inl e)
    then have "db' = db"
      using Pair by (auto simp: upgrade_tx_def place_order_def insert_order_def Let_def
          split: sum.splits if_splits option.splits prod.splits)
    then show ?thesis using ok Pair by simp
  next
    case (Inr target)
    have d: "distinct (map sub_id (subscriptions db))" using ok by (simp add: payments_ok_def tables_distinct_def)
    from Inr Pair have "upgrade_tx cfg env now id uid source_id term db = (Inr target, db')" by simp
    from upgrade_tx_result [OF d this] obtain source req c t where
      place: "place_order cfg env now id uid req c db =
        (Inr t, db\<lparr>subscriptions := subscriptions db @ [t], next_id := next_id db + 1\<rparr>)"
      and target: "target = upgrade_linked now source term t"
      and db': "db' = db\<lparr>subscriptions := subscriptions db @ [target], next_id := next_id db + 1\<rparr>"
      and idx: "subscription_indexes (subscriptions db')" by metis
    have "priced t" using place by (elim place_order_result) (simp add: new_subscription_priced [OF sell])
    then have "priced target" by (simp add: target upgrade_linked_def priced_def)
    then show ?thesis using add_subscription_ok [OF ok, of target db'] idx Pair by (simp add: db')
  qed
qed

lemma andthen_ok:
  assumes "payments_ok (wdb w)" and "pays.keeps m" and "\<And>db. payments_ok db \<Longrightarrow> payments_ok (snd (f db))"
  shows "payments_ok (wdb (snd (andthen m (\<lambda>_ v. case f (wdb v) of (r, db) \<Rightarrow> (r, v\<lparr>wdb := db\<rparr>)) w)))"
proof -
  obtain x and v :: world where m: "m w = (x, v)" by (rule prod.exhaust)
  have "payments_ok (wdb v)" using keeps_ok [OF assms(2,1)] m by simp
  then show ?thesis using assms(3) [of "wdb v"] m by (cases x) (auto simp: andthen_def split: prod.splits)
qed

lemma create_ok:
  assumes "sellable cfg" and "payments_ok (wdb w)"
  shows "payments_ok (wdb (snd (create_subscription cfg env gw now id uid req w)))"
proof (cases "check_order cfg env req")
  case (Inr c)
  have "pays.keeps (if req_product req = RELAY then reap_expired_domain_claims cfg gw now else return 0)"
    by (simp add: pays.keeps_reap pays.keeps_return)
  from andthen_ok [OF assms(2) this, of "place_order cfg env now id uid req c", OF place_order_ok [OF assms(1)]]
  show ?thesis using Inr by (simp only: create_subscription_def sum.case)
qed (use assms in \<open>simp add: create_subscription_def raise_def\<close>)

lemma upgrade_ok:
  "sellable cfg \<Longrightarrow> payments_ok (wdb w) \<Longrightarrow>
    payments_ok (wdb (snd (create_wildcard_upgrade cfg env gw now id uid source_id term w)))"
  unfolding create_wildcard_upgrade_def by (intro andthen_ok pays.keeps_reap upgrade_tx_ok)

lemma order_step_ok:
  assumes "order_step cfg w w'" and sell: "sellable cfg" and ok: "payments_ok (wdb w)" shows "payments_ok (wdb w')"
  using assms(1)
  by cases (use ok sell keeps_ok [OF pays.keeps_check_and_settle] keeps_ok [OF pays.keeps_reap]
      keeps_ok [OF pays.keeps_verify] keeps_ok [OF pays.keeps_cancel] keeps_ok [OF pays.keeps_holds]
      create_ok upgrade_ok in auto)

text \<open>The transactions of a new payment.\<close>

lemma bind_credential_billing:
  "bind_credential cfg u p = Inr p' \<Longrightarrow> billing p' = billing p \<and> pay_id p' = pay_id p"
  by (auto simp: bind_credential_def billing_def Let_def split: payment_method.splits option.splits if_splits)

lemma stage_billing:
  "stage_lightning_invoice cfg gw now p dl e = Inr p' \<Longrightarrow> billing p' = billing p \<and> pay_id p' = pay_id p"
  by (auto simp: stage_lightning_invoice_def billing_def Let_def split: if_splits sum.splits)

lemma insert_payment_ok:
  assumes "insert_payment row db = Inr (p, db')" and "payments_ok db" and "\<And>i. snapshot_ok (row i)"
  shows "payments_ok db' \<and> snapshot_ok p"
  using assms by (auto simp: insert_payment_def Let_def payment_indexes_def payments_ok_def tables_distinct_def
      list_all_iff split: if_splits)

lemma set_payment_ok:
  assumes "payments_ok db" and "payment_indexes (payments (set_payment i (\<lambda>_. p) db))" and "snapshot_ok p"
  shows "payments_ok (set_payment i (\<lambda>_. p) db)"
  using assms by (auto simp: payments_ok_def payment_indexes_def tables_distinct_def set_payment_def list_all_iff
      in_update_where)

lemma stage_payment_ok:
  assumes run: "stage_payment_tx cfg gw rnd now req t sub db = Inr (p, db')" and ok: "payments_ok db"
    and snap: "\<And>i. snapshot_ok (new_payment cfg now req t sub i)"
  shows "payments_ok db'"
proof -
  from run obtain q db1 b db2 dl e q1 where ins: "insert_payment (new_payment cfg now req t sub) db = Inr (q, db1)"
    and res: "reserve_subscription_resource cfg rnd now sub (pay_id q) db1 = Inr (b, db2)"
    and bind: "bind_credential cfg (get_user db2 (sub_user_id (refresh db2 sub))) q = Inr q1"
    and stage: "stage_lightning_invoice cfg gw now q1 dl e = Inr p"
    and db': "db' = set_payment (pay_id q) (\<lambda>_. p) db2" and idx: "payment_indexes (payments db')"
    by (auto simp: stage_payment_tx_def Let_def split: sum.splits if_splits)
  have "payments_ok db1 \<and> snapshot_ok q" by (rule insert_payment_ok [OF ins ok snap])
  moreover from this have "payments_ok db2" using rows_only_ok [OF reserve_rows [OF res]] by simp
  moreover have "snapshot_ok p"
    using calculation bind_credential_billing [OF bind] stage_billing [OF stage] billing_snapshot [of p q]
    by (simp add: snapshot_ok_def)
  ultimately show ?thesis using set_payment_ok idx by (simp add: db')
qed

lemma credited_upgrade_ok:
  assumes run: "credited_upgrade_tx cfg gw rnd now initial req t sub db = Inr (p, db')" and ok: "payments_ok db"
    and snap: "\<And>i. snapshot_ok (new_payment cfg now req t sub i)"
  shows "payments_ok db'"
proof -
  from run obtain db1 b db2 where ins: "insert_payment (new_payment cfg now req t sub) db = Inr (p, db1)"
    and res: "reserve_subscription_resource cfg rnd now sub (pay_id p) db1 = Inr (b, db2)"
    and fin: "finalize_tx cfg (seal_identity gw) now (pay_id p) PENDING None db2 = Inr db'"
    by (auto simp: credited_upgrade_tx_def map_sum_Inr split: sum.splits if_splits)
  have "payments_ok db1" using insert_payment_ok [OF ins ok snap] by simp
  then have ok2: "payments_ok db2" using rows_only_ok [OF reserve_rows [OF res]] by simp
  let ?w = "\<lambda>db. \<lparr>wdb = db, calls = []\<rparr>"
  have "pays_run (?w db2) (?w db')" using pays.R_tx [of cfg gw now "?w db2" db'] tx_verified [OF fin] by simp
  then show ?thesis using pays_run_ok ok2 by fastforce
qed

lemma open_payment_ok:
  assumes ok: "payments_ok (wdb w)" and snap: "\<And>i. snapshot_ok (new_payment cfg now req t sub i)"
  shows "payments_ok (wdb (snd (open_payment cfg gw rnd now initial req t sub w)))"
proof -
  have commit: "payments_ok (wdb (snd (commit_payment r w)))" if "\<And>p db. r = Inr (p, db) \<Longrightarrow> payments_ok db" for r
    using that ok by (auto simp: commit_payment_def pays.snd_reload split: sum.splits)
  have rest: "pays.keeps (\<lambda>v. andthen (ensure_lightning_invoice cfg gw now p)
      (\<lambda>q. if pr_method req = NWC then reconcile_nwc_payment cfg gw now (finalize_payment 1 cfg gw now) q
           else if pr_method req = CLINK then reconcile_clink_payment cfg gw now (finalize_payment 1 cfg gw now) q
           else return q) v)" for p
    by (intro pays.keeps_andthen pays.keeps_ensure_lightning pays.keeps_if pays.keeps_reconcile_nwc
        pays.keeps_reconcile_clink pays.keeps_return allI pays.keeps_finalize)
  have "payments_ok (wdb (snd (andthen m k w)))" if "payments_ok (wdb (snd (m w)))" "\<And>x. pays.keeps (k x)" for m k
    using that keeps_ok by (cases "m w") (auto simp: andthen_def split: sum.splits)
  from this [of "commit_payment (stage_payment_tx cfg gw rnd now req t sub (wdb w))", OF commit [OF stage_payment_ok [OF _ ok snap]] rest]
  show ?thesis
    using commit [OF credited_upgrade_ok [OF _ ok snap]] by (simp add: open_payment_def)
qed

lemma keeps_linked_payment: "pays.keeps (linked_payment cfg gw now req term p)"
  unfolding linked_payment_def
  by (intro pays.keeps_if pays.keeps_raise pays.keeps_return pays.keeps_check_and_settle)

lemma keeps_after_conflict: "pays.keeps (after_conflict cfg gw now req term)"
proof (rule pays.keepsI)
  fix w
  show "pays_run w (snd (after_conflict cfg gw now req term w))"
    by (simp add: after_conflict_def raise_def pays.R_refl pays.keepsD keeps_linked_payment
        pays.keeps_check_and_settle split: option.splits list.splits)
qed

lemma keeps_reconcile_existing: "pays.keeps (reconcile_existing cfg gw now req term ps)"
proof (induction ps)
  case (Cons p ps)
  show ?case unfolding reconcile_existing.simps
    by (intro pays.keeps_andthen pays.keeps_if pays.keeps_raise pays.keeps_return pays.keeps_check_and_settle Cons.IH)
qed (simp add: pays.keeps_return)

lemma open_or_resolve_ok:
  assumes "payments_ok (wdb w)" and "\<And>db. payments_ok db \<Longrightarrow> payments_ok (racing db)"
    and "\<And>i. snapshot_ok (new_payment cfg now req t sub i)"
  shows "payments_ok (wdb (snd (open_or_resolve cfg gw rnd now racing initial req t sub w)))"
proof -
  obtain r and v :: world where v: "open_payment cfg gw rnd now initial req t sub (w\<lparr>wdb := racing (wdb w)\<rparr>) = (r, v)"
    by (rule prod.exhaust)
  have "payments_ok (wdb v)"
    using open_payment_ok [of "w\<lparr>wdb := racing (wdb w)\<rparr>" cfg now req t sub gw rnd initial, OF _ assms(3)] assms(1,2) v
    by simp
  then show ?thesis
    using v keeps_ok [OF keeps_after_conflict] by (auto simp: open_or_resolve_def split: sum.splits)
qed

lemma priced_snapshot:
  assumes price: "price_payment cfg initial (pr_method req) term sub = Inr t" and "0 < term_price sub term" and "sellable cfg"
  shows "snapshot_ok (new_payment cfg now req t sub i)"
proof -
  have "pt_discount t \<le> pt_service t"
    using price by (auto simp: price_payment_def plain_terms_def stablecoin_terms_def Let_def
        split: if_splits sum.splits prod.splits)
  then show ?thesis
    using new_payment_snapshot [OF price assms(2)] assms(3) by (simp add: snapshot_ok_def sellable_def)
qed

lemma refreshed_prices:
  assumes "names_shrink db db'" and "get_subscription db i = Some s" and "sub_id u = i"
  shows "prices (refresh db' u) = prices s \<and> sub_id (refresh db' u) = i"
proof -
  have "rel_option name_shrunk (Some s) (get_subscription db' i)" using assms(1,2) unfolding names_shrink_def by metis
  then obtain s' where "get_subscription db' i = Some s'" and "name_shrunk s s'" by (auto simp: option_rel_Some1)
  then show ?thesis using assms(2,3) get_subscription_id [OF assms(2)] by (simp add: refresh_def name_shrunk_def)
qed

lemma priced_term:
  "priced s \<Longrightarrow> prices u = prices s \<Longrightarrow> (product s = IP \<longrightarrow> term = YEARLY) \<Longrightarrow> 0 < term_price u term"
  by (auto simp: priced_def prices_def term_price_def)

lemma price_and_open_ok:
  assumes ok: "payments_ok (wdb w)" and sell: "sellable cfg" and rac: "\<And>db. payments_ok db \<Longrightarrow> payments_ok (racing db)"
    and pos: "0 < term_price (refresh (wdb w) sub) tm"
  shows "payments_ok (wdb (snd (price_and_open cfg gw rnd now racing initial req tm sub w)))"
proof -
  have "payments_ok (wdb (snd (open_or_resolve cfg gw rnd now racing initial req t (refresh (wdb w) sub) w)))"
    if "price_payment cfg initial (pr_method req) tm (refresh (wdb w) sub) = Inr t" for t
    by (rule open_or_resolve_ok [OF ok]) (use rac priced_snapshot [OF that pos sell] in simp_all)
  then show ?thesis using ok by (simp add: price_and_open_def raise_def Let_def split: option.splits sum.splits)
qed

lemma fresh_payment_ok:
  assumes ok: "payments_ok (wdb v)" and sell: "sellable cfg" and rac: "\<And>db. payments_ok db \<Longrightarrow> payments_ok (racing db)"
    and run: "pays_run v w" and sub: "get_subscription (wdb v) i = Some sub" and ip: "product sub = IP \<longrightarrow> tm = YEARLY"
  shows "payments_ok (wdb (snd (fresh_payment cfg gw rnd now racing initial req tm sub w)))"
proof -
  have okw: "payments_ok (wdb w)" by (rule pays_run_ok [OF run ok])
  have i: "sub_id sub = i" using get_subscription_id [OF sub] .
  have priced: "priced sub" using ok sub by (auto simp: payments_ok_def list_all_iff get_subscription_def dest: get_row_Some)
  have tail: "payments_ok (wdb (snd (andthen (reap_elapsed_resource_holds cfg gw now)
      (\<lambda>_. price_and_open cfg gw rnd now racing initial req tm (refresh (wdb w) sub)) (w\<lparr>wdb := db\<rparr>))))"
    if rows: "row_tx (wdb w) db" for db
  proof -
    obtain x and u :: world where u: "reap_elapsed_resource_holds cfg gw now (w\<lparr>wdb := db\<rparr>) = (x, u)"
      by (rule prod.exhaust)
    have "pays_run (w\<lparr>wdb := db\<rparr>) u"
      using pays.keepsD [OF pays.keeps_holds [of cfg gw now], of "w\<lparr>wdb := db\<rparr>"] u by simp
    then have run': "pays_run v u" using pays.R_trans [OF run pays.R_trans [OF pays.R_rows [OF rows]]] by blast
    have shrink: "names_shrink (wdb v) (wdb w)" "names_shrink (wdb v) (wdb u)"
      using run run' ok by (simp_all add: pays_run_def payments_ok_def)
    have "prices (refresh (wdb u) (refresh (wdb w) sub)) = prices sub"
      using refreshed_prices [OF shrink(2) sub] refreshed_prices [OF shrink(1) sub i] by simp
    then show ?thesis
      using price_and_open_ok [OF pays_run_ok [OF run' ok] sell rac priced_term [OF priced _ ip]] pays_run_ok [OF run' ok] u
      by (simp add: andthen_def split: sum.splits)
  qed
  show ?thesis
    using okw tail expire_elapsed_rows
    by (auto simp: fresh_payment_def account_checks_def Let_def raise_def split: sum.splits option.splits if_splits)
qed

lemma create_payment_ok:
  assumes ok: "payments_ok (wdb w)" and sell: "sellable cfg" and rac: "\<And>db. payments_ok db \<Longrightarrow> payments_ok (racing db)"
  shows "payments_ok (wdb (snd (create_payment cfg gw rnd now racing req w)))"
proof -
  let ?flow = "\<lambda>tm initial sub v. andthen (reconcile_existing cfg gw now req tm (open_payments (wdb v) (sub_id sub)))
    (\<lambda>existing. case existing of Some p \<Rightarrow> return p
       | None \<Rightarrow> fresh_payment cfg gw rnd now racing initial req tm sub) v"
  have flow: "payments_ok (wdb (snd (?flow tm initial sub v)))"
    if "payments_ok (wdb v)" "get_subscription (wdb v) i = Some sub" "product sub = IP \<longrightarrow> tm = YEARLY"
    for tm initial sub i and v :: world
  proof -
    let ?m = "reconcile_existing cfg gw now req tm (open_payments (wdb v) (sub_id sub))"
    obtain x and u :: world where u: "?m v = (x, u)" by (rule prod.exhaust)
    have run: "pays_run v u" using pays.keepsD [OF keeps_reconcile_existing] u by (metis snd_conv)
    show ?thesis
      using pays_run_ok [OF run that(1)] fresh_payment_ok [OF that(1) sell rac run that(2,3)] u
      by (auto simp: andthen_def return_def split: sum.splits option.splits)
  qed
  obtain x and v :: world where v: "reap_expired_domain_claims cfg gw now w = (x, v)" by (rule prod.exhaust)
  have okv: "payments_ok (wdb v)" using keeps_ok [OF pays.keeps_reap ok, of cfg gw now] v by simp
  have ip: "initial_checks req tm sub db = None \<Longrightarrow> product sub = IP \<longrightarrow> tm = YEARLY" for tm sub db
    by (auto simp: initial_checks_def split: if_splits)
  note linked = keeps_ok [OF keeps_linked_payment okv]
  show ?thesis
    using ok okv flow [OF okv _ ip] linked v
    by (auto simp: create_payment_def raise_def andthen_def [of "reap_expired_domain_claims cfg gw now"] Let_def
        split: option.splits sum.splits)
qed


section \<open>Histories of orders and payments\<close>

text \<open>
  A payment is created while other sessions run: what they commit between the checks and the insert is
  itself a history of these operations.
\<close>

inductive payment_step :: "settings \<Rightarrow> world \<Rightarrow> world \<Rightarrow> bool" for cfg where
  order: "order_step cfg w w' \<Longrightarrow> payment_step cfg w w'"
| create: "(\<And>v. \<exists>cs. (payment_step cfg)\<^sup>*\<^sup>* v (v\<lparr>wdb := racing (wdb v), calls := cs\<rparr>)) \<Longrightarrow>
    payment_step cfg w (snd (create_payment cfg gw rnd now racing req w))"

lemma payment_step_ok:
  assumes "payment_step cfg w w'" and sell: "sellable cfg" and "payments_ok (wdb w)" shows "payments_ok (wdb w')"
  using assms(1,3)
proof (induction rule: payment_step.induct)
  case (order w w')
  then show ?case using order_step_ok sell by blast
next
  case (create racing w gw rnd now req)
  have run: "payments_ok (wdb v) \<Longrightarrow> payments_ok (wdb v')"
    if "(\<lambda>a b. payment_step cfg a b \<and> (payments_ok (wdb a) \<longrightarrow> payments_ok (wdb b)))\<^sup>*\<^sup>* v v'" for v v'
    using that by (induction rule: rtranclp_induct) auto
  have "payments_ok (racing db)" if ok: "payments_ok db" for db
  proof -
    let ?v = "\<lparr>wdb = db, calls = []\<rparr>"
    from create.IH [of ?v] obtain cs where
      "(\<lambda>a b. payment_step cfg a b \<and> (payments_ok (wdb a) \<longrightarrow> payments_ok (wdb b)))\<^sup>*\<^sup>* ?v
        (?v\<lparr>wdb := racing (wdb ?v), calls := cs\<rparr>)" by (rule exE)
    from run [OF this] ok show ?thesis by simp
  qed
  then show ?case by (rule create_payment_ok [OF create.prems sell])
qed

interpretation payment_run: transition_system "payment_step cfg" "\<lambda>w. sellable cfg \<and> payments_ok (wdb w)" for cfg
proof
  show "sellable cfg \<and> payments_ok (wdb w')" if "sellable cfg \<and> payments_ok (wdb w)" and "payment_step cfg w w'" for w w'
    using payment_step_ok [OF that(2)] that(1) by simp
qed

text \<open>
  C3: every payment can be settled for what it was sold, and a subscription never has two open ones. Start
  from tables with unique identifiers and positive prices; over any history of orders, upgrades, payments,
  polls, cancellations and reaping, with any provider answers and with other sessions committing between
  the checks of a payment and its insert, each payment row passes the price checks of settlement with a
  non-negative amount due, and two open payments of one subscription are the same row.
\<close>

theorem payments_stay_sound:
  assumes "payments_ok (wdb w)" and "sellable cfg" and "(payment_step cfg)\<^sup>*\<^sup>* w w'"
    and "p \<in> set (payments (wdb w'))" and "q \<in> set (payments (wdb w'))"
  shows "(\<exists>due \<ge> 0. check_billing_snapshot p = Inr due) \<and>
    (is_open (pay_status p) \<and> is_open (pay_status q) \<and> pay_subscription_id p = pay_subscription_id q \<longrightarrow> p = q)"
proof -
  have ok: "payments_ok (wdb w')" using payment_run.run_inv [OF assms(3)] assms(1,2) by simp
  then have "snapshot_ok p" using assms(4) by (simp add: payments_ok_def list_all_iff)
  moreover have "p = q" if "is_open (pay_status p)" "is_open (pay_status q)" "pay_subscription_id p = pay_subscription_id q"
    using ok that assms(4,5) unique_onD [of open_subscription "payments (wdb w')" pay_id p q "pay_subscription_id p"]
    by (auto simp: payments_ok_def tables_distinct_def open_subscription_def)
  ultimately show ?thesis by (auto simp: snapshot_ok_def)
qed

text \<open>An account that pays a pending subscription through the LND adapter.\<close>

definition lnd_settings :: settings where
  "lnd_settings = example_settings\<lparr>PAYMENT_LIGHTNING_ADAPTER := ''lnd''\<rparr>"

definition paying_gateway :: gateway where
  "paying_gateway = idle_gateway\<lparr>invoice_hmac := Some, sha256_hex := (\<lambda>x. ''hash-'' @ x), invoice_uuid := ''uuid'',
     lnd_create := (\<lambda>_ c. case c of LndCreate i a m pre e \<Rightarrow>
         Some \<lparr>inv_request = ''lnbc'', inv_hash = ''hash-'' @ pre, inv_expires_in = 600\<rparr> | _ \<Rightarrow> None),
     lnd_paid := (\<lambda>_ _. Some True)\<rparr>"

definition upgrade_payment :: payment where
  "upgrade_payment = sample_payment\<lparr>pay_subscription_id := 2, amount_sats := 4500, service_price_sats := 5000,
     discount_sats := 500, invoice := Some ''lnbc0'', payment_hash := Some ''h0'', expires_at := Some (days 1)\<rparr>"

definition credited_target :: subscription where
  "credited_target = upgrade_target\<lparr>monthly_price_sats := 5000, domain_verified_at := Some 0, upgrade_credit_sats := 500,
     upgrade_source_period_end := Some (days 30), domain_claim_expires_at := Some (days 1)\<rparr>"

definition paying_world :: world where
  "paying_world = \<lparr> wdb = empty_database\<lparr>users := [sample_user], subscriptions := [upgrade_source, credited_target],
     payments := [upgrade_payment], next_id := 10\<rparr>, calls = [] \<rparr>"

definition upgrade_payment_request :: payment_request where
  "upgrade_payment_request = \<lparr> pr_subscription_id = 2, pr_method = LIGHTNING, pr_term = None,
     pr_agent_order_id = None, pr_automatic_renewal = False \<rparr>"

text \<open>
  The discount of a wildcard upgrade can be granted twice. \<^verbatim>\<open>create_payment\<close> decides whether it bills an initial
  upgrade before it reconciles the open payment; when that payment turns out to be paid, the renewal it
  then opens for the active subscription is discounted by the upgrade credit once more.
\<close>

lemma stale_upgrade_credit:
  "case create_payment lnd_settings paying_gateway (\<lambda>_. 0) (seconds 60) id upgrade_payment_request paying_world of
     (Inr p, w) \<Rightarrow> pay_id p = 10 \<and> pay_status p = PENDING \<and> discount_sats p = 500 \<and> amount_sats p = 4500 \<and>
       map sub_status (subscriptions (wdb w)) = [SubCANCELLED, SubACTIVE] \<and>
       map pay_status (payments (wdb w)) = [PAID, PENDING]
   | _ \<Rightarrow> False"
  by code_simp

lemma paying_world_ok: "payments_ok (wdb paying_world)"
proof -
  have "check_billing_snapshot upgrade_payment = Inr 4500" by code_simp
  then have "snapshot_ok upgrade_payment" by (simp add: snapshot_ok_def)
  moreover have "tables_distinct (wdb paying_world) \<and> unique_on open_subscription (payments (wdb paying_world)) \<and>
      0 < yearly_price_sats upgrade_source \<and> 0 < monthly_price_sats upgrade_source \<and>
      0 < yearly_price_sats credited_target \<and> 0 < monthly_price_sats credited_target" 
    unfolding tables_distinct_def by code_simp
  ultimately show ?thesis by (simp add: payments_ok_def priced_def paying_world_def)
qed

theorem payments_stay_sound_witness:
  "\<exists>w' p. (payment_step lnd_settings)\<^sup>*\<^sup>* paying_world w' \<and> p \<in> set (payments (wdb w')) \<and> is_open (pay_status p) \<and>
    (\<exists>due \<ge> 0. check_billing_snapshot p = Inr due)"
proof -
  let ?w = "snd (create_payment lnd_settings paying_gateway (\<lambda>_. 0) (seconds 60) id upgrade_payment_request paying_world)"
  have "\<exists>cs. (payment_step lnd_settings)\<^sup>*\<^sup>* v (v\<lparr>wdb := id (wdb v), calls := cs\<rparr>)" for v
    by (rule exI [of _ "calls v"]) simp
  then have run: "(payment_step lnd_settings)\<^sup>*\<^sup>* paying_world ?w" by (intro r_into_rtranclp payment_step.create)
  have sell: "sellable lnd_settings" by code_simp
  have "list_ex (\<lambda>p. is_open (pay_status p)) (payments (wdb ?w))" by code_simp
  then obtain p where p: "p \<in> set (payments (wdb ?w))" "is_open (pay_status p)" by (auto simp: list_ex_iff)
  show ?thesis using payments_stay_sound [OF paying_world_ok sell run p(1) p(1)] run p by blast
qed

end
