(* ===== verification/Assignment_Safety.thy ===== *)
theory Assignment_Safety
  imports Payment_Creation
begin

text \<open>
  Assignments of addresses and sockets over histories: every operation of \<open>payment_step\<close>, with other sessions
  committing in the middle of a payment, keeps the unique indexes and draws what it assigns from the configured
  inventory. The relation \<open>fair_run\<close> is another instance of the locale \<open>order_run\<close>; the reservation, the one
  transaction that assigns a resource, is treated on its own.
\<close>

section \<open>Fair assignments\<close>

text \<open>Assignments come from the configured inventory: shared addresses for ports, dedicated ones for addresses.\<close>

definition assigned_from_inventory :: "settings \<Rightarrow> database \<Rightarrow> bool" where
  "assigned_from_inventory cfg db \<longleftrightarrow> (\<forall>s \<in> set (subscriptions db). \<forall>a. assigned_ip s = Some a \<longrightarrow>
     (product s = PORT \<longrightarrow> a \<in> set (relay_shared_ips_list cfg)) \<and>
     (product s = IP \<longrightarrow> a \<in> set (relay_public_ips_list cfg) \<union> set (wireguard_public_ips_list cfg)))"

definition fair :: "settings \<Rightarrow> database \<Rightarrow> bool" where
  "fair cfg db \<longleftrightarrow> tables_distinct db \<and> names_exclusive db \<and> subscription_indexes (subscriptions db) \<and>
     assigned_from_inventory cfg db"

text \<open>No row is deleted or changes its product.\<close>

definition kinds_kept :: "database \<Rightarrow> database \<Rightarrow> bool" where
  "kinds_kept db db' \<longleftrightarrow> (\<forall>i s. get_subscription db i = Some s \<longrightarrow>
     (\<exists>s'. get_subscription db' i = Some s' \<and> product s' = product s))"

definition fair_step :: "settings \<Rightarrow> database \<Rightarrow> database \<Rightarrow> bool" where
  "fair_step cfg db db' \<longleftrightarrow> (fair cfg db \<longrightarrow> fair cfg db' \<and> kinds_kept db db')"

definition fair_run :: "settings \<Rightarrow> world \<Rightarrow> world \<Rightarrow> bool" where
  "fair_run cfg w w' \<longleftrightarrow> fair_step cfg (wdb w) (wdb w')"

lemma kinds_kept_refl [simp]: "kinds_kept db db"
  by (simp add: kinds_kept_def)

lemma kinds_kept_trans: "kinds_kept a b \<Longrightarrow> kinds_kept b c \<Longrightarrow> kinds_kept a c"
  unfolding kinds_kept_def by metis

lemma fair_step_refl [simp]: "fair_step cfg db db"
  by (simp add: fair_step_def)

lemma fair_step_trans: "fair_step cfg a b \<Longrightarrow> fair_step cfg b c \<Longrightarrow> fair_step cfg a c"
  unfolding fair_step_def using kinds_kept_trans by blast

lemma get_rows_list_all2:
  assumes "distinct (map key xs)" and "map key ys = map key xs" and "\<And>k. rel_option P (get_row key k xs) (get_row key k ys)"
  shows "list_all2 P xs ys"
proof (rule list_all2_all_nthI)
  show len: "length xs = length ys" using assms(2) by (metis length_map)
  fix n assume n: "n < length xs"
  have "key (ys ! n) = key (xs ! n)" using assms(2) n len by (metis nth_map)
  moreover have "get_row key (key (xs ! n)) xs = Some (xs ! n)" using get_row_unique [OF assms(1)] n by simp
  moreover have "get_row key (key (ys ! n)) ys = Some (ys ! n)"
    using get_row_unique [of key ys "ys ! n"] assms(1,2) n len by simp
  ultimately show "P (xs ! n) (ys ! n)" using assms(3) [of "key (xs ! n)"] by simp
qed

lemma holds_fair:
  assumes names: "names_shrink db db'" and hold: "\<And>i. rel_option hold_kept (get_subscription db i) (get_subscription db' i)"
  shows "fair_step cfg db db'"
  unfolding fair_step_def
proof (intro impI conjI)
  assume ok: "fair cfg db"
  have d: "tables_distinct db" "distinct (map sub_id (subscriptions db))" using ok by (simp_all add: fair_def tables_distinct_def)
  have "rel_option (\<lambda>s s'. name_shrunk s s' \<and> hold_kept s s') (get_subscription db i) (get_subscription db' i)" for i
    using hold [of i] names unfolding names_shrink_def by (cases "get_subscription db i"; cases "get_subscription db' i") (auto dest!: spec [of _ i])
  then have rows: "list_all2 (\<lambda>s s'. name_shrunk s s' \<and> hold_kept s s') (subscriptions db) (subscriptions db')"
    using d(2) names unfolding names_shrink_def get_subscription_def by (intro get_rows_list_all2) auto
  have "distinct (map sub_id (subscriptions db'))" using names d(2) by (simp add: names_shrink_def)
  moreover have "unique_on port_tuple (subscriptions db')" "unique_on dedicated_ip (subscriptions db')"
    "unique_on domain (subscriptions db')" "unique_on upgrade_from_subscription_id (subscriptions db')"
    by (rule unique_on_kept [OF rows];
        use ok in \<open>auto simp: fair_def subscription_indexes_def name_shrunk_def hold_kept_def port_tuple_def dedicated_ip_def split: option.splits\<close>)+
  ultimately have idx: "subscription_indexes (subscriptions db')" by (simp add: subscription_indexes_def)
  have "(product s' = PORT \<longrightarrow> a \<in> set (relay_shared_ips_list cfg)) \<and>
     (product s' = IP \<longrightarrow> a \<in> set (relay_public_ips_list cfg) \<union> set (wireguard_public_ips_list cfg))"
    if s': "s' \<in> set (subscriptions db')" and a: "assigned_ip s' = Some a" for s' a
  proof -
    obtain n where n: "n < length (subscriptions db')" "s' = subscriptions db' ! n" using s' by (auto simp: in_set_conv_nth)
    then have "name_shrunk (subscriptions db ! n) s'" "hold_kept (subscriptions db ! n) s'" "subscriptions db ! n \<in> set (subscriptions db)"
      using list_all2_nthD2 [OF rows n(1)] list_all2_lengthD [OF rows] by simp_all
    then show ?thesis using ok a by (auto simp: fair_def assigned_from_inventory_def name_shrunk_def hold_kept_def)
  qed
  then show "fair cfg db'"
    using idx ok tables_distinct_shrink [OF d(1) names] names_exclusive_shrink [OF _ names]
    by (auto simp: fair_def assigned_from_inventory_def)
  show "kinds_kept db db'"
    using names unfolding names_shrink_def kinds_kept_def by (metis name_shrunk_def option_rel_Some1)
qed

section \<open>Settlements and maintenance\<close>

lemma finalize_holds:
  assumes d: "distinct (map pay_id (payments db))" and run: "finalize_tx cfg seal now n PENDING v db = Inr db'"
  shows "rel_option hold_kept (get_subscription db i) (get_subscription db' i)"
proof (cases "\<exists>p. get_payment db n = Some p \<and> pay_status p = PENDING")
  case False
  then show ?thesis using run finalize_tx_noop [OF d] by (simp add: option.rel_refl)
next
  case True
  then obtain p where p: "get_payment db n = Some p" "pay_status p = PENDING" by blast
  let ?p = "(paid now v p)\<lparr>pay_status := PAID\<rparr>" and ?db1 = "marked_paid now v n db"
  have grant: "grant_period cfg seal now ?p ?db1 = Inr db'" using run by (simp add: finalize_tx_pending [OF d p])
  then obtain s where s1: "get_subscription ?db1 (pay_subscription_id ?p) = Some s"
    by (auto simp: grant_period_def split: sum.splits option.splits)
  have get1: "get_subscription ?db1 k = get_subscription db k" for k by (simp add: get_subscription_def marked_paid_def)
  note res = grant_period_result [OF grant s1]
  obtain pool where granted: "get_subscription db' (sub_id s) = Some (granted now ?p pool s)" using res by blast
  have id: "get_subscription db (sub_id s) = Some s" using s1 get_subscription_id [OF s1] by (simp add: get1)
  show ?thesis
  proof (cases "i = sub_id s")
    case True
    then show ?thesis using granted id
      by (simp add: hold_kept_def granted_def renewed_def activated_def billed_def)
  next
    case False
    then have "get_subscription db' i = (if is_upgrade_initial s \<and> upgrade_from_subscription_id s = Some i
       then map_option (source_cancelled now) (get_subscription db i) else get_subscription db i)"
      using res by (simp add: get1)
    then show ?thesis
      by (cases "get_subscription db i") (auto simp: hold_kept_def source_cancelled_def)
  qed
qed

lemma quiet_fair: "quiet db db' \<Longrightarrow> fair_step cfg db db'"
proof (rule holds_fair)
  assume q: "quiet db db'"
  then show "names_shrink db db'" using db_kept_shrink quiet_kept by blast
  have "sub_quiet s s' \<Longrightarrow> hold_kept s s'" for s s'
    using sub_quietD [of s s'] by (auto simp: hold_kept_def sub_quiet_def)
  then show "rel_option hold_kept (get_subscription db i) (get_subscription db' i)" for i
    using q unfolding quiet_def quiet_subs_def by (metis option.rel_mono_strong)
qed

lemma finalize_fair:
  assumes "finalize_tx cfg' seal now n PENDING v db = Inr db'" shows "fair_step cfg db db'"
  unfolding fair_step_def
proof
  assume ok: "fair cfg db"
  then have d: "distinct (map pay_id (payments db))" by (simp add: fair_def tables_distinct_def)
  have "fair_step cfg db db'"
    by (rule holds_fair [OF db_kept_shrink [OF finalize_kept [OF d assms]] finalize_holds [OF d assms]])
  then show "fair cfg db' \<and> kinds_kept db db'" using ok by (simp add: fair_step_def)
qed

interpretation fairness: order_run cfg gw now "fair_run cfg" for cfg gw now
proof
  show "fair_run cfg w w" for w by (simp add: fair_run_def)
  show "fair_run cfg u v \<Longrightarrow> fair_run cfg v w \<Longrightarrow> fair_run cfg u w" for u v w
    unfolding fair_run_def by (rule fair_step_trans)
  show "payment_tx cfg gw now (wdb w) db' \<Longrightarrow> fair_run cfg w (w\<lparr>wdb := db'\<rparr>)" for w db'
    unfolding fair_run_def by (erule payment_tx_quiet) (auto intro: quiet_fair finalize_fair fair_step_trans)
  show "row_tx (wdb w) db' \<Longrightarrow> fair_run cfg w (w\<lparr>wdb := db'\<rparr>)" for w db'
    by (simp add: fair_run_def row_tx_def rows_only_def holds_fair)
qed (auto simp: fair_run_def intro: quiet_fair dest: quiet_sends)

section \<open>Orders\<close>

lemma add_row_fair:
  assumes ok: "fair cfg db" and subs: "subscriptions db' = subscriptions db @ [sub]" and idx: "subscription_indexes (subscriptions db')"
    and pays: "payments db' = payments db" and free: "assigned_ip sub = None" and names: "names_exclusive db'"
  shows "fair cfg db' \<and> kinds_kept db db'"
proof -
  have "get_row sub_id i (ss @ [sub]) = (case get_row sub_id i ss of Some s \<Rightarrow> Some s | None \<Rightarrow> if sub_id sub = i then Some sub else None)" for i ss
    by (induction ss) (auto simp: get_row_def)
  then have "kinds_kept db db'" by (auto simp: kinds_kept_def get_subscription_def subs)
  moreover have "tables_distinct db'" using ok idx pays by (simp add: fair_def tables_distinct_def subscription_indexes_def)
  moreover have "assigned_from_inventory cfg db'" using ok free by (auto simp: fair_def assigned_from_inventory_def subs)
  ultimately show ?thesis using idx names by (simp add: fair_def)
qed

lemma place_order_fair:
  assumes chk: "check_order cfg' env req = Inr c" and ex: "req_exclude req = None"
  shows "fair_step cfg db (snd (place_order cfg' env now id uid req c db))"
  unfolding fair_step_def
proof
  assume ok: "fair cfg db"
  let ?w = "\<lparr>wdb = db, calls = []\<rparr>"
  obtain r db' where run: "place_order cfg' env now id uid req c db = (r, db')" by (rule prod.exhaust)
  have "names_ok ?w" using ok by (simp add: fair_def names_ok_def)
  then have names: "names_exclusive db'" using place_order_names [OF _ chk ex, of ?w now uid] run by (simp add: names_ok_def)
  have "fair cfg db' \<and> kinds_kept db db'"
  proof (cases r)
    case (Inl e)
    then have "db' = db" using run by (auto simp: place_order_def insert_order_def Let_def split: sum.splits if_splits)
    then show ?thesis using ok by simp
  next
    case (Inr sub)
    have run': "place_order cfg' env now id uid req c db = (Inr sub, db')" using run Inr by simp
    then obtain ch where sub: "sub = new_subscription cfg' env now uid req c ch (next_id db)"
      and db': "db' = db\<lparr>subscriptions := subscriptions db @ [sub], next_id := next_id db + 1\<rparr>"
      and idx: "subscription_indexes (subscriptions db @ [sub])" by (elim place_order_result)
    have "assigned_ip sub = None" by (simp add: sub new_subscription_def)
    then show ?thesis by (intro add_row_fair [OF ok, of db' sub] names) (use idx in \<open>simp_all add: db'\<close>)
  qed
  then show "fair cfg (snd (place_order cfg' env now id uid req c db)) \<and> kinds_kept db (snd (place_order cfg' env now id uid req c db))"
    by (simp add: run)
qed

lemma upgrade_tx_fair: "fair_step cfg db (snd (upgrade_tx cfg' env now id uid source_id term db))"
  unfolding fair_step_def
proof
  assume ok: "fair cfg db"
  let ?w = "\<lparr>wdb = db, calls = []\<rparr>"
  have d: "distinct (map sub_id (subscriptions db))" using ok by (simp add: fair_def tables_distinct_def)
  obtain r db' where run: "upgrade_tx cfg' env now id uid source_id term db = (r, db')" by (rule prod.exhaust)
  have "names_ok ?w" using ok by (simp add: fair_def names_ok_def)
  then have names: "names_exclusive db'" using upgrade_tx_names [of ?w cfg' env now uid source_id "term"] run by (simp add: names_ok_def)
  have "fair cfg db' \<and> kinds_kept db db'"
  proof (cases r)
    case (Inl e)
    then have "db' = db"
      using run by (auto simp: upgrade_tx_def place_order_def insert_order_def Let_def
          split: sum.splits if_splits option.splits prod.splits)
    then show ?thesis using ok by simp
  next
    case (Inr target)
    have "upgrade_tx cfg' env now id uid source_id term db = (Inr target, db')" using run Inr by simp
    from upgrade_tx_result [OF d this] obtain source req c t where
      place: "place_order cfg' env now id uid req c db =
        (Inr t, db\<lparr>subscriptions := subscriptions db @ [t], next_id := next_id db + 1\<rparr>)"
      and target: "target = upgrade_linked now source term t"
      and db': "db' = db\<lparr>subscriptions := subscriptions db @ [target], next_id := next_id db + 1\<rparr>"
      and idx: "subscription_indexes (subscriptions db')" by metis
    have "assigned_ip t = None" using place by (elim place_order_result) (simp add: new_subscription_def)
    then have "assigned_ip target = None" by (simp add: target upgrade_linked_def)
    then show ?thesis by (intro add_row_fair [OF ok, of db' target] names idx) (simp_all add: db')
  qed
  then show "fair cfg (snd (upgrade_tx cfg' env now id uid source_id term db)) \<and>
      kinds_kept db (snd (upgrade_tx cfg' env now id uid source_id term db))" by (simp add: run)
qed

lemma keeps_tx:
  assumes "fairness.keeps cfg m" and "\<And>db. fair_step cfg db (snd (f db))"
  shows "fairness.keeps cfg (andthen m (\<lambda>_ v. case f (wdb v) of (r, db) \<Rightarrow> (r, v\<lparr>wdb := db\<rparr>)))"
proof (intro fairness.keeps_andthen assms(1) fairness.keepsI)
  show "fair_run cfg w (snd (case f (wdb w) of (r, db) \<Rightarrow> (r, w\<lparr>wdb := db\<rparr>)))" for w
    using assms(2) [of "wdb w"] by (cases "f (wdb w)") (simp add: fair_run_def)
qed

lemma keeps_create_subscription:
  assumes "req_exclude req = None" shows "fairness.keeps cfg (create_subscription cfg env gw now id uid req)"
proof (cases "check_order cfg env req")
  case (Inr c)
  have "fairness.keeps cfg (if req_product req = RELAY then reap_expired_domain_claims cfg gw now else return 0)"
    by (simp add: fairness.keeps_reap fairness.keeps_return)
  from keeps_tx [OF this place_order_fair [OF Inr assms]] show ?thesis using Inr by (simp only: create_subscription_def sum.case)
next
  case (Inl e)
  then show ?thesis by (simp add: create_subscription_def fairness.keeps_raise)
qed

lemma keeps_create_upgrade: "fairness.keeps cfg (create_wildcard_upgrade cfg env gw now id uid source_id term)"
  unfolding create_wildcard_upgrade_def by (rule keeps_tx [OF fairness.keeps_reap upgrade_tx_fair])

lemma order_step_fair: "order_step cfg w w' \<Longrightarrow> fair_run cfg w w'"
  by (induction rule: order_step.induct)
    (rule fairness.keepsD, rule fairness.keeps_check_and_settle fairness.keeps_reap fairness.keeps_verify fairness.keeps_cancel
      fairness.keeps_holds keeps_create_subscription keeps_create_upgrade, simp?)+

section \<open>Reservations\<close>

definition known :: "database \<Rightarrow> subscription \<Rightarrow> bool" where
  "known db sub \<longleftrightarrow> (\<exists>s. get_subscription db (sub_id sub) = Some s \<and> product s = product sub)"

lemma known_kept: "known db sub \<Longrightarrow> kinds_kept db db' \<Longrightarrow> known db' sub"
  unfolding known_def kinds_kept_def by metis

lemma known_refresh: "known db sub \<Longrightarrow> known db (refresh db sub)"
  using get_subscription_id [of db "sub_id sub"] by (auto simp: known_def refresh_def)

text \<open>The pool of the product: what a reservation may hand out.\<close>

definition pool_of :: "settings \<Rightarrow> product_type \<Rightarrow> string set" where
  "pool_of cfg k = (case k of PORT \<Rightarrow> set (relay_shared_ips_list cfg)
     | IP \<Rightarrow> set (relay_public_ips_list cfg) \<union> set (wireguard_public_ips_list cfg) | RELAY \<Rightarrow> {})"

lemma reserve_candidate_fair:
  assumes run: "reserve_candidate cfg now sub pid c db = Inr db'" and known: "known db sub" and kind: "product sub \<noteq> RELAY"
    and c: "fst c \<in> pool_of cfg (product sub)"
  shows "fair_step cfg db db'"
  unfolding fair_step_def
proof
  assume ok: "fair cfg db"
  let ?f = "resource_reserved cfg now pid (fst c) (snd c)"
  have subs: "subscriptions db' = update_where (\<lambda>s. sub_id s = sub_id sub) ?f (subscriptions db)"
    and idx: "subscription_indexes (subscriptions db')" 
    using run by (auto simp: reserve_candidate_def reserve_def Let_def set_subscription_def split: if_splits)
  have names: "names_shrink db db'" using reserve_candidate_rows [OF run] by (simp add: rows_only_def)
  have d: "distinct (map sub_id (subscriptions db))" using ok by (simp add: fair_def tables_distinct_def)
  obtain s0 where s0: "get_subscription db (sub_id sub) = Some s0" "product s0 = product sub" using known by (auto simp: known_def)
  have "(product s' = PORT \<longrightarrow> a \<in> set (relay_shared_ips_list cfg)) \<and>
     (product s' = IP \<longrightarrow> a \<in> set (relay_public_ips_list cfg) \<union> set (wireguard_public_ips_list cfg))"
    if s': "s' \<in> set (subscriptions db')" and a: "assigned_ip s' = Some a" for s' a
  proof -
    from s' obtain s where s: "s \<in> set (subscriptions db)" "s' = (if sub_id s = sub_id sub then ?f s else s)"
      unfolding subs by (auto simp: update_where_def)
    show ?thesis
    proof (cases "sub_id s = sub_id sub")
      case True
      then have "s = s0" using get_row_unique [OF d s(1)] s0(1) by (simp add: get_subscription_def)
      then have "a = fst c" "product s' = product sub" using a s True s0(2) by (simp_all add: resource_reserved_def)
      then show ?thesis using c by (simp add: pool_of_def split: product_type.splits)
    next
      case False
      then show ?thesis using ok s a by (auto simp: fair_def assigned_from_inventory_def)
    qed
  qed
  then have "assigned_from_inventory cfg db'" by (auto simp: assigned_from_inventory_def)
  then have "fair cfg db'"
    using ok idx names tables_distinct_shrink names_exclusive_shrink unfolding fair_def by blast
  moreover have "kinds_kept db db'"
    using names unfolding names_shrink_def kinds_kept_def by (metis name_shrunk_def option_rel_Some1)
  ultimately show "fair cfg db' \<and> kinds_kept db db'" ..
qed

lemma try_candidates_fair:
  assumes "try_candidates cfg now sub pid msg cs db = Inr db'" and "known db sub" and "product sub \<noteq> RELAY"
    and "\<forall>c \<in> set cs. fst c \<in> pool_of cfg (product sub)"
  shows "fair_step cfg db db'"
  using assms by (induction cs) (auto split: sum.splits if_splits intro: reserve_candidate_fair)

lemma claim_hold_fair: "claim_hold now sub db = Inr db' \<Longrightarrow> fair_step cfg db db'"
proof -
  assume run: "claim_hold now sub db = Inr db'"
  then obtain p where "subscriptions db' = update_where p (\<lambda>r. r\<lparr>sub_updated_at := now\<rparr>) (subscriptions db)"
    "payments db' = payments db" "agent_orders db' = agent_orders db"
    by (auto simp: claim_hold_def Let_def split: if_splits)
  then have "row_tx db db'" by (rule row_tx_update) (simp add: row_shrunk_defs)
  then show "fair_step cfg db db'" by (simp add: row_tx_def rows_only_def holds_fair)
qed

lemma reserve_fair:
  assumes run: "reserve_subscription_resource cfg rnd now sub pid db = Inr (b, db')" and known: "known db sub"
  shows "fair_step cfg db db'"
proof (cases "sub_status sub = SubACTIVE \<or> product sub = RELAY")
  case True
  then show ?thesis using run by (simp add: reserve_subscription_resource_def)
next
  case False
  let ?ips = "if delivery sub = WIREGUARD then wireguard_public_ips_list cfg else relay_public_ips_list cfg"
  let ?ports = "shared_port_range cfg (transport sub)"
  consider "claim_hold now sub db = Inr db'"
    | "product sub = IP" "try_candidates cfg now sub pid ''no Blindport IP capacity'' (map (\<lambda>ip. (ip, None)) ?ips) db = Inr db'"
    | start where "product sub = PORT"
        "try_candidates cfg now sub pid ''no Blindport Port capacity'' (socket_candidates (relay_shared_ips_list cfg) ?ports start) db = Inr db'"
    using run False unfolding reserve_subscription_resource_def Let_def
    by (cases "product sub") (simp_all add: map_sum_Inr split: if_splits, blast+)
  then show ?thesis
  proof cases
    case 1
    then show ?thesis by (rule claim_hold_fair)
  next
    case 2
    show ?thesis by (rule try_candidates_fair [OF 2(2) known]) (use False 2(1) in \<open>auto simp: pool_of_def\<close>)
  next
    case 3
    show ?thesis
      by (rule try_candidates_fair [OF 3(2) known]) (use False 3(1) in \<open>auto simp: pool_of_def set_socket_candidates\<close>)
  qed
qed

section \<open>Payments\<close>

lemma payments_fair:
  assumes "subscriptions db' = subscriptions db" and "distinct (map pay_id (payments db'))"
  shows "fair_step cfg db db'"
proof -
  have get: "get_subscription db' i = get_subscription db i" for i by (simp add: get_subscription_def assms(1))
  have "names_exclusive db' = names_exclusive db" unfolding names_exclusive_def get ..
  then show ?thesis
    using assms by (simp add: fair_step_def fair_def tables_distinct_def assigned_from_inventory_def kinds_kept_def get)
qed

lemma insert_payment_fair: "insert_payment row db = Inr (p, db') \<Longrightarrow> fair_step cfg db db' \<and> (known db sub \<longrightarrow> known db' sub)"
  by (auto simp: insert_payment_def Let_def payment_indexes_def known_def get_subscription_def split: if_splits intro!: payments_fair)

lemma stage_payment_fair:
  assumes run: "stage_payment_tx cfg gw rnd now req t sub db = Inr (p, db')" and known: "known db sub"
  shows "fair_step cfg db db'"
proof -
  from run obtain q db1 b db2 where ins: "insert_payment (new_payment cfg now req t sub) db = Inr (q, db1)"
    and res: "reserve_subscription_resource cfg rnd now sub (pay_id q) db1 = Inr (b, db2)"
    and db': "db' = set_payment (pay_id q) (\<lambda>_. p) db2" and idx: "payment_indexes (payments db')"
    by (auto simp: stage_payment_tx_def Let_def split: sum.splits if_splits)
  have one: "fair_step cfg db db1" "known db1 sub" using insert_payment_fair [OF ins] known by blast+
  have "fair_step cfg db2 db'" by (rule payments_fair) (use idx in \<open>simp_all add: db' set_payment_def payment_indexes_def\<close>)
  then show ?thesis using fair_step_trans [OF one(1) fair_step_trans [OF reserve_fair [OF res one(2)]]] by blast
qed

lemma credited_upgrade_fair:
  assumes run: "credited_upgrade_tx cfg gw rnd now initial req t sub db = Inr (p, db')" and known: "known db sub"
  shows "fair_step cfg db db'"
proof -
  from run obtain db1 b db2 where ins: "insert_payment (new_payment cfg now req t sub) db = Inr (p, db1)"
    and res: "reserve_subscription_resource cfg rnd now sub (pay_id p) db1 = Inr (b, db2)"
    and fin: "finalize_tx cfg (seal_identity gw) now (pay_id p) PENDING None db2 = Inr db'"
    by (auto simp: credited_upgrade_tx_def map_sum_Inr split: sum.splits if_splits)
  have one: "fair_step cfg db db1" "known db1 sub" using insert_payment_fair [OF ins] known by blast+
  then show ?thesis
    using fair_step_trans [OF one(1) fair_step_trans [OF reserve_fair [OF res one(2)] finalize_fair [OF fin]]] by blast
qed

lemma commit_payment_fair: "(\<And>p db. r = Inr (p, db) \<Longrightarrow> fair_step cfg (wdb w) db) \<Longrightarrow> fair_run cfg w (snd (commit_payment r w))"
  by (auto simp: commit_payment_def fair_run_def fairness.snd_reload split: sum.splits)

lemma open_payment_fair:
  assumes known: "known (wdb w) sub"
  shows "fair_run cfg w (snd (open_payment cfg gw rnd now initial req t sub w))"
proof -
  have rest: "fairness.keeps cfg (\<lambda>v. andthen (ensure_lightning_invoice cfg gw now p)
      (\<lambda>q. if pr_method req = NWC then reconcile_nwc_payment cfg gw now (finalize_payment 1 cfg gw now) q
           else if pr_method req = CLINK then reconcile_clink_payment cfg gw now (finalize_payment 1 cfg gw now) q
           else return q) v)" for p
    by (intro fairness.keeps_andthen fairness.keeps_ensure_lightning fairness.keeps_if fairness.keeps_reconcile_nwc
        fairness.keeps_reconcile_clink fairness.keeps_return allI fairness.keeps_finalize)
  have seq: "fair_run cfg w (snd (andthen m k w))" if "fair_run cfg w (snd (m w))" "\<And>x. fairness.keeps cfg (k x)"
    for m :: "payment comp" and k :: "payment \<Rightarrow> payment comp"
    using that fairness.keepsD [OF that(2)] by (cases "m w") (auto simp: andthen_def split: sum.splits intro: fairness.R_trans)
  have "fair_run cfg w (snd (commit_payment (stage_payment_tx cfg gw rnd now req t sub (wdb w)) w))"
    by (rule commit_payment_fair) (rule stage_payment_fair [OF _ known])
  note staged = seq [of "commit_payment (stage_payment_tx cfg gw rnd now req t sub (wdb w))", OF this rest]
  have "fair_run cfg w (snd (commit_payment (credited_upgrade_tx cfg gw rnd now initial req t sub (wdb w)) w))"
    by (rule commit_payment_fair) (rule credited_upgrade_fair [OF _ known])
  then show ?thesis using staged by (simp add: open_payment_def)
qed

lemma keeps_linked: "fairness.keeps cfg (linked_payment cfg gw now req term p)"
  unfolding linked_payment_def
  by (intro fairness.keeps_if fairness.keeps_raise fairness.keeps_return fairness.keeps_check_and_settle)

lemma keeps_conflict: "fairness.keeps cfg (after_conflict cfg gw now req term)"
  by (rule fairness.keepsI) (simp add: after_conflict_def raise_def fairness.R_refl fairness.keepsD keeps_linked
      fairness.keeps_check_and_settle split: option.splits list.splits)

lemma keeps_existing: "fairness.keeps cfg (reconcile_existing cfg gw now req term ps)"
  by (induction ps) (auto intro!: fairness.keeps_andthen fairness.keeps_if fairness.keeps_raise fairness.keeps_return
      fairness.keeps_check_and_settle)

lemma open_or_resolve_fair:
  assumes rac: "\<And>db. fair_step cfg db (racing db)" and known: "known (wdb w) sub"
  shows "fair_run cfg w (snd (open_or_resolve cfg gw rnd now racing initial req t sub w))"
  unfolding fair_run_def fair_step_def
proof
  assume ok: "fair cfg (wdb w)"
  let ?w = "w\<lparr>wdb := racing (wdb w)\<rparr>"
  have first: "fair_run cfg w ?w" using rac by (simp add: fair_run_def)
  have "known (wdb ?w) sub" using known_kept [OF known] rac [of "wdb w"] ok by (simp add: fair_step_def)
  then have opened: "fair_run cfg w (snd (open_payment cfg gw rnd now initial req t sub ?w))"
    using fairness.R_trans [OF first open_payment_fair] by blast
  obtain r and v :: world where v: "open_payment cfg gw rnd now initial req t sub ?w = (r, v)" by (rule prod.exhaust)
  have "fair_run cfg w v" "fair_run cfg w (snd (after_conflict cfg gw now req (pt_term t) v))"
    using opened v fairness.R_trans [OF _ fairness.keepsD [OF keeps_conflict]] by auto
  then have "fair_run cfg w (snd (open_or_resolve cfg gw rnd now racing initial req t sub w))"
    using v by (auto simp: open_or_resolve_def split: sum.splits)
  then show "fair cfg (wdb (snd (open_or_resolve cfg gw rnd now racing initial req t sub w))) \<and>
      kinds_kept (wdb w) (wdb (snd (open_or_resolve cfg gw rnd now racing initial req t sub w)))"
    using ok by (simp add: fair_run_def fair_step_def)
qed

lemma price_and_open_fair:
  assumes rac: "\<And>db. fair_step cfg db (racing db)" and known: "known (wdb w) sub"
  shows "fair_run cfg w (snd (price_and_open cfg gw rnd now racing initial req tm sub w))"
  using open_or_resolve_fair [OF rac known_refresh [OF known]]
  by (simp add: price_and_open_def raise_def Let_def fairness.R_refl split: option.splits sum.splits)

lemma fair_runI: "(fair cfg (wdb w) \<Longrightarrow> fair_run cfg w w') \<Longrightarrow> fair_run cfg w w'"
  by (auto simp: fair_run_def fair_step_def)

lemma fair_run_known: "fair_run cfg w w' \<Longrightarrow> fair cfg (wdb w) \<Longrightarrow> known (wdb w) sub \<Longrightarrow> known (wdb w') sub"
  using known_kept by (auto simp: fair_run_def fair_step_def)

lemma fresh_payment_fair:
  assumes rac: "\<And>db. fair_step cfg db (racing db)" and known: "known (wdb w) sub"
  shows "fair_run cfg w (snd (fresh_payment cfg gw rnd now racing initial req tm sub w))"
proof (rule fair_runI)
  assume ok: "fair cfg (wdb w)"
  have tail: "fair_run cfg w (snd (andthen (reap_elapsed_resource_holds cfg gw now)
      (\<lambda>_. price_and_open cfg gw rnd now racing initial req tm s) (w\<lparr>wdb := db\<rparr>)))"
    if rows: "row_tx (wdb w) db" and s: "known (wdb w) s" for db s
  proof -
    obtain x and u :: world where u: "reap_elapsed_resource_holds cfg gw now (w\<lparr>wdb := db\<rparr>) = (x, u)" by (rule prod.exhaust)
    have run: "fair_run cfg w u"
      using fairness.R_trans [OF fairness.R_rows [OF rows] fairness.keepsD [OF fairness.keeps_holds [of cfg gw now]]] u by simp
    then have "fair_run cfg w (snd (price_and_open cfg gw rnd now racing initial req tm s u))"
      by (rule fairness.R_trans) (rule price_and_open_fair [OF rac fair_run_known [OF run ok s]])
    then show ?thesis using run u by (cases x) (simp_all add: andthen_def)
  qed
  show "fair_run cfg w (snd (fresh_payment cfg gw rnd now racing initial req tm sub w))"
    using tail [OF expire_elapsed_rows known_refresh [OF known]]
    by (auto simp: fresh_payment_def account_checks_def Let_def raise_def fairness.R_refl split: sum.splits option.splits if_splits)
qed

lemma create_payment_fair:
  assumes rac: "\<And>db. fair_step cfg db (racing db)"
  shows "fair_run cfg w (snd (create_payment cfg gw rnd now racing req w))"
proof -
  let ?flow = "\<lambda>tm initial sub v. andthen (reconcile_existing cfg gw now req tm (open_payments (wdb v) (sub_id sub)))
    (\<lambda>existing. case existing of Some p \<Rightarrow> return p
       | None \<Rightarrow> fresh_payment cfg gw rnd now racing initial req tm sub) v"
  have flow: "fair_run cfg v (snd (?flow tm initial sub v))" if sub: "get_subscription (wdb v) i = Some sub"
    for tm initial sub i and v :: world
  proof (rule fair_runI)
    assume ok: "fair cfg (wdb v)"
    let ?m = "reconcile_existing cfg gw now req tm (open_payments (wdb v) (sub_id sub))"
    obtain x and u :: world where u: "?m v = (x, u)" by (rule prod.exhaust)
    have run: "fair_run cfg v u" using fairness.keepsD [OF keeps_existing, of cfg v gw now req tm] u by (metis snd_conv)
    have "known (wdb v) sub" using sub get_subscription_id [OF sub] by (simp add: known_def)
    then have "fair_run cfg v (snd (fresh_payment cfg gw rnd now racing initial req tm sub u))"
      using fairness.R_trans [OF run fresh_payment_fair [OF rac fair_run_known [OF run ok]]] by blast
    then show "fair_run cfg v (snd (?flow tm initial sub v))"
      using run u by (auto simp: andthen_def return_def split: sum.splits option.splits)
  qed
  obtain x and v :: world where v: "reap_expired_domain_claims cfg gw now w = (x, v)" by (rule prod.exhaust)
  have okv: "fair_run cfg w v" using fairness.keepsD [OF fairness.keeps_reap [of cfg gw now], of w] v by simp
  have flow': "fair_run cfg w (snd (?flow tm initial sub v))" if "get_subscription (wdb v) i = Some sub" for tm initial sub i
    using fairness.R_trans [OF okv flow [OF that]] .
  have linked: "fair_run cfg w (snd (linked_payment cfg gw now req tm p v))" for tm p
    by (rule fairness.R_trans [OF okv fairness.keepsD [OF keeps_linked]])
  show ?thesis
    using okv flow' linked v
    by (auto simp: create_payment_def raise_def fairness.R_refl andthen_def [of "reap_expired_domain_claims cfg gw now"] Let_def
        split: option.splits sum.splits)
qed

section \<open>Histories\<close>

lemma payment_step_fair: "payment_step cfg w w' \<Longrightarrow> fair_run cfg w w'"
proof (induction rule: payment_step.induct)
  case (order w w')
  then show ?case by (rule order_step_fair)
next
  case (create racing w gw rnd now req)
  have run: "fair_run cfg v v'" if "(\<lambda>a b. payment_step cfg a b \<and> fair_run cfg a b)\<^sup>*\<^sup>* v v'" for v v'
    using that by (induction rule: rtranclp_induct) (auto intro: fairness.R_refl fairness.R_trans)
  have "fair_step cfg db (racing db)" for db
  proof -
    let ?v = "\<lparr>wdb = db, calls = []\<rparr>"
    from create.IH [of ?v] obtain cs where
      "(\<lambda>a b. payment_step cfg a b \<and> fair_run cfg a b)\<^sup>*\<^sup>* ?v (?v\<lparr>wdb := racing (wdb ?v), calls := cs\<rparr>)" by (rule exE)
    from run [OF this] show ?thesis by (simp add: fair_run_def)
  qed
  then show ?case by (rule create_payment_fair)
qed

interpretation fair_history: transition_system "payment_step cfg" "\<lambda>w. fair cfg (wdb w)" for cfg
proof
  show "fair cfg (wdb w) \<Longrightarrow> payment_step cfg w w' \<Longrightarrow> fair cfg (wdb w')" for w w'
    using payment_step_fair [of cfg w w'] by (simp add: fair_run_def fair_step_def)
qed

end
