(* ===== verification/Rate_Limits.thy ===== *)
theory Rate_Limits
  imports Prelude
begin

text \<open>
  Fixed-window request limits (\<^verbatim>\<open>services/rate_limits.py\<close>): the process-local limiter for direct
  clients, with its dictionary of buckets and its heap of expirations, and the durable limiter for
  accounts, with its bucket table, its maintenance row and the bounded cleanup. The keyed hash is a
  parameter. A locale states what a fixed-window limiter promises; both limiters interpret it.
\<close>

section \<open>Configuration and windows\<close>

datatype rate_limit_scope =
  SIGNUP | ADMIN_LOGIN | BROWSER_LOGIN | PAYMENT_CREATE | DOMAIN_VERIFY | CLIENT_CERTIFICATE

fun scope_value :: "rate_limit_scope \<Rightarrow> string" where
  "scope_value SIGNUP = ''signup''"
| "scope_value ADMIN_LOGIN = ''admin-login''"
| "scope_value BROWSER_LOGIN = ''browser-login''"
| "scope_value PAYMENT_CREATE = ''payment-create''"
| "scope_value DOMAIN_VERIFY = ''domain-verify''"
| "scope_value CLIENT_CERTIFICATE = ''client-certificate''"

record rate_limit_settings =
  RATE_LIMIT_SIGNUP_REQUESTS :: int
  RATE_LIMIT_SIGNUP_WINDOW_SECONDS :: int
  RATE_LIMIT_ADMIN_LOGIN_REQUESTS :: int
  RATE_LIMIT_ADMIN_LOGIN_WINDOW_SECONDS :: int
  RATE_LIMIT_BROWSER_LOGIN_REQUESTS :: int
  RATE_LIMIT_BROWSER_LOGIN_WINDOW_SECONDS :: int
  RATE_LIMIT_PAYMENT_CREATE_REQUESTS :: int
  RATE_LIMIT_PAYMENT_CREATE_WINDOW_SECONDS :: int
  RATE_LIMIT_DOMAIN_VERIFY_REQUESTS :: int
  RATE_LIMIT_DOMAIN_VERIFY_WINDOW_SECONDS :: int
  RATE_LIMIT_CLIENT_CERT_REQUESTS :: int
  RATE_LIMIT_CLIENT_CERT_WINDOW_SECONDS :: int
  RATE_LIMIT_BUCKET_RETENTION_SECONDS :: int
  RATE_LIMIT_CLEANUP_INTERVAL_SECONDS :: int
  RATE_LIMIT_CLEANUP_BATCH_SIZE :: nat
  RATE_LIMIT_MAX_BUCKETS :: nat

record rate_limit_spec =
  spec_scope :: rate_limit_scope
  spec_requests :: int
  window_seconds :: int

fun spec_for :: "rate_limit_settings \<Rightarrow> rate_limit_scope \<Rightarrow> rate_limit_spec" where
  "spec_for cfg SIGNUP = \<lparr>spec_scope = SIGNUP, spec_requests = RATE_LIMIT_SIGNUP_REQUESTS cfg,
     window_seconds = RATE_LIMIT_SIGNUP_WINDOW_SECONDS cfg\<rparr>"
| "spec_for cfg ADMIN_LOGIN = \<lparr>spec_scope = ADMIN_LOGIN, spec_requests = RATE_LIMIT_ADMIN_LOGIN_REQUESTS cfg,
     window_seconds = RATE_LIMIT_ADMIN_LOGIN_WINDOW_SECONDS cfg\<rparr>"
| "spec_for cfg BROWSER_LOGIN = \<lparr>spec_scope = BROWSER_LOGIN,
     spec_requests = RATE_LIMIT_BROWSER_LOGIN_REQUESTS cfg,
     window_seconds = RATE_LIMIT_BROWSER_LOGIN_WINDOW_SECONDS cfg\<rparr>"
| "spec_for cfg PAYMENT_CREATE = \<lparr>spec_scope = PAYMENT_CREATE,
     spec_requests = RATE_LIMIT_PAYMENT_CREATE_REQUESTS cfg,
     window_seconds = RATE_LIMIT_PAYMENT_CREATE_WINDOW_SECONDS cfg\<rparr>"
| "spec_for cfg DOMAIN_VERIFY = \<lparr>spec_scope = DOMAIN_VERIFY,
     spec_requests = RATE_LIMIT_DOMAIN_VERIFY_REQUESTS cfg,
     window_seconds = RATE_LIMIT_DOMAIN_VERIFY_WINDOW_SECONDS cfg\<rparr>"
| "spec_for cfg CLIENT_CERTIFICATE = \<lparr>spec_scope = CLIENT_CERTIFICATE,
     spec_requests = RATE_LIMIT_CLIENT_CERT_REQUESTS cfg,
     window_seconds = RATE_LIMIT_CLIENT_CERT_WINDOW_SECONDS cfg\<rparr>"

datatype rate_limit_error = RateLimitExceeded int | DirectIdentifierError | BucketConflictError

text \<open>
  \<^verbatim>\<open>int(now.timestamp()) // window * window\<close>: \<^verbatim>\<open>int\<close> truncates towards zero.
\<close>

definition int_timestamp :: "time \<Rightarrow> int" where
  "int_timestamp now = (if 0 \<le> now then floor_seconds now else ceil_seconds now)"

definition window_epoch :: "rate_limit_spec \<Rightarrow> time \<Rightarrow> int" where
  "window_epoch spec now = int_timestamp now div window_seconds spec * window_seconds spec"

definition window_end :: "rate_limit_spec \<Rightarrow> time \<Rightarrow> time" where
  "window_end spec now = seconds (window_epoch spec now) + seconds (window_seconds spec)"

definition direct_client_identifier :: "string option \<Rightarrow> string" where
  "direct_client_identifier host = ''client:'' @ (case host of Some h \<Rightarrow> h | None \<Rightarrow> ''unavailable'')"

definition account_identifier :: "int \<Rightarrow> string" where
  "account_identifier user_id = ''account:'' @ str_int user_id"

section \<open>The limiter for direct clients\<close>

type_synonym direct_key = "string \<times> int \<times> string"

record direct_bucket =
  bucket_window_end :: time
  direct_count :: int

text \<open>
  The dictionary is an association list with distinct keys; the heap is the list of its entries in the
  order they are popped (entries of one deadline are popped together, so their order does not matter).
\<close>

record direct_limiter =
  max_buckets :: nat
  buckets :: "(direct_key \<times> direct_bucket) list"
  expirations :: "(time \<times> direct_key) list"

fun discard_expired ::
  "time \<Rightarrow> (time \<times> direct_key) list \<Rightarrow> (direct_key \<times> direct_bucket) list \<Rightarrow>
    (time \<times> direct_key) list \<times> (direct_key \<times> direct_bucket) list" where
  "discard_expired now [] bs = ([], bs)"
| "discard_expired now ((t, k) # es) bs =
     (if t \<le> now then discard_expired now es (filter (\<lambda>kb. fst kb \<noteq> k) bs) else ((t, k) # es, bs))"

definition direct_message :: "rate_limit_spec \<Rightarrow> int \<Rightarrow> string \<Rightarrow> string" where
  "direct_message spec epoch identifier =
     ''blindport:direct-rate-limit:v1:'' @ scope_value (spec_scope spec) @ '':'' @ str_int epoch @ '':'' @ identifier"

definition direct_key_of :: "(string \<Rightarrow> string) \<Rightarrow> rate_limit_spec \<Rightarrow> string \<Rightarrow> time \<Rightarrow> direct_key" where
  "direct_key_of hmac spec identifier now =
     (scope_value (spec_scope spec), window_epoch spec now,
      hmac (direct_message spec (window_epoch spec now) identifier))"

definition count_request :: "direct_key \<Rightarrow> (direct_key \<times> direct_bucket) list \<Rightarrow> (direct_key \<times> direct_bucket) list" where
  "count_request key bs =
     map (\<lambda>(k, b). (k, if k = key then b\<lparr>direct_count := direct_count b + 1\<rparr> else b)) bs"

definition consume ::
  "(string \<Rightarrow> string) \<Rightarrow> rate_limit_spec \<Rightarrow> string \<Rightarrow> time \<Rightarrow> direct_limiter \<Rightarrow>
    (rate_limit_error + unit) \<times> direct_limiter" where
  "consume hmac spec identifier now lim =
     (let key = direct_key_of hmac spec identifier now;
          (es, bs) = discard_expired now (expirations lim) (buckets lim)
      in if map_of bs key = None \<and> max_buckets lim \<le> length bs then
           (Inl (RateLimitExceeded
              (case es of [] \<Rightarrow> window_seconds spec | (t, k) # es' \<Rightarrow> max 1 (ceil_seconds (t - now)))),
            lim\<lparr>buckets := bs, expirations := es\<rparr>)
         else
           let (es1, bs1) = (if map_of bs key = None
                 then (insort_key fst (window_end spec now, key) es,
                       bs @ [(key, \<lparr>bucket_window_end = window_end spec now, direct_count = 0\<rparr>)])
                 else (es, bs));
               bs2 = count_request key bs1;
               lim2 = lim\<lparr>buckets := bs2, expirations := es1\<rparr>
           in if spec_requests spec < direct_count (the (map_of bs2 key))
              then (Inl (RateLimitExceeded (max 1 (ceil_seconds (window_end spec now - now)))), lim2)
              else (Inr (), lim2))"

section \<open>The durable limiter for accounts\<close>

record rate_limit_bucket =
  rb_id :: int
  rb_scope :: string
  identifier_hash :: string
  window_start :: time
  request_count :: int
  rb_expires_at :: time

record rate_limit_maintenance =
  next_cleanup_at :: time
  bucket_count :: int

text \<open>The bucket table and the one maintenance row, created at the first request.\<close>

record rate_limit_db =
  rl_buckets :: "rate_limit_bucket list"
  rl_maintenance :: "rate_limit_maintenance option"

definition hash_identifier :: "(string \<Rightarrow> string) \<Rightarrow> rate_limit_scope \<Rightarrow> string \<Rightarrow> string" where
  "hash_identifier hmac scope identifier =
     hmac (''blindport:rate-limit:v1:'' @ scope_value scope @ '':'' @ identifier)"

definition stale_ids :: "rate_limit_settings \<Rightarrow> time \<Rightarrow> rate_limit_bucket list \<Rightarrow> int list" where
  "stale_ids cfg now bs =
     map rb_id (take (RATE_LIMIT_CLEANUP_BATCH_SIZE cfg)
       (sort_key rb_expires_at (sort_key rb_id (filter (\<lambda>b. rb_expires_at b \<le> now) bs))))"

definition cleanup_if_due :: "rate_limit_settings \<Rightarrow> time \<Rightarrow> rate_limit_db \<Rightarrow> rate_limit_db" where
  "cleanup_if_due cfg now db =
     (let m = (case rl_maintenance db of Some m \<Rightarrow> m | None \<Rightarrow> \<lparr>next_cleanup_at = now, bucket_count = 0\<rparr>)
      in if next_cleanup_at m \<le> now then
           let stale = stale_ids cfg now (rl_buckets db);
               kept = filter (\<lambda>b. rb_id b \<notin> set stale) (rl_buckets db);
               deleted = int (length (rl_buckets db)) - int (length kept);
               count = (if deleted \<noteq> 0
                        then (if deleted \<le> bucket_count m then bucket_count m - deleted else 0)
                        else bucket_count m)
           in db\<lparr>rl_buckets := kept,
                 rl_maintenance := Some (m\<lparr>
                   next_cleanup_at := now + seconds (RATE_LIMIT_CLEANUP_INTERVAL_SECONDS cfg),
                   bucket_count := count\<rparr>)\<rparr>
         else db\<lparr>rl_maintenance := Some m\<rparr>)"

definition is_bucket :: "rate_limit_spec \<Rightarrow> string \<Rightarrow> time \<Rightarrow> rate_limit_bucket \<Rightarrow> bool" where
  "is_bucket spec h start b =
     (rb_scope b = scope_value (spec_scope spec) \<and> identifier_hash b = h \<and> window_start b = start)"

definition consume_existing_bucket ::
  "rate_limit_spec \<Rightarrow> string \<Rightarrow> time \<Rightarrow> time \<Rightarrow> rate_limit_db \<Rightarrow> int option \<times> rate_limit_db" where
  "consume_existing_bucket spec h start expires db =
     (map_option (\<lambda>b. request_count b + 1) (List.find (is_bucket spec h start) (rl_buckets db)),
      db\<lparr>rl_buckets := update_where (is_bucket spec h start)
        (\<lambda>b. b\<lparr>request_count := request_count b + 1, rb_expires_at := expires\<rparr>) (rl_buckets db)\<rparr>)"

definition reserve_bucket_slot :: "rate_limit_settings \<Rightarrow> rate_limit_db \<Rightarrow> rate_limit_db option" where
  "reserve_bucket_slot cfg db =
     (case rl_maintenance db of
        Some m \<Rightarrow> if bucket_count m < int (RATE_LIMIT_MAX_BUCKETS cfg)
                  then Some (db\<lparr>rl_maintenance := Some (m\<lparr>bucket_count := bucket_count m + 1\<rparr>)\<rparr>) else None
      | None \<Rightarrow> None)"

definition release_bucket_slot :: "rate_limit_db \<Rightarrow> rate_limit_db" where
  "release_bucket_slot db =
     db\<lparr>rl_maintenance := map_option (\<lambda>m. m\<lparr>bucket_count := bucket_count m - 1\<rparr>) (rl_maintenance db)\<rparr>"

text \<open>\<^verbatim>\<open>INSERT ... ON CONFLICT DO NOTHING RETURNING request_count\<close>; \<open>i\<close> is the row id of the sequence.\<close>

definition insert_bucket ::
  "int \<Rightarrow> rate_limit_spec \<Rightarrow> string \<Rightarrow> time \<Rightarrow> time \<Rightarrow> rate_limit_db \<Rightarrow> int option \<times> rate_limit_db" where
  "insert_bucket i spec h start expires db =
     (if list_ex (is_bucket spec h start) (rl_buckets db) then (None, db)
      else (Some 1, db\<lparr>rl_buckets := rl_buckets db @
        [\<lparr>rb_id = i, rb_scope = scope_value (spec_scope spec), identifier_hash = h, window_start = start,
          request_count = 1, rb_expires_at = expires\<rparr>]\<rparr>))"

text \<open>
  \<open>racing\<close> is what another transaction commits between the first update and the reservation of a
  slot; it is the identity when requests do not overlap.
\<close>

definition enforce_rate_limit ::
  "rate_limit_settings \<Rightarrow> (string \<Rightarrow> string) \<Rightarrow> (rate_limit_db \<Rightarrow> rate_limit_db) \<Rightarrow> int \<Rightarrow> rate_limit_spec \<Rightarrow>
    string \<Rightarrow> time \<Rightarrow> rate_limit_db \<Rightarrow> (rate_limit_error + unit) \<times> rate_limit_db" where
  "enforce_rate_limit cfg hmac racing i spec identifier now db =
     (if take 7 identifier = ''client:'' then (Inl DirectIdentifierError, db)
      else
        let start = seconds (window_epoch spec now);
            expires = window_end spec now + seconds (RATE_LIMIT_BUCKET_RETENTION_SECONDS cfg);
            h = hash_identifier hmac (spec_scope spec) identifier;
            decide = (\<lambda>consumed d. (if spec_requests spec < consumed
               then Inl (RateLimitExceeded (max 1 (ceil_seconds (window_end spec now - now)))) else Inr (), d))
        in (case consume_existing_bucket spec h start expires (cleanup_if_due cfg now db) of
              (Some consumed, d) \<Rightarrow> decide consumed d
            | (None, d) \<Rightarrow>
                (case reserve_bucket_slot cfg (racing d) of
                   None \<Rightarrow> (Inl (RateLimitExceeded (RATE_LIMIT_CLEANUP_INTERVAL_SECONDS cfg)), racing d)
                 | Some d1 \<Rightarrow>
                     (case insert_bucket i spec h start expires d1 of
                        (Some consumed, d2) \<Rightarrow> decide consumed d2
                      | (None, d2) \<Rightarrow>
                          (case consume_existing_bucket spec h start expires (release_bucket_slot d2) of
                             (Some consumed, d3) \<Rightarrow> decide consumed d3
                           | (None, d3) \<Rightarrow> (Inl BucketConflictError, db))))))"

section \<open>What a fixed-window limiter promises\<close>

text \<open>
  A client of a limiter issues calls, each with its key (scope, window and identifier) and its clock.
  An admitted call raises the count of its key by one, up to the limit; a refused call does not lower
  it; a call for another key leaves every key alone whose window has not ended.
\<close>

fun admissions :: "('c \<Rightarrow> 's \<Rightarrow> bool \<times> 's) \<Rightarrow> ('c \<Rightarrow> 'k) \<Rightarrow> 'k \<Rightarrow> 'c list \<Rightarrow> 's \<Rightarrow> nat" where
  "admissions run key k [] s = 0"
| "admissions run key k (c # cs) s =
     (if key c = k \<and> fst (run c s) then 1 else 0) + admissions run key k cs (snd (run c s))"

fun after :: "('c \<Rightarrow> 's \<Rightarrow> bool \<times> 's) \<Rightarrow> 'c list \<Rightarrow> 's \<Rightarrow> 's" where
  "after run [] s = s"
| "after run (c # cs) s = after run cs (snd (run c s))"

locale fixed_window =
  fixes run :: "'c \<Rightarrow> 's \<Rightarrow> bool \<times> 's"
    and key :: "'c \<Rightarrow> 'k"
    and clock :: "'c \<Rightarrow> time"
    and ends :: "'k \<Rightarrow> time"
    and limit :: "'k \<Rightarrow> int"
    and count :: "'s \<Rightarrow> 'k \<Rightarrow> int"
    and inv :: "'s \<Rightarrow> bool"
  assumes inv_run: "inv s \<Longrightarrow> inv (snd (run c s))"
    and in_window: "inv s \<Longrightarrow> clock c < ends (key c)"
    and admitted: "inv s \<Longrightarrow> fst (run c s) \<Longrightarrow>
      count (snd (run c s)) (key c) = count s (key c) + 1 \<and> count s (key c) + 1 \<le> limit (key c)"
    and refused: "inv s \<Longrightarrow> \<not> fst (run c s) \<Longrightarrow> count s (key c) \<le> count (snd (run c s)) (key c)"
    and others: "inv s \<Longrightarrow> k \<noteq> key c \<Longrightarrow> clock c < ends k \<Longrightarrow> count (snd (run c s)) k = count s k"
begin

lemma inv_after: "inv s \<Longrightarrow> inv (after run cs s)"
  by (induction cs arbitrary: s) (auto intro: inv_run)

lemma no_later_calls:
  "inv s \<Longrightarrow> \<forall>c \<in> set cs. ends k \<le> clock c \<Longrightarrow> admissions run key k cs s = 0"
proof (induction cs arbitrary: s)
  case (Cons c cs)
  then have "key c \<noteq> k" using in_window [of s c] by fastforce
  then show ?case using Cons by (simp add: inv_run)
qed simp

lemma admissions_bounded:
  "inv s \<Longrightarrow> sorted (map clock cs) \<Longrightarrow> int (admissions run key k cs s) \<le> max 0 (limit k - count s k)"
proof (induction cs arbitrary: s)
  case (Cons c cs)
  let ?s = "snd (run c s)"
  have IH: "int (admissions run key k cs ?s) \<le> max 0 (limit k - count ?s k)"
    using Cons by (simp add: inv_run)
  show ?case
  proof (cases "key c = k")
    case True
    show ?thesis
    proof (cases "fst (run c s)")
      case True
      then show ?thesis using admitted [OF Cons.prems(1) True] IH \<open>key c = k\<close> by auto
    next
      case False
      then show ?thesis using refused [OF Cons.prems(1) False] IH \<open>key c = k\<close> by auto
    qed
  next
    case False
    show ?thesis
    proof (cases "clock c < ends k")
      case True
      then show ?thesis using others [OF Cons.prems(1) _ True] False IH by auto
    next
      case ended: False
      then have "\<forall>c' \<in> set cs. ends k \<le> clock c'" using Cons.prems(2) by fastforce
      then have "admissions run key k cs ?s = 0" by (rule no_later_calls [OF inv_run [OF Cons.prems(1)]])
      then show ?thesis using False by simp
    qed
  qed
qed simp

end

section \<open>The limiters keep the promise\<close>

lemma spec_scope_spec_for [simp]: "spec_scope (spec_for cfg sc) = sc"
  by (cases sc) simp_all

lemma scope_value_inj [simp]: "scope_value a = scope_value b \<longleftrightarrow> a = b"
  by (cases a; cases b) simp_all

lemma int_timestamp_less: "now < seconds (int_timestamp now + 1)"
  unfolding int_timestamp_def clock_simps by (auto; linarith)

lemma now_in_window:
  assumes "0 < window_seconds spec" shows "now < window_end spec now"
proof -
  have "int_timestamp now mod window_seconds spec < window_seconds spec" using assms by simp
  moreover have "window_epoch spec now + int_timestamp now mod window_seconds spec = int_timestamp now"
    by (simp add: window_epoch_def)
  ultimately have "int_timestamp now + 1 \<le> window_epoch spec now + window_seconds spec" by linarith
  then have "seconds (int_timestamp now + 1) \<le> seconds (window_epoch spec now + window_seconds spec)" by simp
  then show ?thesis using int_timestamp_less [of now] by (simp add: window_end_def seconds_def algebra_simps)
qed

text \<open>A call is a scope, an identifier and a clock; its key is the scope, the window and the hash.\<close>

type_synonym window_key = "rate_limit_scope \<times> int \<times> string"
type_synonym rate_call = "rate_limit_scope \<times> string \<times> time"

definition valid_windows :: "rate_limit_settings \<Rightarrow> bool" where
  "valid_windows cfg \<longleftrightarrow> (\<forall>sc. 0 < window_seconds (spec_for cfg sc)) \<and>
     0 \<le> RATE_LIMIT_BUCKET_RETENTION_SECONDS cfg"

fun call_clock :: "rate_call \<Rightarrow> time" where
  "call_clock (sc, ident, now) = now"

fun key_end :: "rate_limit_settings \<Rightarrow> window_key \<Rightarrow> time" where
  "key_end cfg (sc, e, h) = seconds e + seconds (window_seconds (spec_for cfg sc))"

fun key_limit :: "rate_limit_settings \<Rightarrow> window_key \<Rightarrow> int" where
  "key_limit cfg (sc, e, h) = spec_requests (spec_for cfg sc)"

subsection \<open>Direct clients\<close>

fun raw_key :: "window_key \<Rightarrow> direct_key" where
  "raw_key (sc, e, h) = (scope_value sc, e, h)"

fun direct_call_key :: "rate_limit_settings \<Rightarrow> (string \<Rightarrow> string) \<Rightarrow> rate_call \<Rightarrow> window_key" where
  "direct_call_key cfg hmac (sc, ident, now) =
     (let spec = spec_for cfg sc; e = window_epoch spec now in (sc, e, hmac (direct_message spec e ident)))"

fun direct_run :: "rate_limit_settings \<Rightarrow> (string \<Rightarrow> string) \<Rightarrow> rate_call \<Rightarrow> direct_limiter \<Rightarrow> bool \<times> direct_limiter" where
  "direct_run cfg hmac (sc, ident, now) lim =
     (let (res, lim') = consume hmac (spec_for cfg sc) ident now lim in (res = Inr (), lim'))"

definition bucket_value :: "(direct_key \<times> direct_bucket) list \<Rightarrow> direct_key \<Rightarrow> int" where
  "bucket_value bs r = (case map_of bs r of Some b \<Rightarrow> direct_count b | None \<Rightarrow> 0)"

definition direct_value :: "direct_limiter \<Rightarrow> window_key \<Rightarrow> int" where
  "direct_value lim k = bucket_value (buckets lim) (raw_key k)"

definition direct_ok :: "rate_limit_settings \<Rightarrow> direct_limiter \<Rightarrow> bool" where
  "direct_ok cfg lim \<longleftrightarrow> valid_windows cfg \<and> sorted (map fst (expirations lim)) \<and>
     distinct (map fst (buckets lim)) \<and> length (buckets lim) \<le> max_buckets lim \<and>
     fst ` set (buckets lim) \<subseteq> snd ` set (expirations lim) \<and>
     (\<forall>e \<in> set (expirations lim). \<forall>k. snd e = raw_key k \<longrightarrow> fst e = key_end cfg k)"

lemma raw_key_inj [simp]: "raw_key a = raw_key b \<longleftrightarrow> a = b"
  by (cases a; cases b) simp

lemma direct_key_raw: "direct_key_of hmac (spec_for cfg sc) ident now = raw_key (direct_call_key cfg hmac (sc, ident, now))"
  by (simp add: direct_key_of_def Let_def)

lemma call_end: "key_end cfg (direct_call_key cfg hmac (sc, ident, now)) = window_end (spec_for cfg sc) now"
  by (simp add: window_end_def Let_def)

text \<open>What the loop over the heap removes.\<close>

definition expired_keys :: "time \<Rightarrow> (time \<times> direct_key) list \<Rightarrow> direct_key set" where
  "expired_keys now es = snd ` {e \<in> set es. fst e \<le> now}"

lemma discard_expired_eq:
  "sorted (map fst es) \<Longrightarrow> discard_expired now es bs =
     (filter (\<lambda>e. now < fst e) es, filter (\<lambda>kb. fst kb \<notin> expired_keys now es) bs)"
proof (induction now es bs rule: discard_expired.induct)
  case (1 now bs)
  then show ?case by (simp add: expired_keys_def)
next
  case (2 now t k es bs)
  show ?case
  proof (cases "t \<le> now")
    case True
    have "expired_keys now ((t, k) # es) = insert k (expired_keys now es)"
      using True by (force simp: expired_keys_def)
    then show ?thesis using 2 True by (auto intro!: filter_cong)
  next
    case False
    then have "\<forall>e \<in> set es. now < fst e" using 2 by fastforce
    then have "expired_keys now ((t, k) # es) = {}" using False by (auto simp: expired_keys_def)
    then show ?thesis using False \<open>\<forall>e \<in> set es. now < fst e\<close> by (simp add: filter_id_conv)
  qed
qed

lemma map_of_filter_keys: "map_of (filter (\<lambda>kb. fst kb \<notin> S) bs) k = (if k \<in> S then None else map_of bs k)"
  by (induction bs) auto

lemma map_of_count_request:
  "map_of (count_request key bs) k =
     map_option (\<lambda>b. if k = key then b\<lparr>direct_count := direct_count b + 1\<rparr> else b) (map_of bs k)"
  by (induction bs) (auto simp: count_request_def)

lemma keys_count_request [simp]: "map fst (count_request key bs) = map fst bs"
  by (induction bs) (auto simp: count_request_def)

lemma length_count_request [simp]: "length (count_request key bs) = length bs"
  by (simp add: count_request_def)

lemma set_insort_fst: "set (insort_key fst x xs) = insert x (set xs)"
  by (simp add: set_insort_key)

lemma direct_ok_ends:
  "direct_ok cfg lim \<Longrightarrow> e \<in> set (expirations lim) \<Longrightarrow> snd e = raw_key k \<Longrightarrow> fst e = key_end cfg k"
  unfolding direct_ok_def by blast

lemma direct_okI:
  assumes "valid_windows cfg" and "sorted (map fst (expirations lim))" and "distinct (map fst (buckets lim))"
    and "length (buckets lim) \<le> max_buckets lim" and "fst ` set (buckets lim) \<subseteq> snd ` set (expirations lim)"
    and "\<And>e k. e \<in> set (expirations lim) \<Longrightarrow> snd e = raw_key k \<Longrightarrow> fst e = key_end cfg k"
  shows "direct_ok cfg lim"
  unfolding direct_ok_def using assms by blast

lemma consume_effect:
  fixes hmac :: "string \<Rightarrow> string" and ident :: string and now :: time and lim :: direct_limiter
  assumes ok: "direct_ok cfg lim" and spec: "spec = spec_for cfg sc"
  defines "key \<equiv> direct_key_of hmac spec ident now"
    and "live \<equiv> filter (\<lambda>kb. fst kb \<notin> expired_keys now (expirations lim)) (buckets lim)"
  defines "full \<equiv> map_of live key = None \<and> max_buckets lim \<le> length live"
  shows "bucket_value (buckets (snd (consume hmac spec ident now lim))) r =
      bucket_value live r + (if r = key \<and> \<not> full then 1 else 0)"
    "fst (consume hmac spec ident now lim) = Inr () \<longleftrightarrow> \<not> full \<and> bucket_value live key + 1 \<le> spec_requests spec"
    "direct_ok cfg (snd (consume hmac spec ident now lim))"
    "max_buckets (snd (consume hmac spec ident now lim)) = max_buckets lim"
proof -
  let ?es = "filter (\<lambda>e. now < fst e) (expirations lim)"
  let ?new = "(key, \<lparr>bucket_window_end = window_end spec now, direct_count = 0\<rparr>)"
  let ?lim = "snd (consume hmac spec ident now lim)"
  have disc: "discard_expired now (expirations lim) (buckets lim) = (?es, live)"
    using ok discard_expired_eq by (simp add: direct_ok_def live_def)
  have run: "consume hmac spec ident now lim =
    (if full then
       (Inl (RateLimitExceeded
          (case ?es of [] \<Rightarrow> window_seconds spec | (t, k) # es' \<Rightarrow> max 1 (ceil_seconds (t - now)))),
        lim\<lparr>buckets := live, expirations := ?es\<rparr>)
     else
       let es1 = (if map_of live key = None then insort_key fst (window_end spec now, key) ?es else ?es);
           bs2 = count_request key (if map_of live key = None then live @ [?new] else live);
           lim2 = lim\<lparr>buckets := bs2, expirations := es1\<rparr>
       in if spec_requests spec < direct_count (the (map_of bs2 key))
          then (Inl (RateLimitExceeded (max 1 (ceil_seconds (window_end spec now - now)))), lim2)
          else (Inr (), lim2))"
    by (simp add: consume_def disc key_def [symmetric] full_def Let_def)
  let ?es1 = "if full \<or> map_of live key \<noteq> None then ?es else insort_key fst (window_end spec now, key) ?es"
  let ?bs2 = "if full then live else count_request key (if map_of live key = None then live @ [?new] else live)"
  have lim': "?lim = lim\<lparr>buckets := ?bs2, expirations := ?es1\<rparr>"
    by (simp add: run Let_def full_def)
  show "bucket_value (buckets ?lim) r = bucket_value live r + (if r = key \<and> \<not> full then 1 else 0)"
    by (cases "map_of live r") (auto simp: lim' bucket_value_def map_of_count_request map_add_def split: option.splits)
  have cnt: "\<not> full \<Longrightarrow> direct_count (the (map_of ?bs2 key)) = bucket_value live key + 1"
    by (auto simp: bucket_value_def map_of_count_request map_add_def split: option.splits)
  then show "fst (consume hmac spec ident now lim) = Inr () \<longleftrightarrow> \<not> full \<and> bucket_value live key + 1 \<le> spec_requests spec"
    by (auto simp: run Let_def)
  show "max_buckets ?lim = max_buckets lim" by (simp add: lim')
  have ok_live: "distinct (map fst live)" "length live \<le> length (buckets lim)"
    using ok by (simp_all add: direct_ok_def live_def distinct_map_filter)
  have cover: "fst ` set live \<subseteq> snd ` set ?es"
  proof
    fix r assume "r \<in> fst ` set live"
    then have r: "r \<in> fst ` set (buckets lim)" "r \<notin> expired_keys now (expirations lim)"
      by (auto simp: live_def)
    have "fst ` set (buckets lim) \<subseteq> snd ` set (expirations lim)" using ok by (simp add: direct_ok_def)
    then have "r \<in> snd ` set (expirations lim)" using r(1) by (rule subsetD)
    then obtain e where e: "e \<in> set (expirations lim)" "r = snd e" by (rule imageE)
    have "now < fst e"
    proof (rule ccontr)
      assume "\<not> now < fst e"
      then have "e \<in> {e \<in> set (expirations lim). fst e \<le> now}" using e(1) by simp
      then show False using r(2) unfolding e(2) expired_keys_def by blast
    qed
    then have "e \<in> set ?es" using e(1) by simp
    then show "r \<in> snd ` set ?es" unfolding e(2) by (rule imageI)
  qed
  have counted: "fst ` set (count_request key bs) = fst ` set bs" for bs
    by (induction bs) (auto simp: count_request_def)
  have f1: "distinct (map fst ?bs2)"
    using ok_live(1) by (simp add: map_of_eq_None_iff)
  have f2: "length ?bs2 \<le> max_buckets lim"
    using ok_live(2) ok by (simp add: direct_ok_def full_def)
  have f3: "sorted (map fst ?es1)"
    using ok by (simp add: direct_ok_def sorted_insort_key sorted_filter)
  have f4: "fst ` set ?bs2 \<subseteq> snd ` set ?es1"
  proof (cases "full \<or> map_of live key \<noteq> None")
    case True
    then have "fst ` set ?bs2 = fst ` set live" by (auto simp: counted)
    then show ?thesis using cover True by simp
  next
    case False
    then have "fst ` set ?bs2 = insert key (fst ` set live)" by (simp add: counted)
    then show ?thesis using cover False by (simp add: set_insort_fst subset_insertI2)
  qed
  have f5: "fst e = key_end cfg k" if e: "e \<in> set ?es1" "snd e = raw_key k" for e k
  proof (cases "e \<in> set ?es")
    case True
    then have "e \<in> set (expirations lim)" by simp
    then show ?thesis using direct_ok_ends [OF ok] e(2) by blast
  next
    case False
    then have "e = (window_end spec now, key)" using e(1) by (auto simp: set_insort_fst split: if_splits)
    then have "e = (window_end spec now, raw_key (direct_call_key cfg hmac (sc, ident, now)))"
      unfolding key_def spec direct_key_raw .
    then show ?thesis using e(2) call_end [of cfg hmac sc ident now] spec
      by (simp del: direct_call_key.simps raw_key.simps key_end.simps)
  qed
  have v: "valid_windows cfg" using ok by (simp add: direct_ok_def)
  have g: "buckets ?lim = ?bs2" "expirations ?lim = ?es1" "max_buckets ?lim = max_buckets lim"
    by (simp_all add: lim')
  show "direct_ok cfg ?lim"
    by (rule direct_okI) (unfold g, rule v f1 f2 f3 f4, (rule v f1 f2 f3 f4)+, rule f5)
qed

lemma live_value:
  assumes "direct_ok cfg lim" and "now < key_end cfg k"
  shows "bucket_value (filter (\<lambda>kb. fst kb \<notin> expired_keys now (expirations lim)) (buckets lim)) (raw_key k) =
    direct_value lim k"
proof -
  have "raw_key k \<notin> expired_keys now (expirations lim)"
  proof
    assume "raw_key k \<in> expired_keys now (expirations lim)"
    then obtain e where "e \<in> set (expirations lim)" "fst e \<le> now" "snd e = raw_key k"
      unfolding expired_keys_def by auto
    then have "fst e = key_end cfg k" using direct_ok_ends [OF assms(1)] by blast
    then show False using \<open>fst e \<le> now\<close> assms(2) by simp
  qed
  then show ?thesis by (simp add: direct_value_def bucket_value_def map_of_filter_keys)
qed

lemma direct_call_live:
  "direct_ok cfg lim \<Longrightarrow> call_clock c < key_end cfg (direct_call_key cfg hmac c)"
  by (cases c) (simp add: call_end now_in_window direct_ok_def valid_windows_def del: direct_call_key.simps)

lemma direct_run_value:
  assumes ok: "direct_ok cfg lim" and live: "call_clock c < key_end cfg k"
  shows "direct_value (snd (direct_run cfg hmac c lim)) k = direct_value lim k \<or>
    k = direct_call_key cfg hmac c \<and> direct_value (snd (direct_run cfg hmac c lim)) k = direct_value lim k + 1"
    "fst (direct_run cfg hmac c lim) \<Longrightarrow> k = direct_call_key cfg hmac c \<Longrightarrow>
      direct_value (snd (direct_run cfg hmac c lim)) k = direct_value lim k + 1 \<and>
      direct_value lim k + 1 \<le> key_limit cfg k"
proof -
  obtain sc ident now where c: "c = (sc, ident, now)" by (cases c)
  let ?spec = "spec_for cfg sc"
  note eff = consume_effect [OF ok refl, of hmac sc ident now]
  have run: "direct_run cfg hmac c lim =
      (fst (consume hmac ?spec ident now lim) = Inr (), snd (consume hmac ?spec ident now lim))"
    by (simp add: c split_beta Let_def)
  have key: "raw_key k = direct_key_of hmac ?spec ident now \<longleftrightarrow> k = direct_call_key cfg hmac c"
    by (simp add: direct_key_raw c del: direct_call_key.simps)
  have val: "bucket_value (filter (\<lambda>kb. fst kb \<notin> expired_keys now (expirations lim)) (buckets lim)) (raw_key k) =
      direct_value lim k"
    using live_value [OF ok] live by (simp add: c)
  have lim: "key_limit cfg (direct_call_key cfg hmac c) = spec_requests ?spec" by (simp add: c Let_def)
  show "direct_value (snd (direct_run cfg hmac c lim)) k = direct_value lim k \<or>
    k = direct_call_key cfg hmac c \<and> direct_value (snd (direct_run cfg hmac c lim)) k = direct_value lim k + 1"
    using eff(1) [of "raw_key k"] key val by (auto simp: run direct_value_def split: if_splits)
  show "direct_value (snd (direct_run cfg hmac c lim)) k = direct_value lim k + 1 \<and>
      direct_value lim k + 1 \<le> key_limit cfg k"
    if "fst (direct_run cfg hmac c lim)" and k: "k = direct_call_key cfg hmac c"
    using that eff(1) [of "raw_key k"] eff(2) val key lim unfolding run direct_value_def by auto
qed

interpretation direct: fixed_window "direct_run cfg hmac" "direct_call_key cfg hmac" call_clock
    "key_end cfg" "key_limit cfg" direct_value "direct_ok cfg" for cfg hmac
proof
  fix c :: rate_call and s :: direct_limiter and k :: window_key
  assume ok: "direct_ok cfg s"
  note live = direct_call_live [OF ok, of c hmac]
  obtain sc ident now where c: "c = (sc, ident, now)" by (cases c)
  show "direct_ok cfg (snd (direct_run cfg hmac c s))"
    using consume_effect(3) [OF ok refl] by (simp add: c split_beta Let_def)
  show "call_clock c < key_end cfg (direct_call_key cfg hmac c)" by (rule live)
  show "fst (direct_run cfg hmac c s) \<Longrightarrow>
      direct_value (snd (direct_run cfg hmac c s)) (direct_call_key cfg hmac c) =
        direct_value s (direct_call_key cfg hmac c) + 1 \<and>
      direct_value s (direct_call_key cfg hmac c) + 1 \<le> key_limit cfg (direct_call_key cfg hmac c)"
    using direct_run_value(2) [OF ok live] by blast
  show "direct_value s (direct_call_key cfg hmac c) \<le> direct_value (snd (direct_run cfg hmac c s)) (direct_call_key cfg hmac c)"
    using direct_run_value(1) [OF ok live, of hmac] by auto
  show "k \<noteq> direct_call_key cfg hmac c \<Longrightarrow> call_clock c < key_end cfg k \<Longrightarrow>
      direct_value (snd (direct_run cfg hmac c s)) k = direct_value s k"
    using direct_run_value(1) [OF ok, of c k hmac] by blast
qed

subsection \<open>Accounts\<close>

definition bucket_key :: "rate_limit_bucket \<Rightarrow> string \<times> string \<times> time" where
  "bucket_key b = (rb_scope b, identifier_hash b, window_start b)"

fun row_key :: "window_key \<Rightarrow> string \<times> string \<times> time" where
  "row_key (sc, e, h) = (scope_value sc, h, seconds e)"

fun durable_call_key :: "rate_limit_settings \<Rightarrow> (string \<Rightarrow> string) \<Rightarrow> rate_call \<Rightarrow> window_key" where
  "durable_call_key cfg hmac (sc, ident, now) =
     (sc, window_epoch (spec_for cfg sc) now, hash_identifier hmac sc ident)"

definition new_bucket_id :: "rate_limit_db \<Rightarrow> int" where
  "new_bucket_id db = 1 + foldr max (map rb_id (rl_buckets db)) 0"

fun durable_run :: "rate_limit_settings \<Rightarrow> (string \<Rightarrow> string) \<Rightarrow> rate_call \<Rightarrow> rate_limit_db \<Rightarrow> bool \<times> rate_limit_db" where
  "durable_run cfg hmac (sc, ident, now) db =
     (let (res, db') = enforce_rate_limit cfg hmac id (new_bucket_id db) (spec_for cfg sc) ident now db
      in (res = Inr (), db'))"

definition row_value :: "rate_limit_bucket list \<Rightarrow> string \<times> string \<times> time \<Rightarrow> int" where
  "row_value bs r = (case get_row bucket_key r bs of Some b \<Rightarrow> request_count b | None \<Rightarrow> 0)"

definition durable_value :: "rate_limit_db \<Rightarrow> window_key \<Rightarrow> int" where
  "durable_value db k = row_value (rl_buckets db) (row_key k)"

text \<open>The slots the maintenance row counts, and rows that outlive their window.\<close>

definition slots :: "rate_limit_db \<Rightarrow> int" where
  "slots db = (case rl_maintenance db of Some m \<Rightarrow> bucket_count m | None \<Rightarrow> 0)"

definition rows_ok :: "rate_limit_settings \<Rightarrow> rate_limit_bucket list \<Rightarrow> bool" where
  "rows_ok cfg bs \<longleftrightarrow> distinct (map rb_id bs) \<and> distinct (map bucket_key bs) \<and>
     (\<forall>b \<in> set bs. \<forall>k. bucket_key b = row_key k \<longrightarrow> key_end cfg k \<le> rb_expires_at b)"

definition durable_ok :: "rate_limit_settings \<Rightarrow> rate_limit_db \<Rightarrow> bool" where
  "durable_ok cfg db \<longleftrightarrow> valid_windows cfg \<and> rows_ok cfg (rl_buckets db) \<and>
     slots db = int (length (rl_buckets db)) \<and> slots db \<le> int (RATE_LIMIT_MAX_BUCKETS cfg)"

lemma seconds_inj [simp]: "seconds a = seconds b \<longleftrightarrow> a = b"
  by (simp add: seconds_def)

lemma row_key_inj [simp]: "row_key a = row_key b \<longleftrightarrow> a = b"
  by (cases a; cases b) auto

lemma is_bucket_key:
  "is_bucket (spec_for cfg sc) h (seconds e) = (\<lambda>b. bucket_key b = row_key (sc, e, h))"
  by (auto simp: is_bucket_def bucket_key_def)

lemma durable_call_end: "key_end cfg (durable_call_key cfg hmac (sc, ident, now)) = window_end (spec_for cfg sc) now"
  by (simp add: window_end_def)

lemma foldr_max_ge: "x \<in> set xs \<Longrightarrow> x \<le> foldr max xs (z :: int)"
  by (induction xs) auto

lemma new_bucket_id_fresh: "b \<in> set (rl_buckets db) \<Longrightarrow> rb_id b \<noteq> new_bucket_id db"
  unfolding new_bucket_id_def using foldr_max_ge [of "rb_id b" "map rb_id (rl_buckets db)" 0] by force

lemma rows_ok_filter: "rows_ok cfg bs \<Longrightarrow> rows_ok cfg (filter P bs)"
  by (auto simp: rows_ok_def distinct_map_filter)

text \<open>The cleanup removes only rows whose retention has passed, and keeps the slot count exact.\<close>

lemma stale_ids_expired: "i \<in> set (stale_ids cfg now bs) \<Longrightarrow> \<exists>b \<in> set bs. rb_id b = i \<and> rb_expires_at b \<le> now"
  unfolding stale_ids_def by (auto dest!: in_set_takeD)

lemma cleanup_keeps:
  assumes ok: "durable_ok cfg db"
  shows "durable_ok cfg (cleanup_if_due cfg now db)" "rl_maintenance (cleanup_if_due cfg now db) \<noteq> None"
    "now < key_end cfg k \<Longrightarrow> durable_value (cleanup_if_due cfg now db) k = durable_value db k"
    "\<exists>P. rl_buckets (cleanup_if_due cfg now db) = filter P (rl_buckets db)"
proof -
  let ?db = "cleanup_if_due cfg now db"
  let ?P = "\<lambda>b. rb_id b \<notin> set (stale_ids cfg now (rl_buckets db))"
  have rows: "rl_buckets ?db = rl_buckets db \<or> rl_buckets ?db = filter ?P (rl_buckets db)"
    by (simp add: cleanup_if_due_def Let_def)
  have len: "length (filter ?P (rl_buckets db)) \<le> length (rl_buckets db)" by simp
  have slots: "slots ?db = int (length (rl_buckets ?db))"
    using ok len by (auto simp: durable_ok_def slots_def cleanup_if_due_def Let_def split: option.splits)
  have filtered: "rl_buckets ?db = filter (\<lambda>_. True) (rl_buckets db) \<or> rl_buckets ?db = filter ?P (rl_buckets db)"
    using rows by simp
  show ex: "\<exists>P. rl_buckets ?db = filter P (rl_buckets db)" using filtered by (elim disjE exI)
  have "length (rl_buckets ?db) \<le> length (rl_buckets db)" using rows len by auto
  then show "durable_ok cfg ?db"
    using ok slots ex rows_ok_filter [of cfg "rl_buckets db"] by (auto simp: durable_ok_def)
  show "rl_maintenance ?db \<noteq> None" by (simp add: cleanup_if_due_def Let_def)
  show "durable_value ?db k = durable_value db k" if now: "now < key_end cfg k"
  proof (cases "get_row bucket_key (row_key k) (rl_buckets db)")
    case None
    then have "get_row bucket_key (row_key k) (rl_buckets ?db) = None"
      using rows by (auto simp: get_row_None)
    then show ?thesis using None by (simp add: durable_value_def row_value_def)
  next
    case (Some b)
    then have b: "b \<in> set (rl_buckets db)" "bucket_key b = row_key k" using get_row_Some by fast+
    then have "key_end cfg k \<le> rb_expires_at b" using ok unfolding durable_ok_def rows_ok_def by blast
    moreover have "inj_on rb_id (set (rl_buckets db))"
      using ok by (simp add: durable_ok_def rows_ok_def distinct_map)
    ultimately have "?P b"
      using b(1) now stale_ids_expired [of "rb_id b" cfg now "rl_buckets db"] by (fastforce dest: inj_onD)
    moreover have "distinct (map bucket_key (rl_buckets db))" using ok by (simp add: durable_ok_def rows_ok_def)
    ultimately have "get_row bucket_key (row_key k) (rl_buckets ?db) = Some b"
      using rows Some by (auto simp: get_row_filter)
    then show ?thesis using Some by (simp add: durable_value_def row_value_def)
  qed
qed

text \<open>The two ways a request is counted: a new row, or one more request in its row.\<close>

lemma row_value_append:
  assumes "get_row bucket_key (bucket_key b) bs = None"
  shows "row_value (bs @ [b]) q = row_value bs q + (if q = bucket_key b then request_count b else 0)"
proof -
  have "get_row bucket_key q (bs @ [b]) =
      (case get_row bucket_key q bs of Some b' \<Rightarrow> Some b' | None \<Rightarrow> if q = bucket_key b then Some b else None)"
    by (induction bs) (auto simp: get_row_def)
  then show ?thesis using assms by (auto simp: row_value_def split: option.splits)
qed

lemma row_value_bump:
  assumes "get_row bucket_key r bs = Some b0"
  shows "row_value (update_where (\<lambda>b. bucket_key b = r)
      (\<lambda>b. b\<lparr>request_count := request_count b + 1, rb_expires_at := e\<rparr>) bs) q =
    row_value bs q + (if q = r then 1 else 0)"
proof -
  let ?f = "\<lambda>b. b\<lparr>request_count := request_count b + 1, rb_expires_at := e\<rparr>"
  have "get_row bucket_key q (update_where (\<lambda>b. bucket_key b = r) ?f bs) =
      map_option (\<lambda>b. if bucket_key b = r then ?f b else b) (get_row bucket_key q bs)"
    by (rule get_row_update_where) (simp add: bucket_key_def)
  then show ?thesis using assms by (auto simp: row_value_def split: option.splits dest!: get_row_Some)
qed

lemma rows_okD:
  "rows_ok cfg bs \<Longrightarrow> b \<in> set bs \<Longrightarrow> bucket_key b = row_key k \<Longrightarrow> key_end cfg k \<le> rb_expires_at b"
  unfolding rows_ok_def by blast

lemma rows_ok_append:
  assumes ok: "rows_ok cfg bs" and new: "get_row bucket_key (bucket_key b) bs = None" "rb_id b \<notin> rb_id ` set bs"
    and out: "\<And>k. bucket_key b = row_key k \<Longrightarrow> key_end cfg k \<le> rb_expires_at b"
  shows "rows_ok cfg (bs @ [b])"
  unfolding rows_ok_def
proof (intro conjI ballI allI impI)
  show "distinct (map rb_id (bs @ [b]))" using ok new(2) by (simp add: rows_ok_def)
  show "distinct (map bucket_key (bs @ [b]))" using ok new(1) by (simp add: rows_ok_def get_row_None)
  show "key_end cfg k \<le> rb_expires_at b'" if "b' \<in> set (bs @ [b])" "bucket_key b' = row_key k" for b' k
    using that rows_okD [OF ok] out [of k] by (cases "b' = b") auto
qed

lemma rows_ok_bump:
  assumes ok: "rows_ok cfg bs" and out: "\<And>k. r = row_key k \<Longrightarrow> key_end cfg k \<le> e"
  shows "rows_ok cfg (update_where (\<lambda>b. bucket_key b = r)
    (\<lambda>b. b\<lparr>request_count := request_count b + 1, rb_expires_at := e\<rparr>) bs)" (is "rows_ok cfg ?bs")
  unfolding rows_ok_def
proof (intro conjI ballI allI impI)
  have "map bucket_key ?bs = map bucket_key bs" by (rule map_update_where) (simp add: bucket_key_def)
  then show "distinct (map bucket_key ?bs)" using ok by (simp add: rows_ok_def)
  show "distinct (map rb_id ?bs)" using ok by (simp add: map_update_where rows_ok_def)
  show "key_end cfg k \<le> rb_expires_at b" if b: "b \<in> set ?bs" "bucket_key b = row_key k" for b k
  proof -
    obtain b0 where b0: "b0 \<in> set bs"
      "b = (if bucket_key b0 = r then b0\<lparr>request_count := request_count b0 + 1, rb_expires_at := e\<rparr> else b0)"
      using b(1) by (auto simp: in_update_where)
    show ?thesis
    proof (cases "bucket_key b0 = r")
      case True
      then show ?thesis using b0(2) b(2) out [of k] by (simp add: bucket_key_def)
    next
      case False
      then show ?thesis using b0 b(2) rows_okD [OF ok] by simp
    qed
  qed
qed

definition bucket_expiry :: "rate_limit_settings \<Rightarrow> rate_limit_scope \<Rightarrow> time \<Rightarrow> time" where
  "bucket_expiry cfg sc now = window_end (spec_for cfg sc) now + seconds (RATE_LIMIT_BUCKET_RETENTION_SECONDS cfg)"

definition verdict :: "rate_limit_settings \<Rightarrow> rate_limit_scope \<Rightarrow> time \<Rightarrow> int \<Rightarrow> rate_limit_error + unit" where
  "verdict cfg sc now consumed =
     (if spec_requests (spec_for cfg sc) < consumed
      then Inl (RateLimitExceeded (max 1 (ceil_seconds (window_end (spec_for cfg sc) now - now)))) else Inr ())"

lemma bucket_expiry_outlives:
  assumes "valid_windows cfg" and "row_key (durable_call_key cfg hmac (sc, ident, now)) = row_key k"
  shows "key_end cfg k \<le> bucket_expiry cfg sc now"
proof -
  have "k = durable_call_key cfg hmac (sc, ident, now)" using assms(2) by (metis row_key_inj)
  then have "key_end cfg k = window_end (spec_for cfg sc) now" by (simp add: durable_call_end del: durable_call_key.simps)
  then show ?thesis using assms(1) by (simp add: bucket_expiry_def valid_windows_def seconds_def)
qed

lemma enforce_cases:
  fixes hmac :: "string \<Rightarrow> string"
  assumes ok: "durable_ok cfg db" and acc: "take 7 ident \<noteq> ''client:''"
    and d: "d = cleanup_if_due cfg now db" and r: "r = row_key (durable_call_key cfg hmac (sc, ident, now))"
  shows "enforce_rate_limit cfg hmac id (new_bucket_id db) (spec_for cfg sc) ident now db =
    (case get_row bucket_key r (rl_buckets d) of
      Some b \<Rightarrow> (verdict cfg sc now (request_count b + 1),
         d\<lparr>rl_buckets := update_where (\<lambda>b. bucket_key b = r)
           (\<lambda>b. b\<lparr>request_count := request_count b + 1, rb_expires_at := bucket_expiry cfg sc now\<rparr>) (rl_buckets d)\<rparr>)
    | None \<Rightarrow>
        if slots d < int (RATE_LIMIT_MAX_BUCKETS cfg) then
          (verdict cfg sc now 1,
           d\<lparr>rl_maintenance := Some ((the (rl_maintenance d))\<lparr>bucket_count := slots d + 1\<rparr>),
             rl_buckets := rl_buckets d @ [\<lparr>rb_id = new_bucket_id db, rb_scope = scope_value sc,
               identifier_hash = hash_identifier hmac sc ident,
               window_start = seconds (window_epoch (spec_for cfg sc) now), request_count = 1,
               rb_expires_at = bucket_expiry cfg sc now\<rparr>]\<rparr>)
        else (Inl (RateLimitExceeded (RATE_LIMIT_CLEANUP_INTERVAL_SECONDS cfg)), d))"
proof -
  have match: "is_bucket (spec_for cfg sc) (hash_identifier hmac sc ident)
      (seconds (window_epoch (spec_for cfg sc) now)) = (\<lambda>b. bucket_key b = r)"
    by (simp add: is_bucket_key r)
  obtain m where m: "rl_maintenance d = Some m" using cleanup_keeps(2) [OF ok] unfolding d by blast
  note defs = enforce_rate_limit_def acc Let_def d [symmetric] consume_existing_bucket_def match get_row_def
    verdict_def bucket_expiry_def
  show ?thesis
  proof (cases "get_row bucket_key r (rl_buckets d)")
    case (Some b)
    then show ?thesis by (simp add: defs)
  next
    case None
    then have upd: "update_where (\<lambda>b. bucket_key b = r) f (rl_buckets d) = rl_buckets d" for f
      by (auto simp: get_row_None intro: update_where_none)
    have ins: "\<not> list_ex (\<lambda>b. bucket_key b = r) (rl_buckets d)"
      using None by (auto simp: get_row_None list_ex_iff)
    show ?thesis using None ins
      by (simp add: defs upd reserve_bucket_slot_def m insert_bucket_def slots_def)
  qed
qed

lemma enforce_effect:
  fixes hmac :: "string \<Rightarrow> string"
  assumes ok: "durable_ok cfg db" and acc: "take 7 ident \<noteq> ''client:''"
    and d: "d = cleanup_if_due cfg now db" and r: "r = row_key (durable_call_key cfg hmac (sc, ident, now))"
    and res: "res = enforce_rate_limit cfg hmac id (new_bucket_id db) (spec_for cfg sc) ident now db"
    and full: "full \<longleftrightarrow> get_row bucket_key r (rl_buckets d) = None \<and> slots d = int (RATE_LIMIT_MAX_BUCKETS cfg)"
  shows "fst res = (if full then Inl (RateLimitExceeded (RATE_LIMIT_CLEANUP_INTERVAL_SECONDS cfg))
      else verdict cfg sc now (row_value (rl_buckets d) r + 1))"
    "row_value (rl_buckets (snd res)) q = row_value (rl_buckets d) q + (if q = r \<and> \<not> full then 1 else 0)"
    "durable_ok cfg (snd res)"
proof -
  note run = enforce_cases [OF ok acc d r, folded res]
  note clean = cleanup_keeps [OF ok, where now = now, folded d]
  obtain P where P: "rl_buckets d = filter P (rl_buckets db)" using clean(4) by blast
  have dok: "rows_ok cfg (rl_buckets d)" "slots d = int (length (rl_buckets d))"
      "slots d \<le> int (RATE_LIMIT_MAX_BUCKETS cfg)" "valid_windows cfg"
    using clean(1) by (simp_all add: durable_ok_def)
  have out: "r = row_key k \<Longrightarrow> key_end cfg k \<le> bucket_expiry cfg sc now" for k
    using bucket_expiry_outlives [OF dok(4), of hmac sc ident now k] r by simp
  let ?new = "\<lparr>rb_id = new_bucket_id db, rb_scope = scope_value sc, identifier_hash = hash_identifier hmac sc ident,
    window_start = seconds (window_epoch (spec_for cfg sc) now), request_count = 1,
    rb_expires_at = bucket_expiry cfg sc now\<rparr>"
  have new: "bucket_key ?new = r" by (simp add: r bucket_key_def)
  have id: "rb_id ?new \<notin> rb_id ` set (rl_buckets d)" using new_bucket_id_fresh [of _ db] by (fastforce simp: P)
  have room: "slots d < int (RATE_LIMIT_MAX_BUCKETS cfg) \<longleftrightarrow> slots d \<noteq> int (RATE_LIMIT_MAX_BUCKETS cfg)"
    using dok(3) by auto
  show "fst res = (if full then Inl (RateLimitExceeded (RATE_LIMIT_CLEANUP_INTERVAL_SECONDS cfg))
      else verdict cfg sc now (row_value (rl_buckets d) r + 1))"
    unfolding run by (simp add: full room row_value_def split: option.splits)
  show "row_value (rl_buckets (snd res)) q = row_value (rl_buckets d) q + (if q = r \<and> \<not> full then 1 else 0)"
    by (cases "get_row bucket_key r (rl_buckets d)")
      (simp_all add: run full room row_value_bump row_value_append [of ?new, unfolded new])
  show "durable_ok cfg (snd res)"
  proof (cases "get_row bucket_key r (rl_buckets d)")
    case None
    then show ?thesis
      using clean(1) dok rows_ok_append [OF dok(1), of ?new, unfolded new, OF None id] out
      by (simp add: run durable_ok_def slots_def)
  next
    case (Some b)
    then show ?thesis using dok rows_ok_bump [OF dok(1) out] by (simp add: run durable_ok_def slots_def)
  qed
qed

lemma durable_run_value:
  assumes ok: "durable_ok cfg db" and live: "call_clock c < key_end cfg k"
  shows "durable_value (snd (durable_run cfg hmac c db)) k = durable_value db k \<or>
    k = durable_call_key cfg hmac c \<and> durable_value (snd (durable_run cfg hmac c db)) k = durable_value db k + 1"
    "fst (durable_run cfg hmac c db) \<Longrightarrow> k = durable_call_key cfg hmac c \<Longrightarrow>
      durable_value (snd (durable_run cfg hmac c db)) k = durable_value db k + 1 \<and>
      durable_value db k + 1 \<le> key_limit cfg k"
    "durable_ok cfg (snd (durable_run cfg hmac c db))"
proof -
  obtain sc ident now where c: "c = (sc, ident, now)" by (cases c)
  define res where "res = enforce_rate_limit cfg hmac id (new_bucket_id db) (spec_for cfg sc) ident now db"
  have run: "durable_run cfg hmac c db = (fst res = Inr (), snd res)"
    by (simp add: c res_def split_beta Let_def)
  have lim: "key_limit cfg (durable_call_key cfg hmac c) = spec_requests (spec_for cfg sc)" by (simp add: c)
  define r where "r = row_key (durable_call_key cfg hmac (sc, ident, now))"
  have key: "row_key k = r \<longleftrightarrow> k = durable_call_key cfg hmac c"
    by (simp add: r_def c del: durable_call_key.simps)
  have val: "row_value (rl_buckets (cleanup_if_due cfg now db)) (row_key k) = durable_value db k"
    using cleanup_keeps(3) [OF ok, of now k] live by (simp add: c durable_value_def)
  show "durable_value (snd (durable_run cfg hmac c db)) k = durable_value db k \<or>
    k = durable_call_key cfg hmac c \<and> durable_value (snd (durable_run cfg hmac c db)) k = durable_value db k + 1"
    "fst (durable_run cfg hmac c db) \<Longrightarrow> k = durable_call_key cfg hmac c \<Longrightarrow>
      durable_value (snd (durable_run cfg hmac c db)) k = durable_value db k + 1 \<and>
      durable_value db k + 1 \<le> key_limit cfg k"
    "durable_ok cfg (snd (durable_run cfg hmac c db))"
  proof (atomize (full), cases "take 7 ident = ''client:''")
    case True
    then have "res = (Inl DirectIdentifierError, db)" by (simp add: res_def enforce_rate_limit_def)
    then show "(durable_value (snd (durable_run cfg hmac c db)) k = durable_value db k \<or>
        k = durable_call_key cfg hmac c \<and> durable_value (snd (durable_run cfg hmac c db)) k = durable_value db k + 1) \<and>
      (fst (durable_run cfg hmac c db) \<longrightarrow> k = durable_call_key cfg hmac c \<longrightarrow>
        durable_value (snd (durable_run cfg hmac c db)) k = durable_value db k + 1 \<and>
        durable_value db k + 1 \<le> key_limit cfg k) \<and>
      durable_ok cfg (snd (durable_run cfg hmac c db))"
      using ok by (simp add: run)
  next
    case False
    note eff = enforce_effect [OF ok False refl r_def res_def refl]
    show "(durable_value (snd (durable_run cfg hmac c db)) k = durable_value db k \<or>
        k = durable_call_key cfg hmac c \<and> durable_value (snd (durable_run cfg hmac c db)) k = durable_value db k + 1) \<and>
      (fst (durable_run cfg hmac c db) \<longrightarrow> k = durable_call_key cfg hmac c \<longrightarrow>
        durable_value (snd (durable_run cfg hmac c db)) k = durable_value db k + 1 \<and>
        durable_value db k + 1 \<le> key_limit cfg k) \<and>
      durable_ok cfg (snd (durable_run cfg hmac c db))"
      using eff(1,3) eff(2) [of "row_key k"] key val lim
      by (auto simp: run durable_value_def verdict_def split: if_splits)
  qed
qed

interpretation durable: fixed_window "durable_run cfg hmac" "durable_call_key cfg hmac" call_clock
    "key_end cfg" "key_limit cfg" durable_value "durable_ok cfg" for cfg hmac
proof
  fix c :: rate_call and s :: rate_limit_db and k :: window_key
  assume ok: "durable_ok cfg s"
  have live: "call_clock c < key_end cfg (durable_call_key cfg hmac c)"
    using ok by (cases c) (simp add: durable_call_end now_in_window durable_ok_def valid_windows_def
      del: durable_call_key.simps)
  show "durable_ok cfg (snd (durable_run cfg hmac c s))" by (rule durable_run_value(3) [OF ok live])
  show "call_clock c < key_end cfg (durable_call_key cfg hmac c)" by (rule live)
  show "fst (durable_run cfg hmac c s) \<Longrightarrow>
      durable_value (snd (durable_run cfg hmac c s)) (durable_call_key cfg hmac c) =
        durable_value s (durable_call_key cfg hmac c) + 1 \<and>
      durable_value s (durable_call_key cfg hmac c) + 1 \<le> key_limit cfg (durable_call_key cfg hmac c)"
    using durable_run_value(2) [OF ok live] by blast
  show "durable_value s (durable_call_key cfg hmac c) \<le> durable_value (snd (durable_run cfg hmac c s)) (durable_call_key cfg hmac c)"
    using durable_run_value(1) [OF ok live, of hmac] by auto
  show "k \<noteq> durable_call_key cfg hmac c \<Longrightarrow> call_clock c < key_end cfg k \<Longrightarrow>
      durable_value (snd (durable_run cfg hmac c s)) k = durable_value s k"
    using durable_run_value(1) [OF ok, of c k hmac] by blast
qed

section \<open>Properties\<close>

definition example_rate_settings :: rate_limit_settings where
  "example_rate_settings = \<lparr> RATE_LIMIT_SIGNUP_REQUESTS = 10, RATE_LIMIT_SIGNUP_WINDOW_SECONDS = 60,
     RATE_LIMIT_ADMIN_LOGIN_REQUESTS = 5, RATE_LIMIT_ADMIN_LOGIN_WINDOW_SECONDS = 300,
     RATE_LIMIT_BROWSER_LOGIN_REQUESTS = 10, RATE_LIMIT_BROWSER_LOGIN_WINDOW_SECONDS = 300,
     RATE_LIMIT_PAYMENT_CREATE_REQUESTS = 60, RATE_LIMIT_PAYMENT_CREATE_WINDOW_SECONDS = 60,
     RATE_LIMIT_DOMAIN_VERIFY_REQUESTS = 20, RATE_LIMIT_DOMAIN_VERIFY_WINDOW_SECONDS = 60,
     RATE_LIMIT_CLIENT_CERT_REQUESTS = 20, RATE_LIMIT_CLIENT_CERT_WINDOW_SECONDS = 300,
     RATE_LIMIT_BUCKET_RETENTION_SECONDS = 3600, RATE_LIMIT_CLEANUP_INTERVAL_SECONDS = 60,
     RATE_LIMIT_CLEANUP_BATCH_SIZE = 500, RATE_LIMIT_MAX_BUCKETS = 100000 \<rparr>"

lemma example_windows: "valid_windows example_rate_settings"
proof -
  have "0 < window_seconds (spec_for example_rate_settings sc)" for sc
    by (cases sc) (simp_all add: example_rate_settings_def)
  then show ?thesis by (simp add: valid_windows_def example_rate_settings_def)
qed

text \<open>
  The limiter for direct clients admits no more than the configured number of requests per scope,
  client and window. Whatever the sequence of requests, in the order of their clocks: of the requests for
  one key at most the limit less what its bucket already counts are admitted; and the limiter never holds
  more buckets than its bound.
\<close>

theorem direct_window_limit:
  assumes "direct_ok cfg lim" and "sorted (map call_clock cs)"
  shows "int (admissions (direct_run cfg hmac) (direct_call_key cfg hmac) k cs lim) \<le>
      max 0 (key_limit cfg k - direct_value lim k) \<and>
    length (buckets (after (direct_run cfg hmac) cs lim)) \<le> max_buckets (after (direct_run cfg hmac) cs lim)"
  using direct.admissions_bounded [OF assms] direct.inv_after [OF assms(1)] by (simp add: direct_ok_def)

theorem direct_window_limit_witness:
  "int (admissions (direct_run example_rate_settings id) (direct_call_key example_rate_settings id)
      (SIGNUP, 60, ''h'') [(SIGNUP, ''client:a'', seconds 70), (SIGNUP, ''client:a'', seconds 71)]
      \<lparr>max_buckets = 2, buckets = [], expirations = []\<rparr>) \<le> 10"
proof -
  have "direct_ok example_rate_settings \<lparr>max_buckets = 2, buckets = [], expirations = []\<rparr>"
    by (simp add: direct_ok_def example_windows)
  from direct_window_limit [OF this, of "[(SIGNUP, ''client:a'', seconds 70), (SIGNUP, ''client:a'', seconds 71)]" id
      "(SIGNUP, 60, ''h'')"]
  show ?thesis by (simp add: direct_value_def bucket_value_def example_rate_settings_def)
qed

text \<open>
  C9: the durable limiter admits no more than the configured number of requests per scope, account and
  window, over any sequence of requests in the order of their clocks, although every request may delete
  old rows: of the requests for one key at most the limit less what its row already counts are admitted;
  and the maintenance row always counts exactly the bucket rows, which never exceed the configured maximum.
\<close>

theorem durable_window_limit:
  assumes "durable_ok cfg db" and "sorted (map call_clock cs)"
  shows "int (admissions (durable_run cfg hmac) (durable_call_key cfg hmac) k cs db) \<le>
      max 0 (key_limit cfg k - durable_value db k) \<and>
    slots (after (durable_run cfg hmac) cs db) = int (length (rl_buckets (after (durable_run cfg hmac) cs db))) \<and>
    slots (after (durable_run cfg hmac) cs db) \<le> int (RATE_LIMIT_MAX_BUCKETS cfg)"
proof -
  have "durable_ok cfg (after (durable_run cfg hmac) cs db)" by (rule durable.inv_after [OF assms(1)])
  then show ?thesis using durable.admissions_bounded [OF assms] unfolding durable_ok_def by blast
qed

theorem durable_window_limit_witness:
  "int (admissions (durable_run example_rate_settings id) (durable_call_key example_rate_settings id)
      (ADMIN_LOGIN, 0, ''h'') [(ADMIN_LOGIN, ''account:1'', seconds 70), (SIGNUP, ''account:2'', seconds 71)]
      \<lparr>rl_buckets = [], rl_maintenance = None\<rparr>) \<le> 5"
proof -
  have "durable_ok example_rate_settings \<lparr>rl_buckets = [], rl_maintenance = None\<rparr>"
    by (simp add: durable_ok_def rows_ok_def slots_def example_windows)
  from durable_window_limit [OF this,
      of "[(ADMIN_LOGIN, ''account:1'', seconds 70), (SIGNUP, ''account:2'', seconds 71)]" id "(ADMIN_LOGIN, 0, ''h'')"]
  show ?thesis by (simp add: durable_value_def row_value_def get_row_def example_rate_settings_def)
qed

text \<open>
  C34: a lost race for a new bucket is repaired. Two overlapping requests of one account find no bucket;
  the other one commits between the first update of this one and its slot reservation. As long as a slot
  is left and no cleanup is due, this request gives back the slot it reserved, counts in the row of the
  other, and ends with the answer and the table of the serial order.
\<close>

theorem lost_race_serial:
  assumes acc: "take 7 ident \<noteq> ''client:''"
    and m: "rl_maintenance db = Some m" "now < next_cleanup_at m" "bucket_count m + 1 < int (RATE_LIMIT_MAX_BUCKETS cfg)"
    and none: "\<not> list_ex (is_bucket spec (hash_identifier hmac (spec_scope spec) ident)
      (seconds (window_epoch spec now))) (rl_buckets db)"
  shows "enforce_rate_limit cfg hmac (\<lambda>d. snd (enforce_rate_limit cfg hmac id j spec ident now d)) i spec ident now db =
    enforce_rate_limit cfg hmac id i spec ident now (snd (enforce_rate_limit cfg hmac id j spec ident now db))"
proof -
  let ?h = "hash_identifier hmac (spec_scope spec) ident" and ?s = "seconds (window_epoch spec now)"
  let ?e = "window_end spec now + seconds (RATE_LIMIT_BUCKET_RETENTION_SECONDS cfg)"
  let ?new = "\<lparr>rb_id = j, rb_scope = scope_value (spec_scope spec), identifier_hash = ?h, window_start = ?s,
      request_count = 1, rb_expires_at = ?e\<rparr>"
  let ?db1 = "db\<lparr>rl_maintenance := Some (m\<lparr>bucket_count := bucket_count m + 1\<rparr>), rl_buckets := rl_buckets db @ [?new]\<rparr>"
  have quiet: "cleanup_if_due cfg now db = db" "cleanup_if_due cfg now ?db1 = ?db1"
    using m by (simp_all add: cleanup_if_due_def)
  have nofind: "List.find (is_bucket spec ?h ?s) (rl_buckets db) = None"
    using none by (auto simp: find_None_iff list_ex_iff)
  have noupd: "update_where (is_bucket spec ?h ?s) f (rl_buckets db) = rl_buckets db" for f
    using none by (auto simp: list_ex_iff intro: update_where_none)
  have found: "List.find (is_bucket spec ?h ?s) (rl_buckets db @ [?new]) = Some ?new"
  proof -
    have "List.find p xs = None \<Longrightarrow> p x \<Longrightarrow> List.find p (xs @ [x]) = Some x" for p xs and x :: rate_limit_bucket
      by (induction xs) (auto split: if_splits)
    then show ?thesis using nofind by (simp add: is_bucket_def)
  qed
  have other: "snd (enforce_rate_limit cfg hmac id j spec ident now db) = ?db1"
    using acc none m by (simp add: enforce_rate_limit_def Let_def quiet consume_existing_bucket_def nofind noupd
        reserve_bucket_slot_def insert_bucket_def)
  have taken: "list_ex (is_bucket spec ?h ?s) (rl_buckets db @ [?new])" by (simp add: is_bucket_def)
  show ?thesis unfolding other
    unfolding enforce_rate_limit_def [of cfg hmac "\<lambda>d. snd (enforce_rate_limit cfg hmac id j spec ident now d)"]
      enforce_rate_limit_def [of cfg hmac id i]
    using acc m taken by (simp add: Let_def quiet consume_existing_bucket_def nofind noupd other found
        reserve_bucket_slot_def insert_bucket_def release_bucket_slot_def)
qed

theorem lost_race_serial_witness:
  "enforce_rate_limit example_rate_settings id
      (\<lambda>d. snd (enforce_rate_limit example_rate_settings id id 1 (spec_for example_rate_settings SIGNUP) ''account:1'' 5 d)) 2
      (spec_for example_rate_settings SIGNUP) ''account:1'' 5
      \<lparr>rl_buckets = [], rl_maintenance = Some \<lparr>next_cleanup_at = 9, bucket_count = 0\<rparr>\<rparr> =
   enforce_rate_limit example_rate_settings id id 2 (spec_for example_rate_settings SIGNUP) ''account:1'' 5
     (snd (enforce_rate_limit example_rate_settings id id 1 (spec_for example_rate_settings SIGNUP) ''account:1'' 5
      \<lparr>rl_buckets = [], rl_maintenance = Some \<lparr>next_cleanup_at = 9, bucket_count = 0\<rparr>\<rparr>))"
  by (rule lost_race_serial [where m = "\<lparr>next_cleanup_at = 9, bucket_count = 0\<rparr>"]) (simp_all add: example_rate_settings_def)

end
