(* ===== verification/Bandwidth.thy ===== *)
theory Bandwidth
  imports Models
begin

text \<open>
  Daily bandwidth accounting (\<^verbatim>\<open>services/bandwidth.py\<close> and the relay endpoint of
  \<^verbatim>\<open>api/internal.py\<close> that feeds it): relays report cumulative counters per boot, subscription and
  day; cursors remember the last accepted counters, and the differences are added to the daily totals of
  the subscription and of the edge. A day is its number. The shared lemmas on keyed counter tables come
  first.
\<close>

section \<open>Keyed tables of counters\<close>

definition upsert :: "('r \<Rightarrow> 'k) \<Rightarrow> 'k \<Rightarrow> ('r \<Rightarrow> 'r) \<Rightarrow> 'r \<Rightarrow> 'r list \<Rightarrow> 'r list" where
  "upsert key k change new rs =
     (if get_row key k rs = None then rs @ [new] else update_where (\<lambda>r. key r = k) change rs)"

definition value_at :: "('r \<Rightarrow> 'k) \<Rightarrow> ('r \<Rightarrow> int) \<Rightarrow> 'r list \<Rightarrow> 'k \<Rightarrow> int" where
  "value_at key v rs k = (case get_row key k rs of Some r \<Rightarrow> v r | None \<Rightarrow> 0)"

definition total :: "('r \<Rightarrow> 'k) \<Rightarrow> ('r \<Rightarrow> int) \<Rightarrow> ('k \<Rightarrow> bool) \<Rightarrow> 'r list \<Rightarrow> int" where
  "total key v p rs = sum_list (map v (filter (\<lambda>r. p (key r)) rs))"

text \<open>An upsert of the row of \<open>k\<close>, and when it adds \<open>d\<close> to the counter \<open>v\<close> of that row.\<close>

locale keyed_upsert =
  fixes key :: "'r \<Rightarrow> 'k" and k :: 'k and change :: "'r \<Rightarrow> 'r" and new :: 'r
  assumes key_change: "key r = k \<Longrightarrow> key (change r) = k"
    and key_new: "key new = k"
begin

definition adds :: "('r \<Rightarrow> int) \<Rightarrow> int \<Rightarrow> 'r list \<Rightarrow> bool" where
  "adds v d rs = (case get_row key k rs of None \<Rightarrow> v new = d | Some r \<Rightarrow> v (change r) = v r + d)"

lemma distinct_upsert: "distinct (map key rs) \<Longrightarrow> distinct (map key (upsert key k change new rs))"
proof -
  have "map key (update_where (\<lambda>r. key r = k) change rs) = map key rs"
    by (rule map_update_where) (simp add: key_change)
  then show "distinct (map key rs) \<Longrightarrow> distinct (map key (upsert key k change new rs))"
    by (simp add: upsert_def get_row_None key_new)
qed

lemma get_upsert:
  "get_row key q (upsert key k change new rs) =
     (if q = k then Some (case get_row key k rs of Some r \<Rightarrow> change r | None \<Rightarrow> new) else get_row key q rs)"
proof -
  have app: "get_row key q (rs @ [new]) =
      (case get_row key q rs of Some r \<Rightarrow> Some r | None \<Rightarrow> if q = k then Some new else None)"
    by (induction rs) (auto simp: get_row_def key_new)
  have upd: "get_row key q (update_where (\<lambda>r. key r = k) change rs) =
      map_option (\<lambda>r. if key r = k then change r else r) (get_row key q rs)"
    by (rule get_row_update_where) (simp add: key_change)
  have found: "get_row key q rs = Some r \<Longrightarrow> key r = q" for r using get_row_Some by fast
  show ?thesis
  proof (cases "get_row key k rs")
    case None
    then show ?thesis unfolding upsert_def using app by (cases "q = k") (simp_all split: option.splits)
  next
    case (Some r)
    then show ?thesis unfolding upsert_def using upd found
      by (cases "q = k") (simp_all, cases "get_row key q rs", simp_all)
  qed
qed

lemma value_upsert:
  "adds v d rs \<Longrightarrow>
    value_at key v (upsert key k change new rs) q = value_at key v rs q + (if q = k then d else 0)"
  by (auto simp: adds_def value_at_def get_upsert split: option.splits)

lemma total_upsert:
  assumes "distinct (map key rs)" and "adds v d rs"
  shows "total key v p (upsert key k change new rs) = total key v p rs + (if p k then d else 0)"
proof (cases "get_row key k rs")
  case None
  then show ?thesis using assms(2) by (simp add: upsert_def total_def key_new adds_def)
next
  case (Some r)
  then have "v (change r) = v r + d" using assms(2) by (simp add: adds_def)
  with Some assms(1) have "total key v p (update_where (\<lambda>r. key r = k) change rs) = total key v p rs + (if p k then d else 0)"
  proof (induction rs)
    case (Cons x rs)
    show ?case
    proof (cases "key x = k")
      case True
      then have "\<forall>r \<in> set rs. key r \<noteq> k" using Cons.prems(2) by (auto simp: image_iff)
      then have "update_where (\<lambda>r. key r = k) change rs = rs" by (simp add: update_where_none)
      moreover have "v (change x) = v x + d" using Cons.prems True by (simp add: get_row_def)
      ultimately show ?thesis using True by (simp add: total_def table_simps key_change)
    next
      case False
      then have "total key v p (update_where (\<lambda>r. key r = k) change rs) = total key v p rs + (if p k then d else 0)"
        using Cons by (simp add: get_row_def)
      then show ?thesis using False by (simp add: total_def table_simps)
    qed
  qed (simp add: get_row_def)
  then show ?thesis using Some by (simp add: upsert_def)
qed

lemma upsert_agree:
  "get_row key k rs = get_row key k rs2 \<Longrightarrow> get_row key q rs = get_row key q rs2 \<Longrightarrow>
    get_row key q (upsert key k change new rs) = get_row key q (upsert key k change new rs2)"
  by (simp add: get_upsert)

lemma set_upsert:
  "r' \<in> set (upsert key k change new rs) \<Longrightarrow>
    r' \<in> set rs \<or> (get_row key k rs = None \<and> r' = new) \<or> (\<exists>r \<in> set rs. key r = k \<and> r' = change r)"
  by (auto simp: upsert_def in_update_where split: if_splits)

end

section \<open>Tables and reports\<close>

definition MAX_INT64 :: int where "MAX_INT64 = 9223372036854775807"

record bandwidth_report =
  rep_subscription_id :: string
  rep_day :: int
  rep_ingress :: int
  rep_egress :: int

record bandwidth_cursor =
  cur_edge_id :: string
  cur_boot_id :: string
  cur_subscription_id :: int
  cur_day :: int
  cur_sequence :: int
  cur_ingress :: int
  cur_egress :: int

record subscription_daily =
  sd_subscription_id :: int
  sd_day :: int
  sd_ingress :: int
  sd_egress :: int

record edge_daily =
  ed_edge_id :: string
  ed_day :: int
  ed_ingress :: int
  ed_egress :: int

record bandwidth_db =
  bandwidth_cursors :: "bandwidth_cursor list"
  subscription_days :: "subscription_daily list"
  edge_days :: "edge_daily list"

datatype bandwidth_error =
  BandwidthCounterDecreaseError | BandwidthUnknownSubscriptionError | BandwidthAggregateOverflowError

definition cursor_key :: "bandwidth_cursor \<Rightarrow> string \<times> string \<times> int \<times> int" where
  "cursor_key c = (cur_edge_id c, cur_boot_id c, cur_subscription_id c, cur_day c)"

definition subscription_day_key :: "subscription_daily \<Rightarrow> int \<times> int" where
  "subscription_day_key a = (sd_subscription_id a, sd_day a)"

definition edge_day_key :: "edge_daily \<Rightarrow> string \<times> int" where
  "edge_day_key a = (ed_edge_id a, ed_day a)"

section \<open>Ingestion\<close>

text \<open>\<^verbatim>\<open>ON CONFLICT DO UPDATE ... WHERE\<close>: no row comes back when the addition would overflow.\<close>

definition increment_edge_daily_bandwidth ::
  "string \<Rightarrow> int \<Rightarrow> int \<Rightarrow> int \<Rightarrow> edge_daily list \<Rightarrow> bandwidth_error + edge_daily list" where
  "increment_edge_daily_bandwidth edge day din dout es =
     (case get_row edge_day_key (edge, day) es of
        Some e \<Rightarrow> if ed_ingress e \<le> MAX_INT64 - din \<and> ed_egress e \<le> MAX_INT64 - dout
          then Inr (update_where (\<lambda>e. edge_day_key e = (edge, day))
            (\<lambda>e. e\<lparr>ed_ingress := ed_ingress e + din, ed_egress := ed_egress e + dout\<rparr>) es)
          else Inl BandwidthAggregateOverflowError
      | None \<Rightarrow> Inr (es @ [\<lparr>ed_edge_id = edge, ed_day = day, ed_ingress = din, ed_egress = dout\<rparr>]))"

definition add_subscription_day ::
  "int \<Rightarrow> int \<Rightarrow> int \<Rightarrow> int \<Rightarrow> subscription_daily list \<Rightarrow> bandwidth_error + subscription_daily list" where
  "add_subscription_day sid day din dout rs =
     (case get_row subscription_day_key (sid, day) rs of
        None \<Rightarrow> Inr (rs @ [\<lparr>sd_subscription_id = sid, sd_day = day, sd_ingress = din, sd_egress = dout\<rparr>])
      | Some a \<Rightarrow> if din > MAX_INT64 - sd_ingress a \<or> dout > MAX_INT64 - sd_egress a
          then Inl BandwidthAggregateOverflowError
          else Inr (update_where (\<lambda>a. subscription_day_key a = (sid, day))
            (\<lambda>a. a\<lparr>sd_ingress := sd_ingress a + din, sd_egress := sd_egress a + dout\<rparr>) rs))"

definition move_cursor ::
  "string \<Rightarrow> string \<Rightarrow> int \<Rightarrow> int \<Rightarrow> bandwidth_report \<Rightarrow> bandwidth_cursor list \<Rightarrow> bandwidth_cursor list" where
  "move_cursor edge boot seqn sid rep cs =
     upsert cursor_key (edge, boot, sid, rep_day rep)
       (\<lambda>c. c\<lparr>cur_sequence := seqn, cur_ingress := rep_ingress rep, cur_egress := rep_egress rep\<rparr>)
       \<lparr>cur_edge_id = edge, cur_boot_id = boot, cur_subscription_id = sid, cur_day = rep_day rep,
        cur_sequence = seqn, cur_ingress = rep_ingress rep, cur_egress = rep_egress rep\<rparr> cs"

definition apply_report ::
  "string \<Rightarrow> string \<Rightarrow> int \<Rightarrow> int \<times> bandwidth_report \<Rightarrow> bandwidth_db \<Rightarrow> bandwidth_error + bandwidth_db" where
  "apply_report edge boot seqn sr db =
     (let (sid, rep) = sr;
          cursor = get_row cursor_key (edge, boot, sid, rep_day rep) (bandwidth_cursors db);
          pin = (case cursor of Some c \<Rightarrow> cur_ingress c | None \<Rightarrow> 0);
          pout = (case cursor of Some c \<Rightarrow> cur_egress c | None \<Rightarrow> 0);
          din = rep_ingress rep - pin; dout = rep_egress rep - pout
      in if (case cursor of Some c \<Rightarrow> seqn \<le> cur_sequence c | None \<Rightarrow> False) then Inr db
         else if rep_ingress rep < pin \<or> rep_egress rep < pout then Inl BandwidthCounterDecreaseError
         else case add_subscription_day sid (rep_day rep) din dout (subscription_days db) of
           Inl e \<Rightarrow> Inl e
         | Inr sds \<Rightarrow>
             (case increment_edge_daily_bandwidth edge (rep_day rep) din dout (edge_days db) of
                Inl e \<Rightarrow> Inl e
              | Inr eds \<Rightarrow> Inr (db\<lparr>subscription_days := sds, edge_days := eds,
                  bandwidth_cursors := move_cursor edge boot seqn sid rep (bandwidth_cursors db)\<rparr>)))"

fun apply_reports ::
  "string \<Rightarrow> string \<Rightarrow> int \<Rightarrow> (int \<times> bandwidth_report) list \<Rightarrow> bandwidth_db \<Rightarrow> bandwidth_error + bandwidth_db" where
  "apply_reports edge boot seqn [] db = Inr db"
| "apply_reports edge boot seqn (sr # srs) db =
     (case apply_report edge boot seqn sr db of
        Inl e \<Rightarrow> Inl e
      | Inr db' \<Rightarrow> apply_reports edge boot seqn srs db')"

text \<open>The reports with the internal ids of their subscriptions, by id and day.\<close>

definition resolve_reports :: "subscription list \<Rightarrow> bandwidth_report list \<Rightarrow> (int \<times> bandwidth_report) list" where
  "resolve_reports subs reports =
     sort_key fst (sort_key (\<lambda>sr. rep_day (snd sr))
       (map (\<lambda>r. (sub_id (the (get_row sub_public_id (rep_subscription_id r) subs)), r)) reports))"

definition ingest_daily_bandwidth ::
  "subscription list \<Rightarrow> string \<Rightarrow> string \<Rightarrow> int \<Rightarrow> bandwidth_report list \<Rightarrow> bandwidth_db \<Rightarrow>
    bandwidth_error + bandwidth_db" where
  "ingest_daily_bandwidth subs edge boot seqn reports db =
     (if list_ex (\<lambda>r. get_row sub_public_id (rep_subscription_id r) subs = None) reports
      then Inl BandwidthUnknownSubscriptionError
      else apply_reports edge boot seqn (resolve_reports subs reports) db)"

section \<open>The relay endpoint\<close>

record bandwidth_settings =
  BANDWIDTH_METRICS_ENABLED :: bool
  BANDWIDTH_RETENTION_DAYS :: int
  BANDWIDTH_INGEST_MAX_AGE_DAYS :: int
  BANDWIDTH_CLEANUP_BATCH_SIZE :: nat
  relay_secret :: string
  relay_heartbeat_keys :: "(string \<times> string) list"

record daily_bandwidth_request =
  body_edge_id :: string
  body_boot_id :: string
  body_sequence :: int
  body_reports :: "bandwidth_report list"

datatype http_result = HTTPException nat | Accepted

definition in_int64 :: "int \<Rightarrow> bool" where
  "in_int64 n = (0 \<le> n \<and> n \<le> MAX_INT64)"

text \<open>The constraints of the request schema; a body that misses one is answered with status 422.\<close>

definition request_schema :: "daily_bandwidth_request \<Rightarrow> bool" where
  "request_schema body =
     (1 \<le> length (body_edge_id body) \<and> length (body_edge_id body) \<le> 63 \<and> in_int64 (body_sequence body) \<and>
      1 \<le> length (body_reports body) \<and> length (body_reports body) \<le> 1000 \<and>
      list_all (\<lambda>r. in_int64 (rep_ingress r) \<and> in_int64 (rep_egress r)) (body_reports body))"

definition require_relay_secret :: "bandwidth_settings \<Rightarrow> string \<Rightarrow> bool" where
  "require_relay_secret cfg secret = (secret \<noteq> [] \<and> secret = relay_secret cfg)"

definition relay_daily_bandwidth ::
  "bandwidth_settings \<Rightarrow> subscription list \<Rightarrow> int \<Rightarrow> string \<Rightarrow> string \<Rightarrow> daily_bandwidth_request \<Rightarrow> bandwidth_db \<Rightarrow>
    http_result \<times> bandwidth_db" where
  "relay_daily_bandwidth cfg subs today secret token body db =
     (let reports = body_reports body; keys = map (\<lambda>r. (rep_subscription_id r, rep_day r)) reports in
      if \<not> request_schema body then (HTTPException 422, db)
      else if \<not> BANDWIDTH_METRICS_ENABLED cfg then (HTTPException 404, db)
      else if \<not> require_relay_secret cfg secret then (HTTPException 401, db)
      else if token = [] \<or> map_of (relay_heartbeat_keys cfg) (body_edge_id body) \<noteq> Some token
      then (HTTPException 401, db)
      else if \<not> distinct keys then (HTTPException 422, db)
      else if list_ex (\<lambda>r. rep_day r > today) reports then (HTTPException 422, db)
      else if list_ex (\<lambda>r. rep_day r < today - BANDWIDTH_INGEST_MAX_AGE_DAYS cfg) reports
      then (HTTPException 422, db)
      else case ingest_daily_bandwidth subs (body_edge_id body) (body_boot_id body) (body_sequence body) reports db of
        Inl BandwidthUnknownSubscriptionError \<Rightarrow> (HTTPException 422, db)
      | Inl BandwidthCounterDecreaseError \<Rightarrow> (HTTPException 409, db)
      | Inl BandwidthAggregateOverflowError \<Rightarrow> (HTTPException 409, db)
      | Inr db' \<Rightarrow> (Accepted, db'))"

section \<open>Cleanup\<close>

text \<open>\<open>collation\<close> is the order the database gives the edge names.\<close>

definition stale_cursors :: "bandwidth_settings \<Rightarrow> (string \<Rightarrow> nat) \<Rightarrow> int \<Rightarrow> bandwidth_cursor list \<Rightarrow> bandwidth_cursor list" where
  "stale_cursors cfg collation cutoff cs =
     take (BANDWIDTH_CLEANUP_BATCH_SIZE cfg)
       (sort_key cur_day (sort_key (\<lambda>c. collation (cur_edge_id c)) (sort_key cur_subscription_id
         (filter (\<lambda>c. cur_day c < cutoff) cs))))"

definition cleanup_daily_bandwidth ::
  "bandwidth_settings \<Rightarrow> (string \<Rightarrow> nat) \<Rightarrow> int \<Rightarrow> bandwidth_db \<Rightarrow> (nat \<times> nat \<times> nat) \<times> bandwidth_db" where
  "cleanup_daily_bandwidth cfg collation today db =
     (let source_cutoff = today - BANDWIDTH_INGEST_MAX_AGE_DAYS cfg;
          aggregate_cutoff = today - BANDWIDTH_RETENTION_DAYS cfg;
          batch = BANDWIDTH_CLEANUP_BATCH_SIZE cfg;
          source = stale_cursors cfg collation source_cutoff (bandwidth_cursors db);
          db1 = db\<lparr>bandwidth_cursors := filter (\<lambda>c. c \<notin> set source) (bandwidth_cursors db)\<rparr>
      in if length source = batch then ((length source, 0, 0), db1)
         else
           let aggs = take batch (sort_key sd_day (sort_key sd_subscription_id
                 (filter (\<lambda>a. sd_day a < aggregate_cutoff) (subscription_days db))));
               eds = take batch (sort_key ed_day (sort_key (\<lambda>e. collation (ed_edge_id e))
                 (filter (\<lambda>e. ed_day e < aggregate_cutoff) (edge_days db))))
           in ((length source, length aggs, length eds),
               db1\<lparr>subscription_days := filter (\<lambda>a. a \<notin> set aggs) (subscription_days db),
                   edge_days := filter (\<lambda>e. e \<notin> set eds) (edge_days db)\<rparr>))"


section \<open>Conservation\<close>

text \<open>
  For every day from \<open>from\<close> on, the daily totals of a subscription and of an edge are the sums of what
  the cursors of that day have counted; every counter fits its column.
\<close>

definition same_subscription_day :: "int \<times> int \<Rightarrow> string \<times> string \<times> int \<times> int \<Rightarrow> bool" where
  "same_subscription_day q = (\<lambda>(e, b, s, d). (s, d) = q)"

definition same_edge_day :: "string \<times> int \<Rightarrow> string \<times> string \<times> int \<times> int \<Rightarrow> bool" where
  "same_edge_day q = (\<lambda>(e, b, s, d). (e, d) = q)"

definition conserved :: "int \<Rightarrow> bandwidth_db \<Rightarrow> bool" where
  "conserved from db \<longleftrightarrow>
     (\<forall>q. from \<le> snd q \<longrightarrow>
        value_at subscription_day_key sd_ingress (subscription_days db) q =
          total cursor_key cur_ingress (same_subscription_day q) (bandwidth_cursors db) \<and>
        value_at subscription_day_key sd_egress (subscription_days db) q =
          total cursor_key cur_egress (same_subscription_day q) (bandwidth_cursors db)) \<and>
     (\<forall>q. from \<le> snd q \<longrightarrow>
        value_at edge_day_key ed_ingress (edge_days db) q =
          total cursor_key cur_ingress (same_edge_day q) (bandwidth_cursors db) \<and>
        value_at edge_day_key ed_egress (edge_days db) q =
          total cursor_key cur_egress (same_edge_day q) (bandwidth_cursors db))"

definition tables_ok :: "bandwidth_db \<Rightarrow> bool" where
  "tables_ok db \<longleftrightarrow> distinct (map cursor_key (bandwidth_cursors db)) \<and>
     distinct (map subscription_day_key (subscription_days db)) \<and> distinct (map edge_day_key (edge_days db)) \<and>
     (\<forall>c \<in> set (bandwidth_cursors db). in_int64 (cur_ingress c) \<and> in_int64 (cur_egress c)) \<and>
     (\<forall>a \<in> set (subscription_days db). in_int64 (sd_ingress a) \<and> in_int64 (sd_egress a)) \<and>
     (\<forall>e \<in> set (edge_days db). in_int64 (ed_ingress e) \<and> in_int64 (ed_egress e))"

text \<open>The three writes of one report as upserts.\<close>

lemma add_subscription_day_upsert:
  "add_subscription_day sid day din dout rs = Inr rs' \<Longrightarrow>
     rs' = upsert subscription_day_key (sid, day)
       (\<lambda>a. a\<lparr>sd_ingress := sd_ingress a + din, sd_egress := sd_egress a + dout\<rparr>)
       \<lparr>sd_subscription_id = sid, sd_day = day, sd_ingress = din, sd_egress = dout\<rparr> rs"
  by (auto simp: add_subscription_day_def upsert_def split: option.splits if_splits)

lemma increment_edge_upsert:
  "increment_edge_daily_bandwidth edge day din dout es = Inr es' \<Longrightarrow>
     es' = upsert edge_day_key (edge, day)
       (\<lambda>e. e\<lparr>ed_ingress := ed_ingress e + din, ed_egress := ed_egress e + dout\<rparr>)
       \<lparr>ed_edge_id = edge, ed_day = day, ed_ingress = din, ed_egress = dout\<rparr> es"
  by (auto simp: increment_edge_daily_bandwidth_def upsert_def split: option.splits if_splits)

interpretation sub_day: keyed_upsert subscription_day_key "(sid, day)"
    "\<lambda>a. a\<lparr>sd_ingress := sd_ingress a + din, sd_egress := sd_egress a + dout\<rparr>"
    "\<lparr>sd_subscription_id = sid, sd_day = day, sd_ingress = din, sd_egress = dout\<rparr>" for sid day din dout
  by unfold_locales (auto simp: subscription_day_key_def)

interpretation edge_day: keyed_upsert edge_day_key "(edge, day)"
    "\<lambda>e. e\<lparr>ed_ingress := ed_ingress e + din, ed_egress := ed_egress e + dout\<rparr>"
    "\<lparr>ed_edge_id = edge, ed_day = day, ed_ingress = din, ed_egress = dout\<rparr>" for edge day din dout
  by unfold_locales (auto simp: edge_day_key_def)

interpretation cursor: keyed_upsert cursor_key "(edge, boot, sid, rep_day rep)"
    "\<lambda>c. c\<lparr>cur_sequence := seqn, cur_ingress := rep_ingress rep, cur_egress := rep_egress rep\<rparr>"
    "\<lparr>cur_edge_id = edge, cur_boot_id = boot, cur_subscription_id = sid, cur_day = rep_day rep,
      cur_sequence = seqn, cur_ingress = rep_ingress rep, cur_egress = rep_egress rep\<rparr>" for edge boot sid seqn rep
  by unfold_locales (auto simp: cursor_key_def)

text \<open>An accepted report: the deltas it adds, and its three writes.\<close>

definition report_delta :: "(bandwidth_cursor \<Rightarrow> int) \<Rightarrow> int \<Rightarrow> string \<Rightarrow> string \<Rightarrow> int \<Rightarrow> int \<Rightarrow> bandwidth_db \<Rightarrow> int" where
  "report_delta f n edge boot sid day db =
     n - value_at cursor_key f (bandwidth_cursors db) (edge, boot, sid, day)"

lemma apply_report_cases:
  assumes run: "apply_report edge boot seqn (sid, rep) db = Inr db'"
    and din: "din = report_delta cur_ingress (rep_ingress rep) edge boot sid (rep_day rep) db"
    and dout: "dout = report_delta cur_egress (rep_egress rep) edge boot sid (rep_day rep) db"
  obtains (replayed) c where "get_row cursor_key (edge, boot, sid, rep_day rep) (bandwidth_cursors db) = Some c"
      "seqn \<le> cur_sequence c" "db' = db"
  | (counted) sds eds where "0 \<le> din" "0 \<le> dout"
      "add_subscription_day sid (rep_day rep) din dout (subscription_days db) = Inr sds"
      "increment_edge_daily_bandwidth edge (rep_day rep) din dout (edge_days db) = Inr eds"
      "db' = db\<lparr>subscription_days := sds, edge_days := eds,
         bandwidth_cursors := move_cursor edge boot seqn sid rep (bandwidth_cursors db)\<rparr>"
proof -
  define cursor where "cursor = get_row cursor_key (edge, boot, sid, rep_day rep) (bandwidth_cursors db)"
  have d: "rep_ingress rep - (case cursor of Some c \<Rightarrow> cur_ingress c | None \<Rightarrow> 0) = din"
    "rep_egress rep - (case cursor of Some c \<Rightarrow> cur_egress c | None \<Rightarrow> 0) = dout"
    by (simp_all add: din dout report_delta_def value_at_def cursor_def)
  have less: "rep_ingress rep < (case cursor of Some c \<Rightarrow> cur_ingress c | None \<Rightarrow> 0) \<longleftrightarrow> din < 0"
    "rep_egress rep < (case cursor of Some c \<Rightarrow> cur_egress c | None \<Rightarrow> 0) \<longleftrightarrow> dout < 0"
    unfolding d [symmetric] by linarith+
  show thesis
  proof (cases "case cursor of Some c \<Rightarrow> seqn \<le> cur_sequence c | None \<Rightarrow> False")
    case True
    then obtain c where c: "cursor = Some c" "seqn \<le> cur_sequence c" by (cases cursor) simp_all
    have "apply_report edge boot seqn (sid, rep) db = Inr db"
      unfolding apply_report_def Let_def prod.case cursor_def [symmetric] using c by simp
    then show thesis using run replayed [OF c(1) [unfolded cursor_def] c(2)] by simp
  next
    case False
    have rest: "apply_report edge boot seqn (sid, rep) db =
      (if din < 0 \<or> dout < 0 then Inl BandwidthCounterDecreaseError
       else case add_subscription_day sid (rep_day rep) din dout (subscription_days db) of
           Inl e \<Rightarrow> Inl e
         | Inr sds \<Rightarrow>
             (case increment_edge_daily_bandwidth edge (rep_day rep) din dout (edge_days db) of
                Inl e \<Rightarrow> Inl e
              | Inr eds \<Rightarrow> Inr (db\<lparr>subscription_days := sds, edge_days := eds,
                  bandwidth_cursors := move_cursor edge boot seqn sid rep (bandwidth_cursors db)\<rparr>)))"
      unfolding apply_report_def Let_def prod.case cursor_def [symmetric] d less using False by (simp only: if_False)
    have "0 \<le> din \<and> 0 \<le> dout"
    proof (rule ccontr)
      assume "\<not> (0 \<le> din \<and> 0 \<le> dout)"
      then have "din < 0 \<or> dout < 0" by linarith
      then show False using run rest by simp
    qed
    then show thesis using run rest counted by (cases "add_subscription_day sid (rep_day rep) din dout (subscription_days db)";
        cases "increment_edge_daily_bandwidth edge (rep_day rep) din dout (edge_days db)") (simp_all add: not_less [symmetric])
  qed
qed

lemma add_subscription_day_effect:
  assumes run: "add_subscription_day sid day din dout rs = Inr rs'"
  shows "value_at subscription_day_key sd_ingress rs' q = value_at subscription_day_key sd_ingress rs q + (if q = (sid, day) then din else 0)"
    "value_at subscription_day_key sd_egress rs' q = value_at subscription_day_key sd_egress rs q + (if q = (sid, day) then dout else 0)"
    "distinct (map subscription_day_key rs) \<Longrightarrow> distinct (map subscription_day_key rs')"
    "in_int64 din \<Longrightarrow> in_int64 dout \<Longrightarrow> \<forall>a \<in> set rs. in_int64 (sd_ingress a) \<and> in_int64 (sd_egress a) \<Longrightarrow>
      distinct (map subscription_day_key rs) \<Longrightarrow> \<forall>a \<in> set rs'. in_int64 (sd_ingress a) \<and> in_int64 (sd_egress a)"
proof -
  note up = add_subscription_day_upsert [OF run]
  show "value_at subscription_day_key sd_ingress rs' q = value_at subscription_day_key sd_ingress rs q + (if q = (sid, day) then din else 0)"
    unfolding up by (rule sub_day.value_upsert) (simp add: sub_day.adds_def split: option.splits)
  show "value_at subscription_day_key sd_egress rs' q = value_at subscription_day_key sd_egress rs q + (if q = (sid, day) then dout else 0)"
    unfolding up by (rule sub_day.value_upsert) (simp add: sub_day.adds_def split: option.splits)
  show "distinct (map subscription_day_key rs) \<Longrightarrow> distinct (map subscription_day_key rs')"
    unfolding up by (rule sub_day.distinct_upsert)
  assume range: "in_int64 din" "in_int64 dout" "\<forall>a \<in> set rs. in_int64 (sd_ingress a) \<and> in_int64 (sd_egress a)"
    and d: "distinct (map subscription_day_key rs)"
  show "\<forall>a \<in> set rs'. in_int64 (sd_ingress a) \<and> in_int64 (sd_egress a)"
  proof
    fix a' assume "a' \<in> set rs'"
    from sub_day.set_upsert [OF this [unfolded up]] show "in_int64 (sd_ingress a') \<and> in_int64 (sd_egress a')"
    proof (elim disjE conjE bexE)
      fix a assume a: "a \<in> set rs" "subscription_day_key a = (sid, day)"
        "a' = a\<lparr>sd_ingress := sd_ingress a + din, sd_egress := sd_egress a + dout\<rparr>"
      have "get_row subscription_day_key (sid, day) rs = Some a" using get_row_unique [OF d a(1)] a(2) by simp
      then have "sd_ingress a + din \<le> MAX_INT64" "sd_egress a + dout \<le> MAX_INT64"
        using run by (auto simp: add_subscription_day_def split: if_splits)
      then show ?thesis using a range by (auto simp: in_int64_def)
    qed (use range in auto)
  qed
qed

lemma increment_edge_effect:
  assumes run: "increment_edge_daily_bandwidth edge day din dout es = Inr es'"
  shows "value_at edge_day_key ed_ingress es' q = value_at edge_day_key ed_ingress es q + (if q = (edge, day) then din else 0)"
    "value_at edge_day_key ed_egress es' q = value_at edge_day_key ed_egress es q + (if q = (edge, day) then dout else 0)"
    "distinct (map edge_day_key es) \<Longrightarrow> distinct (map edge_day_key es')"
    "in_int64 din \<Longrightarrow> in_int64 dout \<Longrightarrow> \<forall>e \<in> set es. in_int64 (ed_ingress e) \<and> in_int64 (ed_egress e) \<Longrightarrow>
      distinct (map edge_day_key es) \<Longrightarrow> \<forall>e \<in> set es'. in_int64 (ed_ingress e) \<and> in_int64 (ed_egress e)"
proof -
  note up = increment_edge_upsert [OF run]
  show "value_at edge_day_key ed_ingress es' q = value_at edge_day_key ed_ingress es q + (if q = (edge, day) then din else 0)"
    unfolding up by (rule edge_day.value_upsert) (simp add: edge_day.adds_def split: option.splits)
  show "value_at edge_day_key ed_egress es' q = value_at edge_day_key ed_egress es q + (if q = (edge, day) then dout else 0)"
    unfolding up by (rule edge_day.value_upsert) (simp add: edge_day.adds_def split: option.splits)
  show "distinct (map edge_day_key es) \<Longrightarrow> distinct (map edge_day_key es')"
    unfolding up by (rule edge_day.distinct_upsert)
  assume range: "in_int64 din" "in_int64 dout" "\<forall>e \<in> set es. in_int64 (ed_ingress e) \<and> in_int64 (ed_egress e)"
    and d: "distinct (map edge_day_key es)"
  show "\<forall>e \<in> set es'. in_int64 (ed_ingress e) \<and> in_int64 (ed_egress e)"
  proof
    fix e' assume "e' \<in> set es'"
    from edge_day.set_upsert [OF this [unfolded up]] show "in_int64 (ed_ingress e') \<and> in_int64 (ed_egress e')"
    proof (elim disjE conjE bexE)
      fix e assume e: "e \<in> set es" "edge_day_key e = (edge, day)"
        "e' = e\<lparr>ed_ingress := ed_ingress e + din, ed_egress := ed_egress e + dout\<rparr>"
      have "get_row edge_day_key (edge, day) es = Some e" using get_row_unique [OF d e(1)] e(2) by simp
      then have "ed_ingress e + din \<le> MAX_INT64" "ed_egress e + dout \<le> MAX_INT64"
        using run by (auto simp: increment_edge_daily_bandwidth_def split: if_splits)
      then show ?thesis using e range by (auto simp: in_int64_def)
    qed (use range in auto)
  qed
qed

lemma move_cursor_effect:
  assumes d: "distinct (map cursor_key cs)"
  shows "total cursor_key cur_ingress p (move_cursor edge boot seqn sid rep cs) =
      total cursor_key cur_ingress p cs + (if p (edge, boot, sid, rep_day rep)
        then rep_ingress rep - value_at cursor_key cur_ingress cs (edge, boot, sid, rep_day rep) else 0)"
    "total cursor_key cur_egress p (move_cursor edge boot seqn sid rep cs) =
      total cursor_key cur_egress p cs + (if p (edge, boot, sid, rep_day rep)
        then rep_egress rep - value_at cursor_key cur_egress cs (edge, boot, sid, rep_day rep) else 0)"
    "distinct (map cursor_key (move_cursor edge boot seqn sid rep cs))"
    "get_row cursor_key (edge, boot, sid, rep_day rep) (move_cursor edge boot seqn sid rep cs) = Some c \<Longrightarrow> cur_sequence c = seqn"
    "\<forall>c \<in> set cs. in_int64 (cur_ingress c) \<and> in_int64 (cur_egress c) \<Longrightarrow> in_int64 (rep_ingress rep) \<Longrightarrow>
      in_int64 (rep_egress rep) \<Longrightarrow>
      \<forall>c \<in> set (move_cursor edge boot seqn sid rep cs). in_int64 (cur_ingress c) \<and> in_int64 (cur_egress c)"
proof -
  show "total cursor_key cur_ingress p (move_cursor edge boot seqn sid rep cs) =
      total cursor_key cur_ingress p cs + (if p (edge, boot, sid, rep_day rep)
        then rep_ingress rep - value_at cursor_key cur_ingress cs (edge, boot, sid, rep_day rep) else 0)"
    unfolding move_cursor_def
    by (rule cursor.total_upsert [OF d]) (simp add: cursor.adds_def value_at_def split: option.splits)
  show "total cursor_key cur_egress p (move_cursor edge boot seqn sid rep cs) =
      total cursor_key cur_egress p cs + (if p (edge, boot, sid, rep_day rep)
        then rep_egress rep - value_at cursor_key cur_egress cs (edge, boot, sid, rep_day rep) else 0)"
    unfolding move_cursor_def
    by (rule cursor.total_upsert [OF d]) (simp add: cursor.adds_def value_at_def split: option.splits)
  show "distinct (map cursor_key (move_cursor edge boot seqn sid rep cs))"
    unfolding move_cursor_def by (rule cursor.distinct_upsert [OF d])
  show "get_row cursor_key (edge, boot, sid, rep_day rep) (move_cursor edge boot seqn sid rep cs) = Some c \<Longrightarrow> cur_sequence c = seqn"
    unfolding move_cursor_def by (auto simp: cursor.get_upsert split: option.splits)
  assume "\<forall>c \<in> set cs. in_int64 (cur_ingress c) \<and> in_int64 (cur_egress c)" "in_int64 (rep_ingress rep)" "in_int64 (rep_egress rep)"
  then show "\<forall>c \<in> set (move_cursor edge boot seqn sid rep cs). in_int64 (cur_ingress c) \<and> in_int64 (cur_egress c)"
    unfolding move_cursor_def by (fastforce dest: cursor.set_upsert)
qed

lemma value_at_range:
  "\<forall>c \<in> set cs. in_int64 (v c) \<Longrightarrow> in_int64 (value_at key v cs k)"
  by (auto simp: value_at_def in_int64_def MAX_INT64_def split: option.splits dest: get_row_Some)

text \<open>One report keeps the tables and the sums.\<close>

lemma apply_report_keeps:
  assumes run: "apply_report edge boot seqn (sid, rep) db = Inr db'" and ok: "tables_ok db"
    and rep: "in_int64 (rep_ingress rep)" "in_int64 (rep_egress rep)"
  shows "tables_ok db'" "conserved from db \<Longrightarrow> conserved from db'"
proof -
  let ?k = "(edge, boot, sid, rep_day rep)"
  let ?din = "report_delta cur_ingress (rep_ingress rep) edge boot sid (rep_day rep) db"
  let ?dout = "report_delta cur_egress (rep_egress rep) edge boot sid (rep_day rep) db"
  have d: "distinct (map cursor_key (bandwidth_cursors db))" using ok by (simp add: tables_ok_def)
  have cur: "in_int64 (value_at cursor_key cur_ingress (bandwidth_cursors db) ?k)"
    "in_int64 (value_at cursor_key cur_egress (bandwidth_cursors db) ?k)"
    using ok by (auto simp: tables_ok_def intro!: value_at_range)
  have "tables_ok db' \<and> (conserved from db \<longrightarrow> conserved from db')"
    using run refl refl
  proof (cases rule: apply_report_cases)
    case (counted sds eds)
    have range: "in_int64 ?din" "in_int64 ?dout"
      using counted(1,2) rep cur by (auto simp: in_int64_def report_delta_def)
    note s = add_subscription_day_effect [OF counted(3)] and e = increment_edge_effect [OF counted(4)]
      and c = move_cursor_effect [OF d, where edge = edge and boot = boot and seqn = seqn and sid = sid and rep = rep]
    have o: "distinct (map subscription_day_key (subscription_days db))" "distinct (map edge_day_key (edge_days db))"
      "\<forall>c \<in> set (bandwidth_cursors db). in_int64 (cur_ingress c) \<and> in_int64 (cur_egress c)"
      "\<forall>a \<in> set (subscription_days db). in_int64 (sd_ingress a) \<and> in_int64 (sd_egress a)"
      "\<forall>e \<in> set (edge_days db). in_int64 (ed_ingress e) \<and> in_int64 (ed_egress e)"
      using ok unfolding tables_ok_def by blast+
    note fs = c(3) s(3) [OF o(1)] e(3) [OF o(2)] c(5) [OF o(3) rep] s(4) [OF range o(4,1)] e(4) [OF range o(5,2)]
    have fields: "bandwidth_cursors db' = move_cursor edge boot seqn sid rep (bandwidth_cursors db)"
      "subscription_days db' = sds" "edge_days db' = eds" by (simp_all add: counted(5))
    have tables: "tables_ok db'" unfolding tables_ok_def fields by (intro conjI; fact fs)
    have conserved: "conserved from db'" if "conserved from db"
      using that unfolding conserved_def fields s(1,2) e(1,2) c(1,2)
      by (auto simp: same_subscription_day_def same_edge_day_def report_delta_def)
    show ?thesis using tables conserved by blast
  qed (use ok in simp)
  then show "tables_ok db'" "conserved from db \<Longrightarrow> conserved from db'" by blast+
qed

lemma apply_reports_keeps:
  assumes "apply_reports edge boot seqn srs db = Inr db'" and "tables_ok db"
    and "\<forall>sr \<in> set srs. in_int64 (rep_ingress (snd sr)) \<and> in_int64 (rep_egress (snd sr))"
  shows "tables_ok db' \<and> (conserved from db \<longrightarrow> conserved from db')"
  using assms
proof (induction edge boot seqn srs db rule: apply_reports.induct)
  case (2 edge boot seqn sr srs db)
  obtain sid rep where sr: "sr = (sid, rep)" by (cases sr)
  from 2(2) obtain db1 where one: "apply_report edge boot seqn (sid, rep) db = Inr db1"
    and rest: "apply_reports edge boot seqn srs db1 = Inr db'" by (auto simp: sr split: sum.splits)
  have k: "tables_ok db1" "conserved from db \<Longrightarrow> conserved from db1"
    using apply_report_keeps [OF one 2(3)] 2(4) by (simp_all add: sr)
  then show ?case using 2(1) [OF one [folded sr] rest k(1)] 2(4) by simp
qed simp

text \<open>A batch leaves every report's cursor at its sequence number or beyond.\<close>

definition covered :: "string \<Rightarrow> string \<Rightarrow> int \<Rightarrow> bandwidth_db \<Rightarrow> int \<times> bandwidth_report \<Rightarrow> bool" where
  "covered edge boot seqn db sr = (\<exists>c. get_row cursor_key (edge, boot, fst sr, rep_day (snd sr)) (bandwidth_cursors db) = Some c \<and>
     seqn \<le> cur_sequence c)"

lemma apply_report_covers:
  assumes "apply_report edge boot seqn sr db = Inr db'"
  shows "covered edge boot seqn db' sr" "covered edge boot seqn db q \<Longrightarrow> covered edge boot seqn db' q"
proof -
  obtain sid rep where sr: "sr = (sid, rep)" by (cases sr)
  have run: "apply_report edge boot seqn (sid, rep) db = Inr db'" using assms by (simp add: sr)
  have "covered edge boot seqn db' sr \<and> (covered edge boot seqn db q \<longrightarrow> covered edge boot seqn db' q)"
    using run refl refl
    by (cases rule: apply_report_cases)
      (auto simp: covered_def sr move_cursor_def cursor.get_upsert split: option.splits)
  then show "covered edge boot seqn db' sr" "covered edge boot seqn db q \<Longrightarrow> covered edge boot seqn db' q" by blast+
qed

lemma apply_reports_covers:
  "apply_reports edge boot seqn srs db = Inr db' \<Longrightarrow>
    (\<forall>sr \<in> set srs. covered edge boot seqn db' sr) \<and> (covered edge boot seqn db q \<longrightarrow> covered edge boot seqn db' q)"
proof (induction edge boot seqn srs db arbitrary: q rule: apply_reports.induct)
  case (2 edge boot seqn sr srs db)
  from 2(2) obtain db1 where one: "apply_report edge boot seqn sr db = Inr db1"
    and rest: "apply_reports edge boot seqn srs db1 = Inr db'" by (auto split: sum.splits)
  then show ?case using 2(1) [OF one rest] apply_report_covers [OF one] by auto
qed simp

lemma apply_reports_covered:
  "\<forall>sr \<in> set srs. covered edge boot seqn db sr \<Longrightarrow> apply_reports edge boot seqn srs db = Inr db"
proof (induction srs)
  case (Cons sr srs)
  then have "apply_report edge boot seqn sr db = Inr db"
    by (cases sr) (auto simp: covered_def apply_report_def)
  then show ?case using Cons by simp
qed simp

text \<open>Deleting rows outside the days of interest.\<close>

lemma total_filter:
  "\<forall>r \<in> set rs. p (key r) \<longrightarrow> keep r \<Longrightarrow> total key v p (filter keep rs) = total key v p rs"
  unfolding total_def filter_filter by (intro arg_cong [where f = "\<lambda>xs. sum_list (map v xs)"] filter_cong) auto

lemma value_at_filter:
  "distinct (map key rs) \<Longrightarrow> \<forall>r \<in> set rs. key r = q \<longrightarrow> keep r \<Longrightarrow>
    value_at key v (filter keep rs) q = value_at key v rs q"
  by (auto simp: value_at_def get_row_filter split: option.splits dest: get_row_Some)

lemma cleanup_rows:
  obtains kc ks ke where
    "bandwidth_cursors (snd (cleanup_daily_bandwidth cfg col today db)) = filter kc (bandwidth_cursors db)"
    "subscription_days (snd (cleanup_daily_bandwidth cfg col today db)) = filter ks (subscription_days db)"
    "edge_days (snd (cleanup_daily_bandwidth cfg col today db)) = filter ke (edge_days db)"
    "\<And>c. today - BANDWIDTH_INGEST_MAX_AGE_DAYS cfg \<le> cur_day c \<Longrightarrow> kc c"
    "\<And>a. today - BANDWIDTH_RETENTION_DAYS cfg \<le> sd_day a \<Longrightarrow> ks a"
    "\<And>e. today - BANDWIDTH_RETENTION_DAYS cfg \<le> ed_day e \<Longrightarrow> ke e"
proof -
  let ?source = "stale_cursors cfg col (today - BANDWIDTH_INGEST_MAX_AGE_DAYS cfg) (bandwidth_cursors db)"
  let ?aggs = "take (BANDWIDTH_CLEANUP_BATCH_SIZE cfg) (sort_key sd_day (sort_key sd_subscription_id
    (filter (\<lambda>a. sd_day a < today - BANDWIDTH_RETENTION_DAYS cfg) (subscription_days db))))"
  let ?eds = "take (BANDWIDTH_CLEANUP_BATCH_SIZE cfg) (sort_key ed_day (sort_key (\<lambda>e. col (ed_edge_id e))
    (filter (\<lambda>e. ed_day e < today - BANDWIDTH_RETENTION_DAYS cfg) (edge_days db))))"
  have c: "c \<notin> set ?source" if "today - BANDWIDTH_INGEST_MAX_AGE_DAYS cfg \<le> cur_day c" for c
    using that by (auto simp: stale_cursors_def dest!: in_set_takeD)
  have a: "a \<notin> set ?aggs" if "today - BANDWIDTH_RETENTION_DAYS cfg \<le> sd_day a" for a
    using that by (auto dest!: in_set_takeD)
  have e: "e \<notin> set ?eds" if "today - BANDWIDTH_RETENTION_DAYS cfg \<le> ed_day e" for e
    using that by (auto dest!: in_set_takeD)
  show thesis
  proof (cases "length ?source = BANDWIDTH_CLEANUP_BATCH_SIZE cfg")
    case True
    show thesis by (rule that [of "\<lambda>c. c \<notin> set ?source" "\<lambda>_. True" "\<lambda>_. True"])
      (use True c in \<open>simp_all add: cleanup_daily_bandwidth_def Let_def\<close>)
  next
    case False
    show thesis by (rule that [of "\<lambda>c. c \<notin> set ?source" "\<lambda>a. a \<notin> set ?aggs" "\<lambda>e. e \<notin> set ?eds"])
      (use False c a e in \<open>simp_all add: cleanup_daily_bandwidth_def Let_def\<close>)
  qed
qed

lemma cleanup_keeps_sums:
  assumes ok: "tables_ok db" and cut: "today - BANDWIDTH_INGEST_MAX_AGE_DAYS cfg \<le> from" "today - BANDWIDTH_RETENTION_DAYS cfg \<le> from"
    and sums: "conserved from db"
  shows "tables_ok (snd (cleanup_daily_bandwidth cfg col today db)) \<and> conserved from (snd (cleanup_daily_bandwidth cfg col today db))"
proof -
  obtain kc ks ke where rows:
    "bandwidth_cursors (snd (cleanup_daily_bandwidth cfg col today db)) = filter kc (bandwidth_cursors db)"
    "subscription_days (snd (cleanup_daily_bandwidth cfg col today db)) = filter ks (subscription_days db)"
    "edge_days (snd (cleanup_daily_bandwidth cfg col today db)) = filter ke (edge_days db)"
    and keep: "\<And>c. today - BANDWIDTH_INGEST_MAX_AGE_DAYS cfg \<le> cur_day c \<Longrightarrow> kc c"
    "\<And>a. today - BANDWIDTH_RETENTION_DAYS cfg \<le> sd_day a \<Longrightarrow> ks a"
    "\<And>e. today - BANDWIDTH_RETENTION_DAYS cfg \<le> ed_day e \<Longrightarrow> ke e"
    by (rule cleanup_rows [of cfg col today db]) blast
  have d: "distinct (map subscription_day_key (subscription_days db))" "distinct (map edge_day_key (edge_days db))"
    using ok by (simp_all add: tables_ok_def)
  have s: "value_at subscription_day_key v (filter ks (subscription_days db)) q = value_at subscription_day_key v (subscription_days db) q"
    "total cursor_key u (same_subscription_day q) (filter kc (bandwidth_cursors db)) =
      total cursor_key u (same_subscription_day q) (bandwidth_cursors db)" if "from \<le> snd q" for v u q
    using that cut keep(1,2)
    by (auto simp: subscription_day_key_def cursor_key_def same_subscription_day_def intro!: value_at_filter [OF d(1)] total_filter)
  have e: "value_at edge_day_key v (filter ke (edge_days db)) q = value_at edge_day_key v (edge_days db) q"
    "total cursor_key u (same_edge_day q) (filter kc (bandwidth_cursors db)) =
      total cursor_key u (same_edge_day q) (bandwidth_cursors db)" if "from \<le> snd q" for v u q
    using that cut keep(1,3)
    by (auto simp: edge_day_key_def cursor_key_def same_edge_day_def intro!: value_at_filter [OF d(2)] total_filter)
  have "conserved from (snd (cleanup_daily_bandwidth cfg col today db))"
    unfolding conserved_def rows
  proof (intro conjI allI impI)
    fix q :: "int \<times> int" assume q: "from \<le> snd q"
    show "value_at subscription_day_key sd_ingress (filter ks (subscription_days db)) q =
        total cursor_key cur_ingress (same_subscription_day q) (filter kc (bandwidth_cursors db))"
      "value_at subscription_day_key sd_egress (filter ks (subscription_days db)) q =
        total cursor_key cur_egress (same_subscription_day q) (filter kc (bandwidth_cursors db))"
      using sums q unfolding conserved_def s [OF q] by blast+
  next
    fix q :: "string \<times> int" assume q: "from \<le> snd q"
    show "value_at edge_day_key ed_ingress (filter ke (edge_days db)) q =
        total cursor_key cur_ingress (same_edge_day q) (filter kc (bandwidth_cursors db))"
      "value_at edge_day_key ed_egress (filter ke (edge_days db)) q =
        total cursor_key cur_egress (same_edge_day q) (filter kc (bandwidth_cursors db))"
      using sums q unfolding conserved_def e [OF q] by blast+
  qed
  moreover have "tables_ok (snd (cleanup_daily_bandwidth cfg col today db))"
    using ok unfolding tables_ok_def rows by (simp add: distinct_map_filter)
  ultimately show ?thesis by blast
qed

section \<open>Histories\<close>

datatype bandwidth_event =
    Report "subscription list" int string string daily_bandwidth_request
  | Cleanup "string \<Rightarrow> nat" int

fun event_day :: "bandwidth_event \<Rightarrow> int" where
  "event_day (Report subs today secret token body) = today"
| "event_day (Cleanup col today) = today"

fun bandwidth_step :: "bandwidth_settings \<Rightarrow> bandwidth_event \<Rightarrow> bandwidth_db \<Rightarrow> bandwidth_db" where
  "bandwidth_step cfg (Report subs today secret token body) db =
     snd (relay_daily_bandwidth cfg subs today secret token body db)"
| "bandwidth_step cfg (Cleanup col today) db = snd (cleanup_daily_bandwidth cfg col today db)"

lemma set_resolve_reports:
  "sr \<in> set (resolve_reports subs reports) \<longleftrightarrow>
    sr \<in> (\<lambda>r. (sub_id (the (get_row sub_public_id (rep_subscription_id r) subs)), r)) ` set reports"
  by (simp add: resolve_reports_def)

text \<open>What an accepted request has gone through.\<close>

lemma relay_accepted:
  assumes "relay_daily_bandwidth cfg subs today secret token body db = (res, db')"
  obtains (refused) n where "res = HTTPException n" "db' = db"
  | (accepted) "res = Accepted" "request_schema body" "BANDWIDTH_METRICS_ENABLED cfg" "require_relay_secret cfg secret"
      "map_of (relay_heartbeat_keys cfg) (body_edge_id body) = Some token"
      "\<forall>r \<in> set (body_reports body). today - BANDWIDTH_INGEST_MAX_AGE_DAYS cfg \<le> rep_day r \<and> rep_day r \<le> today"
      "ingest_daily_bandwidth subs (body_edge_id body) (body_boot_id body) (body_sequence body) (body_reports body) db = Inr db'"
  using assms unfolding relay_daily_bandwidth_def Let_def
  by (auto simp: list_ex_iff not_less split: if_splits sum.splits bandwidth_error.splits)

fun is_report :: "bandwidth_event \<Rightarrow> bool" where
  "is_report (Report subs today secret token body) = True"
| "is_report (Cleanup col today) = False"

text \<open>
  The same history without its cleanup runs keeps every row. Tables that were cleaned up agree with it on
  the cursors of the days still open for reports and on the totals of the days still retained, which
  decide every later report.
\<close>

definition agree :: "bandwidth_settings \<Rightarrow> int \<Rightarrow> bandwidth_db \<Rightarrow> bandwidth_db \<Rightarrow> bool" where
  "agree cfg today db all \<longleftrightarrow>
     (\<forall>edge boot sid day. today - BANDWIDTH_INGEST_MAX_AGE_DAYS cfg \<le> day \<longrightarrow>
        get_row cursor_key (edge, boot, sid, day) (bandwidth_cursors db) = get_row cursor_key (edge, boot, sid, day) (bandwidth_cursors all)) \<and>
     (\<forall>sid day. today - BANDWIDTH_RETENTION_DAYS cfg \<le> day \<longrightarrow>
        get_row subscription_day_key (sid, day) (subscription_days db) = get_row subscription_day_key (sid, day) (subscription_days all)) \<and>
     (\<forall>edge day. today - BANDWIDTH_RETENTION_DAYS cfg \<le> day \<longrightarrow>
        get_row edge_day_key (edge, day) (edge_days db) = get_row edge_day_key (edge, day) (edge_days all))"

lemma agree_later: "agree cfg t db all \<Longrightarrow> t \<le> today \<Longrightarrow> agree cfg today db all"
  by (simp add: agree_def)

lemma add_subscription_day_agree:
  assumes "get_row subscription_day_key (sid, day) rs = get_row subscription_day_key (sid, day) rs2"
  shows "rel_sum (=) (\<lambda>rs' rs2'. \<forall>q. get_row subscription_day_key q rs = get_row subscription_day_key q rs2 \<longrightarrow>
      get_row subscription_day_key q rs' = get_row subscription_day_key q rs2')
    (add_subscription_day sid day din dout rs) (add_subscription_day sid day din dout rs2)"
proof (cases "add_subscription_day sid day din dout rs")
  case (Inl e)
  then have "add_subscription_day sid day din dout rs2 = Inl e"
    using assms by (auto simp: add_subscription_day_def split: option.splits if_splits)
  then show ?thesis using Inl by simp
next
  case (Inr rs')
  then obtain rs2' where two: "add_subscription_day sid day din dout rs2 = Inr rs2'"
    using assms by (auto simp: add_subscription_day_def split: option.splits if_splits)
  show ?thesis
    using Inr two add_subscription_day_upsert [OF Inr] add_subscription_day_upsert [OF two] sub_day.upsert_agree [OF assms] by simp
qed

lemma increment_edge_agree:
  assumes "get_row edge_day_key (edge, day) es = get_row edge_day_key (edge, day) es2"
  shows "rel_sum (=) (\<lambda>es' es2'. \<forall>q. get_row edge_day_key q es = get_row edge_day_key q es2 \<longrightarrow>
      get_row edge_day_key q es' = get_row edge_day_key q es2')
    (increment_edge_daily_bandwidth edge day din dout es) (increment_edge_daily_bandwidth edge day din dout es2)"
proof (cases "increment_edge_daily_bandwidth edge day din dout es")
  case (Inl e)
  then have "increment_edge_daily_bandwidth edge day din dout es2 = Inl e"
    using assms by (auto simp: increment_edge_daily_bandwidth_def split: option.splits if_splits)
  then show ?thesis using Inl by simp
next
  case (Inr es')
  then obtain es2' where two: "increment_edge_daily_bandwidth edge day din dout es2 = Inr es2'"
    using assms by (auto simp: increment_edge_daily_bandwidth_def split: option.splits if_splits)
  show ?thesis
    using Inr two increment_edge_upsert [OF Inr] increment_edge_upsert [OF two] edge_day.upsert_agree [OF assms] by simp
qed

lemma apply_report_agree:
  assumes a: "agree cfg today db all" and day: "today - BANDWIDTH_INGEST_MAX_AGE_DAYS cfg \<le> rep_day rep"
    and ages: "BANDWIDTH_INGEST_MAX_AGE_DAYS cfg \<le> BANDWIDTH_RETENTION_DAYS cfg"
  shows "rel_sum (=) (agree cfg today) (apply_report edge boot seqn (sid, rep) db) (apply_report edge boot seqn (sid, rep) all)"
proof -
  let ?d = "rep_day rep"
  have day': "today - BANDWIDTH_RETENTION_DAYS cfg \<le> ?d" using day ages by simp
  have c: "get_row cursor_key (edge, boot, sid, ?d) (bandwidth_cursors db) = get_row cursor_key (edge, boot, sid, ?d) (bandwidth_cursors all)"
    and s: "get_row subscription_day_key (sid, ?d) (subscription_days db) = get_row subscription_day_key (sid, ?d) (subscription_days all)"
    and e: "get_row edge_day_key (edge, ?d) (edge_days db) = get_row edge_day_key (edge, ?d) (edge_days all)"
    using a day day' unfolding agree_def by blast+
  have moved: "agree cfg today
      (db\<lparr>subscription_days := sds, edge_days := eds, bandwidth_cursors := move_cursor edge boot seqn sid rep (bandwidth_cursors db)\<rparr>)
      (all\<lparr>subscription_days := sds2, edge_days := eds2, bandwidth_cursors := move_cursor edge boot seqn sid rep (bandwidth_cursors all)\<rparr>)"
    if "\<forall>q. get_row subscription_day_key q (subscription_days db) = get_row subscription_day_key q (subscription_days all) \<longrightarrow>
        get_row subscription_day_key q sds = get_row subscription_day_key q sds2"
      "\<forall>q. get_row edge_day_key q (edge_days db) = get_row edge_day_key q (edge_days all) \<longrightarrow>
        get_row edge_day_key q eds = get_row edge_day_key q eds2" for sds sds2 eds eds2
    using that a cursor.upsert_agree [OF c] unfolding agree_def move_cursor_def by simp
  define n where "n = report_delta cur_ingress (rep_ingress rep) edge boot sid ?d db"
  define m where "m = report_delta cur_egress (rep_egress rep) edge boot sid ?d db"
  have s': "rel_sum (=) (\<lambda>rs' rs2'. \<forall>q. get_row subscription_day_key q (subscription_days db) = get_row subscription_day_key q (subscription_days all) \<longrightarrow>
      get_row subscription_day_key q rs' = get_row subscription_day_key q rs2')
    (add_subscription_day sid ?d din dout (subscription_days db)) (add_subscription_day sid ?d din dout (subscription_days all))" for din dout
    by (rule add_subscription_day_agree [OF s])
  have e': "rel_sum (=) (\<lambda>rs' rs2'. \<forall>q. get_row edge_day_key q (edge_days db) = get_row edge_day_key q (edge_days all) \<longrightarrow>
      get_row edge_day_key q rs' = get_row edge_day_key q rs2')
    (increment_edge_daily_bandwidth edge ?d din dout (edge_days db)) (increment_edge_daily_bandwidth edge ?d din dout (edge_days all))" for din dout
    by (rule increment_edge_agree [OF e])
  have stored: "rel_sum (=) (agree cfg today)
      (case add_subscription_day sid ?d din dout (subscription_days db) of Inl x \<Rightarrow> Inl x | Inr sds \<Rightarrow>
         (case increment_edge_daily_bandwidth edge ?d din dout (edge_days db) of Inl x \<Rightarrow> Inl x
          | Inr eds \<Rightarrow> Inr (db\<lparr>subscription_days := sds, edge_days := eds, bandwidth_cursors := move_cursor edge boot seqn sid rep (bandwidth_cursors db)\<rparr>)))
      (case add_subscription_day sid ?d din dout (subscription_days all) of Inl x \<Rightarrow> Inl x | Inr sds \<Rightarrow>
         (case increment_edge_daily_bandwidth edge ?d din dout (edge_days all) of Inl x \<Rightarrow> Inl x
          | Inr eds \<Rightarrow> Inr (all\<lparr>subscription_days := sds, edge_days := eds, bandwidth_cursors := move_cursor edge boot seqn sid rep (bandwidth_cursors all)\<rparr>)))"
    for din dout
    using s' [of din dout] e' [of din dout] moved
    by (cases "add_subscription_day sid ?d din dout (subscription_days db)"; cases "add_subscription_day sid ?d din dout (subscription_days all)";
        cases "increment_edge_daily_bandwidth edge ?d din dout (edge_days db)"; cases "increment_edge_daily_bandwidth edge ?d din dout (edge_days all)")
      simp_all
  show ?thesis using a stored unfolding apply_report_def Let_def prod.case c by simp
qed

lemma apply_reports_agree:
  assumes "agree cfg today db all" and "\<forall>sr \<in> set srs. today - BANDWIDTH_INGEST_MAX_AGE_DAYS cfg \<le> rep_day (snd sr)"
    and ages: "BANDWIDTH_INGEST_MAX_AGE_DAYS cfg \<le> BANDWIDTH_RETENTION_DAYS cfg"
  shows "rel_sum (=) (agree cfg today) (apply_reports edge boot seqn srs db) (apply_reports edge boot seqn srs all)"
  using assms(1,2)
proof (induction srs arbitrary: db all)
  case (Cons sr srs)
  obtain sid rep where sr: "sr = (sid, rep)" by (cases sr)
  have "rel_sum (=) (agree cfg today) (apply_report edge boot seqn sr db) (apply_report edge boot seqn sr all)"
    unfolding sr using Cons.prems ages by (intro apply_report_agree) (simp_all add: sr)
  then show ?case using Cons.IH Cons.prems(2)
    by (cases "apply_report edge boot seqn sr db"; cases "apply_report edge boot seqn sr all") simp_all
qed simp

lemma relay_agree:
  assumes a: "agree cfg today db all" and ages: "BANDWIDTH_INGEST_MAX_AGE_DAYS cfg \<le> BANDWIDTH_RETENTION_DAYS cfg"
  shows "agree cfg today (snd (relay_daily_bandwidth cfg subs today secret token body db))
    (snd (relay_daily_bandwidth cfg subs today secret token body all))"
proof (cases "list_ex (\<lambda>r. rep_day r < today - BANDWIDTH_INGEST_MAX_AGE_DAYS cfg) (body_reports body)")
  case True
  then show ?thesis using a by (simp add: relay_daily_bandwidth_def Let_def)
next
  case False
  let ?reports = "resolve_reports subs (body_reports body)"
  have "\<forall>sr \<in> set ?reports. today - BANDWIDTH_INGEST_MAX_AGE_DAYS cfg \<le> rep_day (snd sr)"
    using False by (auto simp: set_resolve_reports list_ex_iff not_less)
  from apply_reports_agree [OF a this ages, of "body_edge_id body" "body_boot_id body" "body_sequence body"]
  have "rel_sum (=) (agree cfg today) (ingest_daily_bandwidth subs (body_edge_id body) (body_boot_id body) (body_sequence body) (body_reports body) db)
    (ingest_daily_bandwidth subs (body_edge_id body) (body_boot_id body) (body_sequence body) (body_reports body) all)"
    by (simp add: ingest_daily_bandwidth_def)
  then show ?thesis using a unfolding relay_daily_bandwidth_def Let_def
    by (cases "ingest_daily_bandwidth subs (body_edge_id body) (body_boot_id body) (body_sequence body) (body_reports body) db";
        cases "ingest_daily_bandwidth subs (body_edge_id body) (body_boot_id body) (body_sequence body) (body_reports body) all")
      (auto split: bandwidth_error.splits)
qed

lemma kept_row:
  "distinct (map key rs) \<Longrightarrow> \<forall>r. key r = q \<longrightarrow> k r \<Longrightarrow> get_row key q (filter k rs) = get_row key q rs"
  by (auto simp: get_row_filter split: option.splits dest: get_row_Some)

lemma cleanup_agree:
  assumes ok: "tables_ok db" and a: "agree cfg today db all"
  shows "agree cfg today (snd (cleanup_daily_bandwidth cfg col today db)) all"
proof -
  obtain kc ks ke where rows:
    "bandwidth_cursors (snd (cleanup_daily_bandwidth cfg col today db)) = filter kc (bandwidth_cursors db)"
    "subscription_days (snd (cleanup_daily_bandwidth cfg col today db)) = filter ks (subscription_days db)"
    "edge_days (snd (cleanup_daily_bandwidth cfg col today db)) = filter ke (edge_days db)"
    and keep: "\<And>c. today - BANDWIDTH_INGEST_MAX_AGE_DAYS cfg \<le> cur_day c \<Longrightarrow> kc c"
    "\<And>a. today - BANDWIDTH_RETENTION_DAYS cfg \<le> sd_day a \<Longrightarrow> ks a"
    "\<And>e. today - BANDWIDTH_RETENTION_DAYS cfg \<le> ed_day e \<Longrightarrow> ke e"
    by (rule cleanup_rows [of cfg col today db]) blast
  have d: "distinct (map cursor_key (bandwidth_cursors db))" "distinct (map subscription_day_key (subscription_days db))"
    "distinct (map edge_day_key (edge_days db))" using ok by (simp_all add: tables_ok_def)
  show ?thesis using a unfolding agree_def rows
    using kept_row [OF d(1), of _ kc] kept_row [OF d(2), of _ ks] kept_row [OF d(3), of _ ke]
    by (simp add: cursor_key_def subscription_day_key_def edge_day_key_def keep)
qed

lemma tables_ok_cleanup: "tables_ok db \<Longrightarrow> tables_ok (snd (cleanup_daily_bandwidth cfg col today db))"
  by (rule cleanup_rows [of cfg col today db]) (auto simp: tables_ok_def distinct_map_filter)

lemma report_step_keeps:
  assumes "tables_ok db" and "is_report ev"
  shows "tables_ok (bandwidth_step cfg ev db) \<and> (conserved from db \<longrightarrow> conserved from (bandwidth_step cfg ev db))"
proof -
  obtain subs today secret token body where ev: "ev = Report subs today secret token body" using assms(2) by (cases ev) simp_all
  obtain res db' where run: "relay_daily_bandwidth cfg subs today secret token body db = (res, db')" by (rule prod.exhaust)
  then have "tables_ok db' \<and> (conserved from db \<longrightarrow> conserved from db')"
  proof (cases rule: relay_accepted)
    case accepted
    then have "apply_reports (body_edge_id body) (body_boot_id body) (body_sequence body) (resolve_reports subs (body_reports body)) db = Inr db'"
      by (simp add: ingest_daily_bandwidth_def split: if_splits)
    moreover have "\<forall>sr \<in> set (resolve_reports subs (body_reports body)). in_int64 (rep_ingress (snd sr)) \<and> in_int64 (rep_egress (snd sr))"
      using accepted(2) by (auto simp: set_resolve_reports request_schema_def list_all_iff)
    ultimately show ?thesis using apply_reports_keeps assms(1) by blast
  qed (use assms in simp)
  then show ?thesis using ev run by simp
qed

lemma bandwidth_step_keeps:
  assumes ok: "tables_ok db" "conserved from db"
    and day: "event_day ev - BANDWIDTH_INGEST_MAX_AGE_DAYS cfg \<le> from" "event_day ev - BANDWIDTH_RETENTION_DAYS cfg \<le> from"
  shows "tables_ok (bandwidth_step cfg ev db) \<and> conserved from (bandwidth_step cfg ev db)"
proof (cases "is_report ev")
  case False
  then obtain col today where "ev = Cleanup col today" by (cases ev) simp_all
  then show ?thesis using cleanup_keeps_sums [OF ok(1) _ _ ok(2)] day by simp
qed (use report_step_keeps ok in blast)

lemma step_tables_ok: "tables_ok db \<Longrightarrow> tables_ok (bandwidth_step cfg ev db)"
  using report_step_keeps [of db ev cfg] tables_ok_cleanup [of db cfg] by (cases "is_report ev"; cases ev) simp_all

lemma history_agree:
  assumes "tables_ok db" "agree cfg t db all" "sorted (t # map event_day evs)"
    and "BANDWIDTH_INGEST_MAX_AGE_DAYS cfg \<le> BANDWIDTH_RETENTION_DAYS cfg"
  shows "agree cfg (last (t # map event_day evs)) (fold (bandwidth_step cfg) evs db)
    (fold (bandwidth_step cfg) (filter is_report evs) all)"
  using assms
proof (induction evs arbitrary: t db all)
  case (Cons ev evs)
  have a: "agree cfg (event_day ev) db all" 
    by (rule agree_later [OF Cons.prems(2)]) (use Cons.prems(3) in simp)
  have sorted: "sorted (event_day ev # map event_day evs)" using Cons.prems(3) by simp
  have ok: "tables_ok (bandwidth_step cfg ev db)"
    by (rule step_tables_ok [OF Cons.prems(1)])
  show ?case
  proof (cases ev)
    case (Report subs today secret token body)
    have "agree cfg (event_day ev) (bandwidth_step cfg ev db) (bandwidth_step cfg ev all)"
      using relay_agree [OF a [unfolded Report event_day.simps] Cons.prems(4)] by (simp add: Report)
    from Cons.IH [OF ok this sorted Cons.prems(4)] show ?thesis using Report by (simp del: bandwidth_step.simps)
  next
    case (Cleanup col today)
    have "agree cfg (event_day ev) (bandwidth_step cfg ev db) all"
      using cleanup_agree [OF Cons.prems(1) a [unfolded Cleanup event_day.simps]] by (simp add: Cleanup)
    from Cons.IH [OF ok this sorted Cons.prems(4)] show ?thesis using Cleanup by (simp del: bandwidth_step.simps)
  qed
qed simp

lemma reports_keep:
  "tables_ok db \<Longrightarrow> conserved from db \<Longrightarrow> list_all is_report evs \<Longrightarrow>
    tables_ok (fold (bandwidth_step cfg) evs db) \<and> conserved from (fold (bandwidth_step cfg) evs db)"
  by (induction evs arbitrary: db) (simp_all add: report_step_keeps)

lemma agree_conserved:
  assumes a: "agree cfg today db all" and c: "conserved (today - BANDWIDTH_RETENTION_DAYS cfg) all"
  shows "conserved (today - BANDWIDTH_RETENTION_DAYS cfg) (db\<lparr>bandwidth_cursors := bandwidth_cursors all\<rparr>)"
proof -
  have "value_at subscription_day_key v (subscription_days db) q = value_at subscription_day_key v (subscription_days all) q"
    if "today - BANDWIDTH_RETENTION_DAYS cfg \<le> snd q" for v q using a that by (cases q) (simp add: agree_def value_at_def)
  moreover have "value_at edge_day_key v (edge_days db) q = value_at edge_day_key v (edge_days all) q"
    if "today - BANDWIDTH_RETENTION_DAYS cfg \<le> snd q" for v q using a that by (cases q) (simp add: agree_def value_at_def)
  ultimately show ?thesis using c by (simp add: conserved_def)
qed

text \<open>
  C8: no traffic is lost or counted twice. Start from tables whose daily totals are the sums of the
  cursors. After any history of relay requests, accepted or refused, and of cleanup runs, up to some day:
  there is one row per key, every counter fits its 64-bit column, and for each day both still open for
  reports and still retained the total of every subscription and of every edge is exactly the sum of what
  the stored cursors of that day have counted. The cursors of older days are deleted; when no day is open
  for reports longer than it is retained, and the events come in the order of their days, the totals of
  every retained day are still the sums of all the cursors the same history would have left without its
  cleanup runs.
\<close>

theorem bandwidth_conserved:
  assumes ok: "tables_ok db" and start: "\<forall>from. conserved from db" and days: "\<forall>ev \<in> set evs. event_day ev \<le> today"
  shows "tables_ok (fold (bandwidth_step cfg) evs db) \<and>
    conserved (today - min (BANDWIDTH_INGEST_MAX_AGE_DAYS cfg) (BANDWIDTH_RETENTION_DAYS cfg)) (fold (bandwidth_step cfg) evs db) \<and>
    (BANDWIDTH_INGEST_MAX_AGE_DAYS cfg \<le> BANDWIDTH_RETENTION_DAYS cfg \<and> sorted (map event_day evs) \<longrightarrow>
      conserved (today - BANDWIDTH_RETENTION_DAYS cfg) ((fold (bandwidth_step cfg) evs db)
        \<lparr>bandwidth_cursors := bandwidth_cursors (fold (bandwidth_step cfg) (filter is_report evs) db)\<rparr>))"
proof -
  let ?from = "today - min (BANDWIDTH_INGEST_MAX_AGE_DAYS cfg) (BANDWIDTH_RETENTION_DAYS cfg)"
  have "tables_ok db \<and> conserved ?from db" using ok start by blast
  then have "tables_ok (fold (bandwidth_step cfg) evs db) \<and> conserved ?from (fold (bandwidth_step cfg) evs db)"
    using days
  proof (induction evs arbitrary: db)
    case (Cons ev evs)
    have "event_day ev - BANDWIDTH_INGEST_MAX_AGE_DAYS cfg \<le> ?from" "event_day ev - BANDWIDTH_RETENTION_DAYS cfg \<le> ?from"
      using Cons.prems(2) by auto
    then show ?case using bandwidth_step_keeps [of db ?from ev cfg] Cons by simp
  qed simp
  moreover have "conserved (today - BANDWIDTH_RETENTION_DAYS cfg) ((fold (bandwidth_step cfg) evs db)
        \<lparr>bandwidth_cursors := bandwidth_cursors (fold (bandwidth_step cfg) (filter is_report evs) db)\<rparr>)"
    if ages: "BANDWIDTH_INGEST_MAX_AGE_DAYS cfg \<le> BANDWIDTH_RETENTION_DAYS cfg" and sorted: "sorted (map event_day evs)"
  proof -
    let ?t = "if evs = [] then today else event_day (hd evs)"
    have "agree cfg ?t db db" by (simp add: agree_def)
    moreover have "sorted (?t # map event_day evs)" using sorted by (cases evs) simp_all
    ultimately have "agree cfg (last (?t # map event_day evs)) (fold (bandwidth_step cfg) evs db)
        (fold (bandwidth_step cfg) (filter is_report evs) db)"
      by (rule history_agree [OF ok _ _ ages])
    moreover have "last (?t # map event_day evs) \<le> today" using days by (auto simp: last_map)
    ultimately have "agree cfg today (fold (bandwidth_step cfg) evs db) (fold (bandwidth_step cfg) (filter is_report evs) db)"
      by (rule agree_later)
    then show ?thesis using reports_keep [OF ok, of _ "filter is_report evs"] start by (intro agree_conserved) (auto simp: list_all_iff)
  qed
  ultimately show ?thesis by blast
qed

definition example_bandwidth_settings :: bandwidth_settings where
  "example_bandwidth_settings = \<lparr> BANDWIDTH_METRICS_ENABLED = True, BANDWIDTH_RETENTION_DAYS = 400,
     BANDWIDTH_INGEST_MAX_AGE_DAYS = 3, BANDWIDTH_CLEANUP_BATCH_SIZE = 1000, relay_secret = ''s'',
     relay_heartbeat_keys = [(''edge-a'', ''t'')] \<rparr>"

definition example_report :: daily_bandwidth_request where
  "example_report = \<lparr> body_edge_id = ''edge-a'', body_boot_id = ''b'', body_sequence = 7,
     body_reports = [\<lparr>rep_subscription_id = [], rep_day = 20000, rep_ingress = 50, rep_egress = 60\<rparr>] \<rparr>"

theorem bandwidth_conserved_witness:
  "conserved 19601 ((fold (bandwidth_step example_bandwidth_settings)
     [Report [sample_subscription] 20000 ''s'' ''t'' example_report, Cleanup (\<lambda>_. 0) 20001]
     \<lparr>bandwidth_cursors = [], subscription_days = [], edge_days = []\<rparr>)
       \<lparr>bandwidth_cursors := bandwidth_cursors (fold (bandwidth_step example_bandwidth_settings)
          [Report [sample_subscription] 20000 ''s'' ''t'' example_report]
          \<lparr>bandwidth_cursors = [], subscription_days = [], edge_days = []\<rparr>)\<rparr>)"
proof -
  let ?db = "\<lparr>bandwidth_cursors = [], subscription_days = [], edge_days = []\<rparr>"
  have "tables_ok ?db" "\<forall>from. conserved from ?db"
    by (simp_all add: tables_ok_def conserved_def value_at_def total_def get_row_def)
  from bandwidth_conserved [OF this, of "[Report [sample_subscription] 20000 ''s'' ''t'' example_report, Cleanup (\<lambda>_. 0) 20001]"
      20001 example_bandwidth_settings]
  show ?thesis by (simp add: example_bandwidth_settings_def del: bandwidth_step.simps)
qed

text \<open>
  C39: a retried request is harmless. When a relay repeats an accepted request on the same day, whatever it
  was told the first time, the repetition is accepted and changes nothing.
\<close>

theorem bandwidth_retry_noop:
  assumes run: "relay_daily_bandwidth cfg subs today secret token body db = (Accepted, db')"
  shows "relay_daily_bandwidth cfg subs today secret token body db' = (Accepted, db')"
proof -
  from run have ing: "ingest_daily_bandwidth subs (body_edge_id body) (body_boot_id body) (body_sequence body) (body_reports body) db = Inr db'"
    by (cases rule: relay_accepted) simp_all
  then have "apply_reports (body_edge_id body) (body_boot_id body) (body_sequence body) (resolve_reports subs (body_reports body)) db = Inr db'"
    by (simp add: ingest_daily_bandwidth_def split: if_splits)
  then have "\<forall>sr \<in> set (resolve_reports subs (body_reports body)). covered (body_edge_id body) (body_boot_id body) (body_sequence body) db' sr"
    using apply_reports_covers by blast
  then have "ingest_daily_bandwidth subs (body_edge_id body) (body_boot_id body) (body_sequence body) (body_reports body) db' = Inr db'"
    using ing apply_reports_covered by (auto simp: ingest_daily_bandwidth_def split: if_splits)
  then show ?thesis using run ing unfolding relay_daily_bandwidth_def Let_def by (auto split: if_splits)
qed

theorem bandwidth_retry_noop_witness:
  "\<exists>db'. relay_daily_bandwidth example_bandwidth_settings [sample_subscription] 20000 ''s'' ''t'' example_report
      \<lparr>bandwidth_cursors = [], subscription_days = [], edge_days = []\<rparr> = (Accepted, db') \<and>
    relay_daily_bandwidth example_bandwidth_settings [sample_subscription] 20000 ''s'' ''t'' example_report db' = (Accepted, db')"
proof -
  let ?run = "relay_daily_bandwidth example_bandwidth_settings [sample_subscription] 20000 ''s'' ''t'' example_report"
  let ?db = "\<lparr>bandwidth_cursors = [], subscription_days = [], edge_days = []\<rparr>"
  have "fst (?run ?db) = Accepted"
    by (simp add: relay_daily_bandwidth_def example_bandwidth_settings_def example_report_def request_schema_def
        in_int64_def MAX_INT64_def require_relay_secret_def ingest_daily_bandwidth_def get_row_def sample_subscription_def
        resolve_reports_def apply_report_def add_subscription_day_def increment_edge_daily_bandwidth_def)
  then have "?run ?db = (Accepted, snd (?run ?db))" by (metis prod.collapse)
  from bandwidth_retry_noop [OF this] this show ?thesis by blast
qed

end
