(* ===== verification/Client_Enrollment.thy ===== *)
theory Client_Enrollment
  imports Prelude
begin

text \<open>
  Enrollment of client-controlled mTLS keys (\<^verbatim>\<open>services/client_enrollment.py\<close>). Parsing the
  signing request and issuing a certificate belong to the certificate libraries and to the CA: they are
  parameters. A request loads the credential, decides, and then inserts or updates conditionally;
  \<open>racing\<close> is what other sessions commit between the two.
\<close>

section \<open>Model\<close>

record issued_certificate =
  issued_pem :: string
  issued_serial :: string
  issued_not_before :: time
  issued_not_after :: time

record client_credential =
  cred_user_id :: int
  cred_instance_id :: string
  public_key_fingerprint :: string
  generation :: int
  client_cert_pem :: string
  cred_serial :: string
  cred_not_before :: time
  cred_not_after :: time
  cred_renew_after :: time
  cred_created_at :: time
  cred_updated_at :: time

record client_enrollment =
  enr_instance_id :: string
  enr_generation :: int
  enr_ca_cert_pem :: string
  enr_client_cert_pem :: string
  enr_serial :: string
  enr_not_before :: time
  enr_not_after :: time
  enr_renew_after :: time

text \<open>The certificate libraries and the CA: the key fingerprint of a signing request (none when the key
  is not Ed25519), the certificate issued for an account, an instance and a key, and the CA certificate.\<close>

record certificate_authority =
  csr_fingerprint :: "string \<Rightarrow> string option"
  issue_client_cert :: "string \<Rightarrow> string \<Rightarrow> string \<Rightarrow> issued_certificate"
  ca_cert_pem :: string

datatype enrollment_error = CsrKeyError | ClientEnrollmentConflictError string | CredentialDisappeared

definition response :: "certificate_authority \<Rightarrow> client_credential \<Rightarrow> client_enrollment" where
  "response ca c = \<lparr> enr_instance_id = cred_instance_id c, enr_generation = generation c,
     enr_ca_cert_pem = ca_cert_pem ca, enr_client_cert_pem = client_cert_pem c, enr_serial = cred_serial c,
     enr_not_before = cred_not_before c, enr_not_after = cred_not_after c, enr_renew_after = cred_renew_after c \<rparr>"

definition load_credential :: "int \<Rightarrow> client_credential list \<Rightarrow> client_credential option" where
  "load_credential uid db = get_row cred_user_id uid db"

definition credential_matches :: "client_credential \<Rightarrow> string \<Rightarrow> string \<Rightarrow> int \<Rightarrow> bool" where
  "credential_matches c inst fp gen =
     (cred_instance_id c = inst \<and> public_key_fingerprint c = fp \<and> generation c = gen)"

definition conflict :: "client_credential option \<Rightarrow> string \<Rightarrow> string \<Rightarrow> int \<Rightarrow> enrollment_error" where
  "conflict credential inst fp gen =
     ClientEnrollmentConflictError
       (case credential of
          None \<Rightarrow> ''instance_id is already enrolled''
        | Some c \<Rightarrow>
            if cred_instance_id c \<noteq> inst then ''a different instance_id is already enrolled''
            else if public_key_fingerprint c \<noteq> fp then ''a different public key is already enrolled''
            else if gen < generation c then ''generation is stale''
            else ''generation must advance by exactly one'')"

text \<open>\<^verbatim>\<open>delta * 2 / 3\<close> of a time span rounds to the nearest microsecond.\<close>

definition two_thirds :: "time \<Rightarrow> time" where
  "two_thirds d = (4 * d + 3) div 6"

definition new_credential ::
  "certificate_authority \<Rightarrow> time \<Rightarrow> int \<Rightarrow> string \<Rightarrow> string \<Rightarrow> string \<Rightarrow> int \<Rightarrow> client_credential" where
  "new_credential ca now uid account inst fp gen =
     (let issued = issue_client_cert ca account inst fp in
      \<lparr> cred_user_id = uid, cred_instance_id = inst, public_key_fingerprint = fp, generation = gen,
        client_cert_pem = issued_pem issued, cred_serial = issued_serial issued,
        cred_not_before = issued_not_before issued, cred_not_after = issued_not_after issued,
        cred_renew_after = issued_not_before issued +
          two_thirds (issued_not_after issued - issued_not_before issued),
        cred_created_at = now, cred_updated_at = now \<rparr>)"

text \<open>The primary key and the unique index on the instance.\<close>

definition credential_indexes :: "client_credential list \<Rightarrow> bool" where
  "credential_indexes cs = (distinct (map cred_user_id cs) \<and> distinct (map cred_instance_id cs))"

definition settle_lost_race ::
  "certificate_authority \<Rightarrow> int \<Rightarrow> string \<Rightarrow> string \<Rightarrow> int \<Rightarrow> client_credential list \<Rightarrow>
    (enrollment_error + client_enrollment) \<times> client_credential list" where
  "settle_lost_race ca uid inst fp gen db =
     (case load_credential uid db of
        Some winner \<Rightarrow> if credential_matches winner inst fp gen then (Inr (response ca winner), db)
                       else (Inl (conflict (Some winner) inst fp gen), db)
      | None \<Rightarrow> (Inl (conflict None inst fp gen), db))"

definition renewed_row :: "client_credential \<Rightarrow> client_credential \<Rightarrow> client_credential" where
  "renewed_row candidate c = c\<lparr>generation := generation candidate, client_cert_pem := client_cert_pem candidate,
     cred_serial := cred_serial candidate, cred_not_before := cred_not_before candidate,
     cred_not_after := cred_not_after candidate, cred_renew_after := cred_renew_after candidate,
     cred_updated_at := cred_updated_at candidate\<rparr>"

definition enroll_client_certificate ::
  "certificate_authority \<Rightarrow> (client_credential list \<Rightarrow> client_credential list) \<Rightarrow> time \<Rightarrow> int \<Rightarrow> string \<Rightarrow>
    string \<Rightarrow> int \<Rightarrow> string \<Rightarrow> client_credential list \<Rightarrow>
    (enrollment_error + client_enrollment) \<times> client_credential list" where
  "enroll_client_certificate ca racing now uid account inst gen csr db =
     (case csr_fingerprint ca csr of
        None \<Rightarrow> (Inl CsrKeyError, db)
      | Some fp \<Rightarrow>
          let candidate = new_credential ca now uid account inst fp gen in
          (case load_credential uid db of
             None \<Rightarrow>
               if gen \<noteq> 1 then (Inl (ClientEnrollmentConflictError ''first enrollment requires generation 1''), db)
               else let db1 = racing db in
                 if credential_indexes (db1 @ [candidate]) then
                   (Inr (response ca (case load_credential uid (db1 @ [candidate]) of Some c \<Rightarrow> c | None \<Rightarrow> candidate)),
                    db1 @ [candidate])
                 else settle_lost_race ca uid inst fp gen db1
           | Some current \<Rightarrow>
               if credential_matches current inst fp gen then (Inr (response ca current), db)
               else if cred_instance_id current \<noteq> inst \<or> public_key_fingerprint current \<noteq> fp
               then (Inl (conflict (Some current) inst fp gen), db)
               else if gen \<noteq> generation current + 1 then (Inl (conflict (Some current) inst fp gen), db)
               else let db1 = racing db;
                        stored = (\<lambda>c. cred_user_id c = uid \<and>
                          credential_matches c inst fp (generation current))
                 in if row_count stored db1 = 1 then
                      let db2 = update_where stored (renewed_row candidate) db1 in
                      (case load_credential uid db2 of
                         Some winner \<Rightarrow> (Inr (response ca winner), db2)
                       | None \<Rightarrow> (Inl CredentialDisappeared, db2))
                    else settle_lost_race ca uid inst fp gen db1))"

section \<open>Histories\<close>

text \<open>What a database keeps of its credentials: identities are fixed and generations never go back.\<close>

definition credential_kept :: "client_credential \<Rightarrow> client_credential \<Rightarrow> bool" where
  "credential_kept c c' \<longleftrightarrow> cred_user_id c' = cred_user_id c \<and> cred_instance_id c' = cred_instance_id c \<and>
     public_key_fingerprint c' = public_key_fingerprint c \<and> generation c \<le> generation c' \<and>
     (generation c' = generation c \<longrightarrow> c' = c)"

definition credentials_grow :: "client_credential list \<Rightarrow> client_credential list \<Rightarrow> bool" where
  "credentials_grow db db' \<longleftrightarrow>
     (\<forall>u c. load_credential u db = Some c \<longrightarrow> (\<exists>c'. load_credential u db' = Some c' \<and> credential_kept c c'))"

inductive enrollment_step :: "client_credential list \<Rightarrow> client_credential list \<Rightarrow> bool" where
  "enrollment_step\<^sup>*\<^sup>* db (racing db) \<Longrightarrow>
   enroll_client_certificate ca racing now uid account inst gen csr db = (res, db') \<Longrightarrow> enrollment_step db db'"

lemma credentials_grow_refl [simp]: "credentials_grow db db"
  by (simp add: credentials_grow_def credential_kept_def)

lemma credential_kept_trans: "credential_kept a b \<Longrightarrow> credential_kept b c \<Longrightarrow> credential_kept a c"
  unfolding credential_kept_def by (metis dual_order.trans order_antisym)

lemma credentials_grow_trans:
  assumes "credentials_grow a b" and "credentials_grow b c" shows "credentials_grow a c"
  unfolding credentials_grow_def
proof (intro allI impI)
  fix u x assume "load_credential u a = Some x"
  then obtain y where y: "load_credential u b = Some y" "credential_kept x y"
    using assms(1) unfolding credentials_grow_def by blast
  then obtain z where "load_credential u c = Some z" "credential_kept y z"
    using assms(2) unfolding credentials_grow_def by blast
  then show "\<exists>x'. load_credential u c = Some x' \<and> credential_kept x x'"
    using credential_kept_trans [OF y(2)] by blast
qed

lemma load_append:
  "load_credential u (db @ [c]) =
     (case load_credential u db of Some d \<Rightarrow> Some d | None \<Rightarrow> if cred_user_id c = u then Some c else None)"
  by (induction db) (auto simp: load_credential_def get_row_def)

lemma load_id: "load_credential u db = Some c \<Longrightarrow> cred_user_id c = u"
  unfolding load_credential_def using get_row_Some by fast

text \<open>The conditional update of a renewal.\<close>

lemma renewal_update:
  assumes idx: "credential_indexes db"
    and stored: "stored = (\<lambda>c. cred_user_id c = uid \<and> credential_matches c inst fp g)"
    and one: "row_count stored db = 1" and gen: "g < generation candidate"
  shows "\<exists>c. load_credential uid db = Some c \<and> credential_matches c inst fp g \<and>
      load_credential uid (update_where stored (renewed_row candidate) db) = Some (renewed_row candidate c)"
    "credential_indexes (update_where stored (renewed_row candidate) db)"
    "credentials_grow db (update_where stored (renewed_row candidate) db)"
proof -
  have d: "distinct (map cred_user_id db)" using idx by (simp add: credential_indexes_def)
  have load: "load_credential u (update_where stored (renewed_row candidate) db) =
      map_option (\<lambda>c. if stored c then renewed_row candidate c else c) (load_credential u db)" for u
    unfolding load_credential_def by (rule get_row_update_where) (simp add: renewed_row_def)
  show "\<exists>c. load_credential uid db = Some c \<and> credential_matches c inst fp g \<and>
      load_credential uid (update_where stored (renewed_row candidate) db) = Some (renewed_row candidate c)"
  proof -
    obtain c where c: "load_credential uid db = Some c" "credential_matches c inst fp g"
      using row_count_key [OF d, of uid "\<lambda>c. credential_matches c inst fp g"] one
      unfolding load_credential_def stored by auto
    then show ?thesis using load [of uid] load_id [OF c(1)] by (simp add: stored)
  qed
  show "credential_indexes (update_where stored (renewed_row candidate) db)"
    using idx by (simp add: credential_indexes_def map_update_where renewed_row_def)
  show "credentials_grow db (update_where stored (renewed_row candidate) db)"
    unfolding credentials_grow_def load using gen
    by (auto simp: credential_kept_def renewed_row_def stored credential_matches_def)
qed

lemma settle_lost_race_db: "settle_lost_race ca uid inst fp gen db = (res, db') \<Longrightarrow> db' = db"
  by (auto simp: settle_lost_race_def split: option.splits if_splits)

lemma enroll_keeps:
  assumes idx: "credential_indexes db" "credential_indexes (racing db)" and grow: "credentials_grow db (racing db)"
    and run: "enroll_client_certificate ca racing now uid account inst gen csr db = (res, db')"
  shows "credential_indexes db'" "credentials_grow db db'"
proof -
  have "credential_indexes db' \<and> credentials_grow db db'"
  proof (cases "csr_fingerprint ca csr")
    case None
    then show ?thesis using run idx by (simp add: enroll_client_certificate_def)
  next
    case (Some fp)
    let ?cand = "new_credential ca now uid account inst fp gen"
    show ?thesis
    proof (cases "load_credential uid db")
      case None
      have "db' = db \<or> db' = racing db \<or> db' = racing db @ [?cand] \<and> credential_indexes (racing db @ [?cand])"
        using run Some None
        by (auto simp: enroll_client_certificate_def Let_def split: if_splits dest: settle_lost_race_db)
      moreover have "credentials_grow (racing db) (racing db @ [?cand])"
        by (auto simp: credentials_grow_def load_append credential_kept_def)
      ultimately show ?thesis using idx grow credentials_grow_trans [OF grow] by auto
    next
      case cur: (Some current)
      let ?stored = "\<lambda>c. cred_user_id c = uid \<and> credential_matches c inst fp (generation current)"
      have "db' = db \<or> db' = racing db \<or> (db' = update_where ?stored (renewed_row ?cand) (racing db) \<and>
          row_count ?stored (racing db) = 1 \<and> gen = generation current + 1)"
        using run Some cur
        by (auto simp: enroll_client_certificate_def Let_def split: if_splits option.splits dest: settle_lost_race_db)
      then show ?thesis
        using idx grow renewal_update [OF idx(2) refl, of uid inst fp "generation current" ?cand]
          credentials_grow_trans [OF grow]
        by (auto simp: new_credential_def Let_def)
    qed
  qed
  then show "credential_indexes db'" "credentials_grow db db'" by blast+
qed

lemma enrollment_step_keeps:
  "enrollment_step db db' \<Longrightarrow> credential_indexes db \<Longrightarrow> credential_indexes db' \<and> credentials_grow db db'"
proof (induction rule: enrollment_step.induct)
  case (1 db racing ca now uid account inst gen csr res db')
  have "credential_indexes (racing db) \<and> credentials_grow db (racing db)"
    using 1(1) 1(3)
  proof (induction rule: rtranclp_induct)
    case (step y z)
    then show ?case using credentials_grow_trans by blast
  qed simp
  then show ?case using enroll_keeps [OF 1(3) _ _ 1(2)] by blast
qed

interpretation enrollments: monotone_system enrollment_step credential_indexes credentials_grow
  by unfold_locales (auto dest: enrollment_step_keeps intro: credentials_grow_trans)

text \<open>
  An account's credential never changes hands and never goes back. Over any history of enrollment
  requests, with any interleaving of the requests of other sessions between the load and the write of each:
  one credential per account and per instance; the instance and the key of an enrolled account stay; its
  generation never decreases; and a certificate changes only with its generation.
\<close>

theorem enrollment_monotone:
  assumes "credential_indexes db" and "enrollment_step\<^sup>*\<^sup>* db db'"
  shows "credential_indexes db' \<and> credentials_grow db db'"
  using enrollments.run_inv [OF assms(2,1)] enrollments.run_rel [OF assms(2,1)] by blast

definition example_ca :: certificate_authority where
  "example_ca = \<lparr> csr_fingerprint = Some,
     issue_client_cert = (\<lambda>a i f. \<lparr>issued_pem = f, issued_serial = ''1'', issued_not_before = 0, issued_not_after = days 30\<rparr>),
     ca_cert_pem = ''ca'' \<rparr>"

lemma example_enrollment_step:
  "enrollment_step [] (snd (enroll_client_certificate example_ca id 5 1 ''acct'' ''inst'' 1 ''key'' []))"
  by (rule enrollment_step.intros [of "[]" id example_ca 5 1 "''acct''" "''inst''" 1 "''key''", OF _ surjective_pairing]) simp

theorem enrollment_monotone_witness:
  "credential_indexes (snd (enroll_client_certificate example_ca id 5 1 ''acct'' ''inst'' 1 ''key'' []))"
  using enrollment_monotone [of "[]", OF _ r_into_rtranclp [of enrollment_step, OF example_enrollment_step]]
  by (simp add: credential_indexes_def)

text \<open>
  C40: enrollment can be retried. A request that succeeded, even by losing a race against an identical
  request, returns the stored certificate of the requested instance and generation; repeating it later
  returns the very same response and changes nothing.
\<close>

theorem enrollment_retry:
  assumes idx: "credential_indexes db" "credential_indexes (racing db)"
    and run: "enroll_client_certificate ca racing now uid account inst gen csr db = (Inr r, db')"
  shows "enroll_client_certificate ca racing' later uid account inst gen csr db' = (Inr r, db') \<and>
    enr_instance_id r = inst \<and> enr_generation r = gen"
proof -
  obtain fp where fp: "csr_fingerprint ca csr = Some fp"
    using run by (auto simp: enroll_client_certificate_def split: option.splits)
  let ?cand = "new_credential ca now uid account inst fp gen"
  have cand: "cred_user_id ?cand = uid" "credential_matches ?cand inst fp gen"
    by (simp_all add: new_credential_def Let_def credential_matches_def)
  have lost: "settle_lost_race ca uid inst fp gen d = (Inr r, db') \<Longrightarrow>
      \<exists>c. load_credential uid db' = Some c \<and> credential_matches c inst fp gen \<and> r = response ca c" for d
    by (auto simp: settle_lost_race_def split: option.splits if_splits)
  have "\<exists>c. load_credential uid db' = Some c \<and> credential_matches c inst fp gen \<and> r = response ca c"
  proof (cases "load_credential uid db")
    case None
    show ?thesis
    proof (cases "credential_indexes (racing db @ [?cand])")
      case True
      have "load_credential uid (racing db) = None"
      proof (rule ccontr)
        assume "load_credential uid (racing db) \<noteq> None"
        then obtain c where "c \<in> set (racing db)" "cred_user_id c = uid"
          unfolding load_credential_def using get_row_Some by fast
        then show False using True cand(1) by (auto simp: credential_indexes_def)
      qed
      then show ?thesis using run fp None True cand
        by (auto simp: enroll_client_certificate_def Let_def load_append split: if_splits)
    qed (use run fp None lost in \<open>auto simp: enroll_client_certificate_def Let_def split: if_splits\<close>)
  next
    case (Some current)
    let ?stored = "\<lambda>c. cred_user_id c = uid \<and> credential_matches c inst fp (generation current)"
    show ?thesis
    proof (cases "credential_matches current inst fp gen \<or> row_count ?stored (racing db) \<noteq> 1")
      case True
      then show ?thesis using run fp Some lost
        by (auto simp: enroll_client_certificate_def Let_def split: if_splits)
    next
      case False
      then have gen: "gen = generation current + 1"
        using run fp Some by (auto simp: enroll_client_certificate_def Let_def split: if_splits)
      obtain c where c: "load_credential uid (racing db) = Some c" "credential_matches c inst fp (generation current)"
        "load_credential uid (update_where ?stored (renewed_row ?cand) (racing db)) = Some (renewed_row ?cand c)"
        using renewal_update(1) [OF idx(2) refl, of uid inst fp "generation current" ?cand] False gen
        by (auto simp: new_credential_def Let_def)
      moreover have "credential_matches (renewed_row ?cand c) inst fp gen"
        using c(2) by (simp add: credential_matches_def renewed_row_def new_credential_def Let_def)
      ultimately show ?thesis using run fp Some False
        by (auto simp: enroll_client_certificate_def Let_def split: if_splits)
    qed
  qed
  then show ?thesis using fp
    by (auto simp: enroll_client_certificate_def Let_def response_def credential_matches_def)
qed

theorem enrollment_retry_witness:
  "\<exists>r db'. enroll_client_certificate example_ca id 5 1 ''acct'' ''inst'' 1 ''key'' [] = (Inr r, db') \<and>
     enroll_client_certificate example_ca id 9 1 ''acct'' ''inst'' 1 ''key'' db' = (Inr r, db')"
proof -
  obtain r db' where run: "enroll_client_certificate example_ca id 5 1 ''acct'' ''inst'' 1 ''key'' [] = (Inr r, db')"
    by (simp add: enroll_client_certificate_def example_ca_def Let_def load_credential_def get_row_def credential_indexes_def)
  have "credential_indexes []" "credential_indexes (id [])" by (simp_all add: credential_indexes_def)
  from enrollment_retry [OF this run, of id 9] run show ?thesis by blast
qed

end
