(* ===== verification/Notification_Email.thy ===== *)
theory Notification_Email
  imports Notifications Ip_Leases
begin

text \<open>
  The encrypted notification address of an account (\<^verbatim>\<open>services/notification_email.py\<close>): its syntax, the
  generation counter that every change increases, and the decryption that a delivery asks for with the
  generation it was queued under. Authenticated encryption is the record \<open>credential_cipher\<close>, whose
  \<open>None\<close> is a \<^verbatim>\<open>CredentialError\<close>; the parser \<^verbatim>\<open>email.headerregistry.Address\<close> is the parameter \<open>parses\<close>,
  true where it accepts the text and renders it back unchanged.
\<close>

section \<open>Addresses\<close>

definition alnum_chars :: string where
  "alnum_chars = lower_letters @ upper_letters @ digit_chars"

definition atom_chars :: string where
  "atom_chars = alnum_chars @ ''!#$%&*+/=?^_`{|}~-'' @ [CHR 39]"

text \<open>The expression \<^verbatim>\<open>_LOCAL_PART\<close>: atoms separated by single dots.\<close>

definition email_local_part :: "string \<Rightarrow> bool" where
  "email_local_part s =
     list_all (\<lambda>atom. atom \<noteq> [] \<and> list_all (\<lambda>c. c \<in> set atom_chars) atom) (split_on (CHR ''.'') s)"

text \<open>The expression \<^verbatim>\<open>_DOMAIN_LABEL\<close>.\<close>

definition email_label :: "string \<Rightarrow> bool" where
  "email_label l =
     (l \<noteq> [] \<and> length l \<le> 63 \<and> hd l \<in> set alnum_chars \<and> last l \<in> set alnum_chars \<and>
      list_all (\<lambda>c. c \<in> set alnum_chars \<or> c = CHR ''-'') l)"

definition email_tld :: "string \<Rightarrow> bool" where
  "email_tld l = (2 \<le> length l \<and> list_all (\<lambda>c. c \<in> set (lower_letters @ upper_letters)) l)"

definition normalize_notification_email :: "(string \<Rightarrow> bool) \<Rightarrow> string \<Rightarrow> error + string" where
  "normalize_notification_email parses value =
     (let invalid = Inl (ValueError ''notification email address is invalid'') in
      if value = [] \<or> is_space (hd value) \<or> is_space (last value) then invalid
      else if length value > 254 \<or> \<not> is_ascii value \<or> list_ex is_space value then invalid
      else case split_on (CHR ''@'') value of
        [local_part, host] \<Rightarrow>
          (let labels = split_on (CHR ''.'') host; normalized = local_part @ ''@'' @ str_lower host in
           if length local_part < 1 \<or> length local_part > 64 \<or> \<not> email_local_part local_part \<or>
              length labels < 2 \<or> list_ex (\<lambda>l. \<not> email_label l) labels \<or> \<not> email_tld (last labels)
           then invalid
           else if \<not> parses normalized then invalid
           else Inr normalized)
      | _ \<Rightarrow> invalid)"

section \<open>The preference of an account\<close>

datatype credential_error = CredentialError string

record credential_cipher =
  encrypt :: "string \<Rightarrow> string \<Rightarrow> (string \<times> string) option"
  decrypt_credential :: "string \<Rightarrow> string \<times> string \<Rightarrow> string option"

text \<open>The two errors of storing: an invalid address, and a cipher that cannot encrypt.\<close>

definition store_notification_email ::
  "(string \<Rightarrow> bool) \<Rightarrow> credential_cipher \<Rightarrow> user \<Rightarrow> string \<Rightarrow> (error + credential_error) + string \<times> user" where
  "store_notification_email parses cipher user email =
     (case normalize_notification_email parses email of
        Inl e \<Rightarrow> Inl (Inl e)
      | Inr normalized \<Rightarrow>
          (case encrypt cipher (user_public_id user) normalized of
             None \<Rightarrow> Inl (Inr (CredentialError ''encryption''))
           | Some encrypted \<Rightarrow>
               Inr (normalized, user\<lparr>notification_email := Some encrypted,
                 notification_email_generation := notification_email_generation user + 1,
                 has_notification_email := True\<rparr>)))"

definition decrypt_notification_email ::
  "(string \<Rightarrow> bool) \<Rightarrow> credential_cipher \<Rightarrow> user \<Rightarrow> int option \<Rightarrow> credential_error + string" where
  "decrypt_notification_email parses cipher user expected =
     (if expected \<noteq> None \<and> expected \<noteq> Some (notification_email_generation user)
      then Inl (CredentialError ''notification email generation changed'')
      else case notification_email user of
        None \<Rightarrow> Inl (CredentialError ''notification email is unavailable'')
      | Some c \<Rightarrow>
          if \<not> has_notification_email user \<or> fst c = [] \<or> snd c = []
          then Inl (CredentialError ''notification email is unavailable'')
          else case decrypt_credential cipher (user_public_id user) c of
            None \<Rightarrow> Inl (CredentialError ''decryption'')
          | Some plaintext \<Rightarrow>
              (case normalize_notification_email parses plaintext of
                 Inl _ \<Rightarrow> Inl (CredentialError ''notification email plaintext is invalid'')
               | Inr address \<Rightarrow> Inr address))"

definition lock_and_decrypt_notification_email ::
  "(string \<Rightarrow> bool) \<Rightarrow> credential_cipher \<Rightarrow> database \<Rightarrow> int \<Rightarrow> int \<Rightarrow> credential_error + string" where
  "lock_and_decrypt_notification_email parses cipher db uid expected =
     (case get_user db uid of
        None \<Rightarrow> Inl (CredentialError ''notification email is unavailable'')
      | Some user \<Rightarrow> decrypt_notification_email parses cipher user (Some expected))"

definition clear_notification_email :: "user \<Rightarrow> user" where
  "clear_notification_email user = user\<lparr>has_notification_email := False, notification_email := None,
     notification_email_generation := notification_email_generation user + 1\<rparr>"

section \<open>Lemmas\<close>

lemma lower_alnum: "c \<in> set alnum_chars \<Longrightarrow> lower_char c \<in> set alnum_chars"
proof -
  have "\<forall>c \<in> set alnum_chars. lower_char c \<in> set alnum_chars"
    by code_simp
  then show "c \<in> set alnum_chars \<Longrightarrow> lower_char c \<in> set alnum_chars" by blast
qed

lemma lower_letter: "c \<in> set (lower_letters @ upper_letters) \<Longrightarrow> lower_char c \<in> set (lower_letters @ upper_letters)"
proof -
  have "\<forall>c \<in> set (lower_letters @ upper_letters). lower_char c \<in> set (lower_letters @ upper_letters)"
    by code_simp
  then show "c \<in> set (lower_letters @ upper_letters) \<Longrightarrow> lower_char c \<in> set (lower_letters @ upper_letters)" by blast
qed

lemma lower_hyphen [simp]: "lower_char (CHR ''-'') = CHR ''-''" "lower_char (CHR ''.'') = CHR ''.''"
  by (simp_all add: lower_char_def upper_letters_def lower_letters_def)

lemma email_label_lower:
  assumes "email_label l" shows "email_label (str_lower l)"
proof -
  have ne: "l \<noteq> []" using assms by (simp add: email_label_def)
  have "lower_char c \<in> set alnum_chars \<or> lower_char c = CHR ''-''" if "c \<in> set alnum_chars \<or> c = CHR ''-''" for c
    using that lower_alnum by (elim disjE) simp_all
  then show ?thesis
    using assms ne lower_alnum [of "hd l"] lower_alnum [of "last l"]
    by (simp add: email_label_def str_lower_def list_all_iff hd_map last_map)
qed

lemma email_tld_lower: "email_tld l \<Longrightarrow> email_tld (str_lower l)"
  using lower_letter by (auto simp: email_tld_def str_lower_def list_all_iff simp del: set_append)

lemma split_on_lower: "split_on (CHR ''.'') (str_lower s) = map str_lower (split_on (CHR ''.'') s)"
proof (induction s)
  case (Cons c s)
  have "lower_char c = CHR ''.'' \<longleftrightarrow> c = CHR ''.''"
  proof (cases "c \<in> set upper_letters")
    case True
    have "\<forall>c \<in> set upper_letters. lower_char c \<noteq> CHR ''.'' \<and> c \<noteq> CHR ''.''"
      by code_simp
    with True show ?thesis by blast
  qed (simp add: lower_char_id)
  then show ?case using Cons split_on_not_Nil [of "CHR ''.''" s]
    by (cases "split_on (CHR ''.'') s") (auto simp: str_lower_def)
qed (simp add: str_lower_def)

lemma domain_chars:
  assumes "list_all email_label (split_on (CHR ''.'') d)" and "c \<in> set d"
  shows "c \<in> set alnum_chars \<or> c = CHR ''-'' \<or> c = CHR ''.''"
  using assms set_split_on_cover [OF assms(2), of "CHR ''.''"] by (fastforce simp: list_all_iff email_label_def)

lemma domain_char_facts:
  assumes "c \<in> set alnum_chars \<or> c = CHR ''-'' \<or> c = CHR ''.''"
  shows "(of_char c :: nat) < 128" "\<not> is_space c" "c \<noteq> CHR ''@''"
proof -
  have "\<forall>c \<in> set (alnum_chars @ ''-.''). (of_char c :: nat) < 128 \<and> \<not> is_space c \<and> c \<noteq> CHR ''@''"
    by code_simp
  moreover have "c \<in> set (alnum_chars @ ''-.'')" using assms by (elim disjE) simp_all
  ultimately show "(of_char c :: nat) < 128" "\<not> is_space c" "c \<noteq> CHR ''@''" by blast+
qed

lemma normalize_email_parts:
  assumes "normalize_notification_email parses v = Inr n"
  obtains l d where "v = l @ ''@'' @ d" and "n = l @ ''@'' @ str_lower d" and "CHR ''@'' \<notin> set l"
    and "l \<noteq> []" and "length l \<le> 64" and "email_local_part l" and "2 \<le> length (split_on (CHR ''.'') d)"
    and "list_all email_label (split_on (CHR ''.'') d)" and "email_tld (last (split_on (CHR ''.'') d))"
    and "parses n" and "length v \<le> 254" and "is_ascii v" and "\<not> list_ex is_space v"
proof -
  from assms obtain l d where sp: "split_on (CHR ''@'') v = [l, d]"
    by (auto simp: normalize_notification_email_def Let_def split: if_splits list.splits)
  then have v: "v = l @ ''@'' @ d" and l: "CHR ''@'' \<notin> set l"
    using join_split_on [of "CHR ''@''" v] set_split_on [of l "CHR ''@''" v] by auto
  show thesis
    using assms sp l by (intro that [OF v _ l])
      (auto simp: normalize_notification_email_def Let_def list_all_iff list_ex_iff split: if_splits)
qed

lemma normalize_email_idem:
  assumes "normalize_notification_email parses v = Inr n"
  shows "normalize_notification_email parses n = Inr n"
proof -
  obtain l d where p: "v = l @ ''@'' @ d" "n = l @ ''@'' @ str_lower d" "CHR ''@'' \<notin> set l"
    "l \<noteq> []" "length l \<le> 64" "email_local_part l" "2 \<le> length (split_on (CHR ''.'') d)"
    "list_all email_label (split_on (CHR ''.'') d)" "email_tld (last (split_on (CHR ''.'') d))"
    "parses n" "length v \<le> 254" "is_ascii v" "\<not> list_ex is_space v"
    by (rule normalize_email_parts [OF assms])
  let ?d = "str_lower d"
  have labels: "list_all email_label (split_on (CHR ''.'') ?d)"
    using p(8) email_label_lower by (auto simp: split_on_lower list_all_iff)
  have chars: "(of_char c :: nat) < 128" "\<not> is_space c" "c \<noteq> CHR ''@''" if "c \<in> set ?d" for c
    using domain_char_facts [OF domain_chars [OF labels that]] by blast+
  have sp: "split_on (CHR ''@'') n = [l, ?d]"
    unfolding p(2) using split_pair_eq [of "CHR ''@''" l ?d] p(3) chars(3) by auto
  have spaces: "\<not> list_ex is_space n" using p(13) chars(2) by (auto simp: p(1,2) list_ex_iff)
  have ascii: "is_ascii n" using p(12) chars(1) by (auto simp: p(1,2) is_ascii_def list_all_iff)
  have len: "length n \<le> 254" using p(11) by (simp add: p(1,2))
  have ne: "split_on (CHR ''.'') d \<noteq> []" using p(7) by auto
  have tld: "email_tld (last (split_on (CHR ''.'') ?d))"
    using email_tld_lower [OF p(9)] ne by (simp add: split_on_lower last_map)
  have ne': "n \<noteq> []" by (simp add: p(2))
  then have "\<not> is_space (hd n)" "\<not> is_space (last n)"
    using spaces hd_in_set [OF ne'] last_in_set [OF ne'] unfolding list_ex_iff by blast+
  with ne' show ?thesis
    using sp spaces ascii len labels tld p(4-7,10)
    by (auto simp: normalize_notification_email_def Let_def split_on_lower list_all_iff list_ex_iff p(2))
qed

section \<open>Properties\<close>

text \<open>One change of the preference.\<close>

inductive email_step :: "(string \<Rightarrow> bool) \<Rightarrow> credential_cipher \<Rightarrow> user \<Rightarrow> user \<Rightarrow> bool" for parses cipher where
  "store_notification_email parses cipher u email = Inr (n, u') \<Longrightarrow> email_step parses cipher u u'"
| "email_step parses cipher u (clear_notification_email u)"

definition later_generation :: "user \<Rightarrow> user \<Rightarrow> bool" where
  "later_generation u u' \<longleftrightarrow> u' = u \<or> notification_email_generation u < notification_email_generation u'"

interpretation email_changes: monotone_system "email_step parses cipher" "\<lambda>_. True" later_generation for parses cipher
proof
  show "later_generation u u" for u by (simp add: later_generation_def)
  show "later_generation u v \<Longrightarrow> later_generation v w \<Longrightarrow> later_generation u w" for u v w
    by (auto simp: later_generation_def)
  show "later_generation u v" if "email_step parses cipher u v" for u v
    using that by cases (auto simp: later_generation_def store_notification_email_def clear_notification_email_def
        split: sum.splits option.splits)
qed

lemma store_decrypts:
  assumes store: "store_notification_email parses cipher u email = Inr (n, u')"
    and cipher: "\<And>i x c. encrypt cipher i x = Some c \<Longrightarrow> decrypt_credential cipher i c = Some x \<and> fst c \<noteq> [] \<and> snd c \<noteq> []"
  shows "decrypt_notification_email parses cipher u' (Some (notification_email_generation u')) = Inr n"
proof -
  from store obtain c where norm: "normalize_notification_email parses email = Inr n"
    and enc: "encrypt cipher (user_public_id u) n = Some c"
    and u': "u' = u\<lparr>notification_email := Some c, notification_email_generation := notification_email_generation u + 1,
      has_notification_email := True\<rparr>"
    by (auto simp: store_notification_email_def split: sum.splits option.splits)
  show ?thesis
    using cipher [OF enc] normalize_email_idem [OF norm] by (simp add: u' decrypt_notification_email_def)
qed

text \<open>
  An address is used only under the consent it was queued with. Under a cipher that decrypts what it
  encrypted, a stored address decrypts to its normal form at the new generation, and normal forms are
  stable. After any history of changes, a delivery queued at generation \<open>g\<close> still finds an address only if
  the preference was not changed at all since: every store and every removal makes decryption for the old
  generation fail.
\<close>

theorem email_consent:
  assumes cipher: "\<And>i x c. encrypt cipher i x = Some c \<Longrightarrow> decrypt_credential cipher i c = Some x \<and> fst c \<noteq> [] \<and> snd c \<noteq> []"
    and store: "store_notification_email parses cipher u email = Inr (n, v)"
    and history: "(email_step parses cipher)\<^sup>*\<^sup>* v w"
  shows "normalize_notification_email parses n = Inr n \<and>
    decrypt_notification_email parses cipher v (Some (notification_email_generation v)) = Inr n \<and>
    (decrypt_notification_email parses cipher w (Some (notification_email_generation v)) =
      (if w = v then Inr n else Inl (CredentialError ''notification email generation changed'')))"
proof -
  have now: "decrypt_notification_email parses cipher v (Some (notification_email_generation v)) = Inr n"
    by (rule store_decrypts [OF store cipher])
  have norm: "normalize_notification_email parses n = Inr n"
    using store by (auto simp: store_notification_email_def split: sum.splits option.splits intro: normalize_email_idem)
  have "later_generation v w" using email_changes.run_rel [OF history] by simp
  then show ?thesis using now norm by (auto simp: later_generation_def decrypt_notification_email_def)
qed

text \<open>A transparent cipher for the worked instance.\<close>

definition plain_cipher :: credential_cipher where
  "plain_cipher = \<lparr> encrypt = (\<lambda>i x. Some (''k'' @ x, ''v1'')), decrypt_credential = (\<lambda>i c. Some (tl (fst c))) \<rparr>"

theorem email_consent_witness:
  "\<exists>v. store_notification_email (\<lambda>_. True) plain_cipher sample_user ''Ann@Mail.Example'' = Inr (''Ann@mail.example'', v) \<and>
    decrypt_notification_email (\<lambda>_. True) plain_cipher v (Some 1) = Inr ''Ann@mail.example'' \<and>
    decrypt_notification_email (\<lambda>_. True) plain_cipher (clear_notification_email v) (Some 1) =
      Inl (CredentialError ''notification email generation changed'')"
proof -
  let ?v = "sample_user\<lparr>notification_email := Some (''kAnn@mail.example'', ''v1''), notification_email_generation := 1,
    has_notification_email := True\<rparr>"
  have norm: "normalize_notification_email (\<lambda>_. True) ''Ann@Mail.Example'' = Inr ''Ann@mail.example''" by code_simp
  have store: "store_notification_email (\<lambda>_. True) plain_cipher sample_user ''Ann@Mail.Example'' = Inr (''Ann@mail.example'', ?v)"
    by (simp add: store_notification_email_def norm plain_cipher_def sample_user_def)
  have gen: "notification_email_generation ?v = 1" by simp
  have "(email_step (\<lambda>_. True) plain_cipher)\<^sup>*\<^sup>* ?v (clear_notification_email ?v)" by (blast intro: email_step.intros)
  from email_consent [OF _ store this] have
    "decrypt_notification_email (\<lambda>_. True) plain_cipher ?v (Some 1) = Inr ''Ann@mail.example'' \<and>
     decrypt_notification_email (\<lambda>_. True) plain_cipher (clear_notification_email ?v) (Some 1) =
      Inl (CredentialError ''notification email generation changed'')"
    by (auto simp: plain_cipher_def clear_notification_email_def sample_user_def)
  then show ?thesis using store by blast
qed

end
