(* ===== verification/Notification_Delivery.thy ===== *)
theory Notification_Delivery
  imports Notification_Email Settings
begin

text \<open>
  Delivery of queued notifications (\<^verbatim>\<open>services/notifications.py\<close>, \<^verbatim>\<open>services/renewal_alerts.py\<close> and the
  worker of \<^verbatim>\<open>services/notification_reconciliation.py\<close>). A worker leases a delivery, commits that it is
  sending, talks to the mail server, and writes the result only while it still owns the lease; each of
  these transactions is a definition of its own, composed by \<open>process_claimed_delivery\<close> with what other
  sessions commit in between. Of a rendered message the branch and its variable parts are kept, not the
  text; the resource line is left out.
\<close>

section \<open>Tables and answers\<close>

datatype announcement_state = AnnDRAFT | AnnQUEUED | AnnCOMPLETED | AnnCANCELLED

record announcement =
  ann_id :: int
  ann_state :: announcement_state
  ann_subject :: string
  ann_body :: string
  recipient_cursor :: int
  expansion_complete :: bool

record recipient_snapshot =
  rs_announcement_id :: int
  rs_user_id :: int
  rs_generation :: int

record outbox =
  odb :: database
  announcements :: "announcement list"
  recipient_snapshots :: "recipient_snapshot list"

definition get_announcement :: "outbox \<Rightarrow> int \<Rightarrow> announcement option" where
  "get_announcement ob i = get_row ann_id i (announcements ob)"

definition get_notification :: "database \<Rightarrow> int \<Rightarrow> notification_delivery option" where
  "get_notification db i = get_row note_id i (notifications db)"

text \<open>How a message was rendered.\<close>

datatype expiry_timing = HasExpired | LessThanOneDay | WithinDays int

datatype period_line = NoPeriodLine | PaidThrough time | EndsInHours time int | EndedOn time

datatype mail =
    ExpirationMail "product_type option" expiry_timing time
  | SubscriptionMail notification_kind product_type bool period_line
  | AnnouncementMail string string

text \<open>
  A call of \<^verbatim>\<open>SmtpAdapter.send_message\<close> and how it ended: a delivery error has a code and says whether it
  is ambiguous and whether it is retryable. The Message-ID is a hash of key and generation.
\<close>

record smtp_call =
  call_delivery :: int
  call_address :: string
  call_mail :: mail
  call_message_id :: "idempotency_key \<times> int"

datatype smtp_answer =
    SmtpAccepted
  | SmtpDeliveryError string bool bool
  | SmtpException

record mail_env =
  addr_parses :: "string \<Rightarrow> bool"
  mail_cipher :: credential_cipher
  adapter :: "(smtp_call \<times> smtp_answer) list \<Rightarrow> smtp_call \<Rightarrow> smtp_answer"

section \<open>Rows\<close>

definition MAX_NOTIFICATION_ATTEMPTS :: nat where
  "MAX_NOTIFICATION_ATTEMPTS = 20"

definition sanitize_error_code :: "string \<Rightarrow> string" where
  "sanitize_error_code v =
     (if v \<noteq> [] \<and> length v \<le> 64 \<and> list_all (\<lambda>c. c \<in> set (lower_letters @ digit_chars @ ''_'')) v
      then v else ''notification_error'')"

definition terminal :: "delivery_state \<Rightarrow> string \<Rightarrow> time \<Rightarrow> notification_delivery \<Rightarrow> notification_delivery" where
  "terminal st code now d = d\<lparr>note_state := st,
     note_error_code := (if code = [] then None else Some (sanitize_error_code code)),
     note_updated_at := now, note_terminal_at := Some now, note_next_attempt_at := None,
     note_lease_token := None, note_lease_until := None\<rparr>"

definition retry_delay :: "nat \<Rightarrow> time" where
  "retry_delay n = seconds (min 3600 (5 * 2 ^ min n 10))"

definition cancel_notification :: "string \<Rightarrow> time \<Rightarrow> notification_delivery \<Rightarrow> notification_delivery" where
  "cancel_notification code now = terminal CANCELLED (sanitize_error_code code) now"

text \<open>A conditional update of the whole queue.\<close>

definition cancel_queued :: "(notification_delivery \<Rightarrow> bool) \<Rightarrow> string \<Rightarrow> time \<Rightarrow> database \<Rightarrow> database" where
  "cancel_queued selected code now db =
     db\<lparr>notifications := update_where (\<lambda>d. note_state d = QUEUED \<and> selected d)
       (\<lambda>d. d\<lparr>note_state := CANCELLED, note_error_code := Some (sanitize_error_code code), note_updated_at := now,
          note_terminal_at := Some now, note_next_attempt_at := None, note_lease_token := None,
          note_lease_until := None\<rparr>) (notifications db)\<rparr>"

definition cancel_pending_notifications :: "int \<Rightarrow> notification_category \<Rightarrow> string \<Rightarrow> time \<Rightarrow> database \<Rightarrow> database" where
  "cancel_pending_notifications uid category =
     cancel_queued (\<lambda>d. note_user_id d = uid \<and> note_category d = category)"

definition cancel_pending_announcement_notifications :: "int \<Rightarrow> time \<Rightarrow> database \<Rightarrow> database" where
  "cancel_pending_announcement_notifications aid =
     cancel_queued (\<lambda>d. note_announcement_id d = Some aid) ''announcement_cancelled''"

section \<open>Eligibility\<close>

definition has_period_automatic_renewal_failure :: "database \<Rightarrow> int \<Rightarrow> time \<Rightarrow> bool" where
  "has_period_automatic_renewal_failure db sid period_end =
     list_ex (\<lambda>d. note_subscription_id d = Some sid \<and> note_kind d = AUTOMATIC_RENEWAL_FAILED \<and>
       event_at d = Some period_end) (notifications db)"

definition account_event_still_eligible ::
  "database \<Rightarrow> notification_delivery \<Rightarrow> subscription \<Rightarrow> payment option \<Rightarrow> time \<Rightarrow> bool" where
  "account_event_still_eligible db d sub pay now =
     (case current_period_end sub of
        None \<Rightarrow> False
      | Some period_end \<Rightarrow>
          if event_at d \<noteq> Some period_end then False
          else if is_expiration_kind (note_kind d)
          then sub_status sub = SubACTIVE \<and> period_end > now \<and> \<not> auto_renew sub \<and>
               \<not> has_period_automatic_renewal_failure db (sub_id sub) period_end
          else case note_kind d of
            AUTOMATIC_RENEWAL_FAILED \<Rightarrow>
              (sub_status sub = SubACTIVE \<or> sub_status sub = SubEXPIRED) \<and>
              (case pay of
                 None \<Rightarrow> False
               | Some p \<Rightarrow> pay_status p = FAILED \<and> automatic_renewal p \<and>
                   automatic_renewal_period_end p = Some period_end)
          | AUTOMATIC_RENEWAL_UNCONFIRMED \<Rightarrow>
              sub_status sub = SubACTIVE \<and> auto_renew sub \<and> period_end > now \<and> note_payment_id d = None \<and>
              \<not> has_period_automatic_renewal_failure db (sub_id sub) period_end
          | SUBSCRIPTION_ACTIVATED \<Rightarrow> sub_status sub = SubACTIVE
          | SUBSCRIPTION_RENEWED \<Rightarrow> sub_status sub = SubACTIVE
          | SUBSCRIPTION_EXPIRED \<Rightarrow> sub_status sub = SubEXPIRED
          | _ \<Rightarrow> False)"

definition delivery_subscription :: "database \<Rightarrow> notification_delivery \<Rightarrow> subscription option" where
  "delivery_subscription db d = Option.bind (note_subscription_id d) (get_subscription db)"

definition delivery_payment :: "database \<Rightarrow> notification_delivery \<Rightarrow> payment option" where
  "delivery_payment db d = Option.bind (note_payment_id d) (get_payment db)"

definition delivery_announcement :: "outbox \<Rightarrow> notification_delivery \<Rightarrow> announcement option" where
  "delivery_announcement ob d = Option.bind (note_announcement_id d) (get_announcement ob)"

definition is_delivery_eligible ::
  "settings \<Rightarrow> outbox \<Rightarrow> notification_delivery \<Rightarrow> user \<Rightarrow> time \<Rightarrow> bool" where
  "is_delivery_eligible cfg ob d user now =
     (case note_category d of
        ACCOUNT \<Rightarrow>
          (case delivery_subscription (odb ob) d of
             None \<Rightarrow> False
           | Some sub \<Rightarrow>
               REMINDER_EMAIL_ENABLED cfg \<and> \<not> is_suspended user \<and> has_notification_email user \<and>
               recipient_generation d = notification_email_generation user \<and>
               sub_user_id sub = user_id user \<and>
               (note_payment_id d \<noteq> None \<longrightarrow>
                 (case delivery_payment (odb ob) d of None \<Rightarrow> False
                  | Some p \<Rightarrow> pay_subscription_id p = sub_id sub)) \<and>
               account_event_still_eligible (odb ob) d sub (delivery_payment (odb ob) d) now)
      | SERVICE \<Rightarrow>
          ANNOUNCEMENT_EMAIL_ENABLED cfg \<and> note_kind d = SERVICE_ANNOUNCEMENT \<and>
          (case delivery_announcement ob d of None \<Rightarrow> False | Some a \<Rightarrow> ann_state a = AnnQUEUED) \<and>
          \<not> is_admin user \<and> \<not> is_suspended user \<and> has_notification_email user \<and>
          recipient_generation d = notification_email_generation user)"

section \<open>Rendering\<close>

definition expiry_timing_of :: "time \<Rightarrow> expiry_timing" where
  "expiry_timing_of remaining =
     (if remaining \<le> 0 then HasExpired
      else if remaining \<le> days 1 then LessThanOneDay
      else WithinDays (max 1 (remaining div days 1 + (if (remaining mod days 1) div seconds 1 \<noteq> 0 then 1 else 0))))"

definition render_subscription_event ::
  "notification_kind \<Rightarrow> product_type \<Rightarrow> time option \<Rightarrow> bool \<Rightarrow> time \<Rightarrow> error + mail" where
  "render_subscription_event kind sold at automatic rendered_at =
     (let paid = (case at of Some t \<Rightarrow> PaidThrough t | None \<Rightarrow> NoPeriodLine);
          ended = (case at of Some t \<Rightarrow> EndedOn t | None \<Rightarrow> NoPeriodLine);
          ends = (case at of
                    Some t \<Rightarrow> if t - rendered_at > 0
                             then EndsInHours t (max 1 (- (- (t - rendered_at) div seconds 3600))) else EndedOn t
                  | None \<Rightarrow> NoPeriodLine)
      in case kind of
           SUBSCRIPTION_ACTIVATED \<Rightarrow> Inr (SubscriptionMail kind sold False paid)
         | SUBSCRIPTION_RENEWED \<Rightarrow> Inr (SubscriptionMail kind sold automatic paid)
         | AUTOMATIC_RENEWAL_FAILED \<Rightarrow> Inr (SubscriptionMail kind sold False ends)
         | AUTOMATIC_RENEWAL_UNCONFIRMED \<Rightarrow> Inr (SubscriptionMail kind sold False ends)
         | SUBSCRIPTION_EXPIRED \<Rightarrow> Inr (SubscriptionMail kind sold False ended)
         | _ \<Rightarrow> Inl (ValueError ''subscription notification kind is invalid''))"

definition render_notification :: "outbox \<Rightarrow> notification_delivery \<Rightarrow> time \<Rightarrow> error + mail" where
  "render_notification ob d now =
     (let sub = delivery_subscription (odb ob) d in
      if is_expiration_kind (note_kind d) then
        (case event_at d of
           None \<Rightarrow> Inl (ValueError ''expiration notification has no period end'')
         | Some t \<Rightarrow> Inr (ExpirationMail (map_option product sub) (expiry_timing_of (t - now)) t))
      else if note_kind d = SERVICE_ANNOUNCEMENT then
        (case delivery_announcement ob d of
           None \<Rightarrow> Inl (ValueError ''service announcement is unavailable'')
         | Some a \<Rightarrow>
             if length (ann_subject a) > 160 \<or> length (ann_body a) > 10000
             then Inl (ValueError ''notification content exceeds plaintext limits'')
             else Inr (AnnouncementMail (ann_subject a) (ann_body a)))
      else case sub of
        None \<Rightarrow> Inl (ValueError ''subscription notification is unavailable'')
      | Some s \<Rightarrow>
          render_subscription_event (note_kind d) (product s)
            (case event_at d of Some t \<Rightarrow> Some t | None \<Rightarrow> current_period_end s)
            (case delivery_payment (odb ob) d of Some p \<Rightarrow> automatic_renewal p | None \<Rightarrow> False) now)"

section \<open>The lease\<close>

definition due_now :: "time \<Rightarrow> notification_delivery \<Rightarrow> bool" where
  "due_now now d =
     ((note_state d = QUEUED \<or> note_state d = SENDING) \<and>
      (case note_next_attempt_at d of None \<Rightarrow> True | Some t \<Rightarrow> t \<le> now) \<and>
      (case note_lease_until d of None \<Rightarrow> True | Some t \<Rightarrow> t \<le> now))"

text \<open>The order of the selection; where a missing instant sorts depends on the database.\<close>

definition due_before :: "bool \<Rightarrow> notification_delivery \<Rightarrow> notification_delivery \<Rightarrow> bool" where
  "due_before nulls_first d e =
     (case (note_next_attempt_at d, note_next_attempt_at e) of
        (None, None) \<Rightarrow> note_id d \<le> note_id e
      | (None, Some _) \<Rightarrow> nulls_first
      | (Some _, None) \<Rightarrow> \<not> nulls_first
      | (Some t, Some u) \<Rightarrow> t < u \<or> (t = u \<and> note_id d \<le> note_id e))"

fun first_due :: "bool \<Rightarrow> notification_delivery list \<Rightarrow> notification_delivery option" where
  "first_due nulls_first [] = None"
| "first_due nulls_first (d # ds) =
     (case first_due nulls_first ds of
        None \<Rightarrow> Some d | Some e \<Rightarrow> if due_before nulls_first d e then Some d else Some e)"

definition lease_delivery :: "settings \<Rightarrow> time \<Rightarrow> string \<Rightarrow> int \<Rightarrow> database \<Rightarrow> database option" where
  "lease_delivery cfg now token i db =
     (let matches = (\<lambda>d. note_id d = i \<and> due_now now d)
      in if row_count matches (notifications db) \<noteq> 1 then None
         else Some (db\<lparr>notifications := update_where matches
           (\<lambda>d. d\<lparr>note_lease_token := Some token,
              note_lease_until := Some (now + seconds (NOTIFICATION_DELIVERY_LEASE_SECONDS cfg))\<rparr>)
           (notifications db)\<rparr>))"

definition claim_due_delivery ::
  "settings \<Rightarrow> bool \<Rightarrow> time \<Rightarrow> string \<Rightarrow> (database \<Rightarrow> database) \<Rightarrow> database \<Rightarrow> int option \<times> database" where
  "claim_due_delivery cfg nulls_first now token racing db =
     (case first_due nulls_first (filter (due_now now) (notifications db)) of
        None \<Rightarrow> (None, db)
      | Some d \<Rightarrow>
          (case lease_delivery cfg now token (note_id d) (racing db) of
             None \<Rightarrow> (None, racing db)
           | Some db' \<Rightarrow> (Some (note_id d), db')))"

definition release_lease :: "int \<Rightarrow> string \<Rightarrow> database \<Rightarrow> database" where
  "release_lease i token db =
     db\<lparr>notifications := update_where (\<lambda>d. note_id d = i \<and> note_lease_token d = Some token)
       (\<lambda>d. d\<lparr>note_lease_token := None, note_lease_until := None\<rparr>) (notifications db)\<rparr>"

definition fence_notification_lease :: "settings \<Rightarrow> time \<Rightarrow> int \<Rightarrow> string \<Rightarrow> database \<Rightarrow> database option" where
  "fence_notification_lease cfg fenced_at i token db =
     (let matches = (\<lambda>d. note_id d = i \<and> note_lease_token d = Some token)
      in if row_count matches (notifications db) \<noteq> 1 then None
         else Some (db\<lparr>notifications := update_where matches
           (\<lambda>d. d\<lparr>note_lease_until := Some (fenced_at + seconds (NOTIFICATION_DELIVERY_LEASE_SECONDS cfg))\<rparr>)
           (notifications db)\<rparr>))"

section \<open>Sending\<close>

text \<open>
  The transaction up to the committed attempt: \<open>Proceed\<close> when the row is now sending, \<open>Stopped\<close> otherwise,
  with the exception if one was raised.
\<close>

datatype begun = Proceed | Stopped "error option"

definition begin_attempt :: "time \<Rightarrow> notification_delivery \<Rightarrow> database \<Rightarrow> begun \<times> database" where
  "begin_attempt now d db =
     (if note_state d \<noteq> QUEUED then (Stopped (Some (ValueError ''notification delivery is not queued'')), db)
      else if note_attempt_count d \<ge> MAX_NOTIFICATION_ATTEMPTS
      then (Stopped None, set_notification (note_id d) (terminal DeliveryFAILED ''attempts_exhausted'' now) db)
      else (Proceed, set_notification (note_id d)
              (\<lambda>r. r\<lparr>note_attempt_count := note_attempt_count d + 1, note_state := SENDING,
                 note_last_attempt_at := Some now, note_updated_at := now, note_next_attempt_at := None\<rparr>) db))"

definition begin_delivery :: "settings \<Rightarrow> time \<Rightarrow> int \<Rightarrow> string \<Rightarrow> outbox \<Rightarrow> begun \<times> outbox" where
  "begin_delivery cfg now i token ob =
     (case List.find (\<lambda>d. note_id d = i \<and> note_lease_token d = Some token) (notifications (odb ob)) of
        None \<Rightarrow> (Stopped None, ob)
      | Some d \<Rightarrow>
          let write = (\<lambda>f. (Stopped None, ob\<lparr>odb := set_notification i f (odb ob)\<rparr>)) in
          if note_state d = SENDING then write (terminal DELIVERY_AMBIGUOUS ''worker_interrupted'' now)
          else case get_user (odb ob) (note_user_id d) of
            None \<Rightarrow> write (terminal DeliveryFAILED ''recipient_unavailable'' now)
          | Some user \<Rightarrow>
              if \<not> is_delivery_eligible cfg ob d user now
              then write (cancel_notification ''notification_no_longer_eligible'' now)
              else case begin_attempt now d (odb ob) of (b, db) \<Rightarrow> (b, ob\<lparr>odb := db\<rparr>))"

text \<open>What the attempt came to before the result is written.\<close>

datatype attempt = NoRecipient | NotEligible | AttemptException | Answer smtp_answer

definition still_deliverable :: "outbox \<Rightarrow> notification_delivery \<Rightarrow> time \<Rightarrow> bool" where
  "still_deliverable ob d now =
     (note_category d = ACCOUNT \<longrightarrow>
       (case (get_user (odb ob) (note_user_id d), delivery_subscription (odb ob) d) of
          (Some user, Some sub) \<Rightarrow>
            \<not> is_suspended user \<and> has_notification_email user \<and>
            notification_email_generation user = recipient_generation d \<and>
            account_event_still_eligible (odb ob) d sub (delivery_payment (odb ob) d) now
        | _ \<Rightarrow> False))"

definition attempt_delivery ::
  "mail_env \<Rightarrow> time \<Rightarrow> int \<Rightarrow> outbox \<Rightarrow> (smtp_call \<times> smtp_answer) list \<Rightarrow>
    attempt \<times> (smtp_call \<times> smtp_answer) list" where
  "attempt_delivery env now i ob log =
     (case get_notification (odb ob) i of
        None \<Rightarrow> (AttemptException, log)
      | Some d \<Rightarrow>
          (case lock_and_decrypt_notification_email (addr_parses env) (mail_cipher env) (odb ob) (note_user_id d)
                  (recipient_generation d) of
             Inl _ \<Rightarrow> (NoRecipient, log)
           | Inr recipient \<Rightarrow>
               if \<not> still_deliverable ob d now then (NotEligible, log)
               else case render_notification ob d now of
                 Inl _ \<Rightarrow> (AttemptException, log)
               | Inr rendered \<Rightarrow>
                   let call = \<lparr> call_delivery = i, call_address = recipient, call_mail = rendered,
                                call_message_id = (idempotency_key d, recipient_generation d) \<rparr>;
                       answer = adapter env log call
                   in (Answer answer, log @ [(call, answer)])))"

text \<open>The columns the result writes.\<close>

definition sent :: "time \<Rightarrow> notification_delivery \<Rightarrow> notification_delivery" where
  "sent now d = (terminal SENT [] now d)\<lparr>note_sent_at := Some now\<rparr>"

definition requeued :: "string \<Rightarrow> time \<Rightarrow> notification_delivery \<Rightarrow> notification_delivery" where
  "requeued code now d = d\<lparr>note_state := QUEUED, note_error_code := Some (sanitize_error_code code),
     note_updated_at := now, note_next_attempt_at := Some (now + retry_delay (note_attempt_count d))\<rparr>"

fun attempt_result :: "time \<Rightarrow> attempt \<Rightarrow> notification_delivery \<Rightarrow> notification_delivery" where
  "attempt_result now NoRecipient d = terminal DeliveryFAILED ''recipient_unavailable'' now d"
| "attempt_result now NotEligible d = cancel_notification ''notification_no_longer_eligible'' now d"
| "attempt_result now AttemptException d = terminal DeliveryFAILED ''smtp_internal_error'' now d"
| "attempt_result now (Answer SmtpAccepted) d = sent now d"
| "attempt_result now (Answer SmtpException) d = terminal DeliveryFAILED ''smtp_internal_error'' now d"
| "attempt_result now (Answer (SmtpDeliveryError code ambiguous retryable)) d =
     (if ambiguous then terminal DELIVERY_AMBIGUOUS (sanitize_error_code code) now d
      else if retryable \<and> note_attempt_count d < MAX_NOTIFICATION_ATTEMPTS then requeued code now d
      else terminal DeliveryFAILED (sanitize_error_code code) now d)"

definition finish_delivery ::
  "settings \<Rightarrow> time \<Rightarrow> time \<Rightarrow> int \<Rightarrow> string \<Rightarrow> attempt \<Rightarrow> database \<Rightarrow> database" where
  "finish_delivery cfg now fenced_at i token a db =
     (case fence_notification_lease cfg fenced_at i token db of
        None \<Rightarrow> db
      | Some db' \<Rightarrow> set_notification i (attempt_result now a) db')"

text \<open>
  The worker on one claimed delivery: \<open>racing\<close> is what other sessions commit after the attempt is recorded,
  \<open>racing'\<close> while the mail server is contacted.
\<close>

definition process_claimed_delivery ::
  "settings \<Rightarrow> mail_env \<Rightarrow> time \<Rightarrow> time \<Rightarrow> (outbox \<Rightarrow> outbox) \<Rightarrow> (outbox \<Rightarrow> outbox) \<Rightarrow> int \<Rightarrow> string \<Rightarrow>
    outbox \<times> (smtp_call \<times> smtp_answer) list \<Rightarrow> outbox \<times> (smtp_call \<times> smtp_answer) list" where
  "process_claimed_delivery cfg env now fenced_at racing racing' i token w =
     (case begin_delivery cfg now i token (fst w) of
        (Stopped _, ob) \<Rightarrow> (ob, snd w)
      | (Proceed, ob) \<Rightarrow>
          (case attempt_delivery env now i (racing ob) (snd w) of
             (a, log) \<Rightarrow>
               let ob' = racing' (racing ob)
               in (ob'\<lparr>odb := finish_delivery cfg now fenced_at i token a (odb ob')\<rparr>, log)))"

definition deliver_one ::
  "settings \<Rightarrow> mail_env \<Rightarrow> bool \<Rightarrow> time \<Rightarrow> string \<Rightarrow> outbox \<times> (smtp_call \<times> smtp_answer) list \<Rightarrow>
    (outbox \<times> (smtp_call \<times> smtp_answer) list) option" where
  "deliver_one cfg env nulls_first now token w =
     (case claim_due_delivery cfg nulls_first now token id (odb (fst w)) of
        (None, _) \<Rightarrow> None
      | (Some i, db) \<Rightarrow>
          (case process_claimed_delivery cfg env now now id id i token ((fst w)\<lparr>odb := db\<rparr>, snd w) of
             (ob, log) \<Rightarrow> Some (ob\<lparr>odb := release_lease i token (odb ob)\<rparr>, log)))"

text \<open>The loop of a cycle: one clock reading and one token per iteration.\<close>

fun deliver_batch ::
  "settings \<Rightarrow> mail_env \<Rightarrow> bool \<Rightarrow> (time \<times> string) list \<Rightarrow> outbox \<times> (smtp_call \<times> smtp_answer) list \<Rightarrow>
    outbox \<times> (smtp_call \<times> smtp_answer) list" where
  "deliver_batch cfg env nulls_first [] w = w"
| "deliver_batch cfg env nulls_first ((now, token) # draws) w =
     (case deliver_one cfg env nulls_first now token w of
        None \<Rightarrow> w | Some w' \<Rightarrow> deliver_batch cfg env nulls_first draws w')"

section \<open>Maintenance of the queue\<close>

text \<open>
  An invalid queued delivery is loaded, judged and written back without a condition; \<open>loaded\<close> is the row as
  read, \<open>current\<close> the row when it is written: columns whose value does not change are not written.
\<close>

definition cancel_loaded :: "time \<Rightarrow> notification_delivery \<Rightarrow> notification_delivery \<Rightarrow> notification_delivery" where
  "cancel_loaded now loaded current = current\<lparr>note_state := CANCELLED,
     note_error_code := (if note_error_code loaded = Some ''notification_no_longer_eligible'' then note_error_code current
                         else Some ''notification_no_longer_eligible''),
     note_updated_at := now,
     note_terminal_at := Some now,
     note_next_attempt_at := (if note_next_attempt_at loaded = None then note_next_attempt_at current else None),
     note_lease_token := (if note_lease_token loaded = None then note_lease_token current else None),
     note_lease_until := (if note_lease_until loaded = None then note_lease_until current else None)\<rparr>"

definition invalid_queued :: "settings \<Rightarrow> time \<Rightarrow> nat \<Rightarrow> outbox \<Rightarrow> notification_delivery list" where
  "invalid_queued cfg now batch_size ob =
     filter (\<lambda>d. case get_user (odb ob) (note_user_id d) of
         None \<Rightarrow> False | Some user \<Rightarrow> \<not> is_delivery_eligible cfg ob d user now)
       (take batch_size (sort_key note_id
         (filter (\<lambda>d. note_state d = QUEUED \<and> get_user (odb ob) (note_user_id d) \<noteq> None) (notifications (odb ob)))))"

definition cancel_invalid_queued_deliveries ::
  "settings \<Rightarrow> time \<Rightarrow> nat \<Rightarrow> (database \<Rightarrow> database) \<Rightarrow> outbox \<Rightarrow> outbox" where
  "cancel_invalid_queued_deliveries cfg now batch_size racing ob =
     ob\<lparr>odb := fold (\<lambda>d. set_notification (note_id d) (cancel_loaded now d)) (invalid_queued cfg now batch_size ob)
          (racing (odb ob))\<rparr>"

definition notice_exists :: "database \<Rightarrow> notification_kind \<Rightarrow> subscription \<Rightarrow> bool" where
  "notice_exists db kind s =
     list_ex (\<lambda>d. note_subscription_id d = Some (sub_id s) \<and> event_at d = current_period_end s \<and> note_kind d = kind)
       (notifications db)"

definition notifiable :: "database \<Rightarrow> subscription \<Rightarrow> bool" where
  "notifiable db s =
     (case get_user db (sub_user_id s) of
        None \<Rightarrow> False
      | Some u \<Rightarrow> has_notification_email u \<and> notification_email_generation u \<ge> 1 \<and> \<not> is_suspended u)"

text \<open>Selections are ordered by period end and identifier.\<close>

definition by_period_end :: "subscription list \<Rightarrow> subscription list" where
  "by_period_end ss = sort_key (\<lambda>s. the (current_period_end s)) (sort_key sub_id ss)"

definition due_expirations :: "time \<Rightarrow> nat \<Rightarrow> database \<Rightarrow> subscription list" where
  "due_expirations now batch_size db =
     take batch_size (by_period_end (filter (\<lambda>s. case current_period_end s of
         None \<Rightarrow> False
       | Some e \<Rightarrow> sub_status s = SubACTIVE \<and> e > now \<and> notifiable db s \<and> \<not> auto_renew s \<and>
           \<not> notice_exists db AUTOMATIC_RENEWAL_FAILED s \<and>
           (e \<le> now + days 1 \<and> \<not> notice_exists db EXPIRATION_1_DAY s \<or>
            e > now + days 1 \<and> e \<le> now + days 7 \<and> \<not> notice_exists db EXPIRATION_7_DAY s))
       (subscriptions db)))"

definition unconfirmed_renewals :: "settings \<Rightarrow> time \<Rightarrow> nat \<Rightarrow> database \<Rightarrow> subscription list" where
  "unconfirmed_renewals cfg now capacity db =
     take capacity (by_period_end (filter (\<lambda>s. case current_period_end s of
         None \<Rightarrow> False
       | Some e \<Rightarrow> sub_status s = SubACTIVE \<and> auto_renew s \<and> e > now \<and>
           e \<le> now + seconds (min (12 * 60 * 60) (NWC_AUTO_RENEW_LEAD_SECONDS cfg div 2)) \<and> notifiable db s \<and>
           \<not> notice_exists db AUTOMATIC_RENEWAL_FAILED s \<and> \<not> notice_exists db AUTOMATIC_RENEWAL_UNCONFIRMED s)
       (subscriptions db)))"

definition expiration_kind :: "time \<Rightarrow> subscription \<Rightarrow> notification_kind" where
  "expiration_kind now s = (if the (current_period_end s) - now \<le> days 1 then EXPIRATION_1_DAY else EXPIRATION_7_DAY)"

fun queue_notices ::
  "sealer \<Rightarrow> time \<Rightarrow> (subscription \<Rightarrow> notification_kind) \<Rightarrow> subscription list \<Rightarrow> nat \<times> database \<Rightarrow> error + nat \<times> database" where
  "queue_notices seal now kind [] st = Inr st"
| "queue_notices seal now kind (s # ss) (n, db) =
     (case get_user db (sub_user_id s) of
        None \<Rightarrow> queue_notices seal now kind ss (n, db)
      | Some user \<Rightarrow>
          let key = ExpirationEvent (sub_id s) (the (current_period_end s)) (kind s);
              existed = list_ex (\<lambda>d. idempotency_key d = key) (notifications db)
          in case queue_notification seal now user ACCOUNT (kind s) key (Some s) None None (current_period_end s) None db of
               Inl e \<Rightarrow> Inl e
             | Inr db' \<Rightarrow> queue_notices seal now kind ss (if existed then n else n + 1, db'))"

definition queue_due_expirations :: "settings \<Rightarrow> sealer \<Rightarrow> time \<Rightarrow> nat \<Rightarrow> database \<Rightarrow> error + nat \<times> database" where
  "queue_due_expirations cfg seal now batch_size db =
     (let due = due_expirations now batch_size db in
      case queue_notices seal now (expiration_kind now) due (0, db) of
        Inl e \<Rightarrow> Inl e
      | Inr (n, db1) \<Rightarrow>
          if batch_size - length due = 0 then Inr (n, db1)
          else queue_notices seal now (\<lambda>_. AUTOMATIC_RENEWAL_UNCONFIRMED)
                 (unconfirmed_renewals cfg now (batch_size - length due) db1) (n, db1))"

text \<open>One page of recipients of the oldest announcement that is still being expanded.\<close>

definition recipient_page :: "announcement \<Rightarrow> nat \<Rightarrow> outbox \<Rightarrow> (recipient_snapshot \<times> user) list" where
  "recipient_page a batch_size ob =
     take batch_size (List.map_filter (\<lambda>r. map_option (Pair r) (get_user (odb ob) (rs_user_id r)))
       (sort_key rs_user_id (filter (\<lambda>r. rs_announcement_id r = ann_id a \<and> rs_user_id r > recipient_cursor a)
         (recipient_snapshots ob))))"

fun queue_announcement ::
  "sealer \<Rightarrow> time \<Rightarrow> announcement \<Rightarrow> (recipient_snapshot \<times> user) list \<Rightarrow> database \<Rightarrow> error + database" where
  "queue_announcement seal now a [] db = Inr db"
| "queue_announcement seal now a ((r, user) # rs) db =
     (case queue_notification seal now user SERVICE SERVICE_ANNOUNCEMENT (AnnouncementFor (ann_id a) (user_id user))
             None None (Some (ann_id a)) None (Some (rs_generation r)) db of
        Inl e \<Rightarrow> Inl e
      | Inr db' \<Rightarrow> queue_announcement seal now a rs db')"

definition set_announcement :: "int \<Rightarrow> (announcement \<Rightarrow> announcement) \<Rightarrow> outbox \<Rightarrow> outbox" where
  "set_announcement i f ob = ob\<lparr>announcements := update_where (\<lambda>a. ann_id a = i) f (announcements ob)\<rparr>"

definition expand_queued_announcements :: "sealer \<Rightarrow> time \<Rightarrow> nat \<Rightarrow> outbox \<Rightarrow> error + nat \<times> outbox" where
  "expand_queued_announcements seal now batch_size ob =
     (case sort_key ann_id (filter (\<lambda>a. ann_state a = AnnQUEUED \<and> \<not> expansion_complete a) (announcements ob)) of
        [] \<Rightarrow> Inr (0, ob)
      | a # _ \<Rightarrow>
          let page = recipient_page a batch_size ob in
          if page = [] then Inr (0, set_announcement (ann_id a) (\<lambda>a. a\<lparr>expansion_complete := True\<rparr>) ob)
          else case queue_announcement seal now a page (odb ob) of
            Inl e \<Rightarrow> Inl e
          | Inr db \<Rightarrow> Inr (length page, set_announcement (ann_id a)
              (\<lambda>a. a\<lparr>recipient_cursor := rs_user_id (fst (last page)),
                     expansion_complete := expansion_complete a \<or> length page < batch_size\<rparr>) (ob\<lparr>odb := db\<rparr>)))"

end
