(* ===== verification/Notification_Safety.thy ===== *)
theory Notification_Safety
  imports Notification_Delivery
begin

text \<open>
  What delivery guarantees over any interleaving of workers: the transactions of
  \<open>Notification_Delivery\<close> as steps of a system with any number of workers, which may stop at any point.
  A delivery is handed to the mail server again only after the server definitely refused it for now.
\<close>

section \<open>The system\<close>

datatype worker_phase = PhClaimed | PhSending | PhAnswered attempt | PhDone

record worker =
  wk_delivery :: int
  wk_token :: string
  wk_phase :: worker_phase

record mail_system =
  box :: outbox
  smtp_log :: "(smtp_call \<times> smtp_answer) list"
  workers :: "worker list"

abbreviation rows :: "mail_system \<Rightarrow> notification_delivery list" where
  "rows s \<equiv> notifications (odb (box s))"

abbreviation with_db :: "database \<Rightarrow> mail_system \<Rightarrow> mail_system" where
  "with_db db s \<equiv> s\<lparr>box := (box s)\<lparr>odb := db\<rparr>\<rparr>"

text \<open>
  Other operations of the control plane change any table but the queue; deliveries are queued and cancelled
  at any time, a cancellation possibly on the strength of a row read long before.
\<close>

inductive mail_step :: "settings \<Rightarrow> mail_env \<Rightarrow> mail_system \<Rightarrow> mail_system \<Rightarrow> bool" for cfg env where
  claim: "lease_delivery cfg now token i (odb (box s)) = Some db \<Longrightarrow>
    mail_step cfg env s ((with_db db s)\<lparr>workers := \<lparr>wk_delivery = i, wk_token = token, wk_phase = PhClaimed\<rparr> # workers s\<rparr>)"
| start: "workers s = ks @ k # ks' \<Longrightarrow> wk_phase k = PhClaimed \<Longrightarrow>
    begin_delivery cfg now (wk_delivery k) (wk_token k) (box s) = (b, ob) \<Longrightarrow>
    mail_step cfg env s (s\<lparr>box := ob,
      workers := ks @ k\<lparr>wk_phase := (if b = Proceed then PhSending else PhDone)\<rparr> # ks'\<rparr>)"
| attempt: "workers s = ks @ k # ks' \<Longrightarrow> wk_phase k = PhSending \<Longrightarrow>
    attempt_delivery env now (wk_delivery k) (box s) (smtp_log s) = (a, log) \<Longrightarrow>
    mail_step cfg env s (s\<lparr>smtp_log := log, workers := ks @ k\<lparr>wk_phase := PhAnswered a\<rparr> # ks'\<rparr>)"
| finish: "workers s = ks @ k # ks' \<Longrightarrow> wk_phase k = PhAnswered a \<Longrightarrow>
    mail_step cfg env s ((with_db (finish_delivery cfg now fenced_at (wk_delivery k) (wk_token k) a (odb (box s))) s)
      \<lparr>workers := ks @ k\<lparr>wk_phase := PhDone\<rparr> # ks'\<rparr>)"
| abort: "workers s = ks @ k # ks' \<Longrightarrow> mail_step cfg env s (s\<lparr>workers := ks @ k\<lparr>wk_phase := PhDone\<rparr> # ks'\<rparr>)"
| release: "workers s = ks @ k # ks' \<Longrightarrow> wk_phase k = PhDone \<Longrightarrow>
    mail_step cfg env s ((with_db (release_lease (wk_delivery k) (wk_token k) (odb (box s))) s)\<lparr>workers := ks @ ks'\<rparr>)"
| crash: "workers s = ks @ k # ks' \<Longrightarrow> mail_step cfg env s (s\<lparr>workers := ks @ ks'\<rparr>)"
| queue: "queue_notification seal now user category kind key sub pay ann at ov (odb (box s)) = Inr db \<Longrightarrow>
    mail_step cfg env s (with_db db s)"
| cancel: "mail_step cfg env s (with_db (cancel_queued selected code now (odb (box s))) s)"
| cancel_read: "mail_step cfg env s (with_db (set_notification (note_id loaded) (cancel_loaded now loaded) (odb (box s))) s)"
| other: "notifications (odb ob) = rows s \<Longrightarrow> next_id (odb (box s)) \<le> next_id (odb ob) \<Longrightarrow>
    mail_step cfg env s (s\<lparr>box := ob\<rparr>)"

section \<open>The invariant\<close>

text \<open>An answer after which the message is known not to have been delivered.\<close>

fun definite :: "smtp_answer \<Rightarrow> bool" where
  "definite (SmtpDeliveryError _ ambiguous retryable) = (\<not> ambiguous \<and> retryable)"
| "definite _ = False"

fun may_retry :: "attempt \<Rightarrow> bool" where
  "may_retry (Answer a) = definite a"
| "may_retry _ = False"

fun active :: "worker_phase \<Rightarrow> bool" where
  "active PhSending = True" | "active (PhAnswered _) = True" | "active _ = False"

definition answers :: "int \<Rightarrow> (smtp_call \<times> smtp_answer) list \<Rightarrow> smtp_answer list" where
  "answers i log = map snd (filter (\<lambda>(c, _). call_delivery c = i) log)"

definition in_flight :: "int \<Rightarrow> worker list \<Rightarrow> worker_phase list" where
  "in_flight i ks = filter active (map wk_phase (filter (\<lambda>k. wk_delivery k = i) ks))"

definition delivery_ok :: "notification_delivery \<Rightarrow> smtp_answer list \<Rightarrow> worker_phase list \<Rightarrow> bool" where
  "delivery_ok d es act \<longleftrightarrow> note_attempt_count d \<le> MAX_NOTIFICATION_ATTEMPTS \<and>
     (case act of
        [] \<Rightarrow> length es \<le> note_attempt_count d \<and> list_all definite (butlast es) \<and>
              (note_state d = QUEUED \<longrightarrow> list_all definite es)
      | [PhSending] \<Rightarrow> length es < note_attempt_count d \<and> list_all definite es \<and> note_state d \<noteq> QUEUED
      | [PhAnswered a] \<Rightarrow> length es \<le> note_attempt_count d \<and> list_all definite (butlast es) \<and>
              (may_retry a \<longrightarrow> list_all definite es) \<and> note_state d \<noteq> QUEUED
      | _ \<Rightarrow> False)"

definition logged_rows :: "notification_delivery list \<Rightarrow> (smtp_call \<times> smtp_answer) list \<Rightarrow> bool" where
  "logged_rows ds log \<longleftrightarrow> (\<forall>(c, a) \<in> set log. \<exists>d \<in> set ds.
     note_id d = call_delivery c \<and> idempotency_key d = fst (call_message_id c))"

definition mail_ok :: "mail_system \<Rightarrow> bool" where
  "mail_ok s \<longleftrightarrow> notification_indexes (rows s) \<and>
     (\<forall>d \<in> set (rows s). note_id d < next_id (odb (box s))) \<and>
     (\<forall>k \<in> set (workers s). wk_delivery k < next_id (odb (box s))) \<and>
     logged_rows (rows s) (smtp_log s) \<and>
     (\<forall>d \<in> set (rows s). delivery_ok d (answers (note_id d) (smtp_log s)) (in_flight (note_id d) (workers s)))"

section \<open>Lemmas\<close>

lemma in_flight_simps [simp]:
  "in_flight i [] = []" "in_flight i (ks @ ks') = in_flight i ks @ in_flight i ks'"
  "in_flight i (k # ks) = (if wk_delivery k = i \<and> active (wk_phase k) then [wk_phase k] else []) @ in_flight i ks"
  by (simp_all add: in_flight_def)

lemma in_flight_active: "p \<in> set (in_flight i ks) \<Longrightarrow> active p"
  by (auto simp: in_flight_def)

lemma answers_append [simp]: "answers i (log @ log') = answers i log @ answers i log'"
  by (simp add: answers_def)

lemma butlast_definite: "list_all definite es \<Longrightarrow> list_all definite (butlast es)"
  by (auto simp: list_all_iff dest: in_set_butlastD)

lemma delivery_ok_drop:
  assumes "delivery_ok d es (as @ p # bs)" shows "delivery_ok d es (as @ bs)"
proof -
  have "as = [] \<and> bs = []"
    using assms by (cases as; cases bs) (auto simp: delivery_ok_def split: list.splits worker_phase.splits)
  then show ?thesis
    using assms butlast_definite by (cases p) (auto simp: delivery_ok_def)
qed

text \<open>Changes of the queue that never make a delivery eligible for sending.\<close>

definition tame :: "notification_delivery \<Rightarrow> notification_delivery \<Rightarrow> bool" where
  "tame d d' \<longleftrightarrow> note_id d' = note_id d \<and> idempotency_key d' = idempotency_key d \<and>
     note_attempt_count d' = note_attempt_count d \<and> (note_state d' = QUEUED \<longrightarrow> note_state d = QUEUED)"

lemma tame_delivery: "tame d d' \<Longrightarrow> delivery_ok d es act \<Longrightarrow> delivery_ok d' es act"
  by (auto simp: tame_def delivery_ok_def split: list.splits worker_phase.splits)

lemma tame_terminal [simp]:
  "tame d (terminal DELIVERY_AMBIGUOUS code now d)" "tame d (terminal DeliveryFAILED code now d)"
  "tame d (terminal SENT code now d)" "tame d (cancel_notification code now d)" "tame d (cancel_loaded now e d)"
  "tame d (sent now d)"
  by (simp_all add: tame_def terminal_def cancel_notification_def cancel_loaded_def sent_def)

lemma tame_map_keys: "list_all2 tame ds ds' \<Longrightarrow> map note_id ds' = map note_id ds \<and> map idempotency_key ds' = map idempotency_key ds"
  by (induction rule: list_all2_induct) (auto simp: tame_def)

lemma tame_update: "(\<And>d. p d \<Longrightarrow> tame d (f d)) \<Longrightarrow> list_all2 tame ds (update_where p f ds)"
proof (induction ds)
  case (Cons d ds)
  have "tame d d" by (simp add: tame_def)
  then show ?case using Cons by (simp add: table_simps)
qed (simp add: update_where_def)

lemma logged_rowD:
  "logged_rows ds log \<Longrightarrow> (c, a) \<in> set log \<Longrightarrow>
    \<exists>d \<in> set ds. note_id d = call_delivery c \<and> idempotency_key d = fst (call_message_id c)"
  by (auto simp: logged_rows_def)

lemma logged_rows_mono: "logged_rows ds log \<Longrightarrow> set ds \<subseteq> set ds' \<Longrightarrow> logged_rows ds' log"
  by (fastforce simp: logged_rows_def)

lemma logged_rows_tame: "list_all2 tame ds ds' \<Longrightarrow> logged_rows ds log \<Longrightarrow> logged_rows ds' log"
proof -
  assume t: "list_all2 tame ds ds'" and l: "logged_rows ds log"
  have "\<exists>d' \<in> set ds'. note_id d' = note_id d \<and> idempotency_key d' = idempotency_key d" if "d \<in> set ds" for d
    using t that by (induction rule: list_all2_induct) (auto simp: tame_def)
  then show ?thesis using l unfolding logged_rows_def by fastforce
qed

lemma tame_ok:
  assumes ok: "mail_ok s" and t: "list_all2 tame (rows s) (rows s')"
    and n: "next_id (odb (box s)) \<le> next_id (odb (box s'))" and log: "smtp_log s' = smtp_log s"
    and w: "\<And>k. k \<in> set (workers s') \<Longrightarrow> wk_delivery k < next_id (odb (box s'))"
    and act: "\<And>d. d \<in> set (rows s) \<Longrightarrow> delivery_ok d (answers (note_id d) (smtp_log s)) (in_flight (note_id d) (workers s'))"
  shows "mail_ok s'"
proof -
  have pre: "\<exists>d \<in> set (rows s). tame d d'" if "d' \<in> set (rows s')" for d'
    using t that by (induction rule: list_all2_induct) auto
  have "notification_indexes (rows s')"
    using ok tame_map_keys [OF t] by (simp add: mail_ok_def notification_indexes_def)
  moreover have "note_id d' < next_id (odb (box s'))" if "d' \<in> set (rows s')" for d'
    using pre [OF that] ok n by (fastforce simp: mail_ok_def tame_def)
  moreover have "delivery_ok d' (answers (note_id d') (smtp_log s')) (in_flight (note_id d') (workers s'))"
    if d': "d' \<in> set (rows s')" for d'
  proof -
    obtain d where d: "d \<in> set (rows s)" and td: "tame d d'" using pre [OF d'] by blast
    have id: "note_id d' = note_id d" using td by (simp add: tame_def)
    show ?thesis using tame_delivery [OF td act [OF d]] by (simp add: id log)
  qed
  ultimately show ?thesis using w logged_rows_tame [OF t] ok log by (simp add: mail_ok_def)
qed

lemma tame_refl [simp]: "list_all2 tame ds ds"
  by (simp add: list_all2_refl tame_def)

lemma set_notification_tame:
  "(\<And>d. tame d (f d)) \<Longrightarrow> list_all2 tame (notifications db) (notifications (set_notification i f db))"
  by (simp add: set_notification_def tame_update)

text \<open>Workers that stop or change their phase without becoming active.\<close>

lemma flight_drop:
  assumes "delivery_ok d es (in_flight i (ks @ k # ks'))" and "\<not> active (wk_phase k')"
  shows "delivery_ok d es (in_flight i (ks @ ks'))" and "delivery_ok d es (in_flight i (ks @ k' # ks'))"
  using assms delivery_ok_drop [of d es "in_flight i ks" _ "in_flight i ks'"] by (auto split: if_splits)

lemma mail_okD:
  assumes "mail_ok s"
  shows "d \<in> set (rows s) \<Longrightarrow> delivery_ok d (answers (note_id d) (smtp_log s)) (in_flight (note_id d) (workers s))"
    and "k \<in> set (workers s) \<Longrightarrow> wk_delivery k < next_id (odb (box s))"
    and "distinct (map note_id (rows s))"
  using assms by (auto simp: mail_ok_def notification_indexes_def)

lemma lease_tame:
  assumes "lease_delivery cfg now token i db = Some db'"
  shows "list_all2 tame (notifications db) (notifications db') \<and> next_id db' = next_id db \<and> i \<in> note_id ` set (notifications db)"
proof -
  have "row_count (\<lambda>d. note_id d = i \<and> due_now now d) (notifications db) \<noteq> 0"
    and db': "db' = db\<lparr>notifications := update_where (\<lambda>d. note_id d = i \<and> due_now now d)
      (\<lambda>d. d\<lparr>note_lease_token := Some token,
        note_lease_until := Some (now + seconds (NOTIFICATION_DELIVERY_LEASE_SECONDS cfg))\<rparr>) (notifications db)\<rparr>"
    using assms by (auto simp: lease_delivery_def Let_def split: if_splits)
  then show ?thesis by (auto simp: row_count_0 db' tame_def intro!: tame_update)
qed

lemma release_tame:
  "list_all2 tame (notifications db) (notifications (release_lease i token db))" "next_id (release_lease i token db) = next_id db"
  by (auto simp: release_lease_def tame_def intro!: tame_update)

lemma cancel_tame:
  "list_all2 tame (notifications db) (notifications (cancel_queued p code now db))"
  "next_id (cancel_queued p code now db) = next_id db"
  by (auto simp: cancel_queued_def tame_def intro!: tame_update)

text \<open>A claimed delivery that starts sending was queued, so nobody else was sending it.\<close>

lemma begin_delivery_cases:
  assumes "begin_delivery cfg now i token ob = (b, ob')" and d: "distinct (map note_id (notifications (odb ob)))"
  shows "next_id (odb ob') = next_id (odb ob)"
    and "b \<noteq> Proceed \<Longrightarrow> list_all2 tame (notifications (odb ob)) (notifications (odb ob'))"
    and "b = Proceed \<Longrightarrow> \<exists>d. d \<in> set (notifications (odb ob)) \<and> note_id d = i \<and> note_state d = QUEUED \<and>
      note_attempt_count d < MAX_NOTIFICATION_ATTEMPTS \<and>
      notifications (odb ob') = update_where (\<lambda>r. note_id r = i)
        (\<lambda>r. r\<lparr>note_attempt_count := note_attempt_count d + 1, note_state := SENDING, note_last_attempt_at := Some now,
           note_updated_at := now, note_next_attempt_at := None\<rparr>) (notifications (odb ob))"
proof -
  show "next_id (odb ob') = next_id (odb ob)"
    using assms(1) by (auto simp: begin_delivery_def begin_attempt_def Let_def set_notification_def
        split: option.splits if_splits prod.splits)
  have found: "List.find p xs = Some x \<Longrightarrow> x \<in> set xs \<and> p x" for p :: "notification_delivery \<Rightarrow> bool" and xs x
    by (auto simp: find_Some_iff in_set_conv_nth)
  show "list_all2 tame (notifications (odb ob)) (notifications (odb ob'))" if "b \<noteq> Proceed"
    using assms(1) that
    by (auto simp: begin_delivery_def begin_attempt_def Let_def set_notification_def intro!: tame_update
        split: option.splits if_splits prod.splits)
  assume b: "b = Proceed"
  from assms(1) b obtain d where f: "List.find (\<lambda>d. note_id d = i \<and> note_lease_token d = Some token) (notifications (odb ob)) = Some d"
    by (auto simp: begin_delivery_def split: option.splits)
  from assms(1) b this show "\<exists>d. d \<in> set (notifications (odb ob)) \<and> note_id d = i \<and> note_state d = QUEUED \<and>
      note_attempt_count d < MAX_NOTIFICATION_ATTEMPTS \<and>
      notifications (odb ob') = update_where (\<lambda>r. note_id r = i)
        (\<lambda>r. r\<lparr>note_attempt_count := note_attempt_count d + 1, note_state := SENDING, note_last_attempt_at := Some now,
           note_updated_at := now, note_next_attempt_at := None\<rparr>) (notifications (odb ob))"
    using found [OF f]
    by (intro exI [of _ d]) (auto simp: begin_delivery_def begin_attempt_def Let_def set_notification_def
        split: option.splits if_splits prod.splits)
qed

lemma attempt_delivery_cases:
  assumes "attempt_delivery env now i ob log = (a, log')"
  obtains "log' = log" and "\<not> may_retry a"
  | c x d where "log' = log @ [(c, x)]" and "a = Answer x" and "call_delivery c = i"
      and "d \<in> set (notifications (odb ob))" and "note_id d = i" and "idempotency_key d = fst (call_message_id c)"
proof (cases "log' = log")
  case True
  then have "\<not> may_retry a"
    using assms by (auto simp: attempt_delivery_def Let_def split: option.splits sum.splits if_splits)
  then show thesis using that(1) True by blast
next
  case False
  then obtain d where d: "get_notification (odb ob) i = Some d"
    using assms by (auto simp: attempt_delivery_def split: option.splits)
  then have "d \<in> set (notifications (odb ob))" "note_id d = i"
    by (auto simp: get_notification_def dest: get_row_Some)
  with assms False d show thesis
    by (auto simp: attempt_delivery_def Let_def split: option.splits sum.splits if_splits
        intro!: that(2) [of _ _ d])
qed

lemma attempt_result_effect:
  "note_id (attempt_result now a d) = note_id d \<and> idempotency_key (attempt_result now a d) = idempotency_key d \<and>
   note_attempt_count (attempt_result now a d) = note_attempt_count d \<and>
   (note_state (attempt_result now a d) = QUEUED \<longrightarrow> may_retry a)"
  by (cases "(now, a, d)" rule: attempt_result.cases)
    (auto simp: terminal_def cancel_notification_def sent_def requeued_def)

lemma mapped_ok:
  assumes ok: "mail_ok s" and g: "rows s' = map g (rows s)"
    and keys: "\<And>d. note_id (g d) = note_id d" "\<And>d. idempotency_key (g d) = idempotency_key d"
    and n: "next_id (odb (box s')) = next_id (odb (box s))"
    and w: "wk_delivery ` set (workers s') \<subseteq> wk_delivery ` set (workers s)"
    and log: "\<And>c a. (c, a) \<in> set (smtp_log s') \<Longrightarrow> (c, a) \<notin> set (smtp_log s) \<Longrightarrow>
      \<exists>d \<in> set (rows s). note_id d = call_delivery c \<and> idempotency_key d = fst (call_message_id c)"
    and row: "\<And>d. d \<in> set (rows s) \<Longrightarrow>
      delivery_ok (g d) (answers (note_id d) (smtp_log s')) (in_flight (note_id d) (workers s'))"
  shows "mail_ok s'"
proof -
  have "map note_id (rows s') = map note_id (rows s)" "map idempotency_key (rows s') = map idempotency_key (rows s)"
    by (simp_all add: g keys)
  moreover have "logged_rows (rows s') (smtp_log s')"
    unfolding logged_rows_def
  proof (intro ballI, clarify)
    fix c a assume ca: "(c, a) \<in> set (smtp_log s')"
    obtain d where "d \<in> set (rows s)" "note_id d = call_delivery c \<and> idempotency_key d = fst (call_message_id c)"
      using log [OF ca] ok by (cases "(c, a) \<in> set (smtp_log s)") (fastforce simp: mail_ok_def logged_rows_def)+
    then show "\<exists>d \<in> set (rows s'). note_id d = call_delivery c \<and> idempotency_key d = fst (call_message_id c)"
      by (intro bexI [of _ "g d"]) (simp_all add: g keys)
  qed
  moreover have "wk_delivery k < next_id (odb (box s))" if "k \<in> set (workers s')" for k
  proof -
    have "wk_delivery k \<in> wk_delivery ` set (workers s)" using w that by blast
    then show ?thesis using mail_okD(2) [OF ok] by auto
  qed
  ultimately show ?thesis using ok row by (auto simp: mail_ok_def notification_indexes_def n g keys comp_def)
qed

lemma same_row:
  assumes "mail_ok s" and "d \<in> set (rows s)" and "e \<in> set (rows s)" and "note_id d = note_id e" shows "d = e"
  using mail_okD(3) [OF assms(1)] assms(2-4) by (auto simp: distinct_map dest: inj_onD)

lemma queued_idle:
  assumes "mail_ok s" and "d \<in> set (rows s)" and "note_state d = QUEUED"
  shows "in_flight (note_id d) (workers s) = [] \<and> list_all definite (answers (note_id d) (smtp_log s))"
proof -
  have "active p" if "in_flight (note_id d) (workers s) = [p]" for p
    using in_flight_active [of p "note_id d" "workers s"] that by simp
  then show ?thesis
    using mail_okD(1) [OF assms(1,2)] assms(3)
    by (cases "in_flight (note_id d) (workers s)") (auto simp: delivery_ok_def split: list.splits worker_phase.splits)
qed

lemma start_ok:
  assumes ok: "mail_ok s" and w: "workers s = ks @ k # ks'" and ph: "wk_phase k = PhClaimed"
    and run: "begin_delivery cfg now (wk_delivery k) (wk_token k) (box s) = (Proceed, ob)"
  shows "mail_ok (s\<lparr>box := ob, workers := ks @ k\<lparr>wk_phase := PhSending\<rparr> # ks'\<rparr>)"
proof -
  let ?i = "wk_delivery k"
  note cs = begin_delivery_cases [OF run mail_okD(3) [OF ok]]
  obtain d where d: "d \<in> set (rows s)" "note_id d = ?i" "note_state d = QUEUED" "note_attempt_count d < MAX_NOTIFICATION_ATTEMPTS"
    and upd: "notifications (odb ob) = update_where (\<lambda>r. note_id r = ?i)
      (\<lambda>r. r\<lparr>note_attempt_count := note_attempt_count d + 1, note_state := SENDING, note_last_attempt_at := Some now,
         note_updated_at := now, note_next_attempt_at := None\<rparr>) (rows s)"
    using cs(3) by blast
  let ?g = "\<lambda>r. if note_id r = ?i then r\<lparr>note_attempt_count := note_attempt_count d + 1, note_state := SENDING,
      note_last_attempt_at := Some now, note_updated_at := now, note_next_attempt_at := None\<rparr> else r"
  note idle = queued_idle [OF ok d(1,3)]
  have len: "length (answers ?i (smtp_log s)) \<le> note_attempt_count d"
    using mail_okD(1) [OF ok d(1)] idle d(2) by (simp add: delivery_ok_def)
  show ?thesis
  proof (rule mapped_ok [OF ok, where g = ?g])
    fix e assume e: "e \<in> set (rows s)"
    show "delivery_ok (?g e) (answers (note_id e) (smtp_log (s\<lparr>box := ob, workers := ks @ k\<lparr>wk_phase := PhSending\<rparr> # ks'\<rparr>)))
        (in_flight (note_id e) (workers (s\<lparr>box := ob, workers := ks @ k\<lparr>wk_phase := PhSending\<rparr> # ks'\<rparr>)))"
    proof (cases "note_id e = ?i")
      case True
      then show ?thesis using idle d(2,4) len w ph by (auto simp: delivery_ok_def)
    next
      case False
      then show ?thesis using mail_okD(1) [OF ok e] w ph by (auto split: if_splits)
    qed
  qed (use w upd cs(1) in \<open>auto simp: update_where_def\<close>)
qed

lemma attempt_ok:
  assumes ok: "mail_ok s" and w: "workers s = ks @ k # ks'" and ph: "wk_phase k = PhSending"
    and run: "attempt_delivery env now (wk_delivery k) (box s) (smtp_log s) = (a, log)"
  shows "mail_ok (s\<lparr>smtp_log := log, workers := ks @ k\<lparr>wk_phase := PhAnswered a\<rparr> # ks'\<rparr>)"
proof -
  have alone: "in_flight (wk_delivery k) ks = [] \<and> in_flight (wk_delivery k) ks' = []"
    if "e \<in> set (rows s)" "note_id e = wk_delivery k" for e
    using mail_okD(1) [OF ok that(1)] that(2) w ph
    by (cases "in_flight (wk_delivery k) ks"; cases "in_flight (wk_delivery k) ks'")
      (auto simp: delivery_ok_def split: list.splits worker_phase.splits)
  have row: "delivery_ok e (answers (note_id e) log) (in_flight (note_id e) (ks @ k\<lparr>wk_phase := PhAnswered a\<rparr> # ks'))"
    if e: "e \<in> set (rows s)" for e
  proof (cases "note_id e = wk_delivery k")
    case True
    then show ?thesis using mail_okD(1) [OF ok e] alone [OF e True] w ph run
      by (auto simp: delivery_ok_def answers_def intro: butlast_definite elim!: attempt_delivery_cases [of env now _ _ _ a log])
  next
    case False
    have "answers (note_id e) log = answers (note_id e) (smtp_log s)"
      using run False by (auto simp: answers_def elim!: attempt_delivery_cases)
    then show ?thesis using mail_okD(1) [OF ok e] w ph False by (auto split: if_splits)
  qed
  show ?thesis
    by (rule mapped_ok [OF ok, where g = id]) (use w row run in \<open>auto elim!: attempt_delivery_cases\<close>)
qed

lemma finish_ok:
  assumes ok: "mail_ok s" and w: "workers s = ks @ k # ks'" and ph: "wk_phase k = PhAnswered a"
  shows "mail_ok ((with_db (finish_delivery cfg now fenced_at (wk_delivery k) (wk_token k) a (odb (box s))) s)
    \<lparr>workers := ks @ k\<lparr>wk_phase := PhDone\<rparr> # ks'\<rparr>)"
proof -
  let ?i = "wk_delivery k" and ?m = "\<lambda>d. note_id d = wk_delivery k \<and> note_lease_token d = Some (wk_token k)"
  let ?u = "\<lambda>d. d\<lparr>note_lease_until := Some (fenced_at + seconds (NOTIFICATION_DELIVERY_LEASE_SECONDS cfg))\<rparr>"
  let ?g = "if row_count ?m (rows s) = 1
    then (\<lambda>d. (if note_id d = ?i then attempt_result now a else id) (if ?m d then ?u d else d)) else id"
  have rows': "notifications (finish_delivery cfg now fenced_at ?i (wk_token k) a (odb (box s))) = map ?g (rows s)"
    by (auto simp: finish_delivery_def fence_notification_lease_def Let_def set_notification_def update_where_def comp_def)
  have g: "note_id (?g d) = note_id d" "idempotency_key (?g d) = idempotency_key d"
    "note_attempt_count (?g d) = note_attempt_count d" "note_state (?g d) = QUEUED \<Longrightarrow> note_state d = QUEUED \<or>
      (note_id d = ?i \<and> may_retry a)" for d
    using attempt_result_effect [of now a] by (auto split: if_splits)
  show ?thesis
  proof (rule mapped_ok [OF ok, where g = ?g])
    fix e assume e: "e \<in> set (rows s)"
    have pre: "delivery_ok e (answers (note_id e) (smtp_log s)) (in_flight (note_id e) (ks @ k # ks'))"
      using mail_okD(1) [OF ok e] w by simp
    have drop: "delivery_ok e (answers (note_id e) (smtp_log s)) (in_flight (note_id e) (ks @ ks'))"
      by (rule flight_drop(1) [OF pre, of "k\<lparr>wk_phase := PhDone\<rparr>"]) simp
    have "delivery_ok (?g e) (answers (note_id e) (smtp_log s)) (in_flight (note_id e) (ks @ ks'))"
    proof (cases "note_state (?g e) = QUEUED \<and> note_state e \<noteq> QUEUED")
      case True
      then have m: "note_id e = ?i" "may_retry a" using g(4) by blast+
      then have "in_flight (note_id e) ks = [] \<and> in_flight (note_id e) ks' = [] \<and>
          list_all definite (answers (note_id e) (smtp_log s))"
        using pre ph by (cases "in_flight (note_id e) ks"; cases "in_flight (note_id e) ks'")
          (auto simp: delivery_ok_def split: list.splits worker_phase.splits)
      then show ?thesis using drop g(3) [of e] by (simp add: delivery_ok_def)
    next
      case False
      then have "tame e (?g e)" using g by (auto simp: tame_def)
      then show ?thesis by (rule tame_delivery) (rule drop)
    qed
    then show "delivery_ok (?g e) (answers (note_id e) (smtp_log ((with_db (finish_delivery cfg now fenced_at ?i (wk_token k) a
        (odb (box s))) s)\<lparr>workers := ks @ k\<lparr>wk_phase := PhDone\<rparr> # ks'\<rparr>)))
      (in_flight (note_id e) (workers ((with_db (finish_delivery cfg now fenced_at ?i (wk_token k) a
        (odb (box s))) s)\<lparr>workers := ks @ k\<lparr>wk_phase := PhDone\<rparr> # ks'\<rparr>)))" by simp
  qed (use w rows' g in \<open>auto simp: finish_delivery_def fence_notification_lease_def Let_def set_notification_def
      split: option.splits\<close>)
qed

lemma queue_cases:
  assumes "queue_notification seal now user category kind key sub pay ann at ov db = Inr db'"
  obtains "list_all2 tame (notifications db) (notifications db')" and "next_id db' = next_id db"
  | d where "notifications db' = notifications db @ [d]" and "note_id d = next_id db" and "next_id db' = next_id db + 1"
      and "note_state d = QUEUED" and "note_attempt_count d = 0" and "idempotency_key d = key"
      and "key \<notin> idempotency_key ` set (notifications db)"
proof (cases "List.find (\<lambda>n. idempotency_key n = key) (notifications db)")
  case None
  then have fresh: "key \<notin> idempotency_key ` set (notifications db)" by (auto simp: find_None_iff)
  have attempts: "note_attempt_count (store_resource_identity seal user s d) = note_attempt_count d" for s d
    by (simp add: store_resource_identity_def split: option.splits)
  show thesis
    using assms None fresh that(2) attempts
    by (auto simp: queue_notification_def Let_def new_delivery_def split: if_splits option.splits sum.splits)
next
  case (Some e)
  then have "list_all2 tame (notifications db) (notifications db') \<and> next_id db' = next_id db"
    using assms by (auto simp: queue_notification_def reuse_queued_delivery_def tame_def
        split: if_splits option.splits sum.splits intro!: set_notification_tame)
  then show thesis using that(1) by blast
qed

lemma queue_ok:
  assumes ok: "mail_ok s" and run: "queue_notification seal now user category kind key sub pay ann at ov (odb (box s)) = Inr db"
  shows "mail_ok (with_db db s)"
  using run
proof (cases rule: queue_cases)
  case 1
  then show ?thesis by (intro tame_ok [OF ok]) (use mail_okD [OF ok] in auto)
next
  case (2 d)
  have fresh: "note_id d \<notin> note_id ` set (rows s)" using ok 2(2) by (auto simp: mail_ok_def)
  have log: "answers (note_id d) (smtp_log s) = []"
  proof -
    have "call_delivery c \<noteq> note_id d" if ca: "(c, a) \<in> set (smtp_log s)" for c a
    proof -
      obtain e where "e \<in> set (rows s)" "note_id e = call_delivery c"
        using logged_rowD [of "rows s", OF _ ca] ok unfolding mail_ok_def by blast
      then show ?thesis using fresh by (metis image_eqI)
    qed
    then show ?thesis by (auto simp: answers_def filter_empty_conv)
  qed
  have flight: "in_flight (note_id d) (workers s) = []"
  proof -
    have "wk_delivery k \<noteq> note_id d" if "k \<in> set (workers s)" for k using mail_okD(2) [OF ok that] 2(2) by simp
    then show ?thesis by (auto simp: in_flight_def filter_empty_conv)
  qed
  have logged: "logged_rows (rows s @ [d]) (smtp_log s)"
    by (rule logged_rows_mono) (use ok in \<open>auto simp: mail_ok_def\<close>)
  have new: "delivery_ok d (answers (note_id d) (smtp_log s)) (in_flight (note_id d) (workers s))"
    by (simp add: delivery_ok_def log flight 2(5))
  have idx: "notification_indexes (rows s @ [d])"
    using ok 2(6,7) fresh by (simp add: mail_ok_def notification_indexes_def)
  show ?thesis
    using ok logged new idx 2(2,3) by (auto simp: mail_ok_def 2(1))
qed

lemma mail_step_ok:
  assumes "mail_step cfg env s s'" and ok: "mail_ok s" shows "mail_ok s'"
  using assms(1)
proof cases
  case (claim now token i db)
  have t: "list_all2 tame (rows s) (notifications db)" "next_id db = next_id (odb (box s))" "i \<in> note_id ` set (rows s)"
    using lease_tame [OF claim(2)] by blast+
  then have "i < next_id (odb (box s))" using ok by (auto simp: mail_ok_def)
  then show ?thesis unfolding claim(1) by (intro tame_ok [OF ok]) (use t mail_okD [OF ok] in auto)
next
  case (start ks k ks' now b ob)
  show ?thesis
  proof (cases "b = Proceed")
    case True
    then show ?thesis using start_ok [OF ok start(2,3)] start(1,4) by simp
  next
    case False
    note cs = begin_delivery_cases(1) [OF start(4) mail_okD(3) [OF ok]]
      begin_delivery_cases(2) [OF start(4) mail_okD(3) [OF ok] False]
    show ?thesis unfolding start(1)
      by (intro tame_ok [OF ok]) (use cs False start(2,3) mail_okD [OF ok] in auto)
  qed
next
  case (attempt ks k ks' now a log)
  then show ?thesis using attempt_ok [OF ok] by simp
next
  case (finish ks k ks' a now fenced_at)
  then show ?thesis using finish_ok [OF ok] by simp
next
  case (abort ks k ks')
  have "delivery_ok d (answers (note_id d) (smtp_log s)) (in_flight (note_id d) (ks @ k\<lparr>wk_phase := PhDone\<rparr> # ks'))"
    if "d \<in> set (rows s)" for d
    by (rule flight_drop(2)) (use mail_okD(1) [OF ok that] abort(2) in simp_all)
  then show ?thesis unfolding abort(1) by (intro tame_ok [OF ok]) (use abort(2) mail_okD(2) [OF ok] in auto)
next
  case (release ks k ks')
  have "in_flight i (ks @ ks') = in_flight i (workers s)" for i using release(2,3) by simp
  then show ?thesis
    unfolding release(1) by (intro tame_ok [OF ok]) (use release_tame release(2) mail_okD(1,2) [OF ok] in auto)
next
  case (crash ks k ks')
  have "delivery_ok d (answers (note_id d) (smtp_log s)) (in_flight (note_id d) (ks @ ks'))" if "d \<in> set (rows s)" for d
    by (rule flight_drop(1) [of _ _ _ _ k _ "k\<lparr>wk_phase := PhDone\<rparr>"]) (use mail_okD(1) [OF ok that] crash(2) in simp_all)
  then show ?thesis unfolding crash(1) by (intro tame_ok [OF ok]) (use crash(2) mail_okD(2) [OF ok] in auto)
next
  case (queue seal now user category kind key sub pay ann at ov db)
  then show ?thesis using queue_ok [OF ok] by blast
next
  case (cancel selected code now)
  show ?thesis unfolding cancel by (intro tame_ok [OF ok]) (use cancel_tame mail_okD [OF ok] in auto)
next
  case (cancel_read loaded now)
  show ?thesis unfolding cancel_read
    by (intro tame_ok [OF ok]) (use mail_okD [OF ok] in \<open>auto intro!: set_notification_tame\<close>)
next
  case (other ob)
  show ?thesis unfolding other(1) by (intro tame_ok [OF ok]) (use other(2,3) mail_okD [OF ok] in \<open>auto intro: less_le_trans\<close>)
qed

interpretation mail_run: transition_system "mail_step cfg env" mail_ok for cfg env
  by unfold_locales (rule mail_step_ok)

lemma length_filter_mono: "(\<And>x. x \<in> set xs \<Longrightarrow> P x \<Longrightarrow> Q x) \<Longrightarrow> length (filter P xs) \<le> length (filter Q xs)"
  by (induction xs) (auto intro: le_SucI)

lemma unsettled_last: "list_all definite (butlast es) \<Longrightarrow> length (filter (\<lambda>a. \<not> definite a) es) \<le> 1"
  by (induction es rule: rev_induct) (auto simp: list_all_iff filter_empty_conv)

section \<open>Properties\<close>

text \<open>
  C11: an event is mailed at most once. Start with an empty queue and let any number of workers claim,
  send, finish, stop or lose their leases in any order, while deliveries are queued and cancelled and all
  other tables change. Then the mail server is contacted at most twenty times for one delivery, every
  contact but the last ended in a definite refusal, and for one idempotency key at most one contact can
  have delivered the message (was accepted, was ambiguous or ended unknown).
\<close>

theorem mailed_at_most_once:
  assumes start: "rows s = []" "workers s = []" "smtp_log s = []" and run: "(mail_step cfg env)\<^sup>*\<^sup>* s s'"
  shows "length (answers i (smtp_log s')) \<le> 20 \<and> list_all definite (butlast (answers i (smtp_log s'))) \<and>
    length (filter (\<lambda>(c, a). fst (call_message_id c) = key \<and> \<not> definite a) (smtp_log s')) \<le> 1"
proof -
  have "mail_ok s" using start by (simp add: mail_ok_def notification_indexes_def logged_rows_def)
  then have ok: "mail_ok s'" by (rule mail_run.run_inv [OF run])
  have log: "logged_rows (rows s') (smtp_log s')" using ok by (simp add: mail_ok_def)
  have one: "length (answers j (smtp_log s')) \<le> 20 \<and> list_all definite (butlast (answers j (smtp_log s')))" for j
  proof (cases "answers j (smtp_log s') = []")
    case False
    then obtain c a where "(c, a) \<in> set (smtp_log s')" "call_delivery c = j"
      by (auto simp: answers_def filter_empty_conv)
    then obtain d where d: "d \<in> set (rows s')" "note_id d = j" using logged_rowD [OF log] by blast
    show ?thesis using mail_okD(1) [OF ok d(1)] d(2)
      by (auto simp: delivery_ok_def MAX_NOTIFICATION_ATTEMPTS_def intro: butlast_definite
          split: list.splits worker_phase.splits)
  qed simp
  have "length (filter (\<lambda>(c, a). fst (call_message_id c) = key \<and> \<not> definite a) (smtp_log s')) \<le> 1"
  proof (cases "\<exists>d \<in> set (rows s'). idempotency_key d = key")
    case False
    then have "filter (\<lambda>(c, a). fst (call_message_id c) = key \<and> \<not> definite a) (smtp_log s') = []"
      using logged_rowD [OF log] by (fastforce simp: filter_empty_conv)
    then show ?thesis by simp
  next
    case True
    then obtain d where d: "d \<in> set (rows s')" "idempotency_key d = key" by blast
    have only: "call_delivery c = note_id d" if "(c, a) \<in> set (smtp_log s')" "fst (call_message_id c) = key" for c a
    proof -
      from logged_rowD [OF log that(1)] that(2) obtain e
        where e: "e \<in> set (rows s')" "note_id e = call_delivery c" "idempotency_key e = key" by auto
      have "distinct (map idempotency_key (rows s'))" using ok by (simp add: mail_ok_def notification_indexes_def)
      then have "e = d" using e(1,3) d by (auto simp: distinct_map dest: inj_onD)
      then show ?thesis using e(2) by simp
    qed
    have "length (filter (\<lambda>(c, a). fst (call_message_id c) = key \<and> \<not> definite a) (smtp_log s')) \<le>
        length (filter (\<lambda>(c, a). call_delivery c = note_id d \<and> \<not> definite a) (smtp_log s'))"
      by (rule length_filter_mono) (use only in auto)
    also have "\<dots> = length (filter (\<lambda>a. \<not> definite a) (answers (note_id d) (smtp_log s')))"
      by (simp add: answers_def filter_map comp_def case_prod_unfold conj_commute)
    also have "\<dots> \<le> 1" using one [of "note_id d"] unsettled_last by blast
    finally show ?thesis .
  qed
  then show ?thesis using one [of i] by blast
qed

text \<open>A worked delivery: an expiration notice is queued, claimed, sent and recorded.\<close>

definition mail_settings :: settings where
  "mail_settings = example_settings\<lparr>REMINDER_EMAIL_ENABLED := True\<rparr>"

definition accepting_env :: mail_env where
  "accepting_env = \<lparr> addr_parses = (\<lambda>_. True), mail_cipher = plain_cipher, adapter = (\<lambda>_ _. SmtpAccepted) \<rparr>"

definition mail_user :: user where
  "mail_user = sample_user\<lparr>has_notification_email := True, notification_email := Some (''ka@b.example'', ''v1''),
     notification_email_generation := 1\<rparr>"

definition mail_subscription :: subscription where
  "mail_subscription = sample_subscription\<lparr>sub_status := SubACTIVE, current_period_end := Some (days 5)\<rparr>"

definition idle_system :: mail_system where
  "idle_system = \<lparr> box = \<lparr> odb = empty_database\<lparr>users := [mail_user], subscriptions := [mail_subscription], next_id := 10\<rparr>,
     announcements = [], recipient_snapshots = [] \<rparr>, smtp_log = [], workers = [] \<rparr>"

definition queued_db :: database where
  "queued_db = projr (queue_notification (\<lambda>_ _. None) 0 mail_user ACCOUNT EXPIRATION_7_DAY
     (ExpirationEvent 1 (days 5) EXPIRATION_7_DAY) (Some mail_subscription) None None (Some (days 5)) None
     (odb (box idle_system)))"

definition leased_db :: database where
  "leased_db = the (lease_delivery mail_settings 0 ''t'' 10 queued_db)"

definition sending_box :: outbox where
  "sending_box = snd (begin_delivery mail_settings 0 10 ''t'' ((box idle_system)\<lparr>odb := leased_db\<rparr>))"

definition sent_log :: "(smtp_call \<times> smtp_answer) list" where
  "sent_log = snd (attempt_delivery accepting_env 0 10 sending_box [])"

lemma worked_delivery:
  "queue_notification (\<lambda>_ _. None) 0 mail_user ACCOUNT EXPIRATION_7_DAY (ExpirationEvent 1 (days 5) EXPIRATION_7_DAY)
     (Some mail_subscription) None None (Some (days 5)) None (odb (box idle_system)) = Inr queued_db"
  "lease_delivery mail_settings 0 ''t'' 10 queued_db = Some leased_db"
  "begin_delivery mail_settings 0 10 ''t'' ((box idle_system)\<lparr>odb := leased_db\<rparr>) = (Proceed, sending_box)"
  "attempt_delivery accepting_env 0 10 sending_box [] = (Answer SmtpAccepted, sent_log)"
  "answers 10 sent_log = [SmtpAccepted]"
  by code_simp+

theorem mailed_at_most_once_witness:
  "\<exists>s'. (mail_step mail_settings accepting_env)\<^sup>*\<^sup>* idle_system s' \<and> answers 10 (smtp_log s') = [SmtpAccepted] \<and>
    length (filter (\<lambda>(c, a). fst (call_message_id c) = ExpirationEvent 1 (days 5) EXPIRATION_7_DAY \<and> \<not> definite a)
      (smtp_log s')) \<le> 1"
proof -
  let ?k = "\<lambda>ph. \<lparr>wk_delivery = 10, wk_token = ''t'', wk_phase = ph\<rparr>"
  let ?s1 = "with_db queued_db idle_system"
  let ?s2 = "(with_db leased_db ?s1)\<lparr>workers := [?k PhClaimed]\<rparr>"
  let ?s3 = "?s2\<lparr>box := sending_box, workers := [?k PhSending]\<rparr>"
  let ?s4 = "?s3\<lparr>smtp_log := sent_log, workers := [?k (PhAnswered (Answer SmtpAccepted))]\<rparr>"
  let ?step = "mail_step mail_settings accepting_env"
  have e: "rows idle_system = []" "workers idle_system = []" "smtp_log idle_system = []"
    by (simp_all add: idle_system_def empty_database_def)
  have s1: "?step idle_system ?s1" by (rule mail_step.queue) (rule worked_delivery(1))
  have s2: "?step ?s1 ?s2"
    using mail_step.claim [of mail_settings 0 "''t''" 10 ?s1 leased_db accepting_env] worked_delivery(2) e by simp
  have s3: "?step ?s2 ?s3"
    using mail_step.start [of ?s2 "[]" "?k PhClaimed" "[]" mail_settings 0 Proceed sending_box accepting_env] worked_delivery(3)
    by simp
  have s4: "?step ?s3 ?s4"
    using mail_step.attempt [of ?s3 "[]" "?k PhSending" "[]" accepting_env 0 "Answer SmtpAccepted" sent_log mail_settings]
      worked_delivery(4) e by simp
  have run: "?step\<^sup>*\<^sup>* idle_system ?s4" using s1 s2 s3 s4 by (meson converse_rtranclp_into_rtranclp r_into_rtranclp)
  show ?thesis using mailed_at_most_once [OF e run] run worked_delivery(5) by auto
qed

end
