(* ===== verification/Refinement.thy ===== *)
theory Refinement
  imports Main
begin

text \<open>
  Functional refinement: a machine whose steps answer an event with an output, and an abstract machine
  that gives the same outputs through an abstraction function. The relation of one step carries over to
  every history.
\<close>

fun outputs :: "('e \<Rightarrow> 's \<Rightarrow> 'o \<times> 's) \<Rightarrow> 'e list \<Rightarrow> 's \<Rightarrow> 'o list \<times> 's" where
  "outputs step [] s = ([], s)"
| "outputs step (e # es) s =
     (case step e s of (x, t) \<Rightarrow> case outputs step es t of (xs, u) \<Rightarrow> (x # xs, u))"

lemma outputs_append:
  "outputs step (es @ fs) s =
     (case outputs step es s of (xs, t) \<Rightarrow> case outputs step fs t of (ys, u) \<Rightarrow> (xs @ ys, u))"
  by (induction es arbitrary: s) (auto split: prod.splits)

lemma outputs_snoc:
  "snd (outputs step (es @ [e]) s) = snd (step e (snd (outputs step es s)))"
  by (simp add: outputs_append split: prod.splits)

locale functional_refinement =
  fixes cstep :: "'e \<Rightarrow> 's \<Rightarrow> 'o \<times> 's"
    and astep :: "'e \<Rightarrow> 'a \<Rightarrow> 'o \<times> 'a"
    and inv :: "'s \<Rightarrow> bool"
    and abs :: "'s \<Rightarrow> 'a"
  assumes step_inv: "inv s \<Longrightarrow> inv (snd (cstep e s))"
    and step_refines: "inv s \<Longrightarrow> astep e (abs s) = (fst (cstep e s), abs (snd (cstep e s)))"
begin

lemma history_inv: "inv s \<Longrightarrow> inv (snd (outputs cstep es s))"
proof (induction es rule: rev_induct)
  case (snoc e es)
  then show ?case using step_inv by (simp add: outputs_snoc)
qed simp

lemma history_refines:
  "inv s \<Longrightarrow> outputs astep es (abs s) = (fst (outputs cstep es s), abs (snd (outputs cstep es s)))"
proof (induction es arbitrary: s)
  case (Cons e es)
  then show ?case using step_inv [of s e] by (simp add: step_refines split: prod.splits)
qed simp

end

end
