(* ===== verification/Browser_Sessions.thy ===== *)
theory Browser_Sessions
  imports Refinement Hostnames Models
begin

text \<open>
  Browser sessions (\<^verbatim>\<open>services/browser_sessions.py\<close>): opaque tokens stored by keyed hash, bounded per
  account, evicted oldest first. HMAC-SHA256 is the parameter \<open>hmac\<close> of key and message, the drawn tokens
  are arguments. The store is compared with an abstract one: a map from hashes to grants and a queue of
  hashes per account.
\<close>

section \<open>Operations\<close>

record auth_settings =
  SECRET_KEY :: string
  token_hash_key :: string
  ADMIN_TOKEN :: string
  BROWSER_SESSION_MAX_AGE_SECONDS :: int
  BROWSER_SESSION_MAX_PER_USER :: int

record browser_session =
  bs_id :: int
  bs_user_id :: int
  token_hash :: string
  csrf_token_hash :: string
  auth_method :: string
  bs_created_at :: time
  bs_expires_at :: time
  bs_last_seen_at :: time

record account = user +
  hashed_token :: string

record auth_db =
  accounts :: "account list"
  browser_sessions :: "browser_session list"
  next_session_id :: int

definition get_account :: "auth_db \<Rightarrow> int \<Rightarrow> account option" where
  "get_account db i = get_row user_id i (accounts db)"

definition SESSION_HASH_DOMAIN :: string where
  "SESSION_HASH_DOMAIN = ''blindport-browser-session-v1'' @ [CHR 0x00]"

definition CSRF_HASH_DOMAIN :: string where
  "CSRF_HASH_DOMAIN = ''blindport-browser-csrf-v1'' @ [CHR 0x00]"

definition LAST_SEEN_WRITE_INTERVAL :: time where
  "LAST_SEEN_WRITE_INTERVAL = seconds 300"

text \<open>\<^verbatim>\<open>hexdigest\<close> of the bytes \<open>hmac\<close> returns.\<close>

definition hex_digit :: "nat \<Rightarrow> char" where
  "hex_digit n = ''0123456789abcdef'' ! (n mod 16)"

definition hexdigest :: "string \<Rightarrow> string" where
  "hexdigest bs = concat (map (\<lambda>b. let n = of_char b in [hex_digit (n div 16), hex_digit n]) bs)"

definition hash_value :: "(string \<Rightarrow> string \<Rightarrow> string) \<Rightarrow> auth_settings \<Rightarrow> string \<Rightarrow> string \<Rightarrow> error + string" where
  "hash_value hmac cfg value purpose =
     (if is_ascii value then Inr (hexdigest (hmac (SECRET_KEY cfg) (purpose @ value)))
      else Inl (ValueError ''browser session values must be ASCII''))"

definition hash_browser_session_token ::
  "(string \<Rightarrow> string \<Rightarrow> string) \<Rightarrow> auth_settings \<Rightarrow> string \<Rightarrow> error + string" where
  "hash_browser_session_token hmac cfg value = hash_value hmac cfg value SESSION_HASH_DOMAIN"

definition hash_csrf_token :: "(string \<Rightarrow> string \<Rightarrow> string) \<Rightarrow> auth_settings \<Rightarrow> string \<Rightarrow> error + string" where
  "hash_csrf_token hmac cfg value = hash_value hmac cfg value CSRF_HASH_DOMAIN"

definition constant_time_equal :: "string \<Rightarrow> string \<Rightarrow> bool" where
  "constant_time_equal left right = (is_ascii left \<and> is_ascii right \<and> left = right)"

definition is_stale :: "time option \<Rightarrow> time \<Rightarrow> bool" where
  "is_stale value now = (case value of None \<Rightarrow> True | Some t \<Rightarrow> t \<le> now - LAST_SEEN_WRITE_INTERVAL)"

text \<open>The order of eviction: by creation, then by identifier.\<close>

definition by_creation :: "browser_session list \<Rightarrow> browser_session list" where
  "by_creation ss = sort_key bs_created_at (sort_key bs_id ss)"

definition new_browser_session :: "auth_settings \<Rightarrow> time \<Rightarrow> int \<Rightarrow> int \<Rightarrow> string \<Rightarrow> string \<Rightarrow> string \<Rightarrow> browser_session" where
  "new_browser_session cfg now i uid th ch via =
     \<lparr> bs_id = i, bs_user_id = uid, token_hash = th, csrf_token_hash = ch, auth_method = via,
       bs_created_at = now, bs_expires_at = now + seconds (BROWSER_SESSION_MAX_AGE_SECONDS cfg), bs_last_seen_at = now \<rparr>"

text \<open>
  The insert precedes the deletions of evicted rows in the flush, so the unique index on token hashes is
  checked against them too.
\<close>

definition issue_browser_session ::
  "(string \<Rightarrow> string \<Rightarrow> string) \<Rightarrow> auth_settings \<Rightarrow> time \<Rightarrow> int \<Rightarrow> string \<Rightarrow> string \<Rightarrow> string \<Rightarrow> auth_db \<Rightarrow>
    error + browser_session \<times> auth_db" where
  "issue_browser_session hmac cfg now uid via raw_session_token raw_csrf_token db =
     (if via \<noteq> ''token'' \<and> via \<noteq> ''passkey'' then Inl (ValueError ''auth_method must be token or passkey'')
      else case get_account db uid of
        None \<Rightarrow> Inl (ValueError ''user must be an active customer account'')
      | Some user \<Rightarrow>
          if is_admin user \<or> is_suspended user then Inl (ValueError ''user must be an active customer account'')
          else
            let kept = filter (\<lambda>s. \<not> (bs_user_id s = uid \<and> bs_expires_at s \<le> now)) (browser_sessions db);
                existing = by_creation (filter (\<lambda>s. bs_user_id s = uid) kept);
                overflow = int (length existing) - BROWSER_SESSION_MAX_PER_USER cfg + 1;
                evicted = map bs_id (take (nat (max 0 overflow)) existing)
            in case (hash_browser_session_token hmac cfg raw_session_token, hash_csrf_token hmac cfg raw_csrf_token) of
                 (Inr th, Inr ch) \<Rightarrow>
                   if th \<in> set (map token_hash kept) then Inl IntegrityError
                   else let r = new_browser_session cfg now (next_session_id db) uid th ch via
                        in Inr (r, db\<lparr>browser_sessions := filter (\<lambda>s. bs_id s \<notin> set evicted) kept @ [r],
                                      next_session_id := next_session_id db + 1\<rparr>)
               | (Inl e, _) \<Rightarrow> Inl e
               | (_, Inl e) \<Rightarrow> Inl e)"

definition touch_session :: "time \<Rightarrow> browser_session \<Rightarrow> browser_session" where
  "touch_session now r = (if is_stale (Some (bs_last_seen_at r)) now then r\<lparr>bs_last_seen_at := now\<rparr> else r)"

definition touch_account :: "time \<Rightarrow> account \<Rightarrow> account" where
  "touch_account now u = (if is_stale (user_last_seen_at u) now then u\<lparr>user_last_seen_at := Some now\<rparr> else u)"

definition resolve_browser_session ::
  "(string \<Rightarrow> string \<Rightarrow> string) \<Rightarrow> auth_settings \<Rightarrow> time \<Rightarrow> string \<Rightarrow> auth_db \<Rightarrow>
    (browser_session \<times> account) option \<times> auth_db" where
  "resolve_browser_session hmac cfg now raw_token db =
     (if raw_token = [] then (None, db)
      else case hash_browser_session_token hmac cfg raw_token of
        Inl _ \<Rightarrow> (None, db)
      | Inr th \<Rightarrow>
          (case get_row token_hash th (browser_sessions db) of
             None \<Rightarrow> (None, db)
           | Some r \<Rightarrow>
               if \<not> constant_time_equal (token_hash r) th then (None, db)
               else if bs_expires_at r \<le> now
               then (None, db\<lparr>browser_sessions := filter (\<lambda>s. bs_id s \<noteq> bs_id r) (browser_sessions db)\<rparr>)
               else case get_account db (bs_user_id r) of
                 None \<Rightarrow> (None, db)
               | Some user \<Rightarrow>
                   if is_admin user \<or> is_suspended user then (None, db)
                   else (Some (touch_session now r, touch_account now user),
                         db\<lparr>browser_sessions := update_where (\<lambda>s. bs_id s = bs_id r) (touch_session now) (browser_sessions db),
                            accounts := update_where (\<lambda>u. user_id u = user_id user) (touch_account now) (accounts db)\<rparr>)))"

definition revoke_browser_session :: "(string \<Rightarrow> string \<Rightarrow> string) \<Rightarrow> auth_settings \<Rightarrow> string \<Rightarrow> auth_db \<Rightarrow> auth_db" where
  "revoke_browser_session hmac cfg raw_token db =
     (if raw_token = [] then db
      else case hash_browser_session_token hmac cfg raw_token of
        Inl _ \<Rightarrow> db
      | Inr th \<Rightarrow> db\<lparr>browser_sessions := filter (\<lambda>s. token_hash s \<noteq> th) (browser_sessions db)\<rparr>)"

definition valid_login_csrf :: "string option \<Rightarrow> string option \<Rightarrow> bool" where
  "valid_login_csrf cookie form =
     (case (cookie, form) of
        (Some c, Some f) \<Rightarrow> c \<noteq> [] \<and> f \<noteq> [] \<and> length c \<le> 128 \<and> length f \<le> 128 \<and> constant_time_equal c f
      | _ \<Rightarrow> False)"

definition valid_csrf ::
  "(string \<Rightarrow> string \<Rightarrow> string) \<Rightarrow> auth_settings \<Rightarrow> browser_session \<Rightarrow> string option \<Rightarrow> string option \<Rightarrow> bool" where
  "valid_csrf hmac cfg r cookie header =
     (case (cookie, header) of
        (Some c, Some h) \<Rightarrow>
          c \<noteq> [] \<and> h \<noteq> [] \<and> constant_time_equal c h \<and>
          (case hash_csrf_token hmac cfg c of
             Inl _ \<Rightarrow> False | Inr expected \<Rightarrow> constant_time_equal (csrf_token_hash r) expected)
      | _ \<Rightarrow> False)"

section \<open>The abstract store\<close>

record grant =
  grant_user :: int
  grant_csrf :: string
  grant_expires :: time

record session_store =
  eligible :: "int \<Rightarrow> bool"
  grants :: "string \<Rightarrow> grant option"
  queue :: "int \<Rightarrow> string list"

datatype session_event =
    Issue int string string string
  | Resolve string
  | Revoke string
  | SetAccounts "account list"

datatype session_answer =
    Issued
  | Refused error
  | Resolved "(int \<times> string) option"
  | Done

definition eligible_account :: "account list \<Rightarrow> int \<Rightarrow> bool" where
  "eligible_account us i = (case get_row user_id i us of None \<Rightarrow> False | Some u \<Rightarrow> \<not> is_admin u \<and> \<not> is_suspended u)"

definition forget :: "string \<Rightarrow> session_store \<Rightarrow> session_store" where
  "forget h st = st\<lparr>grants := (grants st)(h := None), queue := (\<lambda>u. filter (\<lambda>k. k \<noteq> h) (queue st u))\<rparr>"

text \<open>
  Issuing drops the expired grants of the account and then the oldest ones until the new one fits.
\<close>

definition admit :: "auth_settings \<Rightarrow> time \<Rightarrow> int \<Rightarrow> string \<Rightarrow> string \<Rightarrow> session_store \<Rightarrow> session_answer \<times> session_store" where
  "admit cfg now uid th ch st =
     (let live = (\<lambda>k. case grants st k of None \<Rightarrow> False | Some g \<Rightarrow> \<not> (grant_user g = uid \<and> grant_expires g \<le> now));
          q = filter live (queue st uid);
          n = nat (max 0 (int (length q) - BROWSER_SESSION_MAX_PER_USER cfg + 1))
      in if live th then (Refused IntegrityError, st)
         else (Issued, st\<lparr>
           grants := (\<lambda>k. if live k \<and> k \<notin> set (take n q) then grants st k else None)
             (th \<mapsto> \<lparr> grant_user = uid, grant_csrf = ch, grant_expires = now + seconds (BROWSER_SESSION_MAX_AGE_SECONDS cfg) \<rparr>),
           queue := (queue st)(uid := drop n q @ [th])\<rparr>))"

definition store_step ::
  "(string \<Rightarrow> string \<Rightarrow> string) \<Rightarrow> auth_settings \<Rightarrow> nat \<times> session_event \<Rightarrow> time \<times> session_store \<Rightarrow>
    session_answer \<times> (time \<times> session_store)" where
  "store_step hmac cfg e s =
     (let now = fst s + int (fst e); st = snd s; at = (\<lambda>(x, st'). (x, (now, st'))) in
      case snd e of
        Issue uid via t c \<Rightarrow>
          if via \<noteq> ''token'' \<and> via \<noteq> ''passkey'' then at (Refused (ValueError ''auth_method must be token or passkey''), st)
          else if \<not> eligible st uid then at (Refused (ValueError ''user must be an active customer account''), st)
          else (case (hash_browser_session_token hmac cfg t, hash_csrf_token hmac cfg c) of
                  (Inr th, Inr ch) \<Rightarrow> at (admit cfg now uid th ch st)
                | (Inl e, _) \<Rightarrow> at (Refused e, st)
                | (_, Inl e) \<Rightarrow> at (Refused e, st))
      | Resolve t \<Rightarrow>
          (case if t = [] then None else Option.bind (case_sum Map.empty Some (hash_browser_session_token hmac cfg t))
                  (\<lambda>th. map_option (Pair th) (grants st th)) of
             None \<Rightarrow> at (Resolved None, st)
           | Some (th, g) \<Rightarrow>
               if grant_expires g \<le> now then at (Resolved None, forget th st)
               else if eligible st (grant_user g) then at (Resolved (Some (grant_user g, grant_csrf g)), st)
               else at (Resolved None, st))
      | Revoke t \<Rightarrow>
          at (Done, if t = [] then st
                    else case hash_browser_session_token hmac cfg t of Inl _ \<Rightarrow> st | Inr th \<Rightarrow> forget th st)
      | SetAccounts us \<Rightarrow> at (Done, st\<lparr>eligible := eligible_account us\<rparr>))"

text \<open>The store of the code under the same events; the clock advances by the given delay.\<close>

definition session_step ::
  "(string \<Rightarrow> string \<Rightarrow> string) \<Rightarrow> auth_settings \<Rightarrow> nat \<times> session_event \<Rightarrow> time \<times> auth_db \<Rightarrow> session_answer \<times> (time \<times> auth_db)" where
  "session_step hmac cfg e s =
     (let now = fst s + int (fst e); db = snd s in
      case snd e of
        Issue uid via t c \<Rightarrow>
          (case issue_browser_session hmac cfg now uid via t c db of
             Inl x \<Rightarrow> (Refused x, (now, db)) | Inr (r, db') \<Rightarrow> (Issued, (now, db')))
      | Resolve t \<Rightarrow>
          (case resolve_browser_session hmac cfg now t db of
             (x, db') \<Rightarrow> (Resolved (map_option (\<lambda>(r, u). (user_id u, csrf_token_hash r)) x), (now, db')))
      | Revoke t \<Rightarrow> (Done, (now, revoke_browser_session hmac cfg t db))
      | SetAccounts us \<Rightarrow> (Done, (now, db\<lparr>accounts := us\<rparr>)))"

definition grant_of :: "browser_session \<Rightarrow> grant" where
  "grant_of r = \<lparr> grant_user = bs_user_id r, grant_csrf = csrf_token_hash r, grant_expires = bs_expires_at r \<rparr>"

definition sessions_of :: "int \<Rightarrow> browser_session list \<Rightarrow> browser_session list" where
  "sessions_of u ss = by_creation (filter (\<lambda>s. bs_user_id s = u) ss)"

definition store_of :: "time \<times> auth_db \<Rightarrow> time \<times> session_store" where
  "store_of s = (fst s,
     \<lparr> eligible = eligible_account (accounts (snd s)),
       grants = (\<lambda>h. map_option grant_of (get_row token_hash h (browser_sessions (snd s)))),
       queue = (\<lambda>u. map token_hash (sessions_of u (browser_sessions (snd s)))) \<rparr>)"

definition sessions_ok :: "time \<times> auth_db \<Rightarrow> bool" where
  "sessions_ok s =
     (distinct (map bs_id (browser_sessions (snd s))) \<and> distinct (map token_hash (browser_sessions (snd s))) \<and>
      list_all (\<lambda>r. bs_id r < next_session_id (snd s) \<and> bs_created_at r \<le> fst s) (browser_sessions (snd s)))"

section \<open>Lemmas on the order of eviction\<close>

lemma insort_key_last: "f x \<le> f z \<Longrightarrow> insort_key f x (ys @ [z]) = insort_key f x ys @ [z]"
  by (induction ys) auto

lemma sort_key_last: "\<forall>x \<in> set xs. f x \<le> f z \<Longrightarrow> sort_key f (xs @ [z]) = sort_key f xs @ [z]"
  by (induction xs) (simp_all add: insort_key_last)

lemma by_creation_last:
  "\<forall>s \<in> set ss. bs_id s \<le> bs_id r \<and> bs_created_at s \<le> bs_created_at r \<Longrightarrow> by_creation (ss @ [r]) = by_creation ss @ [r]"
  by (simp add: by_creation_def sort_key_last)

lemma filter_by_creation: "filter P (by_creation ss) = by_creation (filter P ss)"
  by (simp add: by_creation_def filter_sort)

lemma set_by_creation [simp]: "set (by_creation ss) = set ss"
  by (simp add: by_creation_def)

lemma distinct_by_creation [simp]: "distinct (map f (by_creation ss)) = distinct (map f ss)"
  by (simp add: by_creation_def)

lemma filter_sessions_of: "sessions_of u (filter P ss) = filter P (sessions_of u ss)"
  by (simp add: sessions_of_def filter_by_creation conj_commute)

lemma set_sessions_of: "set (sessions_of u ss) = {s \<in> set ss. bs_user_id s = u}"
  by (auto simp: sessions_of_def)

lemma distinct_sessions_of: "distinct (map f ss) \<Longrightarrow> distinct (map f (sessions_of u ss))"
  by (simp add: sessions_of_def distinct_map_filter)

lemma drop_as_filter:
  "distinct (map f ys) \<Longrightarrow> filter (\<lambda>y. f y \<notin> set (map f (take n ys))) ys = drop n ys"
proof (induction ys arbitrary: n)
  case (Cons y ys)
  show ?case
  proof (cases n)
    case 0
    then show ?thesis by simp
  next
    case (Suc m)
    have "filter (\<lambda>z. f z \<notin> set (map f (take n (y # ys)))) (y # ys) = filter (\<lambda>z. f z \<notin> set (map f (take m ys))) ys"
      using Cons.prems Suc by (auto intro!: filter_cong) (metis imageI)
    then show ?thesis using Cons Suc by simp
  qed
qed simp

lemma get_row_snoc:
  "get_row key k (rs @ [r]) = (case get_row key k rs of Some x \<Rightarrow> Some x | None \<Rightarrow> if key r = k then Some r else None)"
  by (induction rs) (auto simp: get_row_def)

section \<open>Each operation refines the abstract one\<close>

lemma hex_digit_ascii: "(of_char (hex_digit n) :: nat) < 128"
proof -
  have "\<forall>c \<in> set ''0123456789abcdef''. (of_char c :: nat) < 128" by code_simp
  moreover have "hex_digit n \<in> set ''0123456789abcdef''" unfolding hex_digit_def by (rule nth_mem) simp
  ultimately show ?thesis by blast
qed

lemma hash_value_ascii: "hash_value hmac cfg t purpose = Inr h \<Longrightarrow> is_ascii h"
  by (auto simp: hash_value_def hexdigest_def is_ascii_def list_all_iff Let_def hex_digit_ascii split: if_splits)

lemma forget_refines:
  assumes ok: "sessions_ok (c, db)"
  shows "store_of (now, db\<lparr>browser_sessions := filter (\<lambda>s. token_hash s \<noteq> h) (browser_sessions db)\<rparr>) =
    (now, forget h (snd (store_of (c, db))))"
proof -
  have d: "distinct (map token_hash (browser_sessions db))" using ok by (simp add: sessions_ok_def)
  have "map_option grant_of (get_row token_hash k (filter (\<lambda>s. token_hash s \<noteq> h) (browser_sessions db))) =
      ((\<lambda>h. map_option grant_of (get_row token_hash h (browser_sessions db)))(h := None)) k" for k
    using d by (auto simp: get_row_filter split: option.splits dest: get_row_Some)
  then show ?thesis
    by (auto simp: store_of_def forget_def filter_sessions_of filter_map comp_def)
qed

lemma sessions_ok_filter:
  "sessions_ok (c, db) \<Longrightarrow> c \<le> now \<Longrightarrow> sessions_ok (now, db\<lparr>browser_sessions := filter P (browser_sessions db)\<rparr>)"
  by (auto simp: sessions_ok_def distinct_map_filter list_all_iff)

lemma expired_row_filter:
  assumes ok: "sessions_ok (c, db)" and r: "get_row token_hash h (browser_sessions db) = Some r"
  shows "filter (\<lambda>s. bs_id s \<noteq> bs_id r) (browser_sessions db) = filter (\<lambda>s. token_hash s \<noteq> h) (browser_sessions db)"
proof (rule filter_cong [OF refl])
  fix s assume s: "s \<in> set (browser_sessions db)"
  have r': "r \<in> set (browser_sessions db)" "token_hash r = h" using get_row_Some [OF r] by auto
  show "(bs_id s \<noteq> bs_id r) = (token_hash s \<noteq> h)"
    using ok s r' by (auto simp: sessions_ok_def distinct_map dest: inj_onD)
qed

text \<open>A session and an account are the same grant and the same eligibility after their activity is recorded.\<close>

lemma touch_session_simps [simp]:
  "bs_id (touch_session now r) = bs_id r" "bs_user_id (touch_session now r) = bs_user_id r"
  "token_hash (touch_session now r) = token_hash r" "csrf_token_hash (touch_session now r) = csrf_token_hash r"
  "bs_created_at (touch_session now r) = bs_created_at r" "bs_expires_at (touch_session now r) = bs_expires_at r"
  by (simp_all add: touch_session_def)

lemma touch_account_simps [simp]:
  "user_id (touch_account now u) = user_id u" "is_admin (touch_account now u) = is_admin u"
  "is_suspended (touch_account now u) = is_suspended u" "hashed_token (touch_account now u) = hashed_token u"
  by (simp_all add: touch_account_def)

lemma insort_key_map: "(\<And>x. f (g x) = f x) \<Longrightarrow> insort_key f (g x) (map g xs) = map g (insort_key f x xs)"
  by (induction xs) auto

lemma sort_key_map: "(\<And>x. f (g x) = f x) \<Longrightarrow> sort_key f (map g xs) = map g (sort_key f xs)"
  by (induction xs) (simp_all add: insort_key_map)

lemma sessions_of_touched:
  "map token_hash (sessions_of u (update_where p (touch_session now) ss)) = map token_hash (sessions_of u ss)"
proof -
  let ?g = "\<lambda>r. if p r then touch_session now r else r"
  have "sessions_of u (map ?g ss) = map ?g (sessions_of u ss)"
    by (simp add: sessions_of_def by_creation_def filter_map comp_def sort_key_map cong: if_cong)
  then show ?thesis by (simp add: update_where_def)
qed

lemma eligible_touched [simp]:
  "eligible_account (update_where p (touch_account now) us) = eligible_account us"
  by (rule ext) (auto simp: eligible_account_def get_row_update_where split: option.splits)

lemma touch_refines:
  "store_of (now, db\<lparr>browser_sessions := update_where p (touch_session now) (browser_sessions db),
      accounts := update_where q (touch_account now) (accounts db)\<rparr>) = (now, snd (store_of (c, db)))"
  by (auto simp: store_of_def sessions_of_touched get_row_update_where grant_of_def option.map_comp comp_def
      intro!: option.map_cong)

lemma sessions_ok_touch:
  "sessions_ok (c, db) \<Longrightarrow> c \<le> now \<Longrightarrow>
    sessions_ok (now, db\<lparr>browser_sessions := update_where p (touch_session now) (browser_sessions db), accounts := us\<rparr>)"
  by (auto simp: sessions_ok_def list_all_iff in_update_where map_update_where) (metis order_trans)


text \<open>The rows of the account that survive an issue.\<close>

definition unexpired :: "time \<Rightarrow> int \<Rightarrow> browser_session \<Rightarrow> bool" where
  "unexpired now uid s = (\<not> (bs_user_id s = uid \<and> bs_expires_at s \<le> now))"

definition overflow :: "auth_settings \<Rightarrow> nat \<Rightarrow> nat" where
  "overflow cfg n = nat (max 0 (int n - BROWSER_SESSION_MAX_PER_USER cfg + 1))"

definition issued_rows :: "auth_settings \<Rightarrow> time \<Rightarrow> int \<Rightarrow> browser_session \<Rightarrow> browser_session list \<Rightarrow> browser_session list" where
  "issued_rows cfg now uid r ss =
     (let kept = filter (unexpired now uid) ss; existing = sessions_of uid kept
      in filter (\<lambda>s. bs_id s \<notin> set (map bs_id (take (overflow cfg (length existing)) existing))) kept @ [r])"

lemma issue_cases:
  "issue_browser_session hmac cfg now uid via t c db =
     (if via \<noteq> ''token'' \<and> via \<noteq> ''passkey'' then Inl (ValueError ''auth_method must be token or passkey'')
      else if \<not> eligible_account (accounts db) uid then Inl (ValueError ''user must be an active customer account'')
      else case (hash_browser_session_token hmac cfg t, hash_csrf_token hmac cfg c) of
        (Inr th, Inr ch) \<Rightarrow>
          if \<exists>s \<in> set (browser_sessions db). unexpired now uid s \<and> token_hash s = th then Inl IntegrityError
          else let r = new_browser_session cfg now (next_session_id db) uid th ch via
               in Inr (r, db\<lparr>browser_sessions := issued_rows cfg now uid r (browser_sessions db),
                              next_session_id := next_session_id db + 1\<rparr>)
      | (Inl e, _) \<Rightarrow> Inl e
      | (_, Inl e) \<Rightarrow> Inl e)"
proof -
  have k: "filter (\<lambda>s. \<not> (bs_user_id s = uid \<and> bs_expires_at s \<le> now)) = filter (unexpired now uid)"
    by (rule ext) (simp add: unexpired_def [abs_def])
  have m: "th \<in> set (map token_hash (filter (unexpired now uid) ss)) \<longleftrightarrow> (\<exists>s \<in> set ss. unexpired now uid s \<and> token_hash s = th)"
    for th ss by auto
  show ?thesis
    unfolding issue_browser_session_def issued_rows_def overflow_def sessions_of_def [symmetric] k Let_def m
    by (auto simp: get_account_def eligible_account_def split: option.splits sum.splits)
qed

lemma live_row:
  assumes "distinct (map token_hash ss)" and "s \<in> set ss"
  shows "(case map_option grant_of (get_row token_hash (token_hash s) ss) of None \<Rightarrow> False
      | Some g \<Rightarrow> \<not> (grant_user g = uid \<and> grant_expires g \<le> now)) = unexpired now uid s"
  using get_row_unique [OF assms] by (simp add: grant_of_def unexpired_def)

lemma live_hash:
  assumes "distinct (map token_hash ss)"
  shows "(case map_option grant_of (get_row token_hash k ss) of None \<Rightarrow> False
      | Some g \<Rightarrow> \<not> (grant_user g = uid \<and> grant_expires g \<le> now)) = (\<exists>s \<in> set ss. unexpired now uid s \<and> token_hash s = k)"
proof (cases "get_row token_hash k ss")
  case None
  then have "k \<notin> token_hash ` set ss" by (simp add: get_row_None)
  then show ?thesis using None by auto
next
  case (Some r)
  then have r: "r \<in> set ss" "token_hash r = k" by (auto dest: get_row_Some)
  then have "s = r" if "s \<in> set ss" "token_hash s = k" for s
    using that assms by (auto simp: distinct_map dest: inj_onD)
  then have "(\<exists>s \<in> set ss. unexpired now uid s \<and> token_hash s = k) = unexpired now uid r" using r by blast
  then show ?thesis unfolding Some by (simp add: grant_of_def unexpired_def)
qed


lemma issued_sessions_of:
  assumes ids: "distinct (map bs_id ss)" and r: "bs_user_id r = uid"
    and new: "\<forall>s \<in> set ss. bs_id s \<le> bs_id r \<and> bs_created_at s \<le> bs_created_at r"
  shows "sessions_of u (issued_rows cfg now uid r ss) =
    (if u = uid then let q = filter (unexpired now uid) (sessions_of uid ss) in drop (overflow cfg (length q)) q @ [r]
     else sessions_of u ss)"
proof -
  let ?kept = "filter (unexpired now uid) ss"
  let ?q = "sessions_of uid ?kept"
  let ?out = "\<lambda>s. bs_id s \<notin> set (map bs_id (take (overflow cfg (length ?q)) ?q))"
  have app: "sessions_of u (filter ?out ?kept @ [r]) = (if u = uid then sessions_of u (filter ?out ?kept) @ [r] else sessions_of u (filter ?out ?kept))"
    using r new by (auto simp: sessions_of_def intro!: by_creation_last)
  have dk: "distinct (map bs_id ?q)" using ids by (simp add: distinct_sessions_of distinct_map_filter)
  have own: "sessions_of uid (filter ?out ?kept) = drop (overflow cfg (length ?q)) ?q"
    by (subst filter_sessions_of) (rule drop_as_filter [OF dk])
  have "sessions_of u (filter ?out ?kept) = sessions_of u ss" if "u \<noteq> uid"
  proof -
    have "?out s \<and> unexpired now uid s" if "s \<in> set (sessions_of u ss)" for s
    proof -
      have s: "s \<in> set ss" "bs_user_id s = u" using that by (auto simp: set_sessions_of)
      have "\<forall>x \<in> set ?q. bs_id x \<noteq> bs_id s"
        using s \<open>u \<noteq> uid\<close> ids by (auto simp: set_sessions_of distinct_map dest: inj_onD)
      then show ?thesis using s \<open>u \<noteq> uid\<close> by (auto simp: unexpired_def dest!: in_set_takeD)
    qed
    then show ?thesis by (simp add: filter_sessions_of)
  qed
  then show ?thesis
    using app own by (simp add: issued_rows_def Let_def filter_sessions_of)
qed

lemma issued_get_row:
  assumes ids: "distinct (map bs_id ss)" and th: "distinct (map token_hash ss)"
    and free: "\<not> (\<exists>s \<in> set ss. unexpired now uid s \<and> token_hash s = token_hash r)"
  shows "get_row token_hash k (issued_rows cfg now uid r ss) =
    (if k = token_hash r then Some r
     else let q = filter (unexpired now uid) (sessions_of uid ss) in
       case get_row token_hash k ss of
         None \<Rightarrow> None
       | Some s \<Rightarrow> if unexpired now uid s \<and> token_hash s \<notin> set (take (overflow cfg (length q)) (map token_hash q)) then Some s else None)"
proof -
  let ?q = "filter (unexpired now uid) (sessions_of uid ss)"
  let ?n = "overflow cfg (length ?q)"
  have same: "(bs_id s \<in> set (map bs_id (take ?n ?q))) = (token_hash s \<in> set (take ?n (map token_hash ?q)))" if "s \<in> set ss" for s
  proof -
    have sub: "set (take ?n ?q) \<subseteq> set ss" by (auto simp: set_sessions_of dest!: in_set_takeD)
    have "bs_id s \<in> bs_id ` set (take ?n ?q) \<longleftrightarrow> s \<in> set (take ?n ?q)"
      using ids that sub by (auto simp: distinct_map inj_on_def)
    moreover have "token_hash s \<in> token_hash ` set (take ?n ?q) \<longleftrightarrow> s \<in> set (take ?n ?q)"
      using th that sub by (auto simp: distinct_map inj_on_def)
    ultimately show ?thesis by (simp add: take_map)
  qed
  have f: "get_row token_hash k (filter (\<lambda>s. bs_id s \<notin> set (map bs_id (take ?n ?q))) (filter (unexpired now uid) ss)) =
    (case get_row token_hash k ss of None \<Rightarrow> None
     | Some s \<Rightarrow> if unexpired now uid s \<and> token_hash s \<notin> set (take ?n (map token_hash ?q)) then Some s else None)"
    using th same by (simp add: get_row_filter filter_filter distinct_map_filter del: set_map split: option.splits)
      (auto dest!: get_row_Some)
  have "get_row token_hash (token_hash r) (filter (\<lambda>s. bs_id s \<notin> set (map bs_id (take ?n ?q))) (filter (unexpired now uid) ss)) = None"
    using free by (auto simp: get_row_None)
  then show ?thesis
    using f by (auto simp: issued_rows_def Let_def filter_sessions_of get_row_snoc split: option.splits)
qed


lemma issue_refines:
  assumes ok: "sessions_ok (c, db)" and time: "c \<le> now"
    and free: "\<not> (\<exists>s \<in> set (browser_sessions db). unexpired now uid s \<and> token_hash s = th)"
    and r_def: "r = new_browser_session cfg now (next_session_id db) uid th ch via"
  shows "admit cfg now uid th ch (snd (store_of (c, db))) =
    (Issued, snd (store_of (now, db\<lparr>browser_sessions := issued_rows cfg now uid r (browser_sessions db), next_session_id := n\<rparr>)))"
proof -
  let ?ss = "browser_sessions db"
  let ?q = "filter (unexpired now uid) (sessions_of uid ?ss)"
  have ids: "distinct (map bs_id ?ss)" and ths: "distinct (map token_hash ?ss)"
    and old: "\<forall>s \<in> set ?ss. bs_id s \<le> bs_id r \<and> bs_created_at s \<le> bs_created_at r"
    using ok time by (auto simp: sessions_ok_def list_all_iff r_def new_browser_session_def)
  have r: "bs_user_id r = uid" "token_hash r = th" by (simp_all add: r_def new_browser_session_def)
  let ?st = "snd (store_of (c, db))"
  let ?live = "\<lambda>k. \<exists>s \<in> set ?ss. unexpired now uid s \<and> token_hash s = k"
  have live: "(\<lambda>k. case grants ?st k of None \<Rightarrow> False | Some g \<Rightarrow> \<not> (grant_user g = uid \<and> grant_expires g \<le> now)) = ?live"
    using live_hash [OF ths, where uid = uid and now = now] by (simp add: store_of_def fun_eq_iff del: case_map_option)
  have row: "?live (token_hash s) = unexpired now uid s" if "s \<in> set ?ss" for s
    using that ths by (auto simp: distinct_map dest: inj_onD)
  have "filter (\<lambda>s. ?live (token_hash s)) (sessions_of uid ?ss) = ?q"
    by (rule filter_cong [OF refl]) (rule row, simp add: set_sessions_of)
  then have q: "filter ?live (queue ?st uid) = map token_hash ?q"
    by (simp add: store_of_def filter_map comp_def)
  have g: "map_option grant_of (get_row token_hash k (issued_rows cfg now uid r ?ss)) =
    (if k = th then Some (grant_of r)
     else if (\<exists>s \<in> set ?ss. unexpired now uid s \<and> token_hash s = k) \<and> k \<notin> set (take (overflow cfg (length ?q)) (map token_hash ?q))
     then map_option grant_of (get_row token_hash k ?ss) else None)" for k
  proof (cases "get_row token_hash k ?ss")
    case None
    then have "k \<notin> token_hash ` set ?ss" by (simp add: get_row_None)
    then show ?thesis using issued_get_row [OF ids ths, where now = now and uid = uid and r = r and k = k and cfg = cfg] free None r by (auto simp: Let_def)
  next
    case (Some s)
    then have "(\<exists>s \<in> set ?ss. unexpired now uid s \<and> token_hash s = k) = unexpired now uid s" "token_hash s = k"
      using live_hash [OF ths, where k = k and uid = uid and now = now] by (auto simp: grant_of_def unexpired_def dest: get_row_Some)
    then show ?thesis using issued_get_row [OF ids ths, where now = now and uid = uid and r = r and k = k and cfg = cfg] free Some r by (simp add: Let_def)
  qed
  have gs: "grants (snd (store_of (now, db\<lparr>browser_sessions := issued_rows cfg now uid r ?ss, next_session_id := n\<rparr>))) =
    (\<lambda>k. if ?live k \<and> k \<notin> set (take (overflow cfg (length ?q)) (map token_hash ?q)) then grants ?st k else None)(th \<mapsto> grant_of r)"
    using g by (auto simp: store_of_def fun_eq_iff)
  have qs: "queue (snd (store_of (now, db\<lparr>browser_sessions := issued_rows cfg now uid r ?ss, next_session_id := n\<rparr>))) =
    (queue ?st)(uid := drop (overflow cfg (length ?q)) (map token_hash ?q) @ [th])"
    using r by (auto simp: store_of_def fun_eq_iff issued_sessions_of [OF ids r(1) old] Let_def drop_map)
  have gr: "grant_of r = \<lparr> grant_user = uid, grant_csrf = ch, grant_expires = now + seconds (BROWSER_SESSION_MAX_AGE_SECONDS cfg) \<rparr>"
    by (simp add: grant_of_def r_def new_browser_session_def)
  have nl: "?live th = False" using free by simp
  show ?thesis
    unfolding admit_def live Let_def q nl gr [symmetric] length_map overflow_def [symmetric] if_False prod.inject
    using gs qs by (intro conjI refl session_store.equality) (simp_all add: store_of_def)
qed


lemma sessions_ok_issue:
  assumes ok: "sessions_ok (c, db)" and time: "c \<le> now"
    and free: "\<not> (\<exists>s \<in> set (browser_sessions db). unexpired now uid s \<and> token_hash s = th)"
    and r_def: "r = new_browser_session cfg now (next_session_id db) uid th ch via"
  shows "sessions_ok (now, db\<lparr>browser_sessions := issued_rows cfg now uid r (browser_sessions db),
    next_session_id := next_session_id db + 1\<rparr>)"
proof -
  obtain P where rows: "issued_rows cfg now uid r (browser_sessions db) = filter P (filter (unexpired now uid) (browser_sessions db)) @ [r]"
    by (simp add: issued_rows_def Let_def)
  show ?thesis
    using ok time free unfolding rows
    by (auto simp: sessions_ok_def list_all_iff distinct_map_filter r_def new_browser_session_def)
qed

lemma resolve_cases:
  assumes ok: "sessions_ok (c, db)"
  shows "resolve_browser_session hmac cfg now t db =
    (case if t = [] then None else Option.bind (case_sum Map.empty Some (hash_browser_session_token hmac cfg t))
            (\<lambda>th. map_option (Pair th) (get_row token_hash th (browser_sessions db))) of
       None \<Rightarrow> (None, db)
     | Some (th, r) \<Rightarrow>
         if bs_expires_at r \<le> now
         then (None, db\<lparr>browser_sessions := filter (\<lambda>s. token_hash s \<noteq> th) (browser_sessions db)\<rparr>)
         else if eligible_account (accounts db) (bs_user_id r)
         then (map_option (\<lambda>u. (touch_session now r, touch_account now u)) (get_account db (bs_user_id r)),
               db\<lparr>browser_sessions := update_where (\<lambda>s. bs_id s = bs_id r) (touch_session now) (browser_sessions db),
                  accounts := update_where (\<lambda>u. user_id u = bs_user_id r) (touch_account now) (accounts db)\<rparr>)
         else (None, db))"
proof -
  have eq: "constant_time_equal (token_hash r) th"
    if "hash_browser_session_token hmac cfg t = Inr th" "get_row token_hash th (browser_sessions db) = Some r" for th r
    using hash_value_ascii that by (auto simp: constant_time_equal_def hash_browser_session_token_def dest: get_row_Some)
  show ?thesis
    by (auto simp: resolve_browser_session_def eq expired_row_filter [OF ok] eligible_account_def get_account_def
        split: sum.splits option.splits dest: get_row_Some)
qed


lemma eligible_has_account: "eligible_account us i \<Longrightarrow> \<exists>u. get_row user_id i us = Some u \<and> user_id u = i"
  by (auto simp: eligible_account_def split: option.splits dest: get_row_Some)

lemma session_step_ok:
  assumes ok: "sessions_ok s"
  shows "sessions_ok (snd (session_step hmac cfg e s))"
proof -
  obtain c db where s: "s = (c, db)" by (cases s)
  have ok': "sessions_ok (c, db)" using ok s by simp
  let ?now = "c + int (fst e)"
  have stay: "sessions_ok (?now, db)" "sessions_ok (?now, db\<lparr>accounts := us\<rparr>)" for us
    using ok' by (auto simp: sessions_ok_def list_all_iff)
  show ?thesis
  proof (cases "snd e")
    case (Issue uid via t k)
    then show ?thesis using stay sessions_ok_issue [OF ok', of ?now]
      by (auto simp: s session_step_def issue_cases Let_def split: sum.splits)
  next
    case (Resolve t)
    then show ?thesis using stay sessions_ok_filter [OF ok', of ?now] sessions_ok_touch [OF ok', of ?now]
      by (auto simp: s session_step_def resolve_cases [OF ok'] Let_def split: option.splits)
  next
    case (Revoke t)
    then show ?thesis using stay sessions_ok_filter [OF ok', of ?now]
      by (auto simp: s session_step_def revoke_browser_session_def Let_def split: sum.splits)
  qed (use stay in \<open>simp add: s session_step_def Let_def\<close>)
qed

lemma session_step_refines:
  assumes ok: "sessions_ok s"
  shows "store_step hmac cfg e (store_of s) = (fst (session_step hmac cfg e s), store_of (snd (session_step hmac cfg e s)))"
proof -
  obtain c db where s: "s = (c, db)" by (cases s)
  have ok': "sessions_ok (c, db)" using ok s by simp
  let ?now = "c + int (fst e)"
  define st where "st = snd (store_of (c, db))"
  have st: "store_of (now, db) = (now, st)" for now by (simp add: store_of_def st_def)
  have elig: "eligible st = eligible_account (accounts db)"
    and gr: "grants st h = map_option grant_of (get_row token_hash h (browser_sessions db))" for h
    by (simp_all add: store_of_def st_def)
  show ?thesis
  proof (cases "snd e")
    case (Issue uid via t k)
    have dup: "admit cfg ?now uid th ch st = (Refused IntegrityError, st)"
      if "\<exists>s \<in> set (browser_sessions db). unexpired ?now uid s \<and> token_hash s = th" for th ch
      using that live_hash [of "browser_sessions db"] ok'
      by (simp add: admit_def Let_def gr sessions_ok_def del: case_map_option)
    have new: "(?now, snd (admit cfg ?now uid th ch st)) =
        store_of (?now, db\<lparr>browser_sessions := issued_rows cfg ?now uid (new_browser_session cfg ?now (next_session_id db) uid th ch via)
           (browser_sessions db), next_session_id := next_session_id db + 1\<rparr>)"
      "fst (admit cfg ?now uid th ch st) = Issued"
      if "\<not> (\<exists>s \<in> set (browser_sessions db). unexpired ?now uid s \<and> token_hash s = th)" for th ch
      using issue_refines [OF ok' _ that refl, of cfg ch "next_session_id db + 1" via]
      by (simp_all add: st_def store_of_def)
    show ?thesis
      using Issue dup new
      by (auto simp: s session_step_def store_step_def issue_cases Let_def elig st case_prod_unfold split: sum.splits)
  next
    case (Resolve t)
    have found: "map_option (\<lambda>(r, u). (user_id u, csrf_token_hash r)) (map_option (\<lambda>u. (touch_session ?now r, touch_account ?now u))
        (get_account db (bs_user_id r))) = Some (bs_user_id r, csrf_token_hash r)" if "eligible_account (accounts db) (bs_user_id r)" for r
      using eligible_has_account [OF that] by (auto simp: get_account_def)
    show ?thesis
      using Resolve forget_refines [OF ok', of ?now] touch_refines [where now = ?now and db = db and c = c]
      by (auto simp: s session_step_def store_step_def resolve_cases [OF ok'] Let_def elig gr st grant_of_def found
          split: option.splits sum.splits)
  next
    case (Revoke t)
    then show ?thesis using forget_refines [OF ok', of ?now]
      by (auto simp: s session_step_def store_step_def revoke_browser_session_def Let_def st split: sum.splits)
  next
    case (SetAccounts us)
    then show ?thesis by (simp add: s session_step_def store_step_def Let_def store_of_def)
  qed
qed


interpretation session_store_refined: functional_refinement "session_step hmac cfg" "store_step hmac cfg" sessions_ok store_of
  for hmac cfg
  by unfold_locales (simp_all add: session_step_ok session_step_refines)

section \<open>Bounds and origin of sessions\<close>

text \<open>A queue never exceeds the configured number of sessions.\<close>

lemma admit_bounded:
  assumes cap: "BROWSER_SESSION_MAX_PER_USER cfg \<ge> 1" and bound: "\<forall>u. int (length (queue st u)) \<le> BROWSER_SESSION_MAX_PER_USER cfg"
  shows "\<forall>u. int (length (queue (snd (admit cfg now uid th ch st)) u)) \<le> BROWSER_SESSION_MAX_PER_USER cfg"
  using assms by (auto simp: admit_def Let_def max_def)

lemma store_step_bounded:
  assumes cap: "BROWSER_SESSION_MAX_PER_USER cfg \<ge> 1" and bound: "\<forall>u. int (length (queue (snd s) u)) \<le> BROWSER_SESSION_MAX_PER_USER cfg"
  shows "\<forall>u. int (length (queue (snd (snd (store_step hmac cfg e s))) u)) \<le> BROWSER_SESSION_MAX_PER_USER cfg"
proof -
  have f: "\<forall>u. int (length (queue (forget h (snd s)) u)) \<le> BROWSER_SESSION_MAX_PER_USER cfg" for h
    using bound by (auto simp: forget_def intro: order_trans [OF of_nat_mono [OF length_filter_le]])
  show ?thesis
    using bound f admit_bounded [OF assms]
    by (auto simp: store_step_def Let_def case_prod_unfold split: session_event.splits sum.splits option.splits)
qed

lemma store_bounded:
  assumes "BROWSER_SESSION_MAX_PER_USER cfg \<ge> 1" and "\<forall>u. int (length (queue (snd s) u)) \<le> BROWSER_SESSION_MAX_PER_USER cfg"
  shows "\<forall>u. int (length (queue (snd (snd (outputs (store_step hmac cfg) es s))) u)) \<le> BROWSER_SESSION_MAX_PER_USER cfg"
  using assms(2)
proof (induction es rule: rev_induct)
  case (snoc e es)
  show ?case unfolding outputs_snoc by (rule store_step_bounded [OF assms(1) snoc.IH [OF snoc.prems]])
qed simp


text \<open>Every grant goes back to an issue that was not revoked since.\<close>

definition elapsed :: "(nat \<times> session_event) list \<Rightarrow> int" where
  "elapsed es = sum_list (map (\<lambda>e. int (fst e)) es)"

definition revokes :: "(string \<Rightarrow> string \<Rightarrow> string) \<Rightarrow> auth_settings \<Rightarrow> string \<Rightarrow> session_event \<Rightarrow> bool" where
  "revokes hmac cfg h e = (case e of Revoke t \<Rightarrow> t \<noteq> [] \<and> hash_browser_session_token hmac cfg t = Inr h | _ \<Rightarrow> False)"

definition origin ::
  "(string \<Rightarrow> string \<Rightarrow> string) \<Rightarrow> auth_settings \<Rightarrow> time \<times> session_store \<Rightarrow> (nat \<times> session_event) list \<Rightarrow> string \<Rightarrow> grant \<Rightarrow> bool" where
  "origin hmac cfg s es h g =
     (\<exists>pre d via t k post. es = pre @ (d, Issue (grant_user g) via t k) # post \<and>
        fst (store_step hmac cfg (d, Issue (grant_user g) via t k) (snd (outputs (store_step hmac cfg) pre s))) = Issued \<and>
        hash_browser_session_token hmac cfg t = Inr h \<and> hash_csrf_token hmac cfg k = Inr (grant_csrf g) \<and>
        grant_expires g = fst s + elapsed pre + int d + seconds (BROWSER_SESSION_MAX_AGE_SECONDS cfg) \<and>
        list_all (\<lambda>e. \<not> revokes hmac cfg h (snd e)) post)"

lemma origin_snoc:
  "origin hmac cfg s es h g \<Longrightarrow> \<not> revokes hmac cfg h (snd e) \<Longrightarrow> origin hmac cfg s (es @ [e]) h g"
  unfolding origin_def by (elim exE conjE, intro exI conjI) (assumption | simp)+

lemma store_clock: "fst (snd (outputs (store_step hmac cfg) es s)) = fst s + elapsed es"
proof (induction es rule: rev_induct)
  case (snoc e es)
  have "fst (snd (store_step hmac cfg e t)) = fst t + int (fst e)" for t
    by (simp add: store_step_def Let_def case_prod_unfold split: session_event.splits sum.splits option.splits)
  then show ?case using snoc by (simp add: outputs_snoc elapsed_def)
qed (simp add: elapsed_def)

text \<open>What one step does to a grant: it is kept, removed, or issued by this step.\<close>

lemma store_step_grant:
  assumes "grants (snd (snd (store_step hmac cfg e s))) h = Some g"
  shows "grants (snd s) h = Some g \<and> \<not> revokes hmac cfg h (snd e) \<or>
    (\<exists>via t k. snd e = Issue (grant_user g) via t k \<and> fst (store_step hmac cfg e s) = Issued \<and>
      hash_browser_session_token hmac cfg t = Inr h \<and> hash_csrf_token hmac cfg k = Inr (grant_csrf g) \<and>
      grant_expires g = fst s + int (fst e) + seconds (BROWSER_SESSION_MAX_AGE_SECONDS cfg))"
proof (cases "snd e")
  case (Issue uid via t k)
  have adm: "grants st h = Some g \<or> (h = th \<and> x = Issued \<and> g = \<lparr> grant_user = uid, grant_csrf = ch,
      grant_expires = now + seconds (BROWSER_SESSION_MAX_AGE_SECONDS cfg) \<rparr>)"
    if "admit cfg now uid th ch st = (x, st')" "grants st' h = Some g" for now th ch st st' x
    using that by (auto simp: admit_def Let_def split: if_splits)
  show ?thesis
    using assms Issue adm
    by (fastforce simp: store_step_def Let_def revokes_def split: if_splits sum.splits prod.splits)
next
  case (Resolve t)
  then show ?thesis using assms
    by (auto simp: store_step_def Let_def revokes_def forget_def split: if_splits option.splits)
next
  case (Revoke t)
  then show ?thesis using assms
    by (auto simp: store_step_def Let_def revokes_def forget_def split: if_splits sum.splits)
next
  case (SetAccounts us)
  then show ?thesis using assms by (simp add: store_step_def Let_def revokes_def)
qed

lemma grants_have_origin:
  assumes "grants (snd s) = Map.empty" and "grants (snd (snd (outputs (store_step hmac cfg) es s))) h = Some g"
  shows "origin hmac cfg s es h g"
  using assms(2)
proof (induction es arbitrary: g rule: rev_induct)
  case (snoc e es)
  let ?s = "snd (outputs (store_step hmac cfg) es s)"
  from store_step_grant [OF snoc.prems [unfolded outputs_snoc]]
  consider (kept) "grants (snd ?s) h = Some g" "\<not> revokes hmac cfg h (snd e)"
    | (new) via t k where "snd e = Issue (grant_user g) via t k" "fst (store_step hmac cfg e ?s) = Issued"
      "hash_browser_session_token hmac cfg t = Inr h" "hash_csrf_token hmac cfg k = Inr (grant_csrf g)"
      "grant_expires g = fst ?s + int (fst e) + seconds (BROWSER_SESSION_MAX_AGE_SECONDS cfg)"
    by blast
  then show ?case
  proof cases
    case kept
    then show ?thesis by (intro origin_snoc snoc.IH)
  next
    case new
    show ?thesis unfolding origin_def
      by (rule exI [of _ es], rule exI [of _ "fst e"], rule exI [of _ via], rule exI [of _ t], rule exI [of _ k], rule exI [of _ "[]"])
        (use new in \<open>cases e, simp add: store_clock\<close>)
  qed
qed (use assms(1) in simp)


section \<open>Properties\<close>

definition fresh_db :: "account list \<Rightarrow> auth_db" where
  "fresh_db us = \<lparr> accounts = us, browser_sessions = [], next_session_id = 1 \<rparr>"

definition fresh_store :: "account list \<Rightarrow> session_store" where
  "fresh_store us = \<lparr> eligible = eligible_account us, grants = Map.empty, queue = (\<lambda>_. []) \<rparr>"

lemma fresh_sessions_ok: "sessions_ok (c, fresh_db us)"
  by (simp add: sessions_ok_def fresh_db_def)

lemma fresh_store_of: "store_of (c, fresh_db us) = (c, fresh_store us)"
  by (simp add: store_of_def fresh_db_def fresh_store_def sessions_of_def by_creation_def get_row_def)

lemmas history_of_sessions = session_store_refined.history_refines [OF fresh_sessions_ok, unfolded fresh_store_of]

text \<open>
  C17: the session table implements the abstract store. Over any history of issued, resolved and revoked
  tokens and of changes to the accounts, on any clock, the code gives the same answers as a map from token
  hashes to grants with one first-in-first-out queue per account, and its table represents that store.
\<close>

theorem sessions_refine_store:
  "outputs (store_step hmac cfg) es (c, fresh_store us) =
     (fst (outputs (session_step hmac cfg) es (c, fresh_db us)), store_of (snd (outputs (session_step hmac cfg) es (c, fresh_db us))))"
  by (rule history_of_sessions)

text \<open>A session that resolves is a live grant with an origin.\<close>

lemma resolved_grant:
  assumes s: "s = snd (outputs (session_step hmac cfg) es (c, fresh_db us))"
    and answer: "fst (session_step hmac cfg (d, Resolve t) s) = Resolved (Some (u, ch))"
  obtains h g where "hash_browser_session_token hmac cfg t = Inr h" "origin hmac cfg (c, fresh_store us) es h g"
    "c + elapsed es + int d < grant_expires g" "eligible_account (accounts (snd s)) u" "u = grant_user g" "ch = grant_csrf g"
proof -
  have ok: "sessions_ok s" unfolding s by (rule session_store_refined.history_inv [OF fresh_sessions_ok])
  have st: "store_of s = snd (outputs (store_step hmac cfg) es (c, fresh_store us))" by (simp add: s history_of_sessions)
  have "fst (store_of s) = c + elapsed es" unfolding st using store_clock [of hmac cfg es "(c, fresh_store us)"] by simp
  then have clock: "fst s = c + elapsed es" by (simp add: store_of_def)
  have "fst (store_step hmac cfg (d, Resolve t) (store_of s)) = Resolved (Some (u, ch))"
    using session_step_refines [OF ok] answer by simp
  then obtain h g where h: "hash_browser_session_token hmac cfg t = Inr h" and g: "grants (snd (store_of s)) h = Some g"
    and live: "fst s + int d < grant_expires g" "eligible_account (accounts (snd s)) u" "u = grant_user g" "ch = grant_csrf g"
    by (auto simp: store_step_def Let_def store_of_def split: option.splits if_splits sum.splits)
  have "origin hmac cfg (c, fresh_store us) es h g"
    by (rule grants_have_origin) (use g st in \<open>simp_all add: fresh_store_def\<close>)
  with h live clock show thesis by (intro that) simp_all
qed

lemma sessions_bounded:
  assumes cap: "BROWSER_SESSION_MAX_PER_USER cfg \<ge> 1" and s: "s = snd (outputs (session_step hmac cfg) es (c, fresh_db us))"
  shows "int (length (filter (\<lambda>r. bs_user_id r = u) (browser_sessions (snd s)))) \<le> BROWSER_SESSION_MAX_PER_USER cfg"
proof -
  have st: "store_of s = snd (outputs (store_step hmac cfg) es (c, fresh_store us))" by (simp add: s history_of_sessions)
  have "\<forall>v. int (length (queue (snd (store_of s)) v)) \<le> BROWSER_SESSION_MAX_PER_USER cfg"
    unfolding st by (rule store_bounded [OF cap]) (use cap in \<open>simp add: fresh_store_def\<close>)
  then show ?thesis by (simp add: store_of_def sessions_of_def by_creation_def)
qed

text \<open>
  C30: what a session proves. When a token resolves to an account after any history, a token with the same
  hash was issued to that account less than the maximal age ago and not revoked since, the returned hash
  is that of the form token issued with it, the account is a customer that is not suspended, and it has at
  most the configured number of sessions.
\<close>

theorem session_proves_login:
  assumes cap: "BROWSER_SESSION_MAX_PER_USER cfg \<ge> 1"
    and s: "s = snd (outputs (session_step hmac cfg) es (c, fresh_db us))"
    and answer: "fst (session_step hmac cfg (d, Resolve t) s) = Resolved (Some (u, ch))"
  shows "(\<exists>pre d' via t' k post. es = pre @ (d', Issue u via t' k) # post \<and>
      fst (session_step hmac cfg (d', Issue u via t' k) (snd (outputs (session_step hmac cfg) pre (c, fresh_db us)))) = Issued \<and>
      hash_browser_session_token hmac cfg t' = hash_browser_session_token hmac cfg t \<and>
      hash_csrf_token hmac cfg k = Inr ch \<and>
      elapsed post + int d < seconds (BROWSER_SESSION_MAX_AGE_SECONDS cfg) \<and>
      list_all (\<lambda>e. \<forall>x. snd e = Revoke x \<longrightarrow> x = [] \<or> hash_browser_session_token hmac cfg x \<noteq> hash_browser_session_token hmac cfg t) post) \<and>
    eligible_account (accounts (snd s)) u \<and>
    int (length (filter (\<lambda>r. bs_user_id r = u) (browser_sessions (snd s)))) \<le> BROWSER_SESSION_MAX_PER_USER cfg"
proof -
  obtain h g where h: "hash_browser_session_token hmac cfg t = Inr h" and orig: "origin hmac cfg (c, fresh_store us) es h g"
    and live: "c + elapsed es + int d < grant_expires g" "eligible_account (accounts (snd s)) u" "u = grant_user g" "ch = grant_csrf g"
    by (rule resolved_grant [OF s answer])
  from orig obtain pre d' via t' k post where es: "es = pre @ (d', Issue u via t' k) # post"
    and iss: "fst (store_step hmac cfg (d', Issue u via t' k) (snd (outputs (store_step hmac cfg) pre (c, fresh_store us)))) = Issued"
    and tk: "hash_browser_session_token hmac cfg t' = Inr h" "hash_csrf_token hmac cfg k = Inr ch"
    and exp: "grant_expires g = c + elapsed pre + int d' + seconds (BROWSER_SESSION_MAX_AGE_SECONDS cfg)"
    and rev: "list_all (\<lambda>e. \<not> revokes hmac cfg h (snd e)) post"
    using live(3,4) by (auto simp: origin_def)
  have iss': "fst (session_step hmac cfg (d', Issue u via t' k) (snd (outputs (session_step hmac cfg) pre (c, fresh_db us)))) = Issued"
    using iss session_step_refines [OF session_store_refined.history_inv [OF fresh_sessions_ok]] by (simp add: history_of_sessions)
  have age: "elapsed post + int d < seconds (BROWSER_SESSION_MAX_AGE_SECONDS cfg)"
    using live(1) exp es by (simp add: elapsed_def)
  have "list_all (\<lambda>e. \<forall>x. snd e = Revoke x \<longrightarrow> x = [] \<or> hash_browser_session_token hmac cfg x \<noteq> Inr h) post"
    using rev by (auto simp: list_all_iff revokes_def)
  then show ?thesis unfolding h using es iss' tk age live(2) sessions_bounded [OF cap s] by blast
qed


definition session_settings :: auth_settings where
  "session_settings = \<lparr> SECRET_KEY = ''k'', token_hash_key = ''h'', ADMIN_TOKEN = ''admin'',
     BROWSER_SESSION_MAX_AGE_SECONDS = 3600, BROWSER_SESSION_MAX_PER_USER = 2 \<rparr>"

definition session_user :: account where
  "session_user = \<lparr> user_id = 1, user_public_id = ''u'', is_admin = False, is_suspended = False, user_last_seen_at = None,
     has_nwc = False, nwc_credential = None, nwc_generation = 0, has_clink = False, clink_credential = None,
     clink_generation = 0, has_notification_email = False, notification_email = None,
     notification_email_generation = 0, hashed_token = ''x'' \<rparr>"

theorem session_proves_login_witness:
  "let s = snd (outputs (session_step (\<lambda>k m. m) session_settings) [(0, Issue 1 ''token'' ''a'' ''b'')] (0, fresh_db [session_user]))
   in fst (session_step (\<lambda>k m. m) session_settings (5, Resolve ''a'') s) =
        Resolved (Some (1, hexdigest (CSRF_HASH_DOMAIN @ ''b''))) \<and>
      int (length (filter (\<lambda>r. bs_user_id r = 1) (browser_sessions (snd s)))) \<le> 2"
proof -
  define s where "s = snd (outputs (session_step (\<lambda>k m. m) session_settings) [(0, Issue 1 ''token'' ''a'' ''b'')] (0, fresh_db [session_user]))"
  have answer: "fst (session_step (\<lambda>k m. m) session_settings (5, Resolve ''a'') s) =
      Resolved (Some (1, hexdigest (CSRF_HASH_DOMAIN @ ''b'')))"
    unfolding s_def by code_simp
  show ?thesis
    using session_proves_login [OF _ s_def answer] answer unfolding s_def [symmetric] by (simp add: session_settings_def)
qed

end
