(* ===== verification/Authentication.thy ===== *)
theory Authentication
  imports Browser_Sessions Crockford Ip_Leases
begin

text \<open>
  Who a request comes from (\<^verbatim>\<open>core/auth.py\<close>): bearer tokens of customers, browser sessions with their
  form-token check, and the administrator, who is never looked up among the customers. SHA-256 and HMAC
  are parameters; the signer of administrator sessions is a pair of parameters that dump and load a
  payload.
\<close>

section \<open>Requests\<close>

datatype http_error = HttpError nat string

record request =
  authorization :: "string option"
  request_method :: string
  session_cookie :: string
  csrf_cookie :: "string option"
  csrf_header :: "string option"

text \<open>\<^verbatim>\<open>split(None, 1)\<close>: the first word and the rest without the white space between them.\<close>

definition split_once :: "string \<Rightarrow> string list" where
  "split_once s =
     (let t = dropWhile is_space s; first_word = takeWhile (\<lambda>c. \<not> is_space c) t;
          remainder = dropWhile is_space (dropWhile (\<lambda>c. \<not> is_space c) t)
      in if first_word = [] then [] else if remainder = [] then [first_word] else [first_word, remainder])"

definition extract_token :: "string option \<Rightarrow> http_error + string" where
  "extract_token auth =
     (case auth of
        None \<Rightarrow> Inl (HttpError 401 ''missing Authorization header'')
      | Some a \<Rightarrow>
          if a = [] then Inl (HttpError 401 ''missing Authorization header'')
          else case split_once a of
            [scheme, token] \<Rightarrow>
              if str_lower scheme = ''bearer'' then Inr token else Inl (HttpError 401 ''invalid Authorization header'')
          | _ \<Rightarrow> Inl (HttpError 401 ''invalid Authorization header''))"

section \<open>Customers\<close>

definition touch_last_seen :: "time \<Rightarrow> int \<Rightarrow> auth_db \<Rightarrow> bool \<times> auth_db" where
  "touch_last_seen now uid db =
     (let p = (\<lambda>u. user_id u = uid \<and>
            (case user_last_seen_at u of None \<Rightarrow> True | Some t \<Rightarrow> t \<le> now - LAST_SEEN_WRITE_INTERVAL))
      in (row_count p (accounts db) = 1,
          db\<lparr>accounts := update_where p (\<lambda>u. u\<lparr>user_last_seen_at := Some now\<rparr>) (accounts db)\<rparr>))"

text \<open>The account is read again after its activity was written.\<close>

definition bearer_user ::
  "(string \<Rightarrow> string) \<Rightarrow> auth_settings \<Rightarrow> time \<Rightarrow> string option \<Rightarrow> auth_db \<Rightarrow> (http_error + account) \<times> auth_db" where
  "bearer_user sha cfg now auth db =
     (case extract_token auth of
        Inl e \<Rightarrow> (Inl e, db)
      | Inr provided \<Rightarrow>
          let hashed = hash_token sha (token_hash_key cfg) (normalize provided) in
          case List.find (\<lambda>u. hashed_token u = hashed \<and> \<not> is_admin u) (accounts db) of
            None \<Rightarrow> (Inl (HttpError 401 ''invalid token''), db)
          | Some user \<Rightarrow>
              if is_suspended user then (Inl (HttpError 403 ''account suspended''), db)
              else if is_stale (user_last_seen_at user) now
              then let db' = snd (touch_last_seen now (user_id user) db)
                   in (Inr (case get_account db' (user_id user) of Some u \<Rightarrow> u | None \<Rightarrow> user), db')
              else (Inr user, db))"

definition optional_browser_session ::
  "(string \<Rightarrow> string \<Rightarrow> string) \<Rightarrow> auth_settings \<Rightarrow> time \<Rightarrow> request \<Rightarrow> auth_db \<Rightarrow> (browser_session \<times> account) option \<times> auth_db" where
  "optional_browser_session hmac cfg now req db = resolve_browser_session hmac cfg now (session_cookie req) db"

definition browser_session_auth_error ::
  "(string \<Rightarrow> string \<Rightarrow> string) \<Rightarrow> auth_settings \<Rightarrow> string \<Rightarrow> auth_db \<Rightarrow> http_error" where
  "browser_session_auth_error hmac cfg raw_token db =
     (let required = HttpError 401 ''authentication required'' in
      case (if raw_token = [] then None
            else case hash_browser_session_token hmac cfg raw_token of Inl _ \<Rightarrow> None | Inr th \<Rightarrow> Some th) of
        None \<Rightarrow> required
      | Some th \<Rightarrow>
          (case get_row token_hash th (browser_sessions db) of
             None \<Rightarrow> required
           | Some r \<Rightarrow>
               (case get_account db (bs_user_id r) of
                  None \<Rightarrow> required
                | Some u \<Rightarrow> if \<not> is_admin u \<and> is_suspended u then HttpError 403 ''account suspended'' else required)))"

definition state_changing :: "string \<Rightarrow> bool" where
  "state_changing m = (str_upper m \<in> {''POST'', ''PUT'', ''PATCH'', ''DELETE''})"

definition current_user ::
  "(string \<Rightarrow> string) \<Rightarrow> (string \<Rightarrow> string \<Rightarrow> string) \<Rightarrow> auth_settings \<Rightarrow> time \<Rightarrow> request \<Rightarrow> auth_db \<Rightarrow>
    (http_error + account) \<times> auth_db" where
  "current_user sha hmac cfg now req db =
     (if authorization req \<noteq> None then bearer_user sha cfg now (authorization req) db
      else case optional_browser_session hmac cfg now req db of
        (None, db') \<Rightarrow> (Inl (browser_session_auth_error hmac cfg (session_cookie req) db'), db')
      | (Some (r, user), db') \<Rightarrow>
          if state_changing (request_method req) \<and> \<not> valid_csrf hmac cfg r (csrf_cookie req) (csrf_header req)
          then (Inl (HttpError 403 ''CSRF validation failed''), db')
          else (Inr user, db'))"

section \<open>The administrator\<close>

definition is_exact_admin_token :: "auth_settings \<Rightarrow> string \<Rightarrow> bool" where
  "is_exact_admin_token cfg provided = (provided = ADMIN_TOKEN cfg)"

definition current_admin :: "auth_settings \<Rightarrow> string option \<Rightarrow> http_error + unit" where
  "current_admin cfg auth =
     (case extract_token auth of
        Inl e \<Rightarrow> Inl e
      | Inr provided \<Rightarrow> if is_exact_admin_token cfg provided then Inr () else Inl (HttpError 401 ''invalid token''))"

definition is_admin_token :: "auth_settings \<Rightarrow> string option \<Rightarrow> bool" where
  "is_admin_token cfg auth =
     (case auth of
        None \<Rightarrow> False
      | Some a \<Rightarrow>
          a \<noteq> [] \<and>
          (case split_once a of
             [scheme, token] \<Rightarrow> str_lower scheme = ''bearer'' \<and> is_exact_admin_token cfg token
           | _ \<Rightarrow> False))"

definition ADMIN_BROWSER_AUDIENCE :: string where
  "ADMIN_BROWSER_AUDIENCE = ''blindport-admin-browser-v1''"

definition admin_token_fingerprint :: "(string \<Rightarrow> string \<Rightarrow> string) \<Rightarrow> auth_settings \<Rightarrow> string" where
  "admin_token_fingerprint hmac cfg =
     hexdigest (hmac (SECRET_KEY cfg) (ADMIN_BROWSER_AUDIENCE @ [CHR 0x00] @ ADMIN_TOKEN cfg))"

text \<open>
  The signed payload holds an audience and a fingerprint, each possibly missing. \<open>loads\<close> fails on a bad
  signature and on a value older than the maximal age.
\<close>

type_synonym admin_payload = "string option \<times> string option"

definition create_admin_browser_session ::
  "(admin_payload \<Rightarrow> string) \<Rightarrow> (string \<Rightarrow> string \<Rightarrow> string) \<Rightarrow> auth_settings \<Rightarrow> string" where
  "create_admin_browser_session dumps hmac cfg =
     dumps (Some ADMIN_BROWSER_AUDIENCE, Some (admin_token_fingerprint hmac cfg))"

definition validate_admin_browser_session ::
  "(string \<Rightarrow> admin_payload option) \<Rightarrow> (string \<Rightarrow> string \<Rightarrow> string) \<Rightarrow> auth_settings \<Rightarrow> string \<Rightarrow> bool" where
  "validate_admin_browser_session loads hmac cfg value =
     (if value = [] then False
      else case loads value of
        None \<Rightarrow> False
      | Some (aud, fingerprint) \<Rightarrow>
          if aud \<noteq> Some ADMIN_BROWSER_AUDIENCE then False
          else case fingerprint of
            None \<Rightarrow> False
          | Some f \<Rightarrow> is_ascii f \<and> f = admin_token_fingerprint hmac cfg)"

section \<open>Lemmas\<close>

text \<open>The two ways a customer can identify: a bearer token, or a live session with its form token.\<close>

definition bearer_proof :: "(string \<Rightarrow> string) \<Rightarrow> auth_settings \<Rightarrow> request \<Rightarrow> account \<Rightarrow> bool" where
  "bearer_proof sha cfg req a =
     (case extract_token (authorization req) of
        Inl _ \<Rightarrow> False | Inr token \<Rightarrow> verify_token sha (token_hash_key cfg) token (hashed_token a))"

definition form_proof :: "(string \<Rightarrow> string \<Rightarrow> string) \<Rightarrow> auth_settings \<Rightarrow> request \<Rightarrow> browser_session \<Rightarrow> bool" where
  "form_proof hmac cfg req r =
     (case csrf_cookie req of
        None \<Rightarrow> False
      | Some c \<Rightarrow> csrf_header req = Some c \<and> c \<noteq> [] \<and> hash_csrf_token hmac cfg c = Inr (csrf_token_hash r))"

definition session_proof :: "(string \<Rightarrow> string \<Rightarrow> string) \<Rightarrow> auth_settings \<Rightarrow> time \<Rightarrow> request \<Rightarrow> auth_db \<Rightarrow> account \<Rightarrow> bool" where
  "session_proof hmac cfg now req db a =
     (session_cookie req \<noteq> [] \<and>
      list_ex (\<lambda>r. bs_user_id r = user_id a \<and> hash_browser_session_token hmac cfg (session_cookie req) = Inr (token_hash r) \<and>
          bs_expires_at r > now \<and> (state_changing (request_method req) \<longrightarrow> form_proof hmac cfg req r))
        (browser_sessions db))"

definition auth_indexes :: "auth_db \<Rightarrow> bool" where
  "auth_indexes db =
     (distinct (map user_id (accounts db)) \<and> distinct (map hashed_token (accounts db)) \<and>
      distinct (map bs_id (browser_sessions db)) \<and> distinct (map token_hash (browser_sessions db)))"

lemma valid_csrf_iff: "valid_csrf hmac cfg r (csrf_cookie req) (csrf_header req) \<longleftrightarrow> form_proof hmac cfg req r"
proof -
  have "is_ascii c \<and> is_ascii h" if "hash_csrf_token hmac cfg c = Inr h" for c h
    using that hash_value_ascii [of hmac cfg c CSRF_HASH_DOMAIN h] by (auto simp: hash_csrf_token_def hash_value_def split: if_splits)
  then show ?thesis
    by (auto simp: valid_csrf_def form_proof_def constant_time_equal_def split: option.splits sum.splits)
qed

lemma bearer_user_id:
  assumes idx: "auth_indexes db"
  shows "(\<exists>u. fst (bearer_user sha cfg now (authorization req) db) = Inr u \<and> user_id u = i) \<longleftrightarrow>
    (\<exists>a \<in> set (accounts db). user_id a = i \<and> \<not> is_admin a \<and> \<not> is_suspended a \<and> bearer_proof sha cfg req a)"
proof (cases "extract_token (authorization req)")
  case (Inl e)
  then show ?thesis by (simp add: bearer_user_def bearer_proof_def)
next
  case (Inr token)
  let ?h = "hash_token sha (token_hash_key cfg) (normalize token)"
  have proof_iff: "bearer_proof sha cfg req a \<longleftrightarrow> hashed_token a = ?h" for a
    using Inr by (auto simp: bearer_proof_def verify_token_def)
  have again: "user_id (case get_account db' j of Some u \<Rightarrow> u | None \<Rightarrow> user) = j" if "user_id user = j" for user j db'
    using that by (auto simp: get_account_def split: option.splits dest: get_row_Some)
  show ?thesis
  proof (cases "List.find (\<lambda>u. hashed_token u = ?h \<and> \<not> is_admin u) (accounts db)")
    case None
    then have "\<forall>a \<in> set (accounts db). hashed_token a = ?h \<longrightarrow> is_admin a" by (auto simp: find_None_iff)
    then show ?thesis using Inr None by (auto simp: bearer_user_def proof_iff)
  next
    case (Some user)
    then have user: "user \<in> set (accounts db)" "hashed_token user = ?h" "\<not> is_admin user"
      by (auto simp: find_Some_iff)
    have one: "a = user" if "a \<in> set (accounts db)" "hashed_token a = ?h" for a
      using that user idx inj_onD [of hashed_token "set (accounts db)" a user] by (simp add: auth_indexes_def distinct_map)
    have rhs: "(\<exists>a \<in> set (accounts db). user_id a = i \<and> \<not> is_admin a \<and> \<not> is_suspended a \<and> bearer_proof sha cfg req a) \<longleftrightarrow>
        user_id user = i \<and> \<not> is_suspended user" unfolding proof_iff using one user by metis
    show ?thesis unfolding rhs bearer_user_def using Inr Some again by (simp add: Let_def)
  qed
qed

lemma browser_user_id:
  assumes idx: "auth_indexes db" and none: "authorization req = None"
  shows "(\<exists>u. fst (current_user sha hmac cfg now req db) = Inr u \<and> user_id u = i) \<longleftrightarrow>
    (\<exists>a \<in> set (accounts db). user_id a = i \<and> \<not> is_admin a \<and> \<not> is_suspended a \<and> session_proof hmac cfg now req db a)"
proof (cases "session_cookie req = [] \<or> (\<exists>e. hash_browser_session_token hmac cfg (session_cookie req) = Inl e)")
  case True
  then show ?thesis
    by (auto simp: current_user_def none optional_browser_session_def resolve_browser_session_def session_proof_def list_ex_iff)
next
  case False
  then obtain th where th: "hash_browser_session_token hmac cfg (session_cookie req) = Inr th" and ne: "session_cookie req \<noteq> []"
    by (cases "hash_browser_session_token hmac cfg (session_cookie req)") auto
  have asc: "is_ascii th" using hash_value_ascii th by (simp add: hash_browser_session_token_def)
  show ?thesis
  proof (cases "get_row token_hash th (browser_sessions db)")
    case None
    then have "th \<notin> token_hash ` set (browser_sessions db)" by (simp add: get_row_None)
    then show ?thesis using None th ne
      by (auto simp: current_user_def none optional_browser_session_def resolve_browser_session_def session_proof_def list_ex_iff)
  next
    case (Some r)
    then have r: "r \<in> set (browser_sessions db)" "token_hash r = th" by (auto dest: get_row_Some)
    have only: "s = r" if "s \<in> set (browser_sessions db)" "token_hash s = th" for s
      using that r idx by (auto simp: auth_indexes_def distinct_map dest: inj_onD)
    have sp: "session_proof hmac cfg now req db a \<longleftrightarrow> bs_user_id r = user_id a \<and> bs_expires_at r > now \<and>
        (state_changing (request_method req) \<longrightarrow> form_proof hmac cfg req r)" for a
      unfolding session_proof_def list_ex_iff th sum.inject using only r ne by metis
    have csrf: "valid_csrf hmac cfg (touch_session now r) (csrf_cookie req) (csrf_header req) \<longleftrightarrow> form_proof hmac cfg req r"
      by (simp add: valid_csrf_iff form_proof_def split: option.splits)
    have acc: "get_account db j = Some a \<longleftrightarrow> a \<in> set (accounts db) \<and> user_id a = j" for a j
      using idx by (simp add: get_account_def get_row_iff auth_indexes_def)
    show ?thesis
    proof (cases "get_account db (bs_user_id r)")
      case None
      then have "\<not> (\<exists>a \<in> set (accounts db). user_id a = bs_user_id r)"
        by (simp add: get_account_def get_row_None image_iff) metis
      then show ?thesis using None Some th ne r asc
        by (auto simp: current_user_def none optional_browser_session_def resolve_browser_session_def sp constant_time_equal_def)
    next
      case (Some user)
      then have user: "user \<in> set (accounts db)" "user_id user = bs_user_id r" by (auto simp: acc)
      have one: "a = user" if "a \<in> set (accounts db)" "user_id a = bs_user_id r" for a
        using that acc [of "bs_user_id r" a] Some by simp
      have rhs: "(\<exists>a \<in> set (accounts db). user_id a = i \<and> \<not> is_admin a \<and> \<not> is_suspended a \<and> session_proof hmac cfg now req db a) \<longleftrightarrow>
          bs_user_id r = i \<and> \<not> is_admin user \<and> \<not> is_suspended user \<and> now < bs_expires_at r \<and>
          (state_changing (request_method req) \<longrightarrow> form_proof hmac cfg req r)"
        unfolding sp using one user by metis
      show ?thesis
        unfolding rhs current_user_def optional_browser_session_def resolve_browser_session_def
        using none th ne asc r(2) user(2) csrf
        by (simp add: \<open>get_row token_hash th (browser_sessions db) = Some r\<close> Some constant_time_equal_def not_le)
    qed
  qed
qed


section \<open>Properties\<close>

text \<open>
  C20: who is authenticated. Under the unique indexes, a request is attributed to account \<open>i\<close> exactly when
  \<open>i\<close> is a customer that is not suspended and the request proves it: with an authorization header, by a
  bearer token whose normal form has the stored hash; without one, by the cookie of a session of that
  account that has not expired and, for every method that changes state, by the session's form token sent
  both as cookie and as header. The administrator is recognised exactly by the configured token.
\<close>

theorem authentication_exact:
  assumes idx: "auth_indexes db"
  shows "((\<exists>u. fst (current_user sha hmac cfg now req db) = Inr u \<and> user_id u = i) \<longleftrightarrow>
      (\<exists>a \<in> set (accounts db). user_id a = i \<and> \<not> is_admin a \<and> \<not> is_suspended a \<and>
        (if authorization req \<noteq> None then bearer_proof sha cfg req a else session_proof hmac cfg now req db a))) \<and>
    (current_admin cfg (authorization req) = Inr () \<longleftrightarrow> extract_token (authorization req) = Inr (ADMIN_TOKEN cfg)) \<and>
    (is_admin_token cfg (authorization req) \<longleftrightarrow> current_admin cfg (authorization req) = Inr ())"
proof (intro conjI)
  show "(\<exists>u. fst (current_user sha hmac cfg now req db) = Inr u \<and> user_id u = i) \<longleftrightarrow>
      (\<exists>a \<in> set (accounts db). user_id a = i \<and> \<not> is_admin a \<and> \<not> is_suspended a \<and>
        (if authorization req \<noteq> None then bearer_proof sha cfg req a else session_proof hmac cfg now req db a))"
  proof (cases "authorization req = None")
    case True
    then show ?thesis using browser_user_id [OF idx True] by simp
  next
    case False
    then show ?thesis using bearer_user_id [OF idx] by (simp add: current_user_def)
  qed
  show "(current_admin cfg (authorization req) = Inr ()) = (extract_token (authorization req) = Inr (ADMIN_TOKEN cfg))"
    by (simp add: current_admin_def is_exact_admin_token_def split: sum.splits)
  show "is_admin_token cfg (authorization req) = (current_admin cfg (authorization req) = Inr ())"
    by (simp add: is_admin_token_def current_admin_def extract_token_def is_exact_admin_token_def split: option.splits list.splits)
qed

definition session_request :: request where
  "session_request = \<lparr> authorization = None, request_method = ''POST'', session_cookie = ''a'', csrf_cookie = Some ''b'',
     csrf_header = Some ''b'' \<rparr>"

definition logged_in :: auth_db where
  "logged_in = snd (snd (session_step (\<lambda>k m. m) session_settings (0, Issue 1 ''token'' ''a'' ''b'') (0, fresh_db [session_user])))"

theorem authentication_exact_witness:
  "auth_indexes logged_in \<and>
   (\<exists>u. fst (current_user id (\<lambda>k m. m) session_settings 5 session_request logged_in) = Inr u \<and> user_id u = 1) \<and>
   (\<exists>a \<in> set (accounts logged_in). user_id a = 1 \<and> \<not> is_admin a \<and> \<not> is_suspended a \<and>
     session_proof (\<lambda>k m. m) session_settings 5 session_request logged_in a) \<and>
   fst (current_user id (\<lambda>k m. m) session_settings 5 (session_request\<lparr>csrf_header := None\<rparr>) logged_in) =
     Inl (HttpError 403 ''CSRF validation failed'')"
proof -
  have idx: "auth_indexes logged_in" by code_simp
  have "map_sum id user_id (fst (current_user id (\<lambda>k m. m) session_settings 5 session_request logged_in)) = Inr 1" by code_simp
  then have u: "\<exists>u. fst (current_user id (\<lambda>k m. m) session_settings 5 session_request logged_in) = Inr u \<and> user_id u = 1"
    by (cases "fst (current_user id (\<lambda>k m. m) session_settings 5 session_request logged_in)") simp_all
  have bad: "fst (current_user id (\<lambda>k m. m) session_settings 5 (session_request\<lparr>csrf_header := None\<rparr>) logged_in) =
     Inl (HttpError 403 ''CSRF validation failed'')" by code_simp
  have none: "authorization session_request = None" by (simp add: session_request_def)
  show ?thesis
    using authentication_exact [OF idx, of id "\<lambda>k m. m" session_settings 5 session_request 1] idx u bad none by simp
qed

end
