(* ===== verification/Agent_Orders.thy ===== *)
theory Agent_Orders
  imports Payment_Creation Order_Guarantees
begin

text \<open>
  Label-driven orders (\<^verbatim>\<open>services/agent_orders.py\<close>): an order key of an account names one subscription and
  its initial payment, however often the request is repeated. \<open>racing\<close> is what other sessions commit before
  the order is inserted, \<open>racing'\<close> before its payment is.
\<close>

section \<open>Model\<close>

record agent_order_spec =
  spec_product :: product_type
  spec_term :: billing_term
  spec_delivery :: delivery_mode
  spec_transport :: transport
  spec_domain :: "string option"
  spec_scope :: hostname_scope
  spec_referral :: "string option"

datatype agent_order_state = AWAITING_DOMAIN | AWAITING_PAYMENT | PAYMENT_PENDING | OrderACTIVE | ATTENTION_REQUIRED

record agent_order_result =
  res_order :: agent_order
  res_subscription :: subscription
  res_payment :: "payment option"
  res_state :: agent_order_state

definition compatible :: "agent_order \<Rightarrow> subscription \<Rightarrow> agent_order_spec \<Rightarrow> bool" where
  "compatible ord sub spec =
     (order_product ord = spec_product spec \<and> order_billing_term ord = spec_term spec \<and>
      order_delivery ord = spec_delivery spec \<and> order_transport ord = spec_transport spec \<and>
      order_domain ord = spec_domain spec \<and> order_scope ord = spec_scope spec \<and>
      sub_referral_address sub = spec_referral spec)"

definition load_order :: "database \<Rightarrow> int \<Rightarrow> string \<Rightarrow> agent_order option" where
  "load_order db uid key = List.find (\<lambda>ord. order_user_id ord = uid \<and> order_key ord = key) (agent_orders db)"

text \<open>The stored order with its subscription, where it fits the specification.\<close>

definition replay_order :: "agent_order \<Rightarrow> agent_order_spec \<Rightarrow> (agent_order \<times> subscription) comp" where
  "replay_order ord spec w =
     (case get_subscription (wdb w) (order_subscription_id ord) of
        None \<Rightarrow> raise (RuntimeError ''agent order subscription disappeared'') w
      | Some sub \<Rightarrow> if compatible ord sub spec then return (ord, sub) w else raise AgentOrderConflictError w)"

definition spec_request :: "agent_order_spec \<Rightarrow> order_request" where
  "spec_request spec = \<lparr> req_product = spec_product spec, req_domain = spec_domain spec,
     req_transport = spec_transport spec, req_delivery = spec_delivery spec, req_term = spec_term spec,
     req_scope = spec_scope spec, req_referral = spec_referral spec, req_exclude = None, req_additional = False \<rparr>"

definition new_agent_order :: "int \<Rightarrow> string \<Rightarrow> agent_order_spec \<Rightarrow> subscription \<Rightarrow> int \<Rightarrow> agent_order" where
  "new_agent_order uid key spec sub i = \<lparr> order_id = i, order_user_id = uid, order_key = key,
     order_subscription_id = sub_id sub, order_product = spec_product spec, order_billing_term = spec_term spec,
     order_delivery = spec_delivery spec, order_transport = spec_transport spec, order_domain = spec_domain spec,
     order_scope = spec_scope spec \<rparr>"

text \<open>The unique constraints of the table.\<close>

definition order_indexes :: "agent_order list \<Rightarrow> bool" where
  "order_indexes os =
     (distinct (map order_id os) \<and> distinct (map (\<lambda>ord. (order_user_id ord, order_key ord)) os) \<and>
      distinct (map order_subscription_id os))"

definition insert_agent_order :: "(int \<Rightarrow> agent_order) \<Rightarrow> database \<Rightarrow> error + agent_order \<times> database" where
  "insert_agent_order row db =
     (let ord = row (next_id db); os = agent_orders db @ [ord]
      in if order_indexes os then Inr (ord, db\<lparr>agent_orders := os, next_id := next_id db + 1\<rparr>)
         else Inl IntegrityError)"

text \<open>The \<^verbatim>\<open>except IntegrityError\<close> handler: the winner of the race is replayed.\<close>

definition after_order_conflict :: "int \<Rightarrow> string \<Rightarrow> agent_order_spec \<Rightarrow> (agent_order \<times> subscription) comp" where
  "after_order_conflict uid key spec w =
     (case load_order (wdb w) uid key of
        None \<Rightarrow> raise IntegrityError w
      | Some ord \<Rightarrow> replay_order ord spec w)"

text \<open>Subscription and order are committed together; when the order is refused both are rolled back.\<close>

definition create_order ::
  "settings \<Rightarrow> order_env \<Rightarrow> time \<Rightarrow> (database \<Rightarrow> database) \<Rightarrow> int \<Rightarrow> string \<Rightarrow> agent_order_spec \<Rightarrow> (agent_order \<times> subscription) comp" where
  "create_order cfg env now racing uid key spec w =
     (case check_order cfg env (spec_request spec) of
        Inl e \<Rightarrow> raise e w
      | Inr c \<Rightarrow>
          (case place_order cfg env now racing uid (spec_request spec) c (wdb w) of
             (Inl e, db) \<Rightarrow>
               if e = IntegrityError then after_order_conflict uid key spec (w\<lparr>wdb := db\<rparr>) else raise e (w\<lparr>wdb := db\<rparr>)
           | (Inr sub, db) \<Rightarrow>
               (case insert_agent_order (new_agent_order uid key spec sub) db of
                  Inl _ \<Rightarrow> after_order_conflict uid key spec (w\<lparr>wdb := racing (wdb w)\<rparr>)
                | Inr (ord, db') \<Rightarrow> return (ord, sub) (w\<lparr>wdb := db'\<rparr>))))"

definition get_or_create_order ::
  "settings \<Rightarrow> order_env \<Rightarrow> gateway \<Rightarrow> time \<Rightarrow> (database \<Rightarrow> database) \<Rightarrow> int \<Rightarrow> string \<Rightarrow> agent_order_spec \<Rightarrow>
    (agent_order \<times> subscription) comp" where
  "get_or_create_order cfg env gw now racing uid key spec =
     andthen (if spec_product spec = RELAY then reap_expired_domain_claims cfg gw now else return 0)
       (\<lambda>_ w. if get_user (wdb w) uid = None then raise (RuntimeError ''NoResultFound'') w
              else case load_order (wdb w) uid key of
                Some ord \<Rightarrow> replay_order ord spec w
              | None \<Rightarrow> create_order cfg env now racing uid key spec w)"

definition order_linked_payment :: "database \<Rightarrow> int \<Rightarrow> payment option" where
  "order_linked_payment db i = List.find (\<lambda>p. agent_order_id p = Some i) (payments db)"

definition result_state :: "subscription \<Rightarrow> payment option \<Rightarrow> agent_order_state" where
  "result_state sub pay =
     (if sub_status sub = SubACTIVE then OrderACTIVE
      else case pay of
        None \<Rightarrow> AWAITING_PAYMENT
      | Some p \<Rightarrow> if is_open (pay_status p) then PAYMENT_PENDING else ATTENTION_REQUIRED)"

definition order_wallet :: "settings \<Rightarrow> user \<Rightarrow> payment_method option" where
  "order_wallet cfg user =
     (if has_clink user \<and> is_payment_method_enabled cfg CLINK then Some CLINK
      else if has_nwc user \<and> is_payment_method_enabled cfg NWC then Some NWC
      else None)"

definition agent_payment_request :: "agent_order \<Rightarrow> subscription \<Rightarrow> payment_method \<Rightarrow> agent_order_spec \<Rightarrow> payment_request" where
  "agent_payment_request ord sub m spec = \<lparr> pr_subscription_id = sub_id sub, pr_method = m, pr_term = Some (spec_term spec),
     pr_agent_order_id = Some (order_id ord), pr_automatic_renewal = False \<rparr>"

text \<open>The body of the second \<^verbatim>\<open>try\<close> statement and its handler.\<close>

definition pay_order ::
  "settings \<Rightarrow> gateway \<Rightarrow> (nat \<Rightarrow> nat) \<Rightarrow> time \<Rightarrow> (database \<Rightarrow> database) \<Rightarrow> payment_method \<Rightarrow> agent_order \<Rightarrow> subscription \<Rightarrow>
    agent_order_spec \<Rightarrow> payment option \<Rightarrow> payment comp" where
  "pay_order cfg gw rnd now racing m ord sub spec pay =
     (case pay of
        None \<Rightarrow> create_payment cfg gw rnd now racing (agent_payment_request ord sub m spec)
      | Some p \<Rightarrow> if pay_status p = PENDING then check_and_settle_payment cfg gw now p else return p)"

definition settle_order ::
  "settings \<Rightarrow> gateway \<Rightarrow> (nat \<Rightarrow> nat) \<Rightarrow> time \<Rightarrow> (database \<Rightarrow> database) \<Rightarrow> payment_method \<Rightarrow> agent_order \<Rightarrow> subscription \<Rightarrow>
    agent_order_spec \<Rightarrow> payment option \<Rightarrow> agent_order_result comp" where
  "settle_order cfg gw rnd now racing m ord sub spec pay w =
     (case pay_order cfg gw rnd now racing m ord sub spec pay w of
        (Inl (PaymentProviderError e), w') \<Rightarrow>
          (case order_linked_payment (wdb w') (order_id ord) of
             None \<Rightarrow> (Inl (PaymentProviderError e), w')
           | Some p \<Rightarrow>
               (case get_subscription (wdb w') (order_subscription_id ord) of
                  None \<Rightarrow> (Inl (RuntimeError ''agent order subscription disappeared''), w')
                | Some s \<Rightarrow> (Inr \<lparr> res_order = ord, res_subscription = s, res_payment = Some p, res_state = PAYMENT_PENDING \<rparr>, w')))
      | (Inl e, w') \<Rightarrow> (Inl e, w')
      | (Inr p, w') \<Rightarrow>
          (case get_subscription (wdb w') (sub_id sub) of
             None \<Rightarrow> (Inl (RuntimeError ''InvalidRequestError''), w')
           | Some s \<Rightarrow> (Inr \<lparr> res_order = ord, res_subscription = s, res_payment = Some p, res_state = result_state s (Some p) \<rparr>, w')))"

text \<open>The early answers: \<open>None\<close> when the order goes on to its payment.\<close>

definition settled_state :: "subscription \<Rightarrow> payment option \<Rightarrow> agent_order_state option" where
  "settled_state sub pay =
     (if sub_status sub = SubACTIVE then Some OrderACTIVE
      else if sub_status sub \<noteq> SubPENDING then Some ATTENTION_REQUIRED
      else if product sub = RELAY \<and> \<not> domain_is_managed sub \<and> domain_verified_at sub = None then Some AWAITING_DOMAIN
      else case pay of
        Some p \<Rightarrow> if pay_status p \<in> {PAID, EXPIRED, FAILED} then Some ATTENTION_REQUIRED else None
      | None \<Rightarrow> None)"

definition continue_order ::
  "settings \<Rightarrow> gateway \<Rightarrow> (nat \<Rightarrow> nat) \<Rightarrow> time \<Rightarrow> (database \<Rightarrow> database) \<Rightarrow> user \<Rightarrow> agent_order_spec \<Rightarrow> agent_order \<times> subscription \<Rightarrow>
    agent_order_result comp" where
  "continue_order cfg gw rnd now racing user spec os w =
     (let ord = fst os; sub = snd os; pay = order_linked_payment (wdb w) (order_id ord);
          answer = (\<lambda>st. return \<lparr> res_order = ord, res_subscription = sub, res_payment = pay, res_state = st \<rparr> w)
      in case settled_state sub pay of
           Some st \<Rightarrow> answer st
         | None \<Rightarrow>
             (case order_wallet cfg user of
                None \<Rightarrow> answer (result_state sub pay)
              | Some m \<Rightarrow> settle_order cfg gw rnd now racing m ord sub spec pay w))"

definition put_agent_order ::
  "settings \<Rightarrow> order_env \<Rightarrow> gateway \<Rightarrow> (nat \<Rightarrow> nat) \<Rightarrow> time \<Rightarrow> (database \<Rightarrow> database) \<Rightarrow> (database \<Rightarrow> database) \<Rightarrow> user \<Rightarrow> string \<Rightarrow>
    agent_order_spec \<Rightarrow> agent_order_result comp" where
  "put_agent_order cfg env gw rnd now racing racing' user key spec =
     (if spec_product spec = IP
      then raise (ValueError ''Blindport IP is not supported for agent orders'')
      else andthen (get_or_create_order cfg env gw now racing (user_id user) key spec)
             (continue_order cfg gw rnd now racing' user spec))"

section \<open>What opening a payment does to the tables\<close>

definition opened :: "payment_request \<Rightarrow> database \<Rightarrow> database \<Rightarrow> bool" where
  "opened req db db' \<longleftrightarrow> (\<exists>p. payments db' = payments db @ [p] \<and> payment_indexes (payments db') \<and>
     agent_order_id p = pr_agent_order_id req \<and> pay_subscription_id p = pr_subscription_id req \<and>
     subscriptions db' = subscriptions db \<and> agent_orders db' = agent_orders db)"

text \<open>A run that opens one payment.\<close>

definition opens_payment :: "payment_request \<Rightarrow> world \<Rightarrow> world \<Rightarrow> bool" where
  "opens_payment req w w' \<longleftrightarrow> (\<exists>u v. pays_run w u \<and> opened req (wdb u) (wdb v) \<and> pays_run v w')"

text \<open>A run that opens at most one payment, and one that other sessions interrupt before.\<close>

definition opening_run :: "payment_request \<Rightarrow> world \<Rightarrow> world \<Rightarrow> bool" where
  "opening_run req w w' \<longleftrightarrow> pays_run w w' \<or> opens_payment req w w'"

definition paying_run :: "(database \<Rightarrow> database) \<Rightarrow> payment_request \<Rightarrow> world \<Rightarrow> world \<Rightarrow> bool" where
  "paying_run racing req w w' \<longleftrightarrow> pays_run w w' \<or>
     (\<exists>u. pays_run w u \<and> opening_run req (u\<lparr>wdb := racing (wdb u)\<rparr>) w')"

lemma opening_run_last: "opening_run req w u \<Longrightarrow> pays_run u w' \<Longrightarrow> opening_run req w w'"
  unfolding opening_run_def opens_payment_def using pays.R_trans by meson

lemma paying_run_first: "pays_run w u \<Longrightarrow> paying_run racing req u w' \<Longrightarrow> paying_run racing req w w'"
  unfolding paying_run_def using pays.R_trans by meson

lemma insert_opened:
  assumes "insert_payment (new_payment cfg now req t sub) db = Inr (p, db')" and "sub_id sub = pr_subscription_id req"
  shows "opened req db db' \<and> p \<in> set (payments db')"
  using assms by (auto simp: insert_payment_def opened_def new_payment_def Let_def split: if_splits)

text \<open>Writing the staged invoice into the new row.\<close>

lemma staged_run:
  assumes p: "p \<in> set (payments db)" and q: "pay_id q = pay_id p" "billing q = billing p" "pay_subscription_id q = pay_subscription_id p"
    and op: "is_open (pay_status p)"
  shows "pays_run (w\<lparr>wdb := db\<rparr>) (w\<lparr>wdb := set_payment (pay_id p) (\<lambda>_. q) db\<rparr>)"
proof -
  have "list_all2 pay_kept (payments db) (update_where (\<lambda>r. pay_id r = pay_id p) (\<lambda>_. q) (payments db))"
    if d: "distinct (map pay_id (payments db))"
  proof -
    have "pay_kept r (if pay_id r = pay_id p then q else r)" if "r \<in> set (payments db)" for r
    proof (cases "pay_id r = pay_id p")
      case True
      then have "r = p" using d p that by (auto simp: distinct_map dest: inj_onD)
      then show ?thesis using q op by (simp add: pay_kept_def)
    qed (simp add: pay_kept_def)
    then show ?thesis by (simp add: update_where_def list_all2_map2 list.rel_refl_strong)
  qed
  moreover have "names_shrink db (set_payment (pay_id p) (\<lambda>_. q) db)"
    using q map_update_where [of "\<lambda>r. pay_id r = pay_id p" pay_id "\<lambda>_. q" "payments db"]
    by (simp add: names_shrink_def set_payment_def get_subscription_def option.rel_refl)
  ultimately show ?thesis by (simp add: pays_run_def tables_distinct_def set_payment_def)
qed

lemma stage_payment_run:
  assumes run: "stage_payment_tx cfg gw rnd now req t sub db = Inr (p, db')" and sub: "sub_id sub = pr_subscription_id req"
  shows "\<exists>db1. opened req db db1 \<and> pays_run (w\<lparr>wdb := db1\<rparr>) (w\<lparr>wdb := db'\<rparr>)"
proof -
  from run obtain q db1 b db2 dl e q1 where ins: "insert_payment (new_payment cfg now req t sub) db = Inr (q, db1)"
    and res: "reserve_subscription_resource cfg rnd now sub (pay_id q) db1 = Inr (b, db2)"
    and bind: "bind_credential cfg (get_user db2 (sub_user_id (refresh db2 sub))) q = Inr q1"
    and stage: "stage_lightning_invoice cfg gw now q1 dl e = Inr p"
    and db': "db' = set_payment (pay_id q) (\<lambda>_. p) db2"
    by (auto simp: stage_payment_tx_def Let_def split: sum.splits if_splits)
  note o = insert_opened [OF ins sub]
  have rows: "rows_only db1 db2" by (rule reserve_rows [OF res])
  then have r1: "pays_run (w\<lparr>wdb := db1\<rparr>) (w\<lparr>wdb := db2\<rparr>)" using pays_rows [of "w\<lparr>wdb := db1\<rparr>" db2] by simp
  have q: "q \<in> set (payments db2)" using o rows by (simp add: rows_only_def)
  have "is_open (pay_status q)" using ins by (auto simp: insert_payment_def new_payment_def Let_def is_open_def split: if_splits)
  moreover have "pay_subscription_id p = pay_subscription_id q"
    using bind stage by (auto simp: bind_credential_def stage_lightning_invoice_def Let_def
        split: payment_method.splits option.splits if_splits sum.splits)
  ultimately have "pays_run (w\<lparr>wdb := db2\<rparr>) (w\<lparr>wdb := db'\<rparr>)"
    unfolding db' using bind_credential_billing [OF bind] stage_billing [OF stage] by (intro staged_run [OF q]) simp_all
  with o r1 pays.R_trans show ?thesis by blast
qed

lemma credited_upgrade_run:
  assumes run: "credited_upgrade_tx cfg gw rnd now initial req t sub db = Inr (p, db')" and sub: "sub_id sub = pr_subscription_id req"
  shows "\<exists>db1. opened req db db1 \<and> pays_run (w\<lparr>wdb := db1\<rparr>) (w\<lparr>wdb := db'\<rparr>)"
proof -
  from run obtain db1 b db2 where ins: "insert_payment (new_payment cfg now req t sub) db = Inr (p, db1)"
    and res: "reserve_subscription_resource cfg rnd now sub (pay_id p) db1 = Inr (b, db2)"
    and fin: "finalize_tx cfg (seal_identity gw) now (pay_id p) PENDING None db2 = Inr db'"
    by (auto simp: credited_upgrade_tx_def map_sum_Inr split: sum.splits if_splits)
  have "pays_run (w\<lparr>wdb := db1\<rparr>) (w\<lparr>wdb := db2\<rparr>)" using pays_rows [of "w\<lparr>wdb := db1\<rparr>" db2] reserve_rows [OF res] by simp
  moreover have "pays_run (w\<lparr>wdb := db2\<rparr>) (w\<lparr>wdb := db'\<rparr>)"
    using pays.R_tx [of cfg gw now "w\<lparr>wdb := db2\<rparr>" db'] tx_verified [OF fin] by simp
  ultimately show ?thesis using insert_opened [OF ins sub] pays.R_trans by blast
qed


text \<open>The insert commits nothing when it fails; otherwise the new row is there, whatever the provider does next.\<close>

lemma open_payment_cases:
  assumes sub: "sub_id sub = pr_subscription_id req"
  shows "(\<exists>e. open_payment cfg gw rnd now initial req t sub w = (Inl e, w)) \<or>
    (\<exists>db1. opened req (wdb w) db1 \<and> pays_run (w\<lparr>wdb := db1\<rparr>) (snd (open_payment cfg gw rnd now initial req t sub w)))"
proof -
  have rest: "pays.keeps (\<lambda>v. andthen (ensure_lightning_invoice cfg gw now p)
      (\<lambda>q. if pr_method req = NWC then reconcile_nwc_payment cfg gw now (finalize_payment 1 cfg gw now) q
           else if pr_method req = CLINK then reconcile_clink_payment cfg gw now (finalize_payment 1 cfg gw now) q
           else return q) v)" for p
    by (intro pays.keeps_andthen pays.keeps_ensure_lightning pays.keeps_if pays.keeps_reconcile_nwc
        pays.keeps_reconcile_clink pays.keeps_return allI pays.keeps_finalize)
  show ?thesis
  proof (cases "pt_service t - pt_discount t = 0")
    case True
    then show ?thesis
      using credited_upgrade_run [OF _ sub, of cfg gw rnd now initial t "wdb w" _ _ w]
      by (auto simp: open_payment_def commit_payment_def pays.snd_reload split: sum.splits)
  next
    case False
    show ?thesis
    proof (cases "stage_payment_tx cfg gw rnd now req t sub (wdb w)")
      case (Inl e)
      then show ?thesis using False by (simp add: open_payment_def commit_payment_def andthen_def)
    next
      case (Inr x)
      then obtain p db where x: "stage_payment_tx cfg gw rnd now req t sub (wdb w) = Inr (p, db)" by (cases x) simp
      obtain db1 where o: "opened req (wdb w) db1" and run: "pays_run (w\<lparr>wdb := db1\<rparr>) (w\<lparr>wdb := db\<rparr>)"
        using stage_payment_run [OF x sub] by blast
      have "pays_run (w\<lparr>wdb := db\<rparr>) (snd (open_payment cfg gw rnd now initial req t sub w))"
        using False x pays.keepsD [OF rest, of "w\<lparr>wdb := db\<rparr>"] pays.R_refl pays.snd_reload [of "pay_id p" "w\<lparr>wdb := db\<rparr>"]
        by (cases "reload_payment (pay_id p) (w\<lparr>wdb := db\<rparr>)") (auto simp: open_payment_def commit_payment_def andthen_def split: sum.splits)
      then show ?thesis using o pays.R_trans [OF run] by blast
    qed
  qed
qed

lemma open_payment_run:
  assumes sub: "sub_id sub = pr_subscription_id req"
  shows "opening_run req w (snd (open_payment cfg gw rnd now initial req t sub w))"
  using open_payment_cases [OF sub, of cfg gw rnd now initial t w] pays.R_refl [of w]
  unfolding opening_run_def opens_payment_def by fastforce

lemma open_or_resolve_run:
  assumes sub: "sub_id sub = pr_subscription_id req"
  shows "paying_run racing req w (snd (open_or_resolve cfg gw rnd now racing initial req t sub w))"
proof -
  let ?u = "w\<lparr>wdb := racing (wdb w)\<rparr>"
  obtain r and v :: world where v: "open_payment cfg gw rnd now initial req t sub ?u = (r, v)" by (rule prod.exhaust)
  have "opening_run req ?u v" using open_payment_run [OF sub, of ?u] v by (metis snd_conv)
  moreover have "pays_run v (snd (open_or_resolve cfg gw rnd now racing initial req t sub w))"
    using v pays.keepsD [OF keeps_after_conflict] pays.R_refl by (auto simp: open_or_resolve_def split: sum.splits)
  ultimately show ?thesis unfolding paying_run_def using opening_run_last pays.R_refl by blast
qed

lemma refresh_id: "sub_id (refresh db sub) = sub_id sub"
  by (simp add: refresh_def split: option.splits) (auto dest: get_subscription_id)

lemma price_and_open_run:
  "sub_id sub = pr_subscription_id req \<Longrightarrow> paying_run racing req w (snd (price_and_open cfg gw rnd now racing initial req tm sub w))"
  using open_or_resolve_run [of "refresh (wdb w) sub" req] pays.R_refl
  by (auto simp: price_and_open_def Let_def raise_def refresh_id paying_run_def split: option.splits sum.splits)

lemma andthen_paying:
  assumes "pays.keeps m" and "\<And>x v. paying_run racing req v (snd (k x v))"
  shows "paying_run racing req w (snd (andthen m k w))"
proof -
  obtain x and v :: world where m: "m w = (x, v)" by (rule prod.exhaust)
  have run: "pays_run w v" using pays.keepsD [OF assms(1), of w] m by simp
  show ?thesis
  proof (cases x)
    case (Inl e)
    then show ?thesis using m run by (simp add: andthen_def paying_run_def)
  next
    case (Inr y)
    then show ?thesis using m paying_run_first [OF run assms(2) [of v y]] by (simp add: andthen_def)
  qed
qed

lemma fresh_payment_run:
  assumes sub: "sub_id sub = pr_subscription_id req"
  shows "paying_run racing req w (snd (fresh_payment cfg gw rnd now racing initial req tm sub w))"
proof -
  have stop: "paying_run racing req w w" by (simp add: paying_run_def pays.R_refl)
  have tail: "paying_run racing req w (snd (andthen (reap_elapsed_resource_holds cfg gw now)
      (\<lambda>_. price_and_open cfg gw rnd now racing initial req tm s) (w\<lparr>wdb := db\<rparr>)))"
    if "row_tx (wdb w) db" and "sub_id s = sub_id sub" for s db
    by (rule paying_run_first [OF pays.R_rows [OF that(1)]])
      (rule andthen_paying [OF pays.keeps_holds], rule price_and_open_run, simp add: that(2) sub)
  show ?thesis
  proof (cases "account_checks cfg tm sub (wdb w)")
    case (Inl e)
    then show ?thesis using stop by (simp add: fresh_payment_def raise_def)
  next
    case (Inr s)
    then have id: "sub_id s = sub_id sub"
      by (auto simp: account_checks_def Let_def refresh_id split: option.splits if_splits)
    show ?thesis
    proof (cases "expire_elapsed_subscriptions cfg (seal_identity gw) now [s] (wdb w)")
      case (Inl e)
      then show ?thesis using stop \<open>account_checks cfg tm sub (wdb w) = Inr s\<close> by (simp add: fresh_payment_def raise_def)
    next
      case (Inr y)
      obtain rs db where y: "y = (rs, db)" by (rule prod.exhaust)
      show ?thesis
        using tail [OF expire_elapsed_rows [OF Inr [unfolded y]] id] Inr y \<open>account_checks cfg tm sub (wdb w) = Inr s\<close>
        by (simp add: fresh_payment_def)
    qed
  qed
qed

text \<open>The order named by the request belongs to its subscription.\<close>

definition order_fits :: "payment_request \<Rightarrow> database \<Rightarrow> bool" where
  "order_fits req db \<longleftrightarrow> (\<forall>i. pr_agent_order_id req = Some i \<longrightarrow>
     (\<exists>ord \<in> set (agent_orders db). order_id ord = i \<and> order_subscription_id ord = pr_subscription_id req))"

lemma create_payment_run:
  "pays_run w (snd (create_payment cfg gw rnd now racing req w)) \<or>
   (\<exists>v. pays_run w v \<and> order_fits req (wdb v) \<and> paying_run racing req v (snd (create_payment cfg gw rnd now racing req w)))"
proof -
  obtain x and v :: world where v: "reap_expired_domain_claims cfg gw now w = (x, v)" by (rule prod.exhaust)
  have run: "pays_run w v" using pays.keepsD [OF pays.keeps_reap, of w cfg gw now] v by simp
  have flow: "paying_run racing req v (snd (andthen (reconcile_existing cfg gw now req tm (open_payments (wdb v) (sub_id sub)))
      (\<lambda>existing. case existing of Some p \<Rightarrow> return p | None \<Rightarrow> fresh_payment cfg gw rnd now racing initial req tm sub) v))"
    if "sub_id sub = pr_subscription_id req" for tm initial sub
    using fresh_payment_run [OF that] pays.R_refl
    by (intro andthen_paying keeps_reconcile_existing) (simp add: return_def paying_run_def split: option.splits)
  have fits: "order_fits req (wdb v)" if "initial_checks req tm sub (wdb v) = None" "sub_id sub = pr_subscription_id req" for tm sub
    using that by (auto simp: initial_checks_def order_fits_def list_ex_iff split: if_splits option.splits)
  have linked: "pays_run w (snd (linked_payment cfg gw now req tm p v))" for tm p
    using pays.R_trans [OF run pays.keepsD [OF keeps_linked_payment]] .
  have w: "pays_run w w" by (rule pays.R_refl)
  show ?thesis
    using run flow fits linked w v get_subscription_id [of "wdb v" "pr_subscription_id req"]
    by (auto simp: create_payment_def raise_def andthen_def [of "reap_expired_domain_claims cfg gw now"] Let_def
        split: option.splits sum.splits)
qed

section \<open>Orders over a history\<close>

text \<open>Every order names a subscription of its account, and the payments of an order are for that subscription.\<close>

definition orders_ok :: "database \<Rightarrow> bool" where
  "orders_ok db \<longleftrightarrow> tables_distinct db \<and> order_indexes (agent_orders db) \<and> unique_on agent_order_id (payments db) \<and>
     (\<forall>ord \<in> set (agent_orders db). \<exists>s. get_subscription db (order_subscription_id ord) = Some s \<and>
        sub_user_id s = order_user_id ord) \<and>
     (\<forall>p \<in> set (payments db). \<forall>i. agent_order_id p = Some i \<longrightarrow>
        (\<exists>ord \<in> set (agent_orders db). order_id ord = i \<and> order_subscription_id ord = pay_subscription_id p))"

definition payment_links :: "database \<Rightarrow> (int \<times> int \<times> int option) list" where
  "payment_links db = map (\<lambda>p. (pay_id p, pay_subscription_id p, agent_order_id p)) (payments db)"

text \<open>Orders, subscriptions and the links of payments are only added, and the invariant is kept.\<close>

definition orders_grow :: "database \<Rightarrow> database \<Rightarrow> bool" where
  "orders_grow db db' \<longleftrightarrow> (orders_ok db \<longrightarrow> orders_ok db' \<and>
     (\<exists>os. agent_orders db' = agent_orders db @ os) \<and> (\<exists>ls. payment_links db' = payment_links db @ ls) \<and>
     (\<exists>is. map sub_id (subscriptions db') = map sub_id (subscriptions db) @ is))"

lemma orders_grow_refl [simp]: "orders_grow db db"
  by (simp add: orders_grow_def)

lemma orders_grow_trans: "orders_grow a b \<Longrightarrow> orders_grow b c \<Longrightarrow> orders_grow a c"
  unfolding orders_grow_def by auto

lemma pays_run_links:
  assumes "pays_run w w'" and "tables_distinct (wdb w)"
  shows "payment_links (wdb w') = payment_links (wdb w)" "agent_orders (wdb w') = agent_orders (wdb w)"
    "map sub_id (subscriptions (wdb w')) = map sub_id (subscriptions (wdb w))" "tables_distinct (wdb w')"
proof -
  have ps: "list_all2 pay_kept (payments (wdb w)) (payments (wdb w'))" using assms by (simp add: pays_run_def)
  show "payment_links (wdb w') = payment_links (wdb w)"
    unfolding payment_links_def by (rule list_all2_map_eq [OF ps]) (simp add: pay_kept_def billing_def)
  show "agent_orders (wdb w') = agent_orders (wdb w)" "map sub_id (subscriptions (wdb w')) = map sub_id (subscriptions (wdb w))"
    using assms by (simp_all add: pays_run_def names_shrink_def)
  show "tables_distinct (wdb w')" using assms tables_distinct_shrink by (auto simp: pays_run_def)
qed

lemma pays_run_grow:
  assumes run: "pays_run w w'" shows "orders_grow (wdb w) (wdb w')"
  unfolding orders_grow_def
proof (intro impI)
  assume ok: "orders_ok (wdb w)"
  then have d: "tables_distinct (wdb w)" by (simp add: orders_ok_def)
  then have sh: "names_shrink (wdb w) (wdb w')" and ps: "list_all2 pay_kept (payments (wdb w)) (payments (wdb w'))"
    and os: "agent_orders (wdb w') = agent_orders (wdb w)" using run by (simp_all add: pays_run_def)
  have link: "agent_order_id p' = agent_order_id p \<and> pay_subscription_id p' = pay_subscription_id p \<and> pay_id p' = pay_id p"
    if "pay_kept p p'" for p p' using that by (simp add: pay_kept_def billing_def)
  have links: "payment_links (wdb w') = payment_links (wdb w)" by (rule pays_run_links(1) [OF run d])
  have "unique_on agent_order_id (payments (wdb w'))"
    by (rule unique_on_kept [OF ps]) (use ok link in \<open>auto simp: orders_ok_def\<close>)
  moreover have "\<exists>s. get_subscription (wdb w') i = Some s \<and> sub_user_id s = u"
    if "\<exists>s. get_subscription (wdb w) i = Some s \<and> sub_user_id s = u" for i u
  proof -
    have "rel_option name_shrunk (get_subscription (wdb w) i) (get_subscription (wdb w') i)" using sh by (simp add: names_shrink_def)
    then show ?thesis using that by (auto simp: option_rel_Some1 name_shrunk_def)
  qed
  moreover have "\<exists>p \<in> set (payments (wdb w)). agent_order_id p' = agent_order_id p \<and> pay_subscription_id p' = pay_subscription_id p"
    if "p' \<in> set (payments (wdb w'))" for p'
    using that ps link by (metis list_all2_conv_all_nth in_set_conv_nth)
  ultimately have "orders_ok (wdb w')"
    using ok os tables_distinct_shrink [OF d sh] unfolding orders_ok_def by metis
  then show "orders_ok (wdb w') \<and> (\<exists>x. agent_orders (wdb w') = agent_orders (wdb w) @ x) \<and>
      (\<exists>ls. payment_links (wdb w') = payment_links (wdb w) @ ls) \<and>
      (\<exists>is. map sub_id (subscriptions (wdb w')) = map sub_id (subscriptions (wdb w)) @ is)"
    using os links sh by (simp add: names_shrink_def)
qed

lemma opened_grow:
  assumes "opened req db db'" and fits: "order_fits req db" shows "orders_grow db db'"
proof -
  from assms(1) obtain p where p: "payments db' = payments db @ [p]" "payment_indexes (payments db')"
    "agent_order_id p = pr_agent_order_id req" "pay_subscription_id p = pr_subscription_id req"
    and same: "subscriptions db' = subscriptions db" "agent_orders db' = agent_orders db"
    by (auto simp: opened_def)
  have "orders_ok db'" if ok: "orders_ok db"
    using ok p fits unfolding orders_ok_def tables_distinct_def order_fits_def get_subscription_def same payment_indexes_def
    by auto
  then show ?thesis by (simp add: orders_grow_def payment_links_def p(1) same)
qed

lemma fits_grow: "orders_grow db db' \<Longrightarrow> orders_ok db \<Longrightarrow> order_fits req db \<Longrightarrow> order_fits req db'"
  unfolding orders_grow_def order_fits_def by fastforce

lemma opening_run_grow:
  assumes run: "opening_run req w w'" and fits: "order_fits req (wdb w)" shows "orders_grow (wdb w) (wdb w')"
proof (cases "orders_ok (wdb w)")
  case True
  from run consider "pays_run w w'" | u v where "pays_run w u" "opened req (wdb u) (wdb v)" "pays_run v w'"
    by (auto simp: opening_run_def opens_payment_def)
  then show ?thesis
  proof cases
    case 2
    then show ?thesis
      using pays_run_grow [OF 2(1)] opened_grow [OF 2(2) fits_grow [OF pays_run_grow [OF 2(1)] True fits]]
        pays_run_grow [OF 2(3)] orders_grow_trans by blast
  qed (rule pays_run_grow)
qed (simp add: orders_grow_def)

lemma create_payment_grow:
  assumes rac: "\<And>db. orders_grow db (racing db)"
  shows "orders_grow (wdb w) (wdb (snd (create_payment cfg gw rnd now racing req w)))"
proof (cases "orders_ok (wdb w)")
  case True
  let ?w = "snd (create_payment cfg gw rnd now racing req w)"
  from create_payment_run [of w cfg gw rnd now racing req] show ?thesis
  proof (elim disjE exE conjE)
    fix v assume v: "pays_run w v" "order_fits req (wdb v)" and "paying_run racing req v ?w"
    then consider "pays_run v ?w" | u where "pays_run v u" "opening_run req (u\<lparr>wdb := racing (wdb u)\<rparr>) ?w"
      by (auto simp: paying_run_def)
    then show ?thesis
    proof cases
      case 2
      have g: "orders_grow (wdb v) (racing (wdb u))" using orders_grow_trans [OF pays_run_grow [OF 2(1)] rac] .
      have "orders_ok (wdb v)" using pays_run_grow [OF v(1)] True by (simp add: orders_grow_def)
      then have "order_fits req (racing (wdb u))" using fits_grow [OF g] v(2) by blast
      then have "orders_grow (racing (wdb u)) (wdb ?w)" using opening_run_grow [OF 2(2)] by simp
      then show ?thesis using orders_grow_trans [OF pays_run_grow [OF v(1)] orders_grow_trans [OF g]] by blast
    qed (use v(1) pays_run_grow orders_grow_trans in blast)
  qed (rule pays_run_grow)
qed (simp add: orders_grow_def)


lemma get_row_append_old: "get_row key k rs = Some r \<Longrightarrow> get_row key k (rs @ rs') = Some r"
  by (induction rs) (auto simp: get_row_def split: if_splits)

lemma add_subscription_grow:
  assumes "subscriptions db' = subscriptions db @ [sub]" and "distinct (map sub_id (subscriptions db'))"
    and "payments db' = payments db" and "agent_orders db' = agent_orders db"
  shows "orders_grow db db'"
proof -
  have "orders_ok db'" if ok: "orders_ok db"
    using ok assms get_row_append_old [of sub_id _ "subscriptions db" _ "[sub]"]
    unfolding orders_ok_def tables_distinct_def get_subscription_def by fastforce
  then show ?thesis by (simp add: orders_grow_def payment_links_def assms)
qed

lemma place_order_grow:
  assumes rac: "\<And>db. orders_grow db (racing db)"
  shows "orders_grow db (snd (place_order cfg env now racing uid req c db))"
proof -
  have ins: "orders_grow db (snd (insert_order racing row db))" for row
  proof (cases "subscription_indexes (subscriptions (racing db) @ [row (next_id (racing db))])")
    case True
    have "orders_grow (racing db) (snd (insert_order racing row db))"
      by (rule add_subscription_grow [where sub = "row (next_id (racing db))"])
        (use True in \<open>simp_all add: insert_order_def Let_def subscription_indexes_def\<close>)
    then show ?thesis using orders_grow_trans [OF rac] by blast
  qed (use rac in \<open>simp add: insert_order_def Let_def\<close>)
  show ?thesis using ins by (simp add: place_order_def split: sum.splits)
qed

lemma upgrade_tx_grow: "orders_grow db (snd (upgrade_tx cfg env now id uid source_id term db))"
proof (cases "tables_distinct db")
  case True
  show ?thesis
  proof (cases "upgrade_tx cfg env now id uid source_id term db")
    case (Pair res db')
    show ?thesis
    proof (cases res)
      case (Inl e)
      then have "db' = db"
        using Pair by (auto simp: upgrade_tx_def place_order_def insert_order_def Let_def
            split: sum.splits if_splits option.splits prod.splits)
      then show ?thesis using Pair by simp
    next
      case (Inr target)
      then have run: "upgrade_tx cfg env now id uid source_id term db = (Inr target, db')" using Pair by simp
      have "distinct (map sub_id (subscriptions db))" using True by (simp add: tables_distinct_def)
      from upgrade_tx_result [OF this run] have
        db': "db' = db\<lparr>subscriptions := subscriptions db @ [target], next_id := next_id db + 1\<rparr>"
        and idx: "subscription_indexes (subscriptions db')" by metis+
      show ?thesis using Pair idx add_subscription_grow [of db' db target] by (simp add: db' subscription_indexes_def)
    qed
  qed
qed (simp add: orders_grow_def orders_ok_def)

lemma keeps_grow: "pays.keeps f \<Longrightarrow> orders_grow (wdb w) (wdb (snd (f w)))"
  using pays_run_grow pays.keepsD by blast

lemma andthen_grow:
  assumes "orders_grow (wdb w) (wdb (snd (m w)))" and "\<And>x v. orders_grow (wdb v) (wdb (snd (k x v)))"
  shows "orders_grow (wdb w) (wdb (snd (andthen m k w)))"
  using assms orders_grow_trans by (cases "m w") (auto simp: andthen_def split: sum.splits)

lemma create_subscription_grow: "orders_grow (wdb w) (wdb (snd (create_subscription cfg env gw now id uid req w)))"
proof (cases "check_order cfg env req")
  case (Inr c)
  have keep: "pays.keeps (if req_product req = RELAY then reap_expired_domain_claims cfg gw now else return 0)"
    by (simp add: pays.keeps_reap pays.keeps_return)
  have "orders_grow (wdb w) (wdb (snd (andthen (if req_product req = RELAY then reap_expired_domain_claims cfg gw now else return 0)
      (\<lambda>_ w. case place_order cfg env now id uid req c (wdb w) of (result, db) \<Rightarrow> (result, w\<lparr>wdb := db\<rparr>)) w)))"
    by (rule andthen_grow [OF keeps_grow [OF keep]])
      (use place_order_grow [of id] in \<open>simp add: case_prod_unfold\<close>)
  then show ?thesis using Inr by (simp add: create_subscription_def)
qed (simp add: create_subscription_def raise_def)

lemma upgrade_grow: "orders_grow (wdb w) (wdb (snd (create_wildcard_upgrade cfg env gw now id uid source_id term w)))"
  unfolding create_wildcard_upgrade_def
  by (rule andthen_grow [OF keeps_grow [OF pays.keeps_reap]]) (use upgrade_tx_grow in \<open>simp add: case_prod_unfold\<close>)

lemma order_step_grow: "order_step cfg w w' \<Longrightarrow> orders_grow (wdb w) (wdb w')"
  by (cases rule: order_step.cases)
    (use keeps_grow [OF pays.keeps_check_and_settle] keeps_grow [OF pays.keeps_reap]
      keeps_grow [OF pays.keeps_verify] keeps_grow [OF pays.keeps_cancel] keeps_grow [OF pays.keeps_holds]
      create_subscription_grow upgrade_grow in auto)

lemma replay_db: "snd (replay_order ord spec w) = w"
  by (simp add: replay_order_def raise_def return_def split: option.splits)

lemma after_order_conflict_db: "snd (after_order_conflict uid key spec w) = w"
  by (simp add: after_order_conflict_def replay_db raise_def split: option.splits)

lemma insert_agent_order_grow:
  assumes "insert_agent_order (new_agent_order uid key spec sub) db = Inr (ord, db')"
    and "get_subscription db (sub_id sub) = Some sub" and "sub_user_id sub = uid"
  shows "orders_grow db db'"
proof -
  have "orders_ok db'" if "orders_ok db"
    using that assms by (auto simp: insert_agent_order_def orders_ok_def new_agent_order_def tables_distinct_def
        get_subscription_def Let_def split: if_splits)
  then show ?thesis using assms by (auto simp: orders_grow_def insert_agent_order_def payment_links_def Let_def split: if_splits)
qed


lemma place_order_row:
  assumes "place_order cfg env now racing uid req c db = (Inr sub, db')"
  shows "db' = (racing db)\<lparr>subscriptions := subscriptions (racing db) @ [sub], next_id := next_id (racing db) + 1\<rparr> \<and>
    subscription_indexes (subscriptions db') \<and> sub_user_id sub = uid \<and> product sub = req_product req \<and>
    sub_referral_address sub = ord_referral c \<and> sub_status sub = SubPENDING"
  using assms
  by (auto simp: place_order_def order_row_def insert_order_def new_subscription_def Let_def map_sum_Inr
      split: sum.splits if_splits option.splits)

lemma create_order_grow:
  assumes rac: "\<And>db. orders_grow db (racing db)"
  shows "orders_grow (wdb w) (wdb (snd (create_order cfg env now racing uid key spec w)))"
proof (cases "check_order cfg env (spec_request spec)")
  case (Inr c)
  obtain x db where p: "place_order cfg env now racing uid (spec_request spec) c (wdb w) = (x, db)" by (rule prod.exhaust)
  have g: "orders_grow (wdb w) db" using place_order_grow [OF rac, where db = "wdb w"] p by (metis snd_conv)
  show ?thesis
  proof (cases x)
    case (Inl e)
    then show ?thesis using Inr p g by (simp add: create_order_def after_order_conflict_db raise_def)
  next
    case (Inr sub)
    note row = place_order_row [OF p [unfolded Inr]]
    have found: "get_subscription db (sub_id sub) = Some sub"
      using row get_row_unique [of sub_id "subscriptions db" sub] by (auto simp: get_subscription_def subscription_indexes_def)
    show ?thesis
    proof (cases "insert_agent_order (new_agent_order uid key spec sub) db")
      case (Inl e)
      then show ?thesis using \<open>check_order cfg env (spec_request spec) = Inr c\<close> p Inr rac
        by (simp add: create_order_def after_order_conflict_db)
    next
      case (Inr y)
      obtain ord db' where y: "y = (ord, db')" by (rule prod.exhaust)
      have "orders_grow db db'" using insert_agent_order_grow [OF Inr [unfolded y] found] row by simp
      then show ?thesis
        using \<open>check_order cfg env (spec_request spec) = Inr c\<close> p \<open>x = Inr sub\<close> Inr y orders_grow_trans [OF g]
        by (simp add: create_order_def return_def)
    qed
  qed
qed (simp add: create_order_def raise_def)

lemma get_or_create_grow:
  assumes rac: "\<And>db. orders_grow db (racing db)"
  shows "orders_grow (wdb w) (wdb (snd (get_or_create_order cfg env gw now racing uid key spec w)))"
proof -
  have keep: "pays.keeps (if spec_product spec = RELAY then reap_expired_domain_claims cfg gw now else return 0)"
    by (simp add: pays.keeps_reap pays.keeps_return)
  show ?thesis unfolding get_or_create_order_def
    by (rule andthen_grow [OF keeps_grow [OF keep]])
      (use create_order_grow [OF rac] in \<open>simp add: raise_def replay_db split: option.splits\<close>)
qed

lemma continue_order_grow:
  assumes rac: "\<And>db. orders_grow db (racing db)"
  shows "orders_grow (wdb w) (wdb (snd (continue_order cfg gw rnd now racing user spec os w)))"
proof -
  have pay: "orders_grow (wdb w) (wdb (snd (pay_order cfg gw rnd now racing m ord sub spec pay w)))" for m ord sub pay
    using create_payment_grow [OF rac] keeps_grow [OF pays.keeps_check_and_settle]
    by (simp add: pay_order_def return_def split: option.splits)
  have "snd (settle_order cfg gw rnd now racing m ord sub spec pay w) = snd (pay_order cfg gw rnd now racing m ord sub spec pay w)"
    for m ord sub pay
    by (auto simp: settle_order_def split: prod.splits sum.splits error.splits option.splits)
  then show ?thesis using pay by (auto simp: continue_order_def Let_def return_def split: option.splits)
qed

lemma put_agent_order_grow:
  assumes "\<And>db. orders_grow db (racing db)" and "\<And>db. orders_grow db (racing' db)"
  shows "orders_grow (wdb w) (wdb (snd (put_agent_order cfg env gw rnd now racing racing' user key spec w)))"
proof (cases "spec_product spec = IP")
  case False
  have "orders_grow (wdb w) (wdb (snd (andthen (get_or_create_order cfg env gw now racing (user_id user) key spec)
      (continue_order cfg gw rnd now racing' user spec) w)))"
    by (rule andthen_grow) (rule get_or_create_grow [OF assms(1)], rule continue_order_grow [OF assms(2)])
  then show ?thesis using False by (simp add: put_agent_order_def)
qed (simp add: put_agent_order_def raise_def)


text \<open>
  Histories of agent orders among all other operations; what other sessions commit in the middle of an
  order is itself such a history.
\<close>

inductive agent_step :: "settings \<Rightarrow> world \<Rightarrow> world \<Rightarrow> bool" for cfg where
  other: "order_step cfg w w' \<Longrightarrow> agent_step cfg w w'"
| pay: "(\<And>v. \<exists>cs. (agent_step cfg)\<^sup>*\<^sup>* v (v\<lparr>wdb := racing (wdb v), calls := cs\<rparr>)) \<Longrightarrow>
    agent_step cfg w (snd (create_payment cfg gw rnd now racing req w))"
| put: "(\<And>v. \<exists>cs. (agent_step cfg)\<^sup>*\<^sup>* v (v\<lparr>wdb := racing (wdb v), calls := cs\<rparr>)) \<Longrightarrow>
    (\<And>v. \<exists>cs. (agent_step cfg)\<^sup>*\<^sup>* v (v\<lparr>wdb := racing' (wdb v), calls := cs\<rparr>)) \<Longrightarrow>
    agent_step cfg w (snd (put_agent_order cfg env gw rnd now racing racing' user key spec w))"

lemma racing_grow:
  assumes "\<And>v. \<exists>cs. (\<lambda>a b. agent_step cfg a b \<and> orders_grow (wdb a) (wdb b))\<^sup>*\<^sup>* v (v\<lparr>wdb := racing (wdb v), calls := cs\<rparr>)"
  shows "orders_grow db (racing db)"
proof -
  have run: "orders_grow (wdb v) (wdb v')" if "(\<lambda>a b. agent_step cfg a b \<and> orders_grow (wdb a) (wdb b))\<^sup>*\<^sup>* v v'" for v v'
    using that by (induction rule: rtranclp_induct) (auto intro: orders_grow_trans)
  from assms [of "\<lparr>wdb = db, calls = []\<rparr>"] show ?thesis by (auto dest!: run)
qed

lemma agent_step_grow: "agent_step cfg w w' \<Longrightarrow> orders_grow (wdb w) (wdb w')"
proof (induction rule: agent_step.induct)
  case (other w w')
  then show ?case by (rule order_step_grow)
next
  case (pay racing w gw rnd now req)
  show ?case by (rule create_payment_grow, rule racing_grow) (rule pay)
next
  case (put racing racing' w env gw rnd now user key spec)
  show ?case by (rule put_agent_order_grow; rule racing_grow) (rule put)+
qed

interpretation agent_run: monotone_system "agent_step cfg" "\<lambda>w. orders_ok (wdb w)" "\<lambda>w w'. orders_grow (wdb w) (wdb w')" for cfg
proof
  show "orders_ok (wdb w')" if "orders_ok (wdb w)" "agent_step cfg w w'" for w w'
    using agent_step_grow [OF that(2)] that(1) by (simp add: orders_grow_def)
qed (auto intro: orders_grow_trans agent_step_grow)


section \<open>Replaying an order\<close>

lemma linked_none:
  "order_linked_payment db i = None \<longleftrightarrow> (\<forall>l \<in> set (payment_links db). snd (snd l) \<noteq> Some i)"
  by (auto simp: order_linked_payment_def find_None_iff payment_links_def)

text \<open>What a request does to the tables when no session interrupts it: at most one linked payment is added.\<close>

definition order_effect :: "int \<Rightarrow> int \<Rightarrow> database \<Rightarrow> database \<Rightarrow> bool" where
  "order_effect i sid db db' \<longleftrightarrow> agent_orders db' = agent_orders db \<and>
     map sub_id (subscriptions db') = map sub_id (subscriptions db) \<and>
     (payment_links db' = payment_links db \<or>
      order_linked_payment db i = None \<and> (\<exists>pid. payment_links db' = payment_links db @ [(pid, sid, Some i)]))"

text \<open>The tables after at most one payment was opened for a request.\<close>

definition links_added :: "int \<Rightarrow> int option \<Rightarrow> database \<Rightarrow> database \<Rightarrow> bool" where
  "links_added sid order db db' \<longleftrightarrow> agent_orders db' = agent_orders db \<and>
     map sub_id (subscriptions db') = map sub_id (subscriptions db) \<and> tables_distinct db' \<and>
     (payment_links db' = payment_links db \<or> (\<exists>pid. payment_links db' = payment_links db @ [(pid, sid, order)]))"

lemma pays_run_added:
  "pays_run w w' \<Longrightarrow> tables_distinct (wdb w) \<Longrightarrow> links_added sid order (wdb w') db' \<Longrightarrow> links_added sid order (wdb w) db'"
  using pays_run_links [of w w'] by (simp add: links_added_def)

lemma opens_link:
  assumes run: "opens_payment req w w'" and d: "tables_distinct (wdb w)"
  shows "\<exists>pid. payment_links (wdb w') = payment_links (wdb w) @ [(pid, pr_subscription_id req, pr_agent_order_id req)]"
    and "agent_orders (wdb w') = agent_orders (wdb w) \<and> map sub_id (subscriptions (wdb w')) = map sub_id (subscriptions (wdb w)) \<and>
      tables_distinct (wdb w')"
proof -
  from run obtain u v where 2: "pays_run w u" "opened req (wdb u) (wdb v)" "pays_run v w'" by (auto simp: opens_payment_def)
  note u = pays_run_links [OF 2(1) d]
  from 2(2) obtain p where p: "payments (wdb v) = payments (wdb u) @ [p]" "payment_indexes (payments (wdb v))"
    "agent_order_id p = pr_agent_order_id req" "pay_subscription_id p = pr_subscription_id req"
    and same: "subscriptions (wdb v) = subscriptions (wdb u)" "agent_orders (wdb v) = agent_orders (wdb u)"
    by (auto simp: opened_def)
  have dv: "tables_distinct (wdb v)" using u(4) p(2) same by (simp add: tables_distinct_def payment_indexes_def)
  note w' = pays_run_links [OF 2(3) dv]
  have "payment_links (wdb v) = payment_links (wdb u) @ [(pay_id p, pr_subscription_id req, pr_agent_order_id req)]"
    using p by (simp add: payment_links_def)
  then show "\<exists>pid. payment_links (wdb w') = payment_links (wdb w) @ [(pid, pr_subscription_id req, pr_agent_order_id req)]"
    using w' u by simp
  show "agent_orders (wdb w') = agent_orders (wdb w) \<and> map sub_id (subscriptions (wdb w')) = map sub_id (subscriptions (wdb w)) \<and>
      tables_distinct (wdb w')"
    using w' u same by simp
qed

lemma opening_added:
  assumes run: "opening_run req w w'" and d: "tables_distinct (wdb w)"
  shows "links_added (pr_subscription_id req) (pr_agent_order_id req) (wdb w) (wdb w')"
  using run pays_run_links [of w w'] opens_link [of req w w'] d by (auto simp: opening_run_def links_added_def)

lemma create_payment_added:
  assumes d: "tables_distinct (wdb w)"
  shows "links_added (pr_subscription_id req) (pr_agent_order_id req) (wdb w) (wdb (snd (create_payment cfg gw rnd now id req w)))"
proof -
  let ?w = "snd (create_payment cfg gw rnd now id req w)"
  have open_from: "links_added (pr_subscription_id req) (pr_agent_order_id req) (wdb w) (wdb ?w)"
    if "pays_run w u" "opening_run req u ?w" for u
    using pays_run_added [OF that(1) d opening_added [OF that(2)]] pays_run_links(4) [OF that(1) d] .
  from create_payment_run [of w cfg gw rnd now id req] consider "pays_run w ?w"
    | v where "pays_run w v" "pays_run v ?w" | v u where "pays_run w v" "pays_run v u" "opening_run req u ?w"
    by (auto simp: paying_run_def)
  then show ?thesis
  proof cases
    case 1
    then show ?thesis using open_from [OF pays.R_refl] by (simp add: opening_run_def opens_payment_def)
  next
    case 2
    then show ?thesis using open_from [OF pays.R_refl] pays.R_trans by (auto simp: opening_run_def opens_payment_def)
  next
    case 3
    then show ?thesis using open_from [OF pays.R_trans [OF 3(1,2)]] by blast
  qed
qed

lemma create_payment_effect:
  assumes d: "tables_distinct (wdb w)" and i: "pr_agent_order_id req = Some i" and none: "order_linked_payment (wdb w) i = None"
  shows "order_effect i (pr_subscription_id req) (wdb w) (wdb (snd (create_payment cfg gw rnd now id req w)))"
  using create_payment_added [OF d, of req] i none by (simp add: links_added_def order_effect_def)

lemma order_effect_refl [simp]: "order_effect i sid db db"
  by (simp add: order_effect_def)

lemma settle_order_result:
  assumes "settle_order cfg gw rnd now racing m ord sub spec pay w = (Inr res, w')" and "sub_id sub = order_subscription_id ord"
  shows "res_order res = ord \<and> sub_id (res_subscription res) = order_subscription_id ord"
  using assms by (auto simp: settle_order_def split: prod.splits sum.splits error.splits option.splits dest: get_subscription_id)

lemma continue_order_effect:
  assumes d: "tables_distinct (wdb w)" and sub: "sub_id sub = order_subscription_id ord"
  shows "order_effect (order_id ord) (order_subscription_id ord) (wdb w) (wdb (snd (continue_order cfg gw rnd now id user spec (ord, sub) w)))"
    and "fst (continue_order cfg gw rnd now id user spec (ord, sub) w) = Inr res \<Longrightarrow>
      res_order res = ord \<and> sub_id (res_subscription res) = order_subscription_id ord"
proof -
  let ?pay = "order_linked_payment (wdb w) (order_id ord)"
  have poll: "order_effect i sid (wdb w) (wdb (snd (check_and_settle_payment cfg gw now p w)))" for i sid p
    using pays_run_links [OF pays.keepsD [OF pays.keeps_check_and_settle] d] by (simp add: order_effect_def)
  have "order_effect (order_id ord) (order_subscription_id ord) (wdb w)
      (wdb (snd (pay_order cfg gw rnd now id m ord sub spec ?pay w)))" for m
    using create_payment_effect [OF d, of "agent_payment_request ord sub m spec" "order_id ord"] poll sub
    by (simp add: pay_order_def agent_payment_request_def return_def split: option.splits)
  moreover have "snd (settle_order cfg gw rnd now id m ord sub spec ?pay w) = snd (pay_order cfg gw rnd now id m ord sub spec ?pay w)" for m
    by (auto simp: settle_order_def split: prod.splits sum.splits error.splits option.splits)
  ultimately show "order_effect (order_id ord) (order_subscription_id ord) (wdb w) (wdb (snd (continue_order cfg gw rnd now id user spec (ord, sub) w)))"
    by (simp add: continue_order_def Let_def return_def split: option.splits)
  show "fst (continue_order cfg gw rnd now id user spec (ord, sub) w) = Inr res \<Longrightarrow>
      res_order res = ord \<and> sub_id (res_subscription res) = order_subscription_id ord"
    using sub settle_order_result [of cfg gw rnd now id _ ord sub spec ?pay w res]
    by (auto simp: continue_order_def Let_def return_def prod_eq_iff split: option.splits)
qed

lemma put_replays:
  assumes d: "tables_distinct (wdb w)" and ord: "load_order (wdb w) (user_id user) key = Some ord"
    and put: "put_agent_order cfg env gw rnd now racing id user key spec w = (r, w')"
  shows "order_effect (order_id ord) (order_subscription_id ord) (wdb w) (wdb w') \<and>
    (case r of
       Inl _ \<Rightarrow> True
     | Inr res \<Rightarrow> res_order res = ord \<and> sub_id (res_subscription res) = order_subscription_id ord \<and>
         (\<exists>sub. get_subscription (wdb (if spec_product spec = RELAY then snd (reap_expired_domain_claims cfg gw now w) else w))
            (order_subscription_id ord) = Some sub \<and> compatible ord sub spec))"
proof (cases "spec_product spec = IP")
  case True
  then show ?thesis using put by (auto simp: put_agent_order_def raise_def)
next
  case False
  let ?m = "if spec_product spec = RELAY then reap_expired_domain_claims cfg gw now else return 0"
  obtain x and v :: world where m: "?m w = (x, v)" by (rule prod.exhaust)
  have "pays.keeps ?m" by (simp add: pays.keeps_reap pays.keeps_return)
  then have "pays_run w v" using pays.keepsD [of ?m w] m by simp
  note v = pays_run_links [OF this d]
  have before: "(if spec_product spec = RELAY then snd (reap_expired_domain_claims cfg gw now w) else w) = v"
    using m by (auto simp: return_def split: if_splits)
  have eff: "order_effect (order_id ord) (order_subscription_id ord) (wdb w) db'"
    if "order_effect (order_id ord) (order_subscription_id ord) (wdb v) db'" for db'
    using that v by (simp add: order_effect_def linked_none)
  have ord': "load_order (wdb v) (user_id user) key = Some ord" using ord v(2) by (simp add: load_order_def)
  show ?thesis
  proof (cases "fst (get_or_create_order cfg env gw now racing (user_id user) key spec w)")
    case (Inl e)
    have "snd (get_or_create_order cfg env gw now racing (user_id user) key spec w) = v"
      using m ord' by (auto simp: get_or_create_order_def andthen_def replay_db raise_def split: sum.splits)
    then have "w' = v \<and> r = Inl e" using put False Inl
      by (cases "get_or_create_order cfg env gw now racing (user_id user) key spec w") (simp add: put_agent_order_def andthen_def)
    then show ?thesis using eff by simp
  next
    case (Inr os)
    then obtain sub where sub: "get_subscription (wdb v) (order_subscription_id ord) = Some sub" "compatible ord sub spec"
      and os: "os = (ord, sub)" and state: "snd (get_or_create_order cfg env gw now racing (user_id user) key spec w) = v"
      using m ord'
      by (auto simp: get_or_create_order_def andthen_def replay_order_def return_def raise_def split: sum.splits option.splits if_splits)
    have run: "continue_order cfg gw rnd now id user spec (ord, sub) v = (r, w')"
      using put False Inr os state
      by (cases "get_or_create_order cfg env gw now racing (user_id user) key spec w") (simp add: put_agent_order_def andthen_def)
    show ?thesis
      using continue_order_effect [OF v(4) get_subscription_id [OF sub(1)], of cfg gw rnd now user spec] run eff sub
      unfolding before by (auto split: sum.splits)
  qed
qed


section \<open>Properties\<close>

text \<open>
  C12: an order key stands for one order. Take any order that exists at some time; after any history of
  agent orders, other orders, payments, polls, cancellations and reaping, with other sessions committing in
  the middle of each, the key still finds that same order, its subscription still belongs to the account,
  and there is at most one payment of the order, which pays for its subscription.
\<close>

theorem agent_orders_once:
  assumes ok: "orders_ok (wdb w)" and run: "(agent_step cfg)\<^sup>*\<^sup>* w w'" and ord: "ord \<in> set (agent_orders (wdb w))"
  shows "load_order (wdb w') (order_user_id ord) (order_key ord) = Some ord \<and>
    (\<exists>s. get_subscription (wdb w') (order_subscription_id ord) = Some s \<and> sub_user_id s = order_user_id ord) \<and>
    (p \<in> set (payments (wdb w')) \<and> q \<in> set (payments (wdb w')) \<and> agent_order_id p = Some (order_id ord) \<and>
      agent_order_id q = Some (order_id ord) \<longrightarrow> p = q \<and> pay_subscription_id p = order_subscription_id ord)"
proof -
  have grow: "orders_grow (wdb w) (wdb w')" using agent_run.run_rel [OF run ok] .
  then have ok': "orders_ok (wdb w')" and ord': "ord \<in> set (agent_orders (wdb w'))"
    using ok ord by (auto simp: orders_grow_def)
  have same: "x = ord" if "x \<in> set (agent_orders (wdb w'))" "(order_user_id x, order_key x) = (order_user_id ord, order_key ord) \<or> order_id x = order_id ord" for x
    using ok' ord' that by (auto simp: orders_ok_def order_indexes_def distinct_map dest: inj_onD)
  have "load_order (wdb w') (order_user_id ord) (order_key ord) = Some ord"
  proof (cases "load_order (wdb w') (order_user_id ord) (order_key ord)")
    case None
    then show ?thesis using ord' by (auto simp: load_order_def find_None_iff)
  next
    case (Some x)
    then show ?thesis using same [of x] by (auto simp: load_order_def find_Some_iff)
  qed
  moreover have "p = q" if "p \<in> set (payments (wdb w'))" "q \<in> set (payments (wdb w'))"
    "agent_order_id p = Some (order_id ord)" "agent_order_id q = Some (order_id ord)"
    using ok' that unique_onD [of agent_order_id "payments (wdb w')" pay_id p q "order_id ord"]
    by (simp add: orders_ok_def tables_distinct_def)
  moreover have "pay_subscription_id p = order_subscription_id ord"
    if "p \<in> set (payments (wdb w'))" "agent_order_id p = Some (order_id ord)"
    using ok' that same unfolding orders_ok_def by metis
  ultimately show ?thesis using ok' ord' by (auto simp: orders_ok_def)
qed

text \<open>
  C31: a repeated request orders nothing twice. When the key already has an order, the request, whatever
  its specification and the answers of the providers, adds no order and no subscription, and adds a payment
  only if the order has none yet, for the order's subscription. It succeeds only with the specification of
  the order, down to the referral address of its subscription, and then returns that order. A request for a
  Port, or for a Relay name once the due names are released, that differs in product, term, delivery,
  transport, domain, scope or referral address is refused as a conflict and changes nothing more.
\<close>

theorem agent_order_replay:
  assumes d: "tables_distinct (wdb w)" and ord: "load_order (wdb w) (user_id user) key = Some ord"
    and put: "put_agent_order cfg env gw rnd now racing id user key spec w = (r, w')"
    and v: "v = (if spec_product spec = RELAY then snd (reap_expired_domain_claims cfg gw now w) else w)"
  shows "agent_orders (wdb w') = agent_orders (wdb w) \<and>
    map sub_id (subscriptions (wdb w')) = map sub_id (subscriptions (wdb w)) \<and>
    (payment_links (wdb w') = payment_links (wdb w) \<or>
      order_linked_payment (wdb w) (order_id ord) = None \<and>
      (\<exists>pid. payment_links (wdb w') = payment_links (wdb w) @ [(pid, order_subscription_id ord, Some (order_id ord))])) \<and>
    (\<forall>res. r = Inr res \<longrightarrow> res_order res = ord \<and> sub_id (res_subscription res) = order_subscription_id ord \<and>
      order_product ord = spec_product spec \<and> order_billing_term ord = spec_term spec \<and> order_delivery ord = spec_delivery spec \<and>
      order_transport ord = spec_transport spec \<and> order_domain ord = spec_domain spec \<and> order_scope ord = spec_scope spec \<and>
      (\<exists>sub. get_subscription (wdb v) (order_subscription_id ord) = Some sub \<and> sub_referral_address sub = spec_referral spec)) \<and>
    (\<forall>u sub. (spec_product spec = PORT \<or> spec_product spec = RELAY \<and> (\<exists>n. fst (reap_expired_domain_claims cfg gw now w) = Inr n)) \<and>
      get_user (wdb v) (user_id user) = Some u \<and> get_subscription (wdb v) (order_subscription_id ord) = Some sub \<and>
      (order_product ord \<noteq> spec_product spec \<or> order_billing_term ord \<noteq> spec_term spec \<or> order_delivery ord \<noteq> spec_delivery spec \<or>
       order_transport ord \<noteq> spec_transport spec \<or> order_domain ord \<noteq> spec_domain spec \<or> order_scope ord \<noteq> spec_scope spec \<or>
       sub_referral_address sub \<noteq> spec_referral spec) \<longrightarrow>
      r = Inl AgentOrderConflictError \<and> w' = v)"
proof -
  note replays = put_replays [OF d ord put, folded v]
  let ?m = "if spec_product spec = RELAY then reap_expired_domain_claims cfg gw now else return 0"
  have "pays.keeps ?m" by (simp add: pays.keeps_reap pays.keeps_return)
  then have "pays_run w (snd (?m w))" by (rule pays.keepsD)
  moreover have m: "snd (?m w) = v" by (simp add: v return_def)
  ultimately have ord': "load_order (wdb v) (user_id user) key = Some ord"
    using ord pays_run_links(2) [of w v, OF _ d] by (simp add: load_order_def)
  have "r = Inl AgentOrderConflictError \<and> w' = v"
    if kind: "spec_product spec = PORT \<or> spec_product spec = RELAY \<and> (\<exists>n. fst (reap_expired_domain_claims cfg gw now w) = Inr n)"
      and rows: "get_user (wdb v) (user_id user) = Some u" "get_subscription (wdb v) (order_subscription_id ord) = Some sub"
      and other: "order_product ord \<noteq> spec_product spec \<or> order_billing_term ord \<noteq> spec_term spec \<or> order_delivery ord \<noteq> spec_delivery spec \<or>
       order_transport ord \<noteq> spec_transport spec \<or> order_domain ord \<noteq> spec_domain spec \<or> order_scope ord \<noteq> spec_scope spec \<or>
       sub_referral_address sub \<noteq> spec_referral spec" for u sub
  proof -
    obtain n where "?m w = (Inr n, v)" using kind m by (auto simp: return_def prod_eq_iff)
    moreover have "\<not> compatible ord sub spec" unfolding compatible_def using other by blast
    ultimately show ?thesis using put kind ord' rows
      by (auto simp: put_agent_order_def get_or_create_order_def andthen_def replay_order_def raise_def)
  qed
  moreover have "\<forall>res. r = Inr res \<longrightarrow> res_order res = ord \<and> sub_id (res_subscription res) = order_subscription_id ord \<and>
      order_product ord = spec_product spec \<and> order_billing_term ord = spec_term spec \<and> order_delivery ord = spec_delivery spec \<and>
      order_transport ord = spec_transport spec \<and> order_domain ord = spec_domain spec \<and> order_scope ord = spec_scope spec \<and>
      (\<exists>sub. get_subscription (wdb v) (order_subscription_id ord) = Some sub \<and> sub_referral_address sub = spec_referral spec)"
    using replays by (auto simp: compatible_def)
  ultimately show ?thesis using replays unfolding order_effect_def by blast
qed

definition port_spec :: agent_order_spec where
  "port_spec = \<lparr> spec_product = PORT, spec_term = MONTHLY, spec_delivery = FRAMED, spec_transport = TCP, spec_domain = None,
     spec_scope = EXACT, spec_referral = None \<rparr>"

definition ordered_world :: world where
  "ordered_world = snd (put_agent_order example_settings example_env idle_gateway (\<lambda>_. 0) 0 id id sample_user ''web'' port_spec source_world)"

lemma source_world_ok: "orders_ok (wdb source_world)"
  by (simp add: orders_ok_def source_world_def tables_distinct_def order_indexes_def empty_database_def unique_on_def List.map_filter_simps)

lemma put_step: "agent_step cfg w (snd (put_agent_order cfg env gw rnd now id id user key spec w))"
proof -
  have "\<exists>cs. (agent_step cfg)\<^sup>*\<^sup>* v (v\<lparr>wdb := id (wdb v), calls := cs\<rparr>)" for v
    by (rule exI [of _ "calls v"]) simp
  then show ?thesis by (intro agent_step.put)
qed

theorem agent_orders_once_witness:
  "\<exists>ord w'. (agent_step example_settings)\<^sup>*\<^sup>* source_world w' \<and> order_key ord = ''web'' \<and>
     load_order (wdb w') (order_user_id ord) (order_key ord) = Some ord"
proof -
  let ?w = "snd (put_agent_order example_settings example_env idle_gateway (\<lambda>_. 0) 5 id id sample_user ''web'' port_spec ordered_world)"
  have ok: "orders_ok (wdb ordered_world)"
    using put_agent_order_grow [of id id source_world] source_world_ok by (simp add: ordered_world_def orders_grow_def)
  have "map order_key (agent_orders (wdb ordered_world)) = [''web'']" by code_simp
  then obtain ord where ord: "ord \<in> set (agent_orders (wdb ordered_world))" "order_key ord = ''web''" by auto
  have run: "(agent_step example_settings)\<^sup>*\<^sup>* ordered_world ?w" by (rule r_into_rtranclp) (rule put_step)
  have "(agent_step example_settings)\<^sup>*\<^sup>* source_world ordered_world"
    unfolding ordered_world_def by (rule r_into_rtranclp) (rule put_step)
  then have "(agent_step example_settings)\<^sup>*\<^sup>* source_world ?w" using run by (rule rtranclp_trans)
  then show ?thesis using agent_orders_once [OF ok run ord(1)] ord(2) by blast
qed

theorem agent_order_replay_witness:
  "\<exists>ord. load_order (wdb ordered_world) 1 ''web'' = Some ord \<and>
     put_agent_order example_settings example_env idle_gateway (\<lambda>_. 0) 5 id id sample_user ''web''
       (port_spec\<lparr>spec_referral := Some ''a@b.c''\<rparr>) ordered_world = (Inl AgentOrderConflictError, ordered_world)"
proof -
  let ?put = "put_agent_order example_settings example_env idle_gateway (\<lambda>_. 0) 5 id id sample_user ''web'' (port_spec\<lparr>spec_referral := Some ''a@b.c''\<rparr>) ordered_world"
  have "orders_ok (wdb ordered_world)"
    using put_agent_order_grow [of id id source_world] source_world_ok by (simp add: ordered_world_def orders_grow_def)
  then have d: "tables_distinct (wdb ordered_world)" by (simp add: orders_ok_def)
  have "map_option order_subscription_id (load_order (wdb ordered_world) 1 ''web'') = Some 2" by code_simp
  then obtain ord where ord: "load_order (wdb ordered_world) (user_id sample_user) ''web'' = Some ord"
    "order_subscription_id ord = 2" by (auto simp: sample_user_def)
  have "map_option sub_referral_address (get_subscription (wdb ordered_world) 2) = Some None \<and>
      get_user (wdb ordered_world) (user_id sample_user) \<noteq> None" by code_simp
  then obtain sub u where rows: "get_subscription (wdb ordered_world) (order_subscription_id ord) = Some sub"
    "get_user (wdb ordered_world) (user_id sample_user) = Some u" "sub_referral_address sub = None" using ord(2) by auto
  obtain r w' where put: "?put = (r, w')" by (rule prod.exhaust)
  show ?thesis
    using agent_order_replay [OF d ord(1) put refl] rows put ord(1) by (simp add: port_spec_def sample_user_def)
qed

end
