(* ===== verification/Payment_Reconciliation.thy ===== *)
theory Payment_Reconciliation
  imports Agent_Orders
begin

text \<open>
  The payment reconciliation worker (\<^verbatim>\<open>services/payment_reconciliation.py\<close>): one cycle polls a bounded
  batch of open payments and opens the automatic renewals that are due. Every payment and every subscription
  is handled in a session of its own, so each has its own clock reading and provider answers; \<open>renew_verifying\<close>
  and \<open>renew_racing\<close> are what other sessions commit during the DNS lookup and before the payment is inserted.
\<close>

section \<open>Automatic renewals\<close>

record renewal_env =
  renew_gw :: gateway
  renew_now :: time
  renew_rnd :: "nat \<Rightarrow> nat"
  renew_dns :: domain_verifier
  renew_verifying :: "database \<Rightarrow> database"
  renew_racing :: "database \<Rightarrow> database"

definition automatic_methods :: "settings \<Rightarrow> payment_method list" where
  "automatic_methods cfg = filter (is_payment_method_enabled cfg) [CLINK, NWC]"

definition wallet_available :: "settings \<Rightarrow> user \<Rightarrow> bool" where
  "wallet_available cfg u =
     (CLINK \<in> set (automatic_methods cfg) \<and> has_clink u \<or> NWC \<in> set (automatic_methods cfg) \<and> has_nwc u)"

definition due_by :: "time \<Rightarrow> subscription \<Rightarrow> bool" where
  "due_by due_before s =
     (auto_renew s \<and> sub_status s = SubACTIVE \<and>
      (case current_period_end s of None \<Rightarrow> False | Some e \<Rightarrow> e \<le> due_before))"

text \<open>The scan: the \<^verbatim>\<open>select\<close> joined with the account of the row.\<close>

definition due_renewal :: "settings \<Rightarrow> time \<Rightarrow> database \<Rightarrow> subscription \<Rightarrow> bool" where
  "due_renewal cfg due_before db s =
     (due_by due_before s \<and>
      (case get_user db (sub_user_id s) of
         None \<Rightarrow> False
       | Some u \<Rightarrow> wallet_available cfg u \<and> \<not> is_admin u \<and> \<not> is_suspended u))"

definition due_renewals :: "settings \<Rightarrow> time \<Rightarrow> nat \<Rightarrow> database \<Rightarrow> int list" where
  "due_renewals cfg due_before batch_size db =
     map sub_id (take batch_size
       (sort_key (\<lambda>s. the (current_period_end s)) (sort_key sub_id
         (filter (due_renewal cfg due_before db) (subscriptions db)))))"

definition automatic_wallet_method :: "settings \<Rightarrow> user option \<Rightarrow> payment_method option" where
  "automatic_wallet_method cfg user =
     (case user of
        None \<Rightarrow> None
      | Some u \<Rightarrow>
          if has_clink u \<and> is_payment_method_enabled cfg CLINK then Some CLINK
          else if has_nwc u \<and> is_payment_method_enabled cfg NWC then Some NWC
          else None)"

text \<open>The two rechecks of the row: the payer's wallet when a payment may be opened.\<close>

definition renewal_method :: "settings \<Rightarrow> time \<Rightarrow> subscription \<Rightarrow> database \<Rightarrow> payment_method option" where
  "renewal_method cfg due_before sub db =
     (if \<not> due_by due_before sub \<or> has_pending_upgrade db sub then None
      else case get_user db (sub_user_id sub) of
        None \<Rightarrow> None
      | Some u \<Rightarrow>
          (case automatic_wallet_method cfg (Some u) of
             None \<Rightarrow> None
           | Some m \<Rightarrow>
               if is_admin u \<or> is_suspended u then None
               else if open_payments db (sub_id sub) \<noteq> [] then None
               else Some m))"

definition renewal_request :: "payment_method \<Rightarrow> subscription \<Rightarrow> payment_request" where
  "renewal_request m sub = \<lparr> pr_subscription_id = sub_id sub, pr_method = m,
     pr_term = Some (if product sub = IP \<and> delivery sub = WIREGUARD then YEARLY else billing_term sub),
     pr_agent_order_id = None, pr_automatic_renewal = True \<rparr>"

definition needs_proof :: "subscription \<Rightarrow> bool" where
  "needs_proof sub = (product sub = RELAY \<and> \<not> domain_is_managed sub \<and> requires_domain_renewal_verification sub)"

text \<open>After the proof of the domain, with the account locked and the row refreshed.\<close>

definition open_renewal :: "settings \<Rightarrow> time \<Rightarrow> renewal_env \<Rightarrow> int \<Rightarrow> bool comp" where
  "open_renewal cfg due_before env i w =
     (case get_subscription (wdb w) i of
        None \<Rightarrow> raise (RuntimeError ''InvalidRequestError'') w
      | Some sub \<Rightarrow>
          (case renewal_method cfg due_before sub (wdb w) of
             None \<Rightarrow> return False w
           | Some m \<Rightarrow>
               andthen (create_payment cfg (renew_gw env) (renew_rnd env) (renew_now env) (renew_racing env) (renewal_request m sub))
                 (\<lambda>_. return True) w))"

text \<open>The body of the loop; \<open>False\<close> is its \<^verbatim>\<open>continue\<close>.\<close>

definition renew_one :: "settings \<Rightarrow> time \<Rightarrow> renewal_env \<Rightarrow> int \<Rightarrow> bool comp" where
  "renew_one cfg due_before env i w =
     (case get_subscription (wdb w) i of
        None \<Rightarrow> return False w
      | Some sub \<Rightarrow>
          if renewal_method cfg due_before sub (wdb w) = None then return False w
          else if needs_proof sub
          then andthen (verify_subscription_domain cfg (renew_gw env) (renew_now env) (renew_dns env) (renew_verifying env) sub True)
                 (\<lambda>v. if verified v then open_renewal cfg due_before env i else return False) w
          else open_renewal cfg due_before env i w)"

fun renewal_loop ::
  "settings \<Rightarrow> time \<Rightarrow> (int \<Rightarrow> renewal_env) \<Rightarrow> int list \<Rightarrow> nat \<times> nat \<Rightarrow> world \<Rightarrow> (nat \<times> nat) \<times> world" where
  "renewal_loop cfg due_before env [] counts w = (counts, w)"
| "renewal_loop cfg due_before env (i # is) (created, failed) w =
     (case renew_one cfg due_before (env i) i w of
        (Inr c, w') \<Rightarrow> renewal_loop cfg due_before env is (if c then Suc created else created, failed) w'
      | (Inl e, w') \<Rightarrow> renewal_loop cfg due_before env is (created, if is_value_error e then failed else Suc failed) w')"

definition create_due_auto_renewals ::
  "settings \<Rightarrow> time \<Rightarrow> (int \<Rightarrow> renewal_env) \<Rightarrow> nat \<Rightarrow> world \<Rightarrow> (nat \<times> nat) \<times> world" where
  "create_due_auto_renewals cfg now env batch_size w =
     (if automatic_methods cfg = [] then ((0, 0), w)
      else let due_before = now + seconds (NWC_AUTO_RENEW_LEAD_SECONDS cfg)
           in renewal_loop cfg due_before env (due_renewals cfg due_before batch_size (wdb w)) (0, 0) w)"

section \<open>Pending payments\<close>

record reconciliation_summary =
  scanned :: nat
  paid_count :: nat
  expired_count :: nat
  pending_count :: nat
  skipped :: nat
  failed_count :: nat
  auto_renewed :: nat

definition reconcilable_methods :: "settings \<Rightarrow> payment_method list" where
  "reconcilable_methods cfg =
     filter (\<lambda>m. m = STABLECOIN_SWAP \<or> is_payment_method_enabled cfg m) [LIGHTNING, NWC, CLINK, STABLECOIN_SWAP]"

definition none_or_before :: "time \<Rightarrow> time option \<Rightarrow> bool" where
  "none_or_before limit v = (case v of None \<Rightarrow> True | Some t \<Rightarrow> t \<le> limit)"

text \<open>The \<^verbatim>\<open>where\<close> clause; a comparison with a missing column selects nothing.\<close>

definition reconcilable :: "settings \<Rightarrow> time \<Rightarrow> payment \<Rightarrow> bool" where
  "reconcilable cfg now p =
     ((pay_status p = PENDING \<or>
        (is_lnurl p \<and> (pay_status p = EXPIRED \<or> pay_status p = FAILED) \<and> settlement_verified_at p = None \<and>
         (case invoice_expires_at p of None \<Rightarrow> False | Some e \<Rightarrow> e \<ge> now - days 1))) \<and>
      (uses_lnurl_adapter cfg \<longrightarrow> is_lnurl p) \<and>
      (is_lnurl p \<or> pay_method p \<in> set (reconcilable_methods cfg)) \<and>
      (pay_method p \<noteq> NWC \<or>
        (none_or_before now (nwc_lease_until (nwc p)) \<and>
         (nwc_attempt_count (nwc p) = 0 \<or>
          none_or_before (now - seconds (NWC_LOOKUP_INTERVAL_SECONDS cfg)) (nwc_last_lookup_at (nwc p))))))"

definition last_checked :: "payment \<Rightarrow> time" where
  "last_checked p = (case lnurl_last_checked_at p of Some t \<Rightarrow> t | None \<Rightarrow> pay_created_at p)"

definition reconcilable_payments :: "settings \<Rightarrow> time \<Rightarrow> nat \<Rightarrow> database \<Rightarrow> int list" where
  "reconcilable_payments cfg now batch_size db =
     (if reconcilable_methods cfg \<noteq> [] \<or> uses_lnurl_adapter cfg
      then map pay_id (take batch_size
             (sort_key last_checked (sort_key pay_id (filter (reconcilable cfg now) (payments db)))))
      else [])"

text \<open>One payment of the batch: \<open>None\<close> is one that is skipped.\<close>

definition reconcile_one :: "settings \<Rightarrow> gateway \<Rightarrow> time \<Rightarrow> int \<Rightarrow> payment option comp" where
  "reconcile_one cfg gw now i w =
     (case get_payment (wdb w) i of
        None \<Rightarrow> return None w
      | Some p \<Rightarrow>
          if \<not> is_lnurl p \<and> pay_method p \<noteq> STABLECOIN_SWAP \<and> \<not> is_payment_method_enabled cfg (pay_method p)
          then return None w
          else andthen (check_and_settle_payment cfg gw now p) (\<lambda>q. return (Some q)) w)"

definition count_result :: "error + payment option \<Rightarrow> reconciliation_summary \<Rightarrow> reconciliation_summary" where
  "count_result r s =
     (case r of
        Inl _ \<Rightarrow> s\<lparr>failed_count := Suc (failed_count s)\<rparr>
      | Inr None \<Rightarrow> s\<lparr>skipped := Suc (skipped s)\<rparr>
      | Inr (Some q) \<Rightarrow>
          (case pay_status q of
             PAID \<Rightarrow> s\<lparr>paid_count := Suc (paid_count s)\<rparr>
           | EXPIRED \<Rightarrow> s\<lparr>expired_count := Suc (expired_count s)\<rparr>
           | PENDING \<Rightarrow> s\<lparr>pending_count := Suc (pending_count s)\<rparr>
           | _ \<Rightarrow> s\<lparr>skipped := Suc (skipped s)\<rparr>))"

fun reconcile_loop ::
  "settings \<Rightarrow> (int \<Rightarrow> gateway \<times> time) \<Rightarrow> int list \<Rightarrow> reconciliation_summary \<Rightarrow> world \<Rightarrow> reconciliation_summary \<times> world" where
  "reconcile_loop cfg env [] s w = (s, w)"
| "reconcile_loop cfg env (i # is) s w =
     (case reconcile_one cfg (fst (env i)) (snd (env i)) i w of
        (r, w') \<Rightarrow> reconcile_loop cfg env is (count_result r s) w')"

record cycle_env =
  reap_gw :: gateway
  reap_now :: time
  scan_now :: time
  poll_env :: "int \<Rightarrow> gateway \<times> time"
  due_now :: time
  renewal_envs :: "int \<Rightarrow> renewal_env"

definition empty_summary :: reconciliation_summary where
  "empty_summary = \<lparr> scanned = 0, paid_count = 0, expired_count = 0, pending_count = 0, skipped = 0, failed_count = 0, auto_renewed = 0 \<rparr>"

definition reconcile_batch :: "settings \<Rightarrow> cycle_env \<Rightarrow> nat \<Rightarrow> world \<Rightarrow> reconciliation_summary \<times> world" where
  "reconcile_batch cfg env batch w =
     (let ids = reconcilable_payments cfg (scan_now env) batch (wdb w)
      in reconcile_loop cfg (poll_env env) ids (empty_summary\<lparr>scanned := length ids\<rparr>) w)"

definition reconcile_pending_payments_once :: "settings \<Rightarrow> cycle_env \<Rightarrow> int option \<Rightarrow> reconciliation_summary comp" where
  "reconcile_pending_payments_once cfg env batch_size =
     (let size = (case batch_size of None \<Rightarrow> int (PAYMENT_RECONCILIATION_BATCH_SIZE cfg) | Some n \<Rightarrow> n)
      in if \<not> (1 \<le> size \<and> size \<le> 1000)
         then raise (ValueError ''payment reconciliation batch size must be within 1-1000'')
         else andthen (reap_expired_domain_claims cfg (reap_gw env) (reap_now env))
           (\<lambda>_ w. case reconcile_batch cfg env (nat size) w of
             (s, w1) \<Rightarrow>
               (case create_due_auto_renewals cfg (due_now env) (renewal_envs env) (nat size) w1 of
                  ((created, failed), w2) \<Rightarrow>
                    return (s\<lparr>auto_renewed := created, failed_count := failed_count s + failed\<rparr>) w2)))"

section \<open>Worker and health\<close>

text \<open>The state behind the lock of \<^verbatim>\<open>ReconcilerHealth\<close>; instants are readings of the monotonic clock.\<close>

record reconciler_health =
  enabled :: bool
  started_at :: "time option"
  last_completed_at :: "time option"
  startup_grace :: time
  stale_after :: time




definition record_completed_cycle :: "time \<Rightarrow> reconciler_health \<Rightarrow> reconciler_health" where
  "record_completed_cycle now h = h\<lparr>last_completed_at := Some now\<rparr>"


text \<open>The next tick of the fixed rate: missed ticks are skipped.\<close>

definition next_tick :: "time \<Rightarrow> time \<Rightarrow> time \<Rightarrow> time" where
  "next_tick interval next_cycle_at now =
     (let tick = next_cycle_at + interval in if tick \<le> now then now + interval else tick)"

text \<open>
  The worker until it is stopped: per cycle its environment, the clock when it completes and the clock when
  the delay is computed. The result has the delays it waited, most recent first.
\<close>

record reconciler_worker =
  next_cycle_at :: time
  waits :: "time list"
  health :: reconciler_health

definition worker_cycle :: "settings \<Rightarrow> time \<Rightarrow> cycle_env \<times> time \<times> time \<Rightarrow> reconciler_worker \<times> world \<Rightarrow> reconciler_worker \<times> world" where
  "worker_cycle cfg interval c st =
     (case (c, st) of ((env, done_at, now), (k, w)) \<Rightarrow>
       (case reconcile_pending_payments_once cfg env None w of
          (r, w') \<Rightarrow>
            let tick = next_tick interval (next_cycle_at k) now
            in (k\<lparr>next_cycle_at := tick, waits := (tick - now) # waits k,
                  health := (case r of Inl _ \<Rightarrow> health k | Inr _ \<Rightarrow> record_completed_cycle done_at (health k))\<rparr>, w')))"

definition run_payment_reconciler ::
  "settings \<Rightarrow> time \<Rightarrow> time \<Rightarrow> (cycle_env \<times> time \<times> time) list \<Rightarrow> reconciler_health \<Rightarrow> world \<Rightarrow> reconciler_worker \<times> world" where
  "run_payment_reconciler cfg interval started cs h w =
     fold (worker_cycle cfg interval) cs (\<lparr> next_cycle_at = started, waits = [], health = h \<rparr>, w)"

section \<open>A renewal that is counted opened a payment\<close>

lemma opens_first: "pays_run w u \<Longrightarrow> opens_payment req u w' \<Longrightarrow> opens_payment req w w'"
  unfolding opens_payment_def using pays.R_trans by meson

lemma opens_last: "opens_payment req w u \<Longrightarrow> pays_run u w' \<Longrightarrow> opens_payment req w w'"
  unfolding opens_payment_def using pays.R_trans by meson

lemma none_open_run:
  assumes "pays_run w w'" and "tables_distinct (wdb w)" and "open_payments (wdb w) i = []"
  shows "open_payments (wdb w') i = []"
proof -
  have "list_all2 pay_kept (payments (wdb w)) (payments (wdb w'))" using assms by (simp add: pays_run_def)
  then show ?thesis using assms(3) unfolding open_payments_def
    by (induction rule: list_all2_induct) (auto simp: pay_kept_def split: if_splits)
qed

lemma open_or_resolve_opens:
  assumes run: "open_or_resolve cfg gw rnd now id initial req t sub w = (Inr p, w')"
    and sub: "sub_id sub = pr_subscription_id req" and none: "open_payments (wdb w) (pr_subscription_id req) = []"
    and order: "pr_agent_order_id req = None"
  shows "opens_payment req w w'"
proof -
  obtain r v where v: "open_payment cfg gw rnd now initial req t sub w = (r, v)" by (rule prod.exhaust)
  have last: "pays_run v w'"
    using run v pays.keepsD [OF keeps_after_conflict, of v cfg gw now req] pays.R_refl
    by (auto simp: open_or_resolve_def split: sum.splits if_splits) (metis snd_conv)
  from open_payment_cases [OF sub, of cfg gw rnd now initial t w] v
  consider e where "r = Inl e" "v = w" | db1 where "opened req (wdb w) db1" "pays_run (w\<lparr>wdb := db1\<rparr>) v" by auto
  then show ?thesis
  proof cases
    case 1
    then show ?thesis using run v none order
      by (auto simp: open_or_resolve_def after_conflict_def order_payment_def raise_def split: if_splits)
  next
    case 2
    then have "opened req (wdb w) (wdb (w\<lparr>wdb := db1\<rparr>))" by simp
    then have "opens_payment req w v" unfolding opens_payment_def using 2(2) pays.R_refl [of w] by blast
    then show ?thesis using last by (rule opens_last)
  qed
qed

lemma price_and_open_opens:
  assumes "price_and_open cfg gw rnd now id initial req tm sub w = (Inr p, w')"
    and "sub_id sub = pr_subscription_id req" and "open_payments (wdb w) (pr_subscription_id req) = []"
    and "pr_agent_order_id req = None"
  shows "opens_payment req w w'"
  using assms open_or_resolve_opens [of cfg gw rnd now initial req _ "refresh (wdb w) sub" w p w']
  by (auto simp: price_and_open_def Let_def raise_def refresh_id split: option.splits sum.splits if_splits)

lemma andthen_opens:
  assumes run: "andthen m k w = (Inr p, w')" and m: "pays.keeps m" and d: "tables_distinct (wdb w)"
    and none: "open_payments (wdb w) (pr_subscription_id req) = []"
    and k: "\<And>x v. m w = (Inr x, v) \<Longrightarrow> k x v = (Inr p, w') \<Longrightarrow> tables_distinct (wdb v) \<Longrightarrow> open_payments (wdb v) (pr_subscription_id req) = [] \<Longrightarrow> opens_payment req v w'"
  shows "opens_payment req w w'"
proof -
  obtain x v where x: "m w = (Inr x, v)" "k x v = (Inr p, w')"
    using run by (auto simp: andthen_def split: prod.splits sum.splits)
  have v: "pays_run w v" using pays.keepsD [OF m, of w] x by simp
  show ?thesis
    using opens_first [OF v k [OF x pays_run_links(4) [OF v d] none_open_run [OF v d none]]] .
qed

lemma fresh_payment_opens:
  assumes run: "fresh_payment cfg gw rnd now id initial req tm sub w = (Inr p, w')"
    and sub: "sub_id sub = pr_subscription_id req" and none: "open_payments (wdb w) (pr_subscription_id req) = []"
    and order: "pr_agent_order_id req = None" and d: "tables_distinct (wdb w)"
  shows "opens_payment req w w'"
proof -
  from run obtain s rs db where acc: "account_checks cfg tm sub (wdb w) = Inr s"
    and exp: "expire_elapsed_subscriptions cfg (seal_identity gw) now [s] (wdb w) = Inr (rs, db)"
    and tail: "andthen (reap_elapsed_resource_holds cfg gw now) (\<lambda>_. price_and_open cfg gw rnd now id initial req tm s) (w\<lparr>wdb := db\<rparr>) = (Inr p, w')"
    by (auto simp: fresh_payment_def raise_def split: sum.splits)
  have s: "sub_id s = pr_subscription_id req"
    using acc sub by (auto simp: account_checks_def Let_def refresh_id split: option.splits if_splits)
  have w1: "pays_run w (w\<lparr>wdb := db\<rparr>)" by (rule pays.R_rows [OF expire_elapsed_rows [OF exp]])
  have "opens_payment req (w\<lparr>wdb := db\<rparr>) w'"
    using tail pays.keeps_holds pays_run_links(4) [OF w1 d] none_open_run [OF w1 d none]
    by (rule andthen_opens) (rule price_and_open_opens [OF _ s _ order])
  then show ?thesis by (rule opens_first [OF w1])
qed

lemma create_payment_opens:
  assumes run: "create_payment cfg gw rnd now id req w = (Inr p, w')"
    and none: "open_payments (wdb w) (pr_subscription_id req) = []"
    and order: "pr_agent_order_id req = None" and d: "tables_distinct (wdb w)"
  shows "opens_payment req w w'"
proof -
  have m: "require_payment_method_enabled cfg (pr_method req) = None"
    using run by (auto simp: create_payment_def raise_def split: option.splits)
  show ?thesis
    using run [unfolded create_payment_def m option.case] pays.keeps_reap d none
  proof (rule andthen_opens, goal_cases)
    case (1 x v)
    from 1(2) obtain sub tm initial where sub: "get_subscription (wdb v) (pr_subscription_id req) = Some sub"
      and k: "fresh_payment cfg gw rnd now id initial req tm sub v = (Inr p, w')"
      using get_subscription_id [of "wdb v" "pr_subscription_id req"] 1(4) order
      by (auto simp: Let_def raise_def order_payment_def andthen_def return_def split: option.splits)
    then show ?case using fresh_payment_opens [OF k get_subscription_id [OF sub] 1(4) order 1(3)] by simp
  qed
qed

section \<open>What a cycle does to the tables\<close>

definition quiet_env :: "renewal_env \<Rightarrow> bool" where
  "quiet_env env \<longleftrightarrow> renew_verifying env = id \<and> renew_racing env = id"

text \<open>At most one payment is added, for the subscription, and one is when the renewal is counted.\<close>

definition renewed_once :: "int \<Rightarrow> error + bool \<Rightarrow> database \<Rightarrow> database \<Rightarrow> bool" where
  "renewed_once i r db db' \<longleftrightarrow> links_added i None db db' \<and> (r = Inr True \<longrightarrow> payment_links db' \<noteq> payment_links db)"

lemma renewed_once_unchanged: "pays_run w w' \<Longrightarrow> tables_distinct (wdb w) \<Longrightarrow> r \<noteq> Inr True \<Longrightarrow> renewed_once i r (wdb w) (wdb w')"
  using pays_run_links [of w w'] by (simp add: renewed_once_def links_added_def)

lemma renewed_once_first:
  "pays_run w u \<Longrightarrow> tables_distinct (wdb w) \<Longrightarrow> renewed_once i r (wdb u) db' \<Longrightarrow> renewed_once i r (wdb w) db'"
  using pays_run_links [of w u] pays_run_added [of w u i None db'] by (simp add: renewed_once_def)

lemma open_renewal_once:
  assumes d: "tables_distinct (wdb w)" and q: "quiet_env env" and run: "open_renewal cfg due env i w = (r, w')"
  shows "renewed_once i r (wdb w) (wdb w')"
proof -
  have stop: "renewed_once i r (wdb w) (wdb w')" if "w' = w" "r \<noteq> Inr True"
    using renewed_once_unchanged [OF pays.R_refl d] that by simp
  show ?thesis
  proof (cases "get_subscription (wdb w) i")
    case None
    then show ?thesis using run stop by (auto simp: open_renewal_def raise_def)
  next
    case (Some sub)
    then have i: "sub_id sub = i" by (rule get_subscription_id)
    show ?thesis
    proof (cases "renewal_method cfg due sub (wdb w)")
      case None
      then show ?thesis using run stop Some by (auto simp: open_renewal_def return_def)
    next
      case (Some m)
      let ?req = "renewal_request m sub"
      have req: "pr_subscription_id ?req = i" "pr_agent_order_id ?req = None" by (simp_all add: renewal_request_def i)
      have none: "open_payments (wdb w) i = []"
        using Some i by (auto simp: renewal_method_def split: if_splits option.splits)
      obtain x and v :: world where v: "create_payment cfg (renew_gw env) (renew_rnd env) (renew_now env) id ?req w = (x, v)"
        by (rule prod.exhaust)
      have w': "w' = v" and r: "r = Inr True \<Longrightarrow> \<exists>p. x = Inr p"
        using run v q Some \<open>get_subscription (wdb w) i = _\<close>
        by (auto simp: open_renewal_def andthen_def return_def quiet_env_def split: sum.splits)
      have "links_added i None (wdb w) (wdb v)"
        using create_payment_added [OF d, of ?req cfg "renew_gw env" "renew_rnd env" "renew_now env"] v req by simp
      moreover have "payment_links (wdb v) \<noteq> payment_links (wdb w)" if "x = Inr p" for p
        using opens_link(1) [OF create_payment_opens [OF v [unfolded that]] d] none req d by fastforce
      ultimately show ?thesis using w' r by (auto simp: renewed_once_def)
    qed
  qed
qed

lemma renew_one_once:
  assumes d: "tables_distinct (wdb w)" and q: "quiet_env env" and run: "renew_one cfg due env i w = (r, w')"
  shows "renewed_once i r (wdb w) (wdb w')"
proof -
  have stop: "renewed_once i r (wdb w) (wdb w')" if "w' = w" "r \<noteq> Inr True"
    using renewed_once_unchanged [OF pays.R_refl d] that by simp
  show ?thesis
  proof (cases "get_subscription (wdb w) i")
    case None
    then show ?thesis using run stop by (auto simp: renew_one_def return_def)
  next
    case (Some sub)
    let ?v = "verify_subscription_domain cfg (renew_gw env) (renew_now env) (renew_dns env) id sub True"
    obtain x and v :: world where v: "?v w = (x, v)" by (rule prod.exhaust)
    have wv: "pays_run w v" using pays.keepsD [OF pays.keeps_verify] v by (metis snd_conv)
    note after = renewed_once_first [OF wv d open_renewal_once [OF pays_run_links(4) [OF wv d] q]]
    consider "renewal_method cfg due sub (wdb w) = None" | "renewal_method cfg due sub (wdb w) \<noteq> None" "\<not> needs_proof sub"
      | "renewal_method cfg due sub (wdb w) \<noteq> None" "needs_proof sub" by blast
    then show ?thesis
    proof cases
      case 1
      then show ?thesis using run stop Some by (auto simp: renew_one_def return_def)
    next
      case 2
      then show ?thesis using run Some open_renewal_once [OF d q, of cfg due i r w'] by (auto simp: renew_one_def split: if_splits)
    next
      case 3
      then have "andthen ?v (\<lambda>v. if verified v then open_renewal cfg due env i else return False) w = (r, w')"
        using run Some q by (auto simp: renew_one_def quiet_env_def split: if_splits)
      then show ?thesis
        using v after renewed_once_unchanged [OF wv d]
        by (auto simp: andthen_def return_def split: sum.splits if_splits)
    qed
  qed
qed

text \<open>The payments a loop over \<open>is\<close> adds, and how they are counted.\<close>

lemma renewal_loop_links:
  assumes "tables_distinct (wdb w)" and "\<forall>i. quiet_env (env i)" and "distinct is"
    and "renewal_loop cfg due env is (c, f) w = ((c', f'), w')"
  shows "\<exists>new. payment_links (wdb w') = payment_links (wdb w) @ new \<and> set (map (\<lambda>l. fst (snd l)) new) \<subseteq> set is \<and>
    distinct (map (\<lambda>l. fst (snd l)) new) \<and> (\<forall>l \<in> set new. snd (snd l) = None) \<and>
    c \<le> c' \<and> c' - c \<le> length new \<and> f \<le> f' \<and> c' + f' \<le> c + f + length is \<and> tables_distinct (wdb w')"
  using assms
proof (induction "is" arbitrary: w c f)
  case (Cons i "is")
  obtain r and v :: world where v: "renew_one cfg due (env i) i w = (r, v)" by (rule prod.exhaust)
  define c1 where "c1 = (if r = Inr True then Suc c else c)"
  define f1 where "f1 = (case r of Inl e \<Rightarrow> if is_value_error e then f else Suc f | Inr _ \<Rightarrow> f)"
  have once: "renewed_once i r (wdb w) (wdb v)" using renew_one_once [OF Cons.prems(1) _ v] Cons.prems(2) by blast
  then obtain first where first: "payment_links (wdb v) = payment_links (wdb w) @ first" "first = [] \<or> (\<exists>pid. first = [(pid, i, None)])"
    "r = Inr True \<longrightarrow> first \<noteq> []" and dv: "tables_distinct (wdb v)"
    unfolding renewed_once_def links_added_def by fastforce
  have loop: "renewal_loop cfg due env is (c1, f1) v = ((c', f'), w')"
    using Cons.prems(4) v by (auto simp: c1_def f1_def split: sum.splits if_splits)
  from Cons.IH [OF dv Cons.prems(2) _ loop] Cons.prems(3) obtain new where
    new: "payment_links (wdb w') = payment_links (wdb v) @ new" "set (map (\<lambda>l. fst (snd l)) new) \<subseteq> set is"
      "distinct (map (\<lambda>l. fst (snd l)) new)" "\<forall>l \<in> set new. snd (snd l) = None"
    and counts: "c1 \<le> c'" "c' - c1 \<le> length new" "f1 \<le> f'" "c' + f' \<le> c1 + f1 + length is" and d': "tables_distinct (wdb w')"
    by auto
  have "c' - c \<le> length (first @ new)" using counts(1,2) first(3) by (cases first) (auto simp: c1_def split: if_splits)
  moreover have "c \<le> c'" "f \<le> f'" "c' + f' \<le> c + f + length (i # is)"
    using counts by (auto simp: c1_def f1_def split: sum.splits if_splits)
  moreover have "distinct (map (\<lambda>l. fst (snd l)) (first @ new))" using first(2) new(2,3) Cons.prems(3) by auto
  ultimately show ?case
    using first(1,2) new d' by (intro exI [of _ "first @ new"]) auto
qed simp

lemma wallet_available_iff: "wallet_available cfg u \<longleftrightarrow>
    has_clink u \<and> is_payment_method_enabled cfg CLINK \<or> has_nwc u \<and> is_payment_method_enabled cfg NWC"
  by (auto simp: wallet_available_def automatic_methods_def)

lemma due_renewals_selected:
  assumes d: "tables_distinct db"
  shows "distinct (due_renewals cfg due n db)" "length (due_renewals cfg due n db) \<le> n"
    "i \<in> set (due_renewals cfg due n db) \<Longrightarrow> \<exists>s. get_subscription db i = Some s \<and> due_renewal cfg due db s"
proof -
  let ?sel = "sort_key (\<lambda>s. the (current_period_end s)) (sort_key sub_id (filter (due_renewal cfg due db) (subscriptions db)))"
  have "distinct (map sub_id ?sel)" using d by (simp add: tables_distinct_def distinct_map_filter)
  then show "distinct (due_renewals cfg due n db)" by (simp add: due_renewals_def take_map [symmetric] del: distinct_map_sort_key)
  show "length (due_renewals cfg due n db) \<le> n" by (simp add: due_renewals_def)
  assume "i \<in> set (due_renewals cfg due n db)"
  then obtain s where s: "s \<in> set (take n ?sel)" "sub_id s = i" by (auto simp: due_renewals_def)
  then have "s \<in> set ?sel" using in_set_takeD by fast
  then show "\<exists>s. get_subscription db i = Some s \<and> due_renewal cfg due db s"
    using s(2) d by (auto simp: tables_distinct_def get_subscription_def intro!: exI [of _ s] get_row_unique)
qed

lemma keeps_reconcile_one: "pays.keeps (reconcile_one cfg gw now i)"
proof (rule pays.keepsI)
  fix w
  have "pays.keeps (andthen (check_and_settle_payment cfg gw now p) (\<lambda>q. return (Some q)))" for p
    by (intro pays.keeps_andthen pays.keeps_check_and_settle pays.keeps_return)
  then show "pays_run w (snd (reconcile_one cfg gw now i w))"
    using pays.keepsD pays.R_refl by (auto simp: reconcile_one_def return_def split: option.splits)
qed

definition counted :: "reconciliation_summary \<Rightarrow> nat" where
  "counted s = paid_count s + expired_count s + pending_count s + skipped s + failed_count s"

lemma count_result_counted: "counted (count_result r s) = Suc (counted s) \<and> scanned (count_result r s) = scanned s"
  by (simp add: count_result_def counted_def split: sum.splits option.splits payment_status.splits)

lemma reconcile_loop_run:
  "pays_run w (snd (reconcile_loop cfg env is s w)) \<and>
   counted (fst (reconcile_loop cfg env is s w)) = counted s + length is \<and> scanned (fst (reconcile_loop cfg env is s w)) = scanned s"
proof (induction "is" arbitrary: s w)
  case (Cons i "is")
  obtain r and v :: world where v: "reconcile_one cfg (fst (env i)) (snd (env i)) i w = (r, v)" by (rule prod.exhaust)
  then have "pays_run w v" using pays.keepsD [OF keeps_reconcile_one] by (metis snd_conv)
  then show ?case using Cons [of v "count_result r s"] v pays.R_trans count_result_counted [of r s] by auto
qed (simp add: pays.R_refl)

lemma reconcile_batch_run:
  assumes "reconcile_batch cfg env n w = (s, w')"
  shows "pays_run w w' \<and> scanned s \<le> n \<and> counted s = scanned s"
proof -
  let ?ids = "reconcilable_payments cfg (scan_now env) n (wdb w)"
  have "length ?ids \<le> n" by (simp add: reconcilable_payments_def)
  then show ?thesis
    using assms reconcile_loop_run [of w cfg "poll_env env" ?ids "empty_summary\<lparr>scanned := length ?ids\<rparr>"]
    by (simp add: reconcile_batch_def Let_def counted_def empty_summary_def)
qed

text \<open>A cycle that returns, cut into its three phases.\<close>

lemma cycle_phases:
  assumes "reconcile_pending_payments_once cfg env (Some n) w = (Inr s, w')"
  obtains k v s1 u c f where "1 \<le> n" "n \<le> 1000" "reap_expired_domain_claims cfg (reap_gw env) (reap_now env) w = (Inr k, v)"
    "reconcile_batch cfg env (nat n) v = (s1, u)"
    "create_due_auto_renewals cfg (due_now env) (renewal_envs env) (nat n) u = ((c, f), w')"
    "s = s1\<lparr>auto_renewed := c, failed_count := failed_count s1 + f\<rparr>"
  using assms that by (auto simp: reconcile_pending_payments_once_def Let_def raise_def return_def andthen_def
      split: if_splits sum.splits prod.splits)

lemma auto_renewals_links:
  assumes d: "tables_distinct (wdb u)" and q: "\<forall>i. quiet_env (env i)"
    and run: "create_due_auto_renewals cfg now env n u = ((c, f), w')"
  shows "\<exists>new. payment_links (wdb w') = payment_links (wdb u) @ new \<and> distinct (map (\<lambda>l. fst (snd l)) new) \<and>
    c \<le> length new \<and> c + f \<le> n \<and> length new \<le> n \<and>
    (\<forall>l \<in> set new. snd (snd l) = None \<and> (\<exists>sub. get_subscription (wdb u) (fst (snd l)) = Some sub \<and>
       due_renewal cfg (now + seconds (NWC_AUTO_RENEW_LEAD_SECONDS cfg)) (wdb u) sub))"
proof (cases "automatic_methods cfg = []")
  case True
  then show ?thesis using run by (auto simp: create_due_auto_renewals_def)
next
  case False
  let ?due = "now + seconds (NWC_AUTO_RENEW_LEAD_SECONDS cfg)"
  let ?is = "due_renewals cfg ?due n (wdb u)"
  note sel = due_renewals_selected [OF d, where cfg = cfg and due = ?due and n = n]
  have loop: "renewal_loop cfg ?due env ?is (0, 0) u = ((c, f), w')"
    using run False by (simp add: create_due_auto_renewals_def Let_def)
  from renewal_loop_links [OF d q sel(1) loop] obtain new where
    new: "payment_links (wdb w') = payment_links (wdb u) @ new" "set (map (\<lambda>l. fst (snd l)) new) \<subseteq> set ?is"
      "distinct (map (\<lambda>l. fst (snd l)) new)" "\<forall>l \<in> set new. snd (snd l) = None" "c \<le> length new" "c + f \<le> length ?is"
    by auto
  have "length new \<le> length ?is"
    using card_mono [OF _ new(2)] distinct_card [OF new(3)] distinct_card [OF sel(1)] by simp
  moreover have "\<exists>sub. get_subscription (wdb u) (fst (snd l)) = Some sub \<and> due_renewal cfg ?due (wdb u) sub" if "l \<in> set new" for l
    using that new(2) by (intro sel(3)) auto
  ultimately show ?thesis using new sel(2) by (intro exI [of _ new]) auto
qed

section \<open>Properties\<close>

text \<open>
  C19: one cycle of the reconciler, with no other session in the middle of a renewal. It looks at no more
  payments than its batch, counts each of them once, and every payment it adds is a renewal: at most one per
  subscription and no more than the batch, only for a subscription that, after the payments were polled, was
  active, renewed automatically and due within the lead time, of a customer who is neither suspended nor an
  administrator and has an enabled wallet. Every renewal it reports is a payment it added.
\<close>

theorem reconciliation_cycle_sound:
  assumes d: "tables_distinct (wdb w)"
    and q: "\<forall>i. renew_verifying (renewal_envs env i) = id \<and> renew_racing (renewal_envs env i) = id"
    and run: "reconcile_pending_payments_once cfg env (Some n) w = (Inr s, w')"
  shows "let u = snd (reconcile_batch cfg env (nat n) (snd (reap_expired_domain_claims cfg (reap_gw env) (reap_now env) w)));
      total = paid_count s + expired_count s + pending_count s + skipped s + failed_count s
    in 1 \<le> n \<and> n \<le> 1000 \<and> scanned s \<le> nat n \<and> scanned s \<le> total \<and> total + auto_renewed s \<le> scanned s + nat n \<and>
      (\<exists>new. payment_links (wdb w') = payment_links (wdb w) @ new \<and> distinct (map (\<lambda>l. fst (snd l)) new) \<and>
        length new \<le> nat n \<and> auto_renewed s \<le> length new \<and>
        (\<forall>(pid, sid, order) \<in> set new. order = None \<and>
          (\<exists>sub user e. get_subscription (wdb u) sid = Some sub \<and> auto_renew sub \<and> sub_status sub = SubACTIVE \<and>
             current_period_end sub = Some e \<and> e \<le> due_now env + seconds (NWC_AUTO_RENEW_LEAD_SECONDS cfg) \<and>
             get_user (wdb u) (sub_user_id sub) = Some user \<and> \<not> is_admin user \<and> \<not> is_suspended user \<and>
             (has_clink user \<and> is_payment_method_enabled cfg CLINK \<or> has_nwc user \<and> is_payment_method_enabled cfg NWC))))"
proof -
  obtain k v s1 u c f where n: "1 \<le> n" "n \<le> 1000"
    and v: "reap_expired_domain_claims cfg (reap_gw env) (reap_now env) w = (Inr k, v)"
    and u: "reconcile_batch cfg env (nat n) v = (s1, u)"
    and loop: "create_due_auto_renewals cfg (due_now env) (renewal_envs env) (nat n) u = ((c, f), w')"
    and s: "s = s1\<lparr>auto_renewed := c, failed_count := failed_count s1 + f\<rparr>"
    using run by (rule cycle_phases)
  have wv: "pays_run w v" using pays.keepsD [OF pays.keeps_reap, of w cfg "reap_gw env" "reap_now env"] v by simp
  note batch = reconcile_batch_run [OF u]
  note wu = pays_run_links [OF pays.R_trans [OF wv conjunct1 [OF batch]] d]
  have "\<forall>i. quiet_env (renewal_envs env i)" using q by (simp add: quiet_env_def)
  from auto_renewals_links [OF wu(4) this loop] obtain new where
    new: "payment_links (wdb w') = payment_links (wdb w) @ new" "distinct (map (\<lambda>l. fst (snd l)) new)" "length new \<le> nat n"
    and c: "c \<le> length new" "c + f \<le> nat n"
    and each: "\<forall>l \<in> set new. snd (snd l) = None \<and> (\<exists>sub. get_subscription (wdb u) (fst (snd l)) = Some sub \<and>
       due_renewal cfg (due_now env + seconds (NWC_AUTO_RENEW_LEAD_SECONDS cfg)) (wdb u) sub)"
    using wu(1) by auto
  have due: "\<exists>user e. auto_renew sub \<and> sub_status sub = SubACTIVE \<and>
             current_period_end sub = Some e \<and> e \<le> due \<and>
             get_user db (sub_user_id sub) = Some user \<and> \<not> is_admin user \<and> \<not> is_suspended user \<and>
             (has_clink user \<and> is_payment_method_enabled cfg CLINK \<or> has_nwc user \<and> is_payment_method_enabled cfg NWC)"
    if "due_renewal cfg due db sub" for due db sub
    using that by (auto simp: due_renewal_def due_by_def wallet_available_iff split: option.splits)
  have "counted s1 = scanned s1" "scanned s1 \<le> nat n" using batch by auto
  then show ?thesis
    using n s new c each due v u unfolding Let_def counted_def by (auto split: prod.splits intro!: exI [of _ new])
qed

definition renewing_subscription :: subscription where
  "renewing_subscription = sample_subscription\<lparr>sub_status := SubACTIVE, auto_renew := True, current_period_end := Some (days 2),
     assigned_ip := Some ''198.51.100.7'', assigned_port := Some 20001\<rparr>"

definition renewing_world :: world where
  "renewing_world = \<lparr> wdb = empty_database\<lparr>users := [sample_user\<lparr>has_nwc := True, nwc_credential := Some (''key'', ''box'')\<rparr>],
     subscriptions := [renewing_subscription], next_id := 2\<rparr>, calls = [] \<rparr>"

definition wallet_gateway :: gateway where
  "wallet_gateway = paying_gateway\<lparr>lnd_state := (\<lambda>_ _. Some InvSETTLED), decrypt := (\<lambda>_ _. Some ''uri'')\<rparr>"

definition quiet_cycle :: cycle_env where
  "quiet_cycle = \<lparr> reap_gw = paying_gateway, reap_now = 0, scan_now = 0, poll_env = (\<lambda>_. (paying_gateway, 0)), due_now = 0,
     renewal_envs = (\<lambda>_. \<lparr> renew_gw = wallet_gateway, renew_now = 0, renew_rnd = (\<lambda>_. 0),
       renew_dns = \<lparr> verify_txt = (\<lambda>_ _. None), verify_cname = (\<lambda>_ _. None) \<rparr>, renew_verifying = id, renew_racing = id \<rparr>) \<rparr>"

theorem reconciliation_cycle_sound_witness:
  "\<exists>s w' new. reconcile_pending_payments_once lnd_settings quiet_cycle (Some 10) renewing_world = (Inr s, w') \<and>
     scanned s \<le> 10 \<and> auto_renewed s = 1 \<and> 1 \<le> length new \<and>
     payment_links (wdb w') = payment_links (wdb renewing_world) @ new"
proof -
  let ?run = "reconcile_pending_payments_once lnd_settings quiet_cycle (Some 10) renewing_world"
  have "(case fst ?run of Inl _ \<Rightarrow> False | Inr s \<Rightarrow> auto_renewed s = 1)" by code_simp
  then obtain s w' where run: "?run = (Inr s, w')" and s: "auto_renewed s = 1"
    by (cases ?run) (auto split: sum.splits)
  have d: "tables_distinct (wdb renewing_world)"
    by (simp add: tables_distinct_def renewing_world_def empty_database_def)
  have q: "\<forall>i. renew_verifying (renewal_envs quiet_cycle i) = id \<and> renew_racing (renewal_envs quiet_cycle i) = id"
    by (simp add: quiet_cycle_def)
  show ?thesis using reconciliation_cycle_sound [OF d q run] run s unfolding Let_def by auto
qed

section \<open>Health of the worker\<close>






text \<open>The worker never spins: it always waits, and at most one interval unless its clock ran ahead.\<close>

lemma next_tick_bounds:
  assumes "0 < interval"
  shows "now < next_tick interval n now" "n \<le> now \<Longrightarrow> next_tick interval n now \<le> now + interval"
  using assms by (auto simp: next_tick_def Let_def)

end
