(* ===== verification/WireGuard.thy ===== *)
theory WireGuard
  imports Subscription_Lifecycle Client_Enrollment "HOL-Library.Char_ord" "HOL-Library.List_Lexorder"
begin

text \<open>
  WireGuard delivery of dedicated addresses (\<^verbatim>\<open>services/wireguard.py\<close>, \<^verbatim>\<open>core/wireguard.py\<close>): the enrollment
  and rotation of an account's peer key, signed by its enrolled identity, and the snapshot of peers and
  routed prefixes the relay applies. Verification of a signature under a certificate and the digest of a
  snapshot are parameters; \<open>racing\<close> is what other sessions commit between reading the peer and writing it.
\<close>

section \<open>State\<close>

record wireguard_peer =
  peer_user_id :: int
  peer_instance_id :: string
  peer_public_key :: string
  peer_generation :: int
  peer_created_at :: time
  peer_updated_at :: time

record wireguard_db =
  main_db :: database
  credentials :: "client_credential list"
  peers :: "wireguard_peer list"

datatype signature_result = SigValid | SigInvalid | SigMalformed | SigOtherKey

record wireguard_env =
  wg_settings :: settings
  wg_seal :: sealer
  WIREGUARD_RELAY_PUBLIC_KEY :: string
  WIREGUARD_ENDPOINT :: string
  WIREGUARD_MTU :: int
  WIREGUARD_PERSISTENT_KEEPALIVE_SECONDS :: int
  check_signature :: "string \<Rightarrow> string \<Rightarrow> string \<Rightarrow> signature_result"
  digest :: "string \<Rightarrow> string"

datatype wireguard_error =
    WireGuardEnrollmentConflictError string
  | WireGuardValueError string
  | WireGuardOther error

type_synonym 'a wg = "wireguard_db \<Rightarrow> (wireguard_error + 'a) \<times> wireguard_db"

record client_config =
  cc_instance_id :: string
  cc_generation :: int
  cc_public_key :: "string option"
  assigned_prefixes :: "string list"
  relay_public_key :: string
  endpoint :: string
  mtu :: int
  persistent_keepalive_seconds :: int

definition load_peer :: "int \<Rightarrow> wireguard_db \<Rightarrow> wireguard_peer option" where
  "load_peer uid st = get_row peer_user_id uid (peers st)"

text \<open>The primary key and the unique column of the peer table.\<close>

definition peer_indexes :: "wireguard_peer list \<Rightarrow> bool" where
  "peer_indexes ps = (distinct (map peer_user_id ps) \<and> distinct (map peer_public_key ps))"

definition wireguard_enrollment_message :: "string \<Rightarrow> int \<Rightarrow> string \<Rightarrow> string" where
  "wireguard_enrollment_message inst gen key =
     ''blindport-wireguard-key-v1'' @ [CHR 0x0A] @ ''instance_id='' @ inst @ [CHR 0x0A] @
     ''generation='' @ str_int gen @ [CHR 0x0A] @ ''public_key='' @ key @ [CHR 0x0A]"

section \<open>Active routed subscriptions\<close>

definition prefix_of :: "subscription \<Rightarrow> string" where
  "prefix_of s = the (assigned_ip s) @ ''/32''"

definition routed_row :: "database \<Rightarrow> int option \<Rightarrow> subscription \<Rightarrow> bool" where
  "routed_row db uid s =
     (product s = IP \<and> delivery s = WIREGUARD \<and> sub_status s = SubACTIVE \<and>
      (case get_user db (sub_user_id s) of None \<Rightarrow> False | Some u \<Rightarrow> \<not> is_suspended u) \<and>
      (case uid of None \<Rightarrow> True | Some i \<Rightarrow> sub_user_id s = i))"

definition active_routed_subscriptions ::
  "wireguard_env \<Rightarrow> time \<Rightarrow> int option \<Rightarrow> subscription list wg" where
  "active_routed_subscriptions env now uid st =
     (case expire_elapsed_subscriptions (wg_settings env) (wg_seal env) now
             (filter (routed_row (main_db st) uid) (subscriptions (main_db st))) (main_db st) of
        Inl e \<Rightarrow> (Inl (WireGuardOther e), st)
      | Inr (rows, db) \<Rightarrow>
          (Inr (filter (\<lambda>s. sub_status s = SubACTIVE \<and> assigned_ip s \<noteq> None) rows), st\<lparr>main_db := db\<rparr>))"

definition client_config_of :: "wireguard_env \<Rightarrow> time \<Rightarrow> int \<Rightarrow> client_config wg" where
  "client_config_of env now uid st =
     (case active_routed_subscriptions env now (Some uid) st of
        (Inl e, st') \<Rightarrow> (Inl e, st')
      | (Inr rows, st') \<Rightarrow>
          if rows = [] then (Inl (WireGuardValueError ''account has no active WireGuard Blindport IP subscription''), st')
          else case load_credential uid (credentials st') of
            None \<Rightarrow> (Inl (WireGuardEnrollmentConflictError ''client identity must be enrolled first''), st')
          | Some c \<Rightarrow>
              let peer = (case load_peer uid st' of
                            None \<Rightarrow> None
                          | Some p \<Rightarrow> if peer_instance_id p \<noteq> cred_instance_id c then None else Some p)
              in (Inr \<lparr> cc_instance_id = cred_instance_id c,
                    cc_generation = (case peer of None \<Rightarrow> 0 | Some p \<Rightarrow> peer_generation p),
                    cc_public_key = map_option peer_public_key peer,
                    assigned_prefixes = sort (map prefix_of rows),
                    relay_public_key = WIREGUARD_RELAY_PUBLIC_KEY env,
                    endpoint = WIREGUARD_ENDPOINT env, mtu = WIREGUARD_MTU env,
                    persistent_keepalive_seconds = WIREGUARD_PERSISTENT_KEEPALIVE_SECONDS env \<rparr>, st'))"

section \<open>Enrollment of a key\<close>

definition verify_identity_signature ::
  "wireguard_env \<Rightarrow> client_credential \<Rightarrow> string \<Rightarrow> int \<Rightarrow> string \<Rightarrow> string \<Rightarrow> wireguard_error option" where
  "verify_identity_signature env c inst gen key sig =
     (if cred_instance_id c \<noteq> inst
      then Some (WireGuardEnrollmentConflictError ''instance_id does not match enrolled identity'')
      else case check_signature env (client_cert_pem c) sig (wireguard_enrollment_message inst gen key) of
        SigValid \<Rightarrow> None
      | SigInvalid \<Rightarrow> Some (WireGuardValueError ''WireGuard key signature is invalid'')
      | SigMalformed \<Rightarrow> Some (WireGuardValueError ''binascii.Error'')
      | SigOtherKey \<Rightarrow> Some (WireGuardValueError ''enrolled identity key is not Ed25519''))"

definition raise_conflict :: "wireguard_peer option \<Rightarrow> string \<Rightarrow> int \<Rightarrow> wireguard_error" where
  "raise_conflict current inst gen =
     WireGuardEnrollmentConflictError
       (case current of
          None \<Rightarrow> ''WireGuard public key is already enrolled''
        | Some p \<Rightarrow>
            if peer_instance_id p \<noteq> inst then ''a different instance_id owns the WireGuard key''
            else if gen < peer_generation p then ''generation is stale''
            else ''generation must advance by exactly one'')"

text \<open>
  A conditional update of the account's row: the number of rows it hit, or a violated index. The unique
  constraints are immediate, so the violation is raised by the statement itself, before the guarded commit.
\<close>

definition update_peer ::
  "(wireguard_peer \<Rightarrow> bool) \<Rightarrow> (wireguard_peer \<Rightarrow> wireguard_peer) \<Rightarrow> wireguard_db \<Rightarrow> (nat \<times> wireguard_db) option" where
  "update_peer matches f st =
     (let ps = update_where matches f (peers st)
      in if peer_indexes ps then Some (row_count matches (peers st), st\<lparr>peers := ps\<rparr>) else None)"

text \<open>What follows a commit: the lost update is only accepted when the winner wrote the same.\<close>

definition after_write ::
  "(wireguard_peer \<Rightarrow> bool) \<Rightarrow> wireguard_env \<Rightarrow> time \<Rightarrow> int \<Rightarrow> string \<Rightarrow> int \<Rightarrow> bool \<Rightarrow> client_config wg" where
  "after_write same env now uid inst gen won st =
     (if won then client_config_of env now uid st
      else case load_peer uid st of
        None \<Rightarrow> (Inl (raise_conflict None inst gen), st)
      | Some winner \<Rightarrow>
          if same winner then client_config_of env now uid st
          else (Inl (raise_conflict (Some winner) inst gen), st))"

definition reset_peer ::
  "wireguard_env \<Rightarrow> time \<Rightarrow> int \<Rightarrow> string \<Rightarrow> int \<Rightarrow> string \<Rightarrow> wireguard_peer \<Rightarrow> client_config wg" where
  "reset_peer env now uid inst gen key current st =
     (case update_peer
             (\<lambda>p. peer_user_id p = uid \<and> peer_instance_id p = peer_instance_id current \<and>
                  peer_generation p = peer_generation current)
             (\<lambda>p. p\<lparr>peer_instance_id := inst, peer_public_key := key, peer_generation := gen, peer_updated_at := now\<rparr>) st of
        None \<Rightarrow> (Inl (WireGuardOther IntegrityError), st)
      | Some (n, st') \<Rightarrow>
          after_write (\<lambda>w. peer_instance_id w = inst \<and> peer_public_key w = key \<and> peer_generation w = gen)
            env now uid inst gen (n = 1) st')"

definition insert_peer ::
  "wireguard_env \<Rightarrow> time \<Rightarrow> int \<Rightarrow> string \<Rightarrow> int \<Rightarrow> string \<Rightarrow> client_config wg" where
  "insert_peer env now uid inst gen key st =
     (let ps = peers st @ [\<lparr> peer_user_id = uid, peer_instance_id = inst, peer_public_key = key,
                 peer_generation = gen, peer_created_at = now, peer_updated_at = now \<rparr>];
          same = (\<lambda>w. peer_public_key w = key \<and> peer_generation w = gen)
      in if peer_indexes ps then after_write same env now uid inst gen True (st\<lparr>peers := ps\<rparr>)
         else after_write same env now uid inst gen False st)"

definition rotate_peer ::
  "wireguard_env \<Rightarrow> time \<Rightarrow> int \<Rightarrow> string \<Rightarrow> int \<Rightarrow> string \<Rightarrow> wireguard_peer \<Rightarrow> client_config wg" where
  "rotate_peer env now uid inst gen key current st =
     (case update_peer
             (\<lambda>p. peer_user_id p = uid \<and> peer_instance_id p = inst \<and> peer_generation p = peer_generation current)
             (\<lambda>p. p\<lparr>peer_public_key := key, peer_generation := gen, peer_updated_at := now\<rparr>) st of
        None \<Rightarrow> (Inl (WireGuardOther IntegrityError), st)
      | Some (n, st') \<Rightarrow>
          after_write (\<lambda>w. peer_public_key w = key \<and> peer_generation w = gen) env now uid inst gen (n = 1) st')"

definition write_key ::
  "wireguard_env \<Rightarrow> time \<Rightarrow> (wireguard_db \<Rightarrow> wireguard_db) \<Rightarrow> int \<Rightarrow> string \<Rightarrow> int \<Rightarrow> string \<Rightarrow> client_config \<Rightarrow> client_config wg" where
  "write_key env now racing uid inst gen key config st =
     (case load_peer uid st of
        None \<Rightarrow>
          if gen \<noteq> 1 then (Inl (WireGuardEnrollmentConflictError ''first enrollment requires generation 1''), st)
          else insert_peer env now uid inst gen key (racing st)
      | Some current \<Rightarrow>
          if peer_instance_id current \<noteq> inst then
            if gen \<noteq> 1
            then (Inl (WireGuardEnrollmentConflictError ''first enrollment after an identity reset requires generation 1''), st)
            else reset_peer env now uid inst gen key current (racing st)
          else if peer_public_key current = key \<and> peer_generation current = gen then (Inr config, st)
          else if gen \<noteq> peer_generation current + 1 then (Inl (raise_conflict (Some current) inst gen), st)
          else rotate_peer env now uid inst gen key current (racing st))"

definition enroll_key ::
  "wireguard_env \<Rightarrow> time \<Rightarrow> (wireguard_db \<Rightarrow> wireguard_db) \<Rightarrow> int \<Rightarrow> string \<Rightarrow> int \<Rightarrow> string \<Rightarrow> string \<Rightarrow> client_config wg" where
  "enroll_key env now racing uid inst gen key sig st =
     (case client_config_of env now uid st of
        (Inl e, st1) \<Rightarrow> (Inl e, st1)
      | (Inr config, st1) \<Rightarrow>
          (case load_credential uid (credentials st1) of
             None \<Rightarrow> (Inl (WireGuardEnrollmentConflictError ''client identity must be enrolled first''), st1)
           | Some c \<Rightarrow>
               (case verify_identity_signature env c inst gen key sig of
                  Some e \<Rightarrow> (Inl e, st1)
                | None \<Rightarrow> write_key env now racing uid inst gen key config st1)))"

section \<open>Snapshots for the relay\<close>

record desired_peer =
  dp_public_key :: string
  allowed_prefixes :: "string list"

record desired_state =
  revision :: string
  generated_at :: time
  managed_prefixes :: "string list"
  desired_peers :: "desired_peer list"

record desired_state_v2 = desired_state +
  smtp_allowed_prefixes :: "string list"

record desired_state_v3 = desired_state_v2 +
  prefix_bindings :: "(string \<times> string) list"

text \<open>\<^verbatim>\<open>prefixes_by_user.setdefault(user_id, []).append(prefix)\<close> on a dictionary in insertion order.\<close>

fun append_prefix :: "int \<Rightarrow> string \<Rightarrow> (int \<times> string list) list \<Rightarrow> (int \<times> string list) list" where
  "append_prefix uid p [] = [(uid, [p])]"
| "append_prefix uid p ((u, ps) # rest) = (if u = uid then (u, ps @ [p]) # rest else (u, ps) # append_prefix uid p rest)"

definition prefixes_by_user :: "subscription list \<Rightarrow> (int \<times> string list) list" where
  "prefixes_by_user rows = fold (\<lambda>r. append_prefix (sub_user_id r) (prefix_of r)) rows []"

definition desired_peer_of :: "wireguard_db \<Rightarrow> int \<times> string list \<Rightarrow> desired_peer option" where
  "desired_peer_of st up =
     (case (load_peer (fst up) st, load_credential (fst up) (credentials st)) of
        (Some p, Some c) \<Rightarrow>
          if peer_instance_id p = cred_instance_id c
          then Some \<lparr> dp_public_key = peer_public_key p, allowed_prefixes = sort (snd up) \<rparr> else None
      | _ \<Rightarrow> None)"

text \<open>
  \<^verbatim>\<open>json.dumps\<close> with sorted keys and no blanks, of addresses, keys and identifiers: of the characters they
  may hold only quote and backslash would be escaped.
\<close>

definition json_string :: "string \<Rightarrow> string" where
  "json_string s =
     [CHR 0x22] @ concat (map (\<lambda>c. if c = CHR 0x22 \<or> c = CHR 0x5C then [CHR 0x5C, c] else [c]) s) @ [CHR 0x22]"

definition json_list :: "string list \<Rightarrow> string" where
  "json_list xs = ''['' @ join_on '','' xs @ '']''"

definition json_object :: "(string \<times> string) list \<Rightarrow> string" where
  "json_object kvs = ''{'' @ join_on '','' (map (\<lambda>(k, v). json_string k @ '':'' @ v) kvs) @ ''}''"

definition json_strings :: "string list \<Rightarrow> string" where
  "json_strings xs = json_list (map json_string xs)"

definition json_peers :: "desired_peer list \<Rightarrow> string" where
  "json_peers ps = json_list (map (\<lambda>p. json_object
     [(''allowed_prefixes'', json_strings (allowed_prefixes p)), (''public_key'', json_string (dp_public_key p))]) ps)"

definition desired_state_of :: "wireguard_env \<Rightarrow> time \<Rightarrow> desired_state wg" where
  "desired_state_of env now st =
     (case active_routed_subscriptions env now None st of
        (Inl e, st') \<Rightarrow> (Inl e, st')
      | (Inr rows, st') \<Rightarrow>
          let ps = sort_key dp_public_key (List.map_filter (desired_peer_of st') (prefixes_by_user rows));
              managed = sort (map (\<lambda>a. a @ ''/32'') (wireguard_public_ips_list (wg_settings env)))
          in (Inr \<lparr> revision = digest env (json_object [(''managed_prefixes'', json_strings managed), (''peers'', json_peers ps)]),
                generated_at = now, managed_prefixes = managed, desired_peers = ps \<rparr>, st'))"

definition smtp_approved_lease :: "ip_lease \<Rightarrow> bool" where
  "smtp_approved_lease l =
     (lease_delivery l = WIREGUARD \<and> lease_state l = LeaseACTIVE \<and> released_at l = None \<and> smtp_enabled l \<and>
      smtp_reviewed_at l \<noteq> None \<and> smtp_revoked_at l = None)"

definition desired_state_v2_of :: "wireguard_env \<Rightarrow> time \<Rightarrow> desired_state_v2 wg" where
  "desired_state_v2_of env now st =
     (case desired_state_of env now st of
        (Inl e, st') \<Rightarrow> (Inl e, st')
      | (Inr base, st') \<Rightarrow>
          let active = concat (map allowed_prefixes (desired_peers base));
              smtp = sort (filter (\<lambda>p. p \<in> set active)
                (map (\<lambda>l. lease_address l @ ''/32'') (filter smtp_approved_lease (leases (main_db st')))))
          in (Inr \<lparr> revision = digest env (json_object [(''managed_prefixes'', json_strings (managed_prefixes base)),
                    (''peers'', json_peers (desired_peers base)), (''smtp_allowed_prefixes'', json_strings smtp)]),
                generated_at = generated_at base, managed_prefixes = managed_prefixes base,
                desired_peers = desired_peers base, smtp_allowed_prefixes = smtp \<rparr>, st'))"

text \<open>The bindings are read by a second query, at its own clock reading \<open>later\<close>.\<close>

definition desired_state_v3_of :: "wireguard_env \<Rightarrow> time \<Rightarrow> time \<Rightarrow> desired_state_v3 wg" where
  "desired_state_v3_of env now later st =
     (case desired_state_v2_of env now st of
        (Inl e, st') \<Rightarrow> (Inl e, st')
      | (Inr base, st') \<Rightarrow>
          (case active_routed_subscriptions env later None st' of
             (Inl e, st2) \<Rightarrow> (Inl e, st2)
           | (Inr rows, st2) \<Rightarrow>
               let bindings = sort_key fst (map (\<lambda>s. (prefix_of s, sub_public_id s)) rows)
               in (Inr \<lparr> revision = digest env (json_object [(''managed_prefixes'', json_strings (managed_prefixes base)),
                         (''peers'', json_peers (desired_peers base)),
                         (''prefix_bindings'', json_list (map (\<lambda>(p, i). json_object
                            [(''prefix'', json_string p), (''subscription_id'', json_string i)]) bindings)),
                         (''smtp_allowed_prefixes'', json_strings (smtp_allowed_prefixes base))]),
                     generated_at = generated_at base, managed_prefixes = managed_prefixes base,
                     desired_peers = desired_peers base, smtp_allowed_prefixes = smtp_allowed_prefixes base,
                     prefix_bindings = bindings \<rparr>, st2)))"

section \<open>Grouping by account\<close>

lemma append_prefix_lookup:
  "map_of (append_prefix u p m) = (map_of m)(u \<mapsto> (case map_of m u of None \<Rightarrow> [p] | Some ps \<Rightarrow> ps @ [p]))"
  by (induction u p m rule: append_prefix.induct) (auto split: option.splits)

lemma append_prefix_keys: "distinct (map fst m) \<Longrightarrow> distinct (map fst (append_prefix u p m)) \<and> fst ` set (append_prefix u p m) = insert u (fst ` set m)"
  by (induction u p m rule: append_prefix.induct) auto

lemma prefixes_by_user_lookup:
  "map_of (prefixes_by_user rows) u =
     (let ps = map prefix_of (filter (\<lambda>r. sub_user_id r = u) rows) in if ps = [] then None else Some ps)"
  unfolding prefixes_by_user_def
  by (induction rows rule: rev_induct) (auto simp: append_prefix_lookup Let_def split: option.splits if_splits)

lemma prefixes_by_user_keys: "distinct (map fst (prefixes_by_user rows))"
  unfolding prefixes_by_user_def by (induction rows rule: rev_induct) (simp_all add: append_prefix_keys)

lemma in_prefixes_by_user:
  "(u, ps) \<in> set (prefixes_by_user rows) \<longleftrightarrow> ps = map prefix_of (filter (\<lambda>r. sub_user_id r = u) rows) \<and> ps \<noteq> []"
  using prefixes_by_user_lookup [of rows u] map_of_eq_Some_iff [OF prefixes_by_user_keys, of rows u ps]
  by (auto simp: Let_def split: if_splits)

section \<open>The peers of a snapshot\<close>

text \<open>The subscriptions whose address is routed now, and the key it is routed to.\<close>

definition routed_to :: "wireguard_db \<Rightarrow> time \<Rightarrow> string \<Rightarrow> subscription \<Rightarrow> bool" where
  "routed_to st now key s \<longleftrightarrow> s \<in> set (subscriptions (main_db st)) \<and> routed_row (main_db st) None s \<and>
     assigned_ip s \<noteq> None \<and> \<not> has_elapsed now s \<and>
     (\<exists>p c. load_peer (sub_user_id s) st = Some p \<and> load_credential (sub_user_id s) (credentials st) = Some c \<and>
        peer_instance_id p = cred_instance_id c \<and> peer_public_key p = key)"

lemma active_rows:
  assumes run: "active_routed_subscriptions env now uid st = (Inr rows, st')"
    and d: "distinct (map sub_id (subscriptions (main_db st)))"
  shows "rows = filter (\<lambda>s. routed_row (main_db st) uid s \<and> \<not> has_elapsed now s \<and> assigned_ip s \<noteq> None) (subscriptions (main_db st))"
    "peers st' = peers st" "credentials st' = credentials st"
proof -
  let ?sel = "filter (routed_row (main_db st) uid) (subscriptions (main_db st))"
  from run obtain rows' db where exp: "expire_elapsed_subscriptions (wg_settings env) (wg_seal env) now ?sel (main_db st) = Inr (rows', db)"
    and rows: "rows = filter (\<lambda>s. sub_status s = SubACTIVE \<and> assigned_ip s \<noteq> None) rows'" and st': "st' = st\<lparr>main_db := db\<rparr>"
    by (auto simp: active_routed_subscriptions_def split: sum.splits)
  have "distinct ?sel" using d by (simp add: distinct_map)
  then have "rows = filter (\<lambda>s. sub_status s = SubACTIVE \<and> \<not> has_elapsed now s \<and> assigned_ip s \<noteq> None) ?sel"
    unfolding rows using expire_elapsed_active [OF exp _ d] by auto
  then show "rows = filter (\<lambda>s. routed_row (main_db st) uid s \<and> \<not> has_elapsed now s \<and> assigned_ip s \<noteq> None) (subscriptions (main_db st))"
    by (auto simp: routed_row_def intro!: filter_cong)
  show "peers st' = peers st" "credentials st' = credentials st" using st' by simp_all
qed

lemma desired_peer_ofD:
  assumes "desired_peer_of st (u, ps) = Some dp"
  shows "\<exists>p c. load_peer u st = Some p \<and> load_credential u (credentials st) = Some c \<and> peer_instance_id p = cred_instance_id c \<and>
    dp = \<lparr> dp_public_key = peer_public_key p, allowed_prefixes = sort ps \<rparr>"
  using assms by (auto simp: desired_peer_of_def split: option.splits if_splits)

lemma peer_owner:
  assumes "peer_indexes (peers st)" and "load_peer u st = Some p" and "load_peer v st = Some q" and "peer_public_key p = peer_public_key q"
  shows "u = v"
proof -
  have "p \<in> set (peers st) \<and> peer_user_id p = u" "q \<in> set (peers st) \<and> peer_user_id q = v"
    using assms(2,3) get_row_Some unfolding load_peer_def by fastforce+
  then show ?thesis using assms(1,4) by (auto simp: peer_indexes_def distinct_map dest: inj_onD)
qed

lemma desired_peers_of:
  assumes run: "desired_state_of env now st = (Inr ds, st')" and d: "distinct (map sub_id (subscriptions (main_db st)))"
  shows "set (desired_peers ds) = {dp. \<exists>u ps. ps \<noteq> [] \<and> desired_peer_of st (u, ps) = Some dp \<and>
      ps = map prefix_of (filter (\<lambda>s. sub_user_id s = u \<and> routed_row (main_db st) None s \<and> \<not> has_elapsed now s \<and> assigned_ip s \<noteq> None)
             (subscriptions (main_db st)))}"
    and "peer_indexes (peers st) \<Longrightarrow> distinct (map dp_public_key (desired_peers ds))"
proof -
  from run obtain rows where act: "active_routed_subscriptions env now None st = (Inr rows, st')"
    and ps: "desired_peers ds = sort_key dp_public_key (List.map_filter (desired_peer_of st') (prefixes_by_user rows))"
    by (auto simp: desired_state_of_def Let_def split: prod.splits sum.splits)
  note rows = active_rows [OF act d]
  have same: "desired_peer_of st' = desired_peer_of st"
    using rows(2,3) by (intro ext) (simp add: desired_peer_of_def load_peer_def)
  have sel: "filter (\<lambda>r. sub_user_id r = u) rows = filter (\<lambda>s. sub_user_id s = u \<and> routed_row (main_db st) None s \<and> \<not> has_elapsed now s \<and> assigned_ip s \<noteq> None)
             (subscriptions (main_db st))" for u
    by (auto simp: rows(1) conj_commute intro!: filter_cong)
  have "set (desired_peers ds) = {dp. \<exists>u ps. (u, ps) \<in> set (prefixes_by_user rows) \<and> desired_peer_of st (u, ps) = Some dp}"
    unfolding ps same set_sort in_map_filter by auto
  then show "set (desired_peers ds) = {dp. \<exists>u ps. ps \<noteq> [] \<and> desired_peer_of st (u, ps) = Some dp \<and>
      ps = map prefix_of (filter (\<lambda>s. sub_user_id s = u \<and> routed_row (main_db st) None s \<and> \<not> has_elapsed now s \<and> assigned_ip s \<noteq> None)
             (subscriptions (main_db st)))}"
    unfolding in_prefixes_by_user sel by blast
  assume idx: "peer_indexes (peers st)"
  have "distinct (map dp_public_key (List.map_filter (desired_peer_of st) m))" if "distinct (map fst m)" for m
    using that
  proof (induction m)
    case (Cons up m)
    have other: "dp_public_key x \<noteq> dp_public_key dp"
      if up: "desired_peer_of st up = Some dp" and x: "x \<in> set (List.map_filter (desired_peer_of st) m)" for dp x
    proof
      assume eq: "dp_public_key x = dp_public_key dp"
      obtain vq where vq: "vq \<in> set m" "desired_peer_of st vq = Some x" using x by (auto simp: in_map_filter)
      obtain p q where "load_peer (fst up) st = Some p" "dp_public_key dp = peer_public_key p"
        "load_peer (fst vq) st = Some q" "dp_public_key x = peer_public_key q"
        using desired_peer_ofD [of st "fst up" "snd up" dp] desired_peer_ofD [of st "fst vq" "snd vq" x] up vq(2) by auto
      then have "fst up = fst vq" using peer_owner [OF idx] eq by metis
      then show False using Cons.prems vq(1) by auto
    qed
    show ?case
    proof (cases "desired_peer_of st up")
      case None
      then show ?thesis using Cons by (simp add: List.map_filter_simps)
    next
      case (Some dp)
      have "dp_public_key dp \<notin> dp_public_key ` set (List.map_filter (desired_peer_of st) m)" using other [OF Some] by (auto simp: image_iff dest: sym)
      then show ?thesis using Cons Some by (simp add: List.map_filter_simps)
    qed
  qed (simp add: List.map_filter_def)
  then show "distinct (map dp_public_key (desired_peers ds))" using prefixes_by_user_keys by (simp add: ps same)
qed

text \<open>The prefixes of one peer are those of the subscriptions routed to its key.\<close>

lemma routed_prefixes:
  assumes run: "desired_state_of env now st = (Inr ds, st')" and d: "distinct (map sub_id (subscriptions (main_db st)))"
    and idx: "peer_indexes (peers st)"
  shows "(\<exists>dp \<in> set (desired_peers ds). dp_public_key dp = key \<and> pfx \<in> set (allowed_prefixes dp)) \<longleftrightarrow>
    (\<exists>s. routed_to st now key s \<and> prefix_of s = pfx)"
proof
  assume "\<exists>dp \<in> set (desired_peers ds). dp_public_key dp = key \<and> pfx \<in> set (allowed_prefixes dp)"
  then obtain dp u ps where dp: "dp_public_key dp = key" "pfx \<in> set (allowed_prefixes dp)" "desired_peer_of st (u, ps) = Some dp"
    and ps: "ps = map prefix_of (filter (\<lambda>s. sub_user_id s = u \<and> routed_row (main_db st) None s \<and> \<not> has_elapsed now s \<and> assigned_ip s \<noteq> None)
             (subscriptions (main_db st)))"
    unfolding desired_peers_of(1) [OF run d] by blast
  from desired_peer_ofD [OF dp(3)] obtain p c where p: "load_peer u st = Some p" "load_credential u (credentials st) = Some c"
    "peer_instance_id p = cred_instance_id c" "dp = \<lparr> dp_public_key = peer_public_key p, allowed_prefixes = sort ps \<rparr>" by blast
  then have "pfx \<in> set ps" "peer_public_key p = key" using dp(1,2) by simp_all
  then obtain s where "s \<in> set (subscriptions (main_db st))" "sub_user_id s = u" "routed_row (main_db st) None s"
    "\<not> has_elapsed now s" "assigned_ip s \<noteq> None" "prefix_of s = pfx" unfolding ps by auto
  then show "\<exists>s. routed_to st now key s \<and> prefix_of s = pfx"
    unfolding routed_to_def using p(1-3) \<open>peer_public_key p = key\<close> by blast
next
  assume "\<exists>s. routed_to st now key s \<and> prefix_of s = pfx"
  then obtain s p c where s: "s \<in> set (subscriptions (main_db st))" "routed_row (main_db st) None s" "assigned_ip s \<noteq> None"
    "\<not> has_elapsed now s" "prefix_of s = pfx"
    and p: "load_peer (sub_user_id s) st = Some p" "load_credential (sub_user_id s) (credentials st) = Some c"
      "peer_instance_id p = cred_instance_id c" "peer_public_key p = key"
    unfolding routed_to_def by blast
  let ?ps = "map prefix_of (filter (\<lambda>t. sub_user_id t = sub_user_id s \<and> routed_row (main_db st) None t \<and> \<not> has_elapsed now t \<and> assigned_ip t \<noteq> None)
             (subscriptions (main_db st)))"
  let ?dp = "\<lparr> dp_public_key = key, allowed_prefixes = sort ?ps \<rparr>"
  have "pfx \<in> set ?ps" using s by force
  moreover from this have "?ps \<noteq> []" by (metis empty_iff empty_set)
  moreover have "desired_peer_of st (sub_user_id s, ?ps) = Some ?dp" using p by (simp add: desired_peer_of_def)
  ultimately have "?dp \<in> set (desired_peers ds)" unfolding desired_peers_of(1) [OF run d] by blast
  moreover have "pfx \<in> set (allowed_prefixes ?dp)" using \<open>pfx \<in> set ?ps\<close> by simp
  ultimately show "\<exists>dp \<in> set (desired_peers ds). dp_public_key dp = key \<and> pfx \<in> set (allowed_prefixes dp)" by force
qed

text \<open>An address belongs to one subscription.\<close>

lemma prefix_owner:
  assumes idx: "subscription_indexes (subscriptions (main_db st))" and "routed_to st now k s" and "routed_to st now k' s'"
    and "prefix_of s = prefix_of s'"
  shows "s = s'"
proof -
  have "dedicated_ip s = assigned_ip s \<and> dedicated_ip s' = assigned_ip s' \<and> assigned_ip s = assigned_ip s'"
    using assms(2-4) by (auto simp: routed_to_def routed_row_def dedicated_ip_def prefix_of_def)
  moreover obtain ip where "assigned_ip s = Some ip" using assms(2) by (auto simp: routed_to_def)
  moreover have "s \<in> set (subscriptions (main_db st))" "s' \<in> set (subscriptions (main_db st))" using assms(2,3) by (auto simp: routed_to_def)
  ultimately show ?thesis
    using idx unique_onD [of dedicated_ip "subscriptions (main_db st)" sub_id s s' ip] by (auto simp: subscription_indexes_def)
qed

section \<open>Properties\<close>

text \<open>
  C14: the snapshot routes exactly what is paid for. Whatever the state, a prefix is listed under a key if and
  only if it is the address of an active WireGuard subscription whose period has not ended, of an account that
  is not suspended, whose peer has that key and was enrolled by the account's current identity. A key is
  listed once, and no prefix is listed under two keys. The SMTP exceptions of the second version are a subset
  of the routed prefixes, each with an active, reviewed and unrevoked lease.
\<close>

theorem wireguard_routes_exact:
  assumes idx: "subscription_indexes (subscriptions (main_db st))" and peer: "peer_indexes (peers st)"
    and run: "desired_state_v2_of env now st = (Inr ds, st')"
  shows "(\<forall>key pfx. (\<exists>dp \<in> set (desired_peers ds). dp_public_key dp = key \<and> pfx \<in> set (allowed_prefixes dp)) \<longleftrightarrow>
      (\<exists>s ip e u p c. s \<in> set (subscriptions (main_db st)) \<and> product s = IP \<and> delivery s = WIREGUARD \<and> sub_status s = SubACTIVE \<and>
         assigned_ip s = Some ip \<and> pfx = ip @ ''/32'' \<and> current_period_end s = Some e \<and> now < e \<and>
         get_user (main_db st) (sub_user_id s) = Some u \<and> \<not> is_suspended u \<and>
         load_peer (sub_user_id s) st = Some p \<and> load_credential (sub_user_id s) (credentials st) = Some c \<and>
         peer_instance_id p = cred_instance_id c \<and> peer_public_key p = key)) \<and>
    distinct (map dp_public_key (desired_peers ds)) \<and>
    (\<forall>dp \<in> set (desired_peers ds). \<forall>dq \<in> set (desired_peers ds).
       set (allowed_prefixes dp) \<inter> set (allowed_prefixes dq) \<noteq> {} \<longrightarrow> dp = dq) \<and>
    (\<forall>pfx \<in> set (smtp_allowed_prefixes ds). (\<exists>dp \<in> set (desired_peers ds). pfx \<in> set (allowed_prefixes dp)) \<and>
       (\<exists>l \<in> set (leases (main_db st')). pfx = lease_address l @ ''/32'' \<and> lease_state l = LeaseACTIVE \<and> released_at l = None \<and>
          smtp_enabled l \<and> smtp_reviewed_at l \<noteq> None \<and> smtp_revoked_at l = None))"
proof -
  have d: "distinct (map sub_id (subscriptions (main_db st)))" using idx by (simp add: subscription_indexes_def)
  from run obtain base where base: "desired_state_of env now st = (Inr base, st')"
    and ps: "desired_peers ds = desired_peers base"
    and smtp: "smtp_allowed_prefixes ds = sort (filter (\<lambda>p. p \<in> set (concat (map allowed_prefixes (desired_peers base))))
                (map (\<lambda>l. lease_address l @ ''/32'') (filter smtp_approved_lease (leases (main_db st')))))"
    by (auto simp: desired_state_v2_of_def Let_def split: prod.splits sum.splits)
  note routed = routed_prefixes [OF base d peer, folded ps]
  have to: "routed_to st now key s \<and> prefix_of s = pfx \<longleftrightarrow>
      (\<exists>ip e u p c. s \<in> set (subscriptions (main_db st)) \<and> product s = IP \<and> delivery s = WIREGUARD \<and> sub_status s = SubACTIVE \<and>
         assigned_ip s = Some ip \<and> pfx = ip @ ''/32'' \<and> current_period_end s = Some e \<and> now < e \<and>
         get_user (main_db st) (sub_user_id s) = Some u \<and> \<not> is_suspended u \<and>
         load_peer (sub_user_id s) st = Some p \<and> load_credential (sub_user_id s) (credentials st) = Some c \<and>
         peer_instance_id p = cred_instance_id c \<and> peer_public_key p = key)" for key pfx s
    by (auto simp: routed_to_def routed_row_def prefix_of_def has_elapsed_def elapsed_or_missing_def split: option.splits)
  have keys: "distinct (map dp_public_key (desired_peers ds))" using desired_peers_of(2) [OF base d peer] by (simp add: ps)
  have one: "dp = dq" if in_ds: "dp \<in> set (desired_peers ds)" "dq \<in> set (desired_peers ds)"
    and pfx: "pfx \<in> set (allowed_prefixes dp)" "pfx \<in> set (allowed_prefixes dq)" for dp dq pfx
  proof -
    have "\<exists>s. routed_to st now (dp_public_key dp) s \<and> prefix_of s = pfx" "\<exists>s. routed_to st now (dp_public_key dq) s \<and> prefix_of s = pfx"
      unfolding routed [symmetric] using in_ds pfx by blast+
    then obtain s s' where s: "routed_to st now (dp_public_key dp) s" "routed_to st now (dp_public_key dq) s'" "prefix_of s = prefix_of s'"
      by auto
    then have "s = s'" by (rule prefix_owner [OF idx])
    then have "dp_public_key dp = dp_public_key dq" using s(1,2) by (auto simp: routed_to_def)
    then show ?thesis using keys in_ds by (auto simp: distinct_map dest: inj_onD)
  qed
  have "(\<exists>dp \<in> set (desired_peers ds). pfx \<in> set (allowed_prefixes dp)) \<and>
       (\<exists>l \<in> set (leases (main_db st')). pfx = lease_address l @ ''/32'' \<and> lease_state l = LeaseACTIVE \<and> released_at l = None \<and>
          smtp_enabled l \<and> smtp_reviewed_at l \<noteq> None \<and> smtp_revoked_at l = None)" if "pfx \<in> set (smtp_allowed_prefixes ds)" for pfx
    using that by (auto simp: smtp ps smtp_approved_lease_def)
  then show ?thesis using keys one unfolding routed to [symmetric] by blast
qed

section \<open>Histories of enrollments\<close>

text \<open>
  A history of the system, with the list of the states it goes through: key enrollments, each of which reads
  the account's configuration first and lets any further history of other sessions commit before it writes
  (\<open>refused\<close> when it ends there), and anything that leaves the peer table alone (orders, expiry, certificate
  enrollment and identity resets).
\<close>

inductive wg_history :: "wireguard_env \<Rightarrow> wireguard_db \<Rightarrow> wireguard_db list \<Rightarrow> wireguard_db \<Rightarrow> bool" for env where
  stop: "wg_history env st [] st"
| other: "peers s = peers st \<Longrightarrow> wg_history env s states st' \<Longrightarrow> wg_history env st (s # states) st'"
| refused: "s = snd (client_config_of env now uid st) \<Longrightarrow> snd (enroll_key env now racing uid inst gen key sig st) = s \<Longrightarrow>
    wg_history env s states st' \<Longrightarrow> wg_history env st (s # states) st'"
| enroll: "s = snd (client_config_of env now uid st) \<Longrightarrow> wg_history env s others (racing s) \<Longrightarrow>
    t = snd (enroll_key env now racing uid inst gen key sig st) \<Longrightarrow> t \<noteq> s \<Longrightarrow>
    wg_history env t states st' \<Longrightarrow> wg_history env st (s # others @ t # states) st'"

definition signed_row :: "wireguard_env \<Rightarrow> wireguard_db \<Rightarrow> wireguard_peer \<Rightarrow> bool" where
  "signed_row env st p \<longleftrightarrow> (\<exists>c sig. load_credential (peer_user_id p) (credentials st) = Some c \<and>
     cred_instance_id c = peer_instance_id p \<and>
     check_signature env (client_cert_pem c) sig
       (wireguard_enrollment_message (peer_instance_id p) (peer_generation p) (peer_public_key p)) = SigValid)"

definition peers_signed :: "wireguard_env \<Rightarrow> wireguard_db \<Rightarrow> wireguard_db list \<Rightarrow> wireguard_db \<Rightarrow> bool" where
  "peers_signed env st states st' \<longleftrightarrow> (peer_indexes (peers st) \<longrightarrow> peer_indexes (peers st')) \<and>
     (\<forall>p \<in> set (peers st'). p \<in> set (peers st) \<or> (\<exists>s \<in> set states. signed_row env s p))"

text \<open>The writes change the row of the account only.\<close>

definition key_written :: "int \<Rightarrow> string \<Rightarrow> int \<Rightarrow> string \<Rightarrow> wireguard_db \<Rightarrow> wireguard_db \<Rightarrow> bool" where
  "key_written uid inst gen key st st' \<longleftrightarrow> (peer_indexes (peers st) \<longrightarrow> peer_indexes (peers st')) \<and>
     (\<forall>p \<in> set (peers st'). p \<in> set (peers st) \<or>
        peer_user_id p = uid \<and> peer_instance_id p = inst \<and> peer_generation p = gen \<and> peer_public_key p = key)"

lemma key_written_same: "peers st' = peers st \<Longrightarrow> key_written uid inst gen key st st'"
  by (simp add: key_written_def)

lemma config_peers: "peers (snd (client_config_of env now uid st)) = peers st" "credentials (snd (client_config_of env now uid st)) = credentials st"
  by (auto simp: client_config_of_def active_routed_subscriptions_def Let_def split: sum.splits prod.splits option.splits)

lemma after_write_peers: "peers (snd (after_write same env now uid inst gen won st)) = peers st"
  by (simp add: after_write_def config_peers split: option.splits)

lemma update_written:
  assumes "update_peer m f st = Some (n, st')"
    and "\<And>p. m p \<Longrightarrow> peer_user_id (f p) = uid \<and> peer_instance_id (f p) = inst \<and> peer_generation (f p) = gen \<and> peer_public_key (f p) = key"
  shows "key_written uid inst gen key st (snd (after_write same env now uid inst gen won st'))"
  using assms by (auto simp: key_written_def after_write_peers update_peer_def Let_def in_update_where split: if_splits)

lemma reset_written: "key_written uid inst gen key st (snd (reset_peer env now uid inst gen key current st))"
  by (auto simp: reset_peer_def key_written_same split: option.splits intro!: update_written)

lemma rotate_written: "key_written uid inst gen key st (snd (rotate_peer env now uid inst gen key current st))"
  by (auto simp: rotate_peer_def key_written_same split: option.splits intro!: update_written)

lemma insert_written: "key_written uid inst gen key st (snd (insert_peer env now uid inst gen key st))"
  by (auto simp: insert_peer_def Let_def key_written_def after_write_peers)

lemma write_key_written:
  "write_key env now racing uid inst gen key config st = (r, st') \<Longrightarrow> st' = st \<or> key_written uid inst gen key (racing st) st'"
  using reset_written insert_written rotate_written
  by (auto simp: write_key_def split: option.splits if_splits dest!: arg_cong [of _ _ snd])

lemma enroll_key_cases:
  assumes st1: "client_config_of env now uid st = (r1, st1)"
  shows "snd (enroll_key env now racing uid inst gen key sig st) = st1 \<or>
    (\<exists>c. load_credential uid (credentials st1) = Some c \<and> verify_identity_signature env c inst gen key sig = None \<and>
       key_written uid inst gen key (racing st1) (snd (enroll_key env now racing uid inst gen key sig st)))"
proof (cases r1)
  case (Inl e)
  then show ?thesis using st1 by (simp add: enroll_key_def)
next
  case (Inr config)
  let ?w = "write_key env now racing uid inst gen key config st1"
  have w: "snd ?w = st1 \<or> key_written uid inst gen key (racing st1) (snd ?w)"
    using write_key_written [of env now racing uid inst gen key config st1 "fst ?w" "snd ?w"] by simp
  show ?thesis
  proof (cases "load_credential uid (credentials st1)")
    case None
    then show ?thesis using st1 Inr by (simp add: enroll_key_def)
  next
    case (Some c)
    then show ?thesis using st1 Inr w
      by (cases "verify_identity_signature env c inst gen key sig") (simp_all add: enroll_key_def)
  qed
qed

lemma wg_history_signed: "wg_history env st states st' \<Longrightarrow> peers_signed env st states st'"
proof (induction rule: wg_history.induct)
  case (enroll s now uid st others racing t inst gen key sig states st')
  have st1: "client_config_of env now uid st = (fst (client_config_of env now uid st), s)" by (simp add: enroll.hyps(1))
  have same: "peers s = peers st" by (simp add: enroll.hyps(1) config_peers)
  from enroll_key_cases [OF st1, of racing inst gen key sig, folded enroll.hyps(3)] enroll.hyps(4)
  obtain c where c: "load_credential uid (credentials s) = Some c" "verify_identity_signature env c inst gen key sig = None"
    and written: "key_written uid inst gen key (racing s) t" by blast
  have new: "signed_row env s p" if "peer_user_id p = uid" "peer_instance_id p = inst" "peer_generation p = gen" "peer_public_key p = key" for p
    using that c by (auto simp: signed_row_def verify_identity_signature_def split: if_splits signature_result.splits)
  have "p \<in> set (peers st) \<or> (\<exists>x \<in> set (s # others). signed_row env x p)" if "p \<in> set (peers t)" for p
    using written that new [of p] enroll.IH(1) same unfolding key_written_def peers_signed_def by auto
  moreover have "peer_indexes (peers st) \<longrightarrow> peer_indexes (peers t)"
    using written enroll.IH(1) same by (simp add: key_written_def peers_signed_def)
  ultimately show ?case using enroll.IH(2) unfolding peers_signed_def by (simp add: bex_Un) blast
qed (auto simp: peers_signed_def config_peers)

text \<open>A signed message determines what it signs: newlines cannot occur in an instance, a number or a key.\<close>

lemma message_injective:
  assumes "CHR 0x0A \<notin> set inst" "CHR 0x0A \<notin> set inst'"
    and eq: "wireguard_enrollment_message inst gen key = wireguard_enrollment_message inst' gen' key'"
  shows "inst = inst' \<and> gen = gen' \<and> key = key'"
proof -
  let ?nl = "CHR 0x0A"
  have cut: "a = b \<and> x = y" if "a @ ?nl # x = b @ ?nl # y" "?nl \<notin> set a" "?nl \<notin> set b" for a b x y
    using that split_on_append_sep [of ?nl a x] split_on_append_sep [of ?nl b y] append_same_eq
    by (metis list.inject join_split_on)
  have no: "?nl \<notin> set (str_int i)" for i
  proof
    assume "?nl \<in> set (str_int i)"
    then have "?nl \<in> insert (CHR ''-'') (set ''0123456789'')" using str_int_char [of i] by (rule set_rev_mp)
    then show False by simp
  qed
  have "inst @ ?nl # (''generation='' @ str_int gen @ [?nl] @ ''public_key='' @ key @ [?nl]) =
      inst' @ ?nl # (''generation='' @ str_int gen' @ [?nl] @ ''public_key='' @ key' @ [?nl])"
    using eq by (simp add: wireguard_enrollment_message_def)
  from cut [OF this assms(1,2)] have inst: "inst = inst'"
    and rest: "str_int gen @ ?nl # (''public_key='' @ key @ [?nl]) = str_int gen' @ ?nl # (''public_key='' @ key' @ [?nl])" by auto
  from cut [OF rest no no] show ?thesis using inst str_int_inj by auto
qed

text \<open>
  C29: over any history of enrollments, concurrent ones included, and of everything else the system does, an
  account has at most one peer and a key at most one account; and every row of the peer table was there before
  or carries an instance, generation and key that were signed with the certificate which, in one of the states
  this history went through, was the enrolled identity of the row's own account for that instance. The signed
  text determines the instance, the generation and the key.
\<close>

theorem wireguard_keys_signed:
  assumes "peer_indexes (peers st)" and "wg_history env st states st'" and "p \<in> set (peers st')"
  shows "distinct (map peer_user_id (peers st')) \<and> distinct (map peer_public_key (peers st')) \<and>
    (p \<in> set (peers st) \<or>
     (\<exists>s \<in> set states. \<exists>c sig. load_credential (peer_user_id p) (credentials s) = Some c \<and>
        cred_instance_id c = peer_instance_id p \<and>
        check_signature env (client_cert_pem c) sig
          (wireguard_enrollment_message (peer_instance_id p) (peer_generation p) (peer_public_key p)) = SigValid)) \<and>
    (\<forall>inst gen key. CHR 0x0A \<notin> set inst \<and> CHR 0x0A \<notin> set (peer_instance_id p) \<and>
       wireguard_enrollment_message inst gen key = wireguard_enrollment_message (peer_instance_id p) (peer_generation p) (peer_public_key p) \<longrightarrow>
       inst = peer_instance_id p \<and> gen = peer_generation p \<and> key = peer_public_key p)"
proof -
  have "peers_signed env st states st'" using assms(2) by (rule wg_history_signed)
  then have "peer_indexes (peers st')" "p \<in> set (peers st) \<or> (\<exists>s \<in> set states. signed_row env s p)"
    using assms(1,3) by (auto simp: peers_signed_def)
  moreover have "inst = peer_instance_id p \<and> gen = peer_generation p \<and> key = peer_public_key p"
    if "CHR 0x0A \<notin> set inst \<and> CHR 0x0A \<notin> set (peer_instance_id p) \<and>
       wireguard_enrollment_message inst gen key = wireguard_enrollment_message (peer_instance_id p) (peer_generation p) (peer_public_key p)" for inst gen key
    using that message_injective by blast
  ultimately show ?thesis unfolding peer_indexes_def signed_row_def by blast
qed

text \<open>A worked instance: an account enrolls its key and its address is routed to it.\<close>

definition example_wireguard :: wireguard_env where
  "example_wireguard = \<lparr> wg_settings = example_settings, wg_seal = (\<lambda>_ _. None), WIREGUARD_RELAY_PUBLIC_KEY = ''relay'',
     WIREGUARD_ENDPOINT = ''relay.example:51820'', WIREGUARD_MTU = 1420, WIREGUARD_PERSISTENT_KEEPALIVE_SECONDS = 25,
     check_signature = (\<lambda>cert sig msg. if sig = cert @ msg then SigValid else SigInvalid), digest = id \<rparr>"

definition example_identity :: client_credential where
  "example_identity = \<lparr> cred_user_id = 1, cred_instance_id = ''laptop'', public_key_fingerprint = ''fp'', generation = 1,
     client_cert_pem = ''cert'', cred_serial = ''1'', cred_not_before = 0, cred_not_after = days 90, cred_renew_after = days 60,
     cred_created_at = 0, cred_updated_at = 0 \<rparr>"

definition routed_db :: wireguard_db where
  "routed_db = \<lparr> main_db = empty_database\<lparr>users := [sample_user], subscriptions := [sample_subscription\<lparr>product := IP,
       delivery := WIREGUARD, sub_status := SubACTIVE, assigned_ip := Some ''203.0.113.5'', current_period_end := Some (days 30)\<rparr>]\<rparr>,
     credentials = [example_identity], peers = [] \<rparr>"

definition enrolled_db :: wireguard_db where
  "enrolled_db = snd (enroll_key example_wireguard 0 id 1 ''laptop'' 1 ''key''
     (''cert'' @ wireguard_enrollment_message ''laptop'' 1 ''key'') routed_db)"

lemma enrolled_peers: "map (\<lambda>p. (peer_user_id p, peer_public_key p)) (peers enrolled_db) = [(1, ''key'')]"
  by code_simp

theorem wireguard_routes_exact_witness:
  "\<exists>ds st'. desired_state_v2_of example_wireguard 5 enrolled_db = (Inr ds, st') \<and>
     (\<exists>dp \<in> set (desired_peers ds). dp_public_key dp = ''key'' \<and> ''203.0.113.5/32'' \<in> set (allowed_prefixes dp))"
proof -
  let ?run = "desired_state_v2_of example_wireguard 5 enrolled_db"
  have "(case fst ?run of Inl _ \<Rightarrow> False | Inr _ \<Rightarrow> True)" by code_simp
  then obtain ds st' where run: "?run = (Inr ds, st')" by (cases ?run) (auto split: sum.splits)
  have idx: "subscription_indexes (subscriptions (main_db enrolled_db))" by code_simp
  have peer: "peer_indexes (peers enrolled_db)" by code_simp
  let ?s = "sample_subscription\<lparr>product := IP, delivery := WIREGUARD, sub_status := SubACTIVE, assigned_ip := Some ''203.0.113.5'',
    current_period_end := Some (days 30)\<rparr>"
  have facts: "subscriptions (main_db enrolled_db) = [?s]" "get_user (main_db enrolled_db) 1 = Some sample_user"
    "load_credential 1 (credentials enrolled_db) = Some example_identity"
    "map_option (\<lambda>p. (peer_instance_id p, peer_public_key p)) (load_peer 1 enrolled_db) = Some (''laptop'', ''key'')" by code_simp+
  obtain p where p: "load_peer 1 enrolled_db = Some p" "peer_instance_id p = ''laptop''" "peer_public_key p = ''key''" using facts(4) by auto
  have small: "sub_user_id ?s = 1" "\<not> is_suspended sample_user" "cred_instance_id example_identity = ''laptop''"
    by (simp_all add: sample_subscription_def sample_user_def example_identity_def)
  have "(5 :: int) < days 30" by (simp add: clock_simps)
  then have "\<exists>s ip e u p c. s \<in> set (subscriptions (main_db enrolled_db)) \<and> product s = IP \<and> delivery s = WIREGUARD \<and> sub_status s = SubACTIVE \<and>
         assigned_ip s = Some ip \<and> ''203.0.113.5/32'' = ip @ ''/32'' \<and> current_period_end s = Some e \<and> 5 < e \<and>
         get_user (main_db enrolled_db) (sub_user_id s) = Some u \<and> \<not> is_suspended u \<and>
         load_peer (sub_user_id s) enrolled_db = Some p \<and> load_credential (sub_user_id s) (credentials enrolled_db) = Some c \<and>
         peer_instance_id p = cred_instance_id c \<and> peer_public_key p = ''key''"
    by (intro exI [of _ ?s] exI [of _ "''203.0.113.5''"] exI [of _ "days 30"] exI [of _ sample_user] exI [of _ p] exI [of _ example_identity])
      (simp add: facts(1-3) small p)
  from iffD2 [OF conjunct1 [OF wireguard_routes_exact [OF idx peer run], THEN spec, THEN spec] this] show ?thesis using run by blast
qed

theorem wireguard_keys_signed_witness:
  "\<exists>p \<in> set (peers enrolled_db). peer_public_key p = ''key'' \<and>
     (\<exists>c sig. load_credential (peer_user_id p) [example_identity] = Some c \<and> cred_instance_id c = peer_instance_id p \<and>
        check_signature example_wireguard (client_cert_pem c) sig
          (wireguard_enrollment_message (peer_instance_id p) (peer_generation p) (peer_public_key p)) = SigValid)"
proof -
  let ?s = "snd (client_config_of example_wireguard 0 1 routed_db)"
  have idx: "peer_indexes (peers routed_db)" by (simp add: routed_db_def peer_indexes_def)
  obtain p where p: "p \<in> set (peers enrolled_db)" "peer_public_key p = ''key''" using enrolled_peers by (cases "peers enrolled_db") auto
  have "peers ?s = []" by (simp add: config_peers routed_db_def)
  then have new: "enrolled_db \<noteq> ?s" using p(1) by auto
  have "wg_history example_wireguard ?s [] (id ?s)" by (simp add: wg_history.stop)
  then have run: "wg_history example_wireguard routed_db (?s # [] @ enrolled_db # []) enrolled_db"
    by (rule wg_history.enroll [OF refl _ enrolled_db_def new wg_history.stop])
  have "credentials ?s = [example_identity]" "credentials enrolled_db = [example_identity]"
    by (simp add: config_peers routed_db_def) code_simp
  moreover have "p \<notin> set (peers routed_db)" by (simp add: routed_db_def)
  ultimately have "\<exists>c sig. load_credential (peer_user_id p) [example_identity] = Some c \<and> cred_instance_id c = peer_instance_id p \<and>
        check_signature example_wireguard (client_cert_pem c) sig
          (wireguard_enrollment_message (peer_instance_id p) (peer_generation p) (peer_public_key p)) = SigValid"
    using wireguard_keys_signed [OF idx run p(1)] by auto
  then show ?thesis using p by blast
qed

end
