(* ===== verification/Configuration.thy ===== *)
theory Configuration
  imports Settings "HOL-Library.Char_ord" "HOL-Library.List_Lexorder"
begin

text \<open>
  The validation of a configuration as a whole (\<^verbatim>\<open>config.py\<close>): the checks between fields and the additional
  checks of a production deployment. A deployment has the settings the
  services read and the further fields the checks relate to them; lists, maps and addresses are given parsed.
  Durations declared as \<^verbatim>\<open>float\<close> seconds are microseconds here, like every time span. What the checks ask of
  the file system, of URLs and of the address registry are the fields of \<open>deployment_probe\<close>.
\<close>

section \<open>Fields\<close>

record relay_edge =
  edge_endpoint :: string
  edge_ip :: string

record stable_relay_edge =
  stable_id :: string
  stable_endpoint :: string

record deployment =
  base :: settings
  PRODUCTION :: bool
  PUBLIC_SITE_URL :: string
  PASSKEYS_ENABLED :: bool
  WEBAUTHN_ORIGIN :: string
  webauthn_origin_hostname :: "string option"
  WEBAUTHN_RP_ID :: string
  RELAY_CONTROL_URL :: string
  RELAY_CONTROL_URLS_parsed :: "string list"
  port_ha_edges_list :: "relay_edge list"
  PORT_HOSTNAME_SUFFIX :: string
  framed_ip_endpoints_map :: "(string \<times> string) list"
  relay_edges_list :: "stable_relay_edge list"
  RELAY_HEARTBEAT_KEYS :: string
  relay_heartbeat_keys :: "(string \<times> string) list"
  OFFLINE_ENTITLEMENTS_ENABLED :: bool
  OFFLINE_ENTITLEMENT_GRACE_SECONDS :: int
  OFFLINE_ENTITLEMENT_KEY_ID :: string
  OFFLINE_ENTITLEMENT_PRIVATE_KEY_FILE :: string
  DNS_SUPERVISION_ENABLED :: bool
  DNS_SUPERVISION_INTERVAL_SECONDS :: int
  DNS_SUPERVISION_STALE_SECONDS :: int
  dns_supervision_targets :: nat
  dns_supervision_resolvers :: nat
  WIREGUARD_RELAY_PUBLIC_KEY' :: string
  WIREGUARD_ENDPOINT' :: string
  WIREGUARD_RECONCILE_INTERVAL :: time
  WIREGUARD_RECONCILE_MAX_STALENESS :: time
  LND_REQUEST_TIMEOUT :: time
  LND_INVOICE_HMAC_KEY :: string
  PAYMENT_RECONCILIATION_ENABLED :: bool
  PAYMENT_RECONCILIATION_INTERVAL :: time
  PAYMENT_RECONCILIATION_STALE_AFTER :: time
  BTC_USD_PRICE_REFRESH_SECONDS :: int
  BTC_USD_PRICE_MAX_STALE_SECONDS :: int
  NOTIFICATION_RECONCILIATION_ENABLED :: bool
  NOTIFICATION_RECONCILIATION_INTERVAL :: time
  NOTIFICATION_RECONCILIATION_STALE_AFTER :: time
  PAYMENT_NWC_ADAPTER :: string
  NWC_HELPER_PATH :: string
  NWC_HELPER_TIMEOUT :: time
  NWC_ALLOW_PUBLIC_RELAYS :: bool
  nwc_allowed_relay_hosts :: "string list"
  PAYMENT_CLINK_ADAPTER :: string
  CLINK_HELPER_PATH :: string
  CLINK_REQUEST_TIMEOUT_SECONDS :: int
  CLINK_HELPER_TIMEOUT_SECONDS :: int
  CLINK_ALLOW_PUBLIC_RELAYS :: bool
  clink_allowed_relay_hosts :: "string list"
  CLINK_NOSTR_PRIVATE_KEY :: string
  SMTP_HOST :: string
  SMTP_SECURITY :: string
  SMTP_USERNAME :: string
  SMTP_PASSWORD :: string
  SMTP_FROM_EMAIL :: string
  SMTP_TIMEOUT :: time
  REMINDER_DELIVERY_LEASE_SECONDS :: int
  CREDENTIAL_ENCRYPTION_KEY :: string
  rate_limit_windows :: "int list"
  RATE_LIMIT_BUCKET_RETENTION_SECONDS :: int
  DATABASE_URL :: string
  DATABASE_MIGRATE_ON_STARTUP :: bool
  SECRET_KEY :: string
  TOKEN_HASH_KEY :: string
  RELAY_SECRET :: string
  ADMIN_TOKEN' :: string
  DEBUG :: bool
  CA_DIR :: string
  LEGACY_CLIENT_CERT_ISSUANCE_ENABLED :: bool
  TOKEN_BYTES :: int

record deployment_probe =
  ip_version :: "string \<Rightarrow> nat"
  valid_edge_id :: "string \<Rightarrow> bool"
  database_driver :: "string \<Rightarrow> string option"
  path_is_absolute :: "string \<Rightarrow> bool"
  private_key_error :: "string \<Rightarrow> string option"
  global_unicast :: "string \<Rightarrow> bool option"

definition relay_control_urls_list :: "deployment \<Rightarrow> string list" where
  "relay_control_urls_list d =
     (if RELAY_CONTROL_URLS_parsed d \<noteq> [] then RELAY_CONTROL_URLS_parsed d else [RELAY_CONTROL_URL d])"

definition token_hash_secret :: "deployment \<Rightarrow> string" where
  "token_hash_secret d = (if TOKEN_HASH_KEY d \<noteq> [] then TOKEN_HASH_KEY d else SECRET_KEY d)"

definition relay_secret :: "deployment \<Rightarrow> string" where
  "relay_secret d = (if RELAY_SECRET d \<noteq> [] then RELAY_SECRET d else SECRET_KEY d)"

section \<open>Checks between fields\<close>

text \<open>The first check that applies raises.\<close>

definition first_failure :: "(bool \<times> string) list \<Rightarrow> string option" where
  "first_failure cs = map_option snd (List.find fst cs)"

definition edge_checks :: "deployment \<Rightarrow> (bool \<times> string) list" where
  "edge_checks d =
     (let edge_ids = set (map stable_id (relay_edges_list d)); key_ids = set (map fst (relay_heartbeat_keys d)) in
      [(PASSKEYS_ENABLED d \<and>
          (case webauthn_origin_hostname d of
             None \<Rightarrow> True
           | Some h \<Rightarrow> h \<noteq> WEBAUTHN_RP_ID d \<and> \<not> ends_with h (''.'' @ WEBAUTHN_RP_ID d)),
        ''WEBAUTHN_ORIGIN hostname must equal WEBAUTHN_RP_ID or be its subdomain''),
       (edge_ids = {} \<and> RELAY_HEARTBEAT_KEYS d \<noteq> [], ''RELAY_HEARTBEAT_KEYS must be empty when RELAY_EDGES is empty''),
       (edge_ids \<noteq> {} \<and> edge_ids \<noteq> key_ids, ''RELAY_HEARTBEAT_KEYS must match configured RELAY_EDGES exactly''),
       (DNS_SUPERVISION_STALE_SECONDS d < DNS_SUPERVISION_INTERVAL_SECONDS d,
        ''DNS_SUPERVISION_STALE_SECONDS must be at least DNS_SUPERVISION_INTERVAL_SECONDS''),
       (DNS_SUPERVISION_ENABLED d \<and> dns_supervision_targets d = 0,
        ''DNS_SUPERVISION_TARGETS is required when DNS supervision is enabled''),
       (DNS_SUPERVISION_ENABLED d \<and> \<not> (2 \<le> dns_supervision_resolvers d \<and> dns_supervision_resolvers d \<le> 4),
        ''DNS_SUPERVISION_RESOLVERS requires two to four resolvers when DNS supervision is enabled'')])"

definition price_checks :: "settings \<Rightarrow> (bool \<times> string) list" where
  "price_checks cfg =
     [(PORT_YEARLY_SATS cfg \<noteq> PORT_MONTHLY_SATS cfg * 10, ''PORT_YEARLY_SATS must equal 10 times PORT_MONTHLY_SATS''),
      (RELAY_YEARLY_SATS cfg \<noteq> RELAY_MONTHLY_SATS cfg * 10, ''RELAY_YEARLY_SATS must equal 10 times RELAY_MONTHLY_SATS''),
      (RELAY_WILDCARD_YEARLY_SATS cfg \<noteq> RELAY_WILDCARD_MONTHLY_SATS cfg * 10,
       ''RELAY_WILDCARD_YEARLY_SATS must equal 10 times RELAY_WILDCARD_MONTHLY_SATS'')]"

definition inventory_checks :: "deployment \<Rightarrow> (bool \<times> string) list" where
  "inventory_checks d =
     (let framed = set (relay_public_ips_list (base d)); shared = set (relay_shared_ips_list (base d));
          routed = set (wireguard_public_ips_list (base d)); edges = port_ha_edges_list d; ha = (edges \<noteq> []);
          listed = (\<lambda>A. join_on '', '' (sorted_list_of_set A)) in
      [(framed \<inter> shared \<noteq> {}, ''RELAY_PUBLIC_IPS and RELAY_SHARED_IPS must be disjoint; overlap: '' @ listed (framed \<inter> shared)),
       (routed \<inter> (framed \<union> shared) \<noteq> {}, ''WIREGUARD_PUBLIC_IPS must be disjoint from relay listener inventory; overlap: '' @ listed (routed \<inter> (framed \<union> shared))),
       (ha \<and> length edges < 2, ''PORT_HA_EDGES requires at least two provider edges''),
       (ha \<and> card shared \<noteq> 1, ''PORT_HA_EDGES currently requires exactly one RELAY_SHARED_IPS entry''),
       (ha \<and> \<not> list_ex (\<lambda>e. edge_endpoint e = RELAY_CONTROL_URL d \<and> edge_ip e = hd (relay_shared_ips_list (base d))) edges,
        ''PORT_HA_EDGES must map RELAY_CONTROL_URL to the RELAY_SHARED_IPS address''),
       (ha \<and> PORT_HOSTNAME_SUFFIX d = [], ''PORT_HOSTNAME_SUFFIX is required when PORT_HA_EDGES is configured''),
       (ha \<and> \<not> set (map edge_endpoint edges) \<subseteq> set (relay_control_urls_list d),
        ''every PORT_HA_EDGES endpoint must appear in RELAY_CONTROL_URLS''),
       (ha \<and> (set (map edge_ip edges) - shared) \<inter> (framed \<union> routed) \<noteq> {},
        ''PORT_HA_EDGES provider IPs must be disjoint from dedicated IP inventory''),
       (\<not> ha \<and> PORT_HOSTNAME_SUFFIX d \<noteq> [], ''PORT_HA_EDGES is required when PORT_HOSTNAME_SUFFIX is configured''),
       (framed_ip_endpoints_map d \<noteq> [] \<and> set (map fst (framed_ip_endpoints_map d)) \<noteq> framed,
        ''FRAMED_IP_ENDPOINTS must map every RELAY_PUBLIC_IPS address exactly''),
       (\<not> set (map snd (framed_ip_endpoints_map d)) \<subseteq> set (relay_control_urls_list d),
        ''every FRAMED_IP_ENDPOINTS value must appear in RELAY_CONTROL_URLS'')])"

definition offline_checks :: "deployment_probe \<Rightarrow> deployment \<Rightarrow> (bool \<times> string) list" where
  "offline_checks probe d =
     (if \<not> OFFLINE_ENTITLEMENTS_ENABLED d then []
      else let used = RELAY_CONTROL_URL d # relay_control_urls_list d @ map edge_endpoint (port_ha_edges_list d) @
                 map snd (framed_ip_endpoints_map d);
               uses = (\<lambda>e. length (filter (\<lambda>s. stable_endpoint s = e) (relay_edges_list d))) in
      [(\<not> valid_edge_id probe (OFFLINE_ENTITLEMENT_KEY_ID d),
        ''OFFLINE_ENTITLEMENT_KEY_ID must be a lowercase stable key identifier''),
       (OFFLINE_ENTITLEMENT_PRIVATE_KEY_FILE d = [],
        ''OFFLINE_ENTITLEMENT_PRIVATE_KEY_FILE is required when offline entitlements are enabled''),
       (list_ex (\<lambda>e. uses e \<noteq> 1) used, ''every configured relay endpoint must map to exactly one RELAY_EDGES id''),
       (RESOURCE_REUSE_QUARANTINE_SECONDS (base d) \<le> OFFLINE_ENTITLEMENT_GRACE_SECONDS d + 120,
        ''RESOURCE_REUSE_QUARANTINE_SECONDS must exceed offline entitlement grace plus 120 seconds''),
       (RELAY_RENEWAL_GRACE_SECONDS (base d) \<le> OFFLINE_ENTITLEMENT_GRACE_SECONDS d + 120,
        ''RELAY_RENEWAL_GRACE_SECONDS must exceed offline entitlement grace plus 120 seconds'')])"

definition wireguard_checks :: "deployment_probe \<Rightarrow> deployment \<Rightarrow> (bool \<times> string) list" where
  "wireguard_checks probe d =
     (if \<not> wireguard_enabled (base d) then []
      else
      [(list_ex (\<lambda>a. ip_version probe a \<noteq> 4) (wireguard_public_ips_list (base d)),
        ''WIREGUARD_PUBLIC_IPS currently supports IPv4 addresses only''),
       (WIREGUARD_RELAY_PUBLIC_KEY' d = [] \<or> WIREGUARD_ENDPOINT' d = [],
        ''WIREGUARD_RELAY_PUBLIC_KEY and WIREGUARD_ENDPOINT are required when WIREGUARD_PUBLIC_IPS is configured''),
       (WIREGUARD_RECONCILE_MAX_STALENESS d < WIREGUARD_RECONCILE_INTERVAL d * 2,
        ''WIREGUARD_RECONCILE_MAX_STALENESS_SECONDS must be at least twice WIREGUARD_RECONCILE_INTERVAL_SECONDS''),
       (seconds (IP_REUSE_QUARANTINE_SECONDS (base d)) \<le> WIREGUARD_RECONCILE_MAX_STALENESS d + WIREGUARD_RECONCILE_INTERVAL d,
        ''IP_REUSE_QUARANTINE_SECONDS must exceed WireGuard reconciliation staleness plus one interval'')])"

definition payment_checks :: "deployment \<Rightarrow> (bool \<times> string) list" where
  "payment_checks d =
     (let cfg = base d; window = PAYMENT_MIN_PAYABLE_SECONDS cfg + PAYMENT_EXPIRY_SAFETY_SECONDS cfg;
          swap = STABLECOIN_SWAP_INVOICE_EXPIRY_SECONDS cfg + PAYMENT_EXPIRY_SAFETY_SECONDS cfg;
          stablecoin = STABLECOIN_PAYMENTS_ENABLED cfg in
      [(window \<ge> RELAY_MANAGED_DOMAIN_CLAIM_TTL_SECONDS cfg,
        ''RELAY_MANAGED_DOMAIN_CLAIM_TTL_SECONDS must cover the minimum payable window and payment expiry safety interval''),
       (window \<ge> RELAY_DOMAIN_CLAIM_TTL_SECONDS cfg,
        ''RELAY_DOMAIN_CLAIM_TTL_SECONDS must cover the minimum payable window and payment expiry safety interval''),
       (window \<ge> RESOURCE_RESERVATION_TTL_SECONDS cfg,
        ''RESOURCE_RESERVATION_TTL_SECONDS must cover the minimum payable window and payment expiry safety interval''),
       (window \<ge> RELAY_RENEWAL_GRACE_SECONDS cfg,
        ''RELAY_RENEWAL_GRACE_SECONDS must cover the minimum payable window and payment expiry safety interval''),
       (str_lower (PAYMENT_LIGHTNING_ADAPTER cfg) = ''lnd'' \<and> seconds (PAYMENT_EXPIRY_SAFETY_SECONDS cfg) < LND_REQUEST_TIMEOUT d,
        ''PAYMENT_EXPIRY_SAFETY_SECONDS must be at least LND_REQUEST_TIMEOUT_SECONDS''),
       (PAYMENT_RECONCILIATION_STALE_AFTER d < PAYMENT_RECONCILIATION_INTERVAL d * 2,
        ''PAYMENT_RECONCILIATION_STALE_AFTER_SECONDS must be at least twice PAYMENT_RECONCILIATION_INTERVAL_SECONDS''),
       (BTC_USD_PRICE_MAX_STALE_SECONDS d < BTC_USD_PRICE_REFRESH_SECONDS d * 2,
        ''BTC_USD_PRICE_MAX_STALE_SECONDS must be at least twice BTC_USD_PRICE_REFRESH_SECONDS''),
       (NOTIFICATION_RECONCILIATION_STALE_AFTER d < NOTIFICATION_RECONCILIATION_INTERVAL d * 2,
        ''NOTIFICATION_RECONCILIATION_STALE_AFTER_SECONDS must be at least twice NOTIFICATION_RECONCILIATION_INTERVAL_SECONDS''),
       (stablecoin \<and> STABLECOIN_SWAP \<notin> set (enabled_payment_methods cfg),
        ''PAYMENT_ENABLED_METHODS must include stablecoin_swap when stablecoin payments are enabled''),
       (stablecoin \<and> \<not> PAYMENT_RECONCILIATION_ENABLED d,
        ''PAYMENT_RECONCILIATION_ENABLED is required when stablecoin payments are enabled''),
       (stablecoin \<and> swap \<ge> RESOURCE_RESERVATION_TTL_SECONDS cfg,
        ''STABLECOIN_SWAP_INVOICE_EXPIRY_SECONDS plus payment expiry safety must be shorter than RESOURCE_RESERVATION_TTL_SECONDS''),
       (stablecoin \<and> RELAY_MANAGED_DOMAIN_CLAIM_TTL_SECONDS cfg \<le> swap,
        ''STABLECOIN_SWAP_INVOICE_EXPIRY_SECONDS plus payment expiry safety must be shorter than RELAY_MANAGED_DOMAIN_CLAIM_TTL_SECONDS''),
       (stablecoin \<and> RELAY_DOMAIN_CLAIM_TTL_SECONDS cfg \<le> swap,
        ''STABLECOIN_SWAP_INVOICE_EXPIRY_SECONDS plus payment expiry safety must be shorter than RELAY_DOMAIN_CLAIM_TTL_SECONDS'')])"

definition worker_checks :: "deployment \<Rightarrow> (bool \<times> string) list" where
  "worker_checks d =
     (let cfg = base d; email = (REMINDER_EMAIL_ENABLED cfg \<or> ANNOUNCEMENT_EMAIL_ENABLED cfg) in
      [(seconds (NWC_PAYMENT_LEASE_SECONDS cfg) < NWC_HELPER_TIMEOUT d + seconds 5,
        ''NWC_PAYMENT_LEASE_SECONDS must exceed NWC_HELPER_TIMEOUT_SECONDS by at least 5''),
       (NWC_ALLOW_PUBLIC_RELAYS d \<and> nwc_allowed_relay_hosts d \<noteq> [],
        ''NWC_ALLOW_PUBLIC_RELAYS and NWC_ALLOWED_RELAY_HOSTS are mutually exclusive''),
       (CLINK_HELPER_TIMEOUT_SECONDS d < CLINK_REQUEST_TIMEOUT_SECONDS d + 1,
        ''CLINK_HELPER_TIMEOUT_SECONDS must exceed CLINK_REQUEST_TIMEOUT_SECONDS by at least 1''),
       (CLINK_PAYMENT_LEASE_SECONDS cfg < CLINK_HELPER_TIMEOUT_SECONDS d + 5,
        ''CLINK_PAYMENT_LEASE_SECONDS must exceed CLINK_HELPER_TIMEOUT_SECONDS by at least 5''),
       (CLINK_ALLOW_PUBLIC_RELAYS d \<and> clink_allowed_relay_hosts d \<noteq> [],
        ''CLINK_ALLOW_PUBLIC_RELAYS and CLINK_ALLOWED_RELAY_HOSTS are mutually exclusive''),
       (SMTP_TIMEOUT d + seconds 5 > seconds (REMINDER_DELIVERY_LEASE_SECONDS d),
        ''REMINDER_DELIVERY_LEASE_SECONDS must exceed SMTP_TIMEOUT_SECONDS by at least 5''),
       (SMTP_TIMEOUT d + seconds 5 > seconds (NOTIFICATION_DELIVERY_LEASE_SECONDS cfg),
        ''NOTIFICATION_DELIVERY_LEASE_SECONDS must exceed SMTP_TIMEOUT_SECONDS by at least 5''),
       ((SMTP_USERNAME d \<noteq> []) \<noteq> (SMTP_PASSWORD d \<noteq> []), ''SMTP_USERNAME and SMTP_PASSWORD must be configured together''),
       (email \<and> \<not> NOTIFICATION_RECONCILIATION_ENABLED d,
        ''NOTIFICATION_RECONCILIATION_ENABLED is required when email delivery is enabled''),
       (email \<and> CREDENTIAL_ENCRYPTION_KEY d = [], ''CREDENTIAL_ENCRYPTION_KEY is required when email delivery is enabled''),
       (email \<and> (SMTP_HOST d = [] \<or> SMTP_FROM_EMAIL d = []),
        ''SMTP_HOST and SMTP_FROM_EMAIL are required when email delivery is enabled''),
       (list_ex (\<lambda>w. w > RATE_LIMIT_BUCKET_RETENTION_SECONDS d) (rate_limit_windows d),
        ''RATE_LIMIT_BUCKET_RETENTION_SECONDS must cover every rate-limit window'')])"

section \<open>Production\<close>

text \<open>\<open>global_unicast\<close> answers \<open>None\<close> where \<^verbatim>\<open>ip_address\<close> raises.\<close>

definition relay_endpoint_host :: "string \<Rightarrow> string" where
  "relay_endpoint_host endpoint =
     (let host = rev (tl (dropWhile (\<lambda>c. c \<noteq> CHR '':'') (rev endpoint)));
          bracket = (\<lambda>c. c \<in> set ''[]'') in
      if CHR '':'' \<notin> set endpoint then rev (dropWhile bracket (rev (dropWhile bracket endpoint)))
      else rev (dropWhile bracket (rev (dropWhile bracket host))))"

definition DEVELOPMENT_HOSTNAME_SUFFIXES :: "string list" where
  "DEVELOPMENT_HOSTNAME_SUFFIXES = [''.test'', ''.localhost'', ''.local'', ''.invalid'', ''.example'']"

definition DEVELOPMENT_HOSTNAMES :: "string list" where
  "DEVELOPMENT_HOSTNAMES =
     [''relay'', ''localhost'', ''local'', ''test'', ''invalid'', ''example'', ''example.com'', ''example.net'', ''example.org'']"

definition is_production_relay_hostname :: "string \<Rightarrow> bool" where
  "is_production_relay_hostname value =
     (CHR ''.'' \<in> set value \<and> value \<notin> set DEVELOPMENT_HOSTNAMES \<and>
      \<not> list_ex (ends_with value) DEVELOPMENT_HOSTNAME_SUFFIXES)"

definition production_endpoint :: "deployment_probe \<Rightarrow> string \<Rightarrow> bool" where
  "production_endpoint probe endpoint =
     (let host = relay_endpoint_host endpoint in
      case global_unicast probe host of Some valid \<Rightarrow> valid | None \<Rightarrow> is_production_relay_hostname host)"

definition starts_with :: "string \<Rightarrow> string \<Rightarrow> bool" where
  "starts_with s p = (take (length p) s = p)"

definition MIN_PRODUCTION_SECRET_LENGTH :: nat where
  "MIN_PRODUCTION_SECRET_LENGTH = 32"

definition MIN_PRODUCTION_TOKEN_BYTES :: int where
  "MIN_PRODUCTION_TOKEN_BYTES = 16"

definition DEFAULT_SECRET_KEY :: string where
  "DEFAULT_SECRET_KEY = ''change-me-in-production''"

definition DEFAULT_ADMIN_TOKEN :: string where
  "DEFAULT_ADMIN_TOKEN = ''BLINDPORT-ADMIN-TOKEN-CHANGE-ME''"

definition production_service_checks :: "deployment_probe \<Rightarrow> deployment \<Rightarrow> (bool \<times> string) list" where
  "production_service_checks probe d =
     (let cfg = base d; https = (\<lambda>url. starts_with url ''https://''); adapter = str_lower (PAYMENT_LIGHTNING_ADAPTER cfg);
          enabled = set (enabled_payment_methods cfg) in
      [(\<not> https (PUBLIC_SITE_URL d), ''PUBLIC_SITE_URL must use HTTPS in production''),
       (PASSKEYS_ENABLED d \<and> \<not> https (WEBAUTHN_ORIGIN d), ''WEBAUTHN_ORIGIN must use HTTPS when passkeys are enabled''),
       (PASSKEYS_ENABLED d \<and> WEBAUTHN_ORIGIN d \<noteq> PUBLIC_SITE_URL d,
        ''WEBAUTHN_ORIGIN must equal PUBLIC_SITE_URL when passkeys are enabled''),
       (database_driver probe (DATABASE_URL d) \<noteq> Some ''postgresql+psycopg'',
        ''DATABASE_URL must use PostgreSQL with the psycopg driver''),
       (DATABASE_MIGRATE_ON_STARTUP d, ''DATABASE_MIGRATE_ON_STARTUP must be false''),
       (adapter \<noteq> ''lnd'' \<and> adapter \<noteq> ''lnurl'', ''PAYMENT_LIGHTNING_ADAPTER must use the lnurl or lnd adapter''),
       (LIGHTNING \<notin> enabled, ''PAYMENT_ENABLED_METHODS must enable direct Lightning''),
       (adapter = ''lnd'' \<and> LND_INVOICE_HMAC_KEY d = [], ''LND_INVOICE_HMAC_KEY must be set to a dedicated 32-byte hex key''),
       (\<not> PAYMENT_RECONCILIATION_ENABLED d, ''PAYMENT_RECONCILIATION_ENABLED must be true''),
       (enabled - {LIGHTNING, NWC, CLINK, STABLECOIN_SWAP} \<noteq> {}, ''PAYMENT_ENABLED_METHODS must not enable unsupported methods''),
       (STABLECOIN_PAYMENTS_ENABLED cfg \<and> STABLECOIN_CHECKOUT_PROVIDER cfg = ''boltz'' \<and> \<not> https (BOLTZ_WEB_URL cfg),
        ''BOLTZ_WEB_URL must use HTTPS when stablecoin payments are enabled''),
       (STABLECOIN_PAYMENTS_ENABLED cfg \<and> STABLECOIN_CHECKOUT_PROVIDER cfg = ''lightning_swap'' \<and>
          \<not> https (LIGHTNING_SWAP_WEB_URL cfg),
        ''LIGHTNING_SWAP_WEB_URL must use HTTPS when stablecoin payments are enabled'')])"

definition production_wallet_checks :: "deployment_probe \<Rightarrow> deployment \<Rightarrow> (bool \<times> string) list" where
  "production_wallet_checks probe d =
     (let cfg = base d; nwc = (NWC \<in> set (enabled_payment_methods cfg)); clink = (CLINK \<in> set (enabled_payment_methods cfg));
          key = CLINK_NOSTR_PRIVATE_KEY d; zero = replicate 64 (CHR ''0'');
          other_keys = LND_INVOICE_HMAC_KEY d # split_on (CHR '','') (CREDENTIAL_ENCRYPTION_KEY d) in
      [(nwc \<and> str_lower (PAYMENT_NWC_ADAPTER d) \<noteq> ''nwc'', ''PAYMENT_NWC_ADAPTER must use the nwc adapter when NWC is enabled''),
       (nwc \<and> CREDENTIAL_ENCRYPTION_KEY d = [],
        ''CREDENTIAL_ENCRYPTION_KEY must contain a dedicated 32-byte hex key when NWC is enabled''),
       (nwc \<and> \<not> path_is_absolute probe (NWC_HELPER_PATH d), ''NWC_HELPER_PATH must be absolute''),
       (nwc \<and> \<not> NWC_ALLOW_PUBLIC_RELAYS d \<and> nwc_allowed_relay_hosts d = [],
        ''NWC relay policy requires NWC_ALLOW_PUBLIC_RELAYS=true or at least one NWC_ALLOWED_RELAY_HOSTS entry''),
       (clink \<and> str_lower (PAYMENT_CLINK_ADAPTER d) \<noteq> ''clink'',
        ''PAYMENT_CLINK_ADAPTER must use the clink adapter when CLINK is enabled''),
       (clink \<and> CREDENTIAL_ENCRYPTION_KEY d = [],
        ''CREDENTIAL_ENCRYPTION_KEY must contain a dedicated 32-byte hex key when CLINK is enabled''),
       (clink \<and> \<not> path_is_absolute probe (CLINK_HELPER_PATH d), ''CLINK_HELPER_PATH must be absolute''),
       (clink \<and> \<not> CLINK_ALLOW_PUBLIC_RELAYS d \<and> clink_allowed_relay_hosts d = [],
        ''CLINK relay policy requires CLINK_ALLOW_PUBLIC_RELAYS=true or at least one CLINK_ALLOWED_RELAY_HOSTS entry''),
       (clink \<and> key = [], ''CLINK_NOSTR_PRIVATE_KEY must be set to a dedicated 32-byte hex key''),
       (clink \<and> key \<noteq> [] \<and> key = zero, ''CLINK_NOSTR_PRIVATE_KEY must not be an all-zero key''),
       (clink \<and> key \<noteq> [] \<and> key \<noteq> zero \<and> key \<in> set other_keys,
        ''CLINK_NOSTR_PRIVATE_KEY must differ from credential encryption and LND invoice keys'')])"

definition explicit_secrets :: "deployment \<Rightarrow> string list" where
  "explicit_secrets d =
     filter (\<lambda>v. v \<noteq> []) [SECRET_KEY d, TOKEN_HASH_KEY d, RELAY_SECRET d, ADMIN_TOKEN' d, LND_INVOICE_HMAC_KEY d]"

definition production_secret_checks :: "deployment_probe \<Rightarrow> deployment \<Rightarrow> (bool \<times> string) list" where
  "production_secret_checks probe d =
     (let cfg = base d; short = (\<lambda>v. length v < MIN_PRODUCTION_SECRET_LENGTH); key_file = OFFLINE_ENTITLEMENT_PRIVATE_KEY_FILE d in
      [((REMINDER_EMAIL_ENABLED cfg \<or> ANNOUNCEMENT_EMAIL_ENABLED cfg) \<and> SMTP_SECURITY d \<notin> {''starttls'', ''tls''},
        ''SMTP_SECURITY must use TLS in production''),
       (SECRET_KEY d = DEFAULT_SECRET_KEY \<or> short (SECRET_KEY d),
        ''SECRET_KEY must be changed and contain at least 32 characters''),
       (TOKEN_HASH_KEY d = [] \<or> short (TOKEN_HASH_KEY d), ''TOKEN_HASH_KEY must be explicitly set to at least 32 characters''),
       (RELAY_SECRET d = [] \<or> short (RELAY_SECRET d), ''RELAY_SECRET must be explicitly set to at least 32 characters''),
       (\<not> distinct (explicit_secrets d),
        ''SECRET_KEY, TOKEN_HASH_KEY, RELAY_SECRET, ADMIN_TOKEN, and LND_INVOICE_HMAC_KEY must be distinct''),
       (CREDENTIAL_ENCRYPTION_KEY d \<noteq> [] \<and>
          list_ex (\<lambda>k. k \<in> set (explicit_secrets d)) (split_on (CHR '','') (CREDENTIAL_ENCRYPTION_KEY d)),
        ''CREDENTIAL_ENCRYPTION_KEY must be distinct from other secrets''),
       (ADMIN_TOKEN' d = DEFAULT_ADMIN_TOKEN \<or> short (ADMIN_TOKEN' d),
        ''ADMIN_TOKEN must be changed and contain at least 32 characters''),
       (DEBUG d, ''DEBUG must be false''),
       (\<not> path_is_absolute probe (CA_DIR d), ''CA_DIR must be an absolute path''),
       (LEGACY_CLIENT_CERT_ISSUANCE_ENABLED d, ''LEGACY_CLIENT_CERT_ISSUANCE_ENABLED must be false''),
       (OFFLINE_ENTITLEMENTS_ENABLED d \<and> \<not> path_is_absolute probe key_file,
        ''OFFLINE_ENTITLEMENT_PRIVATE_KEY_FILE must be absolute''),
       (OFFLINE_ENTITLEMENTS_ENABLED d \<and> path_is_absolute probe key_file \<and> private_key_error probe key_file \<noteq> None,
        the (private_key_error probe key_file)),
       (IP_YEARLY_SATS cfg \<le> 0, ''IP_YEARLY_SATS must be positive''),
       (PORT_MONTHLY_SATS cfg \<le> 0, ''PORT_MONTHLY_SATS must be positive''),
       (PORT_YEARLY_SATS cfg \<le> 0, ''PORT_YEARLY_SATS must be positive''),
       (RELAY_MONTHLY_SATS cfg \<le> 0, ''RELAY_MONTHLY_SATS must be positive''),
       (RELAY_YEARLY_SATS cfg \<le> 0, ''RELAY_YEARLY_SATS must be positive''),
       (TOKEN_BYTES d < MIN_PRODUCTION_TOKEN_BYTES, ''TOKEN_BYTES must provide at least 128 bits of entropy'')])"

definition production_address_checks :: "deployment_probe \<Rightarrow> deployment \<Rightarrow> (bool \<times> string) list" where
  "production_address_checks probe d =
     (let cfg = base d; optional = (\<lambda>v. if v = [] then [] else [v]) in
      map (\<lambda>(name, ips). (list_ex (\<lambda>a. global_unicast probe a \<noteq> Some True) ips,
             name @ '' must contain only globally routable unicast addresses''))
        [(''RELAY_PUBLIC_IPS'', relay_public_ips_list cfg), (''RELAY_SHARED_IPS'', relay_shared_ips_list cfg),
         (''WIREGUARD_PUBLIC_IPS'', wireguard_public_ips_list cfg), (''PORT_HA_EDGES'', map edge_ip (port_ha_edges_list d))] @
      map (\<lambda>(name, endpoints). (list_ex (\<lambda>e. \<not> production_endpoint probe e) endpoints,
             name @ '' must use a public relay hostname or globally routable IP''))
        [(''RELAY_CONTROL_URL'', [RELAY_CONTROL_URL d]), (''RELAY_CONTROL_URLS'', RELAY_CONTROL_URLS_parsed d),
         (''WIREGUARD_ENDPOINT'', optional (WIREGUARD_ENDPOINT' d)),
         (''FRAMED_IP_ENDPOINTS'', map snd (framed_ip_endpoints_map d))] @
      map (\<lambda>(name, domains). (list_ex (\<lambda>h. \<not> is_production_relay_hostname h) domains,
             name @ '' must contain only public production DNS names''))
        [(''RELAY_POOL_DOMAINS'', relay_pool_domains_list cfg), (''RELAY_MANAGED_SUFFIXES'', relay_managed_suffixes_list cfg),
         (''PORT_HOSTNAME_SUFFIX'', optional (PORT_HOSTNAME_SUFFIX d))])"

definition validate_production :: "deployment_probe \<Rightarrow> deployment \<Rightarrow> string option" where
  "validate_production probe d =
     (let failures = map snd (filter fst (production_service_checks probe d @ production_wallet_checks probe d @
            production_secret_checks probe d @ production_address_checks probe d)) in
      if failures \<noteq> [] then Some (''invalid production configuration: '' @ join_on ''; '' failures) else None)"

definition validate_separate_ip_inventory :: "deployment_probe \<Rightarrow> deployment \<Rightarrow> string option" where
  "validate_separate_ip_inventory probe d =
     (case first_failure (edge_checks d @ price_checks (base d) @ inventory_checks d @ offline_checks probe d @
             wireguard_checks probe d @ payment_checks d @ worker_checks d) of
        Some e \<Rightarrow> Some e
      | None \<Rightarrow> if PRODUCTION d then validate_production probe d else None)"

section \<open>What an accepted configuration guarantees\<close>

lemma first_failure_None: "first_failure cs = None \<longleftrightarrow> (\<forall>c \<in> set cs. \<not> fst c)"
  by (auto simp: first_failure_def find_None_iff)

lemma accepted_checks:
  assumes "validate_separate_ip_inventory probe d = None"
  shows "\<forall>c \<in> set (edge_checks d @ price_checks (base d) @ inventory_checks d @ offline_checks probe d @
    wireguard_checks probe d @ payment_checks d @ worker_checks d). \<not> fst c"
  using assms unfolding first_failure_None [symmetric] validate_separate_ip_inventory_def by (simp split: option.splits)

lemma accepted_edges:
  assumes "validate_separate_ip_inventory probe d = None"
  shows "set (relay_public_ips_list (base d)) \<inter> set (relay_shared_ips_list (base d)) = {}"
    and "set (wireguard_public_ips_list (base d)) \<inter>
      (set (relay_public_ips_list (base d)) \<union> set (relay_shared_ips_list (base d))) = {}"
    and "port_ha_edges_list d \<noteq> [] \<Longrightarrow> card (set (relay_shared_ips_list (base d))) = 1"
    and "port_ha_edges_list d \<noteq> [] \<Longrightarrow>
      (edge_ip ` set (port_ha_edges_list d) - set (relay_shared_ips_list (base d))) \<inter>
      (set (relay_public_ips_list (base d)) \<union> set (wireguard_public_ips_list (base d))) = {}"
proof -
  have *: "\<forall>c \<in> set (inventory_checks d). \<not> fst c" using accepted_checks [OF assms] by (simp add: ball_Un)
  show "set (relay_public_ips_list (base d)) \<inter> set (relay_shared_ips_list (base d)) = {}"
    "set (wireguard_public_ips_list (base d)) \<inter>
      (set (relay_public_ips_list (base d)) \<union> set (relay_shared_ips_list (base d))) = {}"
    "port_ha_edges_list d \<noteq> [] \<Longrightarrow> card (set (relay_shared_ips_list (base d))) = 1"
    "port_ha_edges_list d \<noteq> [] \<Longrightarrow>
      (edge_ip ` set (port_ha_edges_list d) - set (relay_shared_ips_list (base d))) \<inter>
      (set (relay_public_ips_list (base d)) \<union> set (wireguard_public_ips_list (base d))) = {}"
    using * by (simp_all add: inventory_checks_def Let_def)
qed

lemma accepted_offline:
  assumes "validate_separate_ip_inventory probe d = None" "OFFLINE_ENTITLEMENTS_ENABLED d"
  shows "OFFLINE_ENTITLEMENT_GRACE_SECONDS d + 120 < RESOURCE_REUSE_QUARANTINE_SECONDS (base d)"
    and "OFFLINE_ENTITLEMENT_GRACE_SECONDS d + 120 < RELAY_RENEWAL_GRACE_SECONDS (base d)"
proof -
  have "\<forall>c \<in> set (offline_checks probe d). \<not> fst c" using accepted_checks [OF assms(1)] by (simp add: ball_Un)
  then show "OFFLINE_ENTITLEMENT_GRACE_SECONDS d + 120 < RESOURCE_REUSE_QUARANTINE_SECONDS (base d)"
    "OFFLINE_ENTITLEMENT_GRACE_SECONDS d + 120 < RELAY_RENEWAL_GRACE_SECONDS (base d)"
    using assms(2) by (simp_all add: offline_checks_def Let_def)
qed

section \<open>A sample deployment\<close>

definition example_deployment :: deployment where
  "example_deployment = \<lparr>
     base = example_settings\<lparr>relay_pool_domains_list := [''pool.blindport.io''], relay_managed_suffixes_list := [''apps.blindport.io''],
       STABLECOIN_SWAP_INVOICE_EXPIRY_SECONDS := 600\<rparr>,
     PRODUCTION = True, PUBLIC_SITE_URL = ''https://blindport.io'', PASSKEYS_ENABLED = False, WEBAUTHN_ORIGIN = ''https://blindport.io'',
     webauthn_origin_hostname = Some ''blindport.io'', WEBAUTHN_RP_ID = ''blindport.io'', RELAY_CONTROL_URL = ''a.blindport.io:443'',
     RELAY_CONTROL_URLS_parsed = [''a.blindport.io:443'', ''b.blindport.io:443''],
     port_ha_edges_list = [\<lparr>edge_endpoint = ''a.blindport.io:443'', edge_ip = ''198.51.100.7''\<rparr>,
       \<lparr>edge_endpoint = ''b.blindport.io:443'', edge_ip = ''198.51.100.8''\<rparr>],
     PORT_HOSTNAME_SUFFIX = ''ports.blindport.io'', framed_ip_endpoints_map = [],
     relay_edges_list = [\<lparr>stable_id = ''a'', stable_endpoint = ''a.blindport.io:443''\<rparr>,
       \<lparr>stable_id = ''b'', stable_endpoint = ''b.blindport.io:443''\<rparr>],
     RELAY_HEARTBEAT_KEYS = ''{}'', relay_heartbeat_keys = [(''a'', ''ka''), (''b'', ''kb'')],
     OFFLINE_ENTITLEMENTS_ENABLED = True, OFFLINE_ENTITLEMENT_GRACE_SECONDS = 3600, OFFLINE_ENTITLEMENT_KEY_ID = ''k1'',
     OFFLINE_ENTITLEMENT_PRIVATE_KEY_FILE = ''/key.pem'',
     DNS_SUPERVISION_ENABLED = False, DNS_SUPERVISION_INTERVAL_SECONDS = 60, DNS_SUPERVISION_STALE_SECONDS = 180,
     dns_supervision_targets = 0, dns_supervision_resolvers = 0,
     WIREGUARD_RELAY_PUBLIC_KEY' = ''key'', WIREGUARD_ENDPOINT' = ''wg.blindport.io:51820'',
     WIREGUARD_RECONCILE_INTERVAL = seconds 5, WIREGUARD_RECONCILE_MAX_STALENESS = seconds 30,
     LND_REQUEST_TIMEOUT = seconds 10, LND_INVOICE_HMAC_KEY = [],
     PAYMENT_RECONCILIATION_ENABLED = True, PAYMENT_RECONCILIATION_INTERVAL = seconds 30, PAYMENT_RECONCILIATION_STALE_AFTER = seconds 120,
     BTC_USD_PRICE_REFRESH_SECONDS = 60, BTC_USD_PRICE_MAX_STALE_SECONDS = 300,
     NOTIFICATION_RECONCILIATION_ENABLED = True, NOTIFICATION_RECONCILIATION_INTERVAL = seconds 30,
     NOTIFICATION_RECONCILIATION_STALE_AFTER = seconds 120,
     PAYMENT_NWC_ADAPTER = ''nwc'', NWC_HELPER_PATH = ''/nwc'', NWC_HELPER_TIMEOUT = seconds 20, NWC_ALLOW_PUBLIC_RELAYS = True,
     nwc_allowed_relay_hosts = [],
     PAYMENT_CLINK_ADAPTER = ''clink'', CLINK_HELPER_PATH = ''/clink'', CLINK_REQUEST_TIMEOUT_SECONDS = 10,
     CLINK_HELPER_TIMEOUT_SECONDS = 20, CLINK_ALLOW_PUBLIC_RELAYS = True, clink_allowed_relay_hosts = [],
     CLINK_NOSTR_PRIVATE_KEY = replicate 64 (CHR ''1''),
     SMTP_HOST = ''mail'', SMTP_SECURITY = ''tls'', SMTP_USERNAME = [], SMTP_PASSWORD = [], SMTP_FROM_EMAIL = ''a@b.io'', SMTP_TIMEOUT = seconds 10,
     REMINDER_DELIVERY_LEASE_SECONDS = 60, CREDENTIAL_ENCRYPTION_KEY = replicate 64 (CHR ''2''),
     rate_limit_windows = [60, 300], RATE_LIMIT_BUCKET_RETENTION_SECONDS = 3600,
     DATABASE_URL = ''postgresql+psycopg://db'', DATABASE_MIGRATE_ON_STARTUP = False,
     SECRET_KEY = replicate 32 (CHR ''s''), TOKEN_HASH_KEY = replicate 32 (CHR ''t''), RELAY_SECRET = replicate 32 (CHR ''r''),
     ADMIN_TOKEN' = replicate 32 (CHR ''a''), DEBUG = False, CA_DIR = ''/ca'', LEGACY_CLIENT_CERT_ISSUANCE_ENABLED = False, TOKEN_BYTES = 16 \<rparr>"

definition example_probe :: deployment_probe where
  "example_probe = \<lparr> ip_version = (\<lambda>_. 4), valid_edge_id = (\<lambda>_. True), database_driver = (\<lambda>_. Some ''postgresql+psycopg''),
     path_is_absolute = (\<lambda>_. True), private_key_error = (\<lambda>_. None),
     global_unicast = (\<lambda>a. if list_all (\<lambda>c. c \<in> set ''0123456789.'') a then Some True else None) \<rparr>"

lemma example_deployment_accepted: "validate_separate_ip_inventory example_probe example_deployment = None"
  by code_simp

end
