(* ===== verification/Relay_Authorization.thy ===== *)
theory Relay_Authorization
  imports Assignment_Safety Configuration Crockford Hostnames
begin

text \<open>
  What a relay node may serve for a client's token (\<^verbatim>\<open>api/internal.py\<close>, \<^verbatim>\<open>services/relay_routing.py\<close>): the
  resources of the active subscriptions of the account the token belongs to, the subscription behind one
  requested tunnel, and the names a relay certificate may carry. SHA-256, the stored token hashes, the IDNA
  codec and the canonical text of an IP address (\<^verbatim>\<open>str(ip_address(s))\<close>, \<open>None\<close> where it raises) are parameters.
\<close>

section \<open>Edges\<close>

definition port_edges :: "deployment \<Rightarrow> string \<Rightarrow> relay_edge list" where
  "port_edges d address =
     (let edges = port_ha_edges_list d in
      if edges \<noteq> [] \<and> address \<in> set (relay_shared_ips_list (base d)) then edges
      else [\<lparr> edge_endpoint = RELAY_CONTROL_URL d, edge_ip = address \<rparr>])"

definition framed_ip_edge :: "deployment \<Rightarrow> string \<Rightarrow> relay_edge" where
  "framed_ip_edge d address =
     \<lparr> edge_endpoint = (case map_of (framed_ip_endpoints_map d) address of Some e \<Rightarrow> e | None \<Rightarrow> RELAY_CONTROL_URL d),
       edge_ip = address \<rparr>"

definition port_hostname :: "deployment \<Rightarrow> string \<Rightarrow> string option" where
  "port_hostname d subscription_id =
     (if PORT_HOSTNAME_SUFFIX d = [] then None else Some (subscription_id @ ''.'' @ PORT_HOSTNAME_SUFFIX d))"

section \<open>Requests and responses\<close>

datatype relay_error = RelayHttp nat string | RelayRaised error

type_synonym 'a relay_comp = "world \<Rightarrow> (relay_error + 'a) \<times> world"

record authorized_port_lease =
  apl_assigned_ip :: string
  apl_assigned_port :: int
  apl_transport :: transport

record authorized_relay_claim =
  arc_domain :: string
  arc_scope :: hostname_scope

record resolve_claim =
  rc_kind :: product_type
  rc_ip :: string
  rc_domain :: string
  rc_port :: int
  rc_transport :: string
  rc_scope :: hostname_scope

record resolve_response =
  rr_user_id :: int
  rr_account_id :: string
  ip_ips :: "string list"
  relay_domains :: "string list"
  relay_claims :: "authorized_relay_claim list"
  port_leases :: "authorized_port_lease list"
  rr_subscription_id :: "string option"

record relay_env =
  rel_deployment :: deployment
  rel_gateway :: gateway
  rel_sha :: "string \<Rightarrow> string"
  stored_hash :: "int \<Rightarrow> string"
  canonical_ip :: "string \<Rightarrow> string option"
  idna_ascii :: "string \<Rightarrow> string option"
  idna_ace_ok :: "string \<Rightarrow> bool"

definition relay_secret_error :: "deployment \<Rightarrow> string \<Rightarrow> relay_error option" where
  "relay_secret_error d header =
     (if header = [] \<or> header \<noteq> relay_secret d then Some (RelayHttp 401 ''invalid relay secret'') else None)"

definition validate_binding :: "relay_env \<Rightarrow> resolve_claim \<Rightarrow> string option" where
  "validate_binding env c =
     (case (if rc_ip c = [] then Some [] else canonical_ip env (rc_ip c)) of
        None \<Rightarrow> Some ''requested claim IP is invalid''
      | Some ip \<Rightarrow>
          if ip \<noteq> [] \<and> ip \<noteq> rc_ip c then Some ''requested claim IP is invalid''
          else let valid = (case rc_kind c of
                 IP \<Rightarrow> ip \<noteq> [] \<and> rc_domain c = [] \<and> rc_port c = 0 \<and> rc_transport c \<in> {[], ''tcp''} \<and> rc_scope c = EXACT
               | PORT \<Rightarrow> ip \<noteq> [] \<and> rc_domain c = [] \<and> rc_port c > 0 \<and> rc_transport c \<in> {''tcp'', ''udp''} \<and> rc_scope c = EXACT
               | RELAY \<Rightarrow>
                   (case canonicalize_hostname (idna_ascii env) (idna_ace_ok env) (rc_domain c) of
                      Inl _ \<Rightarrow> False
                    | Inr name \<Rightarrow> name \<noteq> [] \<and> name = rc_domain c \<and> rc_ip c = [] \<and> rc_port c = 0 \<and> rc_transport c \<in> {[], ''tcp''}))
               in if valid then None else Some ''requested claim has an invalid field combination'')"

text \<open>The field bounds of a third-version request.\<close>

definition request_bounds :: "string \<Rightarrow> resolve_claim option \<Rightarrow> bool" where
  "request_bounds token claim =
     (1 \<le> length token \<and> length token \<le> 256 \<and>
      (case claim of
         None \<Rightarrow> True
       | Some c \<Rightarrow> length (rc_ip c) \<le> 45 \<and> length (rc_domain c) \<le> 253 \<and> 0 \<le> rc_port c \<and> rc_port c \<le> 65535 \<and>
           rc_transport c \<in> {[], ''tcp'', ''udp''}))"

section \<open>Resolution of a token\<close>

definition account_rows :: "database \<Rightarrow> int \<Rightarrow> subscription list" where
  "account_rows db uid = filter (\<lambda>s. sub_user_id s = uid \<and> sub_status s = SubACTIVE) (subscriptions db)"

definition row_ips :: "subscription \<Rightarrow> string list" where
  "row_ips s =
     (if product s = IP \<and> delivery s = FRAMED \<and> nonempty (assigned_ip s) then [the (assigned_ip s)] else [])"

definition row_claims :: "subscription \<Rightarrow> authorized_relay_claim list" where
  "row_claims s =
     (if product s = RELAY \<and> nonempty (domain s)
      then [\<lparr> arc_domain = the (domain s), arc_scope = relay_hostname_scope s \<rparr>] else [])"

definition row_ports :: "deployment \<Rightarrow> subscription \<Rightarrow> authorized_port_lease list" where
  "row_ports d s =
     (if product s = PORT \<and> nonempty (assigned_ip s) \<and> nonzero (assigned_port s)
      then map (\<lambda>e. \<lparr> apl_assigned_ip = edge_ip e, apl_assigned_port = the (assigned_port s), apl_transport = transport s \<rparr>)
             (port_edges d (the (assigned_ip s)))
      else [])"

text \<open>The field bounds of a port lease raise when one is built outside them.\<close>

definition resolve_token :: "relay_env \<Rightarrow> time \<Rightarrow> string \<Rightarrow> (user \<times> resolve_response) relay_comp" where
  "resolve_token env now token w =
     (let d = rel_deployment env; cfg = base d in
      case reap_expired_domain_claims cfg (rel_gateway env) now w of
        (Inl e, w1) \<Rightarrow> (Inl (RelayRaised e), w1)
      | (Inr _, w1) \<Rightarrow>
          let hashed = hash_token (rel_sha env) (token_hash_secret d) (normalize token) in
          case List.find (\<lambda>u. stored_hash env (user_id u) = hashed \<and> \<not> is_admin u) (users (wdb w1)) of
            None \<Rightarrow> (Inl (RelayHttp 404 ''no such user''), w1)
          | Some u \<Rightarrow>
              if is_suspended u then (Inl (RelayHttp 403 ''account suspended''), w1)
              else case expire_elapsed_subscriptions cfg (seal_identity (rel_gateway env)) now
                          (account_rows (wdb w1) (user_id u)) (wdb w1) of
                Inl e \<Rightarrow> (Inl (RelayRaised e), w1)
              | Inr (rows, db) \<Rightarrow>
                  let active = filter (\<lambda>s. sub_status s = SubACTIVE) rows;
                      claims = concat (map row_claims active); ports = concat (map (row_ports d) active) in
                  if list_ex (\<lambda>l. apl_assigned_port l < 1 \<or> apl_assigned_port l > 65535) ports
                  then (Inl (RelayRaised (ValueError ''assigned_port'')), w1\<lparr>wdb := db\<rparr>)
                  else (Inr (u, \<lparr> rr_user_id = user_id u, rr_account_id = user_public_id u,
                          ip_ips = concat (map row_ips active),
                          relay_domains = map arc_domain (filter (\<lambda>c. arc_scope c = EXACT) claims),
                          relay_claims = claims, port_leases = ports, rr_subscription_id = None \<rparr>), w1\<lparr>wdb := db\<rparr>))"

definition transport_name :: "transport \<Rightarrow> string" where
  "transport_name t = (case t of TCP \<Rightarrow> ''tcp'' | UDP \<Rightarrow> ''udp'')"

definition matches_claim :: "deployment \<Rightarrow> resolve_claim \<Rightarrow> subscription \<Rightarrow> bool" where
  "matches_claim d c s =
     ((rc_kind c = IP \<and> product s = IP \<and> delivery s = FRAMED \<and> assigned_ip s = Some (rc_ip c)) \<or>
      (rc_kind c = PORT \<and> product s = PORT \<and> assigned_ip s \<noteq> None \<and> assigned_port s = Some (rc_port c) \<and>
         transport_name (transport s) = rc_transport c \<and>
         list_ex (\<lambda>e. edge_ip e = rc_ip c) (port_edges d (the (assigned_ip s)))) \<or>
      (rc_kind c = RELAY \<and> product s = RELAY \<and> domain s = Some (rc_domain c) \<and> relay_hostname_scope s = rc_scope c))"

definition claim_subscription_id :: "relay_env \<Rightarrow> time \<Rightarrow> user \<Rightarrow> resolve_claim \<Rightarrow> string option relay_comp" where
  "claim_subscription_id env now u c w =
     (case expire_elapsed_subscriptions (base (rel_deployment env)) (seal_identity (rel_gateway env)) now
             (account_rows (wdb w) (user_id u)) (wdb w) of
        Inl e \<Rightarrow> (Inl (RelayRaised e), w)
      | Inr (rows, db) \<Rightarrow>
          let matches = filter (\<lambda>s. sub_status s = SubACTIVE \<and> matches_claim (rel_deployment env) c s) rows in
          (if length matches > 1 then Inl (RelayHttp 409 ''ambiguous subscription claim'')
           else Inr (case matches of [] \<Rightarrow> None | s # _ \<Rightarrow> Some (sub_public_id s)), w\<lparr>wdb := db\<rparr>))"

text \<open>
  The endpoints, behind the shared secret. The first two answer with fewer fields of the same response; the
  second query of the third is made at its own clock reading \<open>later\<close>.
\<close>

definition resolve :: "relay_env \<Rightarrow> string \<Rightarrow> time \<Rightarrow> string \<Rightarrow> resolve_response relay_comp" where
  "resolve env header now token w =
     (case relay_secret_error (rel_deployment env) header of
        Some e \<Rightarrow> (Inl e, w)
      | None \<Rightarrow> (case resolve_token env now token w of (Inl e, w') \<Rightarrow> (Inl e, w') | (Inr (u, r), w') \<Rightarrow> (Inr r, w')))"

definition resolve_v3 ::
  "relay_env \<Rightarrow> string \<Rightarrow> time \<Rightarrow> time \<Rightarrow> string \<Rightarrow> resolve_claim option \<Rightarrow> resolve_response relay_comp" where
  "resolve_v3 env header now later token claim w =
     (case relay_secret_error (rel_deployment env) header of
        Some e \<Rightarrow> (Inl e, w)
      | None \<Rightarrow>
          if \<not> request_bounds token claim then (Inl (RelayHttp 422 ''request validation''), w)
          else (case (case claim of None \<Rightarrow> None | Some c \<Rightarrow> validate_binding env c) of
             Some e \<Rightarrow> (Inl (RelayHttp 422 e), w)
           | None \<Rightarrow>
               (case resolve_token env now token w of
                  (Inl e, w1) \<Rightarrow> (Inl e, w1)
                | (Inr (u, r), w1) \<Rightarrow>
                    (case claim of
                       None \<Rightarrow> (Inr r, w1)
                     | Some c \<Rightarrow>
                         (case claim_subscription_id env later u c w1 of
                            (Inl e, w2) \<Rightarrow> (Inl e, w2)
                          | (Inr i, w2) \<Rightarrow> (Inr (r\<lparr>rr_subscription_id := i\<rparr>), w2))))))"

section \<open>Certificates of relays\<close>

definition mapped_hosts :: "deployment \<Rightarrow> string list" where
  "mapped_hosts d = map relay_endpoint_host (RELAY_CONTROL_URL d # relay_control_urls_list d @
     map edge_endpoint (port_ha_edges_list d) @ map snd (framed_ip_endpoints_map d))"

definition relay_certificate_hostnames :: "relay_env \<Rightarrow> string set" where
  "relay_certificate_hostnames env =
     set (filter (\<lambda>h. canonical_ip env h = None) (mapped_hosts (rel_deployment env)))"

definition relay_certificate_ips :: "relay_env \<Rightarrow> string set" where
  "relay_certificate_ips env =
     (let d = rel_deployment env; cfg = base d in
      set (relay_public_ips_list cfg @ relay_shared_ips_list cfg @ wireguard_public_ips_list cfg @
           map edge_ip (port_ha_edges_list d) @ List.map_filter (canonical_ip env) (mapped_hosts d)))"

text \<open>The names a certificate is issued for; the issuance itself is the authority's.\<close>

definition relay_cert_names ::
  "relay_env \<Rightarrow> string \<Rightarrow> string list \<Rightarrow> string list \<Rightarrow> relay_error + (string list \<times> string list)" where
  "relay_cert_names env header hostnames ips =
     (case relay_secret_error (rel_deployment env) header of
        Some e \<Rightarrow> Inl e
      | None \<Rightarrow>
          let canonical = map (canonicalize_hostname (idna_ascii env) (idna_ace_ok env)) hostnames;
              addresses = map (canonical_ip env) ips in
          if hostnames = [] \<and> ips = [] then Inl (RelayHttp 400 ''must provide at least one hostname or IP for SAN'')
          else if list_ex (\<lambda>r. isl r) canonical \<or> list_ex (\<lambda>a. a = None) addresses
          then Inl (RelayHttp 400 ''invalid relay SAN'')
          else if \<not> set (map projr canonical) \<subseteq> relay_certificate_hostnames env \<or>
                  \<not> set (map the addresses) \<subseteq> relay_certificate_ips env
          then Inl (RelayHttp 403 ''relay certificate SAN is not present in configured endpoints or inventory'')
          else Inr (map projr canonical, map the addresses))"

section \<open>The rows a resolution reads\<close>

definition entitled :: "database \<Rightarrow> time \<Rightarrow> int \<Rightarrow> subscription \<Rightarrow> bool" where
  "entitled db now uid s \<longleftrightarrow>
     s \<in> set (subscriptions db) \<and> sub_user_id s = uid \<and> sub_status s = SubACTIVE \<and> \<not> has_elapsed now s"

definition token_owner :: "relay_env \<Rightarrow> string \<Rightarrow> user \<Rightarrow> bool" where
  "token_owner env token u \<longleftrightarrow>
     stored_hash env (user_id u) = hash_token (rel_sha env) (token_hash_secret (rel_deployment env)) (normalize token) \<and> \<not> is_admin u"

lemma expired_account_rows:
  assumes "expire_elapsed_subscriptions cfg seal now (account_rows db uid) db = Inr (rows, db')"
    and "distinct (map sub_id (subscriptions db))"
  shows "filter (\<lambda>s. sub_status s = SubACTIVE \<and> P s) rows = filter (\<lambda>s. entitled db now uid s \<and> P s) (subscriptions db)"
proof -
  have "distinct (account_rows db uid)" using assms(2) by (auto simp: account_rows_def distinct_map)
  then have "filter (\<lambda>s. sub_status s = SubACTIVE \<and> P s) rows =
      filter (\<lambda>s. sub_status s = SubACTIVE \<and> \<not> has_elapsed now s \<and> P s) (account_rows db uid)"
    using expire_elapsed_active [OF assms(1) _ assms(2)] by (auto simp: account_rows_def)
  also have "\<dots> = filter (\<lambda>s. entitled db now uid s \<and> P s) (subscriptions db)"
    unfolding account_rows_def filter_filter by (intro filter_cong) (auto simp: entitled_def)
  finally show ?thesis .
qed

lemma reap_tables:
  "tables_distinct (wdb w) \<Longrightarrow> tables_distinct (wdb (snd (reap_expired_domain_claims cfg gw now w)))"
  using names.keepsD [OF names.keeps_reap, of w cfg gw now] tables_distinct_shrink unfolding names_run_def by blast

text \<open>A successful resolution, read off the state after the claims were reaped.\<close>

lemma resolve_token_result:
  assumes run: "resolve_token env now token w = (Inr (u, r), w')" and d: "tables_distinct (wdb w)"
    and v: "v = wdb (snd (reap_expired_domain_claims (base (rel_deployment env)) (rel_gateway env) now w))"
  shows "u \<in> set (users v)"
    and "token_owner env token u"
    and "\<not> is_suspended u"
    and "rr_user_id r = user_id u"
    and "rr_account_id r = user_public_id u"
    and "rr_subscription_id r = None"
    and "set (ip_ips r) = (\<Union>s \<in> Collect (entitled v now (user_id u)). set (row_ips s))"
    and "set (relay_claims r) = (\<Union>s \<in> Collect (entitled v now (user_id u)). set (row_claims s))"
    and "relay_domains r = map arc_domain (filter (\<lambda>c. arc_scope c = EXACT) (relay_claims r))"
    and "set (port_leases r) = (\<Union>s \<in> Collect (entitled v now (user_id u)). set (row_ports (rel_deployment env) s))"
    and "\<exists>rows. expire_elapsed_subscriptions (base (rel_deployment env)) (seal_identity (rel_gateway env)) now
       (account_rows v (user_id u)) v = Inr (rows, wdb w')"
proof -
  obtain x w1 where reap: "reap_expired_domain_claims (base (rel_deployment env)) (rel_gateway env) now w = (Inr x, w1)"
    using run by (auto simp: resolve_token_def Let_def split: prod.splits sum.splits)
  have w1: "wdb w1 = v" using v reap by simp
  from run reap have find: "List.find (\<lambda>u. stored_hash env (user_id u) =
      hash_token (rel_sha env) (token_hash_secret (rel_deployment env)) (normalize token) \<and> \<not> is_admin u) (users v) = Some u"
    and susp: "\<not> is_suspended u"
    by (auto simp: resolve_token_def Let_def w1 split: prod.splits sum.splits option.splits if_splits)
  with run reap obtain rows db where exp: "expire_elapsed_subscriptions (base (rel_deployment env)) (seal_identity (rel_gateway env)) now
      (account_rows v (user_id u)) v = Inr (rows, db)" and db: "db = wdb w'"
    and r: "r = \<lparr> rr_user_id = user_id u, rr_account_id = user_public_id u,
      ip_ips = concat (map row_ips (filter (\<lambda>s. sub_status s = SubACTIVE) rows)),
      relay_domains = map arc_domain (filter (\<lambda>c. arc_scope c = EXACT)
        (concat (map row_claims (filter (\<lambda>s. sub_status s = SubACTIVE) rows)))),
      relay_claims = concat (map row_claims (filter (\<lambda>s. sub_status s = SubACTIVE) rows)),
      port_leases = concat (map (row_ports (rel_deployment env)) (filter (\<lambda>s. sub_status s = SubACTIVE) rows)),
      rr_subscription_id = None \<rparr>"
    by (auto simp: resolve_token_def Let_def w1 split: sum.splits if_splits)
  have "distinct (map sub_id (subscriptions v))" using reap_tables [OF d] v by (auto simp: tables_distinct_def)
  from expired_account_rows [OF exp this, of "\<lambda>_. True"]
  have rows: "set (filter (\<lambda>s. sub_status s = SubACTIVE) rows) = Collect (entitled v now (user_id u))"
    by (auto simp: entitled_def)
  have u: "u \<in> set (users v)" "token_owner env token u"
    using find by (auto simp: find_Some_iff token_owner_def in_set_conv_nth)
  show "u \<in> set (users v)"
    "token_owner env token u"
    "\<not> is_suspended u"
    "rr_user_id r = user_id u"
    "rr_account_id r = user_public_id u"
    "rr_subscription_id r = None"
    "set (ip_ips r) = (\<Union>s \<in> Collect (entitled v now (user_id u)). set (row_ips s))"
    "set (relay_claims r) = (\<Union>s \<in> Collect (entitled v now (user_id u)). set (row_claims s))"
    "relay_domains r = map arc_domain (filter (\<lambda>c. arc_scope c = EXACT) (relay_claims r))"
    "set (port_leases r) = (\<Union>s \<in> Collect (entitled v now (user_id u)). set (row_ports (rel_deployment env) s))"
    "\<exists>rows. expire_elapsed_subscriptions (base (rel_deployment env)) (seal_identity (rel_gateway env)) now
       (account_rows v (user_id u)) v = Inr (rows, wdb w')"
    using rows u susp exp db by (simp_all add: r del: set_filter)
qed

section \<open>Exclusive authorizations\<close>

lemma one_shared_address:
  assumes "validate_separate_ip_inventory probe d = None" and "port_ha_edges_list d \<noteq> []"
    and "a \<in> set (relay_shared_ips_list (base d))" and "b \<in> set (relay_shared_ips_list (base d))"
  shows "a = b"
proof -
  from accepted_edges(3) [OF assms(1,2)] obtain x where "set (relay_shared_ips_list (base d)) = {x}" by (rule card_1_singletonE)
  then show ?thesis using assms(3,4) by simp
qed

lemma common_edge:
  assumes "validate_separate_ip_inventory probe d = None"
    and "a \<in> set (relay_shared_ips_list (base d))" and "b \<in> set (relay_shared_ips_list (base d))"
    and "e \<in> set (port_edges d a)" and "f \<in> set (port_edges d b)" and "edge_ip e = edge_ip f"
  shows "a = b"
  using assms one_shared_address [OF assms(1) _ assms(2,3)]
  by (cases "port_ha_edges_list d = []") (auto simp: port_edges_def Let_def)

lemma edge_not_dedicated:
  assumes "validate_separate_ip_inventory probe d = None" and "a \<in> set (relay_shared_ips_list (base d))"
    and "e \<in> set (port_edges d a)"
  shows "edge_ip e \<notin> set (relay_public_ips_list (base d)) \<union> set (wireguard_public_ips_list (base d))"
  using accepted_edges(1,2) [OF assms(1)] accepted_edges(4) [OF assms(1)] assms(2,3)
  by (cases "port_ha_edges_list d = []") (auto simp: port_edges_def Let_def)

lemma row_portsE:
  assumes "l \<in> set (row_ports d s)"
  obtains a p e where "product s = PORT" "assigned_ip s = Some a" "assigned_port s = Some p" "p \<noteq> 0" "e \<in> set (port_edges d a)"
    "apl_assigned_ip l = edge_ip e" "apl_assigned_port l = p" "apl_transport l = transport s"
  using assms by (auto simp: row_ports_def split: if_splits) (cases "assigned_ip s"; cases "assigned_port s"; auto)

lemma row_ipsE:
  assumes "a \<in> set (row_ips s)"
  obtains "product s = IP" "delivery s = FRAMED" "assigned_ip s = Some a"
  using assms by (cases "assigned_ip s") (auto simp: row_ips_def split: if_splits)

lemma row_claimsE:
  assumes "c \<in> set (row_claims s)"
  obtains "live_claim s" "arc_domain c = the (domain s)" "arc_scope c = relay_hostname_scope s"
  using assms by (auto simp: row_claims_def live_claim_def split: if_splits)

lemma same_socket:
  assumes valid: "validate_separate_ip_inventory probe d = None" and inv: "assigned_from_inventory (base d) db"
    and idx: "subscription_indexes (subscriptions db)" and st: "s \<in> set (subscriptions db)" "t \<in> set (subscriptions db)"
    and l: "l \<in> set (row_ports d s)" "m \<in> set (row_ports d t)"
    and eq: "apl_assigned_ip l = apl_assigned_ip m" "apl_assigned_port l = apl_assigned_port m" "apl_transport l = apl_transport m"
  shows "s = t"
proof -
  obtain a p e where s: "product s = PORT" "assigned_ip s = Some a" "assigned_port s = Some p" "e \<in> set (port_edges d a)"
      "apl_assigned_ip l = edge_ip e" "apl_assigned_port l = p" "apl_transport l = transport s"
    using l(1) by (rule row_portsE)
  obtain b q f where t: "product t = PORT" "assigned_ip t = Some b" "assigned_port t = Some q" "f \<in> set (port_edges d b)"
      "apl_assigned_ip m = edge_ip f" "apl_assigned_port m = q" "apl_transport m = transport t"
    using l(2) by (rule row_portsE)
  have "a \<in> set (relay_shared_ips_list (base d))" "b \<in> set (relay_shared_ips_list (base d))"
    using inv s t st by (auto simp: assigned_from_inventory_def)
  then have "a = b" using common_edge [OF valid _ _ s(4) t(4)] s t eq by simp
  then have "port_tuple s = Some (a, p, transport s)" "port_tuple t = Some (a, p, transport s)"
    using s t eq by (auto simp: port_tuple_def)
  then show ?thesis using unique_onD [of port_tuple "subscriptions db" sub_id s t] idx st by (simp add: subscription_indexes_def)
qed

lemma same_address:
  assumes "subscription_indexes (subscriptions db)" "s \<in> set (subscriptions db)" "t \<in> set (subscriptions db)"
    and "product s = IP" "product t = IP" "assigned_ip s = Some a" "assigned_ip t = Some a"
  shows "s = t"
  using unique_onD [of dedicated_ip "subscriptions db" sub_id s t a] assms by (simp add: subscription_indexes_def dedicated_ip_def)

lemma same_name:
  assumes "names_exclusive db" "distinct (map sub_id (subscriptions db))" "s \<in> set (subscriptions db)" "t \<in> set (subscriptions db)"
    and "claim_covers s h" "claim_covers t h"
  shows "sub_user_id s = sub_user_id t"
proof (cases "sub_id s = sub_id t")
  case True
  then show ?thesis using assms(2-4) by (metis get_row_unique option.inject)
next
  case False
  have "get_subscription db (sub_id s) = Some s" "get_subscription db (sub_id t) = Some t"
    using get_row_unique [OF assms(2)] assms(3,4) by (auto simp: get_subscription_def)
  then show ?thesis using assms(1,5,6) False unfolding names_exclusive_def overlap_def linked_def by blast
qed

text \<open>
  C5: no two accounts are authorised for the same resource. Under a configuration that passes validation, start
  from tables with exclusive names and with assignments that obey the unique indexes and come from the
  inventory (empty tables do). After any history of orders, upgrades, payments with their reservations,
  settlements, cancellations, expiries and reaping, with any provider answers and with other sessions
  committing in the middle of a payment: if two tokens of different accounts are resolved, the two answers
  share no dedicated address, no socket on any edge and no hostname, even under a wildcard; and no port lease
  of one lies on a dedicated address of the other.
\<close>

theorem authorizations_exclusive:
  assumes valid: "validate_separate_ip_inventory probe (rel_deployment env) = None"
    and start: "tables_distinct (wdb w0)" "names_exclusive (wdb w0)" "subscription_indexes (subscriptions (wdb w0))"
      "assigned_from_inventory (base (rel_deployment env)) (wdb w0)"
    and history: "(payment_step (base (rel_deployment env)))\<^sup>*\<^sup>* w0 w"
    and r: "resolve env header now token w = (Inr r, w')" and q: "resolve env header' now token' w = (Inr q, w'')"
    and accounts: "rr_user_id r \<noteq> rr_user_id q"
  shows "set (ip_ips r) \<inter> set (ip_ips q) = {} \<and>
    (\<forall>l \<in> set (port_leases r). \<forall>m \<in> set (port_leases q).
      (apl_assigned_ip l, apl_assigned_port l, apl_transport l) \<noteq> (apl_assigned_ip m, apl_assigned_port m, apl_transport m)) \<and>
    (\<forall>m \<in> set (port_leases q). apl_assigned_ip m \<notin> set (ip_ips r)) \<and>
    (\<forall>c \<in> set (relay_claims r). \<forall>e \<in> set (relay_claims q). \<forall>h.
      \<not> (covers (arc_scope c) (arc_domain c) h \<and> covers (arc_scope e) (arc_domain e) h))"
proof -
  let ?d = "rel_deployment env"
  define v where v: "v = wdb (snd (reap_expired_domain_claims (base ?d) (rel_gateway env) now w))"
  have "fair (base ?d) (wdb w)" using fair_history.run_inv [OF history] start by (simp add: fair_def)
  then have d: "tables_distinct (wdb w)" and "fair (base ?d) v"
    using fairness.keepsD [OF fairness.keeps_reap [of "base ?d" "rel_gateway env" now], of w] by (auto simp: fair_run_def fair_step_def fair_def v)
  then have names: "names_exclusive v" and dv: "distinct (map sub_id (subscriptions v))"
    and idx: "subscription_indexes (subscriptions v)" and inv: "assigned_from_inventory (base ?d) v"
    by (auto simp: fair_def tables_distinct_def)
  obtain u where u: "resolve_token env now token w = (Inr (u, r), w')"
    using r by (auto simp: resolve_def split: option.splits prod.splits sum.splits)
  obtain u' where u': "resolve_token env now token' w = (Inr (u', q), w'')"
    using q by (auto simp: resolve_def split: option.splits prod.splits sum.splits)
  note R = resolve_token_result [OF u d v] and Q = resolve_token_result [OF u' d v]
  have rows: "user_id u \<noteq> user_id u'" using R(4) Q(4) accounts by simp
  have ips: "\<exists>s. entitled v now (user_id u) s \<and> product s = IP \<and> assigned_ip s = Some a" if "a \<in> set (ip_ips r)" for a
    using that unfolding R(7) by (auto elim!: row_ipsE)
  have ips': "\<exists>s. entitled v now (user_id u') s \<and> product s = IP \<and> assigned_ip s = Some a" if "a \<in> set (ip_ips q)" for a
    using that unfolding Q(7) by (auto elim!: row_ipsE)
  have "False" if "a \<in> set (ip_ips r)" "a \<in> set (ip_ips q)" for a
    using ips [OF that(1)] ips' [OF that(2)] same_address [OF idx] rows by (metis entitled_def)
  moreover have "(apl_assigned_ip l, apl_assigned_port l, apl_transport l) \<noteq> (apl_assigned_ip m, apl_assigned_port m, apl_transport m)"
    if l: "l \<in> set (port_leases r)" and m: "m \<in> set (port_leases q)" for l m
  proof -
    obtain s where s: "entitled v now (user_id u) s" "l \<in> set (row_ports ?d s)" using l unfolding R(10) by blast
    obtain t where t: "entitled v now (user_id u') t" "m \<in> set (row_ports ?d t)" using m unfolding Q(10) by blast
    have "s \<noteq> t" using s(1) t(1) rows by (auto simp: entitled_def)
    then show ?thesis using same_socket [OF valid inv idx _ _ s(2) t(2)] s(1) t(1) by (auto simp: entitled_def)
  qed
  moreover have "apl_assigned_ip m \<notin> set (ip_ips r)" if m: "m \<in> set (port_leases q)" for m
  proof
    assume a: "apl_assigned_ip m \<in> set (ip_ips r)"
    obtain s where s: "entitled v now (user_id u) s" "product s = IP" "assigned_ip s = Some (apl_assigned_ip m)"
      using ips [OF a] by blast
    obtain t where t: "entitled v now (user_id u') t" "m \<in> set (row_ports ?d t)" using m unfolding Q(10) by blast
    obtain b p e where e: "product t = PORT" "assigned_ip t = Some b" "e \<in> set (port_edges ?d b)" "apl_assigned_ip m = edge_ip e"
      using t(2) by (rule row_portsE)
    then show False using edge_not_dedicated [OF valid, of b e] inv s t(1) by (auto simp: assigned_from_inventory_def entitled_def)
  qed
  moreover have "\<not> (covers (arc_scope c) (arc_domain c) h \<and> covers (arc_scope e) (arc_domain e) h)"
    if c: "c \<in> set (relay_claims r)" and e: "e \<in> set (relay_claims q)" for c e h
  proof
    assume h: "covers (arc_scope c) (arc_domain c) h \<and> covers (arc_scope e) (arc_domain e) h"
    obtain s where s: "entitled v now (user_id u) s" "claim_covers s h"
      using c h unfolding R(8) by (auto elim!: row_claimsE simp: claim_covers_def)
    obtain t where t: "entitled v now (user_id u') t" "claim_covers t h"
      using e h unfolding Q(8) by (auto elim!: row_claimsE simp: claim_covers_def)
    show False using same_name [OF names dv _ _ s(2) t(2)] s(1) t(1) rows by (auto simp: entitled_def)
  qed
  ultimately show ?thesis by blast
qed

section \<open>Exactness\<close>

lemma resolve_unchanged_rows:
  assumes "resolve_token env now token w = (Inr (u, r), w')" and "tables_distinct (wdb w)"
  shows "tables_distinct (wdb w')"
proof -
  define v where "v = wdb (snd (reap_expired_domain_claims (base (rel_deployment env)) (rel_gateway env) now w))"
  have dv: "tables_distinct v" using reap_tables [OF assms(2)] by (simp add: v_def)
  from resolve_token_result(11) [OF assms v_def] obtain rows where
    "expire_elapsed_subscriptions (base (rel_deployment env)) (seal_identity (rel_gateway env)) now (account_rows v (user_id u)) v = Inr (rows, wdb w')"
    by blast
  from row_tx_rows [OF expire_elapsed_rows [OF this]] dv show ?thesis by (auto simp: rows_only_def intro: tables_distinct_shrink)
qed

text \<open>
  C15: a resolution authorises exactly what the account has paid for. An answer is only given behind the shared
  secret and for an account that is neither administrator nor suspended and whose stored hash is that of the
  normalised token. The dedicated addresses, names and sockets in it are exactly those of the account's active
  subscriptions whose period has not ended, each port on every edge that serves its address, and the plain
  domain list holds exactly the names that are not wildcards.
\<close>

theorem resolve_exact:
  assumes d: "tables_distinct (wdb w)" and run: "resolve env header now token w = (Inr r, w')"
    and v: "v = wdb (snd (reap_expired_domain_claims (base (rel_deployment env)) (rel_gateway env) now w))"
  shows "header = relay_secret (rel_deployment env) \<and> header \<noteq> [] \<and>
    (\<exists>u \<in> set (users v). token_owner env token u \<and> \<not> is_suspended u \<and> rr_user_id r = user_id u \<and>
      rr_account_id r = user_public_id u \<and>
      (\<forall>a. a \<in> set (ip_ips r) \<longleftrightarrow> a \<noteq> [] \<and> (\<exists>s. entitled v now (user_id u) s \<and> product s = IP \<and> delivery s = FRAMED \<and>
         assigned_ip s = Some a)) \<and>
      (\<forall>n sc. \<lparr>arc_domain = n, arc_scope = sc\<rparr> \<in> set (relay_claims r) \<longleftrightarrow> n \<noteq> [] \<and>
         (\<exists>s. entitled v now (user_id u) s \<and> product s = RELAY \<and> domain s = Some n \<and> relay_hostname_scope s = sc)) \<and>
      (\<forall>n. n \<in> set (relay_domains r) \<longleftrightarrow> \<lparr>arc_domain = n, arc_scope = EXACT\<rparr> \<in> set (relay_claims r)) \<and>
      (\<forall>a p t. \<lparr>apl_assigned_ip = a, apl_assigned_port = p, apl_transport = t\<rparr> \<in> set (port_leases r) \<longleftrightarrow> p \<noteq> 0 \<and>
         (\<exists>s b. entitled v now (user_id u) s \<and> product s = PORT \<and> assigned_ip s = Some b \<and> b \<noteq> [] \<and>
            assigned_port s = Some p \<and> transport s = t \<and> (\<exists>e \<in> set (port_edges (rel_deployment env) b). edge_ip e = a))))"
proof -
  have secret: "header = relay_secret (rel_deployment env)" "header \<noteq> []"
    using run by (auto simp: resolve_def relay_secret_error_def split: if_splits)
  obtain u where u: "resolve_token env now token w = (Inr (u, r), w')"
    using run by (auto simp: resolve_def split: option.splits prod.splits sum.splits)
  note R = resolve_token_result [OF u d v]
  have "a \<in> set (ip_ips r) \<longleftrightarrow> a \<noteq> [] \<and> (\<exists>s. entitled v now (user_id u) s \<and> product s = IP \<and> delivery s = FRAMED \<and>
      assigned_ip s = Some a)" for a
    unfolding R(7) row_ips_def by (auto simp: nonempty_def split: if_splits)
  moreover have "\<lparr>arc_domain = n, arc_scope = sc\<rparr> \<in> set (relay_claims r) \<longleftrightarrow> n \<noteq> [] \<and>
      (\<exists>s. entitled v now (user_id u) s \<and> product s = RELAY \<and> domain s = Some n \<and> relay_hostname_scope s = sc)" for n sc
    unfolding R(8) row_claims_def by (auto simp: nonempty_def split: if_splits)
  moreover have "n \<in> set (relay_domains r) \<longleftrightarrow> \<lparr>arc_domain = n, arc_scope = EXACT\<rparr> \<in> set (relay_claims r)" for n
    unfolding R(9) by (auto intro!: image_eqI [where x = "\<lparr>arc_domain = n, arc_scope = EXACT\<rparr>"])
      (metis authorized_relay_claim.surjective old.unit.exhaust)
  moreover have "\<lparr>apl_assigned_ip = a, apl_assigned_port = p, apl_transport = t\<rparr> \<in> set (port_leases r) \<longleftrightarrow> p \<noteq> 0 \<and>
      (\<exists>s b. entitled v now (user_id u) s \<and> product s = PORT \<and> assigned_ip s = Some b \<and> b \<noteq> [] \<and>
         assigned_port s = Some p \<and> transport s = t \<and> (\<exists>e \<in> set (port_edges (rel_deployment env) b). edge_ip e = a))" for a p t
    unfolding R(10) row_ports_def by (auto simp: nonempty_def nonzero_def split: if_splits) blast
  ultimately show ?thesis using secret R(1-5) by (intro conjI bexI [of _ u]) simp_all
qed

section \<open>One subscription behind a tunnel\<close>

lemma matches_unique:
  assumes valid: "validate_separate_ip_inventory probe d = None" and inv: "assigned_from_inventory (base d) db"
    and idx: "subscription_indexes (subscriptions db)" and st: "s \<in> set (subscriptions db)" "t \<in> set (subscriptions db)"
    and m: "matches_claim d c s" "matches_claim d c t"
  shows "s = t"
proof (cases "rc_kind c")
  case IP
  then show ?thesis using m same_address [OF idx st] by (auto simp: matches_claim_def)
next
  case RELAY
  then have "domain s = Some (rc_domain c)" "domain t = Some (rc_domain c)" using m by (auto simp: matches_claim_def)
  then show ?thesis using unique_onD [of domain "subscriptions db" sub_id s t] idx st by (simp add: subscription_indexes_def)
next
  case PORT
  then obtain a b e f where s: "product s = PORT" "assigned_ip s = Some a" "assigned_port s = Some (rc_port c)" "e \<in> set (port_edges d a)"
      and t: "product t = PORT" "assigned_ip t = Some b" "assigned_port t = Some (rc_port c)" "f \<in> set (port_edges d b)"
      and eq: "transport_name (transport s) = transport_name (transport t)" "edge_ip e = edge_ip f"
    using m by (auto simp: matches_claim_def list_ex_iff)
  have "a \<in> set (relay_shared_ips_list (base d))" "b \<in> set (relay_shared_ips_list (base d))"
    using inv s t st by (auto simp: assigned_from_inventory_def)
  then have "a = b" using common_edge [OF valid _ _ s(4) t(4) eq(2)] by simp
  moreover have "transport s = transport t" using eq(1) by (cases "transport s"; cases "transport t") (simp_all add: transport_name_def)
  ultimately show ?thesis
    using unique_onD [of port_tuple "subscriptions db" sub_id s t] idx st s t by (simp add: port_tuple_def subscription_indexes_def)
qed

lemma claim_query:
  assumes valid: "validate_separate_ip_inventory probe (rel_deployment env) = None"
    and inv: "assigned_from_inventory (base (rel_deployment env)) (wdb w)"
    and idx: "subscription_indexes (subscriptions (wdb w))" and run: "claim_subscription_id env now u c w = (x, w')"
  shows "x \<noteq> Inl (RelayHttp 409 m)"
    and "x = Inr pid \<Longrightarrow> pid = Some i \<longleftrightarrow>
      (\<exists>s. entitled (wdb w) now (user_id u) s \<and> matches_claim (rel_deployment env) c s \<and> sub_public_id s = i)"
proof -
  let ?d = "rel_deployment env"
  have d: "distinct (map sub_id (subscriptions (wdb w)))" using idx by (simp add: subscription_indexes_def)
  let ?ms = "filter (\<lambda>s. entitled (wdb w) now (user_id u) s \<and> matches_claim ?d c s) (subscriptions (wdb w))"
  have "distinct ?ms" using d by (simp add: distinct_map)
  moreover have "s = t" if "s \<in> set ?ms" "t \<in> set ?ms" for s t
    using that matches_unique [OF valid inv idx, of s t c] by simp
  ultimately have one: "?ms = [] \<or> (\<exists>s. ?ms = [s])"
    by (cases ?ms rule: list.exhaust) (auto, metis distinct_length_2_or_more list.exhaust list.set_intros)
  have ms: "x = Inr (case ?ms of [] \<Rightarrow> None | s # _ \<Rightarrow> Some (sub_public_id s)) \<or> (\<exists>e. x = Inl (RelayRaised e))"
  proof (cases "expire_elapsed_subscriptions (base ?d) (seal_identity (rel_gateway env)) now (account_rows (wdb w) (user_id u)) (wdb w)")
    case (Inr p)
    obtain rows db where p: "p = (rows, db)" by (rule prod.exhaust)
    have "filter (\<lambda>s. sub_status s = SubACTIVE \<and> matches_claim ?d c s) rows = ?ms"
      using expired_account_rows [OF Inr [unfolded p] d] .
    then show ?thesis using run Inr p one by (auto simp: claim_subscription_id_def Let_def)
  qed (use run in \<open>auto simp: claim_subscription_id_def\<close>)
  show "x \<noteq> Inl (RelayHttp 409 m)" using ms by auto
  show "pid = Some i \<longleftrightarrow> (\<exists>s. entitled (wdb w) now (user_id u) s \<and> matches_claim ?d c s \<and> sub_public_id s = i)" if "x = Inr pid"
  proof -
    have pid: "pid = (case ?ms of [] \<Rightarrow> None | s # _ \<Rightarrow> Some (sub_public_id s))" using ms that by auto
    have "(\<exists>s. entitled (wdb w) now (user_id u) s \<and> matches_claim ?d c s \<and> sub_public_id s = i) \<longleftrightarrow> (\<exists>s \<in> set ?ms. sub_public_id s = i)"
      by (auto simp: entitled_def)
    then show ?thesis using one by (elim disjE exE) (simp_all add: pid)
  qed
qed

text \<open>
  One tunnel has one subscription. Under a validated configuration and the unique indexes, the query that
  maps a requested tunnel to a subscription is never ambiguous; the subscription it names is exactly the
  active, unexpired one of the account that matches the requested address, socket or name.
\<close>

theorem claim_unambiguous:
  assumes valid: "validate_separate_ip_inventory probe (rel_deployment env) = None"
    and first: "resolve_token env now token w = (Inr (u, r), w1)"
    and idx: "subscription_indexes (subscriptions (wdb w1))"
    and inv: "assigned_from_inventory (base (rel_deployment env)) (wdb w1)"
    and run: "resolve_v3 env header now later token (Some c) w = (x, w2)"
  shows "x \<noteq> Inl (RelayHttp 409 m) \<and>
    (\<forall>q i. x = Inr q \<longrightarrow> rr_subscription_id q = Some i \<longleftrightarrow>
      (\<exists>s. entitled (wdb w1) later (rr_user_id q) s \<and> matches_claim (rel_deployment env) c s \<and> sub_public_id s = i))"
proof (cases "relay_secret_error (rel_deployment env) header = None \<and> request_bounds token (Some c) \<and> validate_binding env c = None")
  case True
  obtain y w3 where query: "claim_subscription_id env later u c w1 = (y, w3)" by (rule prod.exhaust)
  have uid: "rr_user_id r = user_id u"
    using first by (auto simp: resolve_token_def Let_def split: prod.splits sum.splits option.splits if_splits)
  have x: "x = (case y of Inl e \<Rightarrow> Inl e | Inr i \<Rightarrow> Inr (r\<lparr>rr_subscription_id := i\<rparr>))"
    using run True first query by (auto simp: resolve_v3_def split: sum.splits)
  show ?thesis using claim_query [OF valid inv idx query] uid by (auto simp: x split: sum.splits)
next
  case False
  then have "x = Inl (RelayHttp 401 ''invalid relay secret'') \<or> (\<exists>e. x = Inl (RelayHttp 422 e))"
    using run by (auto simp: resolve_v3_def relay_secret_error_def split: option.splits if_splits)
  then show ?thesis by auto
qed

text \<open>Only configured names and addresses enter a relay certificate.\<close>

lemma relay_cert_configured:
  "relay_cert_names env header hostnames ips = Inr (hs, as) \<Longrightarrow>
     set hs \<subseteq> relay_certificate_hostnames env \<and> set as \<subseteq> relay_certificate_ips env \<and> (hs \<noteq> [] \<or> as \<noteq> [])"
  by (auto simp: relay_cert_names_def Let_def split: option.splits if_splits)

section \<open>Worked instances\<close>

definition relay_example :: relay_env where
  "relay_example = \<lparr> rel_deployment = example_deployment, rel_gateway = idle_gateway, rel_sha = id,
     stored_hash = (\<lambda>i. token_hash_secret example_deployment @ ''|'' @ (if i = 1 then ''AAAA'' else ''BBBB'')),
     canonical_ip = Some, idna_ascii = (\<lambda>_. None), idna_ace_ok = (\<lambda>_. False) \<rparr>"

definition port_row :: "int \<Rightarrow> int \<Rightarrow> subscription" where
  "port_row i p = sample_subscription\<lparr>sub_id := i, sub_user_id := i, sub_public_id := ''s'' @ str_int i, sub_status := SubACTIVE,
     assigned_ip := Some ''198.51.100.7'', assigned_port := Some p, current_period_end := Some (days 30)\<rparr>"

definition relay_world :: world where
  "relay_world = \<lparr> wdb = empty_database\<lparr>users := [sample_user, sample_user\<lparr>user_id := 2\<rparr>],
     subscriptions := [port_row 1 10000, port_row 2 10001]\<rparr>, calls = [] \<rparr>"

definition port_answer :: "int \<Rightarrow> int \<Rightarrow> resolve_response" where
  "port_answer i p = \<lparr> rr_user_id = i, rr_account_id = user_public_id sample_user, ip_ips = [], relay_domains = [], relay_claims = [],
     port_leases = [\<lparr>apl_assigned_ip = ''198.51.100.7'', apl_assigned_port = p, apl_transport = TCP\<rparr>,
       \<lparr>apl_assigned_ip = ''198.51.100.8'', apl_assigned_port = p, apl_transport = TCP\<rparr>], rr_subscription_id = None \<rparr>"

lemmas relay_world_defs = relay_world_def port_row_def sample_subscription_def empty_database_def

lemma relay_world_rows:
  "tables_distinct (wdb relay_world)" "names_exclusive (wdb relay_world)" "subscription_indexes (subscriptions (wdb relay_world))"
  by (simp_all add: relay_world_defs tables_distinct_def names_exclusive_def overlap_def claim_covers_def live_claim_def
      get_subscription_def get_row_def subscription_indexes_def unique_on_Cons port_tuple_def dedicated_ip_def)
    
lemma relay_world_reaped:
  "reap_expired_domain_claims cfg gw (seconds 50) relay_world = (Inr 0, relay_world)"
  by (simp add: reap_expired_domain_claims_def prepare_claims_def elapsed_active_def relay_world_defs
      expire_elapsed_subscriptions_def Let_def elapsed_or_missing_def clock_simps claim_without_deadline_def
      grace_without_deadline_def release_candidates_def release_due_def claim_elapsed_def)

lemma relay_world_unexpired:
  "expire_elapsed_subscriptions cfg seal (seconds 50) (account_rows (wdb relay_world) i) (wdb relay_world) =
     Inr (account_rows (wdb relay_world) i, wdb relay_world)"
  by (simp add: expire_elapsed_subscriptions_def account_rows_def relay_world_defs has_elapsed_def elapsed_or_missing_def
      clock_simps expire_one_def)

lemma relay_world_active:
  "account_rows (wdb relay_world) i = (if i = 1 then [port_row 1 10000] else if i = 2 then [port_row 2 10001] else [])"
  by (simp add: account_rows_def relay_world_defs)

lemma relay_world_resolved:
  "resolve relay_example (relay_secret example_deployment) (seconds 50) ''AAAA'' relay_world = (Inr (port_answer 1 10000), relay_world)"
  "resolve relay_example (relay_secret example_deployment) (seconds 50) ''BBBB'' relay_world = (Inr (port_answer 2 10001), relay_world)"
proof -
  have edges: "row_ports example_deployment (port_row i p) = port_leases (port_answer i p)" if "p \<noteq> 0" for i p
    using that by (simp add: row_ports_def port_row_def port_edges_def port_answer_def example_deployment_def example_settings_def sample_subscription_def)
  have norm: "normalize ''AAAA'' = ''AAAA''" "normalize ''BBBB'' = ''BBBB''" by code_simp+
  have secret: "relay_secret_error example_deployment (relay_secret example_deployment) = None"
    by (simp add: relay_secret_error_def relay_secret_def example_deployment_def)
  have active: "sub_status (port_row i p) = SubACTIVE" for i p by (simp add: port_row_def)
  have none: "row_ips (port_row i p) = []" "row_claims (port_row i p) = []" for i p
    by (simp_all add: row_ips_def row_claims_def port_row_def sample_subscription_def)
  have us: "users (wdb relay_world) = [sample_user, sample_user\<lparr>user_id := 2\<rparr>]" by (simp add: relay_world_def)
  have sample: "user_id sample_user = 1" "is_admin sample_user = False" "is_suspended sample_user = False" by (simp_all add: sample_user_def)
  show "resolve relay_example (relay_secret example_deployment) (seconds 50) ''AAAA'' relay_world = (Inr (port_answer 1 10000), relay_world)"
    "resolve relay_example (relay_secret example_deployment) (seconds 50) ''BBBB'' relay_world = (Inr (port_answer 2 10001), relay_world)"
    by (simp_all add: resolve_def resolve_token_def relay_example_def secret Let_def relay_world_reaped relay_world_unexpired hash_token_def norm us sample)
      (simp_all add: relay_world_active active edges none, simp_all add: port_answer_def sample)
qed

lemma relay_world_inventory: "assigned_from_inventory (base example_deployment) (wdb relay_world)"
  by (simp add: assigned_from_inventory_def relay_world_defs example_deployment_def example_settings_def)

theorem authorizations_exclusive_witness:
  "resolve relay_example (relay_secret example_deployment) (seconds 50) ''AAAA'' relay_world = (Inr (port_answer 1 10000), relay_world) \<and>
   resolve relay_example (relay_secret example_deployment) (seconds 50) ''BBBB'' relay_world = (Inr (port_answer 2 10001), relay_world) \<and>
   length (port_leases (port_answer 1 10000)) = 2 \<and>
   set (port_leases (port_answer 1 10000)) \<inter> set (port_leases (port_answer 2 10001)) = {}"
  using authorizations_exclusive [of example_probe relay_example relay_world relay_world,
      OF _ relay_world_rows(1,2,3) _ rtranclp.rtrancl_refl relay_world_resolved(1) relay_world_resolved(2)]
    example_deployment_accepted relay_world_inventory relay_world_resolved
  by (auto simp: relay_example_def port_answer_def)

theorem resolve_exact_witness:
  "resolve relay_example (relay_secret example_deployment) (seconds 50) ''AAAA'' relay_world = (Inr (port_answer 1 10000), relay_world) \<and>
   (\<exists>u \<in> set (users (wdb relay_world)). token_owner relay_example ''AAAA'' u \<and> user_id u = 1)"
proof -
  have v: "wdb relay_world = wdb (snd (reap_expired_domain_claims (base (rel_deployment relay_example)) (rel_gateway relay_example) (seconds 50) relay_world))"
    by (simp add: relay_world_reaped)
  show ?thesis using resolve_exact [OF relay_world_rows(1) relay_world_resolved(1) v] relay_world_resolved(1)
    by (auto simp: port_answer_def)
qed

definition port_claim :: resolve_claim where
  "port_claim = \<lparr> rc_kind = PORT, rc_ip = ''198.51.100.8'', rc_domain = [], rc_port = 10000, rc_transport = ''tcp'', rc_scope = EXACT \<rparr>"

theorem claim_unambiguous_witness:
  "\<exists>u q. resolve_token relay_example (seconds 50) ''AAAA'' relay_world = (Inr (u, port_answer 1 10000), relay_world) \<and>
    resolve_v3 relay_example (relay_secret example_deployment) (seconds 50) (seconds 50) ''AAAA'' (Some port_claim) relay_world =
      (Inr q, relay_world) \<and> rr_subscription_id q = Some ''s1''"
proof -
  obtain u where u: "resolve_token relay_example (seconds 50) ''AAAA'' relay_world = (Inr (u, port_answer 1 10000), relay_world)"
    using relay_world_resolved(1) by (auto simp: resolve_def split: option.splits prod.splits sum.splits)
  have guards: "relay_secret_error example_deployment (relay_secret example_deployment) = None" "request_bounds ''AAAA'' (Some port_claim)"
    "validate_binding relay_example port_claim = None"
    by (simp_all add: relay_secret_error_def relay_secret_def example_deployment_def request_bounds_def validate_binding_def
        relay_example_def port_claim_def)
  have uid: "user_id u = 1" using u by (auto simp: resolve_token_def Let_def port_answer_def split: prod.splits sum.splits option.splits if_splits)
  have "length (filter P (account_rows (wdb relay_world) 1)) \<le> 1" for P by (simp add: relay_world_active)
  then obtain pid where "claim_subscription_id relay_example (seconds 50) u port_claim relay_world = (Inr pid, relay_world)"
    by (simp add: claim_subscription_id_def relay_world_unexpired uid Let_def not_less)
  then obtain q where q: "resolve_v3 relay_example (relay_secret example_deployment) (seconds 50) (seconds 50) ''AAAA'' (Some port_claim) relay_world =
      (Inr q, relay_world)" and quid: "rr_user_id q = 1"
    using u guards by (simp add: resolve_v3_def relay_example_def port_answer_def)
  have "entitled (wdb relay_world) (seconds 50) 1 (port_row 1 10000)" "matches_claim example_deployment port_claim (port_row 1 10000)"
    "sub_public_id (port_row 1 10000) = ''s1''"
    by (simp_all add: entitled_def relay_world_defs has_elapsed_def elapsed_or_missing_def clock_simps matches_claim_def port_claim_def
        transport_name_def port_edges_def example_deployment_def example_settings_def str_int_def nat_digits.simps)
  then have "rr_subscription_id q = Some ''s1''"
    using claim_unambiguous [of example_probe relay_example, OF _ u relay_world_rows(3) _ q] relay_world_inventory
      example_deployment_accepted quid by (auto simp: relay_example_def)
  then show ?thesis using u q by blast
qed

end
