(* ===== verification/Relay_Heartbeats.thy ===== *)
theory Relay_Heartbeats
  imports Database Configuration Refinement
begin

text \<open>
  Health reports of relay edges (\<^verbatim>\<open>api/internal.py\<close>): the newest report of each edge, fenced by the
  server's receive time, and the connection state of each subscription at each edge. A report is one
  transaction; concurrent reports of an edge are serialised by its row.
\<close>

section \<open>Requests and tables\<close>

record health_components =
  hc_authorization :: string
  hc_certificate :: string
  hc_lifecycle :: string
  hc_listeners :: string
  hc_wireguard :: string

record heartbeat_request =
  hr_edge_id :: string
  hr_ready :: bool
  hr_components :: health_components
  hr_active_tunnels :: int
  hr_active_streams :: int
  hr_accepted_connections_total :: int
  hr_forwarded_bytes_total :: int
  active_subscription_ids :: "string list option"
  active_subscription_ids_truncated :: bool

record relay_heartbeat_row =
  hb_edge_id :: string
  hb_ready :: bool
  hb_components :: health_components
  hb_active_tunnels :: int
  hb_active_streams :: int
  hb_accepted_connections_total :: int
  hb_forwarded_bytes_total :: int
  hb_received_at :: time

record relay_subscription_connection =
  conn_edge_id :: string
  conn_subscription_id :: int
  conn_active :: bool
  conn_observed_at :: time
  conn_last_connected_at :: "time option"

record heartbeat_db =
  heartbeats :: "relay_heartbeat_row list"
  connections :: "relay_subscription_connection list"

datatype heartbeat_answer = HeartbeatAccepted | HeartbeatRefused nat string

section \<open>Validation\<close>

definition MAX_COUNTER :: int where
  "MAX_COUNTER = 9223372036854775807"

definition components_valid :: "health_components \<Rightarrow> bool" where
  "components_valid c =
     (hc_authorization c \<in> {''ok'', ''degraded'', ''starting'', ''unavailable''} \<and>
      hc_certificate c \<in> {''ok'', ''disabled'', ''unavailable''} \<and>
      hc_lifecycle c \<in> {''serving'', ''draining''} \<and>
      hc_listeners c \<in> {''ok'', ''unavailable''} \<and>
      hc_wireguard c \<in> {''ok'', ''disabled'', ''starting'', ''unavailable''})"

text \<open>\<^verbatim>\<open>str(UUID(value)) == value\<close>\<close>

definition canonical_uuid :: "string \<Rightarrow> bool" where
  "canonical_uuid s =
     (length s = 36 \<and>
      list_all (\<lambda>i. if i \<in> {8, 13, 18, 23} then s ! i = CHR ''-'' else s ! i \<in> set ''0123456789abcdef'') [0..<36])"

definition validate_active_subscription_ids :: "string list option \<Rightarrow> string option" where
  "validate_active_subscription_ids values =
     (case values of
        None \<Rightarrow> None
      | Some ids \<Rightarrow>
          if \<not> list_all canonical_uuid ids then Some ''active subscription ID must be a canonical UUID''
          else if \<not> distinct ids then Some ''active subscription IDs must be unique''
          else if \<not> sorted ids then Some ''active subscription IDs must be sorted''
          else None)"

definition heartbeat_request_error :: "heartbeat_request \<Rightarrow> string option" where
  "heartbeat_request_error body =
     (let counter = (\<lambda>n. 0 \<le> n \<and> n \<le> MAX_COUNTER) in
      if \<not> (1 \<le> length (hr_edge_id body) \<and> length (hr_edge_id body) \<le> 63 \<and> components_valid (hr_components body) \<and>
            counter (hr_active_tunnels body) \<and> counter (hr_active_streams body) \<and>
            counter (hr_accepted_connections_total body) \<and> counter (hr_forwarded_bytes_total body) \<and>
            (case active_subscription_ids body of None \<Rightarrow> True | Some ids \<Rightarrow> length ids \<le> 1000))
      then Some ''request validation''
      else case validate_active_subscription_ids (active_subscription_ids body) of
        Some e \<Rightarrow> Some e
      | None \<Rightarrow>
          if active_subscription_ids_truncated body \<and> active_subscription_ids body = None
          then Some ''truncated active subscription IDs must be present'' else None)"

section \<open>Storage\<close>

definition heartbeat_row :: "heartbeat_request \<Rightarrow> time \<Rightarrow> relay_heartbeat_row" where
  "heartbeat_row body t =
     \<lparr> hb_edge_id = hr_edge_id body, hb_ready = hr_ready body, hb_components = hr_components body,
       hb_active_tunnels = hr_active_tunnels body, hb_active_streams = hr_active_streams body,
       hb_accepted_connections_total = hr_accepted_connections_total body,
       hb_forwarded_bytes_total = hr_forwarded_bytes_total body, hb_received_at = t \<rparr>"

definition persist_relay_heartbeat :: "heartbeat_request \<Rightarrow> time \<Rightarrow> relay_heartbeat_row list \<Rightarrow> bool \<times> relay_heartbeat_row list" where
  "persist_relay_heartbeat body received_at rows =
     (case get_row hb_edge_id (hr_edge_id body) rows of
        None \<Rightarrow> (True, rows @ [heartbeat_row body received_at])
      | Some h \<Rightarrow>
          if hb_received_at h < received_at
          then (True, update_where (\<lambda>h. hb_edge_id h = hr_edge_id body) (\<lambda>_. heartbeat_row body received_at) rows)
          else (False, rows))"

definition customer_row :: "database \<Rightarrow> subscription \<Rightarrow> bool" where
  "customer_row db s = (case get_user db (sub_user_id s) of None \<Rightarrow> False | Some u \<Rightarrow> \<not> is_admin u)"

definition connection_seen :: "time \<Rightarrow> bool \<Rightarrow> int set \<Rightarrow> relay_subscription_connection \<Rightarrow> relay_subscription_connection" where
  "connection_seen t truncated active c =
     (if conn_subscription_id c \<in> active
      then c\<lparr>conn_active := True, conn_observed_at := t, conn_last_connected_at := Some t\<rparr>
      else if \<not> truncated \<and> conn_active c then c\<lparr>conn_active := False, conn_observed_at := t\<rparr> else c)"

text \<open>\<open>None\<close> is \<^verbatim>\<open>RelayHeartbeatUnknownSubscriptionError\<close>.\<close>

definition persist_relay_subscription_connections ::
  "database \<Rightarrow> heartbeat_request \<Rightarrow> time \<Rightarrow> relay_subscription_connection list \<Rightarrow> relay_subscription_connection list option" where
  "persist_relay_subscription_connections db body t conns =
     (case active_subscription_ids body of
        None \<Rightarrow> Some conns
      | Some public_ids \<Rightarrow>
          let subs = filter (\<lambda>s. sub_public_id s \<in> set public_ids \<and> customer_row db s) (subscriptions db) in
          if card (set (map sub_public_id subs)) \<noteq> length public_ids then None
          else let edge = hr_edge_id body; ids = remdups (map sub_id subs);
                   existing = map conn_subscription_id (filter (\<lambda>c. conn_edge_id c = edge) conns) in
               Some (update_where (\<lambda>c. conn_edge_id c = edge)
                       (connection_seen t (active_subscription_ids_truncated body) (set ids)) conns @
                     map (\<lambda>i. \<lparr> conn_edge_id = edge, conn_subscription_id = i, conn_active = True,
                               conn_observed_at = t, conn_last_connected_at = Some t \<rparr>)
                       (filter (\<lambda>i. i \<notin> set existing) ids)))"

definition relay_heartbeat ::
  "deployment \<Rightarrow> database \<Rightarrow> string \<Rightarrow> string \<Rightarrow> time \<Rightarrow> heartbeat_request \<Rightarrow> heartbeat_db \<Rightarrow> heartbeat_answer \<times> heartbeat_db" where
  "relay_heartbeat d db secret token received_at body st =
     (if secret = [] \<or> secret \<noteq> relay_secret d then (HeartbeatRefused 401 ''invalid relay secret'', st)
      else case heartbeat_request_error body of
        Some e \<Rightarrow> (HeartbeatRefused 422 e, st)
      | None \<Rightarrow>
          (case map_of (relay_heartbeat_keys d) (hr_edge_id body) of
             None \<Rightarrow> (HeartbeatRefused 401 ''invalid relay heartbeat token'', st)
           | Some expected \<Rightarrow>
               if token = [] \<or> token \<noteq> expected then (HeartbeatRefused 401 ''invalid relay heartbeat token'', st)
               else case persist_relay_heartbeat body received_at (heartbeats st) of
                 (False, _) \<Rightarrow> (HeartbeatAccepted, st)
               | (True, rows) \<Rightarrow>
                   (case persist_relay_subscription_connections db body received_at (connections st) of
                      None \<Rightarrow> (HeartbeatRefused 422 ''unknown relay subscription ID'', st)
                    | Some conns \<Rightarrow> (HeartbeatAccepted, \<lparr>heartbeats = rows, connections = conns\<rparr>))))"

section \<open>Specification: the last report of each edge and the state of each link\<close>

record edge_store =
  latest :: "string \<rightharpoonup> relay_heartbeat_row"
  links :: "string \<times> int \<rightharpoonup> bool \<times> time \<times> time option"

text \<open>An event: the database at that time, both headers, the receive time and the body.\<close>

type_synonym heartbeat_event = "database \<times> string \<times> string \<times> time \<times> heartbeat_request"

definition link_seen :: "time \<Rightarrow> bool \<Rightarrow> bool \<Rightarrow> (bool \<times> time \<times> time option) option \<Rightarrow> (bool \<times> time \<times> time option) option" where
  "link_seen t reported truncated l =
     (if reported then Some (True, t, Some t)
      else case l of
        Some (True, _, since) \<Rightarrow> if truncated then l else Some (False, t, since)
      | _ \<Rightarrow> l)"

definition reported_rows :: "database \<Rightarrow> string list \<Rightarrow> int set" where
  "reported_rows db ids = {i. \<exists>s \<in> set (subscriptions db). sub_id s = i \<and> sub_public_id s \<in> set ids \<and> customer_row db s}"

definition edge_authentic :: "deployment \<Rightarrow> string \<Rightarrow> string \<Rightarrow> heartbeat_request \<Rightarrow> heartbeat_answer option" where
  "edge_authentic d secret token body =
     (if secret = [] \<or> secret \<noteq> relay_secret d then Some (HeartbeatRefused 401 ''invalid relay secret'')
      else case heartbeat_request_error body of
        Some e \<Rightarrow> Some (HeartbeatRefused 422 e)
      | None \<Rightarrow> if token \<noteq> [] \<and> map_of (relay_heartbeat_keys d) (hr_edge_id body) = Some token then None
               else Some (HeartbeatRefused 401 ''invalid relay heartbeat token''))"

fun edge_step :: "deployment \<Rightarrow> heartbeat_event \<Rightarrow> edge_store \<Rightarrow> heartbeat_answer \<times> edge_store" where
  "edge_step d (db, secret, token, t, body) st =
     (case edge_authentic d secret token body of
        Some a \<Rightarrow> (a, st)
      | None \<Rightarrow>
          if \<exists>h. latest st (hr_edge_id body) = Some h \<and> t \<le> hb_received_at h then (HeartbeatAccepted, st)
          else case active_subscription_ids body of
            None \<Rightarrow> (HeartbeatAccepted, st\<lparr>latest := (latest st)(hr_edge_id body \<mapsto> heartbeat_row body t)\<rparr>)
          | Some ids \<Rightarrow>
              if \<forall>p \<in> set ids. \<exists>s \<in> set (subscriptions db). sub_public_id s = p \<and> customer_row db s
              then (HeartbeatAccepted, \<lparr> latest = (latest st)(hr_edge_id body \<mapsto> heartbeat_row body t),
                     links = (\<lambda>(e, i). if e = hr_edge_id body
                       then link_seen t (i \<in> reported_rows db ids) (active_subscription_ids_truncated body) (links st (e, i))
                       else links st (e, i)) \<rparr>)
              else (HeartbeatRefused 422 ''unknown relay subscription ID'', st))"

fun heartbeat_step :: "deployment \<Rightarrow> heartbeat_event \<Rightarrow> heartbeat_db \<Rightarrow> heartbeat_answer \<times> heartbeat_db" where
  "heartbeat_step d (db, secret, token, t, body) st = relay_heartbeat d db secret token t body st"

definition edges_of :: "heartbeat_db \<Rightarrow> edge_store" where
  "edges_of st =
     \<lparr> latest = (\<lambda>e. get_row hb_edge_id e (heartbeats st)),
       links = (\<lambda>(e, i). map_option (\<lambda>c. (conn_active c, conn_observed_at c, conn_last_connected_at c))
         (get_row (\<lambda>c. (conn_edge_id c, conn_subscription_id c)) (e, i) (connections st))) \<rparr>"

text \<open>The primary keys of the two tables.\<close>

definition heartbeat_keys :: "heartbeat_db \<Rightarrow> bool" where
  "heartbeat_keys st \<longleftrightarrow> distinct (map hb_edge_id (heartbeats st)) \<and>
     distinct (map (\<lambda>c. (conn_edge_id c, conn_subscription_id c)) (connections st))"

section \<open>The tables implement the specification\<close>

lemma get_row_append: "get_row key k (rs @ ss) = (case get_row key k rs of Some r \<Rightarrow> Some r | None \<Rightarrow> get_row key k ss)"
  by (induction rs) (auto simp: get_row_def)

lemma persist_latest:
  assumes "persist_relay_heartbeat body t rows = (won, rows')"
  shows "won \<longleftrightarrow> \<not> (\<exists>h. get_row hb_edge_id (hr_edge_id body) rows = Some h \<and> t \<le> hb_received_at h)"
    and "won \<Longrightarrow> get_row hb_edge_id e rows' = (if e = hr_edge_id body then Some (heartbeat_row body t) else get_row hb_edge_id e rows)"
    and "distinct (map hb_edge_id rows) \<Longrightarrow> distinct (map hb_edge_id rows')"
proof -
  have row: "hb_edge_id (heartbeat_row body t) = hr_edge_id body" by (simp add: heartbeat_row_def)
  show "won \<longleftrightarrow> \<not> (\<exists>h. get_row hb_edge_id (hr_edge_id body) rows = Some h \<and> t \<le> hb_received_at h)"
    using assms by (auto simp: persist_relay_heartbeat_def split: option.splits if_splits)
  have one: "get_row hb_edge_id k [heartbeat_row body t] = (if k = hr_edge_id body then Some (heartbeat_row body t) else None)" for k
    by (simp add: get_row_def row)
  have upd: "get_row hb_edge_id e (update_where (\<lambda>h. hb_edge_id h = hr_edge_id body) (\<lambda>_. heartbeat_row body t) rows) =
      (if e = hr_edge_id body then map_option (\<lambda>_. heartbeat_row body t) (get_row hb_edge_id e rows) else get_row hb_edge_id e rows)"
    by (subst get_row_update_where) (auto simp: row dest!: get_row_Some intro!: option.map_ident_strong option.map_cong0)
  show "get_row hb_edge_id e rows' = (if e = hr_edge_id body then Some (heartbeat_row body t) else get_row hb_edge_id e rows)" if won
    using assms that upd
    by (auto simp: persist_relay_heartbeat_def get_row_append row one split: option.splits if_splits)
  have "map hb_edge_id (update_where (\<lambda>h. hb_edge_id h = hr_edge_id body) (\<lambda>_. heartbeat_row body t) rows) = map hb_edge_id rows"
    by (auto simp: update_where_def row)
  then show "distinct (map hb_edge_id rows')" if "distinct (map hb_edge_id rows)"
    using assms that by (auto simp: persist_relay_heartbeat_def row get_row_None split: option.splits if_splits)
qed

lemma all_found:
  assumes "distinct ids" and subs: "set subs = {s \<in> A. f s \<in> set ids \<and> P s}"
  shows "card (f ` set subs) = length ids \<longleftrightarrow> (\<forall>p \<in> set ids. \<exists>s \<in> A. f s = p \<and> P s)"
proof -
  have sub: "f ` set subs \<subseteq> set ids" using subs by auto
  have "card (f ` set subs) = length ids \<longleftrightarrow> set ids \<subseteq> f ` set subs"
  proof
    show "set ids \<subseteq> f ` set subs" if "card (f ` set subs) = length ids"
      using card_subset_eq [OF _ sub] distinct_card [OF assms(1)] that by simp
    show "card (f ` set subs) = length ids" if "set ids \<subseteq> f ` set subs"
      using sub that distinct_card [OF assms(1)] by (simp add: subset_antisym)
  qed
  also have "\<dots> \<longleftrightarrow> (\<forall>p \<in> set ids. \<exists>s \<in> A. f s = p \<and> P s)"
  proof (intro iffI ballI subsetI)
    fix p assume "p \<in> set ids" and "set ids \<subseteq> f ` set subs"
    then obtain s where "s \<in> set subs" "f s = p" by blast
    then show "\<exists>s \<in> A. f s = p \<and> P s" by (intro bexI [of _ s]) (simp_all add: subs)
  next
    fix p assume p: "p \<in> set ids" and "\<forall>p \<in> set ids. \<exists>s \<in> A. f s = p \<and> P s"
    then obtain s where "s \<in> A" "f s = p" "P s" by blast
    then show "p \<in> f ` set subs" using p by (intro image_eqI [of _ _ s]) (simp_all add: subs)
  qed
  finally show ?thesis .
qed

definition conn_key :: "relay_subscription_connection \<Rightarrow> string \<times> int" where
  "conn_key c = (conn_edge_id c, conn_subscription_id c)"

definition conn_state :: "relay_subscription_connection \<Rightarrow> bool \<times> time \<times> time option" where
  "conn_state c = (conn_active c, conn_observed_at c, conn_last_connected_at c)"

lemma connection_seen_key [simp]: "conn_key (connection_seen t tr act c) = conn_key c"
  by (simp add: connection_seen_def conn_key_def)

lemma connection_seen_state:
  "Some (conn_state (connection_seen t tr act c)) = link_seen t (conn_subscription_id c \<in> act) tr (Some (conn_state c))"
  by (auto simp: connection_seen_def link_seen_def conn_state_def split: bool.splits)

lemma get_new_connections:
  "get_row conn_key (e, i) (map (\<lambda>i. \<lparr> conn_edge_id = edge, conn_subscription_id = i, conn_active = True,
     conn_observed_at = t, conn_last_connected_at = Some t \<rparr>) is) =
   (if e = edge \<and> i \<in> set is then Some \<lparr> conn_edge_id = edge, conn_subscription_id = i, conn_active = True,
     conn_observed_at = t, conn_last_connected_at = Some t \<rparr> else None)"
  by (induction "is") (auto simp: get_row_def conn_key_def)

lemma persist_links:
  assumes ids: "active_subscription_ids body = Some ids" "distinct ids"
    and known_def: "known = (\<forall>p \<in> set ids. \<exists>s \<in> set (subscriptions db). sub_public_id s = p \<and> customer_row db s)"
  shows "persist_relay_subscription_connections db body t conns = None \<longleftrightarrow> \<not> known"
    and "persist_relay_subscription_connections db body t conns = Some conns' \<Longrightarrow>
      map_option conn_state (get_row conn_key (e, i) conns') =
        (if e = hr_edge_id body
         then link_seen t (i \<in> reported_rows db ids) (active_subscription_ids_truncated body) (map_option conn_state (get_row conn_key (e, i) conns))
         else map_option conn_state (get_row conn_key (e, i) conns))"
    and "persist_relay_subscription_connections db body t conns = Some conns' \<Longrightarrow> distinct (map conn_key conns) \<Longrightarrow>
      distinct (map conn_key conns')"
proof -
  define subs where "subs = filter (\<lambda>s. sub_public_id s \<in> set ids \<and> customer_row db s) (subscriptions db)"
  define new where "new = (\<lambda>i. \<lparr> conn_edge_id = hr_edge_id body, conn_subscription_id = i, conn_active = True,
      conn_observed_at = t, conn_last_connected_at = Some t \<rparr>)"
  define fresh where "fresh = filter (\<lambda>i. i \<notin> set (map conn_subscription_id (filter (\<lambda>c. conn_edge_id c = hr_edge_id body) conns)))
      (remdups (map sub_id subs))"
  have "card (sub_public_id ` set subs) = length ids \<longleftrightarrow> known"
    unfolding known_def by (rule all_found [OF ids(2)]) (auto simp: subs_def)
  then have def: "persist_relay_subscription_connections db body t conns =
      (if known then Some (update_where (\<lambda>c. conn_edge_id c = hr_edge_id body)
          (connection_seen t (active_subscription_ids_truncated body) (reported_rows db ids)) conns @ map new fresh) else None)"
  proof -
    have rep: "reported_rows db ids = set (remdups (map sub_id subs))" by (auto simp: reported_rows_def subs_def)
    show ?thesis unfolding persist_relay_subscription_connections_def ids(1) rep fresh_def new_def subs_def
      using \<open>_ \<longleftrightarrow> known\<close> by (simp add: Let_def subs_def)
  qed
  show "persist_relay_subscription_connections db body t conns = None \<longleftrightarrow> \<not> known" by (simp add: def)
  have fresh_set: "i \<in> set fresh \<longleftrightarrow> i \<in> reported_rows db ids \<and> get_row conn_key (hr_edge_id body, i) conns = None" for i
    by (auto simp: fresh_def subs_def reported_rows_def get_row_None conn_key_def image_iff)
  assume run: "persist_relay_subscription_connections db body t conns = Some conns'"
  then have conns': "conns' = update_where (\<lambda>c. conn_edge_id c = hr_edge_id body)
      (connection_seen t (active_subscription_ids_truncated body) (reported_rows db ids)) conns @ map new fresh"
    by (simp add: def split: if_splits)
  show "map_option conn_state (get_row conn_key (e, i) conns') =
        (if e = hr_edge_id body
         then link_seen t (i \<in> reported_rows db ids) (active_subscription_ids_truncated body) (map_option conn_state (get_row conn_key (e, i) conns))
         else map_option conn_state (get_row conn_key (e, i) conns))"
  proof (cases "get_row conn_key (e, i) conns")
    case None
    then show ?thesis unfolding conns' new_def
      by (cases "e = hr_edge_id body") (simp_all add: get_row_append get_row_update_where get_new_connections fresh_set link_seen_def conn_state_def)
  next
    case (Some c)
    then have c: "conn_edge_id c = e" "conn_subscription_id c = i" using get_row_Some [OF Some] by (auto simp: conn_key_def)
    then have "get_row conn_key (e, i) conns' = Some (if e = hr_edge_id body
        then connection_seen t (active_subscription_ids_truncated body) (reported_rows db ids) c else c)"
      unfolding conns' by (simp add: get_row_append get_row_update_where Some)
    then show ?thesis using c connection_seen_state [of t _ _ c] Some by (cases "e = hr_edge_id body") simp_all
  qed
  have "map conn_key (update_where (\<lambda>c. conn_edge_id c = hr_edge_id body)
      (connection_seen t (active_subscription_ids_truncated body) (reported_rows db ids)) conns) = map conn_key conns"
    by (simp add: update_where_def)
  moreover have "conn_key (new i) = (hr_edge_id body, i)" for i by (simp add: new_def conn_key_def)
  moreover have "distinct fresh" by (simp add: fresh_def)
  ultimately show "distinct (map conn_key conns')" if "distinct (map conn_key conns)"
    using that fresh_set by (auto simp: conns' comp_def distinct_map inj_on_def get_row_None)
qed

lemma edges_of_alt:
  "edges_of st = \<lparr> latest = (\<lambda>e. get_row hb_edge_id e (heartbeats st)),
     links = (\<lambda>(e, i). map_option conn_state (get_row conn_key (e, i) (connections st))) \<rparr>"
  by (simp add: edges_of_def conn_key_def [abs_def] conn_state_def [abs_def])

lemma valid_ids_distinct: "heartbeat_request_error body = None \<Longrightarrow> active_subscription_ids body = Some ids \<Longrightarrow> distinct ids"
  by (auto simp: heartbeat_request_error_def validate_active_subscription_ids_def Let_def split: if_splits option.splits)

lemma relay_heartbeat_authentic:
  assumes "edge_authentic d secret token body = None"
  shows "heartbeat_request_error body = None"
    and "relay_heartbeat d db secret token t body st =
      (case persist_relay_heartbeat body t (heartbeats st) of
         (False, _) \<Rightarrow> (HeartbeatAccepted, st)
       | (True, rows) \<Rightarrow>
           (case persist_relay_subscription_connections db body t (connections st) of
              None \<Rightarrow> (HeartbeatRefused 422 ''unknown relay subscription ID'', st)
            | Some conns \<Rightarrow> (HeartbeatAccepted, \<lparr>heartbeats = rows, connections = conns\<rparr>)))"
  using assms by (auto simp: edge_authentic_def relay_heartbeat_def split: if_splits option.splits)

lemma relay_heartbeat_refused:
  "edge_authentic d secret token body = Some a \<Longrightarrow> relay_heartbeat d db secret token t body st = (a, st)"
  by (auto simp: edge_authentic_def relay_heartbeat_def split: if_splits option.splits)

lemma heartbeat_refines:
  "edge_step d (db, secret, token, t, body) (edges_of st) =
     (fst (relay_heartbeat d db secret token t body st), edges_of (snd (relay_heartbeat d db secret token t body st)))"
proof (cases "edge_authentic d secret token body")
  case (Some a)
  then show ?thesis by (simp add: relay_heartbeat_refused)
next
  case None
  note run = relay_heartbeat_authentic(2) [OF None, of db t st]
  obtain won rows where p: "persist_relay_heartbeat body t (heartbeats st) = (won, rows)" by (rule prod.exhaust)
  have won: "(\<exists>h. latest (edges_of st) (hr_edge_id body) = Some h \<and> t \<le> hb_received_at h) \<longleftrightarrow> \<not> won"
    using persist_latest(1) [OF p] by (simp add: edges_of_alt)
  show ?thesis
  proof (cases won)
    case False
    then show ?thesis using won None by (simp add: run p)
  next
    case True
    then have rows: "(\<lambda>e. get_row hb_edge_id e rows) = (latest (edges_of st))(hr_edge_id body \<mapsto> heartbeat_row body t)"
      using persist_latest(2) [OF p] by (auto simp: edges_of_alt)
    show ?thesis
    proof (cases "active_subscription_ids body")
      case no: None
      then show ?thesis using won True None rows
        by (auto simp: run p persist_relay_subscription_connections_def edges_of_alt)
    next
      case (Some ids)
      have "distinct ids" using valid_ids_distinct [OF relay_heartbeat_authentic(1) [OF None] Some] .
      note links = persist_links [OF Some this refl, of db t "connections st"]
      show ?thesis
      proof (cases "persist_relay_subscription_connections db body t (connections st)")
        case unknown: None
        then show ?thesis using won True None Some links(1) by (simp add: run p)
      next
        case known: (Some conns)
        have "\<forall>p \<in> set ids. \<exists>s \<in> set (subscriptions db). sub_public_id s = p \<and> customer_row db s"
          using links(1) known by simp
        then show ?thesis using won True None Some rows links(2) [OF known]
          by (simp add: run p known edges_of_alt fun_eq_iff) blast
      qed
    qed
  qed
qed

lemma heartbeat_step_keys: "heartbeat_keys st \<Longrightarrow> heartbeat_keys (snd (heartbeat_step d e st))"
proof -
  assume keys: "heartbeat_keys st"
  obtain db secret token t body where e: "e = (db, secret, token, t, body)" by (cases e)
  have keys': "distinct (map hb_edge_id (heartbeats st))" "distinct (map conn_key (connections st))"
    using keys by (simp_all add: heartbeat_keys_def conn_key_def [abs_def])
  have "distinct (map conn_key conns)"
    if c: "persist_relay_subscription_connections db body t (connections st) = Some conns" and a: "edge_authentic d secret token body = None" for conns
  proof (cases "active_subscription_ids body")
    case None
    then show ?thesis using c keys' by (simp add: persist_relay_subscription_connections_def)
  next
    case (Some ids)
    then show ?thesis
      using persist_links(3) [OF Some _ refl c keys'(2)] valid_ids_distinct [OF relay_heartbeat_authentic(1) [OF a]] by blast
  qed
  moreover obtain won rows where p: "persist_relay_heartbeat body t (heartbeats st) = (won, rows)" by (rule prod.exhaust)
  ultimately show ?thesis
    using keys persist_latest(3) [OF p keys'(1)]
    by (cases "edge_authentic d secret token body")
      (auto simp: e relay_heartbeat_refused relay_heartbeat_authentic(2) heartbeat_keys_def conn_key_def [abs_def] split: option.splits bool.splits)
qed

interpretation edge_reports: functional_refinement "heartbeat_step d" "edge_step d" heartbeat_keys edges_of for d
proof
  show "heartbeat_keys (snd (heartbeat_step d e s))" if "heartbeat_keys s" for s e using that by (rule heartbeat_step_keys)
  show "edge_step d e (edges_of s) = (fst (heartbeat_step d e s), edges_of (snd (heartbeat_step d e s)))" for s e
    by (cases e) (simp add: heartbeat_refines del: edge_step.simps)
qed

definition no_reports :: heartbeat_db where
  "no_reports = \<lparr>heartbeats = [], connections = []\<rparr>"

definition no_edges :: edge_store where
  "no_edges = \<lparr>latest = Map.empty, links = Map.empty\<rparr>"

lemma no_reports_keys: "heartbeat_keys no_reports" and no_reports_edges: "edges_of no_reports = no_edges"
  by (auto simp: no_reports_def heartbeat_keys_def edges_of_def no_edges_def get_row_def)

lemmas history_of_reports = edge_reports.history_refines [OF no_reports_keys, unfolded no_reports_edges]

text \<open>
  C18: the heartbeat tables implement a store of last reports. Over any history of reports, authentic or not, at
  any receive times, in any order and beside any changes of the subscriptions, the endpoint answers like a store
  that keeps for each edge the report with the greatest receive time and for each link the state it implies: a
  full list marks the links it omits as inactive, a truncated one leaves them, a report with an unknown
  subscription or of an older time changes nothing.
\<close>

theorem relay_reports_refine:
  "outputs (edge_step d) es no_edges =
     (fst (outputs (heartbeat_step d) es no_reports), edges_of (snd (outputs (heartbeat_step d) es no_reports)))"
  by (rule history_of_reports)

section \<open>Freshness\<close>

fun reports :: "deployment \<Rightarrow> heartbeat_event \<Rightarrow> relay_heartbeat_row \<Rightarrow> bool" where
  "reports d (db, secret, token, t, body) h \<longleftrightarrow> edge_authentic d secret token body = None \<and> h = heartbeat_row body t"

definition link_dated :: "relay_heartbeat_row \<Rightarrow> bool \<times> time \<times> time option \<Rightarrow> bool" where
  "link_dated h l \<longleftrightarrow> (case l of (active, observed, since) \<Rightarrow>
     observed \<le> hb_received_at h \<and> (\<exists>k. since = Some k \<and> k \<le> observed \<and> (active \<longrightarrow> k = observed)))"

definition edges_dated :: "deployment \<Rightarrow> heartbeat_event list \<Rightarrow> heartbeat_answer list \<Rightarrow> edge_store \<Rightarrow> bool" where
  "edges_dated d es as st \<longleftrightarrow>
     (\<forall>e h. latest st e = Some h \<longrightarrow> hb_edge_id h = e \<and> (\<exists>ev \<in> set es. reports d ev h)) \<and>
     (\<forall>e i l. links st (e, i) = Some l \<longrightarrow> (\<exists>h. latest st e = Some h \<and> link_dated h l)) \<and>
     (\<forall>(ev, a) \<in> set (zip es as). a = HeartbeatAccepted \<longrightarrow>
        (\<exists>r h. reports d ev r \<and> latest st (hb_edge_id r) = Some h \<and> hb_received_at r \<le> hb_received_at h))"

lemma link_seen_dated:
  assumes "link_seen t reported truncated l = Some l'" and "\<And>k. l = Some k \<Longrightarrow> \<exists>h. link_dated h k \<and> hb_received_at h \<le> t"
    and "hb_received_at h' = t"
  shows "link_dated h' l'"
proof (cases "reported \<or> l = None")
  case True
  then show ?thesis using assms(1,3) by (auto simp: link_seen_def link_dated_def split: if_splits)
next
  case False
  then obtain act obs since where l: "l = Some (act, obs, since)" by (cases l) auto
  then show ?thesis using assms(1,3) assms(2) [OF l] False
    by (cases act) (auto simp: link_seen_def link_dated_def split: if_splits)
qed

lemma link_dated_later: "link_dated h l \<Longrightarrow> hb_received_at h \<le> hb_received_at h' \<Longrightarrow> link_dated h' l"
  by (auto simp: link_dated_def)

lemma edge_step_kept:
  assumes "snd (edge_step d ev st) = st"
  shows "edges_dated d es as st \<Longrightarrow> (fst (edge_step d ev st) = HeartbeatAccepted \<Longrightarrow>
      \<exists>r h. reports d ev r \<and> latest st (hb_edge_id r) = Some h \<and> hb_received_at r \<le> hb_received_at h) \<Longrightarrow>
    length as = length es \<Longrightarrow> edges_dated d (es @ [ev]) (as @ [fst (edge_step d ev st)]) (snd (edge_step d ev st))"
  using assms unfolding edges_dated_def by (simp add: zip_append del: edge_step.simps)

lemma edges_dated_won:
  assumes J: "edges_dated d es as st" and len: "length as = length es"
    and auth: "edge_authentic d secret token body = None"
    and newer: "\<not> (\<exists>h. latest st (hr_edge_id body) = Some h \<and> t \<le> hb_received_at h)"
    and latest': "latest st' = (latest st)(hr_edge_id body \<mapsto> heartbeat_row body t)"
    and links': "\<And>e i l. links st' (e, i) = Some l \<Longrightarrow> links st (e, i) = Some l \<or>
      e = hr_edge_id body \<and> (\<exists>reported truncated. link_seen t reported truncated (links st (e, i)) = Some l)"
  shows "edges_dated d (es @ [(db, secret, token, t, body)]) (as @ [a]) st'"
proof -
  let ?r = "heartbeat_row body t" and ?ev = "(db, secret, token, t, body)"
  have r: "hb_edge_id ?r = hr_edge_id body" "hb_received_at ?r = t" "reports d ?ev ?r"
    using auth by (simp_all add: heartbeat_row_def)
  have later: "\<exists>h'. latest st' e = Some h' \<and> hb_received_at h \<le> hb_received_at h'" if "latest st e = Some h" for e h
    using that newer r(2) by (cases "e = hr_edge_id body") (auto simp: latest')
  have "hb_edge_id h = e \<and> (\<exists>ev \<in> set (es @ [?ev]). reports d ev h)" if "latest st' e = Some h" for e h
    using that J r unfolding edges_dated_def by (cases "e = hr_edge_id body") (auto simp: latest')
  moreover have "\<exists>h. latest st' e = Some h \<and> link_dated h l" if "links st' (e, i) = Some l" for e i l
    using links' [OF that]
  proof
    assume "links st (e, i) = Some l"
    then obtain h where "latest st e = Some h" "link_dated h l" using J unfolding edges_dated_def by blast
    then show ?thesis using later link_dated_later by blast
  next
    assume "e = hr_edge_id body \<and> (\<exists>reported truncated. link_seen t reported truncated (links st (e, i)) = Some l)"
    then obtain reported truncated where e: "e = hr_edge_id body" and l: "link_seen t reported truncated (links st (e, i)) = Some l" by blast
    have "\<exists>h. link_dated h k \<and> hb_received_at h \<le> t" if "links st (e, i) = Some k" for k
    proof -
      obtain h where "latest st e = Some h" "link_dated h k" using J \<open>links st (e, i) = Some k\<close> unfolding edges_dated_def by blast
      then show ?thesis using newer e by (intro exI [of _ h]) auto
    qed
    then have "link_dated ?r l" using link_seen_dated [OF l] r(2) by blast
    then show ?thesis by (simp add: latest' e)
  qed
  moreover have "\<exists>r h. reports d ev r \<and> latest st' (hb_edge_id r) = Some h \<and> hb_received_at r \<le> hb_received_at h"
    if mem: "(ev, x) \<in> set (zip (es @ [?ev]) (as @ [a]))" and ok: "x = HeartbeatAccepted" for ev x
  proof (cases "(ev, x) \<in> set (zip es as)")
    case True
    then obtain q h where "reports d ev q" "latest st (hb_edge_id q) = Some h" "hb_received_at q \<le> hb_received_at h"
      using J ok unfolding edges_dated_def by blast
    then show ?thesis using later [of "hb_edge_id q" h] by (meson order_trans)
  next
    case False
    then have "ev = ?ev" using mem len by simp
    then show ?thesis using r by (intro exI [of _ ?r]) (simp add: latest')
  qed
  ultimately show ?thesis unfolding edges_dated_def by blast
qed

lemma edge_step_dated:
  assumes J: "edges_dated d es as st" and len: "length as = length es"
  shows "edges_dated d (es @ [ev]) (as @ [fst (edge_step d ev st)]) (snd (edge_step d ev st))"
proof -
  obtain db secret token t body where ev: "ev = (db, secret, token, t, body)" by (cases ev)
  show ?thesis
  proof (cases "edge_authentic d secret token body = None")
    case False
    then obtain x where "edge_authentic d secret token body = Some x" by blast
    moreover have "x \<noteq> HeartbeatAccepted" using calculation by (auto simp: edge_authentic_def split: if_splits option.splits)
    ultimately show ?thesis using edge_step_kept [of d ev st, OF _ J _ len] by (simp add: ev)
  next
    case auth: True
    show ?thesis
    proof (cases "\<exists>h. latest st (hr_edge_id body) = Some h \<and> t \<le> hb_received_at h")
      case True
      have kept: "edge_step d ev st = (HeartbeatAccepted, st)" using True auth by (simp add: ev)
      have "\<exists>r h. reports d ev r \<and> latest st (hb_edge_id r) = Some h \<and> hb_received_at r \<le> hb_received_at h"
        by (rule exI [of _ "heartbeat_row body t"]) (use True auth in \<open>simp add: ev, simp add: heartbeat_row_def\<close>)
      then show ?thesis using edge_step_kept [of d ev st, OF _ J _ len] kept by simp
    next
      case False
      note won = edges_dated_won [OF J len auth False]
      show ?thesis
      proof (cases "fst (edge_step d ev st) = HeartbeatAccepted")
        case True
        then show ?thesis unfolding ev
          by (intro won) (use auth False in \<open>auto simp: ev split: option.splits if_splits\<close>)
      next
        case refused: False
        then have "snd (edge_step d ev st) = st" using auth False by (auto simp: ev split: option.splits if_splits)
        then show ?thesis using edge_step_kept [of d ev st, OF _ J _ len] refused by simp
      qed
    qed
  qed
qed

lemma outputs_length: "length (fst (outputs step es s)) = length es"
proof (induction es arbitrary: s)
  case (Cons e es)
  then show ?case by (simp add: case_prod_beta)
qed simp

lemma edges_dated_history: "edges_dated d es (fst (outputs (edge_step d) es no_edges)) (snd (outputs (edge_step d) es no_edges))"
proof (induction es rule: rev_induct)
  case Nil
  then show ?case by (simp add: edges_dated_def no_edges_def)
next
  case (snoc ev es)
  obtain xs s where run: "outputs (edge_step d) es no_edges = (xs, s)" by (rule prod.exhaust)
  then show ?case using edge_step_dated [OF snoc outputs_length, of ev]
    by (simp add: outputs_append case_prod_beta del: edge_step.simps)
qed

text \<open>
  C21: the stored status is the newest authentic one. After any history of reports every stored heartbeat is the
  content and receive time of one authentic report of that edge, and no accepted report of the edge was received
  later. Every connection row belongs to an edge with a heartbeat, was observed no later than it, has a last
  connection no later than its observation, and equal to it while the row is active.
\<close>

theorem relay_status_fresh:
  assumes run: "outputs (heartbeat_step d) es no_reports = (as, st)"
  shows "(\<forall>h \<in> set (heartbeats st). \<exists>ev \<in> set es. reports d ev h) \<and>
    (\<forall>n < length es. as ! n = HeartbeatAccepted \<longrightarrow>
       (\<exists>r h. reports d (es ! n) r \<and> h \<in> set (heartbeats st) \<and> hb_edge_id h = hb_edge_id r \<and> hb_received_at r \<le> hb_received_at h)) \<and>
    (\<forall>c \<in> set (connections st). \<exists>h \<in> set (heartbeats st). \<exists>k. hb_edge_id h = conn_edge_id c \<and>
       conn_observed_at c \<le> hb_received_at h \<and> conn_last_connected_at c = Some k \<and> k \<le> conn_observed_at c \<and>
       (conn_active c \<longrightarrow> k = conn_observed_at c))"
proof -
  have keys: "distinct (map hb_edge_id (heartbeats st))" "distinct (map conn_key (connections st))"
    using edge_reports.history_inv [OF no_reports_keys, of d es] run by (simp_all add: heartbeat_keys_def conn_key_def [abs_def])
  have "outputs (edge_step d) es no_edges = (as, edges_of st)" using history_of_reports [of d es] run by simp
  then have J: "edges_dated d es as (edges_of st)" using edges_dated_history [of d es] by simp
  have get: "latest (edges_of st) e = Some h \<longleftrightarrow> h \<in> set (heartbeats st) \<and> hb_edge_id h = e" for e h
    using get_row_iff [OF keys(1)] by (simp add: edges_of_def)
  have "\<exists>ev \<in> set es. reports d ev h" if "h \<in> set (heartbeats st)" for h
    using J that get [of "hb_edge_id h" h] unfolding edges_dated_def by blast
  moreover have "\<exists>r h. reports d (es ! n) r \<and> h \<in> set (heartbeats st) \<and> hb_edge_id h = hb_edge_id r \<and> hb_received_at r \<le> hb_received_at h"
    if n: "n < length es" and ok: "as ! n = HeartbeatAccepted" for n
  proof -
    have "length as = length es" using outputs_length [of "heartbeat_step d" es no_reports] run by simp
    then have "(es ! n, as ! n) \<in> set (zip es as)" using n by (auto simp: set_zip)
    then show ?thesis using J ok unfolding edges_dated_def get by blast
  qed
  moreover have "\<exists>h \<in> set (heartbeats st). \<exists>k. hb_edge_id h = conn_edge_id c \<and> conn_observed_at c \<le> hb_received_at h \<and>
      conn_last_connected_at c = Some k \<and> k \<le> conn_observed_at c \<and> (conn_active c \<longrightarrow> k = conn_observed_at c)"
    if c: "c \<in> set (connections st)" for c
  proof -
    have "links (edges_of st) (conn_edge_id c, conn_subscription_id c) = Some (conn_state c)"
      using get_row_unique [OF keys(2) c] by (simp add: edges_of_alt conn_key_def)
    then obtain h where "latest (edges_of st) (conn_edge_id c) = Some h" "link_dated h (conn_state c)"
      using J unfolding edges_dated_def by blast
    then show ?thesis unfolding get by (auto simp: link_dated_def conn_state_def)
  qed
  ultimately show ?thesis by blast
qed

definition report :: heartbeat_request where
  "report = \<lparr> hr_edge_id = ''a'', hr_ready = True, hr_components = \<lparr> hc_authorization = ''ok'', hc_certificate = ''ok'',
       hc_lifecycle = ''serving'', hc_listeners = ''ok'', hc_wireguard = ''ok'' \<rparr>,
     hr_active_tunnels = 1, hr_active_streams = 2, hr_accepted_connections_total = 3, hr_forwarded_bytes_total = 4,
     active_subscription_ids = Some [''00000000-0000-4000-8000-000000000001''], active_subscription_ids_truncated = False \<rparr>"

definition report_db :: database where
  "report_db = empty_database\<lparr>users := [sample_user], subscriptions := [sample_subscription\<lparr>sub_public_id := ''00000000-0000-4000-8000-000000000001''\<rparr>]\<rparr>"

definition report_history :: "heartbeat_event list" where
  "report_history =
     [(report_db, relay_secret example_deployment, ''ka'', seconds 10, report),
      (report_db, relay_secret example_deployment, ''ka'', seconds 20, report\<lparr>active_subscription_ids := Some []\<rparr>),
      (report_db, relay_secret example_deployment, ''ka'', seconds 15, report)]"

theorem relay_status_fresh_witness:
  "\<exists>st. outputs (heartbeat_step example_deployment) report_history no_reports =
      ([HeartbeatAccepted, HeartbeatAccepted, HeartbeatAccepted], st) \<and>
    map hb_received_at (heartbeats st) = [seconds 20] \<and> map conn_active (connections st) = [False] \<and>
    (\<exists>h ev. heartbeats st = [h] \<and> ev \<in> set report_history \<and> reports example_deployment ev h)"
proof -
  obtain as st where run: "outputs (heartbeat_step example_deployment) report_history no_reports = (as, st)" by (rule prod.exhaust)
  have "as = [HeartbeatAccepted, HeartbeatAccepted, HeartbeatAccepted] \<and> map hb_received_at (heartbeats st) = [seconds 20] \<and>
      map conn_active (connections st) = [False]"
  proof -
    have "(case outputs (heartbeat_step example_deployment) report_history no_reports of (as, st) \<Rightarrow>
        as = [HeartbeatAccepted, HeartbeatAccepted, HeartbeatAccepted] \<and> map hb_received_at (heartbeats st) = [seconds 20] \<and>
        map conn_active (connections st) = [False])" by code_simp
    then show ?thesis by (simp add: run)
  qed
  moreover from this obtain h where h: "heartbeats st = [h]" by auto
  moreover obtain ev where "ev \<in> set report_history" "reports example_deployment ev h"
    using conjunct1 [OF relay_status_fresh [OF run]] h by auto
  ultimately show ?thesis by (intro exI [of _ st] conjI exI [of _ h] exI [of _ ev]) (simp_all add: run)
qed

end
