(* ===== verification/Offline_Entitlements.thy ===== *)
theory Offline_Entitlements
  imports Relay_Authorization Relay_Heartbeats WireGuard
begin

text \<open>
  Signed entitlements a relay honours while the control plane is unreachable
  (\<^verbatim>\<open>services/offline_entitlements.py\<close>, \<^verbatim>\<open>core/ca.py\<close>, \<^verbatim>\<open>api/v2.py\<close>, \<^verbatim>\<open>api/v3.py\<close>): the binding of an enrolled key,
  the claim of one subscription at one edge, its deterministic identifier, the signed artifact and the
  provisioning endpoints. Bytes are characters. SHA-256 (as bytes and in hexadecimal), the parser of
  certificates and the signing key are parameters.
\<close>

unbundle bit_operations_syntax

section \<open>Data\<close>

datatype entitlement_error = OfflineEntitlementError string | OfflineValueError string

record certificate =
  x_not_before :: time
  x_not_after :: time
  x_common_name :: "string option"
  x_san_uris :: "string list option"
  x_ed25519 :: "string option"
  x_serial :: nat

record entitlement_claim =
  ec_account :: string
  ec_subscription :: string
  ec_instance :: string
  ec_client_pk :: string
  ec_edge :: stable_relay_edge
  ec_relay_edge :: relay_edge
  ec_kind :: product_type
  ec_ip :: string
  ec_port :: int
  ec_transport :: string
  ec_domain :: string
  ec_paid_through :: int
  ec_scope :: hostname_scope

record entitlement_payload =
  ep_version :: int
  ep_kid :: string
  ep_account :: string
  ep_subscription :: string
  ep_instance :: string
  ep_client_pk :: string
  ep_edge :: string
  ep_kind :: string
  ep_ip :: string
  ep_port :: int
  ep_transport :: string
  ep_domain :: string
  ep_scope :: "string option"
  ep_iat :: int
  ep_nbf :: int
  ep_paid_through :: int
  ep_grace_through :: int
  ep_generation :: int
  ep_jti :: string

record offline_env = relay_env +
  sha_digest :: "string \<Rightarrow> string"
  sha_hex :: "string \<Rightarrow> string"
  load_certificate :: "string \<Rightarrow> certificate option"
  load_signer :: "string \<Rightarrow> (string \<Rightarrow> string) option"

definition GENERATION_BITS :: nat where
  "GENERATION_BITS = 31"

definition MAX_GENERATION :: int where
  "MAX_GENERATION = push_bit GENERATION_BITS 1 - 1"

definition MAX_UNIX_SECONDS :: int where
  "MAX_UNIX_SECONDS = drop_bit GENERATION_BITS (push_bit 63 1 - 1)"

definition ARTIFACT_MAX_BYTES :: nat where
  "ARTIFACT_MAX_BYTES = 2048"

section \<open>Encodings\<close>

text \<open>\<^verbatim>\<open>base64.urlsafe_b64encode(value).rstrip(b"=")\<close>\<close>

definition b64_char :: "int \<Rightarrow> char" where
  "b64_char n = ''ABCDEFGHIJKLMNOPQRSTUVWXYZabcdefghijklmnopqrstuvwxyz0123456789-_'' ! nat (n mod 64)"

fun b64url :: "string \<Rightarrow> string" where
  "b64url [] = []"
| "b64url [a] = (let n = of_char a * 16 in [b64_char (n div 64), b64_char n])"
| "b64url [a, b] = (let n = (of_char a * 256 + of_char b) * 4 in [b64_char (n div 4096), b64_char (n div 64), b64_char n])"
| "b64url (a # b # c # r) =
     (let n = (of_char a * 256 + of_char b) * 256 + of_char c in
      [b64_char (n div 262144), b64_char (n div 4096), b64_char (n div 64), b64_char n] @ b64url r)"

text \<open>\<^verbatim>\<open>int(value.timestamp())\<close> truncates towards zero.\<close>

definition unix_seconds :: "time \<Rightarrow> int" where
  "unix_seconds t = (if t \<ge> 0 then t div 1000000 else - ((- t) div 1000000))"

text \<open>\<^verbatim>\<open>n.to_bytes(k, "big")\<close> for a number that fits.\<close>

fun be_bytes :: "nat \<Rightarrow> int \<Rightarrow> string" where
  "be_bytes 0 n = []"
| "be_bytes (Suc k) n = be_bytes k (n div 256) @ [char_of (n mod 256)]"

text \<open>\<^verbatim>\<open>UUID.bytes\<close> of a canonical identifier.\<close>

definition hex_value :: "char \<Rightarrow> nat" where
  "hex_value c = digit_value ''0123456789abcdef'' c"

fun hex_pairs :: "string \<Rightarrow> string" where
  "hex_pairs (a # b # r) = char_of (hex_value a * 16 + hex_value b) # hex_pairs r"
| "hex_pairs _ = []"

definition uuid_bytes :: "string \<Rightarrow> string" where
  "uuid_bytes s = hex_pairs (filter (\<lambda>c. c \<noteq> CHR ''-'') s)"

fun nat_hex :: "nat \<Rightarrow> string" where
  "nat_hex n = (if n < 16 then [''0123456789abcdef'' ! n] else nat_hex (n div 16) @ [''0123456789abcdef'' ! (n mod 16)])"

declare nat_hex.simps [simp del]

section \<open>The claim of a subscription at an edge\<close>

definition canonical_claim_fields ::
  "offline_env \<Rightarrow> entitlement_claim \<Rightarrow> entitlement_error + (string \<times> string \<times> int \<times> string \<times> string \<times> hostname_scope)" where
  "canonical_claim_fields env c =
     (let fail = (\<lambda>m. Inl (OfflineEntitlementError m)) in
      case ec_kind c of
        PORT \<Rightarrow>
          if ec_scope c \<noteq> EXACT \<or> \<not> (1 \<le> ec_port c \<and> ec_port c \<le> 65535) \<or> ec_transport c \<notin> {''tcp'', ''udp''}
          then fail ''Port claim is invalid''
          else (case canonical_ip env (ec_ip c) of
                  None \<Rightarrow> fail ''Port claim is invalid''
                | Some a \<Rightarrow> Inr (''port'', a, ec_port c, ec_transport c, [], EXACT))
      | IP \<Rightarrow>
          if ec_scope c \<noteq> EXACT \<or> ec_port c \<noteq> 0 \<or> ec_transport c \<noteq> [] \<or> ec_domain c \<noteq> []
          then fail ''Blindport IP claim is invalid''
          else (case canonical_ip env (ec_ip c) of
                  None \<Rightarrow> fail ''Blindport IP claim is invalid''
                | Some a \<Rightarrow> Inr (''ip'', a, 0, [], [], EXACT))
      | RELAY \<Rightarrow>
          if ec_ip c \<noteq> [] \<or> ec_port c \<noteq> 0 \<or> ec_transport c \<noteq> [] then fail ''Blindport Relay claim is invalid''
          else (case canonicalize_hostname (idna_ascii env) (idna_ace_ok env) (ec_domain c) of
                  Inl _ \<Rightarrow> fail ''Blindport Relay claim is invalid''
                | Inr h \<Rightarrow> Inr (''relay'', [], 0, [], h, ec_scope c)))"

definition entitlement_generation :: "int \<Rightarrow> int \<Rightarrow> entitlement_error + int" where
  "entitlement_generation paid_through credential_generation =
     (if \<not> (0 \<le> paid_through \<and> paid_through \<le> MAX_UNIX_SECONDS)
      then Inl (OfflineEntitlementError ''paid_through is outside the entitlement generation range'')
      else if \<not> (1 \<le> credential_generation \<and> credential_generation \<le> MAX_GENERATION)
      then Inl (OfflineEntitlementError ''credential generation is outside the entitlement generation range'')
      else Inr (push_bit GENERATION_BITS paid_through OR credential_generation))"

definition JTI_SCOPE_DOMAIN :: string where
  "JTI_SCOPE_DOMAIN = ''blindport-offline-entitlement-jti-v1''"

definition tagged :: "string \<Rightarrow> string \<Rightarrow> string" where
  "tagged name value = be_bytes 2 (int (length name)) @ name @ be_bytes 4 (int (length value)) @ value"

definition scope_encoding ::
  "entitlement_claim \<Rightarrow> int \<Rightarrow> string \<times> string \<times> int \<times> string \<times> string \<times> hostname_scope \<Rightarrow> string" where
  "scope_encoding c gen fs =
     (case fs of (kind, ip, port, tp, name, scope) \<Rightarrow>
        concat (map (\<lambda>(n, v). tagged n v)
          [(JTI_SCOPE_DOMAIN, []),
           (''account'', uuid_bytes (ec_account c)), (''subscription'', uuid_bytes (ec_subscription c)),
           (''instance'', uuid_bytes (ec_instance c)), (''credential_generation'', be_bytes 4 gen),
           (''client_pk'', ec_client_pk c), (''edge'', stable_id (ec_edge c)), (''kind'', kind), (''ip'', ip),
           (''port'', be_bytes 2 port), (''transport'', tp), (''domain'', name),
           (''paid_through'', be_bytes 8 (ec_paid_through c))]) @
        (if scope = WILDCARD then tagged ''scope'' ''wildcard'' else []))"

definition scope_digest :: "offline_env \<Rightarrow> entitlement_claim \<Rightarrow> int \<Rightarrow> entitlement_error + string" where
  "scope_digest env c gen =
     (if length (ec_client_pk c) \<noteq> 32 then Inl (OfflineEntitlementError ''client public key must be 32 raw bytes'')
      else case entitlement_generation (ec_paid_through c) gen of
        Inl e \<Rightarrow> Inl e
      | Inr _ \<Rightarrow> map_sum id (\<lambda>fs. sha_digest env (scope_encoding c gen fs)) (canonical_claim_fields env c))"

definition deterministic_entitlement_jti :: "offline_env \<Rightarrow> entitlement_claim \<Rightarrow> int \<Rightarrow> entitlement_error + string" where
  "deterministic_entitlement_jti env c gen = map_sum id (take 16) (scope_digest env c gen)"

definition entitlement_issued_at :: "subscription \<Rightarrow> client_credential \<Rightarrow> time \<Rightarrow> entitlement_error + time" where
  "entitlement_issued_at sub cred now =
     (case current_period_end sub of
        None \<Rightarrow> Inl (OfflineEntitlementError ''subscription has no active paid-through time'')
      | Some period_end \<Rightarrow>
          let issued_at = (case current_period_start sub of
                             None \<Rightarrow> cred_not_before cred | Some s \<Rightarrow> max (cred_not_before cred) s) in
          if issued_at > now then Inl (OfflineEntitlementError ''entitlement issue time is in the future'')
          else if unix_seconds issued_at > unix_seconds period_end
          then Inl (OfflineEntitlementError ''entitlement issue time is after paid-through'')
          else Inr (seconds (unix_seconds issued_at)))"

section \<open>The enrolled key\<close>

datatype certificate_identity = AccountIdentity string | LegacyIdentity nat

text \<open>A canonical identifier of version 4 and the standard variant.\<close>

definition canonical_uuid4 :: "string \<Rightarrow> bool" where
  "canonical_uuid4 s = (canonical_uuid s \<and> s ! 14 = CHR ''4'' \<and> s ! 19 \<in> set ''89ab'')"

definition parse_client_certificate_common_name :: "string \<Rightarrow> certificate_identity option" where
  "parse_client_certificate_common_name common_name =
     (let kind = takeWhile (\<lambda>c. c \<noteq> CHR '':'') common_name; value = tl (dropWhile (\<lambda>c. c \<noteq> CHR '':'') common_name) in
      if CHR '':'' \<notin> set common_name then None
      else if kind = ''account'' then (if canonical_uuid4 value then Some (AccountIdentity value) else None)
      else if kind = ''user'' \<and> value \<noteq> [] \<and> list_all (\<lambda>c. c \<in> set digit_chars) value \<and>
              decimal value > 0 \<and> str_int (int (decimal value)) = value
      then Some (LegacyIdentity (decimal value)) else None)"

definition enrolled_client_public_key ::
  "offline_env \<Rightarrow> client_credential \<Rightarrow> user \<Rightarrow> string \<Rightarrow> time \<Rightarrow> entitlement_error + string" where
  "enrolled_client_public_key env cred u inst now =
     (let fail = (\<lambda>m. Inl (OfflineEntitlementError m)) in
      if cred_user_id cred \<noteq> user_id u \<or> cred_instance_id cred \<noteq> inst
      then fail ''client credential does not match this account and instance''
      else if \<not> canonical_uuid inst then fail ''client credential instance is invalid''
      else if \<not> (1 \<le> generation cred \<and> generation cred \<le> MAX_GENERATION) then fail ''client credential generation is invalid''
      else case load_certificate env (client_cert_pem cred) of
        None \<Rightarrow> fail ''client credential certificate is invalid''
      | Some x \<Rightarrow>
          if \<not> (x_not_before x \<le> now \<and> now < x_not_after x) then fail ''client credential certificate is not currently valid''
          else if \<not> (cred_not_before cred \<le> now \<and> now < cred_not_after cred)
          then fail ''client credential certificate is not currently valid''
          else (case (x_common_name x, x_san_uris x) of
             (Some cn, Some uris) \<Rightarrow>
               (case parse_client_certificate_common_name cn of
                  None \<Rightarrow> fail ''client credential certificate binding is invalid''
                | Some identity \<Rightarrow>
                    if identity \<noteq> AccountIdentity (user_public_id u)
                    then fail ''client credential certificate account binding is invalid''
                    else if uris \<noteq> [''urn:blindport:client:'' @ inst]
                    then fail ''client credential certificate instance binding is invalid''
                    else (case x_ed25519 x of
                       None \<Rightarrow> fail ''client credential certificate key is not Ed25519''
                     | Some raw_key \<Rightarrow>
                         if sha_hex env raw_key \<noteq> public_key_fingerprint cred
                         then fail ''client credential certificate key does not match enrollment''
                         else if cred_serial cred \<noteq> nat_hex (x_serial x)
                         then fail ''client credential certificate serial does not match enrollment''
                         else Inr raw_key))
           | _ \<Rightarrow> fail ''client credential certificate binding is invalid''))"

section \<open>Issue\<close>

definition claim_for_subscription ::
  "offline_env \<Rightarrow> subscription \<Rightarrow> string \<Rightarrow> string \<Rightarrow> string \<Rightarrow> stable_relay_edge \<Rightarrow> relay_edge \<Rightarrow>
    entitlement_error + entitlement_claim" where
  "claim_for_subscription env sub account inst client_pk edge relay_edge =
     (case current_period_end sub of
        None \<Rightarrow> Inl (OfflineEntitlementError ''subscription has no active paid-through time'')
      | Some period_end \<Rightarrow>
          let claim = \<lparr> ec_account = account, ec_subscription = sub_public_id sub, ec_instance = inst, ec_client_pk = client_pk,
                ec_edge = edge, ec_relay_edge = relay_edge, ec_kind = product sub, ec_ip = [], ec_port = 0, ec_transport = [],
                ec_domain = [], ec_paid_through = unix_seconds period_end, ec_scope = EXACT \<rparr> in
          (case product sub of
             PORT \<Rightarrow>
               if \<not> nonzero (assigned_port sub) \<or> \<not> nonempty (assigned_ip sub)
               then Inl (OfflineEntitlementError ''Port subscription has no assigned tuple'')
               else (case canonical_ip env (edge_ip relay_edge) of
                  None \<Rightarrow> Inl (OfflineValueError ''ip_address'')
                | Some a \<Rightarrow> Inr (claim\<lparr>ec_ip := a, ec_port := the (assigned_port sub), ec_transport := transport_name (transport sub)\<rparr>))
           | IP \<Rightarrow>
               if \<not> nonempty (assigned_ip sub)
               then Inl (OfflineEntitlementError ''Blindport IP subscription has no assigned address'')
               else (case canonical_ip env (the (assigned_ip sub)) of
                  None \<Rightarrow> Inl (OfflineValueError ''ip_address'')
                | Some a \<Rightarrow> Inr (claim\<lparr>ec_ip := a\<rparr>))
           | RELAY \<Rightarrow>
               if \<not> nonempty (domain sub) then Inl (OfflineEntitlementError ''Blindport Relay subscription has no domain'')
               else (case canonicalize_hostname (idna_ascii env) (idna_ace_ok env) (the (domain sub)) of
                  Inl _ \<Rightarrow> Inl (OfflineValueError ''canonicalize_hostname'')
                | Inr h \<Rightarrow> Inr (claim\<lparr>ec_domain := h, ec_scope := relay_hostname_scope sub\<rparr>))))"

definition payload_json :: "entitlement_payload \<Rightarrow> string" where
  "payload_json p = json_object
     ([(''typ'', json_string ''blindport-offline-entitlement''), (''v'', str_int (ep_version p)), (''kid'', json_string (ep_kid p)),
       (''account'', json_string (ep_account p)), (''subscription'', json_string (ep_subscription p)),
       (''instance'', json_string (ep_instance p)), (''client_pk'', json_string (ep_client_pk p)), (''edge'', json_string (ep_edge p)),
       (''kind'', json_string (ep_kind p)), (''ip'', json_string (ep_ip p)), (''port'', str_int (ep_port p)),
       (''transport'', json_string (ep_transport p)), (''domain'', json_string (ep_domain p))] @
      (case ep_scope p of None \<Rightarrow> [] | Some s \<Rightarrow> [(''scope'', json_string s)]) @
      [(''iat'', str_int (ep_iat p)), (''nbf'', str_int (ep_nbf p)), (''paid_through'', str_int (ep_paid_through p)),
       (''grace_through'', str_int (ep_grace_through p)), (''generation'', str_int (ep_generation p)),
       (''jti'', json_string (ep_jti p))])"

text \<open>\<open>token_id\<close> is the given identifier or the drawn one.\<close>

definition issue ::
  "offline_env \<Rightarrow> (string \<Rightarrow> string) \<Rightarrow> string \<Rightarrow> int \<Rightarrow> entitlement_claim \<Rightarrow> int \<Rightarrow> time \<Rightarrow> string \<Rightarrow>
    entitlement_error + (string \<times> entitlement_payload)" where
  "issue env sign key_id grace_seconds c credential_generation now token_id =
     (let fail = (\<lambda>m. Inl (OfflineEntitlementError m)); paid_through = ec_paid_through c in
      if length (ec_client_pk c) \<noteq> 32 then fail ''client public key must be 32 raw bytes''
      else case entitlement_generation paid_through credential_generation of
        Inl e \<Rightarrow> Inl e
      | Inr payload_generation \<Rightarrow>
          let issued_at = unix_seconds now in
          if \<not> (0 \<le> issued_at \<and> issued_at \<le> MAX_UNIX_SECONDS) then fail ''iat and nbf are outside the entitlement range''
          else if length token_id \<noteq> 16 then fail ''jti must contain 16 raw bytes''
          else case canonical_claim_fields env c of
            Inl e \<Rightarrow> Inl e
          | Inr (kind, ip, port, tp, name, scope) \<Rightarrow>
              let grace_through = paid_through + grace_seconds in
              if grace_through > MAX_UNIX_SECONDS then fail ''grace_through is outside the entitlement range''
              else
                let payload = \<lparr> ep_version = (if scope = WILDCARD then 2 else 1), ep_kid = key_id, ep_account = ec_account c,
                      ep_subscription = ec_subscription c, ep_instance = ec_instance c, ep_client_pk = b64url (ec_client_pk c),
                      ep_edge = stable_id (ec_edge c), ep_kind = kind, ep_ip = ip, ep_port = port, ep_transport = tp,
                      ep_domain = name, ep_scope = (if scope = WILDCARD then Some ''wildcard'' else None),
                      ep_iat = issued_at, ep_nbf = issued_at, ep_paid_through = paid_through, ep_grace_through = grace_through,
                      ep_generation = payload_generation, ep_jti = b64url token_id \<rparr>;
                    raw_payload = payload_json payload;
                    artifact = ''v1.'' @ b64url raw_payload @ ''.'' @ b64url (sign raw_payload) in
                if length artifact > ARTIFACT_MAX_BYTES then fail ''entitlement artifact exceeds 2048 bytes''
                else Inr (artifact, payload))"

definition issue_subscription_entitlement ::
  "offline_env \<Rightarrow> (string \<Rightarrow> string) \<Rightarrow> string \<Rightarrow> int \<Rightarrow> subscription \<Rightarrow> string \<Rightarrow> string \<Rightarrow> string \<Rightarrow>
    stable_relay_edge \<Rightarrow> relay_edge \<Rightarrow> int \<Rightarrow> time \<Rightarrow> string \<Rightarrow> entitlement_error + (string \<times> entitlement_payload)" where
  "issue_subscription_entitlement env sign key_id grace sub account inst client_pk edge relay_edge gen now jti =
     (case claim_for_subscription env sub account inst client_pk edge relay_edge of
        Inl e \<Rightarrow> Inl e
      | Inr c \<Rightarrow> issue env sign key_id grace c gen now jti)"

section \<open>Provisioning\<close>

record edge_entitlement =
  ee_id :: string
  ee_endpoint :: string
  ee_artifact :: string
  ee_payload :: entitlement_payload

record provisioning =
  pv_subscription :: subscription
  pv_scope :: hostname_scope
  pv_edges :: "edge_entitlement list"

definition edge_by_endpoint :: "deployment \<Rightarrow> string \<Rightarrow> stable_relay_edge option" where
  "edge_by_endpoint d = map_of (rev (map (\<lambda>e. (stable_endpoint e, e)) (relay_edges_list d)))"

text \<open>The edges of one subscription; \<open>None\<close> where the loop continues with the next one.\<close>

definition raw_edges :: "deployment \<Rightarrow> subscription \<Rightarrow> relay_edge list option" where
  "raw_edges d sub =
     (if product sub = IP \<and> delivery sub = WIREGUARD then None
      else if product sub = PORT \<and> nonempty (assigned_ip sub) then Some (port_edges d (the (assigned_ip sub)))
      else if product sub = IP \<and> nonempty (assigned_ip sub) then Some [framed_ip_edge d (the (assigned_ip sub))]
      else if product sub = RELAY
      then Some (map (\<lambda>e. \<lparr> edge_endpoint = stable_endpoint e, edge_ip = [] \<rparr>) (relay_edges_list d))
      else None)"

definition entitlement_http :: "entitlement_error \<Rightarrow> relay_error" where
  "entitlement_http e =
     (case e of OfflineEntitlementError m \<Rightarrow> RelayHttp 409 m | OfflineValueError m \<Rightarrow> RelayRaised (ValueError m))"

definition edge_entitlement_of ::
  "offline_env \<Rightarrow> (string \<Rightarrow> string) \<Rightarrow> user \<Rightarrow> client_credential \<Rightarrow> string \<Rightarrow> time \<Rightarrow> subscription \<Rightarrow> relay_edge \<Rightarrow>
    relay_error + edge_entitlement" where
  "edge_entitlement_of env sign u cred client_pk now sub raw =
     (let d = rel_deployment env; inst = cred_instance_id cred in
      case edge_by_endpoint d (edge_endpoint raw) of
        None \<Rightarrow> Inl (RelayHttp 503 ''offline edge map is unavailable'')
      | Some edge \<Rightarrow>
          (case claim_for_subscription env sub (user_public_id u) inst client_pk edge raw of
             Inl e \<Rightarrow> Inl (entitlement_http e)
           | Inr c \<Rightarrow>
               (case deterministic_entitlement_jti env c (generation cred) of
                  Inl e \<Rightarrow> Inl (entitlement_http e)
                | Inr jti \<Rightarrow>
                    (case entitlement_issued_at sub cred now of
                       Inl e \<Rightarrow> Inl (entitlement_http e)
                     | Inr issued \<Rightarrow>
                         (case issue_subscription_entitlement env sign (OFFLINE_ENTITLEMENT_KEY_ID d)
                                 (OFFLINE_ENTITLEMENT_GRACE_SECONDS d) sub (user_public_id u) inst client_pk edge raw
                                 (generation cred) issued jti of
                            Inl e \<Rightarrow> Inl (entitlement_http e)
                          | Inr (artifact, payload) \<Rightarrow>
                              Inr \<lparr> ee_id = stable_id edge, ee_endpoint = stable_endpoint edge, ee_artifact = artifact,
                                    ee_payload = payload \<rparr>)))))"

fun all_results :: "('e + 'a) list \<Rightarrow> 'e + 'a list" where
  "all_results [] = Inr []"
| "all_results (Inl e # rs) = Inl e"
| "all_results (Inr x # rs) = map_sum id ((#) x) (all_results rs)"

definition provision ::
  "offline_env \<Rightarrow> (string \<Rightarrow> string) \<Rightarrow> user \<Rightarrow> client_credential \<Rightarrow> string \<Rightarrow> time \<Rightarrow> subscription \<Rightarrow> relay_error + provisioning" where
  "provision env sign u cred client_pk now sub =
     map_sum id (\<lambda>edges. \<lparr> pv_subscription = sub,
         pv_scope = (if product sub = RELAY then relay_hostname_scope sub else EXACT), pv_edges = edges \<rparr>)
       (all_results (map (edge_entitlement_of env sign u cred client_pk now sub) (the (raw_edges (rel_deployment env) sub))))"

text \<open>
  The two versions of the endpoint differ in that the second one skips wildcard names; \<open>wildcards\<close> tells them
  apart. \<open>creds\<close> is the credential table, read under a row lock.
\<close>

definition offline_client_config ::
  "offline_env \<Rightarrow> bool \<Rightarrow> client_credential list \<Rightarrow> user \<Rightarrow> string \<Rightarrow> time \<Rightarrow> provisioning list relay_comp" where
  "offline_client_config env wildcards creds u inst now w =
     (let d = rel_deployment env; cfg = base d in
      if length inst \<noteq> 36 then (Inl (RelayHttp 422 ''request validation''), w)
      else if \<not> OFFLINE_ENTITLEMENTS_ENABLED d then (Inl (RelayHttp 404 ''not found''), w)
      else if \<not> canonical_uuid inst then (Inl (RelayHttp 422 ''instance_id must be a canonical UUID''), w)
      else case List.find (\<lambda>c. cred_user_id c = user_id u \<and> cred_instance_id c = inst) creds of
        None \<Rightarrow> (Inl (RelayHttp 409 ''client credential is not enrolled for instance''), w)
      | Some cred \<Rightarrow>
          (case enrolled_client_public_key env cred u inst now of
             Inl e \<Rightarrow> (Inl (entitlement_http e), w)
           | Inr client_pk \<Rightarrow>
               (case load_signer env (OFFLINE_ENTITLEMENT_PRIVATE_KEY_FILE d) of
                  None \<Rightarrow> (Inl (RelayHttp 503 ''offline entitlement signer unavailable''), w)
                | Some sign \<Rightarrow>
                    (case reap_expired_domain_claims cfg (rel_gateway env) now w of
                       (Inl e, w1) \<Rightarrow> (Inl (RelayRaised e), w1)
                     | (Inr _, w1) \<Rightarrow>
                         (case expire_elapsed_subscriptions cfg (seal_identity (rel_gateway env)) now
                                 (account_rows (wdb w1) (user_id u)) (wdb w1) of
                            Inl e \<Rightarrow> (Inl (RelayRaised e), w1)
                          | Inr (rows, db) \<Rightarrow>
                              (all_results (map (provision env sign u cred client_pk now)
                                 (filter (\<lambda>s. sub_status s = SubACTIVE \<and>
                                    (wildcards \<or> \<not> (product s = RELAY \<and> relay_hostname_scope s = WILDCARD)) \<and>
                                    raw_edges d s \<noteq> None) rows)),
                               w1\<lparr>wdb := db\<rparr>))))))"

section \<open>Generations\<close>

lemma generation_limits: "MAX_GENERATION = 2147483647" "MAX_UNIX_SECONDS = 4294967295"
  by (simp_all add: MAX_GENERATION_def MAX_UNIX_SECONDS_def GENERATION_BITS_def push_bit_eq_mult drop_bit_eq_div)

lemma pack_bits:
  assumes "0 \<le> g" "g < 2 ^ n"
  shows "push_bit n p OR g = p * 2 ^ n + (g :: int)"
proof -
  have "push_bit n p AND take_bit n g = 0" by (rule bit_eqI) (auto simp: bit_simps)
  then have "push_bit n p AND g = 0" using assms by (simp add: take_bit_int_eq_self)
  then show ?thesis by (simp add: disjunctive_add_eq_or [symmetric] push_bit_eq_mult)
qed

lemma entitlement_generation_value:
  assumes "entitlement_generation p g = Inr n"
  shows "n = p * 2147483648 + g" "0 \<le> p" "p \<le> 4294967295" "1 \<le> g" "g \<le> 2147483647"
proof -
  have r: "0 \<le> p \<and> p \<le> 4294967295 \<and> 1 \<le> g \<and> g \<le> 2147483647 \<and> n = push_bit 31 p OR g"
    using assms by (auto simp: entitlement_generation_def generation_limits GENERATION_BITS_def split: if_splits)
  then show "n = p * 2147483648 + g" "0 \<le> p" "p \<le> 4294967295" "1 \<le> g" "g \<le> 2147483647"
    using pack_bits [of g 31 p] by auto
qed

text \<open>
  C36: the generation of an entitlement packs period end and credential generation without loss. It is a positive
  63-bit number from which both are read back, and a relay that compares generations compares the paid-through
  time first and the certificate rotation second.
\<close>

theorem entitlement_generation_packs:
  assumes "entitlement_generation p g = Inr m" and "entitlement_generation q h = Inr n"
  shows "drop_bit GENERATION_BITS m = p \<and> take_bit GENERATION_BITS m = g \<and> 0 < m \<and> m < 2 ^ 63 \<and>
    (m < n \<longleftrightarrow> p < q \<or> (p = q \<and> g < h))"
proof -
  note M = entitlement_generation_value [OF assms(1)] and N = entitlement_generation_value [OF assms(2)]
  have "drop_bit GENERATION_BITS m = p" "take_bit GENERATION_BITS m = g"
    using M by (simp_all add: GENERATION_BITS_def drop_bit_eq_div take_bit_eq_mod)
  moreover have "m < n \<longleftrightarrow> p < q \<or> (p = q \<and> g < h)" using M N by auto
  ultimately show ?thesis using M by simp
qed

theorem entitlement_generation_packs_witness:
  "\<exists>m n. entitlement_generation 1800000000 7 = Inr m \<and> entitlement_generation 1800000001 1 = Inr n \<and> m < n \<and>
     drop_bit GENERATION_BITS m = 1800000000"
proof -
  obtain m n where m: "entitlement_generation 1800000000 7 = Inr m" and n: "entitlement_generation 1800000001 1 = Inr n"
    by (simp add: entitlement_generation_def generation_limits)
  show ?thesis using entitlement_generation_packs [OF m n] m n by auto
qed

section \<open>Identifiers\<close>

lemma be_bytes_length [simp]: "length (be_bytes k n) = k"
  by (induction k arbitrary: n) auto

lemma be_bytes_inj: "be_bytes k m = be_bytes k n \<Longrightarrow> 0 \<le> m \<Longrightarrow> m < 256 ^ k \<Longrightarrow> 0 \<le> n \<Longrightarrow> n < 256 ^ k \<Longrightarrow> m = n"
proof (induction k arbitrary: m n)
  case (Suc k)
  have "m mod 256 = n mod 256" using Suc.prems(1) by (auto dest: arg_cong [of _ _ "of_char :: char \<Rightarrow> int"])
  moreover have "m div 256 = n div 256"
  proof (rule Suc.IH)
    have "x div 256 < 256 ^ k" if "x < 256 ^ Suc k" for x :: int
      using that pos_imp_zdiv_neg_iff [of 256 "x - 256 * 256 ^ k"] div_mult_self4 [of 256 "x" "- (256 ^ k)"] by (simp add: algebra_simps)
    then show "m div 256 < 256 ^ k" "n div 256 < 256 ^ k" using Suc.prems by blast+
  qed (use Suc.prems in \<open>auto simp: pos_imp_zdiv_nonneg_iff\<close>)
  ultimately show ?case by (metis div_mult_mod_eq)
qed simp

lemma tagged_split:
  assumes "tagged n v @ r = tagged n v' @ r'" and "length v < 2 ^ 32" "length v' < 2 ^ 32"
  shows "v = v' \<and> r = r'"
proof -
  have eq: "be_bytes 4 (int (length v)) @ v @ r = be_bytes 4 (int (length v')) @ v' @ r'" using assms(1) by (simp add: tagged_def)
  then have "be_bytes 4 (int (length v)) = be_bytes 4 (int (length v'))" by (simp add: append_eq_append_conv)
  then have "int (length v) = int (length v')" by (rule be_bytes_inj) (use assms(2,3) in auto)
  then show ?thesis using eq by simp
qed

definition sized_fields :: "entitlement_claim \<Rightarrow> string \<times> string \<times> int \<times> string \<times> string \<times> hostname_scope \<Rightarrow> bool" where
  "sized_fields c fs \<longleftrightarrow> (case fs of (kind, ip, port, tp, name, scope) \<Rightarrow>
     list_all (\<lambda>v. length v < 2 ^ 32) [uuid_bytes (ec_account c), uuid_bytes (ec_subscription c), uuid_bytes (ec_instance c),
       ec_client_pk c, stable_id (ec_edge c), kind, ip, tp, name] \<and> 0 \<le> port \<and> port \<le> 65535)"

text \<open>
  C35: an entitlement identifier names one authorization. The encoded scope that is hashed determines account,
  subscription, instance, credential generation, client key, edge, kind, address, port, transport, name, scope
  and paid-through time: two claims are hashed alike only if they agree in all of them, an exact name never
  like a wildcard.
\<close>

theorem scope_encoding_injective:
  assumes "entitlement_generation (ec_paid_through c) g = Inr m" and "entitlement_generation (ec_paid_through c') g' = Inr n"
    and "sized_fields c fs" and "sized_fields c' fs'" and "scope_encoding c g fs = scope_encoding c' g' fs'"
  shows "fs = fs' \<and> g = g' \<and> ec_paid_through c = ec_paid_through c' \<and> ec_client_pk c = ec_client_pk c' \<and>
    stable_id (ec_edge c) = stable_id (ec_edge c') \<and> uuid_bytes (ec_account c) = uuid_bytes (ec_account c') \<and>
    uuid_bytes (ec_subscription c) = uuid_bytes (ec_subscription c') \<and> uuid_bytes (ec_instance c) = uuid_bytes (ec_instance c')"
proof -
  obtain k i p t d s where fs: "fs = (k, i, p, t, d, s)" by (cases fs)
  obtain k' i' p' t' d' s' where fs': "fs' = (k', i', p', t', d', s')" by (cases fs')
  note G = entitlement_generation_value [OF assms(1)] and H = entitlement_generation_value [OF assms(2)]
  have P: "0 \<le> p" "p < 256 ^ 2" "0 \<le> p'" "p' < 256 ^ 2" using assms(3,4) by (auto simp: sized_fields_def fs fs')
  have sz: "length (be_bytes j x) < 2 ^ 32" if "j \<le> 8" for j x using that by simp
  note fields = assms(5) [unfolded scope_encoding_def fs fs' prod.case list.map concat.simps append_assoc append_Nil append_Nil2]
  have small: "length ([] :: string) < 2 ^ 32" by simp
  have L: "length (uuid_bytes (ec_account c)) < 2 ^ 32" "length (uuid_bytes (ec_subscription c)) < 2 ^ 32"
    "length (uuid_bytes (ec_instance c)) < 2 ^ 32" "length (ec_client_pk c) < 2 ^ 32" "length (stable_id (ec_edge c)) < 2 ^ 32"
    "length k < 2 ^ 32" "length i < 2 ^ 32" "length t < 2 ^ 32" "length d < 2 ^ 32"
    "length (uuid_bytes (ec_account c')) < 2 ^ 32" "length (uuid_bytes (ec_subscription c')) < 2 ^ 32"
    "length (uuid_bytes (ec_instance c')) < 2 ^ 32" "length (ec_client_pk c') < 2 ^ 32" "length (stable_id (ec_edge c')) < 2 ^ 32"
    "length k' < 2 ^ 32" "length i' < 2 ^ 32" "length t' < 2 ^ 32" "length d' < 2 ^ 32"
    using assms(3,4) by (simp_all add: sized_fields_def fs fs')
  note s1 = tagged_split [OF fields small small, THEN conjunct2]
  note s2 = tagged_split [OF s1 L(1) L(10)]
  note s3 = tagged_split [OF conjunct2 [OF s2] L(2) L(11)]
  note s4 = tagged_split [OF conjunct2 [OF s3] L(3) L(12)]
  note s5 = tagged_split [OF conjunct2 [OF s4] sz sz, simplified]
  note s6 = tagged_split [OF conjunct2 [OF s5] L(4) L(13)]
  note s7 = tagged_split [OF conjunct2 [OF s6] L(5) L(14)]
  note s8 = tagged_split [OF conjunct2 [OF s7] L(6) L(15)]
  note s9 = tagged_split [OF conjunct2 [OF s8] L(7) L(16)]
  note s10 = tagged_split [OF conjunct2 [OF s9] sz sz, simplified]
  note s11 = tagged_split [OF conjunct2 [OF s10] L(8) L(17)]
  note s12 = tagged_split [OF conjunct2 [OF s11] L(9) L(18)]
  note s13 = tagged_split [OF conjunct2 [OF s12] sz sz, simplified]
  have "s = s'" using conjunct2 [OF s13] by (cases s; cases s') (auto simp: tagged_def)
  moreover have "g = g'" by (rule be_bytes_inj [OF conjunct1 [OF s5]]) (use G H in auto)
  moreover have "p = p'" by (rule be_bytes_inj [OF conjunct1 [OF s10] P])
  moreover have "ec_paid_through c = ec_paid_through c'" by (rule be_bytes_inj [OF conjunct1 [OF s13]]) (use G H in auto)
  ultimately show ?thesis using s2 s3 s4 s6 s7 s8 s9 s11 s12 by (simp add: fs fs')
qed

section \<open>Provisioned entitlements\<close>

lemma all_results_Inr: "all_results rs = Inr xs \<longleftrightarrow> rs = map Inr xs"
proof (induction rs arbitrary: xs)
  case (Cons r rs)
  have "map_sum id ((#) a) y = Inr xs \<longleftrightarrow> (\<exists>ys. y = Inr ys \<and> xs = a # ys)" for a and y :: "'a + 'b list"
    by (cases y) auto
  then show ?case using Cons.IH by (cases r) (auto simp: Cons_eq_map_conv)
qed auto

lemma all_results_Inl: "all_results rs = Inl e \<Longrightarrow> Inl e \<in> set rs"
proof (induction rs)
  case (Cons r rs)
  then show ?case by (cases r) (auto simp: map_sum_def split: sum.splits)
qed simp

lemma edge_known:
  assumes "validate_separate_ip_inventory probe d = None" "OFFLINE_ENTITLEMENTS_ENABLED d"
    and "raw_edges d sub = Some raws" "raw \<in> set raws"
  shows "\<exists>e \<in> set (relay_edges_list d). edge_by_endpoint d (edge_endpoint raw) = Some e \<and> stable_endpoint e = edge_endpoint raw"
proof -
  let ?used = "RELAY_CONTROL_URL d # relay_control_urls_list d @ map edge_endpoint (port_ha_edges_list d) @ map snd (framed_ip_endpoints_map d)"
  have "\<forall>c \<in> set (offline_checks probe d). \<not> fst c" using accepted_checks [OF assms(1)] by (simp add: ball_Un)
  then have once: "\<forall>e \<in> set ?used. length (filter (\<lambda>s. stable_endpoint s = e) (relay_edges_list d)) = 1"
    using assms(2) by (simp add: offline_checks_def Let_def list_ex_iff)
  have "edge_endpoint raw \<in> set ?used \<union> stable_endpoint ` set (relay_edges_list d)"
    using assms(3,4) by (auto simp: raw_edges_def port_edges_def framed_ip_edge_def Let_def image_iff dest!: map_of_SomeD split: if_splits option.splits) (force, blast)
  moreover have "\<exists>s \<in> set (relay_edges_list d). stable_endpoint s = e" if "e \<in> set ?used" for e
    using once [rule_format, OF that] by (metis (mono_tags, lifting) filter_empty_conv length_0_conv zero_neq_one)
  ultimately obtain s where s: "s \<in> set (relay_edges_list d)" "stable_endpoint s = edge_endpoint raw" by auto
  then have "edge_endpoint raw \<in> stable_endpoint ` set (relay_edges_list d)" by (metis imageI)
  then have "edge_by_endpoint d (edge_endpoint raw) \<noteq> None"
    by (simp add: edge_by_endpoint_def map_of_eq_None_iff image_image)
  then obtain e where e: "edge_by_endpoint d (edge_endpoint raw) = Some e" by blast
  then show ?thesis by (auto simp: edge_by_endpoint_def dest!: map_of_SomeD)
qed

lemma claim_fields:
  assumes "claim_for_subscription env sub account inst pk edge raw = Inr c"
  obtains period_end where "current_period_end sub = Some period_end" "ec_paid_through c = unix_seconds period_end"
    "ec_account c = account" "ec_subscription c = sub_public_id sub" "ec_instance c = inst" "ec_client_pk c = pk"
    "ec_edge c = edge" "ec_kind c = product sub"
  using assms by (auto simp: claim_for_subscription_def Let_def split: option.splits product_type.splits if_splits sum.splits)

text \<open>The resource a payload names: the socket at its edge, the dedicated address, or the hostname.\<close>

definition resource_named :: "offline_env \<Rightarrow> subscription \<Rightarrow> relay_edge \<Rightarrow> entitlement_payload \<Rightarrow> bool" where
  "resource_named env sub raw p \<longleftrightarrow>
     (case product sub of
        PORT \<Rightarrow> ep_kind p = ''port'' \<and> assigned_port sub = Some (ep_port p) \<and> ep_transport p = transport_name (transport sub) \<and>
          (\<exists>a. canonical_ip env (edge_ip raw) = Some a \<and> canonical_ip env a = Some (ep_ip p)) \<and>
          ep_domain p = [] \<and> ep_scope p = None \<and> ep_version p = 1
      | IP \<Rightarrow> ep_kind p = ''ip'' \<and> ep_port p = 0 \<and> ep_transport p = [] \<and>
          (\<exists>ip a. assigned_ip sub = Some ip \<and> canonical_ip env ip = Some a \<and> canonical_ip env a = Some (ep_ip p)) \<and>
          ep_domain p = [] \<and> ep_scope p = None \<and> ep_version p = 1
      | RELAY \<Rightarrow> ep_kind p = ''relay'' \<and> ep_ip p = [] \<and> ep_port p = 0 \<and> ep_transport p = [] \<and>
          (\<exists>name h. domain sub = Some name \<and> canonicalize_hostname (idna_ascii env) (idna_ace_ok env) name = Inr h \<and>
             canonicalize_hostname (idna_ascii env) (idna_ace_ok env) h = Inr (ep_domain p)) \<and>
          (if relay_hostname_scope sub = WILDCARD then ep_scope p = Some ''wildcard'' \<and> ep_version p = 2
           else ep_scope p = None \<and> ep_version p = 1))"

lemma claim_resource:
  assumes "claim_for_subscription env sub account inst pk edge raw = Inr c"
  shows "product sub = PORT \<Longrightarrow> ec_kind c = PORT \<and> canonical_ip env (edge_ip raw) = Some (ec_ip c) \<and>
      assigned_port sub = Some (ec_port c) \<and> ec_transport c = transport_name (transport sub)"
    and "product sub = IP \<Longrightarrow> ec_kind c = IP \<and> (\<exists>ip. assigned_ip sub = Some ip \<and> canonical_ip env ip = Some (ec_ip c))"
    and "product sub = RELAY \<Longrightarrow> ec_kind c = RELAY \<and> ec_scope c = relay_hostname_scope sub \<and>
      (\<exists>name. domain sub = Some name \<and> canonicalize_hostname (idna_ascii env) (idna_ace_ok env) name = Inr (ec_domain c))"
  using assms by (auto simp: claim_for_subscription_def Let_def nonempty_def nonzero_def split: option.splits if_splits sum.splits)

lemma canonical_fields:
  assumes "canonical_claim_fields env c = Inr (k, ip, port, tp, name, scope)"
  shows "ec_kind c = PORT \<Longrightarrow> k = ''port'' \<and> canonical_ip env (ec_ip c) = Some ip \<and> port = ec_port c \<and>
      tp = ec_transport c \<and> name = [] \<and> scope = EXACT"
    and "ec_kind c = IP \<Longrightarrow> k = ''ip'' \<and> canonical_ip env (ec_ip c) = Some ip \<and> port = 0 \<and> tp = [] \<and> name = [] \<and> scope = EXACT"
    and "ec_kind c = RELAY \<Longrightarrow> k = ''relay'' \<and> ip = [] \<and> port = 0 \<and> tp = [] \<and>
      canonicalize_hostname (idna_ascii env) (idna_ace_ok env) (ec_domain c) = Inr name \<and> scope = ec_scope c"
  using assms by (auto simp: canonical_claim_fields_def Let_def split: option.splits if_splits sum.splits)

lemma issue_resource:
  assumes claim: "claim_for_subscription env sub account inst pk edge raw = Inr c"
    and run: "issue env sign key_id grace c gen now jti = Inr (artifact, p)"
  shows "resource_named env sub raw p"
proof -
  obtain k ip port tp name scope where f: "canonical_claim_fields env c = Inr (k, ip, port, tp, name, scope)"
    and p: "ep_kind p = k" "ep_ip p = ip" "ep_port p = port" "ep_transport p = tp" "ep_domain p = name"
      "ep_version p = (if scope = WILDCARD then 2 else 1)" "ep_scope p = (if scope = WILDCARD then Some ''wildcard'' else None)"
    using run by (auto simp: issue_def Let_def split: if_splits sum.splits)
  note r = claim_resource [OF claim] and g = canonical_fields [OF f]
  show ?thesis
  proof (cases "product sub")
    case IP
    then show ?thesis using r(2) [OF IP] g(2) unfolding resource_named_def p by auto
  next
    case PORT
    then show ?thesis using r(1) [OF PORT] g(1) unfolding resource_named_def p by simp
  next
    case RELAY
    then show ?thesis using r(3) [OF RELAY] g(3) unfolding resource_named_def p by auto
  qed
qed

lemma issue_fields:
  assumes "issue env sign key_id grace c gen now jti = Inr (artifact, p)"
  shows "ep_account p = ec_account c" "ep_subscription p = ec_subscription c" "ep_instance p = ec_instance c"
    "ep_client_pk p = b64url (ec_client_pk c)" "ep_edge p = stable_id (ec_edge c)" "ep_paid_through p = ec_paid_through c"
    "ep_grace_through p = ec_paid_through c + grace" "ep_grace_through p \<le> MAX_UNIX_SECONDS" "ep_iat p = unix_seconds now"
    "ep_nbf p = ep_iat p" "ep_kid p = key_id" "length artifact \<le> 2048" "artifact = ''v1.'' @ b64url (payload_json p) @ ''.'' @ b64url (sign (payload_json p))"
    "entitlement_generation (ec_paid_through c) gen = Inr (ep_generation p)"
  using assms by (auto simp: issue_def Let_def ARTIFACT_MAX_BYTES_def split: if_splits sum.splits)

text \<open>What one signed entitlement says.\<close>

definition entitlement_for ::
  "offline_env \<Rightarrow> (string \<Rightarrow> string) \<Rightarrow> user \<Rightarrow> client_credential \<Rightarrow> string \<Rightarrow> subscription \<Rightarrow> relay_edge \<Rightarrow> edge_entitlement \<Rightarrow> bool" where
  "entitlement_for env sign u cred pk sub raw e \<longleftrightarrow> (\<exists>period_end. current_period_end sub = Some period_end \<and>
     (let p = ee_payload e in
      ep_account p = user_public_id u \<and> ep_subscription p = sub_public_id sub \<and> ep_instance p = cred_instance_id cred \<and>
      ep_client_pk p = b64url pk \<and> ep_edge p = ee_id e \<and> ep_paid_through p = unix_seconds period_end \<and>
      ep_grace_through p = ep_paid_through p + OFFLINE_ENTITLEMENT_GRACE_SECONDS (rel_deployment env) \<and>
      ep_iat p \<le> ep_paid_through p \<and> ep_nbf p = ep_iat p \<and> ep_kid p = OFFLINE_ENTITLEMENT_KEY_ID (rel_deployment env) \<and>
      resource_named env sub raw p \<and>
      entitlement_generation (ep_paid_through p) (generation cred) = Inr (ep_generation p) \<and>
      length (ee_artifact e) \<le> 2048 \<and>
      ee_artifact e = ''v1.'' @ b64url (payload_json p) @ ''.'' @ b64url (sign (payload_json p))))"

lemma unix_seconds_seconds [simp]: "unix_seconds (seconds n) = n"
proof (cases "0 \<le> n")
  case False
  have "- (n * 1000000) div 1000000 = - n" using nonzero_mult_div_cancel_right [of 1000000 "- n"] by simp
  then show ?thesis using False by (simp add: unix_seconds_def seconds_def)
qed (simp add: unix_seconds_def seconds_def)

lemma edge_entitlement_fields:
  assumes run: "edge_entitlement_of env sign u cred pk now sub raw = Inr e"
  shows "entitlement_for env sign u cred pk sub raw e"
    and "\<exists>edge. edge_by_endpoint (rel_deployment env) (edge_endpoint raw) = Some edge \<and> ee_id e = stable_id edge \<and>
      ee_endpoint e = stable_endpoint edge"
proof -
  let ?d = "rel_deployment env"
  obtain edge c jti issued artifact p where edge: "edge_by_endpoint ?d (edge_endpoint raw) = Some edge"
    and c: "claim_for_subscription env sub (user_public_id u) (cred_instance_id cred) pk edge raw = Inr c"
    and issued: "entitlement_issued_at sub cred now = Inr issued"
    and p: "issue env sign (OFFLINE_ENTITLEMENT_KEY_ID ?d) (OFFLINE_ENTITLEMENT_GRACE_SECONDS ?d) c (generation cred) issued jti = Inr (artifact, p)"
    and e: "e = \<lparr> ee_id = stable_id edge, ee_endpoint = stable_endpoint edge, ee_artifact = artifact, ee_payload = p \<rparr>"
    using run by (auto simp: edge_entitlement_of_def issue_subscription_entitlement_def Let_def split: option.splits sum.splits)
  obtain period_end where C: "current_period_end sub = Some period_end" "ec_paid_through c = unix_seconds period_end"
    "ec_account c = user_public_id u" "ec_subscription c = sub_public_id sub" "ec_instance c = cred_instance_id cred"
    "ec_client_pk c = pk" "ec_edge c = edge"
    using c by (elim claim_fields)
  have "unix_seconds issued \<le> unix_seconds period_end"
    using issued C(1) by (auto simp: entitlement_issued_at_def Let_def split: if_splits option.splits)
  then show "entitlement_for env sign u cred pk sub raw e"
    using C issue_fields [OF p] issue_resource [OF c p] by (simp add: entitlement_for_def e Let_def)
  show "\<exists>edge. edge_by_endpoint ?d (edge_endpoint raw) = Some edge \<and> ee_id e = stable_id edge \<and> ee_endpoint e = stable_endpoint edge"
    using edge e by simp
qed

lemma all_results_source: "all_results (map f xs) = Inl e \<Longrightarrow> \<exists>s \<in> set xs. f s = Inl e"
  using all_results_Inl [of "map f xs" e] by auto

lemma all_results_each: "all_results (map f xs) = Inr ys \<longleftrightarrow> list_all2 (\<lambda>x y. f x = Inr y) xs ys"
  by (auto simp: all_results_Inr list_all2_conv_all_nth list_eq_iff_nth_eq)

lemma list_all2_ball: "list_all2 (\<lambda>x y. Q y) xs ys \<Longrightarrow> \<forall>y \<in> set ys. Q y"
  by (auto simp: list_all2_conv_all_nth in_set_conv_nth)

lemma provision_available:
  assumes "validate_separate_ip_inventory probe (rel_deployment env) = None" "OFFLINE_ENTITLEMENTS_ENABLED (rel_deployment env)"
    and "raw_edges (rel_deployment env) s \<noteq> None"
  shows "provision env sign u cred pk now s \<noteq> Inl (RelayHttp 503 ''offline edge map is unavailable'')"
proof
  assume p: "provision env sign u cred pk now s = Inl (RelayHttp 503 ''offline edge map is unavailable'')"
  obtain raws where raws: "raw_edges (rel_deployment env) s = Some raws" using assms(3) by blast
  have "all_results (map (edge_entitlement_of env sign u cred pk now s) raws) = Inl (RelayHttp 503 ''offline edge map is unavailable'')"
    using p raws by (auto simp: provision_def map_sum_def split: sum.splits)
  from all_results_source [OF this] obtain raw where raw: "raw \<in> set raws"
    and e: "edge_entitlement_of env sign u cred pk now s raw = Inl (RelayHttp 503 ''offline edge map is unavailable'')" by blast
  from edge_known [OF assms(1,2) raws raw] obtain edge where "edge_by_endpoint (rel_deployment env) (edge_endpoint raw) = Some edge" by blast
  then show False using e
    by (auto simp: edge_entitlement_of_def Let_def entitlement_http_def split: sum.splits entitlement_error.splits)
qed

lemma provision_result:
  assumes valid: "validate_separate_ip_inventory probe (rel_deployment env) = None" "OFFLINE_ENTITLEMENTS_ENABLED (rel_deployment env)"
    and s: "raw_edges (rel_deployment env) s \<noteq> None" and p: "provision env sign u cred pk now s = Inr p"
  shows "pv_subscription p = s"
    and "list_all2 (\<lambda>raw e. ee_endpoint e = edge_endpoint raw \<and>
        (\<exists>edge \<in> set (relay_edges_list (rel_deployment env)). stable_id edge = ee_id e \<and> stable_endpoint edge = ee_endpoint e) \<and>
        entitlement_for env sign u cred pk s raw e) (the (raw_edges (rel_deployment env) s)) (pv_edges p)"
proof -
  obtain raws where raws: "raw_edges (rel_deployment env) s = Some raws" using s by blast
  show "pv_subscription p = s" using p by (auto simp: provision_def map_sum_def split: sum.splits)
  have each: "list_all2 (\<lambda>raw e. edge_entitlement_of env sign u cred pk now s raw = Inr e) raws (pv_edges p)"
    using p raws by (auto simp: provision_def map_sum_def all_results_each split: sum.splits)
  have "list_all2 (\<lambda>raw e. ee_endpoint e = edge_endpoint raw \<and>
        (\<exists>edge \<in> set (relay_edges_list (rel_deployment env)). stable_id edge = ee_id e \<and> stable_endpoint edge = ee_endpoint e) \<and>
        entitlement_for env sign u cred pk s raw e) raws (pv_edges p)"
  proof (rule list.rel_mono_strong [OF each])
    fix raw e assume raw: "raw \<in> set raws" and e: "edge_entitlement_of env sign u cred pk now s raw = Inr e"
    show "ee_endpoint e = edge_endpoint raw \<and>
        (\<exists>edge \<in> set (relay_edges_list (rel_deployment env)). stable_id edge = ee_id e \<and> stable_endpoint edge = ee_endpoint e) \<and>
        entitlement_for env sign u cred pk s raw e"
      using edge_known [OF valid raws raw] edge_entitlement_fields [OF e] by auto
  qed
  then show "list_all2 (\<lambda>raw e. ee_endpoint e = edge_endpoint raw \<and>
        (\<exists>edge \<in> set (relay_edges_list (rel_deployment env)). stable_id edge = ee_id e \<and> stable_endpoint edge = ee_endpoint e) \<and>
        entitlement_for env sign u cred pk s raw e) (the (raw_edges (rel_deployment env) s)) (pv_edges p)"
    by (simp add: raws)
qed

lemma offline_config_cases:
  assumes run: "offline_client_config env wildcards creds u inst now w = (x, w')"
    and v: "v = wdb (snd (reap_expired_domain_claims (base (rel_deployment env)) (rel_gateway env) now w))"
  obtains (refused) e where "x = Inl e" "e \<noteq> RelayHttp 503 ''offline edge map is unavailable''"
    | (rows) cred pk sign rows db where "OFFLINE_ENTITLEMENTS_ENABLED (rel_deployment env)" "cred \<in> set creds"
      "cred_user_id cred = user_id u" "cred_instance_id cred = inst" "enrolled_client_public_key env cred u inst now = Inr pk"
      "load_signer env (OFFLINE_ENTITLEMENT_PRIVATE_KEY_FILE (rel_deployment env)) = Some sign"
      "expire_elapsed_subscriptions (base (rel_deployment env)) (seal_identity (rel_gateway env)) now (account_rows v (user_id u)) v = Inr (rows, db)"
      "x = all_results (map (provision env sign u cred pk now) (filter (\<lambda>s. sub_status s = SubACTIVE \<and>
        (wildcards \<or> \<not> (product s = RELAY \<and> relay_hostname_scope s = WILDCARD)) \<and> raw_edges (rel_deployment env) s \<noteq> None) rows))"
proof (cases "length inst \<noteq> 36 \<or> \<not> OFFLINE_ENTITLEMENTS_ENABLED (rel_deployment env) \<or> \<not> canonical_uuid inst")
  case True
  then show thesis using run refused by (auto simp: offline_client_config_def Let_def split: if_splits)
next
  case False
  let ?cred = "List.find (\<lambda>c. cred_user_id c = user_id u \<and> cred_instance_id c = inst) creds"
  obtain y w1 where reap: "reap_expired_domain_claims (base (rel_deployment env)) (rel_gateway env) now w = (y, w1)" by (rule prod.exhaust)
  have w1: "wdb w1 = v" using reap v by simp
  note def = run [unfolded offline_client_config_def Let_def] False
  show thesis
  proof (cases ?cred)
    case None
    then have "x = Inl (RelayHttp 409 ''client credential is not enrolled for instance'')" using def by simp
    then show thesis by (rule refused) simp
  next
    case (Some cred)
    note c = this
    then have cred: "cred \<in> set creds" "cred_user_id cred = user_id u" "cred_instance_id cred = inst"
      by (auto simp: find_Some_iff)
    show thesis
    proof (cases "enrolled_client_public_key env cred u inst now")
      case (Inl e)
      then have "x = Inl (entitlement_http e)" using def c by simp
      then show thesis by (rule refused) (simp add: entitlement_http_def split: entitlement_error.split)
    next
      case (Inr pk)
      note pk = this
      show thesis
      proof (cases "load_signer env (OFFLINE_ENTITLEMENT_PRIVATE_KEY_FILE (rel_deployment env))")
        case None
        then have "x = Inl (RelayHttp 503 ''offline entitlement signer unavailable'')" using def c pk by simp
        then show thesis by (rule refused) simp
      next
        case (Some sign)
        show thesis
        proof (cases y)
          case (Inl e)
          then have "x = Inl (RelayRaised e)" using def c pk Some reap by simp
          then show thesis by (rule refused) simp
        next
          case (Inr n)
          note step = def c pk Some reap this
          show thesis
          proof (cases "expire_elapsed_subscriptions (base (rel_deployment env)) (seal_identity (rel_gateway env)) now (account_rows v (user_id u)) v")
            case (Inl e)
            then have "x = Inl (RelayRaised e)" using step by (simp add: w1)
            then show thesis by (rule refused) simp
          next
            case exp: (Inr p)
            obtain rs db where p: "p = (rs, db)" by (rule prod.exhaust)
            show thesis
              by (rule rows [OF _ cred pk Some, of rs db]) (use step exp p in \<open>simp_all add: w1\<close>)
          qed
        qed
      qed
    qed
  qed
qed

text \<open>
  C16: a client is provisioned exactly its paid claims. With a validated configuration, the endpoint issues
  entitlements only for a credential enrolled by the account and instance, whose certificate is bound to both;
  it lists exactly the account's active, unexpired framed subscriptions (wildcard names only in the third
  version), each with one entitlement per edge that serves it, in the order of the edges, and never reports its
  edge map unavailable. Every entitlement names the configured key, the account, subscription, instance, client
  key and edge and exactly the resource of the row (the assigned port and transport at the address of that
  edge, the dedicated address, or the hostname and its scope), ends with the paid period, adds the configured
  grace, was issued before that end, and is the signature of its own payload by the signer loaded from the
  configured key file.
\<close>

theorem offline_config_exact:
  assumes valid: "validate_separate_ip_inventory probe (rel_deployment env) = None" and d: "tables_distinct (wdb w)"
    and run: "offline_client_config env wildcards creds u inst now w = (x, w')"
    and v: "v = wdb (snd (reap_expired_domain_claims (base (rel_deployment env)) (rel_gateway env) now w))"
  shows "x \<noteq> Inl (RelayHttp 503 ''offline edge map is unavailable'') \<and>
    (\<forall>ps. x = Inr ps \<longrightarrow> (\<exists>cred pk sign. cred \<in> set creds \<and> cred_user_id cred = user_id u \<and> cred_instance_id cred = inst \<and>
      enrolled_client_public_key env cred u inst now = Inr pk \<and>
      load_signer env (OFFLINE_ENTITLEMENT_PRIVATE_KEY_FILE (rel_deployment env)) = Some sign \<and>
      map pv_subscription ps = filter (\<lambda>s. entitled v now (user_id u) s \<and>
        (wildcards \<or> \<not> (product s = RELAY \<and> relay_hostname_scope s = WILDCARD)) \<and> raw_edges (rel_deployment env) s \<noteq> None) (subscriptions v) \<and>
      (\<forall>p \<in> set ps. list_all2 (\<lambda>raw e. ee_endpoint e = edge_endpoint raw \<and>
          (\<exists>edge \<in> set (relay_edges_list (rel_deployment env)). stable_id edge = ee_id e \<and> stable_endpoint edge = ee_endpoint e) \<and>
          entitlement_for env sign u cred pk (pv_subscription p) raw e)
        (the (raw_edges (rel_deployment env) (pv_subscription p))) (pv_edges p))))"
proof -
  let ?d = "rel_deployment env"
  let ?P = "\<lambda>s. (wildcards \<or> \<not> (product s = RELAY \<and> relay_hostname_scope s = WILDCARD)) \<and> raw_edges ?d s \<noteq> None"
  consider (refused) e where "x = Inl e" "e \<noteq> RelayHttp 503 ''offline edge map is unavailable''"
    | (rows) cred pk sign rows db where "OFFLINE_ENTITLEMENTS_ENABLED ?d" "cred \<in> set creds" "cred_user_id cred = user_id u"
      "cred_instance_id cred = inst" "enrolled_client_public_key env cred u inst now = Inr pk"
      "load_signer env (OFFLINE_ENTITLEMENT_PRIVATE_KEY_FILE ?d) = Some sign"
      "expire_elapsed_subscriptions (base ?d) (seal_identity (rel_gateway env)) now (account_rows v (user_id u)) v = Inr (rows, db)"
      "x = all_results (map (provision env sign u cred pk now) (filter (\<lambda>s. sub_status s = SubACTIVE \<and> ?P s) rows))"
    by (rule offline_config_cases [OF run v])
  then show ?thesis
  proof cases
    case refused
    then show ?thesis by simp
  next
    case rows
    let ?edges = "\<lambda>s p. list_all2 (\<lambda>raw e. ee_endpoint e = edge_endpoint raw \<and>
          (\<exists>edge \<in> set (relay_edges_list ?d). stable_id edge = ee_id e \<and> stable_endpoint edge = ee_endpoint e) \<and>
          entitlement_for env sign u cred pk s raw e) (the (raw_edges ?d s)) (pv_edges p)"
    have dv: "distinct (map sub_id (subscriptions v))" using reap_tables [OF d] by (simp add: v tables_distinct_def)
    let ?rows = "filter (\<lambda>s. entitled v now (user_id u) s \<and> ?P s) (subscriptions v)"
    have sel: "filter (\<lambda>s. sub_status s = SubACTIVE \<and> ?P s) rows = ?rows" by (rule expired_account_rows [OF rows(7) dv])
    have x: "x = all_results (map (provision env sign u cred pk now) ?rows)" using rows(8) sel by simp
    have edges: "raw_edges ?d s \<noteq> None" if "s \<in> set ?rows" for s using that by auto
    have "x \<noteq> Inl (RelayHttp 503 ''offline edge map is unavailable'')"
    proof
      assume "x = Inl (RelayHttp 503 ''offline edge map is unavailable'')"
      then obtain s where s: "s \<in> set ?rows" "provision env sign u cred pk now s = Inl (RelayHttp 503 ''offline edge map is unavailable'')"
        using all_results_source [OF x [symmetric, THEN trans]] by blast
      show False using provision_available [OF valid rows(1) edges [OF s(1)]] s(2) by blast
    qed
    moreover have "map pv_subscription ps = ?rows \<and> (\<forall>p \<in> set ps. ?edges (pv_subscription p) p)" if ps: "x = Inr ps" for ps
    proof -
      have each: "list_all2 (\<lambda>s p. provision env sign u cred pk now s = Inr p) ?rows ps" using ps x by (simp add: all_results_each)
      have result: "pv_subscription p = s" "?edges s p" if "s \<in> set ?rows" "provision env sign u cred pk now s = Inr p" for s p
        using provision_result [OF valid rows(1) edges [OF that(1)] that(2)] by blast+
      have "list_all2 (\<lambda>s p. pv_subscription p = s) ?rows ps"
        by (rule list.rel_mono_strong [OF each]) (rule result(1))
      then have "map pv_subscription ps = ?rows" by (simp add: list_all2_conv_all_nth list_eq_iff_nth_eq)
      moreover have "\<forall>p \<in> set ps. ?edges (pv_subscription p) p"
      proof (rule list_all2_ball [of _ ?rows], rule list.rel_mono_strong [OF each])
        fix s p assume s: "s \<in> set ?rows" and p: "provision env sign u cred pk now s = Inr p"
        show "?edges (pv_subscription p) p" using result(2) [OF s p] unfolding result(1) [OF s p] .
      qed
      ultimately show ?thesis by blast
    qed
    ultimately show ?thesis using rows(2-6) by blast
  qed
qed

section \<open>Grace and reuse\<close>

text \<open>An entitlement asked for again in the same period is the same artifact.\<close>

lemma entitlement_stable:
  assumes "edge_entitlement_of env sign u cred pk now sub raw = Inr e" and "now \<le> later"
  shows "edge_entitlement_of env sign u cred pk later sub raw = Inr e"
proof -
  have "entitlement_issued_at sub cred now = Inr t \<Longrightarrow> entitlement_issued_at sub cred later = Inr t" for t
    using assms(2) by (auto simp: entitlement_issued_at_def Let_def split: option.splits if_splits)
  then show ?thesis using assms(1) by (auto simp: edge_entitlement_of_def Let_def split: option.splits sum.splits)
qed

lemma expired_row:
  assumes "expire_elapsed_subscriptions cfg seal now rows db = Inr (rows', db')" and "set rows \<subseteq> set (subscriptions db)"
    and "distinct (map sub_id (subscriptions db))" and "distinct rows" and "sub \<in> set rows" and "has_elapsed now sub"
  shows "get_subscription db' (sub_id sub) = Some (expiry_values cfg now sub sub)"
proof -
  let ?e = "\<lambda>r. if r \<in> set rows \<and> has_elapsed now r then expiry_values cfg now r r else r"
  obtain h ch where loop: "expire_loop cfg seal now rows (None, False, db) = Inr (h, ch, db')"
    using assms(1) by (auto simp: expire_elapsed_subscriptions_def split: sum.splits)
  have subs: "subscriptions db' = map ?e (subscriptions db)"
    using expire_loop_subscriptions [OF loop assms(2-4)] by (simp add: update_where_def)
  have ids: "sub_id (?e r) = sub_id r" for r by simp
  then have "distinct (map sub_id (subscriptions db'))" using assms(3) by (simp add: subs comp_def del: if_split)
  moreover have "?e sub \<in> set (subscriptions db')" using assms(2,5) by (auto simp: subs)
  ultimately have "get_row sub_id (sub_id (?e sub)) (subscriptions db') = Some (?e sub)" by (rule get_row_unique)
  then show ?thesis using ids [of sub] assms(5,6) by (simp add: get_subscription_def)
qed

lemma unix_seconds_le: "0 \<le> t \<Longrightarrow> seconds (unix_seconds t) \<le> t"
  using floor_seconds_le [of t] by (simp add: unix_seconds_def floor_seconds_def)

text \<open>
  C13: an offline entitlement does not outlive the hold on its resource. With a validated configuration and the
  declared range of the grace setting, let an entitlement be issued for a subscription and the subscription be
  expired after its period, at any later time. The row then holds its port until more than two minutes after
  the last second at which any relay honours the entitlement, and its name likewise. It holds its dedicated
  address not shorter than up to that second, and strictly beyond it whenever the grace is below its upper
  bound of seven days; at that bound the hold may end on the very second.
\<close>

theorem offline_grace_before_reuse:
  assumes valid: "validate_separate_ip_inventory probe (rel_deployment env) = None"
    and enabled: "OFFLINE_ENTITLEMENTS_ENABLED (rel_deployment env)"
    and range: "OFFLINE_ENTITLEMENT_GRACE_SECONDS (rel_deployment env) \<le> 604800"
    and issued: "edge_entitlement_of env sign u cred pk now sub raw = Inr e" and epoch: "current_period_end sub = Some period_end" "0 \<le> period_end"
    and expiry: "expire_elapsed_subscriptions (base (rel_deployment env)) seal later rows db = Inr (rows', db')"
    and rows: "set rows \<subseteq> set (subscriptions db)" "distinct (map sub_id (subscriptions db))" "distinct rows" "sub \<in> set rows"
    and elapsed: "has_elapsed later sub"
  shows "\<exists>r. get_subscription db' (sub_id sub) = Some r \<and> sub_status r = SubEXPIRED \<and>
    (product sub = PORT \<longrightarrow> (\<exists>t. resource_quarantined_until r = Some t \<and> seconds (ep_grace_through (ee_payload e) + 120) < t)) \<and>
    (product sub = RELAY \<longrightarrow> (\<exists>t. domain_renewal_grace_expires_at r = Some t \<and> seconds (ep_grace_through (ee_payload e) + 120) < t)) \<and>
    (product sub = IP \<longrightarrow> (\<exists>t. resource_quarantined_until r = Some t \<and> seconds (ep_grace_through (ee_payload e)) \<le> t \<and>
      (OFFLINE_ENTITLEMENT_GRACE_SECONDS (rel_deployment env) < 604800 \<longrightarrow> seconds (ep_grace_through (ee_payload e)) < t)))"
proof -
  let ?d = "rel_deployment env" and ?r = "expiry_values (base (rel_deployment env)) later sub sub"
  let ?grace = "OFFLINE_ENTITLEMENT_GRACE_SECONDS ?d"
  have through: "ep_grace_through (ee_payload e) = unix_seconds period_end + ?grace"
    using edge_entitlement_fields(1) [OF issued] epoch(1) by (auto simp: entitlement_for_def Let_def)
  have paid: "seconds (unix_seconds period_end) \<le> period_end" using epoch(2) by (rule unix_seconds_le)
  have over: "period_end \<le> later" using elapsed epoch(1) by (auto simp: has_elapsed_def elapsed_or_missing_def)
  note margins = accepted_offline [OF valid enabled]
  have assigned: "nonempty (assigned_ip sub)" if "product sub \<noteq> RELAY"
  proof -
    obtain edge c where "claim_for_subscription env sub (user_public_id u) (cred_instance_id cred) pk edge raw = Inr c"
      using issued by (auto simp: edge_entitlement_of_def Let_def split: option.splits sum.splits)
    then show ?thesis using that
      by (auto simp: claim_for_subscription_def Let_def split: option.splits product_type.splits if_splits)
  qed
  have "\<exists>t. resource_quarantined_until ?r = Some t \<and> seconds (ep_grace_through (ee_payload e) + 120) < t" if "product sub = PORT"
    using that assigned margins(1) over paid
    by (auto simp: expiry_values_def Let_def hold_until_def is_scarce_def epoch(1) through seconds_def)
  moreover have "\<exists>t. domain_renewal_grace_expires_at ?r = Some t \<and> seconds (ep_grace_through (ee_payload e) + 120) < t" if "product sub = RELAY"
    using that margins(2) paid by (simp add: expiry_values_def Let_def hold_until_def is_scarce_def epoch(1) through seconds_def)
  moreover have "\<exists>t. resource_quarantined_until ?r = Some t \<and> seconds (ep_grace_through (ee_payload e)) \<le> t \<and>
      (?grace < 604800 \<longrightarrow> seconds (ep_grace_through (ee_payload e)) < t)" if "product sub = IP"
    using that assigned range paid
    by (auto simp: expiry_values_def Let_def hold_until_def is_scarce_def epoch(1) through seconds_def days_def)
  moreover have "sub_status ?r = SubEXPIRED" by (simp add: expiry_values_def Let_def split: option.splits)
  ultimately show ?thesis using expired_row [OF expiry rows elapsed] by blast
qed

section \<open>Worked instances\<close>

definition example_instance :: string where
  "example_instance = ''00000000-0000-4000-8000-000000000001''"

definition offline_user :: user where
  "offline_user = sample_user\<lparr>user_public_id := ''00000000-0000-4000-8000-000000000002''\<rparr>"

definition offline_credential :: client_credential where
  "offline_credential = \<lparr> cred_user_id = 1, cred_instance_id = example_instance, public_key_fingerprint = ''fp'', generation = 3,
     client_cert_pem = ''pem'', cred_serial = ''ff'', cred_not_before = 0, cred_not_after = days 90, cred_renew_after = days 60,
     cred_created_at = 0, cred_updated_at = 0 \<rparr>"

definition client_key :: string where
  "client_key = replicate 32 (CHR ''k'')"

definition example_sign :: "string \<Rightarrow> string" where
  "example_sign s = replicate 64 (CHR ''s'')"

definition offline_example :: offline_env where
  "offline_example = \<lparr> rel_deployment = example_deployment, rel_gateway = idle_gateway, rel_sha = id, stored_hash = (\<lambda>_. []),
     canonical_ip = Some, idna_ascii = (\<lambda>_. None), idna_ace_ok = (\<lambda>_. False),
     sha_digest = (\<lambda>_. replicate 32 (CHR ''d'')), sha_hex = (\<lambda>_. ''fp''),
     load_certificate = (\<lambda>_. Some \<lparr> x_not_before = 0, x_not_after = days 90, x_common_name = Some (''account:'' @ user_public_id offline_user),
       x_san_uris = Some [''urn:blindport:client:'' @ example_instance], x_ed25519 = Some client_key, x_serial = 255 \<rparr>),
     load_signer = (\<lambda>_. Some example_sign) \<rparr>"

lemma offline_example_fields [simp]:
  "rel_deployment offline_example = example_deployment" "rel_gateway offline_example = idle_gateway" "canonical_ip offline_example = Some"
  "sha_digest offline_example = (\<lambda>_. replicate 32 (CHR ''d''))" "load_signer offline_example = (\<lambda>_. Some example_sign)"
  "length client_key = 32"
  by (simp_all add: offline_example_def client_key_def)

lemma b64url_length: "length (b64url s) = (4 * length s + 2) div 3"
  by (induction s rule: b64url.induct) (simp_all add: Let_def)

definition offline_entitlement :: "string \<Rightarrow> string \<Rightarrow> string \<Rightarrow> entitlement_payload" where
  "offline_entitlement address edge sid = \<lparr> ep_version = 1, ep_kid = ''k1'', ep_account = user_public_id offline_user, ep_subscription = sid,
     ep_instance = example_instance, ep_client_pk = ''a2tra2tra2tra2tra2tra2tra2tra2tra2tra2tra2s'', ep_edge = edge, ep_kind = ''port'',
     ep_ip = address, ep_port = 10000, ep_transport = ''tcp'', ep_domain = [], ep_scope = None, ep_iat = 0, ep_nbf = 0,
     ep_paid_through = 2592000, ep_grace_through = 2595600, ep_generation = 5566277615616003, ep_jti = ''ZGRkZGRkZGRkZGRkZGRkZA'' \<rparr>"

lemma key_text: "b64url client_key = ''a2tra2tra2tra2tra2tra2tra2tra2tra2tra2tra2s''"
  and jti_text: "b64url (replicate 16 (CHR ''d'')) = ''ZGRkZGRkZGRkZGRkZGRkZA''"
  unfolding client_key_def by code_simp+

lemma payload_length:
  "length (payload_json (offline_entitlement ''198.51.100.7'' ''a'' ''s1'')) \<le> 600"
  "length (payload_json (offline_entitlement ''198.51.100.8'' ''b'' ''s1'')) \<le> 600"
  by (simp_all add: payload_json_def offline_entitlement_def offline_user_def example_instance_def json_object_def json_string_def
      str_int_def nat_digits.simps)

lemma example_row_fields:
  "current_period_end (port_row i p) = Some (days 30)" "current_period_start (port_row i p) = None" "product (port_row i p) = PORT"
  "assigned_ip (port_row i p) = Some ''198.51.100.7''" "assigned_port (port_row i p) = Some p" "transport (port_row i p) = TCP"
  "sub_public_id (port_row i p) = ''s'' @ str_int i" "sub_status (port_row i p) = SubACTIVE" "delivery (port_row i p) = FRAMED"
  by (simp_all add: port_row_def sample_subscription_def)

lemma example_edges:
  "edge_by_endpoint example_deployment ''a.blindport.io:443'' = Some \<lparr>stable_id = ''a'', stable_endpoint = ''a.blindport.io:443''\<rparr>"
  "edge_by_endpoint example_deployment ''b.blindport.io:443'' = Some \<lparr>stable_id = ''b'', stable_endpoint = ''b.blindport.io:443''\<rparr>"
  "OFFLINE_ENTITLEMENT_KEY_ID example_deployment = ''k1''" "OFFLINE_ENTITLEMENT_GRACE_SECONDS example_deployment = 3600"
  by (simp_all add: edge_by_endpoint_def example_deployment_def)

definition example_issued :: "string \<Rightarrow> string \<Rightarrow> string \<Rightarrow> edge_entitlement" where
  "example_issued address edge url =
     (let p = offline_entitlement address edge ''s1'' in
      \<lparr> ee_id = edge, ee_endpoint = url,
        ee_artifact = ''v1.'' @ b64url (payload_json p) @ ''.'' @ b64url (example_sign (payload_json p)), ee_payload = p \<rparr>)"

lemma offline_issued:
  "edge_entitlement_of offline_example example_sign offline_user offline_credential client_key (seconds 50) (port_row 1 10000)
     \<lparr>edge_endpoint = ''a.blindport.io:443'', edge_ip = ''198.51.100.7''\<rparr> =
   Inr (example_issued ''198.51.100.7'' ''a'' ''a.blindport.io:443'')"
  "edge_entitlement_of offline_example example_sign offline_user offline_credential client_key (seconds 50) (port_row 1 10000)
     \<lparr>edge_endpoint = ''b.blindport.io:443'', edge_ip = ''198.51.100.8''\<rparr> =
   Inr (example_issued ''198.51.100.8'' ''b'' ''b.blindport.io:443'')"
proof -
  let ?claim = "\<lambda>edge address url. \<lparr> ec_account = user_public_id offline_user, ec_subscription = ''s1'', ec_instance = example_instance,
      ec_client_pk = client_key, ec_edge = \<lparr>stable_id = edge, stable_endpoint = url\<rparr>,
      ec_relay_edge = \<lparr>edge_endpoint = url, edge_ip = address\<rparr>, ec_kind = PORT, ec_ip = address, ec_port = 10000, ec_transport = ''tcp'',
      ec_domain = [], ec_paid_through = 2592000, ec_scope = EXACT \<rparr>"
  have claim: "claim_for_subscription offline_example (port_row 1 10000) (user_public_id offline_user) example_instance client_key
      \<lparr>stable_id = edge, stable_endpoint = url\<rparr> \<lparr>edge_endpoint = url, edge_ip = address\<rparr> = Inr (?claim edge address url)" for edge address url
    by (simp add: claim_for_subscription_def example_row_fields transport_name_def str_int_def nat_digits.simps
        unix_seconds_def days_def seconds_def)
  have fields: "canonical_claim_fields offline_example (?claim edge address url) = Inr (''port'', address, 10000, ''tcp'', [], EXACT)" for edge address url
    by (simp add: canonical_claim_fields_def)
  have cred: "cred_instance_id offline_credential = example_instance" "generation offline_credential = 3" by (simp_all add: offline_credential_def)
  have gen: "entitlement_generation 2592000 3 = Inr 5566277615616003"
    using pack_bits [of 3 31 2592000] by (simp add: entitlement_generation_def generation_limits GENERATION_BITS_def)
  have jti: "deterministic_entitlement_jti offline_example (?claim edge address url) 3 = Inr (replicate 16 (CHR ''d''))" for edge address url
    by (simp add: deterministic_entitlement_jti_def scope_digest_def gen fields)
  have issued_at: "entitlement_issued_at (port_row 1 10000) offline_credential (seconds 50) = Inr 0"
    by (simp add: entitlement_issued_at_def example_row_fields offline_credential_def unix_seconds_def seconds_def days_def)
  have issue: "issue offline_example example_sign ''k1'' 3600 (?claim edge address url) 3 0 (replicate 16 (CHR ''d'')) =
      Inr (ee_artifact (example_issued address edge url), offline_entitlement address edge ''s1'')"
    if "length (payload_json (offline_entitlement address edge ''s1'')) \<le> 600" for edge address url
  proof -
    have "length (ee_artifact (example_issued address edge url)) \<le> 2048"
      using that by (simp add: example_issued_def Let_def b64url_length example_sign_def)
    then show ?thesis
      by (simp add: issue_def Let_def gen fields key_text jti_text generation_limits unix_seconds_def ARTIFACT_MAX_BYTES_def
          example_issued_def offline_entitlement_def)
  qed
  show "edge_entitlement_of offline_example example_sign offline_user offline_credential client_key (seconds 50) (port_row 1 10000)
      \<lparr>edge_endpoint = ''a.blindport.io:443'', edge_ip = ''198.51.100.7''\<rparr> = Inr (example_issued ''198.51.100.7'' ''a'' ''a.blindport.io:443'')"
    "edge_entitlement_of offline_example example_sign offline_user offline_credential client_key (seconds 50) (port_row 1 10000)
      \<lparr>edge_endpoint = ''b.blindport.io:443'', edge_ip = ''198.51.100.8''\<rparr> = Inr (example_issued ''198.51.100.8'' ''b'' ''b.blindport.io:443'')"
    using issue [OF payload_length(1)] issue [OF payload_length(2)]
    by (simp_all add: edge_entitlement_of_def issue_subscription_entitlement_def claim jti issued_at example_edges
        cred example_issued_def Let_def)
qed

theorem offline_grace_before_reuse_witness:
  "\<exists>rows' db' r t. expire_elapsed_subscriptions (base example_deployment) (\<lambda>_ _. None) (days 31) [port_row 1 10000] (wdb relay_world) = Inr (rows', db') \<and>
     get_subscription db' 1 = Some r \<and> resource_quarantined_until r = Some t \<and> seconds (2595600 + 120) < t"
proof -
  let ?sub = "port_row 1 10000"
  have elapsed: "has_elapsed (days 31) ?sub" by (simp add: has_elapsed_def example_row_fields elapsed_or_missing_def clock_simps)
  have quiet: "REMINDER_EMAIL_ENABLED (base example_deployment) = False" by (simp add: example_deployment_def example_settings_def)
  have "\<exists>x. expire_one (base example_deployment) (\<lambda>_ _. None) (days 31) ?sub st = Inr x" for st
    by (cases st) (auto simp: expire_one_def Let_def notify_expired_def quiet example_row_fields split: option.splits)
  then obtain h c db' where "expire_one (base example_deployment) (\<lambda>_ _. None) (days 31) ?sub (None, False, wdb relay_world) = Inr (h, c, db')"
    by (metis prod.exhaust)
  then have exp: "expire_elapsed_subscriptions (base example_deployment) (\<lambda>_ _. None) (days 31) [?sub] (wdb relay_world) =
      Inr (if c then map (refresh db') [?sub] else [?sub], db')"
    by (simp add: expire_elapsed_subscriptions_def)
  have rows: "set [?sub] \<subseteq> set (subscriptions (wdb relay_world))" "distinct (map sub_id (subscriptions (wdb relay_world)))"
    using relay_world_rows(3) by (simp_all add: relay_world_def subscription_indexes_def)
  have e: "ep_grace_through (ee_payload (example_issued ''198.51.100.7'' ''a'' ''a.blindport.io:443'')) = 2595600"
    by (simp add: example_issued_def offline_entitlement_def Let_def)
  have grace: "OFFLINE_ENTITLEMENTS_ENABLED example_deployment" "OFFLINE_ENTITLEMENT_GRACE_SECONDS example_deployment \<le> 604800" "0 \<le> days 30"
    by (simp_all add: example_deployment_def days_def seconds_def)
  have id: "sub_id ?sub = 1" by (simp add: port_row_def)
  show ?thesis
    using offline_grace_before_reuse [of example_probe offline_example, OF _ _ _ offline_issued(1) example_row_fields(1) grace(3) _ rows _ _ elapsed]
      exp example_deployment_accepted grace by (simp add: e id example_row_fields(3)) blast
qed

lemma offline_enrolled: "enrolled_client_public_key offline_example offline_credential offline_user example_instance (seconds 50) = Inr client_key"
proof -
  have "canonical_uuid example_instance" "canonical_uuid4 (user_public_id offline_user)" by code_simp+
  then show ?thesis
    by (simp add: enrolled_client_public_key_def offline_credential_def offline_example_def offline_user_def sample_user_def Let_def
        generation_limits clock_simps parse_client_certificate_common_name_def nat_hex.simps)
qed

theorem offline_config_exact_witness:
  "\<exists>ps e f. offline_client_config offline_example True [offline_credential] offline_user example_instance (seconds 50) relay_world = (Inr ps, relay_world) \<and>
     map pv_subscription ps = [port_row 1 10000] \<and> map pv_edges ps = [[e, f]] \<and>
     ee_endpoint e = ''a.blindport.io:443'' \<and> ep_ip (ee_payload e) = ''198.51.100.7'' \<and> ep_port (ee_payload e) = 10000 \<and>
     ee_endpoint f = ''b.blindport.io:443'' \<and> ep_ip (ee_payload f) = ''198.51.100.8'' \<and> ep_transport (ee_payload f) = ''tcp'' \<and>
     ee_artifact f = ''v1.'' @ b64url (payload_json (ee_payload f)) @ ''.'' @ b64url (example_sign (payload_json (ee_payload f)))"
proof -
  have raw: "raw_edges example_deployment (port_row 1 10000) = Some [\<lparr>edge_endpoint = ''a.blindport.io:443'', edge_ip = ''198.51.100.7''\<rparr>,
      \<lparr>edge_endpoint = ''b.blindport.io:443'', edge_ip = ''198.51.100.8''\<rparr>]"
    by (simp add: raw_edges_def example_row_fields port_edges_def example_deployment_def example_settings_def)
  then have "provision offline_example example_sign offline_user offline_credential client_key (seconds 50) (port_row 1 10000) \<noteq> Inl e" for e
    using offline_issued by (simp add: provision_def)
  then obtain p where p: "provision offline_example example_sign offline_user offline_credential client_key (seconds 50) (port_row 1 10000) = Inr p"
    by (metis sum.exhaust)
  have guards: "length example_instance = 36" "canonical_uuid example_instance" "OFFLINE_ENTITLEMENTS_ENABLED example_deployment"
    "user_id offline_user = 1" "cred_user_id offline_credential = 1" "cred_instance_id offline_credential = example_instance"
    by (simp_all add: example_instance_def example_deployment_def offline_user_def sample_user_def offline_credential_def) code_simp
  have run: "offline_client_config offline_example True [offline_credential] offline_user example_instance (seconds 50) relay_world = (Inr [p], relay_world)"
    by (simp add: offline_client_config_def guards offline_enrolled relay_world_reaped relay_world_unexpired Let_def)
      (simp add: relay_world_active example_row_fields raw p)
  have sub: "pv_subscription p = port_row 1 10000" using p by (auto simp: provision_def map_sum_def split: sum.splits)
  obtain cred pk sign where load: "load_signer offline_example (OFFLINE_ENTITLEMENT_PRIVATE_KEY_FILE (rel_deployment offline_example)) = Some sign"
    and all: "\<forall>q \<in> set [p]. list_all2 (\<lambda>raw e. ee_endpoint e = edge_endpoint raw \<and>
          (\<exists>edge \<in> set (relay_edges_list (rel_deployment offline_example)). stable_id edge = ee_id e \<and> stable_endpoint edge = ee_endpoint e) \<and>
          entitlement_for offline_example sign offline_user cred pk (pv_subscription q) raw e)
        (the (raw_edges (rel_deployment offline_example) (pv_subscription q))) (pv_edges q)"
    using offline_config_exact [of example_probe offline_example, OF _ relay_world_rows(1) run refl] example_deployment_accepted
    by auto
  have sign: "sign = example_sign" using load by simp
  have edges: "list_all2 (\<lambda>raw e. ee_endpoint e = edge_endpoint raw \<and>
          (\<exists>edge \<in> set (relay_edges_list example_deployment). stable_id edge = ee_id e \<and> stable_endpoint edge = ee_endpoint e) \<and>
          entitlement_for offline_example example_sign offline_user cred pk (port_row 1 10000) raw e)
        [\<lparr>edge_endpoint = ''a.blindport.io:443'', edge_ip = ''198.51.100.7''\<rparr>, \<lparr>edge_endpoint = ''b.blindport.io:443'', edge_ip = ''198.51.100.8''\<rparr>]
        (pv_edges p)"
    using all sub raw sign by simp
  then obtain e f where ef: "pv_edges p = [e, f]" by (auto simp: list_all2_Cons1)
  show ?thesis
    using edges run sub by (intro exI [of _ "[p]"] exI [of _ e] exI [of _ f])
      (simp add: ef entitlement_for_def resource_named_def example_row_fields transport_name_def Let_def)
qed

definition example_claim_scope :: entitlement_claim where
  "example_claim_scope = \<lparr> ec_account = user_public_id offline_user, ec_subscription = ''s1'', ec_instance = example_instance,
     ec_client_pk = client_key, ec_edge = \<lparr>stable_id = ''a'', stable_endpoint = ''a.blindport.io:443''\<rparr>,
     ec_relay_edge = \<lparr>edge_endpoint = ''a.blindport.io:443'', edge_ip = ''198.51.100.7''\<rparr>, ec_kind = PORT, ec_ip = ''198.51.100.7'',
     ec_port = 10000, ec_transport = ''tcp'', ec_domain = [], ec_paid_through = 2592000, ec_scope = EXACT \<rparr>"

definition example_fields :: "string \<times> string \<times> int \<times> string \<times> string \<times> hostname_scope" where
  "example_fields = (''port'', ''198.51.100.7'', 10000, ''tcp'', [], EXACT)"

theorem scope_encoding_injective_witness:
  "scope_encoding (example_claim_scope\<lparr>ec_kind := IP\<rparr>) 3 example_fields = scope_encoding example_claim_scope 3 example_fields \<and>
   ec_paid_through (example_claim_scope\<lparr>ec_kind := IP\<rparr>) = ec_paid_through example_claim_scope \<and>
   scope_encoding example_claim_scope 3 example_fields \<noteq> scope_encoding example_claim_scope 4 example_fields"
proof -
  obtain m n where gen: "entitlement_generation (ec_paid_through example_claim_scope) 3 = Inr m"
    "entitlement_generation (ec_paid_through example_claim_scope) 4 = Inr n"
    by (simp add: example_claim_scope_def entitlement_generation_def generation_limits)
  have "length (uuid_bytes (ec_account example_claim_scope)) = 16" "length (uuid_bytes (ec_instance example_claim_scope)) = 16"
    "length (uuid_bytes (ec_subscription example_claim_scope)) = 1"
    by (simp_all add: uuid_bytes_def example_claim_scope_def offline_user_def example_instance_def)
  then have sized: "sized_fields example_claim_scope example_fields"
    by (simp add: sized_fields_def example_fields_def) (simp add: example_claim_scope_def)
  then have sized': "sized_fields (example_claim_scope\<lparr>ec_kind := IP\<rparr>) example_fields" by (simp add: sized_fields_def)
  have gen': "entitlement_generation (ec_paid_through (example_claim_scope\<lparr>ec_kind := IP\<rparr>)) 3 = Inr m" using gen(1) by simp
  have eq: "scope_encoding (example_claim_scope\<lparr>ec_kind := IP\<rparr>) 3 example_fields = scope_encoding example_claim_scope 3 example_fields"
    by (simp add: scope_encoding_def)
  from scope_encoding_injective [OF gen' gen(1) sized' sized eq] eq scope_encoding_injective [OF gen sized sized]
  show ?thesis by auto
qed

end
