(* ===== verification/Spec2Isabelle.thy ===== *)
theory Spec2Isabelle
  imports Prelude Crockford Hostnames Models Settings Database Ip_Leases Allocator Notifications
    Subscription_Lifecycle Referrals Payment_Settlement Payment_Wallets Settlement_Standing
    Subscription_Orders Hostname_Claims Hostname_Exclusion Order_Guarantees Payment_Creation Assignment_Safety
    Rate_Limits Bandwidth Client_Enrollment
    Notification_Email Notification_Delivery Notification_Safety
    Refinement Browser_Sessions Authentication Agent_Orders Payment_Reconciliation WireGuard
    Configuration Relay_Authorization Relay_Heartbeats Offline_Entitlements
begin

text \<open>
  \<^bold>\<open>Blindport control plane.\<close> Blindport sells dedicated addresses (IP), shared sockets (Port) and relayed
  hostnames (Relay) against Lightning payments. The control plane, \<^verbatim>\<open>src/backend/src/blindport\<close>, is a web
  application over one relational database: services under \<^verbatim>\<open>services/\<close> hold the business logic, routers
  under \<^verbatim>\<open>api/\<close> translate requests into service calls, adapters under \<^verbatim>\<open>adapters/\<close> talk to the Lightning
  node, to LNURL and wallet services and to mail, and worker loops call the services periodically. This
  development models the services that decide who holds what, who is charged and who is admitted, and
  proves what makes them correct.

  \<^bold>\<open>Conventions.\<close>
  \<^item> A table is a list of records (\<open>Models\<close>, one record per table with the columns the services use, under
    their names, prefixed where two tables share a column name); \<open>Database\<close> collects the tables and states
    the unique indexes. A flush that would violate one is \<open>IntegrityError\<close>.
  \<^item> Time is an integer of microseconds; an operation reads the clock once (\<open>now\<close>). The code reads it again
    after provider calls, in \<^verbatim>\<open>check_and_settle_payment\<close> and \<^verbatim>\<open>_finalize_payment\<close> among others: an operation
    whose provider calls take long enough to cross a deadline within it is not represented.
  \<^item> An exception of the code is a value of \<open>error\<close>. A transaction is a function
    \<open>database \<Rightarrow> error + database\<close>: when it raises, the caller keeps the old database. A conditional
    \<^verbatim>\<open>UPDATE ... WHERE\<close> tests the stored row, session objects are snapshot records.
  \<^item> An operation that calls a provider is a computation on a \<open>world\<close>: the committed database and the log of
    provider calls. The \<open>gateway\<close> answers from that log and the call, so the theorems hold for every
    provider behaviour, failures included. Random draws, HMACs, hashes, ciphers and IDNA conversion are
    parameters.
  \<^item> Other sessions that commit in the middle of an operation are the argument \<open>racing\<close>; row locks and
    advisory locks of the code make the rest of an operation one step, as in \<open>begin_delivery\<close>; SQLite, which
    ignores \<^verbatim>\<open>SELECT FOR UPDATE\<close>, is covered only as far as it serialises the writers.
  \<^item> Loops over selected rows are recursion on the list of identifiers; every model function is total.
    The mutual recursion of LNURL verification and settlement is the only one bounded by a depth:
    \<open>finalize_payment\<close> takes the number of nested verifications. One is enough at a single clock reading
    (\<open>lnurl_throttle_settles\<close>), because the throttle written by the first check stops the second; provider
    calls that outlast the ten seconds of that throttle, after which the code would check once more, are not
    represented.

  \<^bold>\<open>Theories, sources and what is shown.\<close>
  \<^item> \<open>Prelude\<close>: time units, strings, errors, table operations, and the locales \<open>transition_system\<close> and
    \<open>monotone_system\<close> through which every history theorem goes.
  \<^item> \<open>Crockford\<close> (\<^verbatim>\<open>core/crockford.py\<close>, \<^verbatim>\<open>core/tokens.py\<close>): display tokens decode to their bytes; \<open>normalize\<close> is a
    projection that keeps verification.
  \<^item> \<open>Hostnames\<close> (\<^verbatim>\<open>core/hostnames.py\<close>, \<^verbatim>\<open>core/lightning_address.py\<close>): accepted names and addresses are
    canonical.
  \<^item> \<open>Settings\<close> (\<^verbatim>\<open>config.py\<close>, the fields the services read) and \<open>Configuration\<close> (\<^verbatim>\<open>config.py\<close>, the validation
    between fields and of a production deployment): what an accepted configuration guarantees of addresses,
    edges and periods, on which the relay and offline theorems rest.
  \<^item> \<open>Ip_Leases\<close> (\<^verbatim>\<open>services/ip_leases.py\<close>): lease episodes stay consistent, released ones never change.
  \<^item> \<open>Allocator\<close> (\<^verbatim>\<open>services/allocator.py\<close>, \<^verbatim>\<open>services/catalog.py\<close>): the first-fit searches as interpretations of
    the locale \<open>first_fit\<close>.
  \<^item> \<open>Notifications\<close> (\<^verbatim>\<open>services/notifications.py\<close>, \<^verbatim>\<open>services/notification_identity.py\<close>): queueing, which every
    settlement and expiry transaction performs.
  \<^item> \<open>Notification_Email\<close> (\<^verbatim>\<open>services/notification_email.py\<close>): an address is readable only under the generation a
    delivery was queued with. \<open>Notification_Delivery\<close> (\<^verbatim>\<open>services/notifications.py\<close>,
    \<^verbatim>\<open>services/notification_reconciliation.py\<close>, \<^verbatim>\<open>services/renewal_alerts.py\<close>): the transactions of the delivery
    worker. \<open>Notification_Safety\<close> interleaves any number of workers, one transaction per step: no event is
    mailed twice.
  \<^item> \<open>Subscription_Lifecycle\<close> (\<^verbatim>\<open>services/subscriptions.py\<close>, the operations within one transaction): expiry
    changes exactly the elapsed rows and keeps both holds; a Port the catalog sells can be reserved; the
    claim check refuses exactly the overlapping hostnames.
  \<^item> \<open>Referrals\<close> (\<^verbatim>\<open>services/referrals.py\<close>): the ledger is conserved and nothing is credited or paid twice.
  \<^item> \<open>Payment_Settlement\<close> (\<^verbatim>\<open>services/payments.py\<close>, provider-free part): a settlement grants one period to one
    subscription, once; stablecoin pricing is fair.
  \<^item> \<open>Payment_Wallets\<close> (\<^verbatim>\<open>services/payments.py\<close>, invoices, NWC, CLINK, LNURL, polling): the locale
    \<open>settlement_run\<close> lists the transactions and calls of a poll; a relation kept by each of them is kept by
    every poll. Its interpretations bound the wallet debits, freeze final payments, keep the LNURL throttle,
    and (\<open>Settlement_Standing\<close>) describe the subscriptions before and after.
  \<^item> \<open>Subscription_Orders\<close> (\<^verbatim>\<open>services/subscriptions.py\<close>, operations that reconcile payments on the way),
    \<open>Hostname_Claims\<close> and \<open>Hostname_Exclusion\<close>: names are released when due, and otherwise only when an upgrade of
    the name turns out to be paid; over any history
    no two accounts route the same hostname. The locale \<open>order_run\<close> extends \<open>settlement_run\<close> to the
    maintenance operations. \<open>Order_Guarantees\<close>: limits, the pro-rata upgrade credit, cancellation.
  \<^item> \<open>Payment_Creation\<close> (\<^verbatim>\<open>create_payment\<close>): over any history, concurrent sessions included, every payment row
    passes the price checks of settlement and a subscription has one open payment; \<open>stale_upgrade_credit\<close>
    exhibits a discount granted twice. \<open>Assignment_Safety\<close>: over the same histories assigned addresses come from
    the pool of their product and no address or socket is assigned twice; \<open>Relay_Authorization\<close> rests on it.
  \<^item> \<open>Rate_Limits\<close> (\<^verbatim>\<open>services/rate_limits.py\<close>): both limiters interpret the locale \<open>fixed_window\<close>: at most the
    configured number of admissions per window, whatever the history; a lost insert race is serial.
  \<^item> \<open>Bandwidth\<close> (\<^verbatim>\<open>services/bandwidth.py\<close>, the relay endpoint of \<^verbatim>\<open>api/internal.py\<close>): daily totals are the sums of
    the cursors behind them, also after a cleanup deleted the cursors; retries change nothing.
  \<^item> \<open>Client_Enrollment\<close> (\<^verbatim>\<open>services/client_enrollment.py\<close>): credentials only move forward, retries return the
    same certificate.
  \<^item> \<open>WireGuard\<close> (\<^verbatim>\<open>services/wireguard.py\<close>, \<^verbatim>\<open>core/wireguard.py\<close>): every peer key was signed by the identity its
    account had enrolled in some state of the history; a snapshot routes exactly the paid addresses, each to one key.
  \<^item> \<open>Relay_Authorization\<close> (\<^verbatim>\<open>api/internal.py\<close>, \<^verbatim>\<open>services/relay_routing.py\<close>): a token is resolved to exactly the
    paid resources of its account, no two accounts are authorised for the same address, socket or name, and
    a requested tunnel has one subscription. \<open>Relay_Heartbeats\<close> (\<^verbatim>\<open>api/internal.py\<close>): the report tables refine a
    store of the newest report per edge, again through \<open>functional_refinement\<close>.
  \<^item> \<open>Offline_Entitlements\<close> (\<^verbatim>\<open>services/offline_entitlements.py\<close>, \<^verbatim>\<open>core/ca.py\<close>, the provisioning endpoints of
    \<^verbatim>\<open>api/v2.py\<close> and \<^verbatim>\<open>api/v3.py\<close>): exactly the paid claims are signed, identifiers and generations encode their
    fields without loss, and a resource is held at least as long as relays honour an entitlement for it.
  \<^item> \<open>Agent_Orders\<close> (\<^verbatim>\<open>services/agent_orders.py\<close>): an order key stands for one order, one subscription and at most
    one payment over any history; a repeated request orders nothing twice.
  \<^item> \<open>Payment_Reconciliation\<close> (\<^verbatim>\<open>services/payment_reconciliation.py\<close>): one cycle of the worker polls a bounded batch
    and opens exactly renewals that are due; the health state follows from the last completed cycle.
  \<^item> \<open>Browser_Sessions\<close> (\<^verbatim>\<open>services/browser_sessions.py\<close>): the session table refines an abstract store, through the
    locale \<open>functional_refinement\<close> of \<open>Refinement\<close>; a session proves a recent login. \<open>Authentication\<close>
    (\<^verbatim>\<open>core/auth.py\<close>): which requests are attributed to which account.

  \<^bold>\<open>Assumptions.\<close> The unique index on payment hashes is checked where a payment is staged; the hash an LNURL
  provider returns later is taken to be fresh. \<^verbatim>\<open>LIKE\<close> on canonical hostnames is a suffix test. A creation
  instant is never missing. The second part of \<open>bandwidth_conserved\<close>, on days whose cursors were deleted, needs
  the retention period to cover the report age, which the settings do not enforce. The canonical text of an IP address is a parameter, because
  its spelling depends on the version of the interpreter. \<open>authorizations_exclusive\<close> speaks of
  histories under one configuration, from tables whose assignments come from its inventory: a row assigned
  under an earlier inventory is outside it.

  \<^bold>\<open>Not modelled.\<close> HTTP routers and pages other than the relay, bandwidth and provisioning endpoints (request
  translation), passkeys and the issuing of certificates (cryptography of libraries), adapters (network I/O,
  parameters here), migrations, templates, the admin dashboard (read-only views), the administration of
  announcements and the reminder tables of earlier releases, DNS supervision, the exchange-rate cache, the
  asynchronous loops around the worker cycles, and the parsing of single configuration fields.
\<close>

end
